(* ===== verification/Prelude.thy ===== *)
theory Prelude
  imports Main "HOL-Library.Char_ord" "HOL-Library.List_Lexorder"
begin

section \<open>Shared vocabulary: errors, results, JSON values, text and lists\<close>

text \<open>
  What every component of the model uses.
  A thrown JavaScript error is a value of \<open>error\<close>, a function that may throw
  returns an \<open>'a res\<close>; \<open>Inl\<close> is the throw and \<open>Inr\<close> the return.
  Data whose shape the code does not look into (tool inputs, results, evidence,
  checkpoints) is a value of \<open>json\<close>.  Objects used as dictionaries are
  association lists in insertion order, because the code also enumerates them.
  Numbers are integers: the code modelled here uses JavaScript numbers for counters,
  generations, revisions, sequence numbers and budgets only, all of them safe integers.
  Strings are lists of 8-bit characters.
\<close>

named_theorems model_defs \<open>definitions that a case analysis of an operation unfolds\<close>
named_theorems frame \<open>what an operation leaves alone\<close>

subsection \<open>JSON values\<close>

datatype json =
    JNull
  | JBool bool
  | JNum int
  | JStr string
  | JArr "json list"
  | JObj "(string \<times> json) list"

text \<open>\<open>x ?? d\<close> for a value that may be absent or \<open>null\<close>.\<close>

fun coalesce :: "json \<Rightarrow> json \<Rightarrow> json" where
  "coalesce JNull d = d"
| "coalesce v d = v"

abbreviation text_or_null :: "string option \<Rightarrow> json" where
  "text_or_null x \<equiv> (case x of None \<Rightarrow> JNull | Some s \<Rightarrow> JStr s)"

subsection \<open>Errors and results\<close>

text \<open>
  \<open>Invariant\<close> is the plain \<open>Error\<close> of \<open>invariant(condition, message)\<close>,
  \<open>TypeFault\<close> the \<open>TypeError\<close> the application packages throw instead; the
  others are the error classes the code inspects by class or by \<open>code\<close>.
  \<open>External\<close> is whatever a function supplied by the caller throws.
\<close>

datatype error =
    Invariant string
  | TypeFault string
  | StoreConflict string int int
  | SchemaUnsupported string int int
  | BindingMismatch string "string list"
  | RecoveryRequired string string string
  | Contract string string
  | External json

type_synonym 'a res = "error + 'a"

definition rbind :: "'a res \<Rightarrow> ('a \<Rightarrow> 'b res) \<Rightarrow> 'b res" where
  "rbind m f = (case m of Inl e \<Rightarrow> Inl e | Inr x \<Rightarrow> f x)"

lemma rbind_simps [simp]:
  "rbind (Inl e) f = Inl e"
  "rbind (Inr x) f = f x"
  by (simp_all add: rbind_def)

lemma rbind_Inr_iff [simp]: "rbind m f = Inr y \<longleftrightarrow> (\<exists>x. m = Inr x \<and> f x = Inr y)"
  by (cases m) auto

lemma rbind_Inl_iff: "rbind m f = Inl e \<longleftrightarrow> m = Inl e \<or> (\<exists>x. m = Inr x \<and> f x = Inl e)"
  by (cases m) auto

lemma rbind_cong [fundef_cong]:
  "m = m' \<Longrightarrow> (\<And>x. m' = Inr x \<Longrightarrow> f x = g x) \<Longrightarrow> rbind m f = rbind m' g"
  by (cases m') auto

definition is_ok :: "'a res \<Rightarrow> bool" where
  "is_ok r \<longleftrightarrow> (case r of Inl _ \<Rightarrow> False | Inr _ \<Rightarrow> True)"

lemma is_ok_simps [simp]: "is_ok (Inr x)" "\<not> is_ok (Inl e)"
  by (simp_all add: is_ok_def)

text \<open>\<open>invariant(condition, message)\<close> of \<open>contracts.js\<close>.\<close>

definition invariant :: "bool \<Rightarrow> string \<Rightarrow> unit res" where
  "invariant c msg = (if c then Inr () else Inl (Invariant msg))"

text \<open>Mapping a function that may throw over an array, left to right.\<close>

fun map_res :: "('a \<Rightarrow> 'b res) \<Rightarrow> 'a list \<Rightarrow> 'b list res" where
  "map_res f [] = Inr []"
| "map_res f (x # xs) = rbind (f x) (\<lambda>y. rbind (map_res f xs) (\<lambda>ys. Inr (y # ys)))"

lemma map_res_length: "map_res f xs = Inr ys \<Longrightarrow> length ys = length xs"
  by (induction xs arbitrary: ys) auto

lemma map_res_set: "map_res f xs = Inr ys \<Longrightarrow> y \<in> set ys \<Longrightarrow> \<exists>x \<in> set xs. f x = Inr y"
  by (induction xs arbitrary: ys) auto

lemma map_res_id: "(\<And>x. x \<in> set xs \<Longrightarrow> f x = Inr x) \<Longrightarrow> map_res f xs = Inr xs"
  by (induction xs) auto

lemma map_res_cong [fundef_cong]:
  "xs = ys \<Longrightarrow> (\<And>x. x \<in> set ys \<Longrightarrow> f x = g x) \<Longrightarrow> map_res f xs = map_res g ys"
  by (induction ys arbitrary: xs) auto

subsection \<open>Text\<close>

text \<open>The characters below 256 that \<open>String.prototype.trim\<close> removes.\<close>

definition js_space :: "char \<Rightarrow> bool" where
  "js_space c \<longleftrightarrow> of_char c \<in> {9, 10, 11, 12, 13, 32, (160::nat)}"

definition trim :: "string \<Rightarrow> string" where
  "trim s = rev (dropWhile js_space (rev (dropWhile js_space s)))"

definition nonblank :: "string \<Rightarrow> bool" where
  "nonblank s \<longleftrightarrow> trim s \<noteq> []"

lemma nonblank_iff: "nonblank s \<longleftrightarrow> (\<exists>c \<in> set s. \<not> js_space c)"
proof -
  have "trim s = [] \<longleftrightarrow> (\<forall>c \<in> set (dropWhile js_space s). js_space c)"
    by (simp add: trim_def)
  also have "\<dots> \<longleftrightarrow> (\<forall>c \<in> set s. js_space c)"
    by (induction s) auto
  finally show ?thesis by (auto simp: nonblank_def)
qed

lemma nonblank_appendI: "nonblank s \<Longrightarrow> nonblank (s @ t)" "nonblank t \<Longrightarrow> nonblank (s @ t)"
  by (auto simp: nonblank_iff)

lemma nonblank_Nil [simp]: "\<not> nonblank []"
  by (simp add: nonblank_iff)

text \<open>\<open>requireText\<close> of \<open>contracts.js\<close>, on a value of any type.\<close>

fun require_text :: "json \<Rightarrow> string \<Rightarrow> string res" where
  "require_text (JStr s) label =
     (if nonblank s then Inr s else Inl (Invariant (label @ '' must be non-empty text'')))"
| "require_text v label = Inl (Invariant (label @ '' must be non-empty text''))"

lemma require_text_Inr [simp]:
  "require_text v label = Inr s \<longleftrightarrow> v = JStr s \<and> nonblank s"
  by (cases v) auto

text \<open>Decimal digits of a number, as string interpolation writes it.\<close>

fun nat_text :: "nat \<Rightarrow> string" where
  "nat_text n =
     (if n < 10 then [char_of (48 + n)] else nat_text (n div 10) @ [char_of (48 + n mod 10)])"

declare nat_text.simps [simp del]

definition int_text :: "int \<Rightarrow> string" where
  "int_text i = (if i < 0 then CHR ''-'' # nat_text (nat (- i)) else nat_text (nat i))"

subsection \<open>Dictionaries as association lists\<close>

text \<open>
  \<open>o[k]\<close> is \<open>map_of o k\<close>; \<open>o[k] = v\<close> overwrites in place or appends, which
  keeps JavaScript's insertion order.
\<close>

fun aset :: "'k \<Rightarrow> 'v \<Rightarrow> ('k \<times> 'v) list \<Rightarrow> ('k \<times> 'v) list" where
  "aset k v [] = [(k, v)]"
| "aset k v ((k', v') # r) = (if k' = k then (k, v) # r else (k', v') # aset k v r)"

lemma map_of_aset [simp]: "map_of (aset k v m) = (map_of m)(k \<mapsto> v)"
  by (induction k v m rule: aset.induct) (auto simp: fun_eq_iff)

lemma aset_keys: "map fst (aset k v m) = (if k \<in> fst ` set m then map fst m else map fst m @ [k])"
  by (induction k v m rule: aset.induct) auto

lemma fst_set_aset [simp]: "fst ` set (aset k v m) = insert k (fst ` set m)"
  by (induction k v m rule: aset.induct) auto

lemma set_aset_cases: "p \<in> set (aset k v m) \<Longrightarrow> p = (k, v) \<or> p \<in> set m"
  by (induction k v m rule: aset.induct) (auto split: if_splits)

lemma distinct_aset: "distinct (map fst m) \<Longrightarrow> distinct (map fst (aset k v m))"
  by (auto simp: aset_keys)

subsection \<open>Arrays used as sets\<close>

text \<open>\<open>[...new Set(xs)]\<close>: duplicates go, the first occurrence stays.\<close>

fun uniq_acc :: "'a list \<Rightarrow> 'a list \<Rightarrow> 'a list" where
  "uniq_acc seen [] = rev seen"
| "uniq_acc seen (x # xs) = (if x \<in> set seen then uniq_acc seen xs else uniq_acc (x # seen) xs)"

definition uniq :: "'a list \<Rightarrow> 'a list" where
  "uniq xs = uniq_acc [] xs"

lemma set_uniq_acc: "set (uniq_acc seen xs) = set seen \<union> set xs"
  by (induction seen xs rule: uniq_acc.induct) auto

lemma distinct_uniq_acc: "distinct seen \<Longrightarrow> distinct (uniq_acc seen xs)"
  by (induction seen xs rule: uniq_acc.induct) auto

lemma uniq_acc_distinct:
  "distinct xs \<Longrightarrow> set seen \<inter> set xs = {} \<Longrightarrow> uniq_acc seen xs = rev seen @ xs"
  by (induction seen xs rule: uniq_acc.induct) auto

lemma set_uniq [simp]: "set (uniq xs) = set xs"
  by (simp add: uniq_def set_uniq_acc)

lemma distinct_uniq [simp]: "distinct (uniq xs)"
  by (simp add: uniq_def distinct_uniq_acc)

lemma uniq_id [simp]: "distinct xs \<Longrightarrow> uniq xs = xs"
  by (simp add: uniq_def uniq_acc_distinct)

text \<open>\<open>addUnique(target, values)\<close> of \<open>blackboard-orchestrator.js\<close>.\<close>

fun add_unique :: "'a list \<Rightarrow> 'a list \<Rightarrow> 'a list" where
  "add_unique target [] = target"
| "add_unique target (v # vs) =
     (if v \<in> set target then add_unique target vs else add_unique (target @ [v]) vs)"

lemma set_add_unique [simp]: "set (add_unique target vs) = set target \<union> set vs"
  by (induction target vs rule: add_unique.induct) auto

lemma distinct_add_unique [simp]: "distinct (add_unique target vs) = distinct target"
  by (induction target vs rule: add_unique.induct) auto

lemma add_unique_prefix: "\<exists>ys. add_unique target vs = target @ ys"
  by (induction target vs rule: add_unique.induct) auto

text \<open>\<open>xs.at(-1) ?? null\<close>.\<close>

definition last_opt :: "'a list \<Rightarrow> 'a option" where
  "last_opt xs = (if xs = [] then None else Some (last xs))"

lemma last_opt_simps [simp]: "last_opt [] = None" "last_opt (xs @ [x]) = Some x"
  by (simp_all add: last_opt_def)

end
