(* ===== verification/Session_Store.thy ===== *)
theory Session_Store
  imports Prelude
begin

section \<open>Revisioned session documents\<close>

text \<open>
  Models \<open>packages/core-harness/src/persistence.js\<close> and \<open>store.js\<close>: the session
  document, its schema migration and normalisation, the in-memory store with its
  optimistic revision check, and the validating wrapper.  The interface the other
  components rely on (\<open>load\<close>, and \<open>save\<close> with an expected revision) is the record
  \<open>session_store\<close>; its contract is the locale \<open>revision_store\<close>, proved here of both
  implementations.
\<close>

subsection \<open>The document\<close>

text \<open>
  \<open>None\<close> stands for a missing (or \<open>null\<close>) property.  \<open>memory_lists\<close> holds the array
  properties of \<open>persistentMemory\<close> that normalisation fills in; \<open>memory\<close> is the rest of
  \<open>persistentMemory\<close>, which differs between the components that store documents.
\<close>

record 'm session =
  sid :: string
  schema_version :: "int option"
  revision :: "int option"
  work :: "json option"
  memory_lists :: "(string \<times> json list) list"
  memory :: 'm
  trajectory :: "json list option"
  supervision :: "json option"
  created_at :: string
  updated_at :: string

definition current_schema_version :: int where
  "current_schema_version = 2"

definition or_else :: "'a option \<Rightarrow> 'a \<Rightarrow> 'a" where
  "or_else x d = (case x of None \<Rightarrow> d | Some v \<Rightarrow> v)"

lemma or_else_simps [simp]: "or_else None d = d" "or_else (Some v) d = v"
  by (simp_all add: or_else_def)

definition require_version :: "int \<Rightarrow> string \<Rightarrow> int res" where
  "require_version v label =
     (if 0 < v then Inr v else Inl (Invariant (label @ '' must be a positive integer'')))"

text \<open>\<open>memory[key] ??= []\<close> for each key in turn.\<close>

fun fill_lists :: "string list \<Rightarrow> (string \<times> json list) list \<Rightarrow> (string \<times> json list) list" where
  "fill_lists [] m = m"
| "fill_lists (k # ks) m = fill_lists ks (if map_of m k = None then m @ [(k, [])] else m)"

lemma map_of_fill_lists:
  "map_of (fill_lists ks m) k =
     (case map_of m k of Some v \<Rightarrow> Some v | None \<Rightarrow> if k \<in> set ks then Some [] else None)"
  by (induction ks m rule: fill_lists.induct)
    (auto simp: map_add_def split: option.splits if_splits)

lemma fill_lists_fixed: "(\<forall>k \<in> set ks. map_of m k \<noteq> None) \<Longrightarrow> fill_lists ks m = m"
  by (induction ks m rule: fill_lists.induct) auto

declare fill_lists.simps [simp del]

subsection \<open>Migration\<close>

record 'm migration =
  from_version :: int
  migrate_step :: "'m session \<Rightarrow> 'm session res"

definition migration_v1_step :: "'m session \<Rightarrow> 'm session res" where
  "migration_v1_step s =
     Inr (s\<lparr>schema_version := Some 2,
            memory_lists := fill_lists [''evidenceArtifacts'', ''decisionArtifacts'', ''attestations'', ''searchInvestmentDecisions''] (memory_lists s)\<rparr>)"

definition built_in_migrations :: "'m migration list" where
  "built_in_migrations = [\<lparr>from_version = 1, migrate_step = migration_v1_step\<rparr>]"

text \<open>\<open>createStateMigrator\<close>: the table of migrations by source version, duplicates refused.\<close>

fun migration_table ::
  "'m migration list \<Rightarrow> (int \<times> ('m session \<Rightarrow> 'm session res)) list \<Rightarrow> (int \<times> ('m session \<Rightarrow> 'm session res)) list res" where
  "migration_table [] table = Inr table"
| "migration_table (m # ms) table =
     rbind (require_version (from_version m) ''migration fromVersion'') (\<lambda>from.
       if map_of table from \<noteq> None
       then Inl (Invariant (''duplicate migration from version '' @ int_text from))
       else migration_table ms (table @ [(from, migrate_step m)]))"

text \<open>
  The loop of \<open>migrate\<close>.  A migration must produce exactly the next version, so the
  distance to the target shrinks.
\<close>

function migrate_loop ::
  "(int \<times> ('m session \<Rightarrow> 'm session res)) list \<Rightarrow> int \<Rightarrow> 'm session \<Rightarrow> 'm session res" where
  "migrate_loop table target s =
     (let v = or_else (schema_version s) 1 in
      if v < target then
        (case map_of table v of
           None \<Rightarrow> Inl (Invariant (''missing state migration from version '' @ int_text v))
         | Some f \<Rightarrow>
             rbind (f s) (\<lambda>n.
               if schema_version n = Some (v + 1) then migrate_loop table target n
               else Inl (Invariant (''migration from version '' @ int_text v @ '' must produce schemaVersion '' @ int_text (v + 1)))))
      else Inr s)"
  by pat_completeness auto
termination
  by (relation "measure (\<lambda>(table, target, s). nat (target - or_else (schema_version s) 1))") auto

declare migrate_loop.simps [simp del]

definition migrate :: "'m migration list \<Rightarrow> int \<Rightarrow> 'm session \<Rightarrow> 'm session res" where
  "migrate migrations target s =
     rbind (migration_table migrations []) (\<lambda>table.
       let v = or_else (schema_version s) 1 in
       rbind (require_version v ''state schemaVersion'') (\<lambda>_.
         if target < v then Inl (SchemaUnsupported (sid s) v target)
         else migrate_loop table target (s\<lparr>schema_version := Some v\<rparr>)))"

lemma migrate_loop_target:
  "migrate_loop table target s = Inr r \<Longrightarrow> or_else (schema_version s) 1 \<le> target
     \<Longrightarrow> or_else (schema_version r) 1 = target"
proof (induction table target s rule: migrate_loop.induct)
  case (1 table target s)
  show ?case
  proof (cases "or_else (schema_version s) 1 < target")
    case False
    with 1 show ?thesis by (simp add: migrate_loop.simps [of table target s])
  next
    case True
    with "1.prems" obtain f n where f: "map_of table (or_else (schema_version s) 1) = Some f"
      and n: "f s = Inr n" "schema_version n = Some (or_else (schema_version s) 1 + 1)"
      and r: "migrate_loop table target n = Inr r"
      by (auto simp: migrate_loop.simps [of table target s] Let_def split: option.splits if_splits)
    from "1.IH" [OF refl True f n] r n True show ?thesis by simp
  qed
qed

text \<open>What a chain of migrations keeps, when each of its steps keeps it.\<close>

lemma migrate_loop_keeps:
  "migrate_loop table target s = Inr r \<Longrightarrow> P s
     \<Longrightarrow> (\<And>v f s n. map_of table v = Some f \<Longrightarrow> f s = Inr n \<Longrightarrow> P s \<Longrightarrow> P n) \<Longrightarrow> P r"
proof (induction table target s rule: migrate_loop.induct)
  case (1 table target s)
  show ?case
  proof (cases "or_else (schema_version s) 1 < target")
    case False
    with 1 show ?thesis by (simp add: migrate_loop.simps [of table target s])
  next
    case True
    with "1.prems"(1) obtain f n where f: "map_of table (or_else (schema_version s) 1) = Some f"
      and n: "f s = Inr n" "schema_version n = Some (or_else (schema_version s) 1 + 1)"
      and r: "migrate_loop table target n = Inr r"
      by (auto simp: migrate_loop.simps [of table target s] Let_def split: option.splits if_splits)
    have "P n" using "1.prems"(3) [OF f n(1)] "1.prems"(2) by simp
    from "1.IH" [OF refl True f n r this] "1.prems"(3) show ?thesis by blast
  qed
qed

lemma migrate_target:
  "migrate ms target s = Inr r \<Longrightarrow> schema_version r = Some target \<or> or_else (schema_version r) 1 = target"
  by (auto simp: migrate_def Let_def require_version_def split: if_splits dest!: migrate_loop_target)

subsection \<open>Normalisation\<close>

definition standard_lists :: "string list" where
  "standard_lists =
     [''implementations'', ''observations'', ''verifications'', ''evaluations'', ''knowledge'',
      ''lineage'', ''variations'', ''searchInvestmentDecisions'', ''evidenceArtifacts'',
      ''decisionArtifacts'', ''attestations'']"

definition default_supervision :: json where
  "default_supervision =
     JObj [(''inspections'', JNum 0), (''skipped'', JNum 0), (''interventions'', JArr []),
           (''lastInspectedEventId'', JNull), (''lastDecision'', JNull)]"

definition normalize_state :: "'m session \<Rightarrow> 'm session res" where
  "normalize_state s =
     (let v = or_else (schema_version s) 1; r = or_else (revision s) 0 in
      if current_schema_version < v then Inl (SchemaUnsupported (sid s) v current_schema_version)
      else rbind (require_version v ''state schemaVersion'') (\<lambda>_.
        if r < 0 then Inl (Invariant ''state revision must be a non-negative integer'')
        else Inr (s\<lparr>schema_version := Some v, revision := Some r,
                    memory_lists := fill_lists standard_lists (memory_lists s),
                    trajectory := Some (or_else (trajectory s) []),
                    supervision := Some (or_else (supervision s) default_supervision)\<rparr>)))"

lemma normalize_state_Inr:
  assumes "normalize_state s = Inr n"
  shows "sid n = sid s" "memory n = memory s" "revision n = Some (or_else (revision s) 0)"
    "0 \<le> or_else (revision s) 0" "schema_version n = Some (or_else (schema_version s) 1)"
    "0 < or_else (schema_version s) 1" "or_else (schema_version s) 1 \<le> current_schema_version"
    "created_at n = created_at s" "updated_at n = updated_at s" "Session_Store.work n = Session_Store.work s"
  using assms by (auto simp: normalize_state_def Let_def require_version_def split: if_splits)

lemma normalize_state_lists:
  "normalize_state s = Inr n \<Longrightarrow> k \<in> set standard_lists \<Longrightarrow> map_of (memory_lists n) k \<noteq> None"
  by (auto simp: normalize_state_def Let_def map_of_fill_lists require_version_def split: if_splits option.splits)

lemma normalize_state_idem: "normalize_state s = Inr n \<Longrightarrow> normalize_state n = Inr n"
  by (auto simp: normalize_state_def Let_def require_version_def current_schema_version_def
        map_of_fill_lists fill_lists_fixed split: if_splits option.splits)

subsection \<open>The store interface\<close>

text \<open>
  \<open>sessionStore\<close> as the code receives it.  \<open>save\<close> takes the document and the expected
  revision; it answers with the new store and either the revision it reports (\<open>None\<close> when
  it reports none) or what it throws.
\<close>

record ('s, 'm) session_store =
  op_load :: "'s \<Rightarrow> string \<Rightarrow> 'm session option res"
  op_save :: "'s \<Rightarrow> 'm session \<Rightarrow> int \<Rightarrow> 's \<times> int option res"
  supports_revisions :: bool

definition assert_persisted_revision :: "int option \<Rightarrow> int \<Rightarrow> bool \<Rightarrow> int res" where
  "assert_persisted_revision result expected required =
     (case result of
        None \<Rightarrow> if required then Inl (Invariant ''revision-aware session store save() must return the persisted revision'')
                else Inr (expected + 1)
      | Some r \<Rightarrow> if r = expected + 1 then Inr r
                else Inl (Invariant ''session store save() must advance revision exactly once''))"

lemma assert_persisted_revision_Inr:
  "assert_persisted_revision result expected required = Inr r \<Longrightarrow> r = expected + 1"
  by (auto simp: assert_persisted_revision_def split: option.splits if_splits)

subsection \<open>The in-memory store\<close>

type_synonym 'm sessions = "(string \<times> 'm session) list"

definition stored_revision :: "'m sessions \<Rightarrow> string \<Rightarrow> int" where
  "stored_revision st i = (case map_of st i of None \<Rightarrow> 0 | Some d \<Rightarrow> or_else (revision d) 0)"

definition mem_load :: "'m sessions \<Rightarrow> string \<Rightarrow> 'm session option res" where
  "mem_load st i = Inr (map_of st i)"

definition mem_save :: "'m sessions \<Rightarrow> 'm session \<Rightarrow> int \<Rightarrow> 'm sessions \<times> int option res" where
  "mem_save st d expected =
     (if sid d = [] then (st, Inl (Invariant ''session store requires a session with id''))
      else if expected < 0 then (st, Inl (Invariant ''expectedRevision must be a non-negative integer''))
      else if stored_revision st (sid d) \<noteq> expected
      then (st, Inl (StoreConflict (sid d) expected (stored_revision st (sid d))))
      else (case normalize_state d of
              Inl e \<Rightarrow> (st, Inl e)
            | Inr n \<Rightarrow> (aset (sid d) (n\<lparr>revision := Some (expected + 1)\<rparr>) st, Inr (Some (expected + 1)))))"

definition in_memory_store :: "('m sessions, 'm) session_store" where
  "in_memory_store = \<lparr>op_load = mem_load, op_save = mem_save, supports_revisions = True\<rparr>"

subsection \<open>The validating wrapper\<close>

definition validated_load ::
  "('s, 'm) session_store \<Rightarrow> 'm migration list \<Rightarrow> int \<Rightarrow> 's \<Rightarrow> string \<Rightarrow> 'm session option res" where
  "validated_load ops ms target st i =
     rbind (op_load ops st i) (\<lambda>found. case found of
       None \<Rightarrow> Inr None
     | Some d \<Rightarrow> rbind (migrate ms target d) (\<lambda>m. rbind (normalize_state m) (\<lambda>n. Inr (Some n))))"

definition validated_save ::
  "('s, 'm) session_store \<Rightarrow> 's \<Rightarrow> 'm session \<Rightarrow> int \<Rightarrow> 's \<times> int option res" where
  "validated_save ops st d expected =
     (case normalize_state d of
        Inl e \<Rightarrow> (st, Inl e)
      | Inr n \<Rightarrow>
          (case op_save ops st n expected of
             (st', Inl e) \<Rightarrow> (st', Inl e)
           | (st', Inr result) \<Rightarrow>
               (st', rbind (assert_persisted_revision result (or_else (revision n) 0) (supports_revisions ops))
                       (\<lambda>r. Inr (Some r)))))"

definition validated_store ::
  "('s, 'm) session_store \<Rightarrow> 'm migration list \<Rightarrow> int \<Rightarrow> ('s, 'm) session_store" where
  "validated_store ops ms target =
     \<lparr>op_load = validated_load ops ms target, op_save = validated_save ops,
      supports_revisions = supports_revisions ops\<rparr>"

subsection \<open>The contract of a revisioned store\<close>

text \<open>
  What the code relies on: a loaded document carries the revision the store checks against;
  a successful \<open>save\<close> found exactly the expected revision and stores the saved content under
  the next one, touching no other document; a refused \<open>save\<close> that names the document's own
  revision changes nothing.  \<open>good\<close> is the store's own invariant.
\<close>

locale revision_store =
  fixes ops :: "('s, 'm) session_store"
    and rev_of :: "'s \<Rightarrow> string \<Rightarrow> int"
    and good :: "'s \<Rightarrow> bool"
  assumes load_total: "good st \<Longrightarrow> \<exists>found. op_load ops st i = Inr found"
    and load_absent: "good st \<Longrightarrow> op_load ops st i = Inr None \<Longrightarrow> rev_of st i = 0"
    and load_present: "good st \<Longrightarrow> op_load ops st i = Inr (Some d) \<Longrightarrow>
      sid d = i \<and> revision d = Some (rev_of st i) \<and> 0 < rev_of st i"
    and save_commits: "good st \<Longrightarrow> op_save ops st d e = (st', Inr r) \<Longrightarrow>
      good st' \<and> rev_of st (sid d) = e \<and> r = Some (e + 1) \<and>
      (\<exists>n. op_load ops st' (sid d) = Inr (Some n) \<and> memory n = memory d \<and> sid n = sid d \<and> revision n = Some (e + 1))"
    and save_frame: "good st \<Longrightarrow> op_save ops st d e = (st', Inr r) \<Longrightarrow> i \<noteq> sid d \<Longrightarrow>
      op_load ops st' i = op_load ops st i"
    and save_refused: "good st \<Longrightarrow> op_save ops st d (or_else (revision d) 0) = (st', Inl x) \<Longrightarrow> st' = st"

text \<open>
  What other writers may do to document \<open>i\<close> while an operation waits: the revision never
  goes back, and while it stands still the document does.
\<close>

definition interference ::
  "('s, 'm) session_store \<Rightarrow> ('s \<Rightarrow> string \<Rightarrow> int) \<Rightarrow> ('s \<Rightarrow> bool) \<Rightarrow> string \<Rightarrow> 's \<Rightarrow> 's \<Rightarrow> bool" where
  "interference ops rev_of good i st st' \<longleftrightarrow>
     good st' \<and> rev_of st i \<le> rev_of st' i \<and>
     (rev_of st' i = rev_of st i \<longrightarrow> op_load ops st' i = op_load ops st i)"

context revision_store
begin

lemma rev_after_save:
  assumes "good st" "op_save ops st d e = (st', Inr r)"
  shows "rev_of st' (sid d) = e + 1"
  using save_commits [OF assms] load_present [of st' "sid d"] by auto

text \<open>Saves are themselves interference in this sense, on the saved document and on others.\<close>

lemma save_is_interference:
  assumes "good st" "op_save ops st d e = (st', Inr r)"
  shows "interference ops rev_of good i st st'"
proof (cases "i = sid d")
  case True
  with assms save_commits [OF assms] rev_after_save [OF assms] show ?thesis
    by (auto simp: interference_def)
next
  case False
  then have same: "op_load ops st' i = op_load ops st i"
    using save_frame [OF assms] by simp
  have good': "good st'" using save_commits [OF assms] by simp
  obtain found where "op_load ops st i = Inr found" using load_total [OF assms(1)] by blast
  then have "rev_of st' i = rev_of st i"
    using same load_absent [OF assms(1)] load_absent [OF good'] load_present [OF assms(1)] load_present [OF good']
    by (cases found) fastforce+
  with same good' show ?thesis by (simp add: interference_def)
qed

text \<open>
  The optimistic check detects every concurrent write: a save that expects the revision read
  earlier succeeds only on the very document read earlier.
\<close>

lemma save_sees_read:
  assumes "good st" and read: "op_load ops st (sid d) = Inr found"
    and env: "interference ops rev_of good (sid d) st st1"
    and expect: "e = (case found of None \<Rightarrow> 0 | Some x \<Rightarrow> or_else (revision x) 0)"
    and save: "op_save ops st1 d e = (st2, Inr r)"
  shows "op_load ops st1 (sid d) = Inr found"
proof -
  have "rev_of st (sid d) = e"
    using load_absent [OF assms(1)] load_present [OF assms(1)] read expect by (cases found) auto
  moreover have "rev_of st1 (sid d) = e"
    using save_commits [OF _ save] env by (simp add: interference_def)
  ultimately show ?thesis using env read by (simp add: interference_def)
qed

end

subsection \<open>The in-memory store keeps the contract\<close>

definition mem_good :: "'m sessions \<Rightarrow> bool" where
  "mem_good st \<longleftrightarrow>
     (\<forall>i d. map_of st i = Some d \<longrightarrow> sid d = i \<and> normalize_state d = Inr d \<and> (\<exists>r > 0. revision d = Some r))"

lemma mem_good_empty: "mem_good []"
  by (simp add: mem_good_def)

lemma mem_good_lookup:
  "mem_good st \<Longrightarrow> map_of st i = Some d \<Longrightarrow>
     sid d = i \<and> normalize_state d = Inr d \<and> revision d = Some (stored_revision st i) \<and> 0 < stored_revision st i"
  by (fastforce simp: mem_good_def stored_revision_def)

lemma normalize_state_revision:
  "normalize_state n = Inr n \<Longrightarrow> 0 \<le> r \<Longrightarrow> normalize_state (n\<lparr>revision := Some r\<rparr>) = Inr (n\<lparr>revision := Some r\<rparr>)"
  by (cases n) (auto simp: normalize_state_def Let_def require_version_def split: if_splits)

lemma mem_save_Inr:
  assumes "mem_save st d e = (st', Inr r)"
  obtains n where "normalize_state d = Inr n" "0 \<le> e" "stored_revision st (sid d) = e" "r = Some (e + 1)"
    "st' = aset (sid d) (n\<lparr>revision := Some (e + 1)\<rparr>) st"
  using assms by (auto simp: mem_save_def split: if_splits sum.splits)

lemma mem_save_Inl: "mem_save st d e = (st', Inl x) \<Longrightarrow> st' = st"
  by (auto simp: mem_save_def split: if_splits sum.splits)

lemma mem_save_good:
  assumes "mem_good st" "mem_save st d e = (st', Inr r)"
  shows "mem_good st'"
proof -
  from assms(2) obtain n where n: "normalize_state d = Inr n" and e: "0 \<le> e"
    and st': "st' = aset (sid d) (n\<lparr>revision := Some (e + 1)\<rparr>) st"
    by (rule mem_save_Inr)
  from e have "normalize_state (n\<lparr>revision := Some (e + 1)\<rparr>) = Inr (n\<lparr>revision := Some (e + 1)\<rparr>)"
    by (intro normalize_state_revision normalize_state_idem [OF n]) simp
  with assms(1) st' e normalize_state_Inr(1) [OF n] show ?thesis
    by (auto simp: mem_good_def)
qed

interpretation mem: revision_store in_memory_store stored_revision mem_good
proof unfold_locales
  fix st :: "'a sessions" and d :: "'a session" and e st' r
  assume good: "mem_good st" and save: "op_save in_memory_store st d e = (st', Inr r)"
  then have save': "mem_save st d e = (st', Inr r)" by (simp add: in_memory_store_def)
  from save' obtain n where n: "normalize_state d = Inr n" "stored_revision st (sid d) = e" "r = Some (e + 1)"
    and st': "st' = aset (sid d) (n\<lparr>revision := Some (e + 1)\<rparr>) st"
    by (rule mem_save_Inr)
  with mem_save_good [OF good save'] normalize_state_Inr [OF n(1)]
  show "mem_good st' \<and> stored_revision st (sid d) = e \<and> r = Some (e + 1) \<and>
      (\<exists>n. op_load in_memory_store st' (sid d) = Inr (Some n) \<and> memory n = memory d \<and> sid n = sid d \<and> revision n = Some (e + 1))"
    by (auto simp: in_memory_store_def mem_load_def)
  fix i assume "i \<noteq> sid d"
  with st' show "op_load in_memory_store st' i = op_load in_memory_store st i"
    by (simp add: in_memory_store_def mem_load_def)
qed (auto simp: in_memory_store_def mem_load_def stored_revision_def dest: mem_save_Inl dest!: mem_good_lookup)

subsection \<open>So does the validating wrapper around it\<close>

abbreviation validated_memory :: "('m sessions, 'm) session_store" where
  "validated_memory \<equiv> validated_store in_memory_store built_in_migrations current_schema_version"

text \<open>
  The built-in migrations bring every document the in-memory store can hold to the current
  version, and keep its identity, revision and content.
\<close>

lemma migrate_built_in:
  assumes "normalize_state d = Inr d"
  obtains m where "migrate built_in_migrations current_schema_version d = Inr m"
    "sid m = sid d" "revision m = revision d" "memory m = memory d"
    "schema_version m = Some current_schema_version"
proof -
  let ?table = "[(1, migration_v1_step)]"
  have "schema_version d = Some 1 \<or> schema_version d = Some 2"
  proof -
    have "schema_version d = Some (or_else (schema_version d) 1)" "0 < or_else (schema_version d) 1"
      "or_else (schema_version d) 1 \<le> current_schema_version"
      using normalize_state_Inr [OF assms] by auto
    then show ?thesis by (cases "schema_version d") (auto simp: current_schema_version_def)
  qed
  then show thesis
  proof
    assume v: "schema_version d = Some 1"
    obtain n where step: "migration_v1_step d = Inr n" by (simp add: migration_v1_step_def)
    then have n: "migration_v1_step d = Inr n" "schema_version n = Some 2" "sid n = sid d"
      "revision n = revision d" "memory n = memory d"
      by (auto simp: migration_v1_step_def)
    have d: "d\<lparr>schema_version := Some 1\<rparr> = d" using v by (cases d) simp
    have "migrate_loop ?table 2 d = Inr n"
      by (simp add: v n migrate_loop.simps [of ?table 2 d] migrate_loop.simps [of ?table 2 n])
    then have "migrate built_in_migrations current_schema_version d = Inr n"
      by (simp add: v d migrate_def built_in_migrations_def require_version_def current_schema_version_def)
    from that [OF this] n show thesis by (simp add: current_schema_version_def)
  next
    assume v: "schema_version d = Some 2"
    have d: "d\<lparr>schema_version := Some 2\<rparr> = d" using v by (cases d) simp
    have "migrate_loop ?table 2 d = Inr d" by (simp add: v migrate_loop.simps [of ?table 2 d])
    then have "migrate built_in_migrations current_schema_version d = Inr d"
      by (simp add: v d migrate_def built_in_migrations_def require_version_def current_schema_version_def)
    from that [OF this] v show thesis by (simp add: current_schema_version_def)
  qed
qed

lemma validated_load_present:
  assumes "mem_good st" "map_of st i = Some d"
  obtains n where "op_load validated_memory st i = Inr (Some n)"
    "sid n = i" "revision n = Some (stored_revision st i)" "memory n = memory d"
proof -
  from assms have d: "normalize_state d = Inr d" "sid d = i" "revision d = Some (stored_revision st i)" "0 < stored_revision st i"
    by (auto dest: mem_good_lookup)
  from migrate_built_in [OF d(1)] obtain m where m: "migrate built_in_migrations current_schema_version d = Inr m"
    "sid m = sid d" "revision m = revision d" "memory m = memory d" "schema_version m = Some current_schema_version" .
  then obtain n where n: "normalize_state m = Inr n"
    using d by (auto simp: normalize_state_def require_version_def current_schema_version_def)
  show thesis
    using that [of n] normalize_state_Inr [OF n] m d n assms(2)
    by (simp add: validated_store_def validated_load_def in_memory_store_def mem_load_def)
qed

lemma validated_load_absent:
  "op_load validated_memory st i = Inr None \<longleftrightarrow> map_of st i = None"
  by (auto simp: validated_store_def validated_load_def in_memory_store_def mem_load_def split: option.splits)

lemma validated_save_Inr:
  assumes "validated_save in_memory_store st d e = (st', Inr r)"
  obtains n r' where "normalize_state d = Inr n" "mem_save st n e = (st', Inr r')" "r = r'"
  using assms
  by (auto simp: validated_save_def in_memory_store_def assert_persisted_revision_def mem_save_def
      split: sum.splits prod.splits option.splits if_splits)

interpretation validated: revision_store validated_memory stored_revision mem_good
proof unfold_locales
  fix st :: "'a sessions" and i and d :: "'a session"
  assume good: "mem_good st"
  show "\<exists>found. op_load validated_memory st i = Inr found"
    using validated_load_absent [of st i] validated_load_present [OF good, of i]
    by (cases "map_of st i") metis+
  show "op_load validated_memory st i = Inr None \<Longrightarrow> stored_revision st i = 0"
    by (simp add: validated_load_absent stored_revision_def)
  assume load: "op_load validated_memory st i = Inr (Some d)"
  then have "map_of st i \<noteq> None" using validated_load_absent [of st i] by auto
  then obtain d' where d': "map_of st i = Some d'" by auto
  from validated_load_present [OF good d'] load mem_good_lookup [OF good d']
  show "sid d = i \<and> revision d = Some (stored_revision st i) \<and> 0 < stored_revision st i"
    by (metis option.inject sum.inject(2))
next
  fix st :: "'a sessions" and d :: "'a session" and e st' r
  assume good: "mem_good st" and save: "op_save validated_memory st d e = (st', Inr r)"
  then have "validated_save in_memory_store st d e = (st', Inr r)" by (simp add: validated_store_def)
  then obtain n where n: "normalize_state d = Inr n" and ms: "mem_save st n e = (st', Inr r)"
    by (rule validated_save_Inr) blast
  note keep = normalize_state_Inr [OF n]
  have mem: "mem_good st'" "stored_revision st (sid d) = e" "r = Some (e + 1)" "stored_revision st' (sid d) = e + 1"
    and lookup: "\<exists>x. map_of st' (sid d) = Some x \<and> memory x = memory d"
    using mem.save_commits [OF good, of n e st' r] ms keep mem.rev_after_save [OF good, of n e st' r]
    by (auto simp: in_memory_store_def mem_load_def)
  from lookup obtain x where x: "map_of st' (sid d) = Some x" "memory x = memory d" by blast
  from validated_load_present [OF mem(1) x(1)] x mem
  show "mem_good st' \<and> stored_revision st (sid d) = e \<and> r = Some (e + 1) \<and>
      (\<exists>n. op_load validated_memory st' (sid d) = Inr (Some n) \<and> memory n = memory d \<and> sid n = sid d \<and> revision n = Some (e + 1))"
    by metis
  fix i assume "i \<noteq> sid d"
  with mem.save_frame [OF good, of n e st' r i] ms keep
  show "op_load validated_memory st' i = op_load validated_memory st i"
    by (simp add: validated_store_def validated_load_def in_memory_store_def mem_load_def)
next
  fix st :: "'a sessions" and d :: "'a session" and st' x
  assume good: "mem_good st" and save: "op_save validated_memory st d (or_else (revision d) 0) = (st', Inl x)"
  show "st' = st"
  proof (cases "normalize_state d")
    case (Inl a)
    with save show ?thesis by (simp add: validated_store_def validated_save_def)
  next
    case (Inr n)
    with save normalize_state_Inr(3) [OF Inr] show ?thesis
      by (auto simp: validated_store_def validated_save_def in_memory_store_def assert_persisted_revision_def
          mem_save_def split: if_splits sum.splits prod.splits option.splits)
  qed
qed

end
