(* ===== verification/Canonical_Json.thy ===== *)
theory Canonical_Json
  imports Prelude
begin

section \<open>Canonical serialisation: \<open>stableStringify\<close> and \<open>canonical\<close>\<close>

text \<open>
  Digests and binding comparisons go through a key-sorted JSON text: \<open>stableStringify\<close>
  of \<open>detached-operation-store.js\<close> (and of the async coordinator), \<open>canonical\<close> of
  the benchmark and Oracle packages.  On a \<open>json\<close> value these are one function.
  The section shows that the text determines the value up to the order of object keys, so
  comparing texts (or collision-free digests of them) compares values.
\<close>

subsection \<open>The serialiser\<close>

text \<open>\<open>JSON.stringify\<close> on a string: the escapes of the language standard.\<close>

definition hex_digit :: "nat \<Rightarrow> char" where
  "hex_digit n = (if n < 10 then char_of (48 + n) else char_of (87 + n))"

definition esc :: "char \<Rightarrow> string" where
  "esc c =
     (let n = (of_char c :: nat); bs = CHR 0x5C in
      if n = 34 then [bs, CHR 0x22]
      else if n = 92 then [bs, bs]
      else if n = 8 then [bs, CHR ''b'']
      else if n = 12 then [bs, CHR ''f'']
      else if n = 10 then [bs, CHR ''n'']
      else if n = 13 then [bs, CHR ''r'']
      else if n = 9 then [bs, CHR ''t'']
      else if n < 32 then [bs, CHR ''u'', CHR ''0'', CHR ''0'', hex_digit (n div 16), hex_digit (n mod 16)]
      else [c])"

definition quote :: "string \<Rightarrow> string" where
  "quote s = CHR 0x22 # concat (map esc s) @ [CHR 0x22]"

fun join :: "string \<Rightarrow> string list \<Rightarrow> string" where
  "join sep [] = []"
| "join sep [x] = x"
| "join sep (x # y # r) = x @ sep @ join sep (y # r)"

lemma json_size_member: "(k, v) \<in> set kvs \<Longrightarrow> size v < Suc (size_list (size_prod (\<lambda>x. 0) size) kvs)"
  by (induction kvs) auto

function stable_stringify :: "json \<Rightarrow> string" where
  "stable_stringify JNull = ''null''"
| "stable_stringify (JBool b) = (if b then ''true'' else ''false'')"
| "stable_stringify (JNum n) = int_text n"
| "stable_stringify (JStr s) = quote s"
| "stable_stringify (JArr vs) = ''['' @ join '','' (map stable_stringify vs) @ '']''"
| "stable_stringify (JObj kvs) =
     ''{'' @ join '','' (map (\<lambda>kv. quote (fst kv) @ '':'' @ stable_stringify (snd kv)) (sort_key fst kvs)) @ ''}''"
  by pat_completeness auto

termination
  by (relation "measure size") (auto dest: json_size_member simp: less_Suc_eq_le size_list_estimation')

text \<open>A digest of a value: the text through the hash function of the platform.\<close>

definition digest_value :: "(string \<Rightarrow> string) \<Rightarrow> json \<Rightarrow> string" where
  "digest_value sha v = sha (stable_stringify v)"

subsection \<open>The value a text stands for: keys sorted at every level\<close>

function canon :: "json \<Rightarrow> json" where
  "canon (JArr vs) = JArr (map canon vs)"
| "canon (JObj kvs) = JObj (map (\<lambda>kv. (fst kv, canon (snd kv))) (sort_key fst kvs))"
| "canon JNull = JNull"
| "canon (JBool b) = JBool b"
| "canon (JNum n) = JNum n"
| "canon (JStr s) = JStr s"
  by pat_completeness auto
termination
  by (relation "measure size") (auto dest: json_size_member simp: less_Suc_eq_le size_list_estimation')

text \<open>The serialiser without the sorting, on which injectivity is proved.\<close>

fun render :: "json \<Rightarrow> string" where
  "render JNull = ''null''"
| "render (JBool b) = (if b then ''true'' else ''false'')"
| "render (JNum n) = int_text n"
| "render (JStr s) = quote s"
| "render (JArr vs) = ''['' @ join '','' (map render vs) @ '']''"
| "render (JObj kvs) = ''{'' @ join '','' (map (\<lambda>(k, v). quote k @ '':'' @ render v) kvs) @ ''}''"

lemma stable_stringify_render: "stable_stringify v = render (canon v)"
proof (induction v rule: stable_stringify.induct)
  case (5 vs)
  then show ?case by (auto intro!: arg_cong [where f = "join _"])
next
  case (6 kvs)
  then show ?case by (auto intro!: arg_cong [where f = "join _"])
qed auto

subsection \<open>Reading a token back\<close>

definition is_digit :: "char \<Rightarrow> bool" where
  "is_digit c \<longleftrightarrow> (of_char c :: nat) \<in> {48..57}"

definition digits_end :: "string \<Rightarrow> bool" where
  "digits_end s \<longleftrightarrow> s = [] \<or> \<not> is_digit (hd s)"

fun digits_value :: "nat \<Rightarrow> string \<Rightarrow> nat" where
  "digits_value a [] = a"
| "digits_value a (c # s) = digits_value (10 * a + (of_char c - 48)) s"

lemma digits_value_append: "digits_value a (s @ t) = digits_value (digits_value a s) t"
  by (induction s arbitrary: a) auto

lemma digits_value_nat_text: "digits_value 0 (nat_text n) = n"
proof (induction n rule: nat_text.induct)
  case (1 n)
  then show ?case
    by (subst nat_text.simps) (auto simp: digits_value_append)
qed

lemma nat_text_digits: "\<forall>c \<in> set (nat_text n). is_digit c"
proof (induction n rule: nat_text.induct)
  case (1 n)
  show ?case
  proof (cases "n < 10")
    case True
    then show ?thesis by (subst nat_text.simps) (auto simp: is_digit_def)
  next
    case False
    have "n mod 10 < 10" by simp
    then have "is_digit (char_of (48 + n mod 10))"
      by (simp add: is_digit_def)
    with False 1 show ?thesis by (subst nat_text.simps) auto
  qed
qed

lemma nat_text_nonempty: "nat_text n \<noteq> []"
  by (subst nat_text.simps) simp

lemma takeWhile_digits:
  assumes "\<forall>c \<in> set d. is_digit c" "digits_end s"
  shows "takeWhile is_digit (d @ s) = d" "dropWhile is_digit (d @ s) = s"
  using assms by (induction d) (cases s; auto simp: digits_end_def)+

lemma nat_text_prefix:
  assumes eq: "nat_text n @ s = nat_text m @ t" and "digits_end s" "digits_end t"
  shows "n = m \<and> s = t"
proof -
  from assms have "nat_text n = nat_text m" "s = t"
    using takeWhile_digits [OF nat_text_digits, of s n] takeWhile_digits [OF nat_text_digits, of t m]
    by auto
  then show ?thesis by (metis digits_value_nat_text)
qed

lemma hd_nat_text: "is_digit (hd (nat_text n @ s))"
  using nat_text_digits [of n] nat_text_nonempty [of n] by (cases "nat_text n") auto

lemma int_text_hd: "0 \<le> i \<Longrightarrow> is_digit (hd (int_text i @ s))" "i < 0 \<Longrightarrow> \<not> is_digit (hd (int_text i @ s))"
  using hd_nat_text [of "nat i" s] by (auto simp: int_text_def is_digit_def)

lemma int_text_prefix:
  assumes eq: "int_text i @ s = int_text j @ t" and ends: "digits_end s" "digits_end t"
  shows "i = j \<and> s = t"
proof -
  from eq have "is_digit (hd (int_text i @ s)) = is_digit (hd (int_text j @ t))" by simp
  then have sign: "(i < 0) = (j < 0)"
    using int_text_hd [of i s] int_text_hd [of j t] by linarith
  show ?thesis
  proof (cases "i < 0")
    case True
    with sign eq have "nat_text (nat (- i)) @ s = nat_text (nat (- j)) @ t"
      by (simp add: int_text_def)
    from nat_text_prefix [OF this ends] True sign show ?thesis by auto
  next
    case False
    with sign eq have "nat_text (nat i) @ s = nat_text (nat j) @ t"
      by (simp add: int_text_def)
    from nat_text_prefix [OF this ends] False sign show ?thesis by auto
  qed
qed

definition unhex :: "char \<Rightarrow> nat" where
  "unhex c = (if is_digit c then of_char c - 48 else of_char c - 87)"

lemma unhex_hex_digit: "n < 16 \<Longrightarrow> unhex (hex_digit n) = n"
  by (auto simp: unhex_def hex_digit_def is_digit_def)

text \<open>One escaped character, read back.\<close>

fun unesc :: "string \<Rightarrow> (char \<times> string) option" where
  "unesc [] = None"
| "unesc (c # s) =
     (if of_char c = (34::nat) then None
      else if of_char c = (92::nat) then
        (case s of [] \<Rightarrow> None
         | d # s' \<Rightarrow>
             if d = CHR ''b'' then Some (char_of (8::nat), s')
             else if d = CHR ''f'' then Some (char_of (12::nat), s')
             else if d = CHR ''n'' then Some (char_of (10::nat), s')
             else if d = CHR ''r'' then Some (char_of (13::nat), s')
             else if d = CHR ''t'' then Some (char_of (9::nat), s')
             else if d = CHR ''u'' then
               (case s' of z1 # z2 # a # b # r \<Rightarrow> Some (char_of (16 * unhex a + unhex b), r) | _ \<Rightarrow> None)
             else Some (d, s'))
      else Some (c, s))"

lemma char_eqI: "(of_char c :: nat) = of_char d \<Longrightarrow> c = d"
  by (simp add: of_char_eq_iff)

lemma unesc_esc: "unesc (esc c @ s) = Some (c, s)"
proof -
  have c: "char_of (of_char c :: nat) = c" by simp
  consider "(of_char c :: nat) \<in> {34, 92, 8, 12, 10, 13, 9}"
    | "(of_char c :: nat) \<notin> {34, 92, 8, 12, 10, 13, 9}" "(of_char c :: nat) < 32"
    | "(of_char c :: nat) \<notin> {34, 92}" "32 \<le> (of_char c :: nat)"
    by fastforce
  then show ?thesis
  proof cases
    case 1
    then show ?thesis by (auto simp: esc_def Let_def intro!: char_eqI)
  next
    case 2
    then have "(of_char c :: nat) div 16 < 16" "(of_char c :: nat) mod 16 < 16" by auto
    then have "16 * unhex (hex_digit (of_char c div 16)) + unhex (hex_digit (of_char c mod 16)) = (of_char c :: nat)"
      by (simp add: unhex_hex_digit)
    with 2 show ?thesis by (auto simp: esc_def Let_def)
  next
    case 3
    then show ?thesis by (auto simp: esc_def Let_def)
  qed
qed

lemma esc_nonempty: "esc c \<noteq> []"
  by (auto simp: esc_def Let_def)

lemma unesc_quote: "unesc (CHR 0x22 # s) = None"
  by simp

lemma concat_esc_prefix:
  "concat (map esc s) @ CHR 0x22 # x = concat (map esc t) @ CHR 0x22 # y \<Longrightarrow> s = t \<and> x = y"
proof (induction s arbitrary: t)
  case Nil
  show ?case
  proof (cases t)
    case (Cons d t')
    with Nil have "unesc (CHR 0x22 # x) = unesc (esc d @ concat (map esc t') @ CHR 0x22 # y)" by simp
    then show ?thesis by (simp add: unesc_esc del: unesc.simps) (simp add: unesc_quote)
  qed (use Nil in simp)
next
  case (Cons c s)
  show ?case
  proof (cases t)
    case Nil
    with Cons.prems have "unesc (CHR 0x22 # y) = unesc (esc c @ concat (map esc s) @ CHR 0x22 # x)" by simp
    then show ?thesis by (simp add: unesc_esc del: unesc.simps) (simp add: unesc_quote)
  next
    case (Cons d t')
    with Cons.prems have eq: "esc c @ concat (map esc s) @ CHR 0x22 # x = esc d @ concat (map esc t') @ CHR 0x22 # y"
      by simp
    then have "unesc (esc c @ concat (map esc s) @ CHR 0x22 # x) = unesc (esc d @ concat (map esc t') @ CHR 0x22 # y)"
      by simp
    then have "c = d" "concat (map esc s) @ CHR 0x22 # x = concat (map esc t') @ CHR 0x22 # y"
      by (simp_all add: unesc_esc del: unesc.simps)
    with Cons.IH Cons show ?thesis by auto
  qed
qed

lemma quote_prefix: "quote s @ x = quote t @ y \<Longrightarrow> s = t \<and> x = y"
  using concat_esc_prefix [of s x t y] by (simp add: quote_def)

subsection \<open>The text determines the value\<close>

lemma join_Cons: "join sep (x # r) = x @ (if r = [] then [] else sep @ join sep r)"
  by (cases r) auto

definition closes :: "char \<Rightarrow> bool" where
  "closes c \<longleftrightarrow> c = CHR '']'' \<or> c = CHR ''}''"

definition token_end :: "string \<Rightarrow> bool" where
  "token_end s \<longleftrightarrow> s = [] \<or> hd s = CHR '','' \<or> closes (hd s)"

lemma token_end_digits: "token_end s \<Longrightarrow> digits_end s"
  by (auto simp: token_end_def digits_end_def closes_def is_digit_def)

lemma token_end_Cons: "closes c \<Longrightarrow> token_end (c # s)" "token_end (CHR '','' # s)"
  by (simp_all add: token_end_def)

text \<open>A separated list is determined by its text when its elements are.\<close>

lemma join_prefix:
  assumes elem: "\<And>x y s t. x \<in> set xs \<Longrightarrow> token_end s \<Longrightarrow> token_end t \<Longrightarrow> f x @ s = f y @ t \<Longrightarrow> g x = g y \<and> s = t"
    and start: "\<And>x. f x \<noteq> [] \<and> \<not> closes (hd (f x))"
    and cl: "closes cl"
    and eq: "join '','' (map f xs) @ cl # s = join '','' (map f ys) @ cl # t"
  shows "map g xs = map g ys \<and> s = t"
  using elem eq
proof (induction xs arbitrary: ys)
  case Nil
  show ?case
  proof (cases ys)
    case (Cons y r)
    with Nil.prems(2) have "cl = hd (f y)"
      using start [of y] by (cases "f y") (auto simp: join_Cons)
    with cl start show ?thesis by auto
  qed (use Nil in simp)
next
  case (Cons x xs)
  show ?case
  proof (cases ys)
    case Nil
    with Cons.prems(2) have "cl = hd (f x)"
      using start [of x] by (cases "f x") (auto simp: join_Cons)
    with cl start show ?thesis by auto
  next
    case (Cons y r)
    define rx where "rx = (if xs = [] then cl # s else CHR '','' # join '','' (map f xs) @ cl # s)"
    define ry where "ry = (if r = [] then cl # t else CHR '','' # join '','' (map f r) @ cl # t)"
    have "f x @ rx = f y @ ry"
      using Cons.prems(2) Cons by (auto simp: join_Cons rx_def ry_def split: if_splits)
    moreover have "token_end rx" "token_end ry"
      using cl by (auto simp: rx_def ry_def token_end_def)
    ultimately have xy: "g x = g y" and rest: "rx = ry"
      using Cons.prems(1) [of x rx ry y] by auto
    have "cl \<noteq> CHR '',''" using cl by (auto simp: closes_def)
    with rest have "(xs = []) = (r = [])" by (auto simp: rx_def ry_def split: if_splits)
    moreover have "join '','' (map f xs) @ cl # s = join '','' (map f r) @ cl # t"
      using rest calculation by (auto simp: rx_def ry_def split: if_splits)
    ultimately have "map g xs = map g r \<and> s = t"
      using Cons.IH [of r] Cons.prems(1) by auto
    with xy Cons show ?thesis by simp
  qed
qed

lemma render_start: "render v \<noteq> [] \<and> \<not> closes (hd (render v))"
proof (cases v)
  case (JNum n)
  have "int_text n \<noteq> []" "\<not> closes (hd (int_text n))"
    using hd_nat_text [of "nat n" "[]"] nat_text_nonempty
    by (auto simp: int_text_def closes_def is_digit_def)
  with JNum show ?thesis by simp
qed (auto simp: closes_def quote_def)

text \<open>The first character tells the constructors apart.\<close>

datatype token = TNull | TBool | TNum | TStr | TArr | TObj

fun token_of :: "json \<Rightarrow> token" where
  "token_of JNull = TNull"
| "token_of (JBool b) = TBool"
| "token_of (JNum n) = TNum"
| "token_of (JStr s) = TStr"
| "token_of (JArr vs) = TArr"
| "token_of (JObj kvs) = TObj"

definition first_token :: "char \<Rightarrow> token" where
  "first_token c =
     (if c = CHR ''n'' then TNull else if c = CHR ''t'' \<or> c = CHR ''f'' then TBool
      else if c = CHR 0x22 then TStr else if c = CHR ''['' then TArr
      else if c = CHR ''{'' then TObj else TNum)"

lemma render_token: "first_token (hd (render v @ s)) = token_of v"
proof (cases v)
  case (JNum n)
  have "is_digit (hd (int_text n @ s)) \<or> hd (int_text n @ s) = CHR ''-''"
    using int_text_hd [of n s] by (cases "n < 0") (auto simp: int_text_def)
  with JNum show ?thesis by (auto simp: first_token_def is_digit_def)
qed (auto simp: first_token_def quote_def)

lemma render_prefix:
  "token_end s \<Longrightarrow> token_end t \<Longrightarrow> render a @ s = render b @ t \<Longrightarrow> a = b \<and> s = t"
proof (induction a arbitrary: b s t)
  case (JNum n)
  then have "token_of b = TNum" by (metis render_token token_of.simps(3))
  with JNum int_text_prefix [of n s _ t] show ?case
    by (cases b) (auto dest: token_end_digits)
next
  case (JStr x)
  then have "token_of b = TStr" by (metis render_token token_of.simps(4))
  with JStr quote_prefix [of x s _ t] show ?case by (cases b) auto
next
  case (JArr vs)
  then have "token_of b = TArr" by (metis render_token token_of.simps(5))
  then obtain ws where b: "b = JArr ws" by (cases b) auto
  have "map id vs = map id ws \<and> s = t"
  proof (rule join_prefix [where f = render and g = id and cl = "CHR '']''"])
    fix x y s t
    assume "x \<in> set vs" "token_end s" "token_end t" "render x @ s = render y @ t"
    then show "id x = id y \<and> s = t" using JArr.IH by simp
  qed (use JArr.prems b render_start in \<open>auto simp: closes_def\<close>)
  with b show ?case by simp
next
  case (JObj kvs)
  then have "token_of b = TObj" by (metis render_token token_of.simps(6))
  then obtain lws where b: "b = JObj lws" by (cases b) auto
  let ?f = "\<lambda>(k, v). quote k @ '':'' @ render v"
  have "map id kvs = map id lws \<and> s = t"
  proof (rule join_prefix [where f = ?f and g = id and cl = "CHR ''}''"])
    fix p q s t
    assume p: "p \<in> set kvs" and ends: "token_end s" "token_end t" and eq: "?f p @ s = ?f q @ t"
    obtain k v l w where kv: "p = (k, v)" "q = (l, w)" by (cases p; cases q)
    with eq have "k = l" "render v @ s = render w @ t"
      using quote_prefix [of k "'':'' @ render v @ s" l "'':'' @ render w @ t"] by auto
    with JObj.IH [of p v s t w] p kv ends show "id p = id q \<and> s = t"
      by (auto simp: snds.simps)
  qed (use JObj.prems b in \<open>auto simp: closes_def quote_def\<close>)
  with b show ?case by simp
next
  case JNull
  then have "token_of b = TNull" by (metis render_token token_of.simps(1))
  with JNull show ?case by (cases b) auto
next
  case (JBool x)
  then have "token_of b = TBool" by (metis render_token token_of.simps(2))
  with JBool show ?case by (cases b) (auto split: if_splits)
qed

lemma stable_stringify_eq_iff: "stable_stringify a = stable_stringify b \<longleftrightarrow> canon a = canon b"
  using render_prefix [of "[]" "[]" "canon a" "canon b"]
  by (auto simp: stable_stringify_render token_end_def)

text \<open>On values without objects nothing is sorted, so the text determines them outright.\<close>

fun flat :: "json \<Rightarrow> bool" where
  "flat (JObj _) = False"
| "flat (JArr vs) = (\<forall>v \<in> set vs. flat v)"
| "flat _ = True"

lemma canon_flat: "flat v \<Longrightarrow> canon v = v"
  by (induction v rule: canon.induct) (auto intro: map_idI)

end
