(* ===== verification/Detached_Store.thy ===== *)
theory Detached_Store
  imports Session_Store Canonical_Json
begin

section \<open>Detached operations: the durable store\<close>

text \<open>
  Models \<open>packages/core-harness/src/detached-operation-store.js\<close>: the operation records and
  transition log of one scope, kept in a single revisioned session document, and the
  operations of the store (\<open>create\<close>, \<open>read\<close>, \<open>list\<close>, \<open>transitions\<close>,
  \<open>transition\<close>, \<open>takeover\<close>, \<open>noteDiagnostic\<close>), each an optimistic update with a
  bounded number of retries.  Other writers may change the document at every \<open>await\<close>; the
  model takes their doings as an argument.
\<close>

subsection \<open>Statuses and their transitions\<close>

datatype op_status = RUNNING | CANCEL_REQUESTED | SUCCEEDED | FAILED | CANCELLED | OUTCOME_UNKNOWN

fun status_text :: "op_status \<Rightarrow> string" where
  "status_text RUNNING = ''RUNNING''"
| "status_text CANCEL_REQUESTED = ''CANCEL_REQUESTED''"
| "status_text SUCCEEDED = ''SUCCEEDED''"
| "status_text FAILED = ''FAILED''"
| "status_text CANCELLED = ''CANCELLED''"
| "status_text OUTCOME_UNKNOWN = ''UNKNOWN''"

definition all_statuses :: "op_status list" where
  "all_statuses = [RUNNING, CANCEL_REQUESTED, SUCCEEDED, FAILED, CANCELLED, OUTCOME_UNKNOWN]"

definition parse_status :: "string \<Rightarrow> op_status option" where
  "parse_status t = find (\<lambda>s. status_text s = t) all_statuses"

lemma parse_status_text [simp]: "parse_status (status_text s) = Some s"
  by (cases s) (simp_all add: parse_status_def all_statuses_def)

lemma parse_status_Some: "parse_status t = Some s \<Longrightarrow> status_text s = t"
  by (auto simp: parse_status_def find_Some_iff)

definition terminal_states :: "op_status list" where
  "terminal_states = [SUCCEEDED, FAILED, CANCELLED, OUTCOME_UNKNOWN]"

definition is_terminal :: "op_status \<Rightarrow> bool" where
  "is_terminal s \<longleftrightarrow> s \<in> set terminal_states"

fun allowed_transitions :: "op_status \<Rightarrow> op_status list" where
  "allowed_transitions RUNNING = [CANCEL_REQUESTED, SUCCEEDED, FAILED, CANCELLED, OUTCOME_UNKNOWN]"
| "allowed_transitions CANCEL_REQUESTED = [SUCCEEDED, FAILED, CANCELLED, OUTCOME_UNKNOWN]"
| "allowed_transitions _ = []"

lemma terminal_no_transitions: "is_terminal s \<longleftrightarrow> allowed_transitions s = []"
  by (cases s) (auto simp: is_terminal_def terminal_states_def)

subsection \<open>Identities\<close>

definition jfield :: "json \<Rightarrow> string \<Rightarrow> json" where
  "jfield v k = (case v of JObj kvs \<Rightarrow> (case map_of kvs k of None \<Rightarrow> JNull | Some x \<Rightarrow> x) | _ \<Rightarrow> JNull)"

fun is_object :: "json \<Rightarrow> bool" where
  "is_object (JObj _) = True"
| "is_object (JArr _) = True"
| "is_object _ = False"

definition derive_detached_operation_id ::
  "(string \<Rightarrow> string) \<Rightarrow> string \<Rightarrow> string \<Rightarrow> string \<Rightarrow> string \<Rightarrow> json \<Rightarrow> json \<Rightarrow> json \<Rightarrow> json \<Rightarrow> string res" where
  "derive_detached_operation_id sha scope cap effect_id input_dig call turn intent delib =
     rbind (require_text (JStr scope) ''detached operation scopeId'') (\<lambda>_.
     rbind (require_text (JStr cap) ''detached operation capability'') (\<lambda>_.
     rbind (require_text (JStr effect_id) ''detached operation effectOperationId'') (\<lambda>_.
     rbind (require_text (JStr input_dig) ''detached operation inputDigest'') (\<lambda>_.
       let call_binding = digest_value sha (JObj
             [(''callId'', call), (''turn'', turn), (''actionIntentRef'', intent), (''deliberationRef'', delib)]);
           digest = digest_value sha (JObj
             [(''scopeId'', JStr scope), (''capability'', JStr cap), (''effectOperationId'', JStr effect_id),
              (''inputDigest'', JStr input_dig), (''callBinding'', JStr call_binding)])
       in Inr (''detached:'' @ take 32 digest)))))"

definition derive_transition_id :: "string \<Rightarrow> int \<Rightarrow> int \<Rightarrow> op_status \<Rightarrow> string res" where
  "derive_transition_id op gen sq st =
     rbind (require_text (JStr op) ''detached operation transition operationId'') (\<lambda>_.
     rbind (invariant (1 \<le> gen) ''detached operation transition generation must be a positive integer'') (\<lambda>_.
     rbind (invariant (1 \<le> sq) ''detached operation transition sequence must be a positive integer'') (\<lambda>_.
       Inr (op @ '':g'' @ int_text gen @ '':s'' @ int_text sq @ '':'' @ status_text st))))"

text \<open>\<open>encodeURIComponent\<close> on characters below 256 (their UTF-8 bytes, percent-encoded).\<close>

definition uri_unreserved :: "char \<Rightarrow> bool" where
  "uri_unreserved c \<longleftrightarrow>
     (let n = (of_char c :: nat) in
      48 \<le> n \<and> n \<le> 57 \<or> 65 \<le> n \<and> n \<le> 90 \<or> 97 \<le> n \<and> n \<le> 122 \<or> c \<in> set ''-_.!~*()'' \<or> n = 39)"

definition upper_hex :: "nat \<Rightarrow> char" where
  "upper_hex n = (if n < 10 then char_of (48 + n) else char_of (55 + n))"

definition percent :: "nat \<Rightarrow> string" where
  "percent n = [CHR ''%'', upper_hex (n div 16), upper_hex (n mod 16)]"

definition encode_uri_component :: "string \<Rightarrow> string" where
  "encode_uri_component s =
     concat (map (\<lambda>c. let n = (of_char c :: nat) in
       if uri_unreserved c then [c]
       else if n < 128 then percent n
       else percent (192 + n div 64) @ percent (128 + n mod 64)) s)"

definition document_id_for :: "string \<Rightarrow> string" where
  "document_id_for scope = ''__exharness_detached_operations__:'' @ encode_uri_component scope"

subsection \<open>Bindings\<close>

record binding =
  operation_id :: string
  scope_id :: string
  capability :: string
  input_digest :: string
  input :: json
  effect_operation_id :: string
  replay_policy :: string
  call_id :: json
  turn :: json
  trace :: json
  action_intent_ref :: json
  deliberation_ref :: json
  protocol_version :: json

definition protocol_version_1 :: json where
  "protocol_version_1 = JNum 1"

definition normalize_binding :: "json \<Rightarrow> string \<Rightarrow> binding res" where
  "normalize_binding b scope =
     rbind (invariant (is_object b) ''detached operation binding is required'') (\<lambda>_.
     rbind (require_text (jfield b ''operationId'') ''detached operation binding operationId'') (\<lambda>op.
     rbind (require_text (jfield b ''capability'') ''detached operation binding capability'') (\<lambda>cap.
     rbind (require_text (jfield b ''inputDigest'') ''detached operation binding inputDigest'') (\<lambda>dig.
     rbind (require_text (jfield b ''effectOperationId'') ''detached operation binding effectOperationId'') (\<lambda>eff.
     rbind (require_text (jfield b ''replayPolicy'') ''detached operation binding replayPolicy'') (\<lambda>pol.
     rbind (invariant (jfield b ''scopeId'' = JNull \<or> jfield b ''scopeId'' = JStr scope)
              ''detached operation binding scopeId mismatch'') (\<lambda>_.
       Inr \<lparr>operation_id = op, scope_id = scope, capability = cap, input_digest = dig,
            input = jfield b ''input'', effect_operation_id = eff, replay_policy = pol,
            call_id = jfield b ''callId'', turn = jfield b ''turn'', trace = jfield b ''trace'',
            action_intent_ref = jfield b ''actionIntentRef'', deliberation_ref = jfield b ''deliberationRef'',
            protocol_version = coalesce (jfield b ''protocolVersion'') protocol_version_1\<rparr>)))))))"

definition binding_field :: "string \<Rightarrow> binding \<Rightarrow> json" where
  "binding_field f b =
     (if f = ''capability'' then JStr (capability b)
      else if f = ''inputDigest'' then JStr (input_digest b)
      else if f = ''effectOperationId'' then JStr (effect_operation_id b)
      else if f = ''replayPolicy'' then JStr (replay_policy b)
      else if f = ''callId'' then call_id b
      else if f = ''protocolVersion'' then protocol_version b
      else if f = ''input'' then input b
      else if f = ''turn'' then turn b
      else if f = ''trace'' then trace b
      else if f = ''actionIntentRef'' then action_intent_ref b
      else if f = ''deliberationRef'' then deliberation_ref b
      else JNull)"

definition bound_fields :: "string list" where
  "bound_fields =
     [''capability'', ''inputDigest'', ''effectOperationId'', ''replayPolicy'', ''callId'', ''protocolVersion'',
      ''input'', ''turn'', ''trace'', ''actionIntentRef'', ''deliberationRef'']"

definition binding_mismatch_fields :: "binding \<Rightarrow> binding \<Rightarrow> string list" where
  "binding_mismatch_fields expected actual =
     filter (\<lambda>f. stable_stringify (binding_field f expected) \<noteq> stable_stringify (binding_field f actual)) bound_fields"

definition assert_binding_matches :: "binding \<Rightarrow> binding \<Rightarrow> unit res" where
  "assert_binding_matches stored b =
     (let mismatched = binding_mismatch_fields b stored in
      if mismatched \<noteq> [] then Inl (BindingMismatch (operation_id stored) mismatched) else Inr ())"

subsection \<open>Records, transition envelopes, the document\<close>

record diagnostic =
  diag_at :: string
  diag_generation :: int
  diag_note :: json

record op_record =
  bound :: binding
  generation :: int
  status :: op_status
  op_result :: json
  op_error :: json
  evidence :: json
  reason :: json
  rec_sequence :: "int option"
  diagnostics :: "diagnostic list"
  rec_created_at :: string
  rec_updated_at :: string

record envelope =
  transition_id :: string
  env_operation_id :: string
  env_scope_id :: string
  env_status :: op_status
  env_generation :: int
  env_sequence :: int
  env_result :: json
  env_error :: json
  env_evidence :: json
  env_reason :: json
  env_at :: string

text \<open>
  \<open>persistentMemory\<close> of the manager document.  A missing dictionary or array is the empty
  one, a missing or unusable \<open>nextSequence\<close> is 0; \<open>ensureDocumentShape\<close> treats them alike.
\<close>

record manager_memory =
  operations :: "(string \<times> op_record) list"
  transitions :: "envelope list"
  next_sequence :: int

type_synonym manager_doc = "manager_memory session"

text \<open>\<open>now()\<close>: the reading of the clock at each call site of one attempt.\<close>

type_synonym clock = "nat \<Rightarrow> string"

definition work_of_scope :: "string \<Rightarrow> json" where
  "work_of_scope scope = JObj [(''kind'', JStr ''DETACHED_OPERATION_MANAGER''), (''scopeId'', JStr scope)]"

definition empty_document :: "string \<Rightarrow> string \<Rightarrow> manager_doc" where
  "empty_document scope at =
     \<lparr>sid = document_id_for scope, schema_version = Some 2, revision = Some 0,
      work = Some (work_of_scope scope), memory_lists = [],
      memory = \<lparr>operations = [], transitions = [], next_sequence = 1\<rparr>,
      trajectory = Some [], supervision = Some default_supervision, created_at = at, updated_at = at\<rparr>"

definition ensure_document_shape :: "string \<Rightarrow> manager_doc \<Rightarrow> manager_doc" where
  "ensure_document_shape scope d =
     (let m = memory d;
          m' = (if next_sequence m < 1
                then m\<lparr>next_sequence := foldl (\<lambda>mx e. max mx (env_sequence e)) 0 (transitions m) + 1\<rparr>
                else m)
      in d\<lparr>memory := m', work := Some (or_else (work d) (work_of_scope scope))\<rparr>)"

subsection \<open>The optimistic update\<close>

text \<open>
  A mutator works on the document and answers with the new document and an outcome: the value
  to return, and possibly what to do when the save meets a conflict.
\<close>

datatype 'v resolution = Retry | Settle 'v

datatype 'v outcome =
  Outcome (outcome_value: 'v) (on_conflict: "(manager_doc option \<Rightarrow> 'v resolution res) option")

type_synonym 'v mutator = "clock \<Rightarrow> manager_doc \<Rightarrow> (manager_doc \<times> 'v outcome) res"

definition load_document ::
  "('s, manager_memory) session_store \<Rightarrow> string \<Rightarrow> 's \<Rightarrow> manager_doc option res" where
  "load_document ops scope st =
     rbind (op_load ops st (document_id_for scope)) (\<lambda>found.
       Inr (map_option (ensure_document_shape scope) found))"

definition save_document ::
  "('s, manager_memory) session_store \<Rightarrow> string \<Rightarrow> manager_doc \<Rightarrow> 's \<Rightarrow> 's \<times> int res" where
  "save_document ops at d st =
     (let expected = or_else (revision d) 0 in
      case op_save ops st (d\<lparr>updated_at := at\<rparr>) expected of
        (st', Inl e) \<Rightarrow> (st', Inl e)
      | (st', Inr result) \<Rightarrow> (st', assert_persisted_revision result expected (supports_revisions ops)))"

fun is_store_conflict :: "error \<Rightarrow> bool" where
  "is_store_conflict (StoreConflict _ _ _) = True"
| "is_store_conflict _ = False"

text \<open>
  \<open>withDocument\<close>.  \<open>env k\<close> is what other writers do during the \<open>k\<close>-th wait: before the
  load, before the save, and before the reload after a conflict.  \<open>clk n\<close> is the clock
  during attempt \<open>n\<close>; \<open>left\<close> counts the retries that remain (3 at the start).
\<close>

fun with_document ::
  "('s, manager_memory) session_store \<Rightarrow> string \<Rightarrow> (nat \<Rightarrow> clock) \<Rightarrow> (nat \<Rightarrow> 's \<Rightarrow> 's) \<Rightarrow> 'v mutator \<Rightarrow>
     nat \<Rightarrow> nat \<Rightarrow> 's \<Rightarrow> 's \<times> 'v res" where
  "with_document ops scope clk env mutator n left st =
     (let st1 = env (3 * n) st in
      case load_document ops scope st1 of
        Inl e \<Rightarrow> (st1, Inl e)
      | Inr found \<Rightarrow>
          let d = (case found of None \<Rightarrow> empty_document scope (clk n 0) | Some d \<Rightarrow> d) in
          case mutator (clk n) d of
            Inl e \<Rightarrow> (st1, Inl e)
          | Inr (d', out) \<Rightarrow>
              let st2 = env (3 * n + 1) st1 in
              case save_document ops (clk n 1) d' st2 of
                (st3, Inr _) \<Rightarrow> (st3, Inr (outcome_value out))
              | (st3, Inl e) \<Rightarrow>
                  if is_store_conflict e \<and> 0 < left then
                    (case on_conflict out of
                       None \<Rightarrow> with_document ops scope clk env mutator (n + 1) (left - 1) st3
                     | Some h \<Rightarrow>
                         let st4 = env (3 * n + 2) st3 in
                         case load_document ops scope st4 of
                           Inl e' \<Rightarrow> (st4, Inl e')
                         | Inr current \<Rightarrow>
                             case h current of
                               Inl e' \<Rightarrow> (st4, Inl e')
                             | Inr Retry \<Rightarrow> with_document ops scope clk env mutator (n + 1) (left - 1) st4
                             | Inr (Settle v) \<Rightarrow> (st4, Inr v))
                  else (st3, Inl e))"

declare with_document.simps [simp del]

definition max_retries :: nat where
  "max_retries = 3"

definition run_mutator ::
  "('s, manager_memory) session_store \<Rightarrow> string \<Rightarrow> (nat \<Rightarrow> clock) \<Rightarrow> (nat \<Rightarrow> 's \<Rightarrow> 's) \<Rightarrow> 'v mutator \<Rightarrow> 's \<Rightarrow> 's \<times> 'v res" where
  "run_mutator ops scope clk env mutator st = with_document ops scope clk env mutator 0 max_retries st"

subsection \<open>Appending a transition\<close>

text \<open>
  In the code \<open>record\<close> is the object stored under \<open>key\<close>, changed in place.
\<close>

definition put_record :: "string \<Rightarrow> op_record \<Rightarrow> manager_memory \<Rightarrow> manager_memory" where
  "put_record key r m = m\<lparr>operations := aset key r (operations m)\<rparr>"

definition append_transition ::
  "string \<Rightarrow> string \<Rightarrow> manager_memory \<Rightarrow> string \<Rightarrow> op_record \<Rightarrow> op_status \<Rightarrow> json \<Rightarrow> json \<Rightarrow> json \<Rightarrow> json \<Rightarrow>
     (manager_memory \<times> op_record \<times> envelope) res" where
  "append_transition scope at m key r to res err ev why =
     (let sq = next_sequence m in
      rbind (derive_transition_id (operation_id (bound r)) (generation r) sq to) (\<lambda>tid.
        let e = \<lparr>transition_id = tid, env_operation_id = operation_id (bound r), env_scope_id = scope,
                 env_status = to, env_generation = generation r, env_sequence = sq,
                 env_result = res, env_error = err, env_evidence = ev, env_reason = why, env_at = at\<rparr>;
            r' = r\<lparr>status := to, op_result := res, op_error := err, evidence := ev, reason := why,
                   rec_sequence := Some sq, rec_updated_at := at\<rparr>;
            m' = put_record key r' (m\<lparr>next_sequence := sq + 1\<rparr>)
        in Inr (m'\<lparr>transitions := transitions m' @ [e]\<rparr>, r', e)))"

subsection \<open>The operations\<close>

record create_result =
  created_record :: op_record
  created_transition :: "envelope option"
  attached :: bool

definition fresh_record :: "binding \<Rightarrow> string \<Rightarrow> op_record" where
  "fresh_record b at =
     \<lparr>bound = b, generation = 1, status = RUNNING, op_result = JNull, op_error = JNull, evidence = JNull,
      reason = JNull, rec_sequence = None, diagnostics = [], rec_created_at = at, rec_updated_at = at\<rparr>"

definition create_conflict :: "binding \<Rightarrow> manager_doc option \<Rightarrow> create_result resolution res" where
  "create_conflict b current =
     (case Option.bind current (\<lambda>d. map_of (operations (memory d)) (operation_id b)) of
        None \<Rightarrow> Inr Retry
      | Some winner \<Rightarrow>
          rbind (assert_binding_matches (bound winner) b) (\<lambda>_.
            Inr (Settle \<lparr>created_record = winner, created_transition = None, attached = True\<rparr>)))"

definition create_mutator :: "string \<Rightarrow> binding \<Rightarrow> create_result mutator" where
  "create_mutator scope b clk d =
     (case map_of (operations (memory d)) (operation_id b) of
        Some existing \<Rightarrow>
          rbind (assert_binding_matches (bound existing) b) (\<lambda>_.
            Inr (d, Outcome \<lparr>created_record = existing, created_transition = None, attached = True\<rparr> None))
      | None \<Rightarrow>
          (let r = fresh_record b (clk 2) in
           rbind (append_transition scope (clk 3) (put_record (operation_id b) r (memory d))
                    (operation_id b) r RUNNING JNull JNull JNull (JStr ''scheduled'')) (\<lambda>(m', r', e).
             Inr (d\<lparr>memory := m'\<rparr>,
                  Outcome \<lparr>created_record = r', created_transition = Some e, attached = False\<rparr>
                    (Some (create_conflict b))))))"

definition create ::
  "('s, manager_memory) session_store \<Rightarrow> string \<Rightarrow> (nat \<Rightarrow> clock) \<Rightarrow> (nat \<Rightarrow> 's \<Rightarrow> 's) \<Rightarrow> json \<Rightarrow> 's \<Rightarrow>
     's \<times> create_result res" where
  "create ops scope clk env raw st =
     (case normalize_binding raw scope of
        Inl e \<Rightarrow> (st, Inl e)
      | Inr b \<Rightarrow> run_mutator ops scope clk env (create_mutator scope b) st)"

definition read_operation ::
  "('s, manager_memory) session_store \<Rightarrow> string \<Rightarrow> string \<Rightarrow> 's \<Rightarrow> op_record option res" where
  "read_operation ops scope op st =
     rbind (require_text (JStr op) ''detached operation operationId'') (\<lambda>_.
     rbind (load_document ops scope st) (\<lambda>found.
       Inr (Option.bind found (\<lambda>d. map_of (operations (memory d)) op))))"

definition list_operations ::
  "('s, manager_memory) session_store \<Rightarrow> string \<Rightarrow> 's \<Rightarrow> op_record list res" where
  "list_operations ops scope st =
     rbind (load_document ops scope st) (\<lambda>found.
       Inr (case found of None \<Rightarrow> [] | Some d \<Rightarrow> map snd (operations (memory d))))"

definition list_transitions ::
  "('s, manager_memory) session_store \<Rightarrow> string \<Rightarrow> int \<Rightarrow> 's \<Rightarrow> envelope list res" where
  "list_transitions ops scope after st =
     rbind (invariant (0 \<le> after) ''detached operation transitions afterSequence must be a non-negative integer'') (\<lambda>_.
     rbind (load_document ops scope st) (\<lambda>found.
       Inr (sort_key env_sequence
              (filter (\<lambda>e. after < env_sequence e) (case found of None \<Rightarrow> [] | Some d \<Rightarrow> transitions (memory d))))))"

datatype transition_result =
    Applied op_record envelope
  | Refused string op_record

record transition_request =
  to_status :: string
  req_generation :: int
  req_result :: json
  req_error :: json
  req_evidence :: json
  req_reason :: json

definition not_found :: "string \<Rightarrow> error" where
  "not_found op = Invariant (''detached operation not found: '' @ op)"

definition transition_conflict ::
  "string \<Rightarrow> int \<Rightarrow> op_status \<Rightarrow> manager_doc option \<Rightarrow> transition_result resolution res" where
  "transition_conflict op gen from current =
     (case Option.bind current (\<lambda>d. map_of (operations (memory d)) op) of
        None \<Rightarrow> Inr Retry
      | Some latest \<Rightarrow>
          if is_terminal (status latest) then Inr (Settle (Refused ''TERMINAL_IMMUTABLE'' latest))
          else if generation latest \<noteq> gen \<or> status latest \<noteq> from
          then Inr (Settle (Refused ''CONCURRENT_TAKEOVER'' latest))
          else Inr Retry)"

definition transition_mutator ::
  "string \<Rightarrow> string \<Rightarrow> op_status \<Rightarrow> transition_request \<Rightarrow> transition_result mutator" where
  "transition_mutator scope op to q clk d =
     (case map_of (operations (memory d)) op of
        None \<Rightarrow> Inl (not_found op)
      | Some r \<Rightarrow>
          if is_terminal (status r) then Inr (d, Outcome (Refused ''TERMINAL_IMMUTABLE'' r) None)
          else if req_generation q \<noteq> generation r then Inr (d, Outcome (Refused ''STALE_GENERATION'' r) None)
          else if to \<notin> set (allowed_transitions (status r))
          then Inl (Invariant (''detached operation cannot transition from '' @ status_text (status r) @ '' to '' @ status_text to))
          else rbind (append_transition scope (clk 2) (memory d) op r to
                        (req_result q) (req_error q) (req_evidence q) (req_reason q)) (\<lambda>(m', r', e).
            Inr (d\<lparr>memory := m'\<rparr>,
                 Outcome (Applied r' e) (Some (transition_conflict op (req_generation q) (status r))))))"

definition transition ::
  "('s, manager_memory) session_store \<Rightarrow> string \<Rightarrow> (nat \<Rightarrow> clock) \<Rightarrow> (nat \<Rightarrow> 's \<Rightarrow> 's) \<Rightarrow>
     string \<Rightarrow> transition_request \<Rightarrow> 's \<Rightarrow> 's \<times> transition_result res" where
  "transition ops scope clk env op q st =
     (case rbind (require_text (JStr op) ''detached operation operationId'') (\<lambda>_.
           rbind (require_text (JStr (to_status q)) ''detached operation transition status'') (\<lambda>_.
           case parse_status (to_status q) of
             None \<Rightarrow> Inl (Invariant (''detached operation transition status is invalid: '' @ to_status q))
           | Some to \<Rightarrow>
               rbind (invariant (1 \<le> req_generation q) ''detached operation transition generation must be a positive integer'')
                 (\<lambda>_. Inr to))) of
        Inl e \<Rightarrow> (st, Inl e)
      | Inr to \<Rightarrow> run_mutator ops scope clk env (transition_mutator scope op to q) st)"

record takeover_result =
  takeover_record :: op_record
  took_over :: bool

definition takeover_conflict ::
  "string \<Rightarrow> int \<Rightarrow> manager_doc option \<Rightarrow> takeover_result resolution res" where
  "takeover_conflict op from_gen current =
     (case Option.bind current (\<lambda>d. map_of (operations (memory d)) op) of
        None \<Rightarrow> Inr Retry
      | Some latest \<Rightarrow>
          if is_terminal (status latest) \<or> generation latest \<noteq> from_gen
          then Inr (Settle \<lparr>takeover_record = latest, took_over = False\<rparr>)
          else Inr Retry)"

definition takeover_mutator :: "string \<Rightarrow> takeover_result mutator" where
  "takeover_mutator op clk d =
     (case map_of (operations (memory d)) op of
        None \<Rightarrow> Inl (not_found op)
      | Some r \<Rightarrow>
          if is_terminal (status r) then Inr (d, Outcome \<lparr>takeover_record = r, took_over = False\<rparr> None)
          else (let r' = r\<lparr>generation := generation r + 1, rec_updated_at := clk 2\<rparr> in
                Inr (d\<lparr>memory := (memory d)\<lparr>operations := aset op r' (operations (memory d))\<rparr>\<rparr>,
                     Outcome \<lparr>takeover_record = r', took_over = True\<rparr>
                       (Some (takeover_conflict op (generation r))))))"

definition takeover ::
  "('s, manager_memory) session_store \<Rightarrow> string \<Rightarrow> (nat \<Rightarrow> clock) \<Rightarrow> (nat \<Rightarrow> 's \<Rightarrow> 's) \<Rightarrow> string \<Rightarrow> 's \<Rightarrow>
     's \<times> takeover_result res" where
  "takeover ops scope clk env op st =
     (case require_text (JStr op) ''detached operation operationId'' of
        Inl e \<Rightarrow> (st, Inl e)
      | Inr _ \<Rightarrow> run_mutator ops scope clk env (takeover_mutator op) st)"

definition note_mutator :: "string \<Rightarrow> json \<Rightarrow> op_record mutator" where
  "note_mutator op note clk d =
     (case map_of (operations (memory d)) op of
        None \<Rightarrow> Inl (not_found op)
      | Some r \<Rightarrow>
          let r' = r\<lparr>diagnostics := diagnostics r @ [\<lparr>diag_at = clk 2, diag_generation = generation r, diag_note = note\<rparr>],
                     rec_updated_at := clk 3\<rparr>
          in Inr (d\<lparr>memory := (memory d)\<lparr>operations := aset op r' (operations (memory d))\<rparr>\<rparr>,
                  Outcome r' (Some (\<lambda>_. Inr Retry))))"

definition note_diagnostic ::
  "('s, manager_memory) session_store \<Rightarrow> string \<Rightarrow> (nat \<Rightarrow> clock) \<Rightarrow> (nat \<Rightarrow> 's \<Rightarrow> 's) \<Rightarrow> string \<Rightarrow> json \<Rightarrow> 's \<Rightarrow>
     's \<times> op_record res" where
  "note_diagnostic ops scope clk env op note st =
     (case require_text (JStr op) ''detached operation operationId'' of
        Inl e \<Rightarrow> (st, Inl e)
      | Inr _ \<Rightarrow> run_mutator ops scope clk env (note_mutator op note) st)"

lemmas mutator_defs = create_mutator_def transition_mutator_def takeover_mutator_def note_mutator_def

subsection \<open>What the document always satisfies\<close>

definition history :: "manager_memory \<Rightarrow> string \<Rightarrow> envelope list" where
  "history m op = filter (\<lambda>e. env_operation_id e = op) (transitions m)"

text \<open>One operation's log: it starts RUNNING, every step is allowed, generations never fall.\<close>

definition valid_history :: "envelope list \<Rightarrow> bool" where
  "valid_history h \<longleftrightarrow>
     h \<noteq> [] \<and> env_status (hd h) = RUNNING \<and>
     successively (\<lambda>a b. env_status b \<in> set (allowed_transitions (env_status a))) h \<and>
     sorted (map env_generation h)"

definition agrees :: "op_record \<Rightarrow> envelope list \<Rightarrow> bool" where
  "agrees r h \<longleftrightarrow>
     h \<noteq> [] \<and> status r = env_status (last h) \<and> op_result r = env_result (last h) \<and>
     rec_sequence r = Some (env_sequence (last h)) \<and> env_generation (last h) \<le> generation r"

definition memory_ok :: "string \<Rightarrow> manager_memory \<Rightarrow> bool" where
  "memory_ok scope m \<longleftrightarrow>
     1 \<le> next_sequence m \<and>
     sorted_wrt (<) (map env_sequence (transitions m)) \<and>
     (\<forall>e \<in> set (transitions m). 1 \<le> env_sequence e \<and> env_sequence e < next_sequence m \<and>
        map_of (operations m) (env_operation_id e) \<noteq> None) \<and>
     (\<forall>op r. map_of (operations m) op = Some r \<longrightarrow>
        operation_id (bound r) = op \<and> scope_id (bound r) = scope \<and> 1 \<le> generation r \<and>
        valid_history (history m op) \<and> agrees r (history m op))"

lemma history_append:
  "history (m\<lparr>transitions := ts @ [e]\<rparr>) op =
     filter (\<lambda>e. env_operation_id e = op) ts @ (if env_operation_id e = op then [e] else [])"
  by (simp add: history_def)

lemma append_transition_Inr:
  assumes "append_transition scope at m key r to res err ev why = Inr (m', r', e)"
  shows "operations m' = aset key r' (operations m)" "transitions m' = transitions m @ [e]"
    "next_sequence m' = next_sequence m + 1"
    "bound r' = bound r" "generation r' = generation r" "status r' = to" "op_result r' = res"
    "rec_sequence r' = Some (next_sequence m)"
    "env_operation_id e = operation_id (bound r)" "env_scope_id e = scope" "env_status e = to"
    "env_generation e = generation r" "env_sequence e = next_sequence m" "env_result e = res"
    "transition_id e = operation_id (bound r) @ '':g'' @ int_text (generation r) @ '':s'' @
       int_text (next_sequence m) @ '':'' @ status_text to"
  using assms by (auto simp: append_transition_def derive_transition_id_def put_record_def Let_def)

lemma valid_history_snoc:
  assumes "valid_history h" "env_status e \<in> set (allowed_transitions (env_status (last h)))"
    "env_generation (last h) \<le> env_generation e"
  shows "valid_history (h @ [e])"
proof -
  have "h \<noteq> []" using assms(1) by (simp add: valid_history_def)
  moreover from this assms have "\<forall>x \<in> set h. env_generation x \<le> env_generation e"
    by (auto simp: valid_history_def sorted_wrt_iff_nth_less in_set_conv_nth last_conv_nth)
      (metis (no_types, lifting) Suc_pred diff_less length_greater_0_conv less_Suc_eq linorder_not_le
        not_less_less_Suc_eq order_trans nat_neq_iff zero_less_one)
  ultimately show ?thesis
    using assms by (auto simp: valid_history_def successively_append_iff sorted_append)
qed

lemma append_transition_ok:
  assumes next_seq: "1 \<le> next_sequence m" and sorted: "sorted_wrt (<) (map env_sequence (transitions m))"
    and log: "\<And>x. x \<in> set (transitions m) \<Longrightarrow> 1 \<le> env_sequence x \<and> env_sequence x < next_sequence m \<and>
      map_of (operations m) (env_operation_id x) \<noteq> None"
    and others: "\<And>k x. k \<noteq> op \<Longrightarrow> map_of (operations m) k = Some x \<Longrightarrow>
      operation_id (bound x) = k \<and> scope_id (bound x) = scope \<and> 1 \<le> generation x \<and>
      valid_history (history m k) \<and> agrees x (history m k)"
    and r: "operation_id (bound r) = op" "scope_id (bound r) = scope" "1 \<le> generation r"
    and step: "history m op = [] \<and> to = RUNNING \<or>
      valid_history (history m op) \<and> agrees r (history m op) \<and> to \<in> set (allowed_transitions (status r))"
    and app: "append_transition scope at m op r to res err ev why = Inr (m', r', e)"
  shows "memory_ok scope m'"
proof -
  note app = append_transition_Inr [OF app]
  have hist: "history m' k = history m k @ (if k = op then [e] else [])" for k
    using app r by (auto simp: history_def)
  have "valid_history (history m op @ [e]) \<and> agrees r' (history m op @ [e])"
  proof (cases "history m op = []")
    case True
    with step have "to = RUNNING" by (auto simp: valid_history_def)
    with True app show ?thesis by (simp add: valid_history_def agrees_def)
  next
    case False
    with step have h: "valid_history (history m op)" "agrees r (history m op)" "to \<in> set (allowed_transitions (status r))"
      by auto
    then have "valid_history (history m op @ [e])"
      using app by (intro valid_history_snoc) (auto simp: agrees_def)
    with app show ?thesis by (simp add: agrees_def)
  qed
  then have op_ok: "k = op \<Longrightarrow> valid_history (history m' k) \<and> agrees r' (history m' k)" for k
    by (simp add: hist)
  show ?thesis
    unfolding memory_ok_def
  proof (intro conjI ballI allI impI)
    show "1 \<le> next_sequence m'" using next_seq app by simp
    show "sorted_wrt (<) (map env_sequence (transitions m'))"
      using sorted log app by (auto simp: sorted_wrt_append)
  next
    fix x assume "x \<in> set (transitions m')"
    then have "x = e \<or> x \<in> set (transitions m)" using app by auto
    then show "1 \<le> env_sequence x" "env_sequence x < next_sequence m'"
        "map_of (operations m') (env_operation_id x) \<noteq> None"
      using log [of x] app r next_seq by (auto split: if_splits)
  next
    fix k x assume k: "map_of (operations m') k = Some x"
    show "operation_id (bound x) = k" "scope_id (bound x) = scope" "1 \<le> generation x"
        "valid_history (history m' k)" "agrees x (history m' k)"
      using k others [of k x] op_ok [of k] app r hist [of k] by (auto split: if_splits)
  qed
qed

lemma memory_okD:
  assumes "memory_ok scope m"
  shows "1 \<le> next_sequence m" "sorted_wrt (<) (map env_sequence (transitions m))"
    "x \<in> set (transitions m) \<Longrightarrow> 1 \<le> env_sequence x \<and> env_sequence x < next_sequence m \<and>
      map_of (operations m) (env_operation_id x) \<noteq> None"
    "map_of (operations m) k = Some r \<Longrightarrow> operation_id (bound r) = k \<and> scope_id (bound r) = scope \<and>
      1 \<le> generation r \<and> valid_history (history m k) \<and> agrees r (history m k)"
  using assms by (auto simp: memory_ok_def)

text \<open>Changing only a record's generation (upwards), diagnostics or time keeps the document sound.\<close>

lemma memory_ok_touch:
  assumes ok: "memory_ok scope m" and r: "map_of (operations m) op = Some r"
    and r': "bound r' = bound r" "generation r \<le> generation r'" "status r' = status r"
      "op_result r' = op_result r" "rec_sequence r' = rec_sequence r"
  shows "memory_ok scope (m\<lparr>operations := aset op r' (operations m)\<rparr>)"
  using memory_okD [OF ok] memory_okD(4) [OF ok r] r'
  by (auto simp: memory_ok_def history_def agrees_def)

lemma empty_memory_ok: "memory_ok scope (memory (empty_document scope at))"
  by (simp add: memory_ok_def empty_document_def)

lemma ensure_shape_ok: "memory_ok scope (memory d) \<Longrightarrow> memory (ensure_document_shape scope d) = memory d"
  by (auto simp: ensure_document_shape_def memory_ok_def Let_def)

lemma ensure_shape_frame [simp]:
  "operations (memory (ensure_document_shape scope d)) = operations (memory d)"
  "transitions (memory (ensure_document_shape scope d)) = transitions (memory d)"
  "sid (ensure_document_shape scope d) = sid d"
  "revision (ensure_document_shape scope d) = revision d"
  by (auto simp: ensure_document_shape_def Let_def)

definition mutator_keeps_ok :: "string \<Rightarrow> 'v mutator \<Rightarrow> bool" where
  "mutator_keeps_ok scope mu \<longleftrightarrow>
     (\<forall>clk d d' out. memory_ok scope (memory d) \<longrightarrow> mu clk d = Inr (d', out) \<longrightarrow> memory_ok scope (memory d'))"

lemma create_keeps_ok: "scope_id b = scope \<Longrightarrow> mutator_keeps_ok scope (create_mutator scope b)"
  unfolding mutator_keeps_ok_def
proof (intro allI impI)
  fix clk d d' out
  assume scope: "scope_id b = scope" and ok: "memory_ok scope (memory d)"
    and mu: "create_mutator scope b clk d = Inr (d', out)"
  show "memory_ok scope (memory d')"
  proof (cases "map_of (operations (memory d)) (operation_id b)")
    case None
    define r where "r = fresh_record b (clk 2)"
    let ?m = "put_record (operation_id b) r (memory d)"
    from mu None obtain m' r' e where
      app: "append_transition scope (clk 3) ?m (operation_id b) r RUNNING JNull JNull JNull (JStr ''scheduled'') = Inr (m', r', e)"
      and d': "d' = d\<lparr>memory := m'\<rparr>"
      by (auto simp: create_mutator_def r_def Let_def)
    note okD = memory_okD [OF ok]
    have fresh: "history ?m (operation_id b) = []"
      using okD(3) None by (fastforce simp: history_def put_record_def filter_empty_conv)
    have "memory_ok scope m'"
    proof (rule append_transition_ok [OF _ _ _ _ _ _ _ _ app])
      show "1 \<le> next_sequence ?m" "sorted_wrt (<) (map env_sequence (transitions ?m))"
        using okD(1,2) by (simp_all add: put_record_def)
      show "1 \<le> env_sequence x \<and> env_sequence x < next_sequence ?m \<and> map_of (operations ?m) (env_operation_id x) \<noteq> None"
        if "x \<in> set (transitions ?m)" for x
        using okD(3) [of x] that by (auto simp: put_record_def)
      show "operation_id (bound x) = k \<and> scope_id (bound x) = scope \<and> 1 \<le> generation x \<and>
          valid_history (history ?m k) \<and> agrees x (history ?m k)"
        if "k \<noteq> operation_id b" "map_of (operations ?m) k = Some x" for k x
        using okD(4) [of k x] that by (auto simp: put_record_def history_def)
    qed (use scope fresh in \<open>auto simp: r_def fresh_record_def\<close>)
    with d' show ?thesis by simp
  next
    case (Some r)
    with mu ok show ?thesis by (auto simp: create_mutator_def)
  qed
qed

lemma transition_keeps_ok: "mutator_keeps_ok scope (transition_mutator scope op to q)"
  unfolding mutator_keeps_ok_def
proof (intro allI impI)
  fix clk d d' out
  assume ok: "memory_ok scope (memory d)" and mu: "transition_mutator scope op to q clk d = Inr (d', out)"
  from mu obtain r where r: "map_of (operations (memory d)) op = Some r"
    by (auto simp: transition_mutator_def split: option.splits)
  note okD = memory_okD [OF ok]
  show "memory_ok scope (memory d')"
  proof (cases "d' = d")
    case False
    with mu r obtain m' r' e where to: "to \<in> set (allowed_transitions (status r))"
      and app: "append_transition scope (clk 2) (memory d) op r to
          (req_result q) (req_error q) (req_evidence q) (req_reason q) = Inr (m', r', e)"
      and d': "d' = d\<lparr>memory := m'\<rparr>"
      by (auto simp: transition_mutator_def split: if_splits)
    have "memory_ok scope m'"
      by (rule append_transition_ok [OF okD(1,2) _ _ _ _ _ _ app]) (use okD(3) okD(4) r to in auto)
    with d' show ?thesis by simp
  qed (use ok in simp)
qed

lemma takeover_keeps_ok: "mutator_keeps_ok scope (takeover_mutator op)"
  by (auto simp: mutator_keeps_ok_def takeover_mutator_def Let_def intro!: memory_ok_touch
      split: option.splits if_splits)

lemma note_keeps_ok: "mutator_keeps_ok scope (note_mutator op note)"
  by (auto simp: mutator_keeps_ok_def note_mutator_def Let_def intro!: memory_ok_touch
      split: option.splits if_splits)

subsection \<open>How the document may evolve\<close>

text \<open>
  Between any two moments: the log only grows at its end, no operation disappears or changes
  its binding, generations never fall, and a terminal record is frozen.
\<close>

definition record_evolves :: "op_record \<Rightarrow> op_record \<Rightarrow> bool" where
  "record_evolves r r' \<longleftrightarrow>
     bound r' = bound r \<and> generation r \<le> generation r' \<and>
     (is_terminal (status r) \<longrightarrow> status r' = status r \<and> op_result r' = op_result r \<and> generation r' = generation r)"

definition evolves :: "manager_memory \<Rightarrow> manager_memory \<Rightarrow> bool" where
  "evolves m m' \<longleftrightarrow>
     (\<exists>ts. transitions m' = transitions m @ ts) \<and>
     (\<forall>op r. map_of (operations m) op = Some r \<longrightarrow>
        (\<exists>r'. map_of (operations m') op = Some r' \<and> record_evolves r r'))"

lemma record_evolves_refl [simp]: "record_evolves r r"
  by (simp add: record_evolves_def)

lemma record_evolves_trans: "record_evolves a b \<Longrightarrow> record_evolves b c \<Longrightarrow> record_evolves a c"
  by (auto simp: record_evolves_def)

lemma evolves_refl [simp]: "evolves m m"
  by (auto simp: evolves_def)

lemma evolves_trans: "evolves a b \<Longrightarrow> evolves b c \<Longrightarrow> evolves a c"
  unfolding evolves_def by (fastforce intro: record_evolves_trans)

lemma evolves_same: "operations m' = operations m \<Longrightarrow> transitions m' = transitions m \<Longrightarrow> evolves m m'"
  by (auto simp: evolves_def)

lemma evolves_put:
  assumes "transitions m' = transitions m @ ts" "operations m' = aset op r' (operations m)"
    "\<And>r. map_of (operations m) op = Some r \<Longrightarrow> record_evolves r r'"
  shows "evolves m m'"
  using assms by (auto simp: evolves_def)

definition mutator_evolves :: "'v mutator \<Rightarrow> bool" where
  "mutator_evolves mu \<longleftrightarrow>
     (\<forall>clk d d' out. mu clk d = Inr (d', out) \<longrightarrow>
        evolves (memory d) (memory d') \<and> sid d' = sid d \<and> revision d' = revision d)"

lemma mutator_evolvesD:
  "mutator_evolves mu \<Longrightarrow> mu clk d = Inr (d', out) \<Longrightarrow>
     evolves (memory d) (memory d') \<and> sid d' = sid d \<and> revision d' = revision d"
  unfolding mutator_evolves_def by blast

lemma create_evolves: "mutator_evolves (create_mutator scope b)"
  unfolding mutator_evolves_def
proof (intro allI impI)
  fix clk d d' out
  assume mu: "create_mutator scope b clk d = Inr (d', out)"
  show "evolves (memory d) (memory d') \<and> sid d' = sid d \<and> revision d' = revision d"
  proof (cases "map_of (operations (memory d)) (operation_id b)")
    case None
    with mu obtain m' r' e where
      app: "append_transition scope (clk 3) (put_record (operation_id b) (fresh_record b (clk 2)) (memory d))
              (operation_id b) (fresh_record b (clk 2)) RUNNING JNull JNull JNull (JStr ''scheduled'') = Inr (m', r', e)"
      and d': "d' = d\<lparr>memory := m'\<rparr>"
      by (auto simp: create_mutator_def Let_def)
    have "evolves (memory d) m'"
      using append_transition_Inr(1,2) [OF app] None by (auto simp: evolves_def put_record_def)
    with d' show ?thesis by simp
  qed (use mu in \<open>auto simp: create_mutator_def\<close>)
qed

lemma transition_evolves: "mutator_evolves (transition_mutator scope op to q)"
  unfolding mutator_evolves_def
proof (intro allI impI)
  fix clk d d' out
  assume mu: "transition_mutator scope op to q clk d = Inr (d', out)"
  from mu obtain r where r: "map_of (operations (memory d)) op = Some r"
    by (auto simp: transition_mutator_def split: option.splits)
  show "evolves (memory d) (memory d') \<and> sid d' = sid d \<and> revision d' = revision d"
  proof (cases "d' = d")
    case False
    with mu r obtain m' r' e where "\<not> is_terminal (status r)"
      and app: "append_transition scope (clk 2) (memory d) op r to
          (req_result q) (req_error q) (req_evidence q) (req_reason q) = Inr (m', r', e)"
      and d': "d' = d\<lparr>memory := m'\<rparr>"
      by (auto simp: transition_mutator_def split: if_splits)
    with append_transition_Inr [OF app] r have "evolves (memory d) m'"
      by (intro evolves_put [where ts = "[e]"]) (auto simp: record_evolves_def)
    with d' show ?thesis by simp
  qed simp
qed

lemma takeover_evolves: "mutator_evolves (takeover_mutator op)"
  by (auto simp: mutator_evolves_def takeover_mutator_def Let_def record_evolves_def
      intro!: evolves_put [where ts = "[]"] split: option.splits if_splits)

lemma note_evolves: "mutator_evolves (note_mutator op note)"
  by (auto simp: mutator_evolves_def note_mutator_def Let_def record_evolves_def
      intro!: evolves_put [where ts = "[]"] split: option.splits if_splits)

lemmas mutators_evolve = create_evolves transition_evolves takeover_evolves note_evolves
lemmas mutators_keep_ok = create_keeps_ok transition_keeps_ok takeover_keeps_ok note_keeps_ok

text \<open>What a mutator did when its answer says that it changed the record.\<close>

lemma transition_mutator_applied:
  assumes "transition_mutator scope op to q clk d = Inr (d', out)" "outcome_value out = Applied r' e"
  shows "\<exists>r. map_of (operations (memory d)) op = Some r \<and> \<not> is_terminal (status r) \<and>
     generation r = req_generation q \<and> to \<in> set (allowed_transitions (status r)) \<and>
     map_of (operations (memory d')) op = Some r' \<and> status r' = to \<and> generation r' = generation r \<and>
     bound r' = bound r \<and> transitions (memory d') = transitions (memory d) @ [e] \<and>
     env_operation_id e = operation_id (bound r) \<and> env_status e = to \<and> env_generation e = generation r \<and>
     env_result e = req_result q"
proof -
  from assms(1) obtain r where r: "map_of (operations (memory d)) op = Some r"
    by (cases "map_of (operations (memory d)) op") (simp_all add: transition_mutator_def)
  have guards: "\<not> is_terminal (status r)" "req_generation q = generation r" "to \<in> set (allowed_transitions (status r))"
    using assms r by (auto simp: transition_mutator_def split: if_splits)
  obtain m' r'' e'' where app: "append_transition scope (clk 2) (memory d) op r to
       (req_result q) (req_error q) (req_evidence q) (req_reason q) = Inr (m', r'', e'')" and d': "d' = d\<lparr>memory := m'\<rparr>"
    "r'' = r'" "e'' = e"
    using assms r guards
    by (cases "append_transition scope (clk 2) (memory d) op r to (req_result q) (req_error q) (req_evidence q) (req_reason q)")
      (auto simp: transition_mutator_def)
  show ?thesis using r d' guards append_transition_Inr [OF app] by simp
qed

lemma takeover_mutator_won:
  assumes "takeover_mutator op clk d = Inr (d', out)" "took_over (outcome_value out)"
  shows "\<exists>r. map_of (operations (memory d)) op = Some r \<and> \<not> is_terminal (status r) \<and>
     generation (takeover_record (outcome_value out)) = generation r + 1 \<and>
     map_of (operations (memory d')) op = Some (takeover_record (outcome_value out))"
  using assms by (auto simp: takeover_mutator_def Let_def split: option.splits if_splits)

lemma create_mutator_new:
  assumes "create_mutator scope b clk d = Inr (d', out)" "\<not> attached (outcome_value out)"
  shows "\<exists>e. map_of (operations (memory d)) (operation_id b) = None \<and>
     map_of (operations (memory d')) (operation_id b) = Some (created_record (outcome_value out)) \<and>
     bound (created_record (outcome_value out)) = b \<and> status (created_record (outcome_value out)) = RUNNING \<and>
     generation (created_record (outcome_value out)) = 1 \<and> created_transition (outcome_value out) = Some e \<and>
     transitions (memory d') = transitions (memory d) @ [e]"
proof -
  let ?r = "fresh_record b (clk 2)"
  from assms obtain m' r' e where fresh: "map_of (operations (memory d)) (operation_id b) = None"
    and app: "append_transition scope (clk 3) (put_record (operation_id b) ?r (memory d))
       (operation_id b) ?r RUNNING JNull JNull JNull (JStr ''scheduled'') = Inr (m', r', e)"
    and out: "d' = d\<lparr>memory := m'\<rparr>" "created_record (outcome_value out) = r'" "created_transition (outcome_value out) = Some e"
    by (auto simp: create_mutator_def Let_def split: option.splits)
  show ?thesis using fresh out append_transition_Inr [OF app] by (simp add: put_record_def fresh_record_def)
qed

subsection \<open>The optimistic update is an atomic update\<close>

definition stored_memory :: "('s, manager_memory) session_store \<Rightarrow> string \<Rightarrow> 's \<Rightarrow> manager_memory" where
  "stored_memory ops scope st =
     (case op_load ops st (document_id_for scope) of
        Inr (Some d) \<Rightarrow> memory d
      | _ \<Rightarrow> \<lparr>operations = [], transitions = [], next_sequence = 1\<rparr>)"

definition document_of :: "string \<Rightarrow> string \<Rightarrow> manager_doc option \<Rightarrow> manager_doc" where
  "document_of scope at found =
     (case found of None \<Rightarrow> empty_document scope at | Some d \<Rightarrow> ensure_document_shape scope d)"

text \<open>
  One step of a writer that plays by the rules: it respects the revision check, lets the
  document evolve and keeps it sound.  The other writers do any number of such steps during each wait.
\<close>

definition store_step ::
  "('s, manager_memory) session_store \<Rightarrow> ('s \<Rightarrow> string \<Rightarrow> int) \<Rightarrow> ('s \<Rightarrow> bool) \<Rightarrow> string \<Rightarrow> 's \<Rightarrow> 's \<Rightarrow> bool" where
  "store_step ops rev_of good scope st st' \<longleftrightarrow>
     interference ops rev_of good (document_id_for scope) st st' \<and>
     evolves (stored_memory ops scope st) (stored_memory ops scope st') \<and>
     (memory_ok scope (stored_memory ops scope st) \<longrightarrow> memory_ok scope (stored_memory ops scope st'))"

definition environment_ok ::
  "('s, manager_memory) session_store \<Rightarrow> ('s \<Rightarrow> string \<Rightarrow> int) \<Rightarrow> ('s \<Rightarrow> bool) \<Rightarrow> string \<Rightarrow> (nat \<Rightarrow> 's \<Rightarrow> 's) \<Rightarrow> bool" where
  "environment_ok ops rev_of good scope env \<longleftrightarrow> (\<forall>k st. good st \<longrightarrow> store_step ops rev_of good scope st (env k st))"

lemma store_step_refl: "good st \<Longrightarrow> store_step ops rev_of good scope st st"
  by (simp add: store_step_def interference_def)

lemma store_step_trans:
  "store_step ops rev_of good scope a b \<Longrightarrow> store_step ops rev_of good scope b c \<Longrightarrow>
     store_step ops rev_of good scope a c"
  by (auto simp: store_step_def interference_def intro: evolves_trans)

lemma store_stepD:
  "store_step ops rev_of good scope a b \<Longrightarrow> good b \<and> interference ops rev_of good (document_id_for scope) a b \<and>
     evolves (stored_memory ops scope a) (stored_memory ops scope b) \<and>
     (memory_ok scope (stored_memory ops scope a) \<longrightarrow> memory_ok scope (stored_memory ops scope b))"
  by (simp add: store_step_def interference_def)

lemma environment_quiet: "environment_ok ops rev_of good scope (\<lambda>_ st. st)"
  by (simp add: environment_ok_def store_step_refl)

text \<open>
  \<open>v\<close> was returned by a save at \<open>stc\<close> that applied the mutator to the document \<open>stc\<close>
  itself holds, so the update took effect in one step.
\<close>

definition committed ::
  "('s, manager_memory) session_store \<Rightarrow> ('s \<Rightarrow> string \<Rightarrow> int) \<Rightarrow> ('s \<Rightarrow> bool) \<Rightarrow> string \<Rightarrow> (nat \<Rightarrow> clock) \<Rightarrow> 'v mutator \<Rightarrow> 's \<Rightarrow> 's \<Rightarrow> 's \<Rightarrow> 'v \<Rightarrow> bool" where
  "committed ops rev_of good scope clk mutator st stc st' v \<longleftrightarrow>
     store_step ops rev_of good scope st stc \<and>
     (\<exists>n found d' out r.
        op_load ops stc (document_id_for scope) = Inr found \<and>
        mutator (clk n) (document_of scope (clk n 0) found) = Inr (d', out) \<and>
        v = outcome_value out \<and>
        op_save ops stc (d'\<lparr>updated_at := clk n 1\<rparr>) (or_else (revision d') 0) = (st', Inr r) \<and>
        stored_memory ops scope st' = memory d')"

text \<open>\<open>v\<close> was the answer of a conflict handler to the document the store holds at the end.\<close>

definition settled ::
  "('s, manager_memory) session_store \<Rightarrow> string \<Rightarrow> (nat \<Rightarrow> clock) \<Rightarrow> 'v mutator \<Rightarrow> 's \<Rightarrow> 'v \<Rightarrow> bool" where
  "settled ops scope clk mutator st' v \<longleftrightarrow>
     (\<exists>n found current d' out h.
        mutator (clk n) (document_of scope (clk n 0) found) = Inr (d', out) \<and> on_conflict out = Some h \<and>
        op_load ops st' (document_id_for scope) = Inr current \<and>
        h (map_option (ensure_document_shape scope) current) = Inr (Settle v))"

locale detached_scope = revision_store ops rev_of good
  for ops :: "('s, manager_memory) session_store" and rev_of good +
  fixes scope :: string
begin

lemma stored_shape:
  "op_load ops st (document_id_for scope) = Inr found \<Longrightarrow>
     operations (memory (document_of scope at found)) = operations (stored_memory ops scope st) \<and>
     transitions (memory (document_of scope at found)) = transitions (stored_memory ops scope st)"
  by (cases found) (auto simp: document_of_def stored_memory_def empty_document_def)

lemma stored_ok:
  "op_load ops st (document_id_for scope) = Inr found \<Longrightarrow>
     memory_ok scope (stored_memory ops scope st) \<Longrightarrow> memory_ok scope (memory (document_of scope at found))"
  by (cases found) (auto simp: document_of_def stored_memory_def ensure_shape_ok empty_memory_ok)

lemma document_of_id:
  "good st \<Longrightarrow> op_load ops st (document_id_for scope) = Inr found \<Longrightarrow>
     sid (document_of scope at found) = document_id_for scope \<and>
     or_else (revision (document_of scope at found)) 0 = (case found of None \<Rightarrow> 0 | Some x \<Rightarrow> or_else (revision x) 0)"
  using load_present [of st "document_id_for scope"]
  by (cases found) (auto simp: document_of_def empty_document_def)

text \<open>A successful save of a document read before \<open>env\<close> commits against what the store holds.\<close>

lemma save_commits_read:
  assumes good: "good st1" and load: "op_load ops st1 (document_id_for scope) = Inr found"
    and mu: "mutator_evolves mutator" "mutator_keeps_ok scope mutator" "mutator (clk n) (document_of scope (clk n 0) found) = Inr (d', out)"
    and env: "interference ops rev_of good (document_id_for scope) st1 st2"
    and save: "op_save ops st2 (d'\<lparr>updated_at := at\<rparr>) (or_else (revision d') 0) = (st3, Inr r)"
  shows "op_load ops st2 (document_id_for scope) = Inr found" "good st3"
    "stored_memory ops scope st3 = memory d'"
    "store_step ops rev_of good scope st2 st3"
proof -
  let ?d = "document_of scope (clk n 0) found"
  have d': "sid d' = document_id_for scope" "or_else (revision d') 0 = (case found of None \<Rightarrow> 0 | Some x \<Rightarrow> or_else (revision x) 0)"
    and ev: "evolves (memory ?d) (memory d')"
    using mutator_evolvesD [OF mu(1,3)] document_of_id [OF good load, of "clk n 0"] by auto
  have good2: "good st2" using env by (simp add: interference_def)
  show same: "op_load ops st2 (document_id_for scope) = Inr found"
    using save_sees_read [of st1 "d'\<lparr>updated_at := at\<rparr>" found st2, OF good _ _ _ save] load env d' by simp
  show "good st3" "stored_memory ops scope st3 = memory d'"
    using save_commits [OF good2 save] d' by (auto simp: stored_memory_def)
  then have "evolves (stored_memory ops scope st2) (stored_memory ops scope st3)"
    using ev stored_shape [OF same, of "clk n 0"] by (simp add: evolves_def)
  moreover have "memory_ok scope (stored_memory ops scope st2) \<Longrightarrow> memory_ok scope (stored_memory ops scope st3)"
    using mu stored_ok [OF same, of "clk n 0"] \<open>stored_memory ops scope st3 = memory d'\<close>
    unfolding mutator_keeps_ok_def by auto
  ultimately show "store_step ops rev_of good scope st2 st3"
    using save_is_interference [OF good2 save] by (simp add: store_step_def)
qed

lemma save_document_cases:
  assumes good: "good st2" and save: "save_document ops at d' st2 = (st3, res)"
  obtains (saved) r where "op_save ops st2 (d'\<lparr>updated_at := at\<rparr>) (or_else (revision d') 0) = (st3, Inr r)" "is_ok res"
    | (refused) e where "st3 = st2" "res = Inl e"
proof (cases "op_save ops st2 (d'\<lparr>updated_at := at\<rparr>) (or_else (revision d') 0)")
  case (Pair s x)
  show thesis
  proof (cases x)
    case (Inl e)
    with Pair save save_refused [OF good, of "d'\<lparr>updated_at := at\<rparr>"] that(2) show thesis
      by (auto simp: save_document_def Let_def)
  next
    case (Inr r)
    with Pair save_commits [OF good, of "d'\<lparr>updated_at := at\<rparr>" "or_else (revision d') 0" s r]
    have "r = Some (or_else (revision d') 0 + 1)" by simp
    with Inr Pair save that(1) show thesis
      by (auto simp: save_document_def Let_def assert_persisted_revision_def)
  qed
qed

lemma with_document_steps:
  assumes env: "environment_ok ops rev_of good scope env" and mu: "mutator_evolves mutator" "mutator_keeps_ok scope mutator"
  shows "good st \<Longrightarrow> with_document ops scope clk env mutator n left st = (st', res) \<Longrightarrow>
     store_step ops rev_of good scope st st' \<and>
     (\<forall>v. res = Inr v \<longrightarrow> (\<exists>stc. committed ops rev_of good scope clk mutator st stc st' v) \<or> settled ops scope clk mutator st' v)"
proof (induction left arbitrary: n st rule: less_induct)
  case (less left)
  let ?ev = "store_step ops rev_of good scope"
  have envD: "good x \<Longrightarrow> interference ops rev_of good (document_id_for scope) x (env k x) \<and> good (env k x) \<and> ?ev x (env k x)" for k x
    using env by (auto simp: environment_ok_def dest: store_stepD)
  define st1 where "st1 = env (3 * n) st"
  have good1: "good st1" and ev1: "?ev st st1" using envD [OF less.prems(1)] by (auto simp: st1_def)
  obtain found where found: "op_load ops st1 (document_id_for scope) = Inr found"
    using load_total [OF good1] by blast
  have load1: "load_document ops scope st1 = Inr (map_option (ensure_document_shape scope) found)"
    using found by (simp add: load_document_def)
  have doc: "(case map_option (ensure_document_shape scope) found of None \<Rightarrow> empty_document scope (clk n 0) | Some d \<Rightarrow> d)
      = document_of scope (clk n 0) found"
    by (cases found) (auto simp: document_of_def)
  note step = less.prems(2) [unfolded with_document.simps [of ops scope clk env mutator n left st] Let_def,
      folded st1_def, unfolded load1 sum.case doc]
  show ?case
  proof (cases "mutator (clk n) (document_of scope (clk n 0) found)")
    case (Inl e)
    with step good1 ev1 show ?thesis by auto
  next
    case (Inr p)
    obtain d' out where p: "p = (d', out)" by (cases p)
    note mutated = Inr [unfolded p]
    define st2 where "st2 = env (3 * n + 1) st1"
    have good2: "good st2" and ev2: "?ev st st2"
      and inter: "interference ops rev_of good (document_id_for scope) st1 st2"
      using envD [OF good1, of "3 * n + 1"] store_step_trans [OF ev1] by (auto simp: st2_def)
    obtain st3 sres where save: "save_document ops (clk n 1) d' st2 = (st3, sres)"
      by (cases "save_document ops (clk n 1) d' st2")
    note step = step [unfolded Inr p sum.case prod.case, folded st2_def, unfolded save prod.case]
    from good2 save show ?thesis
    proof (cases rule: save_document_cases)
      case (saved r)
      note c = save_commits_read [where mutator = mutator and clk = clk and n = n, OF good1 found mu mutated inter saved(1)]
      from saved(2) step have res: "st' = st3" "res = Inr (outcome_value out)"
        by (auto simp: is_ok_def split: sum.splits)
      have "committed ops rev_of good scope clk mutator st st2 st3 (outcome_value out)"
        unfolding committed_def using ev2 c(1,3) mutated saved(1) by blast
      moreover have "?ev st st3" using store_step_trans [OF ev2 c(4)] .
      ultimately show ?thesis using res by blast
    next
      case (refused e)
      note step = step [unfolded refused sum.case]
      show ?thesis
      proof (cases "is_store_conflict e \<and> 0 < left")
        case False
        with step good2 ev2 show ?thesis by auto
      next
        case True
        then have lt: "left - 1 < left" by simp
        have weaken: "committed ops rev_of good scope clk mutator st'' stc s' v \<Longrightarrow> ?ev st st'' \<Longrightarrow>
            committed ops rev_of good scope clk mutator st stc s' v" for st'' stc s' v
          unfolding committed_def by (auto intro: store_step_trans)
        have rec: "good st'' \<Longrightarrow> ?ev st st'' \<Longrightarrow>
            with_document ops scope clk env mutator (n + 1) (left - 1) st'' = (st', res) \<Longrightarrow> ?thesis" for st''
          using less.IH [OF lt, of st'' "n + 1"] store_step_trans [of ops rev_of good scope st st'' st'] weaken by blast
        show ?thesis
        proof (cases "on_conflict out")
          case None
          with True step rec [OF good2 ev2] show ?thesis by simp
        next
          case (Some h)
          define st4 where "st4 = env (3 * n + 2) st2"
          have good4: "good st4" and ev4: "?ev st st4"
            using envD [OF good2, of "3 * n + 2"] store_step_trans [OF ev2] by (auto simp: st4_def)
          obtain cur where cur: "op_load ops st4 (document_id_for scope) = Inr cur"
            using load_total [OF good4] by blast
          then have load4: "load_document ops scope st4 = Inr (map_option (ensure_document_shape scope) cur)"
            by (simp add: load_document_def)
          show ?thesis
          proof (cases "h (map_option (ensure_document_shape scope) cur)")
            case (Inl e')
            with True Some step load4 good4 ev4 show ?thesis by (auto simp: st4_def)
          next
            case (Inr y)
            show ?thesis
            proof (cases y)
              case Retry
              with Inr True Some step load4 rec [OF good4 ev4] show ?thesis by (simp add: st4_def)
            next
              case (Settle v)
              with Inr True Some step load4 have "st' = st4" "res = Inr v" by (simp_all add: st4_def)
              moreover have "settled ops scope clk mutator st4 v"
                unfolding settled_def using mutated Some cur Inr Settle by blast
              ultimately show ?thesis using ev4 by blast
            qed
          qed
        qed
      qed
    qed
  qed
qed

lemma run_mutator_steps:
  assumes "environment_ok ops rev_of good scope env" "mutator_evolves mutator" "mutator_keeps_ok scope mutator" "good st"
    "run_mutator ops scope clk env mutator st = (st', res)"
  shows "store_step ops rev_of good scope st st'"
    "res = Inr v \<Longrightarrow> (\<exists>stc. committed ops rev_of good scope clk mutator st stc st' v) \<or> settled ops scope clk mutator st' v"
  using with_document_steps [OF assms(1-4) assms(5) [unfolded run_mutator_def]] by auto

subsubsection \<open>The operations, as steps of the store\<close>

lemma operation_steps:
  assumes "environment_ok ops rev_of good scope env" "good st"
  shows "create ops scope clk env raw st = (st1, rc) \<Longrightarrow> store_step ops rev_of good scope st st1"
    "transition ops scope clk env op q st = (st2, rt) \<Longrightarrow> store_step ops rev_of good scope st st2"
    "takeover ops scope clk env op st = (st3, rk) \<Longrightarrow> store_step ops rev_of good scope st st3"
    "note_diagnostic ops scope clk env op note st = (st4, rn) \<Longrightarrow> store_step ops rev_of good scope st st4"
proof -
  have scope: "normalize_binding raw scope = Inr b \<Longrightarrow> scope_id b = scope" for b
    by (auto simp: normalize_binding_def)
  have refl: "store_step ops rev_of good scope st st"
    using assms(2) by (rule store_step_refl)
  show "create ops scope clk env raw st = (st1, rc) \<Longrightarrow> store_step ops rev_of good scope st st1"
    using run_mutator_steps(1) [OF assms(1) create_evolves create_keeps_ok [OF scope] assms(2)] refl
    by (auto simp: create_def split: sum.splits)
  show "transition ops scope clk env op q st = (st2, rt) \<Longrightarrow> store_step ops rev_of good scope st st2"
    using run_mutator_steps(1) [OF assms(1) transition_evolves transition_keeps_ok assms(2)] refl
    by (auto simp: transition_def split: sum.splits)
  show "takeover ops scope clk env op st = (st3, rk) \<Longrightarrow> store_step ops rev_of good scope st st3"
    using run_mutator_steps(1) [OF assms(1) takeover_evolves takeover_keeps_ok assms(2)] refl
    by (auto simp: takeover_def split: sum.splits)
  show "note_diagnostic ops scope clk env op note st = (st4, rn) \<Longrightarrow> store_step ops rev_of good scope st st4"
    using run_mutator_steps(1) [OF assms(1) note_evolves note_keeps_ok assms(2)] refl
    by (auto simp: note_diagnostic_def split: sum.splits)
qed

lemma committed_lookup:
  assumes "committed ops rev_of good scope clk mutator st stc st' v"
  obtains n d d' out where "mutator (clk n) d = Inr (d', out)" "v = outcome_value out"
    "operations (memory d) = operations (stored_memory ops scope stc)"
    "transitions (memory d) = transitions (stored_memory ops scope stc)"
    "stored_memory ops scope st' = memory d'" "store_step ops rev_of good scope st stc"
  using assms stored_shape unfolding committed_def by blast

text \<open>
  The three winning answers take effect at one moment, on the record the store holds then.
\<close>

lemma transition_applied:
  assumes env: "environment_ok ops rev_of good scope env" "good st"
    and run: "transition ops scope clk env op q st = (st', Inr (Applied r' e))"
  shows "\<exists>stc r. store_step ops rev_of good scope st stc \<and>
    map_of (operations (stored_memory ops scope stc)) op = Some r \<and>
    \<not> is_terminal (status r) \<and> generation r = req_generation q \<and>
    parse_status (to_status q) = Some (status r') \<and> status r' \<in> set (allowed_transitions (status r)) \<and>
    map_of (operations (stored_memory ops scope st')) op = Some r' \<and>
    generation r' = generation r \<and> bound r' = bound r \<and>
    transitions (stored_memory ops scope st') = transitions (stored_memory ops scope stc) @ [e] \<and>
    env_operation_id e = operation_id (bound r) \<and> env_status e = status r' \<and>
    env_generation e = req_generation q \<and> env_result e = req_result q"
proof -
  from run obtain to where to: "parse_status (to_status q) = Some to"
    and run: "run_mutator ops scope clk env (transition_mutator scope op to q) st = (st', Inr (Applied r' e))"
    by (auto simp: transition_def split: sum.splits option.splits)
  have "\<not> settled ops scope clk (transition_mutator scope op to q) st' (Applied r' e)"
    by (auto simp: settled_def transition_mutator_def transition_conflict_def split: option.splits if_splits)
  then obtain stc where "committed ops rev_of good scope clk (transition_mutator scope op to q) st stc st' (Applied r' e)"
    using run_mutator_steps(2) [OF env(1) transition_evolves transition_keeps_ok env(2) run refl] by blast
  then obtain n d d' out where c: "transition_mutator scope op to q (clk n) d = Inr (d', out)"
    "Applied r' e = outcome_value out" "operations (memory d) = operations (stored_memory ops scope stc)"
    "transitions (memory d) = transitions (stored_memory ops scope stc)"
    "stored_memory ops scope st' = memory d'" "store_step ops rev_of good scope st stc"
    by (rule committed_lookup)
  from transition_mutator_applied [OF c(1) c(2) [symmetric]] c(3-6) to show ?thesis
    by fastforce
qed

lemma takeover_won:
  assumes env: "environment_ok ops rev_of good scope env" "good st"
    and run: "takeover ops scope clk env op st = (st', Inr t)" "took_over t"
  shows "\<exists>stc r. store_step ops rev_of good scope st stc \<and>
    map_of (operations (stored_memory ops scope stc)) op = Some r \<and> \<not> is_terminal (status r) \<and>
    generation (takeover_record t) = generation r + 1 \<and>
    map_of (operations (stored_memory ops scope st')) op = Some (takeover_record t)"
proof -
  from run(1) have run': "run_mutator ops scope clk env (takeover_mutator op) st = (st', Inr t)"
    by (auto simp: takeover_def split: sum.splits)
  have "\<not> settled ops scope clk (takeover_mutator op) st' t"
    using run(2) by (auto simp: settled_def takeover_mutator_def takeover_conflict_def Let_def split: option.splits if_splits)
  then obtain stc where "committed ops rev_of good scope clk (takeover_mutator op) st stc st' t"
    using run_mutator_steps(2) [OF env(1) takeover_evolves takeover_keeps_ok env(2) run' refl] by blast
  then obtain n d d' out where c: "takeover_mutator op (clk n) d = Inr (d', out)"
    "t = outcome_value out" "operations (memory d) = operations (stored_memory ops scope stc)"
    "transitions (memory d) = transitions (stored_memory ops scope stc)"
    "stored_memory ops scope st' = memory d'" "store_step ops rev_of good scope st stc"
    by (rule committed_lookup)
  have "took_over (outcome_value out)" using run(2) c(2) by simp
  from takeover_mutator_won [OF c(1) this] c(2-6) show ?thesis by fastforce
qed

lemma create_new:
  assumes env: "environment_ok ops rev_of good scope env" "good st"
    and run: "create ops scope clk env raw st = (st', Inr c)" "\<not> attached c"
  shows "\<exists>stc b e. store_step ops rev_of good scope st stc \<and> normalize_binding raw scope = Inr b \<and>
    map_of (operations (stored_memory ops scope stc)) (operation_id b) = None \<and>
    map_of (operations (stored_memory ops scope st')) (operation_id b) = Some (created_record c) \<and>
    bound (created_record c) = b \<and> status (created_record c) = RUNNING \<and> generation (created_record c) = 1 \<and>
    created_transition c = Some e \<and>
    transitions (stored_memory ops scope st') = transitions (stored_memory ops scope stc) @ [e]"
proof -
  from run(1) obtain b where b: "normalize_binding raw scope = Inr b"
    and run': "run_mutator ops scope clk env (create_mutator scope b) st = (st', Inr c)"
    by (auto simp: create_def split: sum.splits)
  then have scope: "scope_id b = scope" by (auto simp: normalize_binding_def)
  have "\<not> settled ops scope clk (create_mutator scope b) st' c"
    using run(2) by (auto simp: settled_def create_mutator_def create_conflict_def Let_def split: option.splits)
  then obtain stc where "committed ops rev_of good scope clk (create_mutator scope b) st stc st' c"
    using run_mutator_steps(2) [OF env(1) create_evolves create_keeps_ok [OF scope] env(2) run' refl] by blast
  then obtain n d d' out where c: "create_mutator scope b (clk n) d = Inr (d', out)"
    "c = outcome_value out" "operations (memory d) = operations (stored_memory ops scope stc)"
    "transitions (memory d) = transitions (stored_memory ops scope stc)"
    "stored_memory ops scope st' = memory d'" "store_step ops rev_of good scope st stc"
    by (rule committed_lookup)
  have "\<not> attached (outcome_value out)" using run(2) c(2) by simp
  from create_mutator_new [OF c(1) this] c(2-6) b show ?thesis by fastforce
qed

end

interpretation detached_mem: detached_scope in_memory_store stored_revision mem_good scope for scope
  by unfold_locales

interpretation detached_validated: detached_scope validated_memory stored_revision mem_good scope for scope
  by unfold_locales

end
