(* ===== verification/Effect_Journal.thy ===== *)
theory Effect_Journal
  imports Detached_Store
begin

section \<open>External effects: the journal and the effect capability\<close>

text \<open>
  Models \<open>packages/core-harness/src/effect-reconciliation.js\<close>: the effect journal, the
  \<open>execute\<close> that \<open>defineEffectCapability\<close> wraps around an external action, and
  \<open>reconcileEffectOperation\<close>.  A journal operation reads a record in one turn of the event
  loop and writes it in a later one; it is given first as one atomic step, then as two.  The
  last part runs any number of executions, reconciliations and crashes interleaved.
\<close>

subsection \<open>What a thrown value looks like when it is recorded\<close>

text \<open>\<open>String(value)\<close>.\<close>

fun js_string :: "json \<Rightarrow> string" where
  "js_string JNull = ''null''"
| "js_string (JBool b) = (if b then ''true'' else ''false'')"
| "js_string (JNum n) = int_text n"
| "js_string (JStr s) = s"
| "js_string (JArr vs) = join '','' (map (\<lambda>v. if v = JNull then '''' else js_string v) vs)"
| "js_string (JObj _) = ''[object Object]''"

fun error_name :: "error \<Rightarrow> json" where
  "error_name (Invariant _) = JStr ''Error''"
| "error_name (TypeFault _) = JStr ''TypeError''"
| "error_name (StoreConflict _ _ _) = JStr ''StoreConflictError''"
| "error_name (SchemaUnsupported _ _ _) = JStr ''SchemaUnsupportedError''"
| "error_name (BindingMismatch _ _) = JStr ''DetachedOperationBindingError''"
| "error_name (RecoveryRequired _ _ _) = JStr ''EffectRecoveryRequiredError''"
| "error_name (Contract _ _) = JStr ''Error''"
| "error_name (External v) = coalesce (jfield v ''name'') (JStr ''Error'')"

fun error_code :: "error \<Rightarrow> json" where
  "error_code (StoreConflict _ _ _) = JStr ''STORE_CONFLICT''"
| "error_code (SchemaUnsupported _ _ _) = JStr ''SCHEMA_UNSUPPORTED''"
| "error_code (BindingMismatch _ _) = JStr ''DETACHED_OPERATION_BINDING_MISMATCH''"
| "error_code (RecoveryRequired _ _ _) = JStr ''EFFECT_RECOVERY_REQUIRED''"
| "error_code (Contract code _) = JStr code"
| "error_code (External v) = jfield v ''code''"
| "error_code _ = JNull"

fun error_message :: "error \<Rightarrow> json" where
  "error_message (Invariant m) = JStr m"
| "error_message (TypeFault m) = JStr m"
| "error_message (StoreConflict i _ _) = JStr (''session revision conflict: '' @ i)"
| "error_message (SchemaUnsupported _ v _) = JStr (''unsupported session schema version: '' @ int_text v)"
| "error_message (BindingMismatch op fs) =
     JStr (''detached operation binding mismatch for '' @ op @ '': '' @ join '', '' fs)"
| "error_message (RecoveryRequired op cap st) =
     JStr (''effect recovery required for '' @ cap @ '' operation '' @ op @ '' ('' @ st @ '')'')"
| "error_message (Contract _ m) = JStr m"
| "error_message (External v) = coalesce (jfield v ''message'') (JStr (js_string v))"

definition error_view :: "error \<Rightarrow> json" where
  "error_view e = JObj [(''name'', error_name e), (''code'', error_code e), (''message'', error_message e)]"

subsection \<open>Records\<close>

datatype replay_policy = PURE | IDEMPOTENT | OBSERVABLE | NON_RECONCILABLE

fun policy_text :: "replay_policy \<Rightarrow> string" where
  "policy_text PURE = ''PURE''"
| "policy_text IDEMPOTENT = ''IDEMPOTENT''"
| "policy_text OBSERVABLE = ''OBSERVABLE''"
| "policy_text NON_RECONCILABLE = ''NON_RECONCILABLE''"

datatype effect_status = INTENDED | DISPATCHED | CONFIRMED | EFFECT_UNKNOWN

fun effect_status_text :: "effect_status \<Rightarrow> string" where
  "effect_status_text INTENDED = ''INTENDED''"
| "effect_status_text DISPATCHED = ''DISPATCHED''"
| "effect_status_text CONFIRMED = ''CONFIRMED''"
| "effect_status_text EFFECT_UNKNOWN = ''UNKNOWN''"

datatype recovery_action = CONTINUE | RETRY | ESCALATE

record effect_record =
  effect_id :: string
  effect_capability :: string
  effect_policy :: replay_policy
  desired_effect :: json
  effect_input :: json
  effect_call :: json
  effect_turn :: json
  effect_status :: effect_status
  effect_result :: json
  effect_error :: json
  effect_evidence :: json

type_synonym journal = "(string \<times> effect_record) list"

definition journal_status :: "journal \<Rightarrow> string \<Rightarrow> effect_status option" where
  "journal_status j op = map_option effect_status (map_of j op)"

subsection \<open>The journal\<close>

text \<open>
  Each operation reads the record (\<open>await get\<close>) and then decides what to put; the decision
  is the \<open>_next\<close> function.
\<close>

definition effect_not_found :: "string \<Rightarrow> error" where
  "effect_not_found op = Invariant (''effect operation not found: '' @ op)"

definition journal_get :: "journal \<Rightarrow> string \<Rightarrow> effect_record option res" where
  "journal_get j op = rbind (require_text (JStr op) ''effect operationId'') (\<lambda>_. Inr (map_of j op))"

definition journal_put :: "journal \<Rightarrow> effect_record \<Rightarrow> journal" where
  "journal_put j r = aset (effect_id r) r j"

definition intend_next :: "effect_record \<Rightarrow> effect_record option \<Rightarrow> effect_record res" where
  "intend_next r existing =
     (if existing \<noteq> None then Inl (Invariant (''effect operation already exists: '' @ effect_id r))
      else Inr (r\<lparr>effect_status := INTENDED, effect_result := JNull, effect_error := JNull, effect_evidence := JNull\<rparr>))"

definition dispatched_next :: "string \<Rightarrow> effect_record option \<Rightarrow> effect_record res" where
  "dispatched_next op current =
     (case current of
        None \<Rightarrow> Inl (effect_not_found op)
      | Some r \<Rightarrow>
          if effect_status r = INTENDED then Inr (r\<lparr>effect_status := DISPATCHED\<rparr>)
          else Inl (Invariant (''effect operation cannot dispatch from '' @ effect_status_text (effect_status r))))"

definition confirmed_next :: "string \<Rightarrow> json \<Rightarrow> json \<Rightarrow> effect_record option \<Rightarrow> effect_record res" where
  "confirmed_next op result ev current =
     (case current of
        None \<Rightarrow> Inl (effect_not_found op)
      | Some r \<Rightarrow>
          if effect_status r = DISPATCHED \<or> effect_status r = EFFECT_UNKNOWN
          then Inr (r\<lparr>effect_status := CONFIRMED, effect_result := result, effect_error := JNull, effect_evidence := ev\<rparr>)
          else Inl (Invariant (''effect operation cannot confirm from '' @ effect_status_text (effect_status r))))"

definition unknown_next :: "string \<Rightarrow> json \<Rightarrow> effect_record option \<Rightarrow> effect_record res" where
  "unknown_next op err current =
     (case current of
        None \<Rightarrow> Inl (effect_not_found op)
      | Some r \<Rightarrow>
          if effect_status r = DISPATCHED then Inr (r\<lparr>effect_status := EFFECT_UNKNOWN, effect_error := err\<rparr>)
          else Inl (Invariant (''effect operation cannot become unknown from '' @ effect_status_text (effect_status r))))"

definition retry_next :: "string \<Rightarrow> json \<Rightarrow> effect_record option \<Rightarrow> effect_record res" where
  "retry_next op ev current =
     (case current of
        None \<Rightarrow> Inl (effect_not_found op)
      | Some r \<Rightarrow>
          if effect_status r = EFFECT_UNKNOWN \<or> effect_status r = DISPATCHED
          then Inr (r\<lparr>effect_status := INTENDED, effect_error := JNull, effect_evidence := coalesce ev (effect_evidence r)\<rparr>)
          else Inl (Invariant (''effect operation cannot retry from '' @ effect_status_text (effect_status r))))"

text \<open>The operation as one step: what is read is what the journal holds when it is written.\<close>

definition journal_update ::
  "journal \<Rightarrow> string \<Rightarrow> (effect_record option \<Rightarrow> effect_record res) \<Rightarrow> journal \<times> effect_record res" where
  "journal_update j op decide =
     (case rbind (journal_get j op) decide of Inl e \<Rightarrow> (j, Inl e) | Inr r \<Rightarrow> (journal_put j r, Inr r))"

definition journal_intend :: "journal \<Rightarrow> effect_record \<Rightarrow> journal \<times> effect_record res" where
  "journal_intend j r =
     (case require_text (JStr (effect_capability r)) ''effect capability'' of
        Inl e \<Rightarrow> (j, Inl e)
      | Inr _ \<Rightarrow> journal_update j (effect_id r) (intend_next r))"

definition mark_dispatched :: "journal \<Rightarrow> string \<Rightarrow> journal \<times> effect_record res" where
  "mark_dispatched j op = journal_update j op (dispatched_next op)"

definition mark_confirmed :: "journal \<Rightarrow> string \<Rightarrow> json \<Rightarrow> json \<Rightarrow> journal \<times> effect_record res" where
  "mark_confirmed j op result ev = journal_update j op (confirmed_next op result ev)"

definition mark_unknown :: "journal \<Rightarrow> string \<Rightarrow> json \<Rightarrow> journal \<times> effect_record res" where
  "mark_unknown j op err = journal_update j op (unknown_next op err)"

definition prepare_retry :: "journal \<Rightarrow> string \<Rightarrow> json \<Rightarrow> journal \<times> effect_record res" where
  "prepare_retry j op ev = journal_update j op (retry_next op ev)"

definition journal_list :: "journal \<Rightarrow> effect_record list" where
  "journal_list j = map snd j"

lemmas next_defs = intend_next_def dispatched_next_def confirmed_next_def unknown_next_def retry_next_def

lemma next_Inr:
  "intend_next r0 c = Inr r \<longleftrightarrow> c = None \<and>
     r = r0\<lparr>effect_status := INTENDED, effect_result := JNull, effect_error := JNull, effect_evidence := JNull\<rparr>"
  "dispatched_next op c = Inr r \<longleftrightarrow>
     (\<exists>x. c = Some x \<and> effect_status x = INTENDED \<and> r = x\<lparr>effect_status := DISPATCHED\<rparr>)"
  "confirmed_next op res ev c = Inr r \<longleftrightarrow>
     (\<exists>x. c = Some x \<and> effect_status x \<in> {DISPATCHED, EFFECT_UNKNOWN} \<and>
        r = x\<lparr>effect_status := CONFIRMED, effect_result := res, effect_error := JNull, effect_evidence := ev\<rparr>)"
  "unknown_next op err c = Inr r \<longleftrightarrow>
     (\<exists>x. c = Some x \<and> effect_status x = DISPATCHED \<and> r = x\<lparr>effect_status := EFFECT_UNKNOWN, effect_error := err\<rparr>)"
  "retry_next op ev c = Inr r \<longleftrightarrow>
     (\<exists>x. c = Some x \<and> effect_status x \<in> {DISPATCHED, EFFECT_UNKNOWN} \<and>
        r = x\<lparr>effect_status := INTENDED, effect_error := JNull, effect_evidence := coalesce ev (effect_evidence x)\<rparr>)"
  by (cases c; auto simp: next_defs)+

lemma next_keeps:
  "intend_next r c = Inr r' \<Longrightarrow> effect_id r' = effect_id r \<and> effect_policy r' = effect_policy r \<and> effect_status r' = INTENDED"
  "dispatched_next op (Some r) = Inr r' \<Longrightarrow> effect_id r' = effect_id r \<and> effect_policy r' = effect_policy r \<and> effect_status r' = DISPATCHED"
  "confirmed_next op res ev (Some r) = Inr r' \<Longrightarrow> effect_id r' = effect_id r \<and> effect_policy r' = effect_policy r \<and> effect_status r' = CONFIRMED"
  "unknown_next op err (Some r) = Inr r' \<Longrightarrow> effect_id r' = effect_id r \<and> effect_policy r' = effect_policy r \<and> effect_status r' = EFFECT_UNKNOWN"
  "retry_next op ev (Some r) = Inr r' \<Longrightarrow> effect_id r' = effect_id r \<and> effect_policy r' = effect_policy r \<and> effect_status r' = INTENDED"
  by (auto simp: next_defs split: if_splits)

subsection \<open>Executing an effect\<close>

text \<open>
  One call of the wrapped \<open>execute\<close>: its operation key, the desired effect (a function
  that may throw), and what the intention records.
\<close>

record effect_call =
  call_key :: string
  call_capability :: string
  call_policy :: replay_policy
  call_desired :: "json res"
  call_input :: json
  call_call_id :: json
  call_turn :: json

text \<open>The operation key, checked, and the record the journal has under it.\<close>

definition journal_find :: "effect_call \<Rightarrow> journal \<Rightarrow> effect_record option res" where
  "journal_find c j =
     rbind (require_text (JStr (call_key c)) (''capability '' @ call_capability c @ '' effect operationId''))
       (\<lambda>op. journal_get j op)"

text \<open>Where the call stands: each phase but the last is one \<open>await\<close>.\<close>

datatype exec_phase =
    Looking
  | Preparing "effect_record option"
  | Intending json
  | Dispatching effect_record
  | Calling effect_record
  | Confirming json
  | Failing error
  | Returned "json res"

definition check_policy :: "effect_call \<Rightarrow> effect_record \<Rightarrow> exec_phase" where
  "check_policy c r =
     (if effect_policy r = call_policy c then Dispatching r
      else Returned (Inl (Invariant (''effect replayPolicy changed for operation '' @ call_key c))))"

definition looked_up :: "effect_call \<Rightarrow> effect_record option res \<Rightarrow> exec_phase" where
  "looked_up c found =
     (case found of
        Inl e \<Rightarrow> Returned (Inl e)
      | Inr None \<Rightarrow> Preparing None
      | Inr (Some r) \<Rightarrow>
          if effect_status r = CONFIRMED then Returned (Inr (effect_result r))
          else if effect_status r \<noteq> INTENDED
          then Returned (Inl (RecoveryRequired (call_key c) (call_capability c) (effect_status_text (effect_status r))))
          else Preparing (Some r))"

definition prepared :: "effect_call \<Rightarrow> effect_record option \<Rightarrow> exec_phase" where
  "prepared c found =
     (case call_desired c of
        Inl e \<Rightarrow> Returned (Inl e)
      | Inr desired \<Rightarrow> (case found of None \<Rightarrow> Intending desired | Some r \<Rightarrow> check_policy c r))"

definition intention :: "effect_call \<Rightarrow> json \<Rightarrow> effect_record" where
  "intention c desired =
     \<lparr>effect_id = call_key c, effect_capability = call_capability c, effect_policy = call_policy c,
      desired_effect = desired, effect_input = call_input c, effect_call = call_call_id c, effect_turn = call_turn c,
      effect_status = INTENDED, effect_result = JNull, effect_error = JNull, effect_evidence = JNull\<rparr>"

definition unknown_error :: "error \<Rightarrow> json" where
  "unknown_error e = (if e = External JNull then JNull else error_view e)"

text \<open>The journal update a phase waits for, and where its answer leads.\<close>

fun phase_update :: "effect_call \<Rightarrow> exec_phase \<Rightarrow> (effect_record option \<Rightarrow> effect_record res) option" where
  "phase_update c (Intending desired) =
     Some (\<lambda>found. rbind (require_text (JStr (call_capability c)) ''effect capability'') (\<lambda>_. intend_next (intention c desired) found))"
| "phase_update c (Dispatching r) = Some (dispatched_next (call_key c))"
| "phase_update c (Confirming v) = Some (confirmed_next (call_key c) v JNull)"
| "phase_update c (Failing e) = Some (unknown_next (call_key c) (unknown_error e))"
| "phase_update c _ = None"

fun phase_after :: "effect_call \<Rightarrow> exec_phase \<Rightarrow> effect_record res \<Rightarrow> exec_phase" where
  "phase_after c (Intending _) (Inl e) = Returned (Inl e)"
| "phase_after c (Intending _) (Inr r) = check_policy c r"
| "phase_after c (Dispatching r) (Inl e) = Returned (Inl e)"
| "phase_after c (Dispatching r) (Inr _) = Calling r"
| "phase_after c (Confirming v) (Inl e) = Failing e"
| "phase_after c (Confirming v) (Inr _) = Returned (Inr v)"
| "phase_after c (Failing e) (Inl e') = Returned (Inl e')"
| "phase_after c (Failing e) (Inr _) = Returned (Inl e)"
| "phase_after c p _ = p"

definition call_answered :: "json res \<Rightarrow> exec_phase" where
  "call_answered answer = (case answer of Inl e \<Rightarrow> Failing e | Inr v \<Rightarrow> Confirming v)"

text \<open>One atomic step; \<open>answer\<close> is what the external action answers if it is the one awaited.\<close>

definition exec_step :: "effect_call \<Rightarrow> json res \<Rightarrow> exec_phase \<Rightarrow> journal \<Rightarrow> journal \<times> exec_phase" where
  "exec_step c answer p j =
     (case phase_update c p of
        Some decide \<Rightarrow> (case journal_update j (call_key c) decide of (j', r) \<Rightarrow> (j', phase_after c p r))
      | None \<Rightarrow>
          (j, case p of
             Looking \<Rightarrow> looked_up c (journal_find c j)
           | Preparing found \<Rightarrow> prepared c found
           | Calling _ \<Rightarrow> call_answered answer
           | _ \<Rightarrow> p))"

text \<open>The whole call, when nothing else runs: what it does to the journal, whether it called out, what it returns.\<close>

record exec_result =
  exec_journal :: journal
  called_out :: bool
  exec_value :: "json res"

definition dispatch_and_call :: "effect_call \<Rightarrow> json res \<Rightarrow> effect_record \<Rightarrow> journal \<Rightarrow> exec_result" where
  "dispatch_and_call c answer r j =
     (if effect_policy r \<noteq> call_policy c
      then \<lparr>exec_journal = j, called_out = False,
            exec_value = Inl (Invariant (''effect replayPolicy changed for operation '' @ call_key c))\<rparr>
      else case mark_dispatched j (call_key c) of
        (j1, Inl e) \<Rightarrow> \<lparr>exec_journal = j1, called_out = False, exec_value = Inl e\<rparr>
      | (j1, Inr _) \<Rightarrow>
          (let failed = (\<lambda>j2 e. case mark_unknown j2 (call_key c) (unknown_error e) of
                 (j3, Inl e') \<Rightarrow> \<lparr>exec_journal = j3, called_out = True, exec_value = Inl e'\<rparr>
               | (j3, Inr _) \<Rightarrow> \<lparr>exec_journal = j3, called_out = True, exec_value = Inl e\<rparr>)
           in case answer of
             Inl e \<Rightarrow> failed j1 e
           | Inr v \<Rightarrow>
               (case mark_confirmed j1 (call_key c) v JNull of
                  (j2, Inl e) \<Rightarrow> failed j2 e
                | (j2, Inr _) \<Rightarrow> \<lparr>exec_journal = j2, called_out = True, exec_value = Inr v\<rparr>)))"

definition effect_execute :: "effect_call \<Rightarrow> json res \<Rightarrow> journal \<Rightarrow> exec_result" where
  "effect_execute c answer j =
     (let returns = (\<lambda>v. \<lparr>exec_journal = j, called_out = False, exec_value = v\<rparr>) in
      case journal_find c j of
        Inl e \<Rightarrow> returns (Inl e)
      | Inr found \<Rightarrow>
          if map_option effect_status found = Some CONFIRMED then returns (Inr (effect_result (the found)))
          else if found \<noteq> None \<and> effect_status (the found) \<noteq> INTENDED
          then returns (Inl (RecoveryRequired (call_key c) (call_capability c) (effect_status_text (effect_status (the found)))))
          else case call_desired c of
            Inl e \<Rightarrow> returns (Inl e)
          | Inr desired \<Rightarrow>
              case found of
                Some r \<Rightarrow> dispatch_and_call c answer r j
              | None \<Rightarrow>
                  (case journal_intend j (intention c desired) of
                     (j1, Inl e) \<Rightarrow> \<lparr>exec_journal = j1, called_out = False, exec_value = Inl e\<rparr>
                   | (j1, Inr r) \<Rightarrow> dispatch_and_call c answer r j1))"

subsection \<open>Reconciling an operation\<close>

record observation =
  satisfied :: bool
  observed_result :: json
  observed_evidence :: json

text \<open>
  What \<open>effect.observe\<close> answers: it may throw, and its answer may fail the checks
  (not an object, or \<open>satisfied\<close> not a boolean).
\<close>

datatype observe_answer = Observed observation | NotAnObject | NoVerdict | ObserveThrew error

definition observe_result :: "observe_answer \<Rightarrow> observation res" where
  "observe_result a =
     (case a of
        Observed x \<Rightarrow> Inr x
      | NotAnObject \<Rightarrow> Inl (Invariant ''effect observer must return an object'')
      | NoVerdict \<Rightarrow> Inl (Invariant ''effect observer must return satisfied boolean'')
      | ObserveThrew e \<Rightarrow> Inl e)"

record recovery =
  recovery_action :: recovery_action
  recovery_operation :: effect_record

definition reconcile_effect_operation ::
  "(effect_record \<Rightarrow> observe_answer) \<Rightarrow> journal \<Rightarrow> string \<Rightarrow> journal \<times> recovery res" where
  "reconcile_effect_operation observe j op =
     (let retry = (\<lambda>r ev. if effect_status r = INTENDED
                     then (j, Inr \<lparr>recovery_action = RETRY, recovery_operation = r\<rparr>)
                     else case prepare_retry j op ev of
                       (j', Inl e) \<Rightarrow> (j', Inl e)
                     | (j', Inr r') \<Rightarrow> (j', Inr \<lparr>recovery_action = RETRY, recovery_operation = r'\<rparr>))
      in case journal_get j op of
        Inl e \<Rightarrow> (j, Inl e)
      | Inr None \<Rightarrow> (j, Inl (effect_not_found op))
      | Inr (Some r) \<Rightarrow>
          if effect_status r = CONFIRMED
          then (j, Inr \<lparr>recovery_action = CONTINUE, recovery_operation = r\<rparr>)
          else case effect_policy r of
            PURE \<Rightarrow> retry r JNull
          | IDEMPOTENT \<Rightarrow> retry r JNull
          | OBSERVABLE \<Rightarrow>
              (case observe_result (observe r) of
                 Inl e \<Rightarrow> (j, Inl e)
               | Inr x \<Rightarrow>
                   if satisfied x
                   then (case mark_confirmed j op (coalesce (observed_result x) (effect_result r)) (observed_evidence x) of
                           (j', Inl e) \<Rightarrow> (j', Inl e)
                         | (j', Inr r') \<Rightarrow> (j', Inr \<lparr>recovery_action = CONTINUE, recovery_operation = r'\<rparr>))
                   else retry r (observed_evidence x))
          | NON_RECONCILABLE \<Rightarrow> (j, Inr \<lparr>recovery_action = ESCALATE, recovery_operation = r\<rparr>))"

lemmas journal_defs = journal_update_def journal_intend_def mark_dispatched_def mark_confirmed_def
  mark_unknown_def prepare_retry_def journal_get_def journal_put_def

subsection \<open>Lemmas on one journal operation\<close>

lemma journal_update_cases:
  assumes "journal_update j op decide = (j', res)"
  obtains (refused) e where "res = Inl e" "j' = j"
    | (put) r where "res = Inr r" "decide (map_of j op) = Inr r" "j' = aset (effect_id r) r j" "nonblank op"
proof (cases "nonblank op")
  case False
  then have "res = Inl (Invariant (''effect operationId must be non-empty text''))" "j' = j"
    using assms by (simp_all add: journal_update_def journal_get_def)
  then show thesis by (rule that(1))
next
  case True
  then have get: "journal_get j op = Inr (map_of j op)" by (simp add: journal_get_def)
  show thesis
  proof (cases "decide (map_of j op)")
    case (Inl e)
    then have "res = Inl e" "j' = j" using assms by (simp_all add: journal_update_def get)
    then show thesis by (rule that(1))
  next
    case (Inr r)
    then have "res = Inr r" "j' = aset (effect_id r) r j"
      using assms by (simp_all add: journal_update_def get journal_put_def)
    then show thesis using that(2) Inr True by blast
  qed
qed

definition keyed :: "journal \<Rightarrow> bool" where
  "keyed j \<longleftrightarrow> (\<forall>op r. map_of j op = Some r \<longrightarrow> effect_id r = op)"

lemma keyedD: "keyed j \<Longrightarrow> map_of j op = Some r \<Longrightarrow> effect_id r = op"
  by (simp add: keyed_def)

text \<open>How a phase changes the record of its own key; every other record stays.\<close>

definition status_change :: "effect_status option \<Rightarrow> effect_status option \<Rightarrow> bool" where
  "status_change a b \<longleftrightarrow> (a, b) \<in>
     {(None, Some INTENDED), (Some INTENDED, Some DISPATCHED), (Some DISPATCHED, Some CONFIRMED),
      (Some EFFECT_UNKNOWN, Some CONFIRMED), (Some DISPATCHED, Some EFFECT_UNKNOWN),
      (Some EFFECT_UNKNOWN, Some INTENDED), (Some DISPATCHED, Some INTENDED)}"

lemma phase_update_put:
  assumes "phase_update c p = Some decide" "decide (map_of j (call_key c)) = Inr r" "keyed j"
  shows "effect_id r = call_key c" "(\<exists>d. p = Intending d) \<longleftrightarrow> map_of j (call_key c) = None"
    "map_of j (call_key c) = Some old \<Longrightarrow> effect_policy r = effect_policy old"
    "(\<exists>x. p = Dispatching x) \<Longrightarrow> journal_status j (call_key c) = Some INTENDED \<and> effect_status r = DISPATCHED"
    "status_change (journal_status j (call_key c)) (Some (effect_status r))"
    "effect_status r = INTENDED \<Longrightarrow> map_of j (call_key c) = None"
proof -
  show "effect_id r = call_key c"
    using assms(1,2) keyedD [OF assms(3)] by (cases p) (auto simp: next_Inr intention_def)
  have "(\<exists>d. p = Intending d) \<and> map_of j (call_key c) = None \<and> effect_status r = INTENDED \<or>
      (\<exists>old. map_of j (call_key c) = Some old \<and> effect_policy r = effect_policy old \<and>
        ((\<exists>x. p = Dispatching x) \<and> effect_status old = INTENDED \<and> effect_status r = DISPATCHED \<or>
         (\<exists>v. p = Confirming v) \<and> effect_status old \<in> {DISPATCHED, EFFECT_UNKNOWN} \<and> effect_status r = CONFIRMED \<or>
         (\<exists>e. p = Failing e) \<and> effect_status old = DISPATCHED \<and> effect_status r = EFFECT_UNKNOWN))"
    using assms(1,2) by (cases p) (auto simp: next_Inr)
  then show "(\<exists>d. p = Intending d) \<longleftrightarrow> map_of j (call_key c) = None"
    "map_of j (call_key c) = Some old \<Longrightarrow> effect_policy r = effect_policy old"
    "\<exists>x. p = Dispatching x \<Longrightarrow> journal_status j (call_key c) = Some INTENDED \<and> effect_status r = DISPATCHED"
    "status_change (journal_status j (call_key c)) (Some (effect_status r))"
    "effect_status r = INTENDED \<Longrightarrow> map_of j (call_key c) = None"
    by (auto simp: journal_status_def status_change_def)
qed

text \<open>The call as a whole is the run of its phases.\<close>

fun exec_iter :: "nat \<Rightarrow> effect_call \<Rightarrow> json res \<Rightarrow> exec_phase \<Rightarrow> journal \<Rightarrow> journal \<times> exec_phase" where
  "exec_iter 0 c answer p j = (j, p)"
| "exec_iter (Suc n) c answer p j = (case exec_step c answer p j of (j', p') \<Rightarrow> exec_iter n c answer p' j')"

lemma exec_iter_returned [simp]: "exec_iter n c answer (Returned v) j = (j, Returned v)"
  by (induction n) (simp_all add: exec_step_def)

lemma exec_iter_failing:
  "exec_iter (Suc n) c answer (Failing e) j =
     (case mark_unknown j (call_key c) (unknown_error e) of
        (j', Inl e') \<Rightarrow> (j', Returned (Inl e')) | (j', Inr _) \<Rightarrow> (j', Returned (Inl e)))"
  by (simp add: exec_step_def mark_unknown_def split: prod.splits sum.splits)

lemma exec_iter_confirming:
  "exec_iter (Suc (Suc n)) c answer (Confirming v) j =
     (case mark_confirmed j (call_key c) v JNull of
        (j', Inl e) \<Rightarrow> exec_iter (Suc n) c answer (Failing e) j' | (j', Inr _) \<Rightarrow> (j', Returned (Inr v)))"
  by (simp only: exec_iter.simps(2) [of "Suc n"] exec_step_def phase_update.simps option.case mark_confirmed_def)
    (simp split: prod.splits sum.splits del: exec_iter.simps(2))

lemma exec_iter_dispatching:
  "exec_iter 4 c answer (check_policy c r) j =
     (exec_journal (dispatch_and_call c answer r j), Returned (exec_value (dispatch_and_call c answer r j)))"
proof (cases "effect_policy r = call_policy c")
  case False
  then show ?thesis by (simp add: check_policy_def dispatch_and_call_def)
next
  case True
  have "exec_iter 4 c answer (Dispatching r) j =
      (case mark_dispatched j (call_key c) of (j', Inl e) \<Rightarrow> (j', Returned (Inl e))
       | (j', Inr _) \<Rightarrow> exec_iter 2 c answer (call_answered answer) j')"
    by (simp add: eval_nat_numeral exec_step_def mark_dispatched_def split: prod.splits sum.splits)
  moreover have "exec_iter 2 c answer (call_answered answer) j' =
      (case answer of Inl e \<Rightarrow> exec_iter (Suc 1) c answer (Failing e) j'
       | Inr v \<Rightarrow> exec_iter (Suc (Suc 0)) c answer (Confirming v) j')" for j'
    by (simp add: call_answered_def numeral_2_eq_2 del: exec_iter.simps split: sum.splits)
  ultimately show ?thesis
    using True
    by (simp add: check_policy_def dispatch_and_call_def Let_def exec_iter_failing exec_iter_confirming
        del: exec_iter.simps split: prod.splits sum.splits)
qed

lemma exec_iter_more:
  "exec_iter n c answer p j = (j', Returned v) \<Longrightarrow> exec_iter (n + m) c answer p j = (j', Returned v)"
proof (induction n arbitrary: p j)
  case 0
  then show ?case by simp
next
  case (Suc n)
  then show ?case by (simp split: prod.splits)
qed

lemma exec_iter_execute:
  "exec_iter 7 c answer Looking j = (exec_journal (effect_execute c answer j), Returned (exec_value (effect_execute c answer j)))"
proof -
  have start: "exec_iter 7 c answer Looking j = exec_iter 6 c answer (looked_up c (journal_find c j)) j"
    by (simp add: eval_nat_numeral exec_step_def)
  have prep: "exec_iter 6 c answer (Preparing found) j = exec_iter 5 c answer (prepared c found) j" for found
    by (simp add: eval_nat_numeral exec_step_def)
  have more: "exec_iter 5 c answer (check_policy c r) j' =
      (exec_journal (dispatch_and_call c answer r j'), Returned (exec_value (dispatch_and_call c answer r j')))" for r j'
    using exec_iter_more [OF exec_iter_dispatching [of c answer r j'], of 1] by simp
  have five: "exec_iter 5 c answer (Intending d) j' = exec_iter (Suc 4) c answer (Intending d) j'" for d j'
    by (simp add: eval_nat_numeral del: exec_iter.simps)
  have int: "nonblank (call_key c) \<Longrightarrow> exec_iter 5 c answer (Intending d) j =
      (case journal_intend j (intention c d) of (j', Inl e) \<Rightarrow> (j', Returned (Inl e))
       | (j', Inr r) \<Rightarrow> exec_iter 4 c answer (check_policy c r) j')" for d
    unfolding five exec_iter.simps(2)
    by (cases "require_text (JStr (call_capability c)) ''effect capability''")
      (auto simp: exec_step_def journal_intend_def intention_def journal_update_def journal_get_def
        split: prod.splits sum.splits)
  show ?thesis
  proof (cases "nonblank (call_key c)")
    case False
    then show ?thesis by (simp add: start journal_find_def looked_up_def effect_execute_def del: exec_iter.simps)
  next
    case True
    then have "journal_find c j = Inr (map_of j (call_key c))" by (simp add: journal_find_def journal_get_def)
    then show ?thesis
      by (auto simp: start prep more int [OF True] looked_up_def prepared_def effect_execute_def Let_def exec_iter_dispatching
          del: exec_iter.simps split: sum.splits option.splits prod.splits)
  qed
qed

end
