(* ===== verification/Effect_Interleaving.thy ===== *)
theory Effect_Interleaving
  imports Effect_Journal
begin

section \<open>External effects: interleaved executions, reconciliations and crashes\<close>

text \<open>
  Any number of \<open>execute\<close> and \<open>reconcileEffectOperation\<close> calls on one journal
  (\<open>packages/core-harness/src/effect-reconciliation.js\<close>), their turns in any order, any of
  them lost at any moment.  First with journal operations that are one step each, then with
  the two turns of the in-memory journal: \<open>await get\<close>, and the \<open>put\<close> of what was
  decided on the record that was read.
\<close>

subsection \<open>Reconciling, phase by phase\<close>

datatype recon_phase =
    Recon_Looking
  | Recon_Observing effect_record
  | Recon_Confirming json json
  | Recon_Retrying json
  | Recon_Returned "recovery res"

definition retry_phase :: "effect_record \<Rightarrow> json \<Rightarrow> recon_phase" where
  "retry_phase r ev =
     (if effect_status r = INTENDED
      then Recon_Returned (Inr \<lparr>recovery_action = RETRY, recovery_operation = r\<rparr>) else Recon_Retrying ev)"

definition recon_found :: "string \<Rightarrow> effect_record option res \<Rightarrow> recon_phase" where
  "recon_found op found =
     (case found of
        Inl e \<Rightarrow> Recon_Returned (Inl e)
      | Inr None \<Rightarrow> Recon_Returned (Inl (effect_not_found op))
      | Inr (Some r) \<Rightarrow>
          if effect_status r = CONFIRMED
          then Recon_Returned (Inr \<lparr>recovery_action = CONTINUE, recovery_operation = r\<rparr>)
          else case effect_policy r of
            PURE \<Rightarrow> retry_phase r JNull
          | IDEMPOTENT \<Rightarrow> retry_phase r JNull
          | OBSERVABLE \<Rightarrow> Recon_Observing r
          | NON_RECONCILABLE \<Rightarrow> Recon_Returned (Inr \<lparr>recovery_action = ESCALATE, recovery_operation = r\<rparr>))"

definition recon_observed :: "effect_record \<Rightarrow> observation res \<Rightarrow> recon_phase" where
  "recon_observed r x =
     (case x of
        Inl e \<Rightarrow> Recon_Returned (Inl e)
      | Inr x \<Rightarrow>
          if satisfied x then Recon_Confirming (coalesce (observed_result x) (effect_result r)) (observed_evidence x)
          else retry_phase r (observed_evidence x))"

definition recovered :: "recovery_action \<Rightarrow> effect_record res \<Rightarrow> recon_phase" where
  "recovered a r = Recon_Returned (map_sum id (\<lambda>r. \<lparr>recovery_action = a, recovery_operation = r\<rparr>) r)"

definition recon_step ::
  "string \<Rightarrow> (effect_record \<Rightarrow> observe_answer) \<Rightarrow> recon_phase \<Rightarrow> journal \<Rightarrow> journal \<times> recon_phase" where
  "recon_step op observe p j =
     (case p of
        Recon_Looking \<Rightarrow> (j, recon_found op (journal_get j op))
      | Recon_Observing r \<Rightarrow> (j, recon_observed r (observe_result (observe r)))
      | Recon_Confirming v ev \<Rightarrow> (case mark_confirmed j op v ev of (j', r) \<Rightarrow> (j', recovered CONTINUE r))
      | Recon_Retrying ev \<Rightarrow> (case prepare_retry j op ev of (j', r) \<Rightarrow> (j', recovered RETRY r))
      | Recon_Returned _ \<Rightarrow> (j, p))"

text \<open>The phases, run without interruption, are the function.\<close>

fun recon_iter :: "nat \<Rightarrow> string \<Rightarrow> (effect_record \<Rightarrow> observe_answer) \<Rightarrow> recon_phase \<Rightarrow> journal \<Rightarrow> journal \<times> recon_phase" where
  "recon_iter 0 op observe p j = (j, p)"
| "recon_iter (Suc n) op observe p j = (case recon_step op observe p j of (j', p') \<Rightarrow> recon_iter n op observe p' j')"

lemma recon_iter_reconcile:
  "recon_iter 3 op observe Recon_Looking j =
     (case reconcile_effect_operation observe j op of (j', v) \<Rightarrow> (j', Recon_Returned v))"
proof -
  have fin [simp]: "recon_iter n op observe (Recon_Returned v) j' = (j', Recon_Returned v)" for n v j'
    by (induction n) (simp_all add: recon_step_def)
  have retry: "recon_iter (Suc n) op observe (retry_phase r ev) j =
      (if effect_status r = INTENDED
       then (j, Recon_Returned (Inr \<lparr>recovery_action = RETRY, recovery_operation = r\<rparr>))
       else case prepare_retry j op ev of (j', r) \<Rightarrow> (j', recovered RETRY r))" for n r ev
    by (simp add: retry_phase_def recon_step_def recovered_def split: prod.splits)
  have conf: "recon_iter (Suc n) op observe (Recon_Confirming v ev) j =
      (case mark_confirmed j op v ev of (j', r) \<Rightarrow> (j', recovered CONTINUE r))" for n v ev
    by (simp add: recon_step_def recovered_def split: prod.splits)
  have obs: "recon_iter (Suc n) op observe (Recon_Observing r) j =
      recon_iter n op observe (recon_observed r (observe_result (observe r))) j" for n r
    by (simp add: recon_step_def)
  have start: "recon_iter 3 op observe Recon_Looking j = recon_iter (Suc (Suc 0)) op observe (recon_found op (journal_get j op)) j"
    by (simp add: numeral_3_eq_3 recon_step_def)
  show ?thesis
    by (auto simp: start recon_found_def recon_observed_def reconcile_effect_operation_def Let_def recovered_def
        retry conf obs simp del: recon_iter.simps
        split: sum.splits option.splits prod.splits replay_policy.splits)
qed

subsection \<open>The interleaved system\<close>

datatype agent =
    Executing effect_call exec_phase
  | Reconciling string recon_phase

record effect_world =
  w_journal :: journal
  w_agents :: "agent list"
  w_calls :: "string list"

definition empty_world :: effect_world where
  "empty_world = \<lparr>w_journal = [], w_agents = [], w_calls = []\<rparr>"

text \<open>The external action of a call starts when its dispatch has been recorded.\<close>

fun calls_out :: "effect_call \<Rightarrow> exec_phase \<Rightarrow> exec_phase \<Rightarrow> string list" where
  "calls_out c (Dispatching _) (Calling _) = [call_key c]"
| "calls_out c _ _ = []"

inductive world_step :: "effect_world \<Rightarrow> effect_world \<Rightarrow> bool" where
  start: "a = Executing c Looking \<or> a = Reconciling op Recon_Looking \<Longrightarrow>
     world_step w (w\<lparr>w_agents := w_agents w @ [a]\<rparr>)"
| execute: "i < length (w_agents w) \<Longrightarrow> w_agents w ! i = Executing c p \<Longrightarrow>
     exec_step c answer p (w_journal w) = (j', p') \<Longrightarrow>
     world_step w (w\<lparr>w_journal := j', w_agents := (w_agents w)[i := Executing c p'], w_calls := w_calls w @ calls_out c p p'\<rparr>)"
| reconcile: "i < length (w_agents w) \<Longrightarrow> w_agents w ! i = Reconciling op p \<Longrightarrow>
     recon_step op observe p (w_journal w) = (j', p') \<Longrightarrow>
     world_step w (w\<lparr>w_journal := j', w_agents := (w_agents w)[i := Reconciling op p']\<rparr>)"
| crash: "world_step w (w\<lparr>w_agents := take i (w_agents w) @ drop (Suc i) (w_agents w)\<rparr>)"

inductive reachable_world :: "effect_world \<Rightarrow> bool" where
  empty: "reachable_world empty_world"
| step: "reachable_world w \<Longrightarrow> world_step w w' \<Longrightarrow> reachable_world w'"

subsection \<open>What holds in every reachable world\<close>

text \<open>Records keep their key and policy for ever.\<close>

definition journal_grows :: "journal \<Rightarrow> journal \<Rightarrow> bool" where
  "journal_grows j j' \<longleftrightarrow>
     (\<forall>op r. map_of j op = Some r \<longrightarrow>
        (\<exists>r'. map_of j' op = Some r' \<and> effect_policy r' = effect_policy r \<and>
           (effect_status r = CONFIRMED \<longrightarrow> r' = r)))"

fun agent_ok :: "journal \<Rightarrow> agent \<Rightarrow> bool" where
  "agent_ok j (Reconciling op (Recon_Retrying _)) \<longleftrightarrow> (\<exists>r. map_of j op = Some r \<and> effect_policy r \<noteq> NON_RECONCILABLE)"
| "agent_ok j (Reconciling op (Recon_Observing _)) \<longleftrightarrow> (\<exists>r. map_of j op = Some r \<and> effect_policy r \<noteq> NON_RECONCILABLE)"
| "agent_ok j _ \<longleftrightarrow> True"

text \<open>How often an operation may have been called out, given its record.\<close>

fun call_bound :: "effect_record option \<Rightarrow> nat \<Rightarrow> bool" where
  "call_bound None n \<longleftrightarrow> n = 0"
| "call_bound (Some r) n \<longleftrightarrow>
     (effect_policy r = NON_RECONCILABLE \<longrightarrow> n \<le> (if effect_status r = INTENDED then 0 else 1))"

definition world_inv :: "effect_world \<Rightarrow> bool" where
  "world_inv w \<longleftrightarrow>
     keyed (w_journal w) \<and> (\<forall>op. call_bound (map_of (w_journal w) op) (count_list (w_calls w) op)) \<and>
     (\<forall>a \<in> set (w_agents w). agent_ok (w_journal w) a)"

lemma journal_grows_refl [simp]: "journal_grows j j"
  by (simp add: journal_grows_def)

lemma agent_ok_grows: "journal_grows j j' \<Longrightarrow> agent_ok j a \<Longrightarrow> agent_ok j' a"
  by (cases "(j, a)" rule: agent_ok.cases) (fastforce simp: journal_grows_def)+

lemma exec_step_cases:
  assumes "exec_step c answer p j = (j', p')"
  obtains (same) "j' = j" "calls_out c p p' = []"
    | (put) decide r where "phase_update c p = Some decide" "decide (map_of j (call_key c)) = Inr r"
        "j' = aset (effect_id r) r j"
proof (cases "phase_update c p")
  case None
  then show thesis using assms that(1) by (cases p) (auto simp: exec_step_def)
next
  case (Some decide)
  obtain res where up: "journal_update j (call_key c) decide = (j', res)" and p': "p' = phase_after c p res"
    using assms Some by (auto simp: exec_step_def split: prod.splits)
  from up show thesis
  proof (cases rule: journal_update_cases)
    case (refused e)
    then show thesis using Some p' that(1) by (cases p) auto
  next
    case (put r)
    then show thesis using Some that(2) by blast
  qed
qed

lemma recon_step_cases:
  assumes "recon_step op observe p j = (j', p')" "keyed j"
  obtains (same) "j' = j"
    | (confirmed) r r' where "map_of j op = Some r" "effect_status r = DISPATCHED \<or> effect_status r = EFFECT_UNKNOWN"
        "j' = aset op r' j" "effect_id r' = op" "effect_policy r' = effect_policy r" "effect_status r' = CONFIRMED"
        "\<exists>v. p' = Recon_Returned v"
    | (retried) ev r r' where "p = Recon_Retrying ev" "map_of j op = Some r"
        "effect_status r = DISPATCHED \<or> effect_status r = EFFECT_UNKNOWN"
        "j' = aset op r' j" "effect_id r' = op" "effect_policy r' = effect_policy r" "effect_status r' = INTENDED"
        "\<exists>v. p' = Recon_Returned v"
proof (cases p)
  case (Recon_Confirming v ev)
  obtain res where up: "journal_update j op (confirmed_next op v ev) = (j', res)" and p': "p' = recovered CONTINUE res"
    using assms Recon_Confirming by (auto simp: recon_step_def mark_confirmed_def split: prod.splits)
  from up show thesis
  proof (cases rule: journal_update_cases)
    case (put r')
    from put(2) obtain r where r: "map_of j op = Some r" "effect_status r \<in> {DISPATCHED, EFFECT_UNKNOWN}"
      and r': "effect_id r' = effect_id r" "effect_policy r' = effect_policy r" "effect_status r' = CONFIRMED"
      by (auto simp: next_Inr)
    have "effect_id r' = op" using keyedD [OF assms(2) r(1)] r'(1) by simp
    moreover have "\<exists>v. p' = Recon_Returned v" by (simp add: p' recovered_def)
    ultimately show thesis using that(2) r r'(2,3) put(3) by fastforce
  qed (rule that(1))
next
  case (Recon_Retrying ev)
  obtain res where up: "journal_update j op (retry_next op ev) = (j', res)" and p': "p' = recovered RETRY res"
    using assms Recon_Retrying by (auto simp: recon_step_def prepare_retry_def split: prod.splits)
  from up show thesis
  proof (cases rule: journal_update_cases)
    case (put r')
    from put(2) obtain r where r: "map_of j op = Some r" "effect_status r \<in> {DISPATCHED, EFFECT_UNKNOWN}"
      and r': "effect_id r' = effect_id r" "effect_policy r' = effect_policy r" "effect_status r' = INTENDED"
      by (auto simp: next_Inr)
    have "effect_id r' = op" using keyedD [OF assms(2) r(1)] r'(1) by simp
    moreover have "\<exists>v. p' = Recon_Returned v" by (simp add: p' recovered_def)
    ultimately show thesis using that(3) r r'(2,3) put(3) Recon_Retrying by fastforce
  qed (rule that(1))
next
  case Recon_Looking
  with assms(1) have "j' = j" by (simp add: recon_step_def)
  then show thesis by (rule that(1))
next
  case (Recon_Observing r)
  with assms(1) have "j' = j" by (simp add: recon_step_def)
  then show thesis by (rule that(1))
next
  case (Recon_Returned v)
  with assms(1) have "j' = j" by (simp add: recon_step_def)
  then show thesis by (rule that(1))
qed


lemma journal_grows_put:
  assumes "\<And>r. map_of j op = Some r \<Longrightarrow> effect_policy r' = effect_policy r \<and> effect_status r \<noteq> CONFIRMED"
  shows "journal_grows j (aset op r' j)"
  using assms by (auto simp: journal_grows_def)

lemma exec_step_grows:
  assumes "exec_step c answer p j = (j', p')" "keyed j"
  shows "journal_grows j j'" "keyed j'"
proof -
  from assms(1) have "journal_grows j j' \<and> keyed j'"
  proof (cases rule: exec_step_cases)
    case same
    with assms(2) show ?thesis by simp
  next
    case (put decide r)
    note u = phase_update_put [OF put(1,2) assms(2)]
    have "journal_grows j j'"
      unfolding put(3) u(1)
      by (rule journal_grows_put) (use u(3,5) in \<open>auto simp: journal_status_def status_change_def\<close>)
    moreover have "keyed j'" using assms(2) put(3) u(1) by (auto simp: keyed_def)
    ultimately show ?thesis by blast
  qed
  then show "journal_grows j j'" "keyed j'" by auto
qed

lemma recon_step_grows:
  assumes "recon_step op observe p j = (j', p')" "keyed j"
  shows "journal_grows j j'" "keyed j'"
proof -
  from assms have "journal_grows j j' \<and> keyed j'"
  proof (cases rule: recon_step_cases)
    case same
    with assms(2) show ?thesis by simp
  next
    case (confirmed r r')
    with assms(2) show ?thesis by (auto simp: keyed_def intro!: journal_grows_put)
  next
    case (retried ev r r')
    with assms(2) show ?thesis by (auto simp: keyed_def intro!: journal_grows_put)
  qed
  then show "journal_grows j j'" "keyed j'" by auto
qed

lemma world_step_grows:
  "world_step w w' \<Longrightarrow> keyed (w_journal w) \<Longrightarrow> journal_grows (w_journal w) (w_journal w') \<and> keyed (w_journal w')"
  by (induction rule: world_step.induct) (auto dest: exec_step_grows recon_step_grows)

text \<open>The number of calls of a key, after one step of an execution.\<close>

lemma exec_step_bound:
  assumes "exec_step c answer p j = (j', p')" "keyed j" "\<forall>op. call_bound (map_of j op) (count_list calls op)"
  shows "call_bound (map_of j' op) (count_list (calls @ calls_out c p p') op)"
  using assms(1)
proof (cases rule: exec_step_cases)
  case same
  with assms(3) show ?thesis by simp
next
  case (put decide r)
  note u = phase_update_put [OF put(1,2) assms(2)]
  have old: "call_bound (map_of j (call_key c)) (count_list calls (call_key c))" using assms(3) by blast
  have out: "calls_out c p p' = [] \<or> calls_out c p p' = [call_key c] \<and> (\<exists>x. p = Dispatching x)"
    by (cases p; cases p') auto
  show ?thesis
  proof (cases "op = call_key c")
    case False
    with put(3) u(1) assms(3) out show ?thesis by auto
  next
    case True
    have "call_bound (Some r) (count_list (calls @ calls_out c p p') (call_key c))"
    proof (cases "map_of j (call_key c)")
      case None
      with u(2) out old show ?thesis by auto
    next
      case (Some x)
      have "effect_status r \<noteq> INTENDED" using u(6) Some by auto
      moreover have "\<exists>y. p = Dispatching y \<Longrightarrow> effect_status x = INTENDED"
        using u(4) Some by (auto simp: journal_status_def)
      ultimately show ?thesis
        using out old u(3) [OF Some] Some by (auto split: if_splits)
    qed
    with True put(3) u(1) show ?thesis by simp
  qed
qed

lemma recon_step_bound:
  assumes "recon_step op observe p j = (j', p')" "keyed j" "\<forall>k. call_bound (map_of j k) (count_list calls k)"
    "agent_ok j (Reconciling op p)"
  shows "call_bound (map_of j' k) (count_list calls k)"
  using assms(1,2)
proof (cases rule: recon_step_cases)
  case same
  with assms(3) show ?thesis by simp
next
  case (confirmed r r')
  have "call_bound (Some r) (count_list calls op)" using assms(3) confirmed(1) by metis
  with confirmed assms(3) show ?thesis by auto
next
  case (retried ev r r')
  with assms(3,4) show ?thesis by auto
qed

lemma recon_step_agent:
  assumes "recon_step op observe p j = (j', p')" "keyed j" "agent_ok j (Reconciling op p)"
  shows "agent_ok j' (Reconciling op p')"
proof -
  note grows = recon_step_grows(1) [OF assms(1,2)]
  have retry: "agent_ok j (Reconciling op (retry_phase r ev))"
    if "\<exists>r. map_of j op = Some r \<and> effect_policy r \<noteq> NON_RECONCILABLE" for r ev
    using that by (simp add: retry_phase_def)
  have "agent_ok j (Reconciling op p')"
  proof (cases p)
    case Recon_Looking
    then show ?thesis
      using assms(1) retry
      by (auto simp: recon_step_def recon_found_def journal_get_def split: sum.splits option.splits replay_policy.splits)
  next
    case (Recon_Observing r)
    then show ?thesis
      using assms(1,3) retry by (auto simp: recon_step_def recon_observed_def split: sum.splits)
  qed (use assms(1,3) in \<open>auto simp: recon_step_def recovered_def split: prod.splits\<close>)
  with grows show ?thesis by (rule agent_ok_grows)
qed

lemma world_inv_step:
  assumes "world_step w w'" "world_inv w"
  shows "world_inv w'"
proof -
  have grows: "journal_grows (w_journal w) (w_journal w')" "keyed (w_journal w')"
    using world_step_grows [OF assms(1)] assms(2) by (auto simp: world_inv_def)
  have old: "a \<in> set (w_agents w) \<Longrightarrow> agent_ok (w_journal w') a" for a
    using assms(2) agent_ok_grows [OF grows(1)] by (simp add: world_inv_def)
  have inv: "keyed (w_journal w)" "\<forall>op. call_bound (map_of (w_journal w) op) (count_list (w_calls w) op)"
    "\<forall>a \<in> set (w_agents w). agent_ok (w_journal w) a"
    using assms(2) by (auto simp: world_inv_def)
  from assms(1) show ?thesis
  proof cases
    case (start a c op)
    with inv show ?thesis by (auto simp: world_inv_def)
  next
    case (execute i c p answer j' p')
    have "\<forall>a \<in> set ((w_agents w)[i := Executing c p']). agent_ok (w_journal w') a"
      using old set_update_subset_insert by fastforce
    with execute grows(2) exec_step_bound [OF execute(4) inv(1,2)] show ?thesis
      by (simp add: world_inv_def)
  next
    case (reconcile i op p observe j' p')
    have ok: "agent_ok (w_journal w) (Reconciling op p)" using inv(3) reconcile(2,3) nth_mem by metis
    have "agent_ok (w_journal w') (Reconciling op p')"
      using recon_step_agent [OF reconcile(4) inv(1) ok] reconcile(1) by simp
    then have "\<forall>a \<in> set ((w_agents w)[i := Reconciling op p']). agent_ok (w_journal w') a"
      using old set_update_subset_insert by fastforce
    with reconcile grows(2) recon_step_bound [OF reconcile(4) inv(1,2) ok] show ?thesis
      by (simp add: world_inv_def)
  next
    case (crash i)
    with inv show ?thesis by (auto simp: world_inv_def dest: in_set_takeD in_set_dropD)
  qed
qed

lemma reachable_inv: "reachable_world w \<Longrightarrow> world_inv w"
proof (induction rule: reachable_world.induct)
  case empty
  show ?case by (simp add: world_inv_def empty_world_def keyed_def)
next
  case (step w w')
  then show ?case by (blast intro: world_inv_step)
qed

subsection \<open>The two turns of the in-memory journal\<close>

datatype turn = Between exec_phase | Has_Read exec_phase "effect_record option"

definition exec_turn :: "effect_call \<Rightarrow> json res \<Rightarrow> turn \<Rightarrow> journal \<Rightarrow> journal \<times> turn" where
  "exec_turn c answer t j =
     (case t of
        Between p \<Rightarrow>
          (case phase_update c p of
             Some _ \<Rightarrow> (j, Has_Read p (map_of j (call_key c)))
           | None \<Rightarrow> (case exec_step c answer p j of (j', p') \<Rightarrow> (j', Between p')))
      | Has_Read p found \<Rightarrow>
          (case phase_update c p of
             None \<Rightarrow> (j, Between p)
           | Some decide \<Rightarrow>
               (case decide found of
                  Inl e \<Rightarrow> (j, Between (phase_after c p (Inl e)))
                | Inr r \<Rightarrow> (journal_put j r, Between (phase_after c p (Inr r))))))"

text \<open>Alone on the journal, the two turns are the one step.\<close>

lemma exec_turn_alone:
  assumes "phase_update c p = Some decide" "nonblank (call_key c)"
  shows "(case exec_turn c answer (Between p) j of (j', t) \<Rightarrow> exec_turn c answer t j') =
     (case exec_step c answer p j of (j', p') \<Rightarrow> (j', Between p'))"
  using assms by (auto simp: exec_turn_def exec_step_def journal_update_def journal_get_def split: sum.splits)

fun reaches_out :: "turn \<Rightarrow> turn \<Rightarrow> bool" where
  "reaches_out (Has_Read (Dispatching _) _) (Between (Calling _)) \<longleftrightarrow> True"
| "reaches_out _ _ \<longleftrightarrow> False"

text \<open>
  Two calls of one operation taking turns in lockstep, as two promises started together do;
  the number of times the external action starts.
\<close>

fun lockstep :: "nat \<Rightarrow> effect_call \<Rightarrow> json res \<Rightarrow> turn \<Rightarrow> turn \<Rightarrow> journal \<Rightarrow> nat \<Rightarrow> nat" where
  "lockstep 0 c answer t1 t2 j n = n"
| "lockstep (Suc k) c answer t1 t2 j n =
     (case exec_turn c answer t1 j of (j1, t1') \<Rightarrow>
      case exec_turn c answer t2 j1 of (j2, t2') \<Rightarrow>
        lockstep k c answer t1' t2' j2
          (n + (if reaches_out t1 t1' then 1 else 0) + (if reaches_out t2 t2' then 1 else 0)))"

subsection \<open>Concrete inputs for the witnesses\<close>

definition demo_call :: effect_call where
  "demo_call = \<lparr>call_key = ''pay'', call_capability = ''bank'', call_policy = NON_RECONCILABLE,
     call_desired = Inr JNull, call_input = JNum 5, call_call_id = JNull, call_turn = JNull\<rparr>"

definition demo_effect :: "effect_status \<Rightarrow> replay_policy \<Rightarrow> effect_record" where
  "demo_effect s p = (intention demo_call JNull)\<lparr>effect_status := s, effect_policy := p\<rparr>"

subsection \<open>The properties\<close>

text \<open>C2: However executions, reconciliations and crashes interleave, a NON_RECONCILABLE operation is called out
  at most once (journal operations being atomic).\<close>

theorem non_reconcilable_called_at_most_once:
  assumes "reachable_world w" "map_of (w_journal w) op = Some r" "effect_policy r = NON_RECONCILABLE"
  shows "count_list (w_calls w) op \<le> 1"
proof -
  have "call_bound (map_of (w_journal w) op) (count_list (w_calls w) op)"
    using reachable_inv [OF assms(1)] by (simp add: world_inv_def)
  with assms(2,3) show ?thesis by (auto split: if_splits)
qed

text \<open>A world in which the call has been dispatched: reached by five steps.\<close>

definition demo_world :: effect_world where
  "demo_world = \<lparr>w_journal = [(''pay'', demo_effect DISPATCHED NON_RECONCILABLE)],
     w_agents = [Executing demo_call (Calling (demo_effect INTENDED NON_RECONCILABLE))], w_calls = [''pay'']\<rparr>"

lemma demo_text: "nonblank ''pay''" "nonblank ''bank''"
  by code_simp+

definition demo_at :: "exec_phase \<Rightarrow> journal \<Rightarrow> string list \<Rightarrow> effect_world" where
  "demo_at p j calls = \<lparr>w_journal = j, w_agents = [Executing demo_call p], w_calls = calls\<rparr>"

lemma demo_at_step:
  assumes "reachable_world (demo_at p j calls)" "exec_step demo_call (Inr JNull) p j = (j', p')"
    "calls @ calls_out demo_call p p' = calls'"
  shows "reachable_world (demo_at p' j' calls')"
  using reachable_world.step [OF assms(1) world_step.execute [of 0 "demo_at p j calls" demo_call p "Inr JNull" j' p']] assms(2,3)
  by (simp add: demo_at_def)

lemma demo_world_reachable: "reachable_world demo_world"
proof -
  have "reachable_world (demo_at Looking [] [])"
    using reachable_world.step [OF reachable_world.empty world_step.start [of "Executing demo_call Looking"]]
    by (simp add: empty_world_def demo_at_def)
  then have "reachable_world (demo_at (Preparing None) [] [])"
    by (rule demo_at_step) code_simp+
  then have "reachable_world (demo_at (Intending JNull) [] [])"
    by (rule demo_at_step) code_simp+
  then have "reachable_world (demo_at (Dispatching (demo_effect INTENDED NON_RECONCILABLE))
      [(''pay'', demo_effect INTENDED NON_RECONCILABLE)] [])"
    by (rule demo_at_step) code_simp+
  then have "reachable_world (demo_at (Calling (demo_effect INTENDED NON_RECONCILABLE))
      [(''pay'', demo_effect DISPATCHED NON_RECONCILABLE)] [''pay''])"
    by (rule demo_at_step) code_simp+
  then show ?thesis by (simp add: demo_world_def demo_at_def)
qed

theorem non_reconcilable_called_at_most_once_witness:
  "count_list (w_calls demo_world) ''pay'' \<le> 1 \<and> w_calls demo_world = [''pay'']"
  using non_reconcilable_called_at_most_once [OF demo_world_reachable, of "''pay''"]
  by (auto simp: demo_world_def demo_effect_def intention_def demo_call_def)

text \<open>A CONFIRMED record, with its result, is final in every interleaving.\<close>

theorem confirmed_record_is_final:
  assumes "reachable_world w" "world_step w w'" "map_of (w_journal w) op = Some r" "effect_status r = CONFIRMED"
  shows "map_of (w_journal w') op = Some r"
proof -
  have "keyed (w_journal w)" using reachable_inv [OF assms(1)] by (simp add: world_inv_def)
  with world_step_grows [OF assms(2)] assms(3,4) show ?thesis by (fastforce simp: journal_grows_def)
qed

definition demo_done :: effect_world where
  "demo_done = demo_at (Returned (Inr JNull)) [(''pay'', demo_effect CONFIRMED NON_RECONCILABLE)] [''pay'']"

lemma demo_done_reachable: "reachable_world demo_done"
proof -
  have "reachable_world (demo_at (Calling (demo_effect INTENDED NON_RECONCILABLE))
      [(''pay'', demo_effect DISPATCHED NON_RECONCILABLE)] [''pay''])"
    using demo_world_reachable by (simp add: demo_world_def demo_at_def)
  then have "reachable_world (demo_at (Confirming JNull) [(''pay'', demo_effect DISPATCHED NON_RECONCILABLE)] [''pay''])"
    by (rule demo_at_step) code_simp+
  then have "reachable_world (demo_at (Returned (Inr JNull)) [(''pay'', demo_effect CONFIRMED NON_RECONCILABLE)] [''pay''])"
    by (rule demo_at_step) code_simp+
  then show ?thesis by (simp add: demo_done_def)
qed

theorem confirmed_record_is_final_witness:
  "map_of (w_journal (demo_done\<lparr>w_agents := []\<rparr>)) ''pay'' = Some (demo_effect CONFIRMED NON_RECONCILABLE)"
proof (rule confirmed_record_is_final [OF demo_done_reachable])
  show "world_step demo_done (demo_done\<lparr>w_agents := []\<rparr>)"
    using world_step.crash [of demo_done 0] by (simp add: demo_done_def demo_at_def)
qed (simp_all add: demo_done_def demo_at_def demo_effect_def)

text \<open>C34: The in-memory journal loses that guarantee when two calls of one operation run together: both read
  the journal before either writes, and both call out.\<close>

theorem two_turn_journal_calls_out_twice:
  assumes "nonblank (call_key c)" "nonblank (call_capability c)" "call_desired c = Inr d"
  shows "lockstep 6 c answer (Between Looking) (Between Looking) [] 0 = 2"
  using assms
  by (simp add: eval_nat_numeral exec_turn_def exec_step_def looked_up_def journal_find_def journal_get_def
      prepared_def journal_put_def intend_next_def dispatched_next_def check_policy_def intention_def)

theorem two_turn_journal_calls_out_twice_witness:
  "lockstep 6 demo_call (Inr JNull) (Between Looking) (Between Looking) [] 0 = 2"
  by (rule two_turn_journal_calls_out_twice [where d = JNull]) (use demo_text in \<open>simp_all add: demo_call_def\<close>)

text \<open>One call, uninterrupted: a CONFIRMED operation returns its recorded result and one left DISPATCHED or
  UNKNOWN asks for recovery, neither calling out; a fresh or INTENDED one calls out once and its answer decides
  whether the record is CONFIRMED or UNKNOWN.\<close>

theorem effect_execute_outcome:
  assumes "nonblank (call_key c)" "nonblank (call_capability c)" "call_desired c = Inr d"
    "pred_option (\<lambda>r. effect_policy r = call_policy c) (map_of j (call_key c))" "keyed j"
    "x = effect_execute c answer j"
  shows "case map_of j (call_key c) of
      Some r \<Rightarrow>
        (if effect_status r = CONFIRMED then x = \<lparr>exec_journal = j, called_out = False, exec_value = Inr (effect_result r)\<rparr>
         else if effect_status r = INTENDED
         then called_out x \<and> exec_value x = answer \<and>
           journal_status (exec_journal x) (call_key c) = Some (if isl answer then EFFECT_UNKNOWN else CONFIRMED)
         else x = \<lparr>exec_journal = j, called_out = False,
           exec_value = Inl (RecoveryRequired (call_key c) (call_capability c) (effect_status_text (effect_status r)))\<rparr>)
    | None \<Rightarrow>
        called_out x \<and> exec_value x = answer \<and>
        journal_status (exec_journal x) (call_key c) = Some (if isl answer then EFFECT_UNKNOWN else CONFIRMED)"
proof (cases "map_of j (call_key c)")
  case None
  with assms show ?thesis
    by (cases answer) (simp_all add: effect_execute_def journal_find_def dispatch_and_call_def intention_def journal_defs
        next_defs journal_status_def Let_def)
next
  case (Some r)
  have "effect_id r = call_key c" "effect_policy r = call_policy c"
    using keyedD [OF assms(5) Some] assms(4) Some by simp_all
  with assms(1-3,6) Some show ?thesis
    by (cases answer; cases "effect_status r")
      (simp_all add: effect_execute_def journal_find_def dispatch_and_call_def journal_defs next_defs journal_status_def Let_def)
qed

theorem effect_execute_outcome_witness:
  "called_out (effect_execute demo_call (Inr (JNum 1)) []) \<and> exec_value (effect_execute demo_call (Inr (JNum 1)) []) = Inr (JNum 1)"
  using effect_execute_outcome [of demo_call JNull "[]" "effect_execute demo_call (Inr (JNum 1)) []" "Inr (JNum 1)"] demo_text
  by (simp add: keyed_def) (simp add: demo_call_def)

text \<open>The turns of one uninterrupted call, run one by one, compute the function above.\<close>

theorem execution_turns_compute_execute:
  "exec_iter 7 c answer Looking j =
     (exec_journal (effect_execute c answer j), Returned (exec_value (effect_execute c answer j)))"
  by (rule exec_iter_execute)

text \<open>What a reconciliation answers tells where the operation stands: CONTINUE with a CONFIRMED record, RETRY
  with an INTENDED one, ESCALATE with an untouched NON_RECONCILABLE one; the journal holds the record answered.\<close>

theorem reconciliation_answer_is_accurate:
  assumes "keyed j" "reconcile_effect_operation observe j op = (j', Inr x)"
  shows "map_of j' op = Some (recovery_operation x) \<and>
    (case recovery_action x of
       CONTINUE \<Rightarrow> effect_status (recovery_operation x) = CONFIRMED
     | RETRY \<Rightarrow> effect_status (recovery_operation x) = INTENDED \<and> effect_policy (recovery_operation x) \<noteq> NON_RECONCILABLE
     | ESCALATE \<Rightarrow> effect_policy (recovery_operation x) = NON_RECONCILABLE \<and> j' = j)"
proof -
  from assms(2) obtain r where r: "map_of j op = Some r" "nonblank op"
    by (auto simp: reconcile_effect_operation_def journal_get_def split: option.splits if_splits)
  have op: "effect_id r = op" by (rule keyedD [OF assms(1) r(1)])
  show ?thesis
    using assms(2) r op
    by (cases "effect_policy r"; cases "effect_status r"; cases "observe_result (observe r)")
      (auto simp: reconcile_effect_operation_def journal_defs next_defs Let_def split: if_splits)
qed

theorem reconciliation_answer_is_accurate_witness:
  "map_of (fst (reconcile_effect_operation (\<lambda>_. NoVerdict) [(''pay'', demo_effect DISPATCHED IDEMPOTENT)] ''pay'')) ''pay'' =
     Some (demo_effect INTENDED IDEMPOTENT)"
proof -
  have run: "reconcile_effect_operation (\<lambda>_. NoVerdict) [(''pay'', demo_effect DISPATCHED IDEMPOTENT)] ''pay'' =
      ([(''pay'', demo_effect INTENDED IDEMPOTENT)],
       Inr \<lparr>recovery_action = RETRY, recovery_operation = demo_effect INTENDED IDEMPOTENT\<rparr>)"
    by code_simp
  have "keyed [(''pay'', demo_effect DISPATCHED IDEMPOTENT)]"
    by (simp add: keyed_def demo_effect_def intention_def demo_call_def)
  from reconciliation_answer_is_accurate [OF this run] show ?thesis by (simp add: run)
qed

text \<open>An observer that finds the effect of an INTENDED operation satisfied does not settle it: the
  reconciliation throws, because only a DISPATCHED or UNKNOWN record can be confirmed.\<close>

theorem satisfied_observation_of_intended_throws:
  assumes "nonblank op" "map_of j op = Some r" "effect_status r = INTENDED" "effect_policy r = OBSERVABLE"
    "observe r = Observed x" "satisfied x"
  shows "reconcile_effect_operation observe j op = (j, Inl (Invariant ''effect operation cannot confirm from INTENDED''))"
  using assms
  by (simp add: reconcile_effect_operation_def journal_get_def observe_result_def mark_confirmed_def journal_update_def
      confirmed_next_def Let_def)

theorem satisfied_observation_of_intended_throws_witness:
  "snd (reconcile_effect_operation (\<lambda>_. Observed \<lparr>satisfied = True, observed_result = JNum 1, observed_evidence = JNull\<rparr>)
      [(''pay'', demo_effect INTENDED OBSERVABLE)] ''pay'') = Inl (Invariant ''effect operation cannot confirm from INTENDED'')"
  by (subst satisfied_observation_of_intended_throws [where r = "demo_effect INTENDED OBSERVABLE"
        and x = "\<lparr>satisfied = True, observed_result = JNum 1, observed_evidence = JNull\<rparr>"])
    (use demo_text in \<open>simp_all add: demo_effect_def\<close>)

end
