(* ===== verification/Detached_Manager.thy ===== *)
theory Detached_Manager
  imports Effect_Journal
begin

section \<open>Detached operations: the manager\<close>

text \<open>
  Models \<open>createDetachedOperationManager\<close> of
  \<open>packages/core-harness/src/detached-operation.js\<close>.  A flow of the manager (a background
  run, a cancellation, a recovery) is a state transformer on the store, the effect journals and
  the manager's own maps; whatever the other flows and processes do while it waits is an argument.
  The trace records what the flow saw and did.
\<close>

subsection \<open>The manager and the world it works in\<close>

text \<open>
  One entry of \<open>effectBindings\<close>.  Its functions are supplied by the caller: the operation
  key, the observer and \<open>execute\<close>, which may change any journal; the number is the moment
  it is called, so that two calls may answer differently.
\<close>

type_synonym journals = "string \<Rightarrow> journal"

record effect_binding =
  bind_description :: json
  bind_policy :: replay_policy
  bind_journal :: "string option"
  bind_key :: "json \<Rightarrow> json \<Rightarrow> json res"
  bind_observe :: "(effect_record \<Rightarrow> observe_answer) option"
  bind_execute :: "nat \<Rightarrow> json \<Rightarrow> json \<Rightarrow> journals \<Rightarrow> journals \<times> json res"

type_synonym attempts = "(string \<times> (int \<times> bool)) list"

record 's manager =
  m_store :: "('s, manager_memory) session_store"
  m_scope :: string
  m_registry :: "(string \<times> effect_binding) list"
  m_sha :: "string \<Rightarrow> string"
  m_clock :: "nat \<Rightarrow> nat \<Rightarrow> clock"
  m_env :: "nat \<Rightarrow> nat \<Rightarrow> 's \<Rightarrow> 's"
  m_env_journals :: "nat \<Rightarrow> journals \<Rightarrow> journals"
  m_env_attempts :: "nat \<Rightarrow> attempts \<Rightarrow> attempts"

text \<open>
  What a flow sees and does: a journal record it read, an answer of \<open>reconcileEffectOperation\<close>,
  an answer of an observer, a call of \<open>execute\<close>, a transition it applied.
\<close>

datatype event =
    Saw string "effect_record option"
  | Reconciled string recovery
  | Observation string observation
  | Launched string int
  | Moved envelope

record 's manager_world =
  w_store :: 's
  w_journals :: journals
  w_attempts :: attempts
  w_counts :: "(string \<times> nat) list"
  w_tick :: nat
  w_trace :: "event list"

type_synonym ('s, 'a) act = "'s manager_world \<Rightarrow> 's manager_world \<times> 'a res"

definition mret :: "'a \<Rightarrow> ('s, 'a) act" where
  "mret v w = (w, Inr v)"

definition mthrow :: "error \<Rightarrow> ('s, 'a) act" where
  "mthrow e w = (w, Inl e)"

definition mbind :: "('s, 'a) act \<Rightarrow> ('a \<Rightarrow> ('s, 'b) act) \<Rightarrow> ('s, 'b) act" where
  "mbind m f w = (case m w of (w', Inl e) \<Rightarrow> (w', Inl e) | (w', Inr v) \<Rightarrow> f v w')"

definition mcatch :: "('s, 'a) act \<Rightarrow> (error \<Rightarrow> ('s, 'a) act) \<Rightarrow> ('s, 'a) act" where
  "mcatch m h w = (case m w of (w', Inl e) \<Rightarrow> h e w' | (w', Inr v) \<Rightarrow> (w', Inr v))"

definition mlift :: "'a res \<Rightarrow> ('s, 'a) act" where
  "mlift r w = (w, r)"

subsection \<open>What a flow waits for\<close>

text \<open>Every wait lets the others act; then the awaited operation takes place.\<close>

definition wait :: "'s manager \<Rightarrow> 's manager_world \<Rightarrow> 's manager_world" where
  "wait m w = w\<lparr>w_journals := m_env_journals m (w_tick w) (w_journals w),
     w_attempts := m_env_attempts m (w_tick w) (w_attempts w), w_tick := w_tick w + 1\<rparr>"

definition note_event :: "event \<Rightarrow> 's manager_world \<Rightarrow> 's manager_world" where
  "note_event e w = w\<lparr>w_trace := w_trace w @ [e]\<rparr>"

definition store_read :: "'s manager \<Rightarrow> string \<Rightarrow> ('s, op_record option) act" where
  "store_read m op w =
     (let st = m_env m (w_tick w) 0 (w_store w) in
      ((wait m w)\<lparr>w_store := st\<rparr>, read_operation (m_store m) (m_scope m) op st))"

definition store_list :: "'s manager \<Rightarrow> ('s, op_record list) act" where
  "store_list m w =
     (let st = m_env m (w_tick w) 0 (w_store w) in
      ((wait m w)\<lparr>w_store := st\<rparr>, list_operations (m_store m) (m_scope m) st))"

definition store_note :: "'s manager \<Rightarrow> string \<Rightarrow> json \<Rightarrow> ('s, op_record) act" where
  "store_note m op note w =
     (case note_diagnostic (m_store m) (m_scope m) (m_clock m (w_tick w)) (m_env m (w_tick w)) op note (w_store w) of
        (st, r) \<Rightarrow> ((wait m w)\<lparr>w_store := st\<rparr>, r))"

definition store_takeover :: "'s manager \<Rightarrow> string \<Rightarrow> ('s, takeover_result) act" where
  "store_takeover m op w =
     (case takeover (m_store m) (m_scope m) (m_clock m (w_tick w)) (m_env m (w_tick w)) op (w_store w) of
        (st, r) \<Rightarrow> ((wait m w)\<lparr>w_store := st\<rparr>, r))"

definition store_create :: "'s manager \<Rightarrow> json \<Rightarrow> ('s, create_result) act" where
  "store_create m raw w =
     (case create (m_store m) (m_scope m) (m_clock m (w_tick w)) (m_env m (w_tick w)) raw (w_store w) of
        (st, r) \<Rightarrow> ((wait m w)\<lparr>w_store := st\<rparr>, r))"

definition move_request :: "op_status \<Rightarrow> int \<Rightarrow> json \<Rightarrow> json \<Rightarrow> json \<Rightarrow> json \<Rightarrow> transition_request" where
  "move_request to gen result err ev why =
     \<lparr>to_status = status_text to, req_generation = gen, req_result = result, req_error = err,
      req_evidence = ev, req_reason = why\<rparr>"

text \<open>\<open>applyTransition\<close>: an applied transition is published to the subscribers.\<close>

definition apply_transition ::
  "'s manager \<Rightarrow> string \<Rightarrow> int \<Rightarrow> op_status \<Rightarrow> json \<Rightarrow> json \<Rightarrow> json \<Rightarrow> json \<Rightarrow> ('s, transition_result) act" where
  "apply_transition m op gen to result err ev why w =
     (case transition (m_store m) (m_scope m) (m_clock m (w_tick w)) (m_env m (w_tick w)) op
             (move_request to gen result err ev why) (w_store w) of
        (st, r) \<Rightarrow>
          (let w' = (wait m w)\<lparr>w_store := st\<rparr> in
           case r of
             Inr (Applied rec e) \<Rightarrow> (note_event (Moved e) w', Inr (Applied rec e))
           | _ \<Rightarrow> (w', r)))"

text \<open>\<open>outcome?.current ?? outcome?.record ?? record\<close>.\<close>

fun settled_record :: "transition_result \<Rightarrow> op_record" where
  "settled_record (Applied r _) = r"
| "settled_record (Refused _ r) = r"

definition move ::
  "'s manager \<Rightarrow> string \<Rightarrow> int \<Rightarrow> op_status \<Rightarrow> json \<Rightarrow> json \<Rightarrow> json \<Rightarrow> json \<Rightarrow> ('s, op_record option) act" where
  "move m op gen to result err ev why =
     mbind (apply_transition m op gen to result err ev why) (\<lambda>r. mret (Some (settled_record r)))"

definition binding_for :: "'s manager \<Rightarrow> op_record \<Rightarrow> effect_binding option" where
  "binding_for m r = map_of (m_registry m) (capability (bound r))"

definition effect_op :: "op_record \<Rightarrow> string" where
  "effect_op r = effect_operation_id (bound r)"

text \<open>\<open>effectOperationState\<close>: no journal, or one that throws, counts as no record.\<close>

definition effect_operation_state ::
  "'s manager \<Rightarrow> effect_binding option \<Rightarrow> string \<Rightarrow> ('s, effect_record option) act" where
  "effect_operation_state m b eop w =
     (case Option.bind b bind_journal of
        None \<Rightarrow> (w, Inr None)
      | Some j \<Rightarrow>
          (let w' = wait m w;
               found = (case journal_get (w_journals w' j) eop of Inl _ \<Rightarrow> None | Inr x \<Rightarrow> x)
           in (note_event (Saw eop found) w', Inr found)))"

definition journal_status_text :: "effect_record option \<Rightarrow> json" where
  "journal_status_text r = JStr (case r of None \<Rightarrow> ''ABSENT'' | Some x \<Rightarrow> effect_status_text (effect_status x))"

definition is_cancel_fenced :: "op_record \<Rightarrow> bool" where
  "is_cancel_fenced r \<longleftrightarrow> status r = CANCEL_REQUESTED"

definition opt_error_view :: "error option \<Rightarrow> json" where
  "opt_error_view e = (case e of None \<Rightarrow> JNull | Some x \<Rightarrow> unknown_error x)"

definition escalation :: "string \<Rightarrow> json \<Rightarrow> json" where
  "escalation what why = JObj [(''escalation'', JStr what), (''reason'', why)]"

definition stale_note :: "string \<Rightarrow> int \<Rightarrow> op_record \<Rightarrow> (string \<times> json) list \<Rightarrow> json" where
  "stale_note kind gen r extra =
     JObj ([(''kind'', JStr kind), (''generation'', JNum gen), (''currentGeneration'', JNum (generation r))] @ extra)"

text \<open>Every settling routine starts alike: the current record, if this generation may still settle it.\<close>

definition with_current ::
  "'s manager \<Rightarrow> string \<Rightarrow> int \<Rightarrow> (op_record \<Rightarrow> json) \<Rightarrow> (op_record \<Rightarrow> ('s, op_record option) act) \<Rightarrow> ('s, op_record option) act" where
  "with_current m op gen note go =
     mbind (store_read m op) (\<lambda>found.
       case found of
         None \<Rightarrow> mret None
       | Some r \<Rightarrow>
           if generation r \<noteq> gen then mbind (store_note m op (note r)) (\<lambda>_. mret (Some r))
           else if is_terminal (status r) then mret (Some r)
           else go r)"

subsection \<open>Settling a cancellation\<close>

definition attempt_settled :: "int \<Rightarrow> (int \<times> bool) option \<Rightarrow> bool" where
  "attempt_settled gen a = (case a of None \<Rightarrow> True | Some (g, done) \<Rightarrow> g \<noteq> gen \<or> done)"

definition cancel_evidence :: "json \<Rightarrow> json \<Rightarrow> (string \<times> json) list \<Rightarrow> json" where
  "cancel_evidence why dispatch extra = JObj ([(''cancelReason'', why), (''dispatchState'', dispatch)] @ extra)"

definition cancel_escalation :: "string \<Rightarrow> string \<Rightarrow> json \<Rightarrow> json \<Rightarrow> json" where
  "cancel_escalation what policy dispatch why =
     JObj [(''escalation'', JStr what), (''policy'', JStr policy), (''dispatchState'', dispatch), (''cancelReason'', why)]"

text \<open>The observer of an OBSERVABLE operation, asked during a cancellation; \<open>None\<close> when it fails.\<close>

definition ask_observer ::
  "'s manager \<Rightarrow> effect_binding \<Rightarrow> string \<Rightarrow> effect_record \<Rightarrow> ('s, observation option) act" where
  "ask_observer m b eop r w =
     (case bind_observe b of
        None \<Rightarrow> (w, Inr None)
      | Some observe \<Rightarrow>
          (let w' = wait m w in
           case observe r of
             Observed x \<Rightarrow> (note_event (Observation eop x) w', Inr (Some x))
           | _ \<Rightarrow> (w', Inr None)))"

definition observed_cancellation ::
  "'s manager \<Rightarrow> string \<Rightarrow> int \<Rightarrow> json \<Rightarrow> error option \<Rightarrow> effect_record \<Rightarrow> observation option \<Rightarrow>
     ('s, op_record option) act" where
  "observed_cancellation m op gen why err j x =
     (let dispatch = journal_status_text (Some j) in
      case x of
        None \<Rightarrow> move m op gen OUTCOME_UNKNOWN JNull (opt_error_view err)
            (JObj [(''escalation'', JStr ''observer-failure''), (''dispatchState'', dispatch), (''cancelReason'', why)])
            (JStr ''cancel-observer-failure'')
      | Some x \<Rightarrow>
          if satisfied x
          then move m op gen SUCCEEDED (coalesce (observed_result x) (effect_result j)) JNull (observed_evidence x)
                 (JStr ''cancel-observed-satisfied'')
          else move m op gen CANCELLED JNull JNull
                 (cancel_evidence why dispatch [(''observation'', observed_evidence x)]) (JStr ''cancel-observed-absent''))"

definition cancel_after_dispatch ::
  "'s manager \<Rightarrow> string \<Rightarrow> int \<Rightarrow> json \<Rightarrow> error option \<Rightarrow> op_record \<Rightarrow> effect_binding \<Rightarrow> effect_record \<Rightarrow>
     ('s, op_record option) act" where
  "cancel_after_dispatch m op gen why err r b j =
     (let policy = replay_policy (bound r); dispatch = journal_status_text (Some j) in
      if policy = policy_text PURE
      then move m op gen CANCELLED JNull JNull (cancel_evidence why dispatch []) (coalesce why (JStr ''cancel-pure''))
      else if policy = policy_text OBSERVABLE
      then mbind (ask_observer m b (effect_op r) j) (observed_cancellation m op gen why err j)
      else move m op gen OUTCOME_UNKNOWN JNull (opt_error_view err)
             (cancel_escalation ''cancel-after-dispatch'' policy dispatch why) (JStr ''cancel-after-dispatch''))"

text \<open>While the attempt of this generation may still commit, the operation stays as it is.\<close>

definition cancel_dispatched ::
  "'s manager \<Rightarrow> string \<Rightarrow> int \<Rightarrow> json \<Rightarrow> error option \<Rightarrow> op_record \<Rightarrow> effect_binding \<Rightarrow> effect_record \<Rightarrow>
     ('s, op_record option) act" where
  "cancel_dispatched m op gen why err r b j w =
     (if attempt_settled gen (map_of (w_attempts w) op) then cancel_after_dispatch m op gen why err r b j w
      else mret (Some r) w)"

definition cancel_found ::
  "'s manager \<Rightarrow> string \<Rightarrow> int \<Rightarrow> json \<Rightarrow> error option \<Rightarrow> op_record \<Rightarrow> effect_binding \<Rightarrow> effect_record option \<Rightarrow>
     ('s, op_record option) act" where
  "cancel_found m op gen why err r b found =
     (if map_option effect_status found = Some CONFIRMED
      then move m op gen SUCCEEDED (effect_result (the found)) JNull (effect_evidence (the found)) (JStr ''cancel-race-confirmed'')
      else if policy_text (bind_policy b) \<noteq> replay_policy (bound r)
      then move m op gen OUTCOME_UNKNOWN JNull (opt_error_view err) (escalation ''replay-policy-changed'' why)
             (JStr ''replay-policy-changed'')
      else if found \<noteq> None \<and> effect_status (the found) \<in> {DISPATCHED, EFFECT_UNKNOWN}
      then cancel_dispatched m op gen why err r b (the found)
      else move m op gen CANCELLED JNull JNull (cancel_evidence why (journal_status_text found) [])
             (coalesce why (JStr ''cancel-before-dispatch'')))"

definition cancel_current ::
  "'s manager \<Rightarrow> string \<Rightarrow> int \<Rightarrow> json \<Rightarrow> error option \<Rightarrow> op_record \<Rightarrow> ('s, op_record option) act" where
  "cancel_current m op gen why err r =
     (case binding_for m r of
        None \<Rightarrow> move m op gen OUTCOME_UNKNOWN JNull (opt_error_view err) (escalation ''missing-effect-journal'' why)
                  (JStr ''missing-effect-journal'')
      | Some b \<Rightarrow>
          if bind_journal b = None
          then move m op gen OUTCOME_UNKNOWN JNull (opt_error_view err) (escalation ''missing-effect-journal'' why)
                 (JStr ''missing-effect-journal'')
          else mbind (effect_operation_state m (Some b) (effect_op r)) (cancel_found m op gen why err r b))"

definition settle_cancellation ::
  "'s manager \<Rightarrow> string \<Rightarrow> int \<Rightarrow> json \<Rightarrow> error option \<Rightarrow> ('s, op_record option) act" where
  "settle_cancellation m op gen why err =
     with_current m op gen (\<lambda>r. stale_note ''STALE_GENERATION_CANCEL_IGNORED'' gen r [(''reason'', why)])
       (cancel_current m op gen why err)"

subsection \<open>Settling an attempt\<close>

definition commit_found :: "'s manager \<Rightarrow> string \<Rightarrow> int \<Rightarrow> effect_record option \<Rightarrow> ('s, op_record option) act" where
  "commit_found m op gen found =
     (if map_option effect_status found = Some CONFIRMED
      then move m op gen SUCCEEDED (effect_result (the found)) JNull (effect_evidence (the found)) (JStr ''effect-confirmed'')
      else move m op gen OUTCOME_UNKNOWN JNull JNull
             (JObj [(''escalation'', JStr ''success-without-confirm''), (''journalStatus'', journal_status_text found),
                    (''reason'', JStr ''attempt-success'')])
             (JStr ''success-without-confirm''))"

definition commit_success :: "'s manager \<Rightarrow> string \<Rightarrow> int \<Rightarrow> ('s, op_record option) act" where
  "commit_success m op gen =
     with_current m op gen (\<lambda>r. stale_note ''STALE_GENERATION_SUCCESS_IGNORED'' gen r []) (\<lambda>r.
       if is_cancel_fenced r then settle_cancellation m op gen (JStr ''cancel-fenced-success'') None
       else mbind (effect_operation_state m (binding_for m r) (effect_op r)) (commit_found m op gen))"

definition count_key :: "string \<Rightarrow> int \<Rightarrow> string" where
  "count_key op gen = op @ '':g'' @ int_text gen"

definition executions_of :: "'s manager_world \<Rightarrow> string \<Rightarrow> int \<Rightarrow> nat" where
  "executions_of w op gen = (case map_of (w_counts w) (count_key op gen) of None \<Rightarrow> 0 | Some n \<Rightarrow> n)"

definition reconcile_binding ::
  "'s manager \<Rightarrow> effect_binding \<Rightarrow> string \<Rightarrow> string \<Rightarrow> ('s, recovery) act" where
  "reconcile_binding m b jname eop w =
     (let observe = (case bind_observe b of None \<Rightarrow> (\<lambda>_. ObserveThrew (TypeFault ''observe is not a function'')) | Some f \<Rightarrow> f);
          w' = wait m w
      in case reconcile_effect_operation observe (w_journals w' jname) eop of
        (j', Inl e) \<Rightarrow> (w'\<lparr>w_journals := (w_journals w')(jname := j')\<rparr>, Inl e)
      | (j', Inr x) \<Rightarrow> (note_event (Reconciled eop x) (w'\<lparr>w_journals := (w_journals w')(jname := j')\<rparr>), Inr x))"

text \<open>
  \<open>settleFromJournal\<close>; \<open>exec\<close> is \<open>executeBoundAttempt\<close>, which calls back.
\<close>

definition settle_unknown ::
  "'s manager \<Rightarrow> string \<Rightarrow> int \<Rightarrow> json \<Rightarrow> string \<Rightarrow> json \<Rightarrow> ('s, op_record option) act" where
  "settle_unknown m op gen why what view = move m op gen OUTCOME_UNKNOWN JNull view (escalation what why) (JStr what)"

definition settle_reconciled ::
  "(string \<Rightarrow> int \<Rightarrow> op_record \<Rightarrow> effect_binding \<Rightarrow> ('s, op_record option) act) \<Rightarrow>
     's manager \<Rightarrow> string \<Rightarrow> int \<Rightarrow> json \<Rightarrow> error option \<Rightarrow> effect_binding \<Rightarrow> recovery \<Rightarrow> ('s, op_record option) act" where
  "settle_reconciled exec m op gen why err b x =
     (case recovery_action x of
        CONTINUE \<Rightarrow>
          if effect_status (recovery_operation x) = CONFIRMED
          then move m op gen SUCCEEDED (effect_result (recovery_operation x)) JNull
                 (effect_evidence (recovery_operation x)) (coalesce why (JStr ''reconcile-continue''))
          else settle_unknown m op gen why ''reconcile-continue-without-confirm'' (opt_error_view err)
      | RETRY \<Rightarrow>
          mbind (store_read m op) (\<lambda>fenced.
            case fenced of
              None \<Rightarrow> settle_cancellation m op gen (JStr ''retry-cancel-fenced'') err
            | Some f \<Rightarrow>
                if generation f \<noteq> gen \<or> is_cancel_fenced f \<or> is_terminal (status f)
                then settle_cancellation m op gen (JStr ''retry-cancel-fenced'') err
                else exec op gen f b)
      | ESCALATE \<Rightarrow>
          move m op gen OUTCOME_UNKNOWN JNull (opt_error_view err)
            (JObj [(''escalation'', JStr ''ESCALATE''),
                   (''status'', JStr (effect_status_text (effect_status (recovery_operation x)))),
                   (''reason'', why)])
            (JStr ''reconcile-escalated''))"

definition settle_found ::
  "(string \<Rightarrow> int \<Rightarrow> op_record \<Rightarrow> effect_binding \<Rightarrow> ('s, op_record option) act) \<Rightarrow>
     's manager \<Rightarrow> string \<Rightarrow> int \<Rightarrow> json \<Rightarrow> error option \<Rightarrow> op_record \<Rightarrow> effect_binding \<Rightarrow> string \<Rightarrow> effect_record option \<Rightarrow>
     ('s, op_record option) act" where
  "settle_found exec m op gen why err r b jname found =
     (case found of
        None \<Rightarrow> (\<lambda>w. if 2 \<le> executions_of w op gen
          then settle_unknown m op gen why ''no-journal-progress'' (opt_error_view err) w else exec op gen r b w)
      | Some j \<Rightarrow>
          if effect_status j = CONFIRMED
          then move m op gen SUCCEEDED (effect_result j) JNull (effect_evidence j) (coalesce why (JStr ''effect-confirmed''))
          else if effect_status j = INTENDED then exec op gen r b
          else mbind (mcatch (mbind (reconcile_binding m b jname (effect_op r)) (\<lambda>x. mret (Inr x))) (\<lambda>e. mret (Inl e)))
            (\<lambda>answer. case answer of
               Inl e \<Rightarrow> settle_unknown m op gen why ''reconcile-failed'' (error_view e)
             | Inr x \<Rightarrow> settle_reconciled exec m op gen why err b x))"

definition settle_from_journal ::
  "(string \<Rightarrow> int \<Rightarrow> op_record \<Rightarrow> effect_binding \<Rightarrow> ('s, op_record option) act) \<Rightarrow>
     's manager \<Rightarrow> string \<Rightarrow> int \<Rightarrow> json \<Rightarrow> error option \<Rightarrow> ('s, op_record option) act" where
  "settle_from_journal exec m op gen why err =
     with_current m op gen (\<lambda>r. stale_note ''STALE_GENERATION_SETTLE_IGNORED'' gen r [(''reason'', why)]) (\<lambda>r.
       if is_cancel_fenced r then settle_cancellation m op gen (coalesce why (JStr ''cancel-fenced-settle'')) err
       else case binding_for m r of
         None \<Rightarrow> settle_unknown m op gen why ''unknown-capability-binding'' (opt_error_view err)
       | Some b \<Rightarrow>
           case bind_journal b of
             None \<Rightarrow> settle_unknown m op gen why ''missing-effect-journal'' (opt_error_view err)
           | Some jname \<Rightarrow>
               mbind (effect_operation_state m (Some b) (effect_op r)) (settle_found exec m op gen why err r b jname))"

definition error_found ::
  "(string \<Rightarrow> int \<Rightarrow> op_record \<Rightarrow> effect_binding \<Rightarrow> ('s, op_record option) act) \<Rightarrow>
     's manager \<Rightarrow> string \<Rightarrow> int \<Rightarrow> error \<Rightarrow> op_record \<Rightarrow> effect_record option \<Rightarrow> ('s, op_record option) act" where
  "error_found exec m op gen e r found =
     (if Option.bind (binding_for m r) bind_journal \<noteq> None \<and>
         (found = None \<or> map_option effect_status found = Some INTENDED)
      then move m op gen FAILED JNull (error_view e)
             (JObj [(''journalStatus'', journal_status_text found), (''reason'', JStr ''attempt-error'')])
             (JStr ''pre-dispatch-failure'')
      else settle_from_journal exec m op gen (JStr ''attempt-error'') (Some e))"

definition settle_from_error ::
  "(string \<Rightarrow> int \<Rightarrow> op_record \<Rightarrow> effect_binding \<Rightarrow> ('s, op_record option) act) \<Rightarrow>
     's manager \<Rightarrow> string \<Rightarrow> int \<Rightarrow> error \<Rightarrow> ('s, op_record option) act" where
  "settle_from_error exec m op gen e =
     with_current m op gen (\<lambda>r. stale_note ''STALE_GENERATION_ERROR_IGNORED'' gen r [(''error'', error_view e)]) (\<lambda>r.
       if is_cancel_fenced r then settle_cancellation m op gen (JStr ''cancel-fenced-error'') (Some e)
       else mbind (effect_operation_state m (binding_for m r) (effect_op r)) (error_found exec m op gen e r))"

subsection \<open>Executing the bound capability\<close>

definition execution_runtime :: "'s manager \<Rightarrow> string \<Rightarrow> int \<Rightarrow> op_record \<Rightarrow> json" where
  "execution_runtime m op gen r =
     JObj [(''callId'', call_id (bound r)), (''turn'', Detached_Store.turn (bound r)), (''trace'', trace (bound r)),
           (''actionIntentRef'', action_intent_ref (bound r)), (''deliberationRef'', deliberation_ref (bound r)),
           (''input'', input (bound r)),
           (''detached'', JObj [(''operationId'', JStr op), (''generation'', JNum gen), (''scopeId'', JStr (m_scope m))])]"

text \<open>\<open>binding.execute\<close> and the tracking of the raw attempt around it.\<close>

definition launch ::
  "'s manager \<Rightarrow> string \<Rightarrow> int \<Rightarrow> op_record \<Rightarrow> effect_binding \<Rightarrow> ('s, json) act" where
  "launch m op gen r b w =
     (let w1 = note_event (Launched op gen) (w\<lparr>w_attempts := aset op (gen, False) (w_attempts w)\<rparr>);
          w2 = wait m w1
      in case bind_execute b (w_tick w) (input (bound r)) (execution_runtime m op gen r) (w_journals w2) of
        (js, answer) \<Rightarrow>
          (w2\<lparr>w_journals := js,
              w_attempts := (case map_of (w_attempts w2) op of
                 Some (g, _) \<Rightarrow> if g = gen then aset op (gen, True) (w_attempts w2) else w_attempts w2
               | None \<Rightarrow> w_attempts w2)\<rparr>, answer))"

text \<open>
  \<open>executeBoundAttempt\<close>.  Each call counts one execution of the generation and the sixth
  refuses, so a depth of 6 is enough; depth 0 is never reached from there.
\<close>

definition execution_limit :: nat where
  "execution_limit = 5"

fun execute_bound_attempt ::
  "nat \<Rightarrow> 's manager \<Rightarrow> string \<Rightarrow> int \<Rightarrow> op_record \<Rightarrow> effect_binding \<Rightarrow> ('s, op_record option) act" where
  "execute_bound_attempt 0 m op gen r b w = (w, Inl (Contract ''DEPTH'' ''depth exhausted''))"
| "execute_bound_attempt (Suc depth) m op gen r b w =
     (if bind_journal b = None
      then move m op gen OUTCOME_UNKNOWN JNull JNull (escalation ''missing-effect-journal'' (JStr ''execute-refused''))
             (JStr ''missing-effect-journal'') w
      else
        let executions = executions_of w op gen + 1;
            w1 = w\<lparr>w_counts := aset (count_key op gen) executions (w_counts w)\<rparr>
        in if execution_limit < executions
           then move m op gen OUTCOME_UNKNOWN JNull JNull
                  (JObj [(''escalation'', JStr ''retry-budget-exhausted''), (''executions'', JNum (int executions)),
                         (''reason'', JStr ''attempt-error'')])
                  (JStr ''retry-budget-exhausted'') w1
           else mcatch (mbind (launch m op gen r b) (\<lambda>_. commit_success m op gen))
                  (\<lambda>e. case e of
                     RecoveryRequired _ _ _ \<Rightarrow>
                       settle_from_journal (execute_bound_attempt depth m) m op gen (JStr ''recovery-required'') (Some e)
                   | _ \<Rightarrow> settle_from_error (execute_bound_attempt depth m) m op gen e) w1)"

declare execute_bound_attempt.simps [simp del]

definition execution_depth :: nat where
  "execution_depth = 6"

abbreviation exec_bound :: "'s manager \<Rightarrow> string \<Rightarrow> int \<Rightarrow> op_record \<Rightarrow> effect_binding \<Rightarrow> ('s, op_record option) act" where
  "exec_bound \<equiv> execute_bound_attempt execution_depth"

subsection \<open>The background run of an operation\<close>

definition run_fenced ::
  "'s manager \<Rightarrow> string \<Rightarrow> int \<Rightarrow> effect_binding \<Rightarrow> op_record option \<Rightarrow> ('s, op_record option) act" where
  "run_fenced m op gen b fenced =
     (case fenced of
        None \<Rightarrow> mret None
      | Some f \<Rightarrow>
          if generation f \<noteq> gen then mret (Some f)
          else if is_cancel_fenced f \<or> is_terminal (status f)
          then settle_cancellation m op gen (JStr ''fenced-before-dispatch'') None
          else exec_bound m op gen f b)"

definition run_found ::
  "'s manager \<Rightarrow> string \<Rightarrow> int \<Rightarrow> effect_binding \<Rightarrow> effect_record option \<Rightarrow> ('s, op_record option) act" where
  "run_found m op gen b j =
     (if map_option effect_status j = Some CONFIRMED then commit_success m op gen
      else if j \<noteq> None \<and> map_option effect_status j \<noteq> Some INTENDED
      then settle_from_journal (exec_bound m) m op gen (JStr ''initial-journal-state'') None
      else mbind (store_read m op) (run_fenced m op gen b))"

definition run_current :: "'s manager \<Rightarrow> string \<Rightarrow> int \<Rightarrow> op_record option \<Rightarrow> ('s, op_record option) act" where
  "run_current m op gen found =
     (case found of
        None \<Rightarrow> mret None
      | Some r \<Rightarrow>
          if generation r \<noteq> gen \<or> is_terminal (status r) then mret (Some r)
          else case binding_for m r of
            None \<Rightarrow> settle_from_journal (exec_bound m) m op gen (JStr ''initial-unknown-binding'') None
          | Some b \<Rightarrow>
              if policy_text (bind_policy b) \<noteq> replay_policy (bound r)
              then move m op gen OUTCOME_UNKNOWN JNull JNull
                     (escalation ''replay-policy-changed'' (JStr ''initial-binding-check'')) (JStr ''replay-policy-changed'')
              else if is_cancel_fenced r then settle_cancellation m op gen (JStr ''cancelled-before-launch'') None
              else mbind (effect_operation_state m (Some b) (effect_op r)) (run_found m op gen b))"

definition run_detached_inner :: "'s manager \<Rightarrow> string \<Rightarrow> int \<Rightarrow> ('s, op_record option) act" where
  "run_detached_inner m op gen = mbind (store_read m op) (run_current m op gen)"

definition unexpected_note :: "error \<Rightarrow> json" where
  "unexpected_note e = JObj [(''kind'', JStr ''DETACHED_RUN_UNEXPECTED_ERROR''), (''error'', error_view e)]"

text \<open>An unexpected error fails closed; an error while doing so leaves the record as it is.\<close>

definition run_failed :: "'s manager \<Rightarrow> string \<Rightarrow> int \<Rightarrow> error \<Rightarrow> op_record option \<Rightarrow> ('s, op_record option) act" where
  "run_failed m op gen e found =
     (case found of
        None \<Rightarrow> mret None
      | Some r \<Rightarrow>
          if generation r \<noteq> gen then mbind (store_note m op (unexpected_note e)) (\<lambda>_. mret (Some r))
          else if is_terminal (status r) then mret (Some r)
          else if is_cancel_fenced r then settle_cancellation m op gen (JStr ''detached-run-failure'') (Some e)
          else move m op gen OUTCOME_UNKNOWN JNull (error_view e)
                 (escalation ''detached-run-failure'' (JStr ''unexpected-error'')) (JStr ''detached-run-failure''))"

definition run_detached :: "'s manager \<Rightarrow> string \<Rightarrow> int \<Rightarrow> ('s, op_record option) act" where
  "run_detached m op gen =
     mcatch (run_detached_inner m op gen) (\<lambda>e.
       mcatch (mbind (store_read m op) (run_failed m op gen e))
         (\<lambda>_. mcatch (store_read m op) (\<lambda>_. mret None)))"

subsection \<open>Scheduling\<close>

record scheduled =
  scheduled_record :: op_record
  launches :: bool

text \<open>\<open>scheduleOperation\<close>: the record, and whether the background run of its generation starts.\<close>

definition schedule_operation :: "'s manager \<Rightarrow> string \<Rightarrow> json \<Rightarrow> json \<Rightarrow> ('s, scheduled) act" where
  "schedule_operation m name arg runtime =
     (case map_of (m_registry m) name of
        None \<Rightarrow> mthrow (Invariant (''detached operation capability not bound: '' @ name))
      | Some b \<Rightarrow>
          mbind (mlift (rbind (bind_key b arg runtime) (\<lambda>k.
                   require_text k (''capability '' @ name @ '' effect operationId'')))) (\<lambda>eop.
          mbind (mlift (derive_detached_operation_id (m_sha m) (m_scope m) name eop (digest_value (m_sha m) arg)
                   (jfield runtime ''callId'') (jfield runtime ''turn'') (jfield runtime ''actionIntentRef'')
                   (jfield runtime ''deliberationRef''))) (\<lambda>op.
          mbind (store_create m (JObj
                  [(''operationId'', JStr op), (''scopeId'', JStr (m_scope m)), (''capability'', JStr name),
                   (''inputDigest'', JStr (digest_value (m_sha m) arg)), (''input'', arg),
                   (''effectOperationId'', JStr eop), (''replayPolicy'', JStr (policy_text (bind_policy b))),
                   (''callId'', jfield runtime ''callId''), (''turn'', jfield runtime ''turn''),
                   (''trace'', jfield runtime ''trace''), (''actionIntentRef'', jfield runtime ''actionIntentRef''),
                   (''deliberationRef'', jfield runtime ''deliberationRef''), (''protocolVersion'', protocol_version_1)]))
            (\<lambda>c w.
              ((case created_transition c of None \<Rightarrow> w | Some e \<Rightarrow> note_event (Moved e) w),
               Inr \<lparr>scheduled_record = created_record c,
                    launches = (\<not> is_terminal (status (created_record c)) \<and> \<not> attached c)\<rparr>)))))"

subsection \<open>Cancelling\<close>

definition settle_requested :: "'s manager \<Rightarrow> string \<Rightarrow> json \<Rightarrow> op_record option \<Rightarrow> ('s, op_record option) act" where
  "settle_requested m op why found =
     (case found of
        None \<Rightarrow> mthrow (TypeFault ''Cannot read properties of null (reading generation)'')
      | Some f \<Rightarrow> settle_cancellation m op (generation f) (coalesce why (JStr ''cancel-requested'')) None)"

definition request_cancel :: "'s manager \<Rightarrow> string \<Rightarrow> json \<Rightarrow> op_record option \<Rightarrow> ('s, op_record option) act" where
  "request_cancel m op why found =
     (case found of
        None \<Rightarrow> mthrow (not_found op)
      | Some r \<Rightarrow>
          if is_terminal (status r) then mret (Some r)
          else if is_cancel_fenced r then mbind (store_read m op) (settle_requested m op why)
          else mbind (apply_transition m op (generation r) CANCEL_REQUESTED JNull JNull
                        (JObj [(''cancelReason'', why)]) (coalesce why (JStr ''cancel-requested''))) (\<lambda>x.
            case x of
              Applied _ _ \<Rightarrow> mbind (store_read m op) (settle_requested m op why)
            | Refused _ latest \<Rightarrow> mret (Some latest)))"

definition cancel :: "'s manager \<Rightarrow> string \<Rightarrow> json \<Rightarrow> ('s, op_record option) act" where
  "cancel m op why =
     mbind (mlift (require_text (JStr op) ''detached operation operationId'')) (\<lambda>_.
     mbind (store_read m op) (request_cancel m op why))"

subsection \<open>Recovery\<close>

definition recovery_runtime :: "op_record \<Rightarrow> json" where
  "recovery_runtime r =
     JObj [(''callId'', call_id (bound r)), (''turn'', Detached_Store.turn (bound r)), (''trace'', trace (bound r)),
           (''actionIntentRef'', action_intent_ref (bound r)), (''deliberationRef'', deliberation_ref (bound r))]"

definition rederived_id :: "'s manager \<Rightarrow> op_record \<Rightarrow> string option res" where
  "rederived_id m r =
     (if digest_value (m_sha m) (input (bound r)) = input_digest (bound r)
      then rbind (derive_detached_operation_id (m_sha m) (m_scope m) (capability (bound r)) (effect_op r)
                    (input_digest (bound r)) (call_id (bound r)) (Detached_Store.turn (bound r))
                    (action_intent_ref (bound r)) (deliberation_ref (bound r))) (\<lambda>x. Inr (Some x))
      else Inr None)"

text \<open>The checks of the stored binding against the live registry: the first that fails, if any.\<close>

definition binding_check :: "'s manager \<Rightarrow> op_record \<Rightarrow> string option res" where
  "binding_check m r =
     (case binding_for m r of
        None \<Rightarrow> Inr (Some ''unknown-capability-binding'')
      | Some b \<Rightarrow>
          if policy_text (bind_policy b) \<noteq> replay_policy (bound r) then Inr (Some ''replay-policy-changed'')
          else if bind_key b (input (bound r)) (recovery_runtime r) \<noteq> Inr (JStr (effect_op r))
          then Inr (Some ''effect-binding-changed'')
          else rbind (rederived_id m r) (\<lambda>x.
            Inr (if x \<noteq> Some (operation_id (bound r)) then Some ''operation-binding-changed'' else None)))"

definition in_flight :: "(int \<times> bool) option \<Rightarrow> bool" where
  "in_flight a = (case a of None \<Rightarrow> False | Some (_, finished) \<Rightarrow> \<not> finished)"

definition recover_settle :: "'s manager \<Rightarrow> op_record \<Rightarrow> ('s, op_record option) act" where
  "recover_settle m r w =
     (if in_flight (map_of (w_attempts w) (operation_id (bound r))) then mret (Some r) w
      else mcatch (settle_from_journal (exec_bound m) m (operation_id (bound r)) (generation r) (JStr ''recover'') None)
             (\<lambda>_. store_read m (operation_id (bound r))) w)"

definition recover_owned :: "'s manager \<Rightarrow> op_record \<Rightarrow> ('s, op_record option) act" where
  "recover_owned m r =
     mbind (mlift (binding_check m r)) (\<lambda>failed.
       case failed of
         Some what \<Rightarrow> move m (operation_id (bound r)) (generation r) OUTCOME_UNKNOWN JNull JNull
                        (escalation what (JStr ''recover-binding-check'')) (JStr what)
       | None \<Rightarrow>
           if is_cancel_fenced r
           then settle_cancellation m (operation_id (bound r)) (generation r) (JStr ''recover-cancel-fenced'') None
           else recover_settle m r)"

definition recover_taken :: "'s manager \<Rightarrow> string \<Rightarrow> takeover_result option \<Rightarrow> ('s, op_record option) act" where
  "recover_taken m op t =
     (case t of
        None \<Rightarrow> store_read m op
      | Some t \<Rightarrow> if took_over t then recover_owned m (takeover_record t) else mret (Some (takeover_record t)))"

definition recover_one :: "'s manager \<Rightarrow> op_record \<Rightarrow> ('s, op_record option) act" where
  "recover_one m r =
     (if is_terminal (status r) then mret (Some r)
      else mbind (mcatch (mbind (store_takeover m (operation_id (bound r))) (\<lambda>t. mret (Some t))) (\<lambda>_. mret None))
             (recover_taken m (operation_id (bound r))))"

fun recover_all :: "'s manager \<Rightarrow> op_record list \<Rightarrow> op_record option list \<Rightarrow> ('s, op_record option list) act" where
  "recover_all m [] acc = mret acc"
| "recover_all m (r # rs) acc = mbind (recover_one m r) (\<lambda>x. recover_all m rs (acc @ [x]))"

definition recover :: "'s manager \<Rightarrow> ('s, op_record option list) act" where
  "recover m = mbind (store_list m) (\<lambda>rs. recover_all m rs [])"

end
