(* ===== verification/Detached_Manager_Safety.thy ===== *)
theory Detached_Manager_Safety
  imports Detached_Manager
begin

section \<open>Detached operations: what a flow of the manager may do\<close>

text \<open>
  Every act of a flow lets the world advance and keeps the trace justified: a terminal
  transition rests on what the flow saw before it.  The rules follow the structure of the code
  (\<open>mbind\<close>, \<open>mcatch\<close>, \<open>with_current\<close>, \<open>move\<close>), so that each routine is a few
  applications of them.  The store is any one that keeps the contract of \<open>revision_store\<close>.
\<close>

subsection \<open>Justified traces\<close>

definition bound_at :: "'s manager \<Rightarrow> 's manager_world \<Rightarrow> string \<Rightarrow> binding option" where
  "bound_at m w op =
     map_option bound (map_of (operations (stored_memory (m_store m) (m_scope m) (w_store w))) op)"

text \<open>What the flow saw of the effect of a binding.\<close>

definition confirmed_seen :: "binding \<Rightarrow> event list \<Rightarrow> json \<Rightarrow> bool" where
  "confirmed_seen b t v \<longleftrightarrow>
     list_ex (\<lambda>x. case x of
         Saw k (Some r) \<Rightarrow> k = effect_operation_id b \<and> effect_status r = CONFIRMED \<and> effect_result r = v
       | Reconciled k y \<Rightarrow> k = effect_operation_id b \<and> effect_status (recovery_operation y) = CONFIRMED \<and>
           effect_result (recovery_operation y) = v
       | Observation k y \<Rightarrow> k = effect_operation_id b \<and> replay_policy b = policy_text OBSERVABLE \<and> satisfied y
       | _ \<Rightarrow> False) t"

definition undispatched_seen :: "binding \<Rightarrow> event list \<Rightarrow> bool" where
  "undispatched_seen b t \<longleftrightarrow>
     list_ex (\<lambda>x. case x of
         Saw k found \<Rightarrow> k = effect_operation_id b \<and> pred_option (\<lambda>r. effect_status r = INTENDED) found
       | _ \<Rightarrow> False) t"

definition absence_observed :: "binding \<Rightarrow> event list \<Rightarrow> bool" where
  "absence_observed b t \<longleftrightarrow>
     list_ex (\<lambda>x. case x of
         Observation k y \<Rightarrow> k = effect_operation_id b \<and> replay_policy b = policy_text OBSERVABLE \<and> \<not> satisfied y
       | _ \<Rightarrow> False) t"

fun justified_move :: "binding \<Rightarrow> event list \<Rightarrow> op_status \<Rightarrow> json \<Rightarrow> bool" where
  "justified_move b t SUCCEEDED v \<longleftrightarrow> confirmed_seen b t v"
| "justified_move b t FAILED v \<longleftrightarrow> undispatched_seen b t"
| "justified_move b t CANCELLED v \<longleftrightarrow>
     undispatched_seen b t \<or> replay_policy b = policy_text PURE \<or> absence_observed b t"
| "justified_move b t _ v \<longleftrightarrow> True"

text \<open>Each transition of a trace is justified by what precedes it; \<open>bs\<close> gives the bindings.\<close>

fun justified_trace :: "(string \<Rightarrow> binding option) \<Rightarrow> event list \<Rightarrow> event list \<Rightarrow> bool" where
  "justified_trace bs pre [] \<longleftrightarrow> True"
| "justified_trace bs pre (Moved e # t) \<longleftrightarrow>
     pred_option (\<lambda>b. justified_move b pre (env_status e) (env_result e)) (bs (env_operation_id e)) \<and>
     bs (env_operation_id e) \<noteq> None \<and> justified_trace bs (pre @ [Moved e]) t"
| "justified_trace bs pre (x # t) \<longleftrightarrow> justified_trace bs (pre @ [x]) t"

definition launches_bounded :: "'s manager_world \<Rightarrow> bool" where
  "launches_bounded w \<longleftrightarrow>
     (\<forall>op gen. count_list (w_trace w) (Launched op gen) \<le> min execution_limit (executions_of w op gen))"

definition world_ok :: "'s manager \<Rightarrow> 's manager_world \<Rightarrow> bool" where
  "world_ok m w \<longleftrightarrow> justified_trace (bound_at m w) [] (w_trace w) \<and> launches_bounded w"

lemma justified_trace_append:
  "justified_trace bs pre (t @ u) \<longleftrightarrow> justified_trace bs pre t \<and> justified_trace bs (pre @ t) u"
  by (induction bs pre t rule: justified_trace.induct) auto

lemma justified_trace_mono:
  "justified_trace bs pre t \<Longrightarrow> (\<And>op b. bs op = Some b \<Longrightarrow> bs' op = Some b) \<Longrightarrow> justified_trace bs' pre t"
  by (induction bs pre t rule: justified_trace.induct) (auto simp: option.pred_set)

lemma justified_traceD:
  "justified_trace bs [] t \<Longrightarrow> t = pre @ Moved e # post \<Longrightarrow>
     \<exists>b. bs (env_operation_id e) = Some b \<and> justified_move b pre (env_status e) (env_result e)"
  by (auto simp: justified_trace_append)

lemmas seen_defs = confirmed_seen_def undispatched_seen_def absence_observed_def

lemma justified_move_append: "justified_move b t s v \<Longrightarrow> justified_move b (t @ u) s v"
  by (cases s) (auto simp: seen_defs)

subsection \<open>Acts\<close>

definition manager_ok ::
  "('s, manager_memory) session_store \<Rightarrow> ('s \<Rightarrow> string \<Rightarrow> int) \<Rightarrow> ('s \<Rightarrow> bool) \<Rightarrow> string \<Rightarrow> 's manager \<Rightarrow> bool" where
  "manager_ok ops rev_of good scope m \<longleftrightarrow>
     m_store m = ops \<and> m_scope m = scope \<and> (\<forall>k. environment_ok ops rev_of good scope (m_env m k))"

definition world_good :: "('s \<Rightarrow> bool) \<Rightarrow> 's manager \<Rightarrow> 's manager_world \<Rightarrow> bool" where
  "world_good good m w \<longleftrightarrow> good (w_store w) \<and> memory_ok (m_scope m) (stored_memory (m_store m) (m_scope m) (w_store w))"

definition advances ::
  "('s \<Rightarrow> string \<Rightarrow> int) \<Rightarrow> ('s \<Rightarrow> bool) \<Rightarrow> 's manager \<Rightarrow> 's manager_world \<Rightarrow> 's manager_world \<Rightarrow> bool" where
  "advances rev_of good m w w' \<longleftrightarrow>
     store_step (m_store m) rev_of good (m_scope m) (w_store w) (w_store w') \<and>
     (\<exists>t. w_trace w' = w_trace w @ t) \<and> (\<forall>op gen. executions_of w op gen \<le> executions_of w' op gen)"

text \<open>
  An act is safe from the worlds of \<open>P\<close>: it advances the world, keeps it sound, and
  what it returns satisfies \<open>Q\<close>.
\<close>

definition safe_act ::
  "('s \<Rightarrow> string \<Rightarrow> int) \<Rightarrow> ('s \<Rightarrow> bool) \<Rightarrow> 's manager \<Rightarrow> ('s manager_world \<Rightarrow> bool) \<Rightarrow> ('s, 'a) act \<Rightarrow>
     ('a \<Rightarrow> 's manager_world \<Rightarrow> bool) \<Rightarrow> bool" where
  "safe_act rev_of good m P a Q \<longleftrightarrow>
     (\<forall>w w' r. world_good good m w \<longrightarrow> world_ok m w \<longrightarrow> P w \<longrightarrow> a w = (w', r) \<longrightarrow>
        advances rev_of good m w w' \<and> world_ok m w' \<and> (\<forall>v. r = Inr v \<longrightarrow> Q v w'))"

lemma safe_actD:
  "safe_act rev_of good m P a Q \<Longrightarrow> world_good good m w \<Longrightarrow> world_ok m w \<Longrightarrow> P w \<Longrightarrow> a w = (w', r) \<Longrightarrow>
     advances rev_of good m w w' \<and> world_ok m w' \<and> (\<forall>v. r = Inr v \<longrightarrow> Q v w')"
  unfolding safe_act_def by blast

lemma advances_good: "advances rev_of good m w w' \<Longrightarrow> world_good good m w \<Longrightarrow> world_good good m w'"
  by (auto simp: advances_def world_good_def dest: store_stepD)

lemma advances_trans: "advances rev_of good m a b \<Longrightarrow> advances rev_of good m b c \<Longrightarrow> advances rev_of good m a c"
  unfolding advances_def using store_step_trans by (fastforce intro: order_trans)

lemma advances_refl: "world_good good m w \<Longrightarrow> advances rev_of good m w w"
  by (simp add: advances_def world_good_def store_step_refl)

lemma advances_bound:
  "advances rev_of good m w w' \<Longrightarrow> bound_at m w op = Some b \<Longrightarrow> bound_at m w' op = Some b"
  by (fastforce simp: advances_def bound_at_def store_step_def evolves_def record_evolves_def)

subsubsection \<open>Rules for the control structure\<close>

text \<open>What stays true while the world advances.\<close>

definition stable :: "('s \<Rightarrow> string \<Rightarrow> int) \<Rightarrow> ('s \<Rightarrow> bool) \<Rightarrow> 's manager \<Rightarrow> ('s manager_world \<Rightarrow> bool) \<Rightarrow> bool" where
  "stable rev_of good m P \<longleftrightarrow> (\<forall>w w'. advances rev_of good m w w' \<longrightarrow> P w \<longrightarrow> P w')"

lemma stable_True [simp]: "stable rev_of good m (\<lambda>_. True)"
  by (simp add: stable_def)

lemma stable_conj: "stable rev_of good m P \<Longrightarrow> stable rev_of good m Q \<Longrightarrow> stable rev_of good m (\<lambda>w. P w \<and> Q w)"
  by (auto simp: stable_def)

lemma stable_bound: "stable rev_of good m (\<lambda>w. bound_at m w op = Some b)"
  by (auto simp: stable_def dest: advances_bound)

lemma stable_justified: "stable rev_of good m (\<lambda>w. justified_move b (w_trace w) s v)"
  by (auto simp: stable_def advances_def intro: justified_move_append)

lemma safe_ret: "(\<And>w. P w \<Longrightarrow> Q v w) \<Longrightarrow> safe_act rev_of good m P (mret v) Q"
  by (auto simp: safe_act_def mret_def advances_refl)

lemma safe_throw: "safe_act rev_of good m P (mthrow e) Q"
  by (auto simp: safe_act_def mthrow_def advances_refl)

lemma safe_lift: "(\<And>v w. r = Inr v \<Longrightarrow> P w \<Longrightarrow> Q v w) \<Longrightarrow> safe_act rev_of good m P (mlift r) Q"
  by (auto simp: safe_act_def mlift_def advances_refl)

lemma safe_weaken:
  "safe_act rev_of good m P' a Q' \<Longrightarrow> (\<And>w. P w \<Longrightarrow> P' w) \<Longrightarrow> (\<And>v w. Q' v w \<Longrightarrow> Q v w) \<Longrightarrow>
     safe_act rev_of good m P a Q"
  unfolding safe_act_def by blast

text \<open>A stable fact survives the act.\<close>

lemma safe_keep:
  assumes "safe_act rev_of good m P a Q" "stable rev_of good m R"
  shows "safe_act rev_of good m (\<lambda>w. P w \<and> R w) a (\<lambda>v w. Q v w \<and> R w)"
  unfolding safe_act_def
proof (intro allI impI)
  fix w w' r
  assume a: "world_good good m w" "world_ok m w" "P w \<and> R w" "a w = (w', r)"
  from safe_actD [OF assms(1) a(1,2) _ a(4)] a(3) assms(2)
  show "advances rev_of good m w w' \<and> world_ok m w' \<and> (\<forall>v. r = Inr v \<longrightarrow> Q v w' \<and> R w')"
    by (auto simp: stable_def)
qed

lemma safe_bind:
  assumes "safe_act rev_of good m P a Q" "\<And>v. safe_act rev_of good m (Q v) (f v) R"
  shows "safe_act rev_of good m P (mbind a f) R"
  unfolding safe_act_def
proof (intro allI impI)
  fix w w' r
  assume w: "world_good good m w" "world_ok m w" "P w" "mbind a f w = (w', r)"
  obtain w1 r1 where a: "a w = (w1, r1)" by (cases "a w")
  note one = safe_actD [OF assms(1) w(1-3) a]
  show "advances rev_of good m w w' \<and> world_ok m w' \<and> (\<forall>v. r = Inr v \<longrightarrow> R v w')"
  proof (cases r1)
    case (Inl e)
    with w(4) a one show ?thesis by (auto simp: mbind_def)
  next
    case (Inr v)
    then have run: "f v w1 = (w', r)" using w(4) a by (simp add: mbind_def)
    have "Q v w1" using one Inr by simp
    from safe_actD [OF assms(2) advances_good [OF _ w(1)] _ this run] one
    show ?thesis by (blast intro: advances_trans)
  qed
qed

lemma safe_catch_gen:
  assumes "safe_act rev_of good m P a Q" "\<And>e. safe_act rev_of good m R (h e) Q"
    "\<And>w w'. P w \<Longrightarrow> advances rev_of good m w w' \<Longrightarrow> R w'"
  shows "safe_act rev_of good m P (mcatch a h) Q"
  unfolding safe_act_def
proof (intro allI impI)
  fix w w' r
  assume w: "world_good good m w" "world_ok m w" "P w" "mcatch a h w = (w', r)"
  obtain w1 r1 where a: "a w = (w1, r1)" by (cases "a w")
  note one = safe_actD [OF assms(1) w(1-3) a]
  show "advances rev_of good m w w' \<and> world_ok m w' \<and> (\<forall>v. r = Inr v \<longrightarrow> Q v w')"
  proof (cases r1)
    case (Inr v)
    with w(4) a one show ?thesis by (auto simp: mcatch_def)
  next
    case (Inl e)
    then have run: "h e w1 = (w', r)" using w(4) a by (simp add: mcatch_def)
    have "R w1" using one w(3) assms(3) by blast
    from safe_actD [OF assms(2) advances_good [OF _ w(1)] _ this run] one
    show ?thesis by (blast intro: advances_trans)
  qed
qed

lemma safe_catch:
  "safe_act rev_of good m P a Q \<Longrightarrow> (\<And>e. safe_act rev_of good m P (h e) Q) \<Longrightarrow> stable rev_of good m P \<Longrightarrow>
     safe_act rev_of good m P (mcatch a h) Q"
  by (rule safe_catch_gen [where R = P]) (auto simp: stable_def)

subsubsection \<open>The acts that reach the store and the journals\<close>

text \<open>A step of the store with at most one harmless event added to the trace.\<close>

fun harmless :: "event \<Rightarrow> bool" where
  "harmless (Launched _ _) = False"
| "harmless (Moved _) = False"
| "harmless _ = True"

lemma quiet_step:
  assumes "world_ok m w" "store_step (m_store m) rev_of good (m_scope m) (w_store w) (w_store w')"
    "w_trace w' = w_trace w @ t" "list_all harmless t" "w_counts w' = w_counts w"
  shows "advances rev_of good m w w'" "world_ok m w'"
proof -
  show adv: "advances rev_of good m w w'" using assms by (auto simp: advances_def executions_of_def)
  have "justified_trace bs pre t" for bs pre
    using assms(4) by (induction bs pre t rule: justified_trace.induct) auto
  moreover have "count_list t (Launched op gen) = 0" for op gen
    using assms(4) by (induction t) auto
  ultimately show "world_ok m w'"
    using assms justified_trace_mono [of "bound_at m w" "[]" "w_trace w" "bound_at m w'"] advances_bound [OF adv]
    by (auto simp: world_ok_def launches_bounded_def justified_trace_append executions_of_def)
qed

lemma safe_peek: "(\<And>x. safe_act rev_of good m P (f x) Q) \<Longrightarrow> safe_act rev_of good m P (\<lambda>w. f w w) Q"
  unfolding safe_act_def by blast

lemma safe_if: "safe_act rev_of good m P a Q \<Longrightarrow> safe_act rev_of good m P b Q \<Longrightarrow>
    safe_act rev_of good m P (if c then a else b) Q"
  by simp

lemma stable_seen: "stable rev_of good m (\<lambda>w. x \<in> set (w_trace w))"
  by (auto simp: stable_def advances_def)

context detached_scope
begin

lemma env_store_step: "manager_ok ops rev_of good scope m \<Longrightarrow> good st \<Longrightarrow>
    store_step (m_store m) rev_of good (m_scope m) st (m_env m k n st)"
  by (auto simp: manager_ok_def environment_ok_def)

lemma safe_read:
  assumes "manager_ok ops rev_of good scope m"
  shows "safe_act rev_of good m (\<lambda>_. True) (store_read m op)
    (\<lambda>found w. \<forall>r. found = Some r \<longrightarrow> bound_at m w op = Some (bound r))"
  unfolding safe_act_def
proof (intro allI impI conjI)
  fix w w' r
  assume w: "world_good good m w" "world_ok m w" "store_read m op w = (w', r)"
  have step: "store_step (m_store m) rev_of good (m_scope m) (w_store w) (w_store w')"
    "w_trace w' = w_trace w @ []" "w_counts w' = w_counts w"
    using w env_store_step [OF assms, of "w_store w" "w_tick w" 0]
    by (auto simp: store_read_def Let_def wait_def world_good_def)
  show "advances rev_of good m w w'" "world_ok m w'"
    using quiet_step [OF w(2) step(1,2) _ step(3)] by simp_all
  fix v x
  assume "r = Inr v" "v = Some x"
  then have "read_operation (m_store m) (m_scope m) op (w_store w') = Inr (Some x)"
    using w(3) by (auto simp: store_read_def Let_def)
  then show "bound_at m w' op = Some (bound x)"
    by (auto simp: read_operation_def load_document_def bound_at_def stored_memory_def bind_eq_Some_conv)
qed

lemma safe_list:
  assumes "manager_ok ops rev_of good scope m"
  shows "safe_act rev_of good m (\<lambda>_. True) (store_list m) (\<lambda>_ _. True)"
  unfolding safe_act_def
proof (intro allI impI conjI TrueI)
  fix w w' r
  assume w: "world_good good m w" "world_ok m w" "store_list m w = (w', r)"
  have step: "store_step (m_store m) rev_of good (m_scope m) (w_store w) (w_store w')"
    "w_trace w' = w_trace w @ []" "w_counts w' = w_counts w"
    using w env_store_step [OF assms, of "w_store w" "w_tick w" 0]
    by (auto simp: store_list_def Let_def wait_def world_good_def)
  show "advances rev_of good m w w'" "world_ok m w'"
    using quiet_step [OF w(2) step(1,2) _ step(3)] by simp_all
qed

lemma safe_note:
  assumes "manager_ok ops rev_of good scope m"
  shows "safe_act rev_of good m (\<lambda>_. True) (store_note m op nt) (\<lambda>_ _. True)"
  unfolding safe_act_def
proof (intro allI impI conjI TrueI)
  fix w w' r
  assume w: "world_good good m w" "world_ok m w" "store_note m op nt w = (w', r)"
  have "good (w_store w)" using w(1) by (simp add: world_good_def)
  from operation_steps(4) [OF _ this, of "m_env m (w_tick w)" "m_clock m (w_tick w)" op nt] assms w(3)
  have step: "store_step (m_store m) rev_of good (m_scope m) (w_store w) (w_store w')"
    "w_trace w' = w_trace w @ []" "w_counts w' = w_counts w"
    by (auto simp: store_note_def manager_ok_def wait_def split: prod.splits)
  show "advances rev_of good m w w'" "world_ok m w'"
    using quiet_step [OF w(2) step(1,2) _ step(3)] by simp_all
qed

text \<open>The record a takeover answers with is stored under the operation, which it names.\<close>

lemma safe_takeover:
  assumes "manager_ok ops rev_of good scope m"
  shows "safe_act rev_of good m (\<lambda>_. True) (store_takeover m op)
    (\<lambda>t w. took_over t \<longrightarrow> bound_at m w op = Some (bound (takeover_record t)) \<and>
       operation_id (bound (takeover_record t)) = op)"
  unfolding safe_act_def
proof (intro allI impI)
  fix w w' r
  assume w: "world_good good m w" "world_ok m w" "store_takeover m op w = (w', r)"
  have good: "good (w_store w)" using w(1) by (simp add: world_good_def)
  have m: "m_store m = ops" "m_scope m = scope" "environment_ok ops rev_of good scope (m_env m (w_tick w))"
    using assms by (auto simp: manager_ok_def)
  obtain st where run: "takeover ops scope (m_clock m (w_tick w)) (m_env m (w_tick w)) op (w_store w) = (st, r)"
    and w': "w' = (wait m w)\<lparr>w_store := st\<rparr>"
    using w(3) m by (auto simp: store_takeover_def split: prod.splits)
  have step: "store_step (m_store m) rev_of good (m_scope m) (w_store w) (w_store w')"
    "w_trace w' = w_trace w @ []" "w_counts w' = w_counts w"
    using operation_steps(3) [OF m(3) good run] m(1,2) by (simp_all add: w' wait_def)
  have "advances rev_of good m w w'" "world_ok m w'"
    using quiet_step [OF w(2) step(1,2) _ step(3)] by simp_all
  moreover have "bound_at m w' op = Some (bound (takeover_record t)) \<and> operation_id (bound (takeover_record t)) = op"
    if "r = Inr t" "took_over t" for t
  proof -
    have rec: "map_of (operations (stored_memory ops scope st)) op = Some (takeover_record t)"
      using takeover_won [OF m(3) good run [unfolded that(1)] that(2)] by blast
    have "memory_ok scope (stored_memory ops scope st)"
      using operation_steps(3) [OF m(3) good run] w(1) m by (auto simp: world_good_def dest: store_stepD)
    from memory_okD(4) [OF this rec] rec m show ?thesis by (simp add: bound_at_def w' wait_def)
  qed
  ultimately show "advances rev_of good m w w' \<and> world_ok m w' \<and>
      (\<forall>t. r = Inr t \<longrightarrow> took_over t \<longrightarrow> bound_at m w' op = Some (bound (takeover_record t)) \<and>
        operation_id (bound (takeover_record t)) = op)"
    by blast
qed

text \<open>A transition is safe when what the flow saw justifies it.\<close>

lemma safe_apply:
  assumes "manager_ok ops rev_of good scope m"
  shows "safe_act rev_of good m (\<lambda>w. \<exists>b. bound_at m w op = Some b \<and> justified_move b (w_trace w) to result)
    (apply_transition m op gen to result err ev why) (\<lambda>_ _. True)"
  unfolding safe_act_def
proof (intro allI impI)
  fix w w' r
  assume w: "world_good good m w" "world_ok m w" "apply_transition m op gen to result err ev why w = (w', r)"
    and P: "\<exists>b. bound_at m w op = Some b \<and> justified_move b (w_trace w) to result"
  have good: "good (w_store w)" using w(1) by (simp add: world_good_def)
  have m: "m_store m = ops" "m_scope m = scope" "environment_ok ops rev_of good scope (m_env m (w_tick w))"
    using assms by (auto simp: manager_ok_def)
  obtain st res where run: "transition ops scope (m_clock m (w_tick w)) (m_env m (w_tick w)) op
      (move_request to gen result err ev why) (w_store w) = (st, res)"
    by (cases "transition ops scope (m_clock m (w_tick w)) (m_env m (w_tick w)) op
      (move_request to gen result err ev why) (w_store w)")
  define w1 where "w1 = (wait m w)\<lparr>w_store := st\<rparr>"
  have step: "store_step (m_store m) rev_of good (m_scope m) (w_store w) (w_store w1)"
    "w_trace w1 = w_trace w @ []" "w_counts w1 = w_counts w"
    using operation_steps(2) [OF m(3) good run] m(1,2) by (simp_all add: w1_def wait_def)
  have quiet: "advances rev_of good m w w1" "world_ok m w1"
    using quiet_step [OF w(2) step(1,2) _ step(3)] by simp_all
  show "advances rev_of good m w w' \<and> world_ok m w' \<and> (\<forall>v. r = Inr v \<longrightarrow> True)"
  proof (cases "\<exists>rec e. res = Inr (Applied rec e)")
    case False
    then have "w' = w1"
      using w(3) run m by (auto simp: apply_transition_def w1_def Let_def split: sum.splits transition_result.splits)
    with quiet show ?thesis by simp
  next
    case True
    then obtain rec e where res: "res = Inr (Applied rec e)" by blast
    have w': "w' = note_event (Moved e) w1"
      using w(3) run m res by (simp add: apply_transition_def w1_def Let_def)
    obtain stc r0 where applied: "store_step ops rev_of good scope (w_store w) stc"
      "map_of (operations (stored_memory ops scope stc)) op = Some r0"
      "env_operation_id e = operation_id (bound r0)" "env_status e = status rec" "env_result e = result"
      "parse_status (status_text to) = Some (status rec)"
      using transition_applied [OF m(3) good run [unfolded res]] by (auto simp: move_request_def)
    have "memory_ok scope (stored_memory ops scope stc)"
      using applied(1) w(1) m by (auto simp: world_good_def dest: store_stepD)
    with memory_okD(4) applied(2) have "operation_id (bound r0) = op" by blast
    with applied have e: "env_operation_id e = op" "env_status e = to" "env_result e = result" by auto
    obtain b where b: "bound_at m w op = Some b" "justified_move b (w_trace w) to result" using P by blast
    have b': "bound_at m w' op = Some b"
      using advances_bound [OF quiet(1) b(1)] by (simp add: w' note_event_def bound_at_def)
    have "bound_at m w' = bound_at m w1" by (simp add: w' note_event_def bound_at_def [abs_def])
    then have "world_ok m w'"
      using quiet(2) b b' e step(2)
      by (auto simp: world_ok_def w' note_event_def justified_trace_append launches_bounded_def executions_of_def)
    moreover have "advances rev_of good m w w'"
      using quiet(1) by (auto simp: advances_def w' note_event_def executions_of_def)
    ultimately show ?thesis by simp
  qed
qed

lemma safe_move:
  assumes "manager_ok ops rev_of good scope m"
  shows "safe_act rev_of good m (\<lambda>w. \<exists>b. bound_at m w op = Some b \<and> justified_move b (w_trace w) to result)
    (move m op gen to result err ev why) (\<lambda>_ _. True)"
  unfolding move_def by (rule safe_bind [OF safe_apply [OF assms] safe_ret]) simp

lemma safe_move_known:
  assumes "manager_ok ops rev_of good scope m"
    "\<And>w. P w \<Longrightarrow> bound_at m w op = Some b \<and> justified_move b (w_trace w) to result"
  shows "safe_act rev_of good m P (move m op gen to result err ev why) (\<lambda>_ _. True)"
  by (rule safe_weaken [OF safe_move [OF assms(1)]]) (use assms(2) in blast)+

lemma wait_step:
  assumes "world_good good m w" "world_ok m w" "w' = note_event x (wait m w) \<or> w' = wait m w" "harmless x"
  shows "advances rev_of good m w w'" "world_ok m w'"
proof -
  have "store_step (m_store m) rev_of good (m_scope m) (w_store w) (w_store w')"
    using assms(1,3) by (auto simp: wait_def note_event_def world_good_def store_step_refl)
  moreover have "w_trace w' = w_trace w @ [x] \<or> w_trace w' = w_trace w @ []" "w_counts w' = w_counts w"
    using assms(3) by (auto simp: wait_def note_event_def)
  ultimately have "advances rev_of good m w w' \<and> world_ok m w'"
    using quiet_step [OF assms(2), of rev_of good w' "[x]"] quiet_step [OF assms(2), of rev_of good w' "[]"] assms(4) by auto
  then show "advances rev_of good m w w'" "world_ok m w'" by auto
qed

text \<open>What a read of the journal, an observer, a reconciliation leave in the trace.\<close>

lemma safe_state:
  "safe_act rev_of good m (\<lambda>_. True) (effect_operation_state m b eop)
    (\<lambda>found w. Option.bind b bind_journal \<noteq> None \<or> found \<noteq> None \<longrightarrow> Saw eop found \<in> set (w_trace w))"
  unfolding safe_act_def
proof (intro allI impI)
  fix w w' r
  assume w: "world_good good m w" "world_ok m w" "effect_operation_state m b eop w = (w', r)"
  show "advances rev_of good m w w' \<and> world_ok m w' \<and>
      (\<forall>v. r = Inr v \<longrightarrow> Option.bind b bind_journal \<noteq> None \<or> v \<noteq> None \<longrightarrow> Saw eop v \<in> set (w_trace w'))"
  proof (cases "Option.bind b bind_journal")
    case None
    with w show ?thesis by (auto simp: effect_operation_state_def advances_refl)
  next
    case (Some j)
    then obtain found where "w' = note_event (Saw eop found) (wait m w)" "r = Inr found"
      using w(3) by (auto simp: effect_operation_state_def Let_def)
    with wait_step [OF w(1,2), of w' "Saw eop found"] show ?thesis by (auto simp: note_event_def)
  qed
qed

lemma safe_observer:
  "safe_act rev_of good m (\<lambda>_. True) (ask_observer m b eop j)
    (\<lambda>x w. \<forall>y. x = Some y \<longrightarrow> Observation eop y \<in> set (w_trace w))"
  unfolding safe_act_def
proof (intro allI impI)
  fix w w' r
  assume w: "world_good good m w" "world_ok m w" "ask_observer m b eop j w = (w', r)"
  then consider "w' = w" "r = Inr None" | "w' = wait m w" "r = Inr None"
    | y where "w' = note_event (Observation eop y) (wait m w)" "r = Inr (Some y)"
    by (auto simp: ask_observer_def Let_def split: option.splits observe_answer.splits)
  then show "advances rev_of good m w w' \<and> world_ok m w' \<and>
      (\<forall>x. r = Inr x \<longrightarrow> (\<forall>y. x = Some y \<longrightarrow> Observation eop y \<in> set (w_trace w')))"
  proof cases
    case 1
    with w show ?thesis by (simp add: advances_refl)
  next
    case 2
    with wait_step [OF w(1,2), of w' "Saw eop None"] show ?thesis by simp
  next
    case (3 y)
    with wait_step [OF w(1,2), of w' "Observation eop y"] show ?thesis by (simp add: note_event_def)
  qed
qed

lemma safe_reconcile:
  "safe_act rev_of good m (\<lambda>_. True) (reconcile_binding m b j eop) (\<lambda>x w. Reconciled eop x \<in> set (w_trace w))"
  unfolding safe_act_def
proof (intro allI impI)
  fix w w' r
  assume w: "world_good good m w" "world_ok m w" "reconcile_binding m b j eop w = (w', r)"
  let ?js = "\<lambda>js. (wait m w)\<lparr>w_journals := js\<rparr>"
  obtain js where js: "(\<exists>x. r = Inr x \<and> w' = note_event (Reconciled eop x) (?js js)) \<or> (\<exists>e. r = Inl e \<and> w' = ?js js)"
    using w(3) by (auto simp: reconcile_binding_def Let_def split: prod.splits sum.splits)
  have "store_step (m_store m) rev_of good (m_scope m) (w_store w) (w_store w')" "w_counts w' = w_counts w"
    using w(1) js by (auto simp: wait_def note_event_def world_good_def store_step_refl)
  moreover have "(\<exists>x. r = Inr x \<and> w_trace w' = w_trace w @ [Reconciled eop x]) \<or> (\<exists>e. r = Inl e) \<and> w_trace w' = w_trace w @ []"
    using js by (auto simp: wait_def note_event_def)
  ultimately show "advances rev_of good m w w' \<and> world_ok m w' \<and> (\<forall>x. r = Inr x \<longrightarrow> Reconciled eop x \<in> set (w_trace w'))"
    using quiet_step [OF w(2), of rev_of good w'] by fastforce
qed

lemma safe_current:
  assumes "manager_ok ops rev_of good scope m"
    "\<And>r. safe_act rev_of good m (\<lambda>w. bound_at m w op = Some (bound r)) (go r) (\<lambda>_ _. True)"
  shows "safe_act rev_of good m (\<lambda>_. True) (with_current m op gen nt go) (\<lambda>_ _. True)"
  unfolding with_current_def
proof (rule safe_bind [OF safe_read [OF assms(1)]])
  fix found
  show "safe_act rev_of good m (\<lambda>w. \<forall>r. found = Some r \<longrightarrow> bound_at m w op = Some (bound r))
      (case found of None \<Rightarrow> mret None
       | Some r \<Rightarrow> if generation r \<noteq> gen then mbind (store_note m op (nt r)) (\<lambda>_. mret (Some r))
           else if is_terminal (status r) then mret (Some r) else go r) (\<lambda>_ _. True)"
  proof (cases found)
    case None
    then show ?thesis by (simp add: safe_ret)
  next
    case (Some r)
    have "safe_act rev_of good m (\<lambda>w. bound_at m w op = Some (bound r)) (mbind (store_note m op (nt r)) (\<lambda>_. mret (Some r))) (\<lambda>_ _. True)"
      by (rule safe_bind [OF safe_weaken [OF safe_note [OF assms(1)]] safe_ret]) auto
    with Some assms(2) show ?thesis by (simp add: safe_ret)
  qed
qed

text \<open>Bind, keeping a stable fact.\<close>

lemma safe_then:
  assumes "safe_act rev_of good m (\<lambda>_. True) a Q" "stable rev_of good m R"
    "\<And>v. safe_act rev_of good m (\<lambda>w. Q v w \<and> R w) (f v) S"
  shows "safe_act rev_of good m R (mbind a f) S"
  by (rule safe_bind [OF safe_weaken [OF safe_keep [OF assms(1,2)]] assms(3)]) auto

lemma seen_justifies:
  "Saw (effect_op r) (Some j) \<in> set t \<Longrightarrow> effect_status j = CONFIRMED \<Longrightarrow> justified_move (bound r) t SUCCEEDED (effect_result j)"
  "Reconciled (effect_op r) x \<in> set t \<Longrightarrow> effect_status (recovery_operation x) = CONFIRMED \<Longrightarrow>
     justified_move (bound r) t SUCCEEDED (effect_result (recovery_operation x))"
  "Saw (effect_op r) found \<in> set t \<Longrightarrow> pred_option (\<lambda>j. effect_status j = INTENDED) found \<Longrightarrow>
     justified_move (bound r) t FAILED v \<and> justified_move (bound r) t CANCELLED v"
  "Observation (effect_op r) y \<in> set t \<Longrightarrow> replay_policy (bound r) = policy_text OBSERVABLE \<Longrightarrow>
     justified_move (bound r) t (if satisfied y then SUCCEEDED else CANCELLED) v"
  by (auto simp: seen_defs effect_op_def list_ex_iff intro!: bexI split: option.splits)

lemma safe_unknown:
  assumes "manager_ok ops rev_of good scope m" "\<And>w. P w \<Longrightarrow> bound_at m w op = Some b"
  shows "safe_act rev_of good m P (move m op gen OUTCOME_UNKNOWN v err ev why) (\<lambda>_ _. True)"
  by (rule safe_move_known [OF assms(1)]) (use assms(2) in simp)

lemma safe_cancel_dispatched:
  assumes ok: "manager_ok ops rev_of good scope m"
  shows "safe_act rev_of good m (\<lambda>w. bound_at m w op = Some (bound r))
    (cancel_dispatched m op gen why err r b j) (\<lambda>_ _. True)"
proof -
  let ?P = "\<lambda>w. bound_at m w op = Some (bound r)"
  let ?policy = "replay_policy (bound r)"
  have pure: "?policy = policy_text PURE \<Longrightarrow> safe_act rev_of good m ?P (move m op gen CANCELLED v e ev y) (\<lambda>_ _. True)" for v e ev y
    by (rule safe_move_known [OF ok, where b = "bound r"]) simp
  have obs: "safe_act rev_of good m (\<lambda>w. (\<forall>z. y = Some z \<longrightarrow> Observation (effect_op r) z \<in> set (w_trace w)) \<and> ?P w)
      (observed_cancellation m op gen why err j y) (\<lambda>_ _. True)" if pol: "?policy = policy_text OBSERVABLE" for y
  proof (cases y)
    case None
    then show ?thesis by (simp add: observed_cancellation_def safe_unknown [OF ok])
  next
    case (Some z)
    have "safe_act rev_of good m (\<lambda>w. (\<forall>u. y = Some u \<longrightarrow> Observation (effect_op r) u \<in> set (w_trace w)) \<and> ?P w)
        (move m op gen (if satisfied z then SUCCEEDED else CANCELLED) vv ee ev why') (\<lambda>_ _. True)" for vv ee ev why'
      by (rule safe_move_known [OF ok, where b = "bound r"]) (use Some seen_justifies(4) [OF _ pol] in auto)
    note this = this [of "coalesce (observed_result z) (effect_result j)"] this [of JNull]
    with Some show ?thesis by (cases "satisfied z") (simp_all add: observed_cancellation_def Let_def)
  qed
  have "safe_act rev_of good m ?P (cancel_after_dispatch m op gen why err r b j) (\<lambda>_ _. True)"
    using pure safe_unknown [OF ok, of ?P] safe_then [OF safe_observer stable_bound obs]
    by (simp add: cancel_after_dispatch_def Let_def)
  then have "safe_act rev_of good m ?P (\<lambda>w. (if attempt_settled gen (map_of (w_attempts x) op)
      then cancel_after_dispatch m op gen why err r b j else mret (Some r)) w) (\<lambda>_ _. True)" for x :: "'a manager_world"
    by (simp add: safe_ret)
  from safe_peek [OF this] show ?thesis
    by (simp add: cancel_dispatched_def [abs_def] if_distrib [of "\<lambda>f. f _"] cong: if_cong)
qed

text \<open>What holds after the journal has been read for a record.\<close>

abbreviation read_for :: "'s manager \<Rightarrow> string \<Rightarrow> effect_binding option \<Rightarrow> op_record \<Rightarrow> effect_record option \<Rightarrow> 's manager_world \<Rightarrow> bool" where
  "read_for m op b r found w \<equiv>
     (Option.bind b bind_journal \<noteq> None \<or> found \<noteq> None \<longrightarrow> Saw (effect_op r) found \<in> set (w_trace w)) \<and>
     bound_at m w op = Some (bound r)"

lemma safe_found_moves:
  assumes ok: "manager_ok ops rev_of good scope m"
  shows "map_option effect_status found = Some CONFIRMED \<Longrightarrow>
      safe_act rev_of good m (read_for m op b r found) (move m op gen SUCCEEDED (effect_result (the found)) v1 v2 v3) (\<lambda>_ _. True)"
    "Option.bind b bind_journal \<noteq> None \<Longrightarrow> pred_option (\<lambda>j. effect_status j = INTENDED) found \<Longrightarrow>
      safe_act rev_of good m (read_for m op b r found) (move m op gen CANCELLED v0 v1 v2 v3) (\<lambda>_ _. True) \<and>
      safe_act rev_of good m (read_for m op b r found) (move m op gen FAILED v0 v1 v2 v3) (\<lambda>_ _. True)"
    "safe_act rev_of good m (read_for m op b r found) (move m op gen OUTCOME_UNKNOWN v0 v1 v2 v3) (\<lambda>_ _. True)"
proof -
  show "safe_act rev_of good m (read_for m op b r found) (move m op gen SUCCEEDED (effect_result (the found)) v1 v2 v3) (\<lambda>_ _. True)"
    if "map_option effect_status found = Some CONFIRMED"
    by (rule safe_move_known [OF ok, where b = "bound r"]) (use that seen_justifies(1) [of r "the found"] in auto)
  show "safe_act rev_of good m (read_for m op b r found) (move m op gen CANCELLED v0 v1 v2 v3) (\<lambda>_ _. True) \<and>
      safe_act rev_of good m (read_for m op b r found) (move m op gen FAILED v0 v1 v2 v3) (\<lambda>_ _. True)"
    if "Option.bind b bind_journal \<noteq> None" "pred_option (\<lambda>j. effect_status j = INTENDED) found"
    by (intro conjI; rule safe_move_known [OF ok, where b = "bound r"]) (use that seen_justifies(3) [of r found] in auto)
  show "safe_act rev_of good m (read_for m op b r found) (move m op gen OUTCOME_UNKNOWN v0 v1 v2 v3) (\<lambda>_ _. True)"
    by (rule safe_unknown [OF ok]) simp
qed

lemma safe_settle_cancellation:
  assumes ok: "manager_ok ops rev_of good scope m"
  shows "safe_act rev_of good m (\<lambda>_. True) (settle_cancellation m op gen why err) (\<lambda>_ _. True)"
  unfolding settle_cancellation_def
proof (rule safe_current [OF ok])
  fix r :: op_record
  let ?P = "\<lambda>w. bound_at m w op = Some (bound r)"
  have found: "safe_act rev_of good m (read_for m op (Some b) r found) (cancel_found m op gen why err r b found) (\<lambda>_ _. True)"
    if "bind_journal b \<noteq> None" for b found
  proof -
    have "pred_option (\<lambda>j. effect_status j = INTENDED) found"
      if "map_option effect_status found \<noteq> Some CONFIRMED" "\<not> (found \<noteq> None \<and> effect_status (the found) \<in> {DISPATCHED, EFFECT_UNKNOWN})"
      using that by (cases found; cases "effect_status (the found)") auto
    moreover have "safe_act rev_of good m (read_for m op (Some b) r found) (cancel_dispatched m op gen why err r b j) (\<lambda>_ _. True)" for j
      by (rule safe_weaken [OF safe_cancel_dispatched [OF ok]]) auto
    ultimately show ?thesis
      using safe_found_moves [OF ok, where b = "Some b"] \<open>bind_journal b \<noteq> None\<close> by (auto simp: cancel_found_def)
  qed
  show "safe_act rev_of good m ?P (cancel_current m op gen why err r) (\<lambda>_ _. True)"
    using safe_unknown [OF ok, of ?P] safe_then [OF safe_state stable_bound found]
    by (auto simp: cancel_current_def split: option.splits)
qed

lemma safe_cancelled:
  "manager_ok ops rev_of good scope m \<Longrightarrow> safe_act rev_of good m P (settle_cancellation m op gen why err) (\<lambda>_ _. True)"
  by (rule safe_weaken [OF safe_settle_cancellation]) auto

lemma safe_commit_success:
  assumes ok: "manager_ok ops rev_of good scope m"
  shows "safe_act rev_of good m (\<lambda>_. True) (commit_success m op gen) (\<lambda>_ _. True)"
  unfolding commit_success_def
proof (rule safe_current [OF ok], rule safe_if [OF safe_cancelled [OF ok]], rule safe_then [OF safe_state stable_bound])
  fix r :: op_record and found
  show "safe_act rev_of good m (read_for m op (binding_for m r) r found) (commit_found m op gen found) (\<lambda>_ _. True)"
    using safe_found_moves [OF ok] by (auto simp: commit_found_def)
qed

text \<open>The settling routines, given that the execution they may call back is safe.\<close>

definition exec_safe ::
  "'s manager \<Rightarrow> (string \<Rightarrow> int \<Rightarrow> op_record \<Rightarrow> effect_binding \<Rightarrow> ('s, op_record option) act) \<Rightarrow> bool" where
  "exec_safe m exec \<longleftrightarrow>
     (\<forall>op gen r b. safe_act rev_of good m (\<lambda>w. bound_at m w op = Some (bound r)) (exec op gen r b) (\<lambda>_ _. True))"

lemma exec_safeD:
  "exec_safe m exec \<Longrightarrow> (\<And>w. P w \<Longrightarrow> bound_at m w op = Some (bound r)) \<Longrightarrow> safe_act rev_of good m P (exec op gen r b) (\<lambda>_ _. True)"
  unfolding exec_safe_def by (rule safe_weaken [where P' = "\<lambda>w. bound_at m w op = Some (bound r)"]) auto

lemma safe_settle_reconciled:
  assumes ok: "manager_ok ops rev_of good scope m" and exec: "exec_safe m exec"
  shows "safe_act rev_of good m (\<lambda>w. Reconciled (effect_op r) x \<in> set (w_trace w) \<and> bound_at m w op = Some (bound r))
    (settle_reconciled exec m op gen why err b x) (\<lambda>_ _. True)"
proof -
  let ?P = "\<lambda>w. Reconciled (effect_op r) x \<in> set (w_trace w) \<and> bound_at m w op = Some (bound r)"
  have unk: "safe_act rev_of good m ?P (move m op gen OUTCOME_UNKNOWN v0 v1 v2 v3) (\<lambda>_ _. True)" for v0 v1 v2 v3
    by (rule safe_unknown [OF ok]) auto
  have confirmed: "safe_act rev_of good m ?P (move m op gen SUCCEEDED (effect_result (recovery_operation x)) v1 v2 v3) (\<lambda>_ _. True)"
    if "effect_status (recovery_operation x) = CONFIRMED" for v1 v2 v3
    by (rule safe_move_known [OF ok, where b = "bound r"]) (use that seen_justifies(2) in auto)
  have after: "safe_act rev_of good m (\<lambda>w. \<forall>f. fenced = Some f \<longrightarrow> bound_at m w op = Some (bound f))
      (case fenced of None \<Rightarrow> settle_cancellation m op gen v err
       | Some f \<Rightarrow> if generation f \<noteq> gen \<or> is_cancel_fenced f \<or> is_terminal (status f)
           then settle_cancellation m op gen v err else exec op gen f b) (\<lambda>_ _. True)" for fenced v
    using safe_cancelled [OF ok] exec_safeD [OF exec] by (auto split: option.splits)
  have retry: "safe_act rev_of good m ?P (mbind (store_read m op) (\<lambda>fenced.
      case fenced of None \<Rightarrow> settle_cancellation m op gen v err
       | Some f \<Rightarrow> if generation f \<noteq> gen \<or> is_cancel_fenced f \<or> is_terminal (status f)
           then settle_cancellation m op gen v err else exec op gen f b)) (\<lambda>_ _. True)" for v
    by (rule safe_bind [OF safe_weaken [OF safe_read [OF ok]] after]) auto
  show ?thesis
  proof (cases "recovery_action x")
    case CONTINUE
    then show ?thesis using unk confirmed by (simp add: settle_reconciled_def settle_unknown_def)
  next
    case RETRY
    then show ?thesis using retry by (simp only: settle_reconciled_def recovery_action.case)
  next
    case ESCALATE
    then show ?thesis using unk by (simp add: settle_reconciled_def)
  qed
qed

lemma safe_test:
  assumes "safe_act rev_of good m (\<lambda>w. P w \<and> c w) a Q" "safe_act rev_of good m (\<lambda>w. P w \<and> \<not> c w) b Q"
  shows "safe_act rev_of good m P (\<lambda>w. if c w then a w else b w) Q"
  unfolding safe_act_def
proof (intro allI impI)
  fix w w' r
  assume w: "world_good good m w" "world_ok m w" "P w" "(if c w then a w else b w) = (w', r)"
  show "advances rev_of good m w w' \<and> world_ok m w' \<and> (\<forall>v. r = Inr v \<longrightarrow> Q v w')"
    using safe_actD [OF assms(1) w(1,2), of w' r] safe_actD [OF assms(2) w(1,2), of w' r] w(3,4)
    by (cases "c w") auto
qed

lemma safe_settle_found:
  assumes ok: "manager_ok ops rev_of good scope m" and exec: "exec_safe m exec"
  shows "safe_act rev_of good m (read_for m op (Some b) r found)
    (settle_found exec m op gen why err r b jn found) (\<lambda>_ _. True)"
proof (cases found)
  case None
  have "safe_act rev_of good m (read_for m op (Some b) r None)
      (\<lambda>w. if 2 \<le> executions_of w op gen then settle_unknown m op gen why v view w else exec op gen r b w) (\<lambda>_ _. True)" for v view
    unfolding settle_unknown_def by (rule safe_test [OF safe_unknown [OF ok] exec_safeD [OF exec]]) auto
  with None show ?thesis by (simp add: settle_found_def)
next
  case (Some j)
  let ?ask = "mcatch (mbind (reconcile_binding m b jn (effect_op r)) (\<lambda>x. mret (Inr x))) (\<lambda>e. mret (Inl e))"
  let ?Q = "\<lambda>answer w. \<forall>x. answer = Inr x \<longrightarrow> Reconciled (effect_op r) x \<in> set (w_trace w)"
  have ask: "safe_act rev_of good m (\<lambda>_. True) ?ask ?Q"
    by (rule safe_catch [OF safe_bind [OF safe_reconcile safe_ret]]) (auto intro: safe_ret)
  have after: "safe_act rev_of good m (\<lambda>w. ?Q answer w \<and> bound_at m w op = Some (bound r))
      (case answer of Inl e \<Rightarrow> settle_unknown m op gen why v (error_view e)
       | Inr x \<Rightarrow> settle_reconciled exec m op gen why err b x) (\<lambda>_ _. True)" for answer :: "error + recovery" and v
  proof (cases answer)
    case (Inl e)
    then show ?thesis by (auto simp: settle_unknown_def intro!: safe_unknown [OF ok])
  next
    case (Inr x)
    then show ?thesis by (auto intro: safe_weaken [OF safe_settle_reconciled [OF ok exec, of r x]])
  qed
  have "safe_act rev_of good m (\<lambda>w. bound_at m w op = Some (bound r)) (mbind ?ask (\<lambda>answer.
      case answer of Inl e \<Rightarrow> settle_unknown m op gen why v (error_view e)
       | Inr x \<Rightarrow> settle_reconciled exec m op gen why err b x)) (\<lambda>_ _. True)" for v
    by (rule safe_then [OF ask stable_bound after])
  then have rec: "safe_act rev_of good m (read_for m op (Some b) r found) (mbind ?ask (\<lambda>answer.
      case answer of Inl e \<Rightarrow> settle_unknown m op gen why v (error_view e)
       | Inr x \<Rightarrow> settle_reconciled exec m op gen why err b x)) (\<lambda>_ _. True)" for v
    by (rule safe_weaken) auto
  have run: "safe_act rev_of good m (read_for m op (Some b) r found) (exec op gen r b) (\<lambda>_ _. True)"
    by (rule exec_safeD [OF exec]) auto
  show ?thesis
    using rec run safe_found_moves(1) [OF ok, of found "Some b"] Some by (simp add: settle_found_def)
qed

lemma safe_settle_from_journal:
  assumes ok: "manager_ok ops rev_of good scope m" and exec: "exec_safe m exec"
  shows "safe_act rev_of good m (\<lambda>_. True) (settle_from_journal exec m op gen why err) (\<lambda>_ _. True)"
  unfolding settle_from_journal_def
proof (rule safe_current [OF ok], rule safe_if [OF safe_cancelled [OF ok]])
  fix r :: op_record
  let ?P = "\<lambda>w. bound_at m w op = Some (bound r)"
  have found: "safe_act rev_of good m ?P
      (mbind (effect_operation_state m (Some b) (effect_op r)) (settle_found exec m op gen why err r b jn)) (\<lambda>_ _. True)" for b jn
    by (rule safe_then [OF safe_state stable_bound safe_settle_found [OF ok exec]])
  have unk: "safe_act rev_of good m ?P (settle_unknown m op gen why v view) (\<lambda>_ _. True)" for v view
    unfolding settle_unknown_def by (rule safe_unknown [OF ok])
  show "safe_act rev_of good m ?P (case binding_for m r of
        None \<Rightarrow> settle_unknown m op gen why ''unknown-capability-binding'' (opt_error_view err)
      | Some b \<Rightarrow> case bind_journal b of
          None \<Rightarrow> settle_unknown m op gen why ''missing-effect-journal'' (opt_error_view err)
        | Some jname \<Rightarrow>
            mbind (effect_operation_state m (Some b) (effect_op r)) (settle_found exec m op gen why err r b jname)) (\<lambda>_ _. True)"
    using found unk by (auto split: option.splits)
qed

lemma safe_settle_from_error:
  assumes ok: "manager_ok ops rev_of good scope m" and exec: "exec_safe m exec"
  shows "safe_act rev_of good m (\<lambda>_. True) (settle_from_error exec m op gen e) (\<lambda>_ _. True)"
  unfolding settle_from_error_def
proof (rule safe_current [OF ok], rule safe_if [OF safe_cancelled [OF ok]], rule safe_then [OF safe_state stable_bound])
  fix r :: op_record and found
  have "safe_act rev_of good m (read_for m op (binding_for m r) r found) (settle_from_journal exec m op gen v w) (\<lambda>_ _. True)" for v w
    by (rule safe_weaken [OF safe_settle_from_journal [OF ok exec]]) auto
  then show "safe_act rev_of good m (read_for m op (binding_for m r) r found) (error_found exec m op gen e r found) (\<lambda>_ _. True)"
    using safe_found_moves(2) [OF ok, of "binding_for m r" found] by (auto simp: error_found_def)
qed

subsubsection \<open>Executing: every launch is counted\<close>

definition bump :: "string \<Rightarrow> int \<Rightarrow> ('s, unit) act" where
  "bump op gen w = (w\<lparr>w_counts := aset (count_key op gen) (executions_of w op gen + 1) (w_counts w)\<rparr>, Inr ())"

lemma executions_bump:
  "executions_of (w\<lparr>w_counts := aset (count_key op gen) n (w_counts w)\<rparr>) op' gen' =
     (if count_key op' gen' = count_key op gen then n else executions_of w op' gen')"
  by (simp add: executions_of_def)

lemma launches_boundedD: "launches_bounded w \<Longrightarrow>
    count_list (w_trace w) (Launched op gen) \<le> executions_of w op gen \<and> count_list (w_trace w) (Launched op gen) \<le> execution_limit"
  by (simp add: launches_bounded_def)

lemma bump_world:
  assumes "world_good good m w" "world_ok m w"
    and w': "w' = w\<lparr>w_counts := aset (count_key op gen) (executions_of w op gen + 1) (w_counts w)\<rparr>"
  shows "advances rev_of good m w w'" "world_ok m w'" "bound_at m w' = bound_at m w" "w_trace w' = w_trace w"
proof -
  show same: "bound_at m w' = bound_at m w" "w_trace w' = w_trace w"
    by (simp_all add: w' bound_at_def [abs_def])
  have store: "w_store w' = w_store w" by (simp add: w')
  have key: "count_key op' gen' = count_key op gen \<Longrightarrow> executions_of w op' gen' = executions_of w op gen" for op' gen'
    by (simp add: executions_of_def)
  have le: "executions_of w op' gen' \<le> executions_of w' op' gen'" for op' gen'
    using key [of op' gen'] by (cases "count_key op' gen' = count_key op gen") (simp_all add: w' executions_bump)
  have "launches_bounded w" using assms(2) by (simp add: world_ok_def)
  then have "count_list (w_trace w') (Launched x g) \<le> min execution_limit (executions_of w' x g)" for x g
    using le [of x g] launches_boundedD [of w x g] by (simp add: same(2))
  then have "launches_bounded w'" by (simp add: launches_bounded_def)
  then show "world_ok m w'" using assms(2) by (simp add: world_ok_def same)
  show "advances rev_of good m w w'"
    using assms(1) le by (simp add: advances_def same(2) store world_good_def store_step_refl)
qed

lemma safe_bump:
  "safe_act rev_of good m (\<lambda>w. executions_of w op gen < execution_limit \<and> bound_at m w op = Some b) (bump op gen)
    (\<lambda>_ w. count_list (w_trace w) (Launched op gen) < executions_of w op gen \<and>
       executions_of w op gen \<le> execution_limit \<and> bound_at m w op = Some b)"
  unfolding safe_act_def
proof (intro allI impI)
  fix w w' r
  assume w: "world_good good m w" "world_ok m w" "bump op gen w = (w', r)"
    and P: "executions_of w op gen < execution_limit \<and> bound_at m w op = Some b"
  have w': "w' = w\<lparr>w_counts := aset (count_key op gen) (executions_of w op gen + 1) (w_counts w)\<rparr>"
    using w(3) by (simp add: bump_def)
  note bump = bump_world [OF w(1,2) w']
  have n: "executions_of w' op gen = executions_of w op gen + 1" by (simp add: w' executions_bump)
  have "launches_bounded w" using w(2) by (simp add: world_ok_def)
  from launches_boundedD [OF this, of op gen] have "count_list (w_trace w) (Launched op gen) \<le> executions_of w op gen" by simp
  then show "advances rev_of good m w w' \<and> world_ok m w' \<and> (\<forall>v. r = Inr v \<longrightarrow>
      count_list (w_trace w') (Launched op gen) < executions_of w' op gen \<and>
      executions_of w' op gen \<le> execution_limit \<and> bound_at m w' op = Some b)"
    using bump P n by simp
qed

lemma safe_bump_over:
  "safe_act rev_of good m (\<lambda>w. bound_at m w op = Some b) (bump op gen) (\<lambda>_ w. bound_at m w op = Some b)"
  unfolding safe_act_def
proof (intro allI impI)
  fix w w' r
  assume w: "world_good good m w" "world_ok m w" "bump op gen w = (w', r)" and P: "bound_at m w op = Some b"
  have w': "w' = w\<lparr>w_counts := aset (count_key op gen) (executions_of w op gen + 1) (w_counts w)\<rparr>"
    using w(3) by (simp add: bump_def)
  note bump = bump_world [OF w(1,2) w']
  show "advances rev_of good m w w' \<and> world_ok m w' \<and> (\<forall>v. r = Inr v \<longrightarrow> bound_at m w' op = Some b)"
    using bump P by simp
qed

lemma safe_launch:
  "safe_act rev_of good m (\<lambda>w. count_list (w_trace w) (Launched op gen) < executions_of w op gen \<and>
       executions_of w op gen \<le> execution_limit \<and> bound_at m w op = Some b)
     (launch m op gen r bd) (\<lambda>_ w. bound_at m w op = Some b)"
  unfolding safe_act_def
proof (intro allI impI)
  fix w w' res
  assume w: "world_good good m w" "world_ok m w" "launch m op gen r bd w = (w', res)"
    and P: "count_list (w_trace w) (Launched op gen) < executions_of w op gen \<and>
       executions_of w op gen \<le> execution_limit \<and> bound_at m w op = Some b"
  have same: "w_store w' = w_store w" "w_counts w' = w_counts w" "w_trace w' = w_trace w @ [Launched op gen]"
    using w(3) by (auto simp: launch_def Let_def wait_def note_event_def split: prod.splits)
  then have b: "bound_at m w' = bound_at m w" "executions_of w' = executions_of w"
    by (simp_all add: bound_at_def [abs_def] executions_of_def [abs_def])
  have "launches_bounded w'"
    using w(2) P b(2) same(3) by (auto simp: launches_bounded_def world_ok_def)
  then have "world_ok m w'"
    using w(2) b same by (simp add: world_ok_def justified_trace_append)
  moreover have "advances rev_of good m w w'"
    using w(1) b same by (simp add: advances_def world_good_def store_step_refl)
  ultimately show "advances rev_of good m w w' \<and> world_ok m w' \<and> (\<forall>v. res = Inr v \<longrightarrow> bound_at m w' op = Some b)"
    using P b by simp
qed

lemma safe_execute:
  assumes ok: "manager_ok ops rev_of good scope m"
  shows "exec_safe m (execute_bound_attempt depth m)"
proof (induction depth)
  case 0
  show ?case
    by (auto simp: exec_safe_def execute_bound_attempt.simps [abs_def] intro: safe_throw [unfolded mthrow_def [abs_def]])
next
  case (Suc depth)
  show ?case
    unfolding exec_safe_def
  proof (intro allI)
    fix op gen and r :: op_record and bd
    let ?P = "\<lambda>w. bound_at m w op = Some (bound r)"
    let ?h = "\<lambda>e. case e of
        RecoveryRequired _ _ _ \<Rightarrow> settle_from_journal (execute_bound_attempt depth m) m op gen (JStr ''recovery-required'') (Some e)
      | _ \<Rightarrow> settle_from_error (execute_bound_attempt depth m) m op gen e"
    let ?over = "\<lambda>n. move m op gen OUTCOME_UNKNOWN JNull JNull
        (JObj [(''escalation'', JStr ''retry-budget-exhausted''), (''executions'', JNum (int n)), (''reason'', JStr ''attempt-error'')])
        (JStr ''retry-budget-exhausted'')"
    have handler: "safe_act rev_of good m (\<lambda>_. True) (?h e) (\<lambda>_ _. True)" for e
      using safe_settle_from_journal [OF ok Suc.IH] safe_settle_from_error [OF ok Suc.IH] by (cases e) auto
    have handler': "safe_act rev_of good m ?P (?h e) (\<lambda>_ _. True)" for e
      by (rule safe_weaken [OF handler]) auto
    have run: "safe_act rev_of good m (\<lambda>w. executions_of w op gen < execution_limit \<and> ?P w)
        (mbind (mbind (bump op gen) (\<lambda>_. launch m op gen r bd)) (\<lambda>_. commit_success m op gen)) (\<lambda>_ _. True)"
      by (rule safe_bind [OF safe_bind [OF safe_bump safe_launch] safe_weaken [OF safe_commit_success [OF ok]]]) auto
    have tried: "safe_act rev_of good m (\<lambda>w. executions_of w op gen < execution_limit \<and> ?P w)
        (mcatch (mbind (mbind (bump op gen) (\<lambda>_. launch m op gen r bd)) (\<lambda>_. commit_success m op gen)) ?h) (\<lambda>_ _. True)"
      by (rule safe_catch_gen [OF run handler]) simp
    have counted: "safe_act rev_of good m (\<lambda>w. ?P w \<and> \<not> executions_of w op gen < execution_limit) (bump op gen) (\<lambda>_. ?P)"
      by (rule safe_weaken [OF safe_bump_over [of m op "bound r"]]) auto
    have refused: "safe_act rev_of good m (\<lambda>w. ?P w \<and> \<not> executions_of w op gen < execution_limit)
        (mbind (bump op gen) (\<lambda>_. mbind (\<lambda>w. (w, Inr (executions_of w op gen))) ?over)) (\<lambda>_ _. True)"
    proof (rule safe_bind [OF counted])
      have "safe_act rev_of good m ?P (\<lambda>w. (w, Inr (executions_of x op gen))) (\<lambda>_. ?P)" for x :: "'a manager_world"
        using safe_ret [of ?P "\<lambda>_. ?P" "executions_of x op gen" rev_of good m] by (simp add: mret_def [abs_def])
      then have "safe_act rev_of good m ?P (\<lambda>w. (w, Inr (executions_of w op gen))) (\<lambda>_. ?P)"
        by (rule safe_peek)
      then show "safe_act rev_of good m ?P (mbind (\<lambda>w. (w, Inr (executions_of w op gen))) ?over) (\<lambda>_ _. True)"
        by (rule safe_bind) (rule safe_unknown [OF ok])
    qed
    have unfold_run: "execute_bound_attempt (Suc depth) m op gen r bd =
        (if bind_journal bd = None
         then move m op gen OUTCOME_UNKNOWN JNull JNull (escalation ''missing-effect-journal'' (JStr ''execute-refused'')) (JStr ''missing-effect-journal'')
         else (\<lambda>w. if executions_of w op gen < execution_limit
           then mcatch (mbind (mbind (bump op gen) (\<lambda>_. launch m op gen r bd)) (\<lambda>_. commit_success m op gen)) ?h w
           else mbind (bump op gen) (\<lambda>_. mbind (\<lambda>w. (w, Inr (executions_of w op gen))) ?over) w))"
      by (rule ext) (simp add: execute_bound_attempt.simps Let_def mbind_def mcatch_def bump_def executions_bump)
    have "safe_act rev_of good m ?P (move m op gen OUTCOME_UNKNOWN JNull JNull v0 v1) (\<lambda>_ _. True)" for v0 v1
      by (rule safe_unknown [OF ok])
    then show "safe_act rev_of good m ?P (execute_bound_attempt (Suc depth) m op gen r bd) (\<lambda>_ _. True)"
      unfolding unfold_run by (intro safe_if safe_test [OF safe_weaken [OF tried] refused]) auto
  qed
qed

subsubsection \<open>The operations of the manager\<close>

lemma safe_any:
  "safe_act rev_of good m (\<lambda>_. True) a (\<lambda>_ _. True) \<Longrightarrow> safe_act rev_of good m P a (\<lambda>_ _. True)"
  by (rule safe_weaken) auto

lemma safe_run_detached:
  assumes ok: "manager_ok ops rev_of good scope m"
  shows "safe_act rev_of good m (\<lambda>_. True) (run_detached m op gen) (\<lambda>_ _. True)"
proof -
  note journal = safe_any [OF safe_settle_from_journal [OF ok safe_execute [OF ok]]]
  have read: "safe_act rev_of good m (\<lambda>_. True) (store_read m op) (\<lambda>_ _. True)"
    by (rule safe_weaken [OF safe_read [OF ok]]) auto
  have fenced: "safe_act rev_of good m (\<lambda>w. \<forall>x. found = Some x \<longrightarrow> bound_at m w op = Some (bound x))
      (run_fenced m op gen b found) (\<lambda>_ _. True)" for found b
    using exec_safeD [OF safe_execute [OF ok], of _ op] safe_cancelled [OF ok]
    by (cases found) (auto simp: run_fenced_def safe_ret)
  have found: "safe_act rev_of good m P (run_found m op gen b j) (\<lambda>_ _. True)" for P b j
    unfolding run_found_def
    by (intro safe_if journal safe_any [OF safe_bind [OF safe_read [OF ok] fenced]] safe_any [OF safe_commit_success [OF ok]])
  have seen: "safe_act rev_of good m P (mbind (effect_operation_state m b eop) (run_found m op gen b')) (\<lambda>_ _. True)" for P b b' eop
    by (rule safe_any [OF safe_bind [OF safe_state found]])
  have current: "safe_act rev_of good m (\<lambda>w. \<forall>x. r = Some x \<longrightarrow> bound_at m w op = Some (bound x))
      (run_current m op gen r) (\<lambda>_ _. True)" for r
  proof (cases r)
    case (Some x)
    then show ?thesis
      by (cases "binding_for m x")
        (auto simp: run_current_def intro!: safe_if safe_ret journal seen safe_cancelled [OF ok] safe_unknown [OF ok])
  qed (simp add: run_current_def safe_ret)
  have failed: "safe_act rev_of good m (\<lambda>w. \<forall>x. r = Some x \<longrightarrow> bound_at m w op = Some (bound x))
      (run_failed m op gen e r) (\<lambda>_ _. True)" for r e
  proof (cases r)
    case (Some x)
    have "safe_act rev_of good m P (mbind (store_note m op n) (\<lambda>_. mret (Some x))) (\<lambda>_ _. True)" for P n
      by (rule safe_any [OF safe_bind [OF safe_note [OF ok] safe_ret]]) simp
    with Some show ?thesis
      by (auto simp: run_failed_def intro!: safe_if safe_ret safe_cancelled [OF ok] safe_unknown [OF ok])
  qed (simp add: run_failed_def safe_ret)
  have last: "safe_act rev_of good m (\<lambda>_. True) (mcatch (store_read m op) (\<lambda>_. mret None)) (\<lambda>_ _. True)"
    by (rule safe_catch [OF read safe_ret]) auto
  have closing: "safe_act rev_of good m (\<lambda>_. True) (mcatch (mbind (store_read m op) (run_failed m op gen e))
      (\<lambda>_. mcatch (store_read m op) (\<lambda>_. mret None))) (\<lambda>_ _. True)" for e
    by (rule safe_catch [OF safe_bind [OF safe_read [OF ok] failed] last]) auto
  show ?thesis
    unfolding run_detached_def run_detached_inner_def
    by (rule safe_catch [OF safe_bind [OF safe_read [OF ok] current] closing]) auto
qed

lemma safe_cancel:
  assumes ok: "manager_ok ops rev_of good scope m"
  shows "safe_act rev_of good m (\<lambda>_. True) (cancel m op why) (\<lambda>_ _. True)"
proof -
  have settle: "safe_act rev_of good m P (mbind (store_read m op) (settle_requested m op why)) (\<lambda>_ _. True)" for P
    by (rule safe_any [OF safe_bind [OF safe_read [OF ok]]])
      (auto simp: settle_requested_def split: option.splits intro: safe_throw safe_cancelled [OF ok])
  have applied: "safe_act rev_of good m P (case x of
        Applied _ _ \<Rightarrow> mbind (store_read m op) (settle_requested m op why) | Refused _ latest \<Rightarrow> mret (Some latest)) (\<lambda>_ _. True)" for P x
    using settle by (cases x) (auto intro: safe_ret)
  have request: "safe_act rev_of good m (\<lambda>w. \<forall>x. r = Some x \<longrightarrow> bound_at m w op = Some (bound x))
      (request_cancel m op why r) (\<lambda>_ _. True)" for r
  proof (cases r)
    case (Some x)
    have "safe_act rev_of good m (\<lambda>w. \<forall>x. r = Some x \<longrightarrow> bound_at m w op = Some (bound x))
        (mbind (apply_transition m op gen CANCEL_REQUESTED JNull v1 v2 v3) (\<lambda>x. case x of
          Applied _ _ \<Rightarrow> mbind (store_read m op) (settle_requested m op why) | Refused _ latest \<Rightarrow> mret (Some latest))) (\<lambda>_ _. True)" for gen v1 v2 v3
      by (rule safe_bind [OF safe_weaken [OF safe_apply [OF ok]] applied]) (use Some in auto)
    with Some settle show ?thesis by (auto simp: request_cancel_def intro!: safe_ret)
  qed (simp add: request_cancel_def safe_throw)
  show ?thesis
    unfolding cancel_def by (rule safe_bind [OF safe_lift safe_any [OF safe_bind [OF safe_read [OF ok] request]]]) auto
qed

lemma safe_recover:
  assumes ok: "manager_ok ops rev_of good scope m"
  shows "safe_act rev_of good m (\<lambda>_. True) (recover m) (\<lambda>_ _. True)"
proof -
  have read: "safe_act rev_of good m P (store_read m op) (\<lambda>_ _. True)" for P op
    by (rule safe_weaken [OF safe_read [OF ok]]) auto
  have tried: "safe_act rev_of good m P (mcatch (settle_from_journal (exec_bound m) m op gen why None) (\<lambda>_. store_read m op)) (\<lambda>_ _. True)"
    for P op gen why
    by (rule safe_any [OF safe_catch [OF safe_settle_from_journal [OF ok safe_execute [OF ok]] read]]) simp
  have settle: "safe_act rev_of good m P (recover_settle m r) (\<lambda>_ _. True)" for P r
    unfolding recover_settle_def [abs_def] by (rule safe_test [OF safe_ret tried]) simp
  have owned: "safe_act rev_of good m (\<lambda>w. bound_at m w (operation_id (bound r)) = Some (bound r)) (recover_owned m r) (\<lambda>_ _. True)" for r
    unfolding recover_owned_def
  proof (rule safe_bind)
    show "safe_act rev_of good m (\<lambda>w. bound_at m w (operation_id (bound r)) = Some (bound r)) (mlift (binding_check m r))
        (\<lambda>_ w. bound_at m w (operation_id (bound r)) = Some (bound r))"
      by (rule safe_lift)
    fix failed
    show "safe_act rev_of good m (\<lambda>w. bound_at m w (operation_id (bound r)) = Some (bound r)) (case failed of
         Some what \<Rightarrow> move m (operation_id (bound r)) (generation r) OUTCOME_UNKNOWN JNull JNull
                        (escalation what (JStr ''recover-binding-check'')) (JStr what)
       | None \<Rightarrow>
           if is_cancel_fenced r
           then settle_cancellation m (operation_id (bound r)) (generation r) (JStr ''recover-cancel-fenced'') None
           else recover_settle m r) (\<lambda>_ _. True)"
      using settle safe_cancelled [OF ok] by (cases failed) (auto intro!: safe_unknown [OF ok])
  qed
  have taken: "safe_act rev_of good m (\<lambda>w. \<forall>x. t = Some x \<longrightarrow> took_over x \<longrightarrow>
        bound_at m w op = Some (bound (takeover_record x)) \<and> operation_id (bound (takeover_record x)) = op)
      (recover_taken m op t) (\<lambda>_ _. True)" for t op
    unfolding recover_taken_def
    using read by (cases t) (auto intro!: safe_if safe_ret safe_weaken [OF owned])
  have one: "safe_act rev_of good m P (recover_one m r) (\<lambda>_ _. True)" for P r
  proof -
    have attempt: "safe_act rev_of good m (\<lambda>_. True)
        (mcatch (mbind (store_takeover m op) (\<lambda>t. mret (Some t))) (\<lambda>_. mret None))
        (\<lambda>t w. \<forall>x. t = Some x \<longrightarrow> took_over x \<longrightarrow>
          bound_at m w op = Some (bound (takeover_record x)) \<and> operation_id (bound (takeover_record x)) = op)" for op
      by (rule safe_catch [OF safe_bind [OF safe_takeover [OF ok] safe_ret] safe_ret]) auto
    show ?thesis
      unfolding recover_one_def by (intro safe_if safe_ret safe_any [OF safe_bind [OF attempt taken]]) simp
  qed
  have all: "safe_act rev_of good m P (recover_all m rs acc) (\<lambda>_ _. True)" for P rs acc
  proof (induction rs arbitrary: acc P)
    case Nil
    then show ?case by (simp add: safe_ret)
  next
    case (Cons r rs)
    then show ?case by (simp add: safe_bind [OF one])
  qed
  show ?thesis unfolding recover_def by (rule safe_bind [OF safe_list [OF ok] all])
qed

end

end
