(* ===== verification/Detached_Store_Props.thy ===== *)
theory Detached_Store_Props
  imports Detached_Store
begin

section \<open>Detached operations: what the durable store promises\<close>

text \<open>
  The properties of the session migration, of the binding digest and of the detached-operation
  store over the in-memory session store (\<open>createInMemoryDetachedOperationStore\<close>).  Other
  writers act through an arbitrary \<open>env\<close> that respects the revision check.
\<close>

subsection \<open>Shared facts\<close>

text \<open>A record held at \<open>st\<close> is found again, evolved, after any steps of the store.\<close>

lemma store_step_record:
  assumes "store_step ops rev_of good scope st st'" "map_of (operations (stored_memory ops scope st)) op = Some r"
  shows "\<exists>r'. map_of (operations (stored_memory ops scope st')) op = Some r' \<and> record_evolves r r'"
  using assms by (auto simp: store_step_def evolves_def)

lemma record_evolvesD:
  "record_evolves r r' \<Longrightarrow> bound r' = bound r \<and> generation r \<le> generation r'"
  by (simp add: record_evolves_def)

text \<open>\<open>decodeURIComponent\<close> on the same characters: scope ids can be read back from document ids.\<close>

definition hex_value :: "char \<Rightarrow> nat" where
  "hex_value c = (let n = (of_char c :: nat) in if n < 65 then n - 48 else n - 55)"

fun decode_uri_component :: "string \<Rightarrow> string" where
  "decode_uri_component [] = []"
| "decode_uri_component (c # cs) =
     (if c \<noteq> CHR ''%'' then c # decode_uri_component cs
      else case cs of
        h # l # rest \<Rightarrow>
          (let n = 16 * hex_value h + hex_value l in
           if n < 128 then char_of n # decode_uri_component rest
           else case rest of
             p # h' # l' # rest' \<Rightarrow>
               char_of ((n - 192) * 64 + (16 * hex_value h' + hex_value l' - 128)) # decode_uri_component rest'
           | _ \<Rightarrow> [])
      | _ \<Rightarrow> [])"

declare decode_uri_component.simps(2) [simp del]

lemma hex_value_upper_hex: "n < 16 \<Longrightarrow> hex_value (upper_hex n) = n"
  by (auto simp: hex_value_def upper_hex_def Let_def of_char_of)

lemma percent_value: "n < 256 \<Longrightarrow> 16 * hex_value (upper_hex (n div 16)) + hex_value (upper_hex (n mod 16)) = n"
  by (simp add: hex_value_upper_hex)

lemma decode_plain: "c \<noteq> CHR ''%'' \<Longrightarrow> decode_uri_component (c # cs) = c # decode_uri_component cs"
  by (simp add: decode_uri_component.simps(2))

lemma decode_percent: "n < 128 \<Longrightarrow> decode_uri_component (percent n @ cs) = char_of n # decode_uri_component cs"
  by (simp add: decode_uri_component.simps(2) percent_def percent_value Let_def)

lemma decode_percent_pair:
  "128 \<le> n \<Longrightarrow> n < 256 \<Longrightarrow> m < 256 \<Longrightarrow> decode_uri_component (percent n @ percent m @ cs) =
     char_of ((n - 192) * 64 + (m - 128)) # decode_uri_component cs"
  by (simp add: decode_uri_component.simps(2) percent_def percent_value Let_def)

lemma decode_encode: "decode_uri_component (encode_uri_component s) = s"
proof (induction s)
  case (Cons c s)
  define n where "n = (of_char c :: nat)"
  have n: "n < 256" "char_of n = c" by (simp_all add: n_def)
  have enc: "encode_uri_component (c # s) = 
      (if uri_unreserved c then [c] else if n < 128 then percent n
       else percent (192 + n div 64) @ percent (128 + n mod 64)) @ encode_uri_component s"
    by (simp add: encode_uri_component_def n_def Let_def)
  consider "uri_unreserved c" | "\<not> uri_unreserved c" "n < 128" | "\<not> uri_unreserved c" "128 \<le> n" by linarith
  then show ?case
  proof cases
    case 1
    then have "c \<noteq> CHR ''%''" by (auto simp: uri_unreserved_def)
    with 1 Cons enc show ?thesis by (simp add: decode_plain)
  next
    case 2
    with Cons enc n show ?thesis by (simp add: decode_percent)
  next
    case 3
    have "n div 64 < 4" "64 * (n div 64) + n mod 64 = n" using n by auto
    with 3 Cons enc n decode_percent_pair [of "192 + n div 64" "128 + n mod 64" "encode_uri_component s"]
    show ?thesis by (simp add: mult.commute)
  qed
qed (simp add: encode_uri_component_def)

subsection \<open>Concrete inputs for the witnesses\<close>

definition demo_binding :: json where
  "demo_binding = JObj [(''operationId'', JStr ''op''), (''capability'', JStr ''deploy''), (''inputDigest'', JStr ''d''),
     (''effectOperationId'', JStr ''e''), (''replayPolicy'', JStr ''IDEMPOTENT'')]"

definition demo_clock :: "nat \<Rightarrow> clock" where
  "demo_clock _ _ = ''t''"

definition demo_quiet :: "nat \<Rightarrow> manager_memory sessions \<Rightarrow> manager_memory sessions" where
  "demo_quiet _ st = st"

definition demo_created :: "manager_memory sessions \<times> create_result res" where
  "demo_created = create in_memory_store ''scope'' demo_clock demo_quiet demo_binding []"

definition demo_request :: "int \<Rightarrow> transition_request" where
  "demo_request g = \<lparr>to_status = ''SUCCEEDED'', req_generation = g, req_result = JNum 7, req_error = JNull,
     req_evidence = JNull, req_reason = JNull\<rparr>"

definition demo_taken :: "manager_memory sessions \<times> takeover_result res" where
  "demo_taken = takeover in_memory_store ''scope'' demo_clock demo_quiet ''op'' (fst demo_created)"

lemma demo_quiet_ok: "environment_ok in_memory_store stored_revision mem_good scope demo_quiet"
  using environment_quiet [of in_memory_store stored_revision mem_good scope]
  by (simp add: demo_quiet_def [abs_def])


lemma mem_step_refl: "mem_good st \<Longrightarrow> store_step in_memory_store stored_revision mem_good scope st st"
  by (rule store_step_refl)

lemma run_ok: "isl (snd x) = False \<Longrightarrow> x = (fst x, Inr (projr (snd x)))"
  by (cases x; cases "snd x") auto

lemma demo_created_ok:
  shows "isl (snd demo_created) = False"
    "attached (projr (snd demo_created)) = False"
    "operation_id (bound (created_record (projr (snd demo_created)))) = ''op''"
proof -
  show "isl (snd demo_created) = False" by code_simp
  show "attached (projr (snd demo_created)) = False" by code_simp
  show "operation_id (bound (created_record (projr (snd demo_created)))) = ''op''" by code_simp
qed

lemma demo_created_run:
  "create in_memory_store ''scope'' demo_clock demo_quiet demo_binding [] = (fst demo_created, Inr (projr (snd demo_created)))"
  unfolding demo_created_def [symmetric]
  by (rule run_ok [OF demo_created_ok(1)])

lemma demo_taken_ok:
  shows "isl (snd demo_taken) = False"
    "took_over (projr (snd demo_taken))"
    "generation (takeover_record (projr (snd demo_taken))) = 2"
proof -
  show "isl (snd demo_taken) = False" by code_simp
  show "took_over (projr (snd demo_taken))" by code_simp
  show "generation (takeover_record (projr (snd demo_taken))) = 2" by code_simp
qed

lemma demo_taken_run:
  "takeover in_memory_store ''scope'' demo_clock demo_quiet ''op'' (fst demo_created) = (fst demo_taken, Inr (projr (snd demo_taken)))"
  unfolding demo_taken_def [symmetric] by (rule run_ok [OF demo_taken_ok(1)])

lemma demo_good: "mem_good (fst demo_created)" "mem_good (fst demo_taken)"
proof -
  show one: "mem_good (fst demo_created)"
    by (rule store_stepD [OF detached_mem.operation_steps(1) [OF demo_quiet_ok mem_good_empty demo_created_run], THEN conjunct1])
  show "mem_good (fst demo_taken)"
    by (rule store_stepD [OF detached_mem.operation_steps(3) [OF demo_quiet_ok one demo_taken_run], THEN conjunct1])
qed

subsection \<open>The properties\<close>

text \<open>Two scopes share a document only when they are the same scope.\<close>

theorem scopes_have_their_own_document: "document_id_for a = document_id_for b \<longleftrightarrow> a = b"
proof
  assume "document_id_for a = document_id_for b"
  then have "decode_uri_component (encode_uri_component a) = decode_uri_component (encode_uri_component b)"
    by (simp add: document_id_for_def)
  then show "a = b" by (simp add: decode_encode)
qed simp

text \<open>A load through the validating store migrates to the current schema, fills the standard lists and
  keeps the identity, the revision and the content.\<close>

theorem validated_load_returns_current_schema:
  assumes "mem_good st" "map_of st i = Some d"
  shows "\<exists>n. op_load validated_memory st i = Inr (Some n) \<and> schema_version n = Some current_schema_version \<and>
    sid n = i \<and> revision n = revision d \<and> memory n = memory d \<and>
    list_all (\<lambda>k. map_of (memory_lists n) k \<noteq> None) standard_lists"
proof -
  have d: "normalize_state d = Inr d" "sid d = i"
    using mem_good_lookup [OF assms] by auto
  from migrate_built_in [OF d(1)] obtain m where m: "migrate built_in_migrations current_schema_version d = Inr m"
    "sid m = sid d" "revision m = revision d" "memory m = memory d" "schema_version m = Some current_schema_version" .
  then obtain n where n: "normalize_state m = Inr n"
    using normalize_state_Inr [OF d(1)] by (auto simp: normalize_state_def require_version_def current_schema_version_def)
  have load: "op_load validated_memory st i = Inr (Some n)"
    using m n assms(2) by (simp add: validated_store_def validated_load_def in_memory_store_def mem_load_def)
  have "list_all (\<lambda>k. map_of (memory_lists n) k \<noteq> None) standard_lists"
    using normalize_state_lists [OF n] by (auto simp: list_all_iff)
  moreover have "schema_version n = Some current_schema_version" "sid n = i" "revision n = revision d" "memory n = memory d"
    using normalize_state_Inr [OF n] normalize_state_Inr [OF d(1)] m d(2) by auto
  ultimately show ?thesis using load by blast
qed

definition demo_old_session :: "unit session" where
  "demo_old_session = \<lparr>sid = ''s'', schema_version = Some 1, revision = Some 4, work = None,
     memory_lists = fill_lists standard_lists [], memory = (), trajectory = Some [],
     supervision = Some default_supervision, created_at = ''t'', updated_at = ''t''\<rparr>"

theorem validated_load_returns_current_schema_witness:
  "\<exists>n. op_load validated_memory [(''s'', demo_old_session)] ''s'' = Inr (Some n) \<and> schema_version n = Some 2"
proof -
  have "map_of (fill_lists standard_lists []) k \<noteq> None" if "k \<in> set standard_lists" for k
    using that by (simp add: map_of_fill_lists)
  then have "normalize_state demo_old_session = Inr demo_old_session"
    by (simp add: demo_old_session_def normalize_state_def require_version_def current_schema_version_def fill_lists_fixed)
  then have "mem_good [(''s'', demo_old_session)]"
    by (simp add: mem_good_def) (simp add: demo_old_session_def)
  from validated_load_returns_current_schema [OF this, of "''s''" demo_old_session] show ?thesis
    by (auto simp: current_schema_version_def)
qed

text \<open>\<open>assertBindingMatches\<close> accepts exactly when every bound field has the same canonical value.\<close>

theorem binding_matches_iff:
  "assert_binding_matches stored b = Inr () \<longleftrightarrow>
     list_all (\<lambda>f. canon (binding_field f b) = canon (binding_field f stored)) bound_fields"
  by (auto simp: assert_binding_matches_def binding_mismatch_fields_def Let_def filter_empty_conv
      list_all_iff stable_stringify_eq_iff)

text \<open>C26: An applied transition takes effect at one moment, whatever other writers do meanwhile: on the record
  the store holds then, at exactly the requested generation, by an allowed step, appending one envelope.\<close>

theorem transition_takes_effect_atomically:
  assumes "environment_ok in_memory_store stored_revision mem_good scope env" "mem_good st"
    "transition in_memory_store scope clk env op q st = (st', Inr (Applied r' e))"
  shows "\<exists>stc r. store_step in_memory_store stored_revision mem_good scope st stc \<and>
    map_of (operations (stored_memory in_memory_store scope stc)) op = Some r \<and>
    \<not> is_terminal (status r) \<and> generation r = req_generation q \<and>
    parse_status (to_status q) = Some (status r') \<and> status r' \<in> set (allowed_transitions (status r)) \<and>
    map_of (operations (stored_memory in_memory_store scope st')) op = Some r' \<and>
    generation r' = generation r \<and> bound r' = bound r \<and>
    transitions (stored_memory in_memory_store scope st') = transitions (stored_memory in_memory_store scope stc) @ [e] \<and>
    env_operation_id e = operation_id (bound r) \<and> env_status e = status r' \<and>
    env_generation e = req_generation q \<and> env_result e = req_result q"
  by (rule detached_mem.transition_applied [OF assms])

definition demo_applied :: "manager_memory sessions \<times> transition_result res" where
  "demo_applied = transition in_memory_store ''scope'' demo_clock demo_quiet ''op'' (demo_request 1) (fst demo_created)"

fun was_applied :: "transition_result \<Rightarrow> bool" where
  "was_applied (Applied _ _) = True"
| "was_applied (Refused _ _) = False"

theorem transition_takes_effect_atomically_witness:
  "\<exists>r' e stc r. snd demo_applied = Inr (Applied r' e) \<and> generation r = 1 \<and>
     map_of (operations (stored_memory in_memory_store ''scope'' stc)) ''op'' = Some r \<and>
     transitions (stored_memory in_memory_store ''scope'' (fst demo_applied)) =
       transitions (stored_memory in_memory_store ''scope'' stc) @ [e]"
proof -
  have "isl (snd demo_applied) = False" by code_simp
  note run = run_ok [OF this]
  have "was_applied (projr (snd demo_applied))" by code_simp
  with run obtain r' e where r: "demo_applied = (fst demo_applied, Inr (Applied r' e))"
    by (cases "projr (snd demo_applied)") auto
  then have run: "transition in_memory_store ''scope'' demo_clock demo_quiet ''op'' (demo_request 1) (fst demo_created)
      = (fst demo_applied, Inr (Applied r' e))"
    unfolding demo_applied_def [symmetric] .
  have r: "snd demo_applied = Inr (Applied r' e)" using r by (metis snd_conv)
  from transition_takes_effect_atomically [OF demo_quiet_ok demo_good(1) run] r show ?thesis
    by (fastforce simp: demo_request_def)
qed

text \<open>C27: After a won takeover no transition requested at an older generation is ever applied.\<close>

theorem takeover_fences_older_generations:
  assumes "environment_ok in_memory_store stored_revision mem_good scope env" "mem_good st"
    "takeover in_memory_store scope clk env op st = (st1, Inr t)" "took_over t"
    "store_step in_memory_store stored_revision mem_good scope st1 st2"
    "req_generation q < generation (takeover_record t)"
  shows "snd (transition in_memory_store scope clk env op q st2) \<noteq> Inr (Applied r' e)"
proof
  assume applied: "snd (transition in_memory_store scope clk env op q st2) = Inr (Applied r' e)"
  have good2: "mem_good st2" using store_stepD [OF assms(5)] by simp
  obtain stc r where step: "store_step in_memory_store stored_revision mem_good scope st2 stc"
    and r: "map_of (operations (stored_memory in_memory_store scope stc)) op = Some r" "generation r = req_generation q"
    using detached_mem.transition_applied [OF assms(1) good2] applied by (metis surjective_pairing)
  have "map_of (operations (stored_memory in_memory_store scope st1)) op = Some (takeover_record t)"
    using detached_mem.takeover_won [OF assms(1-4)] by blast
  from store_step_record [OF store_step_trans [OF assms(5) step] this] r
  have "generation (takeover_record t) \<le> generation r" by (auto dest: record_evolvesD)
  with r(2) assms(6) show False by simp
qed

theorem takeover_fences_older_generations_witness:
  "\<forall>r' e. snd (transition in_memory_store ''scope'' demo_clock demo_quiet ''op'' (demo_request 1) (fst demo_taken)) \<noteq> Inr (Applied r' e)"
  by (intro allI, rule takeover_fences_older_generations [OF demo_quiet_ok demo_good(1) demo_taken_run])
    (use demo_taken_ok demo_good mem_step_refl in \<open>simp_all add: demo_request_def\<close>)

text \<open>Two takeovers that both win hold different, rising generations.\<close>

theorem takeover_winners_have_rising_generations:
  assumes "environment_ok in_memory_store stored_revision mem_good scope env" "mem_good st"
    "takeover in_memory_store scope clk env op st = (st1, Inr t)" "took_over t"
    "store_step in_memory_store stored_revision mem_good scope st1 st2"
    "takeover in_memory_store scope clk' env op st2 = (st3, Inr t')" "took_over t'"
  shows "generation (takeover_record t) < generation (takeover_record t')"
proof -
  have good2: "mem_good st2" using store_stepD [OF assms(5)] by simp
  obtain stc r where step: "store_step in_memory_store stored_revision mem_good scope st2 stc"
    and r: "map_of (operations (stored_memory in_memory_store scope stc)) op = Some r"
      "generation (takeover_record t') = generation r + 1"
    using detached_mem.takeover_won [OF assms(1) good2 assms(6,7)] by blast
  have "map_of (operations (stored_memory in_memory_store scope st1)) op = Some (takeover_record t)"
    using detached_mem.takeover_won [OF assms(1-4)] by blast
  from store_step_record [OF store_step_trans [OF assms(5) step] this] r show ?thesis
    by (auto dest: record_evolvesD)
qed

definition demo_taken_again :: "manager_memory sessions \<times> takeover_result res" where
  "demo_taken_again = takeover in_memory_store ''scope'' demo_clock demo_quiet ''op'' (fst demo_taken)"

theorem takeover_winners_have_rising_generations_witness:
  "generation (takeover_record (projr (snd demo_taken))) < generation (takeover_record (projr (snd demo_taken_again)))"
proof (rule takeover_winners_have_rising_generations [OF demo_quiet_ok demo_good(1) demo_taken_run])
  have ok: "isl (snd demo_taken_again) = False" by code_simp
  show "takeover in_memory_store ''scope'' demo_clock demo_quiet ''op'' (fst demo_taken)
      = (fst demo_taken_again, Inr (projr (snd demo_taken_again)))"
    unfolding demo_taken_again_def [symmetric] by (rule run_ok [OF ok])
  show "took_over (projr (snd demo_taken_again))" by code_simp
  show "store_step in_memory_store stored_revision mem_good ''scope'' (fst demo_taken) (fst demo_taken)"
    by (rule mem_step_refl [OF demo_good(2)])
qed (use demo_taken_ok in simp)

text \<open>An operation id is created once: every later create of that id attaches.\<close>

theorem operation_is_created_once:
  assumes "environment_ok in_memory_store stored_revision mem_good scope env" "mem_good st"
    "create in_memory_store scope clk env raw st = (st1, Inr c)" "\<not> attached c"
    "store_step in_memory_store stored_revision mem_good scope st1 st2"
    "create in_memory_store scope clk' env raw' st2 = (st3, Inr c')"
    "operation_id (bound (created_record c')) = operation_id (bound (created_record c))"
  shows "attached c'"
proof (rule ccontr)
  assume "\<not> attached c'"
  have good2: "mem_good st2" using store_stepD [OF assms(5)] by simp
  obtain stc where step: "store_step in_memory_store stored_revision mem_good scope st2 stc"
    and none: "map_of (operations (stored_memory in_memory_store scope stc)) (operation_id (bound (created_record c'))) = None"
    using detached_mem.create_new [OF assms(1) good2 assms(6) \<open>\<not> attached c'\<close>] by blast
  have "map_of (operations (stored_memory in_memory_store scope st1)) (operation_id (bound (created_record c))) = Some (created_record c)"
    using detached_mem.create_new [OF assms(1-4)] by auto
  from store_step_record [OF store_step_trans [OF assms(5) step] this] none assms(7) show False by auto
qed

definition demo_created_again :: "manager_memory sessions \<times> create_result res" where
  "demo_created_again = create in_memory_store ''scope'' demo_clock demo_quiet demo_binding (fst demo_created)"

theorem operation_is_created_once_witness: "attached (projr (snd demo_created_again))"
proof (rule operation_is_created_once [OF demo_quiet_ok mem_good_empty demo_created_run])
  show "\<not> attached (projr (snd demo_created))" using demo_created_ok by simp
  have ok: "isl (snd demo_created_again) = False" by code_simp
  have op: "operation_id (bound (created_record (projr (snd demo_created_again)))) = ''op''" by code_simp
  show "create in_memory_store ''scope'' demo_clock demo_quiet demo_binding (fst demo_created)
      = (fst demo_created_again, Inr (projr (snd demo_created_again)))"
    unfolding demo_created_again_def [symmetric] by (rule run_ok [OF ok])
  show "operation_id (bound (created_record (projr (snd demo_created_again)))) =
      operation_id (bound (created_record (projr (snd demo_created))))"
    using op demo_created_ok by simp
  show "store_step in_memory_store stored_revision mem_good ''scope'' (fst demo_created) (fst demo_created)"
    by (rule mem_step_refl [OF demo_good(1)])
qed

text \<open>C33: Every operation keeps the document sound and lets it only evolve: an append-only log that agrees
  with the records, frozen terminal records, stable bindings.\<close>

theorem operations_keep_document_sound:
  assumes "environment_ok in_memory_store stored_revision mem_good scope env" "mem_good st"
    "memory_ok scope (stored_memory in_memory_store scope st)"
    "st' \<in> {fst (create in_memory_store scope clk env raw st), fst (transition in_memory_store scope clk env op q st),
       fst (takeover in_memory_store scope clk env op st), fst (note_diagnostic in_memory_store scope clk env op note st)}"
  shows "memory_ok scope (stored_memory in_memory_store scope st') \<and>
    evolves (stored_memory in_memory_store scope st) (stored_memory in_memory_store scope st')"
proof -
  note steps = detached_mem.operation_steps [OF assms(1,2) surjective_pairing]
  have "store_step in_memory_store stored_revision mem_good scope st st'"
    using assms(4) steps by auto
  with assms(3) show ?thesis by (simp add: store_step_def)
qed

theorem operations_keep_document_sound_witness:
  "memory_ok ''scope'' (stored_memory in_memory_store ''scope'' (fst demo_created)) \<and>
    evolves (stored_memory in_memory_store ''scope'' []) (stored_memory in_memory_store ''scope'' (fst demo_created))"
  by (rule operations_keep_document_sound [OF demo_quiet_ok mem_good_empty,
        where clk = demo_clock and raw = demo_binding])
    (auto simp: stored_memory_def in_memory_store_def mem_load_def memory_ok_def demo_created_def)

text \<open>\<open>transitions({afterSequence})\<close> returns exactly the part of the log after that sequence, in order.\<close>

theorem transitions_lists_the_log_after:
  assumes "memory_ok scope (stored_memory ops scope st)" "op_load ops st (document_id_for scope) = Inr (Some d)" "0 \<le> after"
  shows "list_transitions ops scope after st =
    Inr (filter (\<lambda>e. after < env_sequence e) (transitions (stored_memory ops scope st)))"
proof -
  let ?log = "transitions (stored_memory ops scope st)"
  have "sorted_wrt (<) (map env_sequence ?log)" using assms(1) by (simp add: memory_ok_def)
  then have "sorted (map env_sequence (filter (\<lambda>e. after < env_sequence e) ?log))"
    by (intro sorted_wrt_mono_rel [of _ "(<)" "(\<le>)"]) (auto simp: sorted_wrt_map sorted_wrt_filter)
  then show ?thesis
    using assms(2,3) by (simp add: list_transitions_def load_document_def stored_memory_def sort_key_id_if_sorted invariant_def)
qed

theorem transitions_lists_the_log_after_witness:
  "\<exists>d. op_load in_memory_store (fst demo_created) (document_id_for ''scope'') = Inr (Some d) \<and>
     list_transitions in_memory_store ''scope'' 0 (fst demo_created) =
       Inr (filter (\<lambda>e. 0 < env_sequence e) (transitions (stored_memory in_memory_store ''scope'' (fst demo_created))))"
proof -
  have ok: "memory_ok ''scope'' (stored_memory in_memory_store ''scope'' (fst demo_created))"
  proof -
    have "memory_ok ''scope'' (stored_memory in_memory_store ''scope'' [])"
      by (simp add: stored_memory_def in_memory_store_def mem_load_def memory_ok_def)
    then show ?thesis
      using store_stepD [OF detached_mem.operation_steps(1) [OF demo_quiet_ok mem_good_empty demo_created_run]] by simp
  qed
  have "(case op_load in_memory_store (fst demo_created) (document_id_for ''scope'') of Inr (Some d) \<Rightarrow> True | _ \<Rightarrow> False) = True"
    by code_simp
  then obtain d where d: "op_load in_memory_store (fst demo_created) (document_id_for ''scope'') = Inr (Some d)"
    by (auto split: sum.splits option.splits)
  from transitions_lists_the_log_after [OF ok d, of 0] d show ?thesis by simp
qed

end
