(* ===== verification/Detached_Manager_Props.thy ===== *)
theory Detached_Manager_Props
  imports Detached_Manager_Safety Detached_Store_Props
begin

section \<open>Detached operations: what the manager promises\<close>

text \<open>
  The execution bound, the flows that never launch, and the properties of any sequence of
  background runs, cancellations and recoveries of one manager over the in-memory session store.
\<close>

subsection \<open>The depth of the recursion is enough\<close>

text \<open>Acts never lower the number of executions; two acts agree from a number of executions on.\<close>

definition counts_up :: "('s, 'a) act \<Rightarrow> bool" where
  "counts_up a \<longleftrightarrow> (\<forall>w op gen. executions_of w op gen \<le> executions_of (fst (a w)) op gen)"

definition agree_from :: "nat \<Rightarrow> string \<Rightarrow> int \<Rightarrow> ('s, 'a) act \<Rightarrow> ('s, 'a) act \<Rightarrow> bool" where
  "agree_from n op gen a b \<longleftrightarrow> (\<forall>w. n \<le> executions_of w op gen \<longrightarrow> a w = b w)"

lemma agree_refl [simp]: "agree_from n op gen a a"
  by (simp add: agree_from_def)

lemma agree_bind:
  assumes "counts_up a" "\<And>v. agree_from n op gen (f v) (g v)"
  shows "agree_from n op gen (mbind a f) (mbind a g)"
  unfolding agree_from_def
proof (intro allI impI)
  fix w :: "'a manager_world"
  assume n: "n \<le> executions_of w op gen"
  obtain w1 r where a: "a w = (w1, r)" by (cases "a w")
  have "n \<le> executions_of w1 op gen" using assms(1) n a by (metis counts_up_def fst_conv order_trans)
  with assms(2) a show "mbind a f w = mbind a g w"
    by (auto simp: mbind_def agree_from_def split: sum.splits)
qed

lemma agree_catch:
  assumes "counts_up a" "\<And>e. agree_from n op gen (f e) (g e)"
  shows "agree_from n op gen (mcatch a f) (mcatch a g)"
  unfolding agree_from_def
proof (intro allI impI)
  fix w :: "'a manager_world"
  assume n: "n \<le> executions_of w op gen"
  obtain w1 r where a: "a w = (w1, r)" by (cases "a w")
  have "n \<le> executions_of w1 op gen" using assms(1) n a by (metis counts_up_def fst_conv order_trans)
  with assms(2) a show "mcatch a f w = mcatch a g w"
    by (auto simp: mcatch_def agree_from_def split: sum.splits)
qed

lemma agree_if: "agree_from n op gen a a' \<Longrightarrow> agree_from n op gen b b' \<Longrightarrow>
    agree_from n op gen (if c then a else b) (if c then a' else b')"
  by simp

lemma counts_upD: "counts_up a \<Longrightarrow> a w = (w', r) \<Longrightarrow> executions_of w op gen \<le> executions_of w' op gen"
  by (metis counts_up_def fst_conv)

lemma counts_up_bind:
  assumes "counts_up a" "\<And>v. counts_up (f v)"
  shows "counts_up (mbind a f)"
  unfolding counts_up_def
proof (intro allI)
  fix w :: "'a manager_world" and op gen
  obtain w1 r where a: "a w = (w1, r)" by (cases "a w")
  note one = counts_upD [OF assms(1) a, of op gen]
  show "executions_of w op gen \<le> executions_of (fst (mbind a f w)) op gen"
  proof (cases r)
    case (Inl e)
    with a one show ?thesis by (simp add: mbind_def)
  next
    case (Inr v)
    have "executions_of w1 op gen \<le> executions_of (fst (f v w1)) op gen"
      using assms(2) by (simp add: counts_up_def)
    with Inr a one show ?thesis by (simp add: mbind_def)
  qed
qed

lemma counts_up_catch:
  assumes "counts_up a" "\<And>e. counts_up (f e)"
  shows "counts_up (mcatch a f)"
  unfolding counts_up_def
proof (intro allI)
  fix w :: "'a manager_world" and op gen
  obtain w1 r where a: "a w = (w1, r)" by (cases "a w")
  note one = counts_upD [OF assms(1) a, of op gen]
  show "executions_of w op gen \<le> executions_of (fst (mcatch a f w)) op gen"
  proof (cases r)
    case (Inr v)
    with a one show ?thesis by (simp add: mcatch_def)
  next
    case (Inl e)
    have "executions_of w1 op gen \<le> executions_of (fst (f e w1)) op gen"
      using assms(2) by (simp add: counts_up_def)
    with Inl a one show ?thesis by (simp add: mcatch_def)
  qed
qed

lemma executions_same: "w_counts w' = w_counts w \<Longrightarrow> executions_of w' op gen = executions_of w op gen"
  by (simp add: executions_of_def)

lemma counts_kept: "(\<And>w. w_counts (fst (a w)) = w_counts w) \<Longrightarrow> counts_up a"
  by (simp add: counts_up_def executions_of_def)

lemma counts_up_acts [simp]:
  "counts_up (mret v)" "counts_up (store_read m op)" "counts_up (store_note m op nt)"
  "counts_up (apply_transition m op gen to result err ev why)"
  "counts_up (effect_operation_state m b eop)" "counts_up (ask_observer m bd eop j)"
  "counts_up (reconcile_binding m bd jn eop)" "counts_up (launch m op gen r bd)"
proof -
  show "counts_up (mret v)" by (rule counts_kept) (simp add: mret_def)
  show "counts_up (store_read m op)" by (rule counts_kept) (simp add: store_read_def Let_def wait_def)
  show "counts_up (store_note m op nt)"
    by (rule counts_kept) (simp add: store_note_def wait_def split: prod.splits)
  show "counts_up (apply_transition m op gen to result err ev why)"
    by (rule counts_kept)
      (auto simp: apply_transition_def Let_def wait_def note_event_def split: prod.splits sum.splits transition_result.splits)
  show "counts_up (effect_operation_state m b eop)"
    by (rule counts_kept) (auto simp: effect_operation_state_def Let_def wait_def note_event_def split: option.splits)
  show "counts_up (ask_observer m bd eop j)"
    by (rule counts_kept)
      (auto simp: ask_observer_def Let_def wait_def note_event_def split: option.splits observe_answer.splits)
  show "counts_up (reconcile_binding m bd jn eop)"
    by (rule counts_kept) (auto simp: reconcile_binding_def Let_def wait_def note_event_def split: prod.splits sum.splits)
  show "counts_up (launch m op gen r bd)"
    by (rule counts_kept) (auto simp: launch_def Let_def wait_def note_event_def split: prod.splits option.splits)
qed

lemma agree_current:
  "(\<And>r. agree_from n op gen (f r) (g r)) \<Longrightarrow> agree_from n op gen (with_current m op gen nt f) (with_current m op gen nt g)"
  unfolding with_current_def
proof (rule agree_bind)
  assume fg: "\<And>r. agree_from n op gen (f r) (g r)"
  fix found
  show "agree_from n op gen
      (case found of None \<Rightarrow> mret None | Some r \<Rightarrow>
         if generation r \<noteq> gen then mbind (store_note m op (nt r)) (\<lambda>_. mret (Some r))
         else if is_terminal (status r) then mret (Some r) else f r)
      (case found of None \<Rightarrow> mret None | Some r \<Rightarrow>
         if generation r \<noteq> gen then mbind (store_note m op (nt r)) (\<lambda>_. mret (Some r))
         else if is_terminal (status r) then mret (Some r) else g r)"
    using fg by (cases found) simp_all
qed simp

text \<open>The settling routines use the execution they call back only at the operation and generation they settle.\<close>

definition agree_exec ::
  "nat \<Rightarrow> string \<Rightarrow> int \<Rightarrow> (string \<Rightarrow> int \<Rightarrow> op_record \<Rightarrow> effect_binding \<Rightarrow> ('s, op_record option) act) \<Rightarrow>
     (string \<Rightarrow> int \<Rightarrow> op_record \<Rightarrow> effect_binding \<Rightarrow> ('s, op_record option) act) \<Rightarrow> bool" where
  "agree_exec n op gen e e' \<longleftrightarrow> (\<forall>r b. agree_from n op gen (e op gen r b) (e' op gen r b))"

lemma agree_settle_found:
  assumes e: "agree_exec n op gen e e'"
  shows "agree_from n op gen (settle_found e m op gen why err r b jn found) (settle_found e' m op gen why err r b jn found)"
proof -
  have run: "agree_from n op gen (e op gen r b) (e' op gen r b)" for r b
    using e by (simp add: agree_exec_def)
  have rec: "agree_from n op gen (settle_reconciled e m op gen why err b x) (settle_reconciled e' m op gen why err b x)" for x
  proof (cases "recovery_action x")
    case RETRY
    have "agree_from n op gen
        (mbind (store_read m op) (\<lambda>fenced. case fenced of None \<Rightarrow> a | Some f \<Rightarrow> if c f then a else e op gen f b))
        (mbind (store_read m op) (\<lambda>fenced. case fenced of None \<Rightarrow> a | Some f \<Rightarrow> if c f then a else e' op gen f b))" for a c
    proof (rule agree_bind)
      fix fenced
      show "agree_from n op gen (case fenced of None \<Rightarrow> a | Some f \<Rightarrow> if c f then a else e op gen f b)
          (case fenced of None \<Rightarrow> a | Some f \<Rightarrow> if c f then a else e' op gen f b)"
        using run by (cases fenced) simp_all
    qed simp
    then show ?thesis by (simp only: settle_reconciled_def RETRY recovery_action.case)
  qed (simp_all add: settle_reconciled_def)
  have ask: "counts_up (mcatch (mbind (reconcile_binding m b jn (effect_op r)) (\<lambda>x. mret (Inr x))) (\<lambda>e. mret (Inl e)))"
    by (intro counts_up_catch counts_up_bind) simp_all
  show ?thesis
  proof (cases found)
    case None
    then show ?thesis using run [of r b] by (auto simp: settle_found_def agree_from_def)
  next
    case (Some j)
    then show ?thesis
      by (auto simp: settle_found_def intro!: agree_bind ask run rec split: sum.splits)
  qed
qed

lemma agree_settle_from_journal:
  "agree_exec n op gen e e' \<Longrightarrow>
     agree_from n op gen (settle_from_journal e m op gen why err) (settle_from_journal e' m op gen why err)"
  unfolding settle_from_journal_def
  by (rule agree_current) (auto intro!: agree_if agree_bind agree_settle_found split: option.splits)

lemma agree_settle_from_error:
  "agree_exec n op gen e e' \<Longrightarrow>
     agree_from n op gen (settle_from_error e m op gen x) (settle_from_error e' m op gen x)"
  unfolding settle_from_error_def
  by (rule agree_current) (auto simp: error_found_def intro!: agree_if agree_bind agree_settle_from_journal)

lemma counts_up_move [simp]: "counts_up (move m op gen to result err ev why)"
  by (simp add: move_def counts_up_bind)

lemma counts_up_if [simp]: "counts_up a \<Longrightarrow> counts_up b \<Longrightarrow> counts_up (if c then a else b)"
  by simp

lemma counts_up_current: "(\<And>r. counts_up (f r)) \<Longrightarrow> counts_up (with_current m op gen nt f)"
  unfolding with_current_def by (auto intro!: counts_up_bind split: option.splits)

lemma counts_up_cancel_dispatched [simp]: "counts_up (cancel_dispatched m op gen why err r b j)"
proof -
  have obs: "counts_up (observed_cancellation m op gen why err j x)" for x
    by (auto simp: observed_cancellation_def Let_def split: option.splits)
  have "counts_up (cancel_after_dispatch m op gen why err r b j)"
    by (auto simp: cancel_after_dispatch_def Let_def intro!: counts_up_bind obs)
  moreover have "counts_up (mret (Some r))" by simp
  ultimately show ?thesis by (simp add: counts_up_def cancel_dispatched_def mret_def)
qed

lemma counts_up_settle_cancellation [simp]: "counts_up (settle_cancellation m op gen why err)"
  unfolding settle_cancellation_def
  by (rule counts_up_current) (auto simp: cancel_current_def cancel_found_def intro!: counts_up_bind split: option.splits)

lemma counts_up_commit_success [simp]: "counts_up (commit_success m op gen)"
  unfolding commit_success_def
  by (rule counts_up_current) (auto simp: commit_found_def intro!: counts_up_bind)

lemma depth_enough:
  "0 < d \<Longrightarrow> 6 \<le> n + d \<Longrightarrow> agree_exec n op gen (execute_bound_attempt d m) (execute_bound_attempt (d + k) m)"
proof (induction d arbitrary: n)
  case 0
  then show ?case by simp
next
  case (Suc d)
  show ?case
    unfolding agree_exec_def agree_from_def
  proof (intro allI impI)
    fix r b and w :: "'a manager_world"
    assume n: "n \<le> executions_of w op gen"
    let ?w1 = "w\<lparr>w_counts := aset (count_key op gen) (executions_of w op gen + 1) (w_counts w)\<rparr>"
    show "execute_bound_attempt (Suc d) m op gen r b w = execute_bound_attempt (Suc d + k) m op gen r b w"
    proof (cases "executions_of w op gen < execution_limit")
      case False
      then show ?thesis by (simp add: execute_bound_attempt.simps Let_def)
    next
      case True
      with n have "n < 5" by (simp add: execution_limit_def)
      with Suc.prems have "0 < d" "6 \<le> Suc n + d" by auto
      from Suc.IH [OF this] have IH: "agree_exec (Suc n) op gen (execute_bound_attempt d m) (execute_bound_attempt (d + k) m)" .
      have "agree_from (Suc n) op gen
          (mcatch (mbind (launch m op gen r b) (\<lambda>_. commit_success m op gen))
            (\<lambda>e. case e of
               RecoveryRequired _ _ _ \<Rightarrow> settle_from_journal (execute_bound_attempt d m) m op gen (JStr ''recovery-required'') (Some e)
             | _ \<Rightarrow> settle_from_error (execute_bound_attempt d m) m op gen e))
          (mcatch (mbind (launch m op gen r b) (\<lambda>_. commit_success m op gen))
            (\<lambda>e. case e of
               RecoveryRequired _ _ _ \<Rightarrow> settle_from_journal (execute_bound_attempt (d + k) m) m op gen (JStr ''recovery-required'') (Some e)
             | _ \<Rightarrow> settle_from_error (execute_bound_attempt (d + k) m) m op gen e))"
        by (rule agree_catch [OF counts_up_bind])
          (auto intro: agree_settle_from_journal [OF IH] agree_settle_from_error [OF IH] split: error.splits)
      moreover have "Suc n \<le> executions_of ?w1 op gen" using n by (simp add: executions_of_def)
      ultimately show ?thesis
        using True by (simp add: execute_bound_attempt.simps Let_def agree_from_def)
    qed
  qed
qed

subsection \<open>Flows that never launch\<close>

definition launches_in :: "event list \<Rightarrow> event list" where
  "launches_in t = filter (\<lambda>x. case x of Launched _ _ \<Rightarrow> True | _ \<Rightarrow> False) t"

definition no_launch :: "('s, 'a) act \<Rightarrow> bool" where
  "no_launch a \<longleftrightarrow> (\<forall>w. launches_in (w_trace (fst (a w))) = launches_in (w_trace w))"

lemma no_launch_bind: "no_launch a \<Longrightarrow> (\<And>v. no_launch (f v)) \<Longrightarrow> no_launch (mbind a f)"
  by (auto simp: no_launch_def mbind_def split: prod.splits sum.splits) (metis fst_conv)+

lemma no_launch_acts [simp]:
  "no_launch (mret v)" "no_launch (mthrow e)" "no_launch (mlift x)" "no_launch (store_read m op)"
  "no_launch (store_note m op nt)" "no_launch (apply_transition m op gen to result err ev why)"
  "no_launch (effect_operation_state m b eop)" "no_launch (ask_observer m bd eop j)"
  by (auto simp: no_launch_def launches_in_def mret_def mthrow_def mlift_def store_read_def store_note_def apply_transition_def
      effect_operation_state_def ask_observer_def Let_def wait_def note_event_def
      split: prod.splits sum.splits option.splits transition_result.splits observe_answer.splits)

lemma no_launch_move [simp]: "no_launch (move m op gen to result err ev why)"
  by (simp add: move_def no_launch_bind)

lemma no_launch_current: "(\<And>r. no_launch (f r)) \<Longrightarrow> no_launch (with_current m op gen nt f)"
  unfolding with_current_def by (auto intro!: no_launch_bind split: option.splits)

lemma no_launch_cancel_dispatched [simp]: "no_launch (cancel_dispatched m op gen why err r b j)"
proof -
  have obs: "no_launch (observed_cancellation m op gen why err j x)" for x
    by (auto simp: observed_cancellation_def Let_def split: option.splits)
  have "no_launch (cancel_after_dispatch m op gen why err r b j)"
    by (auto simp: cancel_after_dispatch_def Let_def intro!: no_launch_bind obs)
  moreover have "no_launch (mret (Some r))" by simp
  ultimately show ?thesis by (simp add: no_launch_def cancel_dispatched_def mret_def)
qed

lemma no_launch_settle_cancellation [simp]: "no_launch (settle_cancellation m op gen why err)"
  unfolding settle_cancellation_def
  by (rule no_launch_current) (auto simp: cancel_current_def cancel_found_def intro!: no_launch_bind split: option.splits)

lemma no_launch_cancel: "no_launch (cancel m op why)"
  unfolding cancel_def
  by (auto simp: request_cancel_def settle_requested_def intro!: no_launch_bind split: option.splits transition_result.splits)

subsection \<open>Any sequence of flows\<close>

datatype flow = Run string int | Cancel string json | Recover

fun run_flow :: "'s manager \<Rightarrow> flow \<Rightarrow> 's manager_world \<Rightarrow> 's manager_world" where
  "run_flow m (Run op gen) w = fst (run_detached m op gen w)"
| "run_flow m (Cancel op why) w = fst (cancel m op why w)"
| "run_flow m Recover w = fst (recover m w)"

definition run_flows :: "'s manager \<Rightarrow> flow list \<Rightarrow> 's manager_world \<Rightarrow> 's manager_world" where
  "run_flows m fs w = fold (run_flow m) fs w"

text \<open>The world a new manager finds.\<close>

definition fresh_world :: "'s \<Rightarrow> journals \<Rightarrow> 's manager_world" where
  "fresh_world st js = \<lparr>w_store = st, w_journals = js, w_attempts = [], w_counts = [], w_tick = 0, w_trace = []\<rparr>"

lemma fresh_ok: "world_ok m (fresh_world st js)"
  by (simp add: world_ok_def fresh_world_def launches_bounded_def)

context detached_scope
begin

lemma flow_safe:
  assumes "manager_ok ops rev_of good scope m" "world_good good m w" "world_ok m w"
  shows "advances rev_of good m w (run_flow m f w) \<and> world_ok m (run_flow m f w)"
proof (cases f)
  case (Run op gen)
  then show ?thesis
    using safe_actD [OF safe_run_detached [OF assms(1)] assms(2,3) TrueI surjective_pairing, of op gen] by simp
next
  case (Cancel op why)
  then show ?thesis
    using safe_actD [OF safe_cancel [OF assms(1)] assms(2,3) TrueI surjective_pairing, of op why] by simp
next
  case Recover
  then show ?thesis
    using safe_actD [OF safe_recover [OF assms(1)] assms(2,3) TrueI surjective_pairing] by simp
qed

lemma flows_safe:
  assumes "manager_ok ops rev_of good scope m"
  shows "world_good good m w \<Longrightarrow> world_ok m w \<Longrightarrow> advances rev_of good m w (run_flows m fs w) \<and> world_ok m (run_flows m fs w)"
proof (induction fs arbitrary: w)
  case Nil
  then show ?case by (simp add: run_flows_def advances_refl)
next
  case (Cons f fs)
  from flow_safe [OF assms Cons.prems, of f] advances_good [OF _ Cons.prems(1)]
  have one: "advances rev_of good m w (run_flow m f w)" "world_good good m (run_flow m f w)" "world_ok m (run_flow m f w)"
    by auto
  from Cons.IH [OF one(2,3)] one(1) show ?case
    by (auto simp: run_flows_def intro: advances_trans)
qed

text \<open>Every transition a manager made is justified by what it saw before.\<close>

lemma flows_justified:
  assumes "manager_ok ops rev_of good scope m" "world_good good m (fresh_world st js)"
    "w_trace (run_flows m fs (fresh_world st js)) = pre @ Moved e # post"
  shows "\<exists>b. bound_at m (run_flows m fs (fresh_world st js)) (env_operation_id e) = Some b \<and>
    justified_move b pre (env_status e) (env_result e)"
proof -
  have "world_ok m (run_flows m fs (fresh_world st js))"
    using flows_safe [OF assms(1,2) fresh_ok] by blast
  from justified_traceD [OF _ assms(3)] this show ?thesis by (simp add: world_ok_def)
qed

lemma flows_launches:
  assumes "manager_ok ops rev_of good scope m" "world_good good m (fresh_world st js)"
  shows "count_list (w_trace (run_flows m fs (fresh_world st js))) (Launched op gen) \<le> execution_limit"
proof -
  have "world_ok m (run_flows m fs (fresh_world st js))"
    using flows_safe [OF assms fresh_ok] by blast
  then show ?thesis by (auto simp: world_ok_def dest: launches_boundedD)
qed

end

subsection \<open>Concrete inputs for the witnesses\<close>

definition demo_effect_call :: effect_call where
  "demo_effect_call = \<lparr>call_key = ''e'', call_capability = ''deploy'', call_policy = IDEMPOTENT, call_desired = Inr JNull,
     call_input = JNull, call_call_id = JNull, call_turn = JNull\<rparr>"

text \<open>A capability whose external action answers \<open>7\<close>, and one that fails before it reaches the journal.\<close>

definition demo_works :: "nat \<Rightarrow> json \<Rightarrow> json \<Rightarrow> journals \<Rightarrow> journals \<times> json res" where
  "demo_works n arg rt js =
     (let x = effect_execute demo_effect_call (Inr (JNum 7)) (js ''j'') in (js(''j'' := exec_journal x), exec_value x))"

definition demo_fails :: "nat \<Rightarrow> json \<Rightarrow> json \<Rightarrow> journals \<Rightarrow> journals \<times> json res" where
  "demo_fails n arg rt js = (js, Inl (Invariant ''no network''))"

definition demo_manager :: "(nat \<Rightarrow> json \<Rightarrow> json \<Rightarrow> journals \<Rightarrow> journals \<times> json res) \<Rightarrow> manager_memory sessions manager" where
  "demo_manager act = \<lparr>m_store = in_memory_store, m_scope = ''scope'',
     m_registry = [(''deploy'', \<lparr>bind_description = JNull, bind_policy = IDEMPOTENT, bind_journal = Some ''j'',
        bind_key = (\<lambda>_ _. Inr (JStr ''e'')), bind_observe = None, bind_execute = act\<rparr>)],
     m_sha = id, m_clock = (\<lambda>_. demo_clock), m_env = (\<lambda>_. demo_quiet), m_env_journals = (\<lambda>_ js. js), m_env_attempts = (\<lambda>_ a. a)\<rparr>"

definition demo_start :: "manager_memory sessions manager_world" where
  "demo_start = fresh_world (fst demo_created) (\<lambda>_. [])"

lemma demo_manager_ok: "manager_ok in_memory_store stored_revision mem_good ''scope'' (demo_manager act)"
  by (simp add: manager_ok_def demo_manager_def demo_quiet_ok)

lemma demo_start_good: "world_good mem_good (demo_manager act) demo_start"
proof -
  have "memory_ok ''scope'' (stored_memory in_memory_store ''scope'' [])"
    by (simp add: stored_memory_def in_memory_store_def mem_load_def memory_ok_def)
  then have "memory_ok ''scope'' (stored_memory in_memory_store ''scope'' (fst demo_created))"
    using store_stepD [OF detached_mem.operation_steps(1) [OF demo_quiet_ok mem_good_empty demo_created_run]] by simp
  with demo_good(1) show ?thesis
    by (simp add: world_good_def demo_start_def fresh_world_def demo_manager_def)
qed

definition moves_to :: "op_status \<Rightarrow> event list \<Rightarrow> bool" where
  "moves_to s t = list_ex (\<lambda>x. case x of Moved e \<Rightarrow> env_status e = s | _ \<Rightarrow> False) t"

lemma moves_toE:
  assumes "moves_to s t"
  obtains pre e post where "t = pre @ Moved e # post" "env_status e = s"
proof -
  from assms obtain x where x: "x \<in> set t" "case x of Moved e \<Rightarrow> env_status e = s | _ \<Rightarrow> False"
    by (auto simp: moves_to_def list_ex_iff)
  from x(2) obtain e where e: "x = Moved e" "env_status e = s" by (cases x) auto
  from split_list [OF x(1)] obtain pre post where "t = pre @ x # post" by blast
  with e that show thesis by blast
qed

lemma demo_success: "moves_to SUCCEEDED (w_trace (run_flows (demo_manager demo_works) [Run ''op'' 1] demo_start))"
  by code_simp

lemma demo_failure: "moves_to FAILED (w_trace (run_flows (demo_manager demo_fails) [Run ''op'' 1] demo_start))"
  by code_simp

lemma demo_cancellation: "moves_to CANCELLED (w_trace (run_flows (demo_manager demo_works) [Cancel ''op'' JNull] demo_start))"
  by code_simp

subsection \<open>The properties\<close>

text \<open>C1: Whatever background runs, cancellations and recoveries a manager performs, and whatever others do meanwhile,
  it moves an operation to SUCCEEDED only after it saw the effect CONFIRMED with that result (in the journal or
  from a reconciliation), or, for an OBSERVABLE effect, observed it satisfied.\<close>

theorem success_rests_on_confirmation:
  assumes "manager_ok in_memory_store stored_revision mem_good scope m"
    "world_good mem_good m (fresh_world st js)"
    "w_trace (run_flows m fs (fresh_world st js)) = pre @ Moved e # post" "env_status e = SUCCEEDED"
  shows "\<exists>b. bound_at m (run_flows m fs (fresh_world st js)) (env_operation_id e) = Some b \<and>
    confirmed_seen b pre (env_result e)"
  using detached_mem.flows_justified [OF assms(1-3)] assms(4) by simp

theorem success_rests_on_confirmation_witness:
  "\<exists>b pre e post. w_trace (run_flows (demo_manager demo_works) [Run ''op'' 1] demo_start) = pre @ Moved e # post \<and>
     env_status e = SUCCEEDED \<and> confirmed_seen b pre (env_result e)"
proof -
  from demo_success obtain pre e post
    where t: "w_trace (run_flows (demo_manager demo_works) [Run ''op'' 1] demo_start) = pre @ Moved e # post" "env_status e = SUCCEEDED"
    by (rule moves_toE)
  from success_rests_on_confirmation [OF demo_manager_ok demo_start_good [unfolded demo_start_def] t(1) [unfolded demo_start_def] t(2)] t
  show ?thesis by blast
qed

text \<open>It moves an operation to FAILED only after it saw that no dispatch was recorded (no journal record, or an
  INTENDED one).\<close>

theorem failure_rests_on_no_dispatch:
  assumes "manager_ok in_memory_store stored_revision mem_good scope m"
    "world_good mem_good m (fresh_world st js)"
    "w_trace (run_flows m fs (fresh_world st js)) = pre @ Moved e # post" "env_status e = FAILED"
  shows "\<exists>b. bound_at m (run_flows m fs (fresh_world st js)) (env_operation_id e) = Some b \<and> undispatched_seen b pre"
  using detached_mem.flows_justified [OF assms(1-3)] assms(4) by simp

theorem failure_rests_on_no_dispatch_witness:
  "\<exists>b pre e post. w_trace (run_flows (demo_manager demo_fails) [Run ''op'' 1] demo_start) = pre @ Moved e # post \<and>
     env_status e = FAILED \<and> undispatched_seen b pre"
proof -
  from demo_failure obtain pre e post
    where t: "w_trace (run_flows (demo_manager demo_fails) [Run ''op'' 1] demo_start) = pre @ Moved e # post" "env_status e = FAILED"
    by (rule moves_toE)
  from failure_rests_on_no_dispatch [OF demo_manager_ok demo_start_good [unfolded demo_start_def] t(1) [unfolded demo_start_def] t(2)] t
  show ?thesis by blast
qed

text \<open>C28: It moves an operation to CANCELLED only after it saw that no dispatch was recorded, unless the effect is PURE
  or the observer of an OBSERVABLE effect found it absent: never after the dispatch of an IDEMPOTENT or
  NON_RECONCILABLE effect.\<close>

theorem cancellation_rests_on_absence:
  assumes "manager_ok in_memory_store stored_revision mem_good scope m"
    "world_good mem_good m (fresh_world st js)"
    "w_trace (run_flows m fs (fresh_world st js)) = pre @ Moved e # post" "env_status e = CANCELLED"
  shows "\<exists>b. bound_at m (run_flows m fs (fresh_world st js)) (env_operation_id e) = Some b \<and>
    (undispatched_seen b pre \<or> replay_policy b = policy_text PURE \<or> absence_observed b pre)"
  using detached_mem.flows_justified [OF assms(1-3)] assms(4) by simp

theorem cancellation_rests_on_absence_witness:
  "\<exists>b pre e post. w_trace (run_flows (demo_manager demo_works) [Cancel ''op'' JNull] demo_start) = pre @ Moved e # post \<and>
     env_status e = CANCELLED \<and> (undispatched_seen b pre \<or> replay_policy b = policy_text PURE \<or> absence_observed b pre)"
proof -
  from demo_cancellation obtain pre e post
    where t: "w_trace (run_flows (demo_manager demo_works) [Cancel ''op'' JNull] demo_start) = pre @ Moved e # post" "env_status e = CANCELLED"
    by (rule moves_toE)
  from cancellation_rests_on_absence [OF demo_manager_ok demo_start_good [unfolded demo_start_def] t(1) [unfolded demo_start_def] t(2)] t
  show ?thesis by blast
qed

text \<open>C32: One manager calls the external action at most five times for one operation and generation.\<close>

theorem launches_are_bounded:
  assumes "manager_ok in_memory_store stored_revision mem_good scope m" "world_good mem_good m (fresh_world st js)"
  shows "count_list (w_trace (run_flows m fs (fresh_world st js))) (Launched op gen) \<le> 5"
  using detached_mem.flows_launches [OF assms] by (simp add: execution_limit_def)

theorem launches_are_bounded_witness:
  "count_list (w_trace (run_flows (demo_manager demo_works) [Run ''op'' 1, Recover] demo_start)) (Launched ''op'' 1) \<le> 5"
  using launches_are_bounded [OF demo_manager_ok demo_start_good [unfolded demo_start_def]] by (simp add: demo_start_def)

text \<open>C35: The callback between executing and settling ends: the depth given to it never runs out.\<close>

theorem execution_depth_suffices:
  "execute_bound_attempt (execution_depth + k) m op gen r b w = execute_bound_attempt execution_depth m op gen r b w"
  using depth_enough [of execution_depth 0 op gen m k]
  by (simp add: agree_exec_def agree_from_def execution_depth_def)

text \<open>A cancellation never calls the external action.\<close>

theorem cancellation_never_launches:
  "launches_in (w_trace (fst (cancel m op why w))) = launches_in (w_trace w)"
  using no_launch_cancel [of m op why] by (simp add: no_launch_def)

lemma normalize_binding_capability:
  "normalize_binding raw scope = Inr b \<Longrightarrow> jfield raw ''capability'' = JStr name \<Longrightarrow> capability b = name"
  by (auto simp: normalize_binding_def split: if_splits)

text \<open>A schedule starts a background run only for an operation it has just created itself, at generation 1;
  attaching to an existing operation starts nothing.\<close>

theorem schedule_launches_only_what_it_created:
  assumes "manager_ok in_memory_store stored_revision mem_good scope m" "mem_good (w_store w)"
    "schedule_operation m name arg runtime w = (w', Inr s)" "launches s"
  shows "\<exists>stc. store_step in_memory_store stored_revision mem_good scope (w_store w) stc \<and>
    map_of (operations (stored_memory in_memory_store scope stc)) (operation_id (bound (scheduled_record s))) = None \<and>
    map_of (operations (stored_memory in_memory_store scope (w_store w'))) (operation_id (bound (scheduled_record s))) =
      Some (scheduled_record s) \<and>
    generation (scheduled_record s) = 1 \<and> capability (bound (scheduled_record s)) = name"
proof -
  have m: "m_store m = in_memory_store" "m_scope m = scope"
    "environment_ok in_memory_store stored_revision mem_good scope (m_env m (w_tick w))"
    using assms(1) by (auto simp: manager_ok_def)
  from assms(3,4) obtain raw c where run: "create in_memory_store scope (m_clock m (w_tick w)) (m_env m (w_tick w)) raw (w_store w)
      = (w_store w', Inr c)"
    and s: "scheduled_record s = created_record c" "\<not> attached c" and raw: "jfield raw ''capability'' = JStr name"
    by (auto simp: schedule_operation_def mthrow_def mbind_def mlift_def store_create_def m note_event_def wait_def jfield_def
        split: option.splits sum.splits prod.splits)
  from detached_mem.create_new [OF m(3) assms(2) run s(2)] obtain stc b where new:
    "store_step in_memory_store stored_revision mem_good scope (w_store w) stc" "normalize_binding raw scope = Inr b"
    "map_of (operations (stored_memory in_memory_store scope stc)) (operation_id b) = None"
    "map_of (operations (stored_memory in_memory_store scope (w_store w'))) (operation_id b) = Some (created_record c)"
    "bound (created_record c) = b" "generation (created_record c) = 1"
    by blast
  have "capability b = name" by (rule normalize_binding_capability [OF new(2) raw])
  with new s(1) show ?thesis by auto
qed

definition demo_scheduled :: "manager_memory sessions manager_world \<times> scheduled res" where
  "demo_scheduled = schedule_operation (demo_manager demo_works) ''deploy'' (JNum 1) JNull (fresh_world [] (\<lambda>_. []))"

theorem schedule_launches_only_what_it_created_witness:
  "\<exists>s. snd demo_scheduled = Inr s \<and> generation (scheduled_record s) = 1 \<and> capability (bound (scheduled_record s)) = ''deploy''"
proof -
  have ok: "isl (snd demo_scheduled) = False" by code_simp
  have l: "launches (projr (snd demo_scheduled))" by code_simp
  have run: "schedule_operation (demo_manager demo_works) ''deploy'' (JNum 1) JNull (fresh_world [] (\<lambda>_. []))
      = (fst demo_scheduled, Inr (projr (snd demo_scheduled)))"
    unfolding demo_scheduled_def [symmetric] by (rule run_ok [OF ok])
  have good: "mem_good (w_store (fresh_world [] (\<lambda>_. [])))" by (simp add: fresh_world_def mem_good_empty)
  from schedule_launches_only_what_it_created [OF demo_manager_ok good run l] run_ok [OF ok]
  show ?thesis by (metis snd_conv)
qed

end
