(* ===== verification/Js_Values.thy ===== *)
theory Js_Values
  imports Canonical_Json "HOL-Library.Multiset"
begin

section \<open>Reading untyped JavaScript values\<close>

text \<open>
  Documents that arrive from outside (attestations, decisions, evidence, blackboard files) are
  untyped.  A JavaScript value is a \<open>json option\<close> here, \<open>None\<close> being \<open>undefined\<close>.
  The section has the operators the code reads such values with: property access with and
  without optional chaining, \<open>===\<close>, truthiness, iteration and string interpolation; and the
  key order \<open>JSON.stringify\<close> writes an object in, which puts array-index keys first.
\<close>

type_synonym jsval = "json option"

lemma map_sum_Inr_iff: "map_sum id f r = Inr y \<longleftrightarrow> (\<exists>x. r = Inr x \<and> y = f x)"
  by (cases r) auto

lemma invariant_ok [simp]: "invariant c msg = Inr u \<longleftrightarrow> c"
  by (simp add: invariant_def)

subsection \<open>Property access\<close>

text \<open>\<open>o?.k\<close>: only objects have the properties this code asks for.\<close>

fun opt_member :: "jsval \<Rightarrow> string \<Rightarrow> jsval" where
  "opt_member (Some (JObj kvs)) k = map_of kvs k"
| "opt_member _ k = None"

definition nullish :: "jsval \<Rightarrow> bool" where
  "nullish v \<longleftrightarrow> v = None \<or> v = Some JNull"

text \<open>\<open>o.k\<close> throws a \<open>TypeError\<close> when \<open>o\<close> is \<open>undefined\<close> or \<open>null\<close>.\<close>

definition js_member :: "jsval \<Rightarrow> string \<Rightarrow> jsval res" where
  "js_member v k =
     (if nullish v
      then Inl (TypeFault (''Cannot read properties of '' @ (if v = None then ''undefined'' else ''null'') @
                           '' (reading '' @ [CHR 0x27] @ k @ [CHR 0x27] @ '')''))
      else Inr (opt_member v k))"

text \<open>\<open>v ?? d\<close>.\<close>

definition or_default :: "jsval \<Rightarrow> json \<Rightarrow> json" where
  "or_default v d = (if nullish v then d else the v)"

abbreviation or_null :: "jsval \<Rightarrow> json" where
  "or_null v \<equiv> or_default v JNull"

text \<open>A parameter with a default takes it only when the argument is \<open>undefined\<close>.\<close>

definition arg_or :: "jsval \<Rightarrow> json \<Rightarrow> json" where
  "arg_or v d = (case v of None \<Rightarrow> d | Some x \<Rightarrow> x)"

definition truthy :: "jsval \<Rightarrow> bool" where
  "truthy v \<longleftrightarrow> v \<notin> {None, Some JNull, Some (JBool False), Some (JNum 0), Some (JStr [])}"

text \<open>\<open>v \&\& typeof v === 'object'\<close>.\<close>

definition is_object :: "jsval \<Rightarrow> bool" where
  "is_object v \<longleftrightarrow> (case v of Some (JObj _) \<Rightarrow> True | Some (JArr _) \<Rightarrow> True | _ \<Rightarrow> False)"

lemma member_is_object: "opt_member (Some v) k = Some x \<Longrightarrow> is_object (Some v)"
  by (cases v) (auto simp: is_object_def)

text \<open>
  \<open>===\<close> on values of two separately supplied documents: such documents share no object, so
  two objects (or arrays) are never identical.
\<close>

fun compound :: "json \<Rightarrow> bool" where
  "compound (JArr _) = True"
| "compound (JObj _) = True"
| "compound _ = False"

definition strict_eq :: "jsval \<Rightarrow> jsval \<Rightarrow> bool" where
  "strict_eq a b \<longleftrightarrow> a = b \<and> (case a of None \<Rightarrow> True | Some v \<Rightarrow> \<not> compound v)"

text \<open>An object literal; a property that is \<open>undefined\<close> reads as a missing one.\<close>

definition obj :: "(string \<times> jsval) list \<Rightarrow> json" where
  "obj fs = JObj (List.map_filter (\<lambda>(k, v). map_option (Pair k) v) fs)"

lemma obj_Nil: "obj [] = JObj []" and obj_Cons:
  "obj ((k, v) # fs) = (case obj fs of JObj kvs \<Rightarrow> JObj (case v of None \<Rightarrow> kvs | Some x \<Rightarrow> (k, x) # kvs) | j \<Rightarrow> j)"
  by (simp_all add: obj_def List.map_filter_simps split: option.split)

lemma obj_JObj: "\<exists>kvs. obj fs = JObj kvs"
  by (simp add: obj_def)

lemma obj_missing: "k \<notin> fst ` set fs \<Longrightarrow> opt_member (Some (obj fs)) k = None"
proof (induction fs)
  case (Cons f fs)
  then show ?case using obj_JObj [of fs] by (cases f; cases "snd f") (auto simp: obj_Cons)
qed (simp add: obj_Nil)

lemma obj_member:
  "distinct (map fst fs) \<Longrightarrow> opt_member (Some (obj fs)) k = (case map_of fs k of None \<Rightarrow> None | Some v \<Rightarrow> v)"
proof (induction fs)
  case (Cons f fs)
  then show ?case using obj_JObj [of fs] obj_missing [of k fs] by (cases f; cases "snd f") (auto simp: obj_Cons)
qed (simp add: obj_Nil)

subsection \<open>Arrays and iteration\<close>

text \<open>\<open>xs.map(...)\<close>: only arrays have the method.\<close>

definition js_array :: "jsval \<Rightarrow> json list res" where
  "js_array v = (case v of Some (JArr vs) \<Rightarrow> Inr vs | _ \<Rightarrow> Inl (TypeFault ''map is not a function''))"

text \<open>\<open>new Set(xs)\<close>: arrays and strings are iterable.\<close>

definition js_iterate :: "json \<Rightarrow> json list res" where
  "js_iterate v =
     (case v of JArr vs \<Rightarrow> Inr vs | JStr s \<Rightarrow> Inr (map (\<lambda>c. JStr [c]) s)
      | _ \<Rightarrow> Inl (TypeFault ''object is not iterable''))"

text \<open>\<open>xs.some\<close> and \<open>xs.every\<close> with a predicate that may throw.\<close>

fun every_res :: "('a \<Rightarrow> bool res) \<Rightarrow> 'a list \<Rightarrow> bool res" where
  "every_res p [] = Inr True"
| "every_res p (x # xs) = rbind (p x) (\<lambda>b. if b then every_res p xs else Inr False)"

lemma every_res_True [simp]: "every_res p xs = Inr True \<longleftrightarrow> (\<forall>x \<in> set xs. p x = Inr True)"
  by (induction xs) (auto split: if_splits)

text \<open>Collecting what each step pushes; the first step that throws ends it.\<close>

fun gather :: "'a list res list \<Rightarrow> 'a list res" where
  "gather [] = Inr []"
| "gather (r # rs) = rbind r (\<lambda>xs. rbind (gather rs) (\<lambda>ys. Inr (xs @ ys)))"

lemma gather_Nil [simp]: "gather rs = Inr [] \<longleftrightarrow> (\<forall>r \<in> set rs. r = Inr [])"
  by (induction rs) auto

subsection \<open>String interpolation\<close>

fun element_text :: "json \<Rightarrow> string" where
  "element_text JNull = ''''"
| "element_text (JBool b) = (if b then ''true'' else ''false'')"
| "element_text (JNum n) = int_text n"
| "element_text (JStr s) = s"
| "element_text (JArr vs) = join '','' (map element_text vs)"
| "element_text (JObj _) = ''[object Object]''"

definition js_text :: "jsval \<Rightarrow> string" where
  "js_text v = (case v of None \<Rightarrow> ''undefined'' | Some JNull \<Rightarrow> ''null'' | Some x \<Rightarrow> element_text x)"

lemma js_text_JStr [simp]: "js_text (Some (JStr s)) = s"
  by (simp add: js_text_def)

subsection \<open>The order of keys in an object\<close>

text \<open>
  An object enumerates its array-index keys first, by number, whatever order they were
  written in; the others follow in insertion order.
\<close>

definition index_key :: "string \<Rightarrow> bool" where
  "index_key k \<longleftrightarrow> k \<noteq> [] \<and> (\<forall>c \<in> set k. is_digit c) \<and> (hd k = CHR ''0'' \<longrightarrow> length k = 1) \<and>
     digits_value 0 k < 2 ^ 32 - 1"

definition own_order :: "(string \<times> 'a) list \<Rightarrow> (string \<times> 'a) list" where
  "own_order kvs =
     sort_key (\<lambda>kv. digits_value 0 (fst kv)) (filter (\<lambda>kv. index_key (fst kv)) kvs) @
     filter (\<lambda>kv. \<not> index_key (fst kv)) kvs"

text \<open>
  \<open>stableValue\<close> of \<open>trust.js\<close>: the keys sorted at every level, as the resulting object
  enumerates them.  Its errors (numbers that are not finite, \<open>undefined\<close> properties, class
  instances) cannot come from a \<open>json\<close> value.
\<close>

function stable_value :: "json \<Rightarrow> json" where
  "stable_value (JArr vs) = JArr (map stable_value vs)"
| "stable_value (JObj kvs) = JObj (own_order (map (\<lambda>kv. (fst kv, stable_value (snd kv))) (sort_key fst kvs)))"
| "stable_value JNull = JNull"
| "stable_value (JBool b) = JBool b"
| "stable_value (JNum n) = JNum n"
| "stable_value (JStr s) = JStr s"
  by pat_completeness auto
termination
  by (relation "measure size") (auto dest: json_size_member simp: less_Suc_eq_le size_list_estimation')

definition canonicalize :: "json \<Rightarrow> string" where
  "canonicalize v = render (stable_value v)"

lemma own_order_filter:
  "filter (\<lambda>kv. fst kv = k) (own_order kvs) = filter (\<lambda>kv. fst kv = k) kvs"
proof (cases "index_key k")
  case True
  have *: "filter (\<lambda>kv. fst kv = k) (sort_key f ys) = filter (\<lambda>kv. fst kv = k) (ys :: (string \<times> 'a) list)"
    if "\<And>x. fst x = k \<Longrightarrow> f x = c" for f ys and c :: nat
  proof -
    have "filter (\<lambda>kv. fst kv = k) zs = filter (\<lambda>kv. fst kv = k) (filter (\<lambda>kv. f kv = c) zs)" for zs :: "(string \<times> 'a) list"
      using that by (auto intro!: filter_cong)
    then show ?thesis by (metis sort_key_stable)
  qed
  have "filter (\<lambda>kv. \<not> index_key (fst kv) \<and> fst kv = k) kvs = []"
    using True by (auto simp: filter_empty_conv)
  moreover have "filter (\<lambda>kv. index_key (fst kv) \<and> fst kv = k) kvs = filter (\<lambda>kv. fst kv = k) kvs"
    using True by (auto intro!: filter_cong)
  ultimately show ?thesis
    by (simp add: own_order_def * [where c = "digits_value 0 k"])
next
  case False
  then have "filter (\<lambda>kv. fst kv = k) (sort_key f (filter (\<lambda>kv. index_key (fst kv)) kvs)) = []" for f :: "_ \<Rightarrow> nat"
    by (auto simp: filter_empty_conv)
  with False show ?thesis
    by (auto simp: own_order_def intro!: filter_cong)
qed

lemma mset_own_order [simp]: "mset (own_order kvs) = mset kvs"
  by (simp add: own_order_def)

lemma set_own_order [simp]: "set (own_order kvs) = set kvs"
  by (metis mset_own_order set_mset_mset)

lemma sort_own_order: "sort_key fst (own_order kvs) = sort_key fst kvs"
proof (rule properties_for_sort_key)
  fix p assume "p \<in> set (sort_key fst kvs)"
  show "filter (\<lambda>q. fst p = fst q) (sort_key fst kvs) = filter (\<lambda>q. fst p = fst q) (own_order kvs)"
    using own_order_filter [of "fst p" kvs] sort_key_stable [of fst "fst p" kvs] by (simp add: eq_commute [of "fst p"])
qed simp_all

lemma sort_map_keys:
  assumes "\<And>p. fst (g p) = fst p"
  shows "sort_key fst (map g (sort_key fst kvs)) = map g (sort_key fst kvs)"
  using assms by (intro sort_key_id_if_sorted) (simp add: comp_def)

lemma stable_value_canon: "stable_value (canon v) = stable_value v"
  by (induction v rule: stable_value.induct)
    (auto simp: sort_map_keys comp_def intro!: arg_cong [where f = own_order])

lemma canon_stable_value: "canon (stable_value v) = canon v"
  by (induction v rule: stable_value.induct) (auto simp: sort_own_order sort_map_keys comp_def)

lemma stable_value_idem [simp]: "stable_value (stable_value v) = stable_value v"
  by (metis stable_value_canon canon_stable_value)

text \<open>The text determines the value up to the order of object keys.\<close>

lemma canonicalize_eq_iff: "canonicalize a = canonicalize b \<longleftrightarrow> canon a = canon b"
proof -
  have "canonicalize a = canonicalize b \<longleftrightarrow> stable_value a = stable_value b"
    using render_prefix [of "[]" "[]" "stable_value a" "stable_value b"]
    by (auto simp: canonicalize_def token_end_def)
  also have "\<dots> \<longleftrightarrow> canon a = canon b"
    by (metis stable_value_canon canon_stable_value)
  finally show ?thesis .
qed

end
