(* ===== verification/Trust.thy ===== *)
theory Trust
  imports Js_Values
begin

section \<open>Trust artifacts: evidence, decisions, attestations and their policy\<close>

text \<open>
  Models \<open>packages/core-harness/src/trust.js\<close>.  Artifacts are untyped documents, because the
  evaluation looks at what others supply; the trust policy is the caller's own configuration
  and is typed.  What the platform supplies is a record: the SHA-256 hash in hexadecimal, the
  collation key behind \<open>localeCompare\<close>, and \<open>Date.parse\<close> (\<open>None\<close> for \<open>NaN\<close>).
  A signer, a signature verifier and the clock are arguments.
\<close>

record platform =
  sha256_hex :: "string \<Rightarrow> string"
  collation_key :: "string \<Rightarrow> string"
  date_parse :: "jsval \<Rightarrow> int option"

definition trust_boundaries :: "string list" where
  "trust_boundaries = [''VERIFICATION'', ''COORDINATION'', ''RELEASE_BUILD'', ''ACCEPTANCE'']"

definition claim_statuses :: "string list" where
  "claim_statuses = [''SATISFIED'', ''UNSATISFIED'', ''UNKNOWN'']"

text \<open>\<open>Object.values(list).includes(v)\<close>, on a list of strings.\<close>

definition one_of :: "jsval \<Rightarrow> string list \<Rightarrow> bool" where
  "one_of v xs \<longleftrightarrow> (case v of Some (JStr s) \<Rightarrow> s \<in> set xs | _ \<Rightarrow> False)"

lemma one_of_iff: "one_of v xs \<longleftrightarrow> (\<exists>s \<in> set xs. v = Some (JStr s))"
  by (auto simp: one_of_def split: option.splits json.splits)

text \<open>\<open>v == null ? null : requireText(v, label)\<close>.\<close>

definition optional_text :: "jsval \<Rightarrow> string \<Rightarrow> json res" where
  "optional_text v label = (if nullish v then Inr JNull else map_sum id JStr (require_text (the v) label))"

definition need_text :: "jsval \<Rightarrow> string \<Rightarrow> json res" where
  "need_text v label = map_sum id JStr (require_text (or_null v) label)"

lemma need_text_Inr [simp]: "need_text v label = Inr x \<longleftrightarrow> (\<exists>s. v = Some (JStr s) \<and> nonblank s \<and> x = JStr s)"
  by (auto simp: need_text_def map_sum_Inr_iff or_default_def nullish_def)

text \<open>\<open>v == null ? null : stableValue(v)\<close>.\<close>

definition optional_stable :: "jsval \<Rightarrow> json" where
  "optional_stable v = (if nullish v then JNull else stable_value (the v))"

subsection \<open>Digests\<close>

definition trust_digest :: "platform \<Rightarrow> json \<Rightarrow> string" where
  "trust_digest P v = ''sha256:'' @ sha256_hex P (canonicalize v)"

text \<open>An object literal whose properties may be \<open>undefined\<close> cannot be digested.\<close>

definition defined_fields :: "string \<Rightarrow> (string \<times> jsval) list \<Rightarrow> (string \<times> json) list res" where
  "defined_fields label fs =
     (case filter (\<lambda>f. snd f = None) (sort_key fst fs) of
        [] \<Rightarrow> Inr (map (\<lambda>f. (fst f, the (snd f))) fs)
      | f # _ \<Rightarrow> Inl (Invariant (label @ ''.'' @ fst f @ '' must not be undefined'')))"

definition digest_fields :: "platform \<Rightarrow> (string \<times> jsval) list \<Rightarrow> string res" where
  "digest_fields P fs = map_sum id (\<lambda>kvs. trust_digest P (JObj kvs)) (defined_fields ''value'' fs)"

lemma defined_fields_Inr:
  "defined_fields label fs = Inr kvs \<longleftrightarrow> (\<forall>f \<in> set fs. snd f \<noteq> None) \<and> kvs = map (\<lambda>f. (fst f, the (snd f))) fs"
proof (cases "filter (\<lambda>f. snd f = None) (sort_key fst fs)")
  case Nil
  then have "\<forall>f \<in> set fs. snd f \<noteq> None" by (auto simp: filter_empty_conv)
  with Nil show ?thesis by (auto simp: defined_fields_def)
next
  case (Cons f r)
  then have "f \<in> set (filter (\<lambda>f. snd f = None) (sort_key fst fs))" by simp
  then have "f \<in> set fs" "snd f = None" by auto
  with Cons show ?thesis by (auto simp: defined_fields_def)
qed

lemma digest_fields_Inr:
  "digest_fields P fs = Inr d \<longleftrightarrow>
     (\<forall>f \<in> set fs. snd f \<noteq> None) \<and> d = trust_digest P (JObj (map (\<lambda>f. (fst f, the (snd f))) fs))"
  by (auto simp: digest_fields_def map_sum_Inr_iff defined_fields_Inr)

lemma digest_stable [simp]: "trust_digest P (stable_value v) = trust_digest P v"
  by (simp add: trust_digest_def canonicalize_def)

text \<open>Equal digests of different values are a collision of the hash function.\<close>

definition collision :: "platform \<Rightarrow> bool" where
  "collision P \<longleftrightarrow> (\<exists>s t. s \<noteq> t \<and> sha256_hex P s = sha256_hex P t)"

lemma trust_digest_eqD: "trust_digest P a = trust_digest P b \<Longrightarrow> canon a = canon b \<or> collision P"
  by (auto simp: trust_digest_def collision_def canonicalize_eq_iff [symmetric])

subsection \<open>References and authorities\<close>

definition normalize_roles :: "json \<Rightarrow> string list res" where
  "normalize_roles roles =
     (case roles of
        JArr rs \<Rightarrow> map_sum id (\<lambda>xs. sort (uniq xs)) (map_res (\<lambda>r. require_text r ''authority role'') rs)
      | _ \<Rightarrow> Inl (Invariant ''authority roles must be an array''))"

text \<open>Destructuring an argument that is \<open>undefined\<close> or \<open>null\<close> throws.\<close>

definition destructured :: "jsval \<Rightarrow> (jsval \<Rightarrow> 'a res) \<Rightarrow> 'a res" where
  "destructured v f = (if nullish v then Inl (TypeFault ''Cannot destructure'') else f v)"

lemma destructured_Inr [simp]: "destructured v f = Inr x \<longleftrightarrow> \<not> nullish v \<and> f v = Inr x"
  by (simp add: destructured_def)

definition define_authority :: "jsval \<Rightarrow> json res" where
  "define_authority a =
     destructured a (\<lambda>a.
     rbind (need_text (opt_member a ''identity'') ''authority.identity'') (\<lambda>identity.
     rbind (optional_text (opt_member a ''version'') ''authority.version'') (\<lambda>version.
     rbind (normalize_roles (arg_or (opt_member a ''roles'') (JArr []))) (\<lambda>roles.
       Inr (JObj [(''identity'', identity), (''version'', version), (''roles'', JArr (map JStr roles))])))))"

definition define_subject :: "jsval \<Rightarrow> json res" where
  "define_subject s =
     destructured s (\<lambda>s.
     rbind (need_text (opt_member s ''type'') ''subject.type'') (\<lambda>type.
     rbind (need_text (opt_member s ''digest'') ''subject.digest'') (\<lambda>digest.
     rbind (if nullish (opt_member s ''producer'') then Inr JNull
            else define_authority (opt_member s ''producer'')) (\<lambda>producer.
       Inr (JObj [(''type'', type), (''digest'', digest), (''producer'', producer),
                  (''metadata'', optional_stable (opt_member s ''metadata''))])))))"

definition subject_from_value :: "platform \<Rightarrow> json \<Rightarrow> json \<Rightarrow> json res" where
  "subject_from_value P v opts =
     define_subject (Some (obj
       [(''type'', Some (arg_or (opt_member (Some opts) ''type'') (JStr ''artifact''))),
        (''digest'', Some (JStr (trust_digest P v))),
        (''producer'', opt_member (Some opts) ''producer''), (''metadata'', opt_member (Some opts) ''metadata'')]))"

definition define_policy_ref :: "jsval \<Rightarrow> json res" where
  "define_policy_ref p =
     destructured p (\<lambda>p.
     rbind (need_text (opt_member p ''name'') ''policy.name'') (\<lambda>name.
     rbind (need_text (opt_member p ''digest'') ''policy.digest'') (\<lambda>digest.
     rbind (optional_text (opt_member p ''version'') ''policy.version'') (\<lambda>version.
       Inr (JObj [(''name'', name), (''digest'', digest), (''version'', version)])))))"

definition define_environment_ref :: "jsval \<Rightarrow> json res" where
  "define_environment_ref e =
     destructured e (\<lambda>e.
     rbind (need_text (opt_member e ''digest'') ''environment.digest'') (\<lambda>digest.
     rbind (optional_text (opt_member e ''name'') ''environment.name'') (\<lambda>name.
       Inr (JObj [(''digest'', digest), (''name'', name),
                  (''metadata'', optional_stable (opt_member e ''metadata''))]))))"

definition artifact_ref :: "jsval \<Rightarrow> string \<Rightarrow> (string \<times> string) res" where
  "artifact_ref a label =
     rbind (invariant (is_object a) (label @ '' is required'')) (\<lambda>_.
     rbind (require_text (or_null (opt_member a ''id'')) (label @ ''.id'')) (\<lambda>id.
     rbind (require_text (or_null (opt_member a ''digest'')) (label @ ''.digest'')) (\<lambda>digest.
       Inr (id, digest))))"

definition ref_json :: "string \<times> string \<Rightarrow> json" where
  "ref_json r = JObj [(''id'', JStr (fst r)), (''digest'', JStr (snd r))]"

definition sort_refs :: "platform \<Rightarrow> (string \<times> string) list \<Rightarrow> (string \<times> string) list" where
  "sort_refs P refs = sort_key (\<lambda>r. collation_key P (fst r @ '':'' @ snd r)) refs"

subsection \<open>Evidence\<close>

definition evidence_body :: "jsval \<Rightarrow> (string \<times> jsval) list" where
  "evidence_body a =
     [(''type'', opt_member a ''type''), (''subject'', opt_member a ''subject''), (''kind'', opt_member a ''kind''),
      (''producer'', opt_member a ''producer''), (''environment'', opt_member a ''environment''),
      (''contentDigest'', opt_member a ''contentDigest''), (''uri'', Some (or_null (opt_member a ''uri''))),
      (''metadata'', Some (or_null (opt_member a ''metadata''))), (''generatedAt'', opt_member a ''generatedAt'')]"

definition evidence_integrity :: "platform \<Rightarrow> jsval \<Rightarrow> bool res" where
  "evidence_integrity P a =
     (if opt_member a ''type'' \<noteq> Some (JStr ''EVIDENCE'') then Inr False
      else if \<not> nullish (opt_member a ''content'') \<and>
              opt_member a ''contentDigest'' \<noteq> Some (JStr (trust_digest P (stable_value (the (opt_member a ''content''))))) then Inr False
      else rbind (digest_fields P (evidence_body a)) (\<lambda>d.
        Inr (opt_member a ''digest'' = Some (JStr d) \<and> opt_member a ''id'' = Some (JStr (''evidence:'' @ d)))))"

text \<open>The properties of an artifact: the digest and id of its body, then the body.\<close>

definition sealed :: "platform \<Rightarrow> string \<Rightarrow> (string \<times> json) list \<Rightarrow> (string \<times> json) list" where
  "sealed P prefix body =
     (let d = trust_digest P (JObj body) in (''id'', JStr (prefix @ d)) # (''digest'', JStr d) # body)"

definition create_evidence_artifact :: "platform \<Rightarrow> json \<Rightarrow> json res" where
  "create_evidence_artifact P args =
     (let arg = opt_member (Some args) in
      rbind (if nullish (arg ''contentDigest'') then Inr (JStr (trust_digest P (stable_value (or_null (arg ''content'')))))
             else need_text (arg ''contentDigest'') ''evidence.contentDigest'') (\<lambda>content_digest.
      rbind (define_subject (arg ''subject'')) (\<lambda>subject.
      rbind (need_text (arg ''kind'') ''evidence.kind'') (\<lambda>kind.
      rbind (define_authority (arg ''producer'')) (\<lambda>producer.
      rbind (define_environment_ref (arg ''environment'')) (\<lambda>environment.
      rbind (optional_text (arg ''uri'') ''evidence.uri'') (\<lambda>uri.
      rbind (need_text (arg ''generatedAt'') ''evidence.generatedAt'') (\<lambda>generated_at.
        Inr (JObj (sealed P ''evidence:''
          [(''type'', JStr ''EVIDENCE''), (''subject'', subject), (''kind'', kind), (''producer'', producer),
           (''environment'', environment), (''contentDigest'', content_digest), (''uri'', uri),
           (''metadata'', optional_stable (arg ''metadata'')), (''generatedAt'', generated_at)] @
          [(''content'', optional_stable (arg ''content''))]))))))))))"

definition manifest_refs :: "platform \<Rightarrow> json list \<Rightarrow> (string \<times> string) list res" where
  "manifest_refs P evidence =
     map_sum id (sort_refs P) (map_res (\<lambda>a. artifact_ref (Some a) ''evidence artifact'') evidence)"

definition refs_digest :: "platform \<Rightarrow> (string \<times> string) list \<Rightarrow> string" where
  "refs_digest P refs = trust_digest P (JArr (map ref_json refs))"

definition evidence_manifest :: "platform \<Rightarrow> json list \<Rightarrow> json res" where
  "evidence_manifest P evidence =
     rbind (manifest_refs P evidence) (\<lambda>refs.
       Inr (JObj [(''refs'', JArr (map ref_json refs)), (''digest'', JStr (refs_digest P refs))]))"

subsection \<open>Decisions\<close>

definition normalize_claim :: "json \<Rightarrow> json res" where
  "normalize_claim c =
     rbind (invariant (is_object (Some c)) ''decision claim is required'') (\<lambda>_.
     rbind (invariant (one_of (opt_member (Some c) ''status'') claim_statuses) ''decision claim status is invalid'') (\<lambda>_.
     rbind (need_text (opt_member (Some c) ''name'') ''decision claim name'') (\<lambda>name.
       Inr (JObj [(''name'', name), (''status'', the (opt_member (Some c) ''status'')),
                  (''details'', optional_stable (opt_member (Some c) ''details''))]))))"

definition claim_name :: "json \<Rightarrow> jsval" where
  "claim_name c = opt_member (Some c) ''name''"

fun distinct_claims :: "jsval list \<Rightarrow> json list \<Rightarrow> unit res" where
  "distinct_claims seen [] = Inr ()"
| "distinct_claims seen (c # cs) =
     rbind (invariant (claim_name c \<notin> set seen) (''duplicate decision claim: '' @ js_text (claim_name c))) (\<lambda>_.
       distinct_claims (claim_name c # seen) cs)"

definition decision_body :: "jsval \<Rightarrow> (string \<times> jsval) list" where
  "decision_body d =
     map (\<lambda>k. (k, opt_member d k)) [''type'', ''subject'', ''boundary'', ''policy'', ''evaluator'', ''evidenceManifest'',
       ''claims'', ''unresolved'', ''verdict'', ''generatedAt''] @ [(''metadata'', Some (or_null (opt_member d ''metadata'')))]"

definition decision_integrity :: "platform \<Rightarrow> jsval \<Rightarrow> bool res" where
  "decision_integrity P d =
     (if opt_member d ''type'' \<noteq> Some (JStr ''DECISION'') then Inr False
      else rbind (digest_fields P (decision_body d)) (\<lambda>x.
        Inr (opt_member d ''digest'' = Some (JStr x) \<and> opt_member d ''id'' = Some (JStr (''decision:'' @ x)))))"

definition create_decision_artifact :: "platform \<Rightarrow> json \<Rightarrow> json res" where
  "create_decision_artifact P args =
     (let arg = opt_member (Some args); boundary = arg_or (arg ''boundary'') (JStr ''VERIFICATION'') in
      rbind (invariant (one_of (Some boundary) trust_boundaries) ''decision boundary is invalid'') (\<lambda>_.
      rbind (js_array (Some (arg_or (arg ''claims'') (JArr [])))) (\<lambda>claims.
      rbind (map_res normalize_claim claims) (\<lambda>claims.
      rbind (distinct_claims [] claims) (\<lambda>_.
      rbind (define_subject (arg ''subject'')) (\<lambda>subject.
      rbind (define_policy_ref (arg ''policy'')) (\<lambda>policy.
      rbind (define_authority (arg ''evaluator'')) (\<lambda>evaluator.
      rbind (js_array (Some (arg_or (arg ''evidence'') (JArr [])))) (\<lambda>evidence.
      rbind (evidence_manifest P evidence) (\<lambda>manifest.
      rbind (need_text (arg ''verdict'') ''decision.verdict'') (\<lambda>verdict.
      rbind (need_text (arg ''generatedAt'') ''decision.generatedAt'') (\<lambda>generated_at.
        Inr (JObj (sealed P ''decision:''
          [(''type'', JStr ''DECISION''), (''subject'', subject), (''boundary'', boundary), (''policy'', policy),
           (''evaluator'', evaluator), (''evidenceManifest'', manifest), (''claims'', JArr claims),
           (''unresolved'', stable_value (arg_or (arg ''unresolved'') (JArr []))), (''verdict'', verdict),
           (''generatedAt'', generated_at), (''metadata'', optional_stable (arg ''metadata''))]))))))))))))))"

subsection \<open>Attestations\<close>

definition attestation_ref :: "jsval \<Rightarrow> (string \<times> string) res" where
  "attestation_ref a = artifact_ref a ''attestation''"

definition normalize_upstream :: "platform \<Rightarrow> json \<Rightarrow> json res" where
  "normalize_upstream P upstream =
     rbind (js_array (Some upstream)) (\<lambda>items.
     rbind (map_res (\<lambda>i. artifact_ref (Some i) ''upstream attestation'') items) (\<lambda>refs.
       Inr (JArr (map ref_json (sort_refs P refs)))))"

definition attestation_keys :: "string list" where
  "attestation_keys = [''type'', ''boundary'', ''subject'', ''decision'', ''policy'', ''issuer'', ''environment'',
     ''evidenceManifest'', ''upstreamAttestations'', ''issuedAt'']"

definition attestation_payload :: "jsval \<Rightarrow> (string \<times> jsval) list" where
  "attestation_payload a = map (\<lambda>k. (k, opt_member a k)) attestation_keys"

definition envelope_digest :: "platform \<Rightarrow> string \<Rightarrow> jsval \<Rightarrow> string res" where
  "envelope_digest P payload_digest signature =
     digest_fields P [(''payloadDigest'', Some (JStr payload_digest)), (''signature'', signature)]"

text \<open>The summary of a decision an attestation carries.\<close>

definition decision_summary :: "jsval \<Rightarrow> json" where
  "decision_summary d = obj (map (\<lambda>k. (k, opt_member d k)) [''id'', ''digest'', ''verdict'', ''claims''])"

text \<open>The object \<open>createAttestationIssuer\<close> returns holds the issuer and a closure; \<open>issue\<close> is that closure.\<close>

definition create_attestation_issuer :: "json \<Rightarrow> json res" where
  "create_attestation_issuer args =
     define_authority (Some (obj (map (\<lambda>k. (k, opt_member (Some args) k)) [''identity'', ''version'', ''roles''])))"

definition attestation_fields :: "platform \<Rightarrow> json \<Rightarrow> json \<Rightarrow> (string \<times> json) list res" where
  "attestation_fields P issuer args =
     (let arg = opt_member (Some args); decision = arg ''decision'' in
      rbind (decision_integrity P decision) (\<lambda>ok.
      rbind (invariant ok ''attestation requires an intact decision artifact'') (\<lambda>_.
      rbind (define_subject (opt_member decision ''subject'')) (\<lambda>subject.
      rbind (define_policy_ref (opt_member decision ''policy'')) (\<lambda>policy.
      rbind (define_environment_ref (arg ''environment'')) (\<lambda>environment.
      rbind (normalize_upstream P (arg_or (arg ''upstreamAttestations'') (JArr []))) (\<lambda>upstream.
      rbind (need_text (arg ''issuedAt'') ''attestation.issuedAt'') (\<lambda>issued_at.
        Inr [(''type'', JStr ''ATTESTATION''), (''boundary'', the (opt_member decision ''boundary'')),
             (''subject'', subject), (''decision'', decision_summary decision), (''policy'', policy), (''issuer'', issuer),
             (''environment'', environment), (''evidenceManifest'', the (opt_member decision ''evidenceManifest'')),
             (''upstreamAttestations'', upstream), (''issuedAt'', issued_at)]))))))))"

definition issue :: "platform \<Rightarrow> (json \<Rightarrow> jsval res) \<Rightarrow> json \<Rightarrow> json \<Rightarrow> json res" where
  "issue P sign issuer args =
     rbind (attestation_fields P issuer args) (\<lambda>payload.
       let payload_digest = trust_digest P (JObj payload) in
       rbind (sign (JObj [(''payloadDigest'', JStr payload_digest), (''payload'', JObj payload), (''issuer'', issuer)])) (\<lambda>signature.
       rbind (invariant (\<not> nullish signature) ''attestation issuer sign() must return a signature'') (\<lambda>_.
         let signature = stable_value (the signature);
             d = trust_digest P (JObj [(''payloadDigest'', JStr payload_digest), (''signature'', signature)])
         in Inr (JObj ([(''id'', JStr (''attestation:'' @ d)), (''digest'', JStr d), (''payloadDigest'', JStr payload_digest)] @
                       payload @ [(''signature'', signature)])))))"

subsection \<open>The trust policy\<close>

record trust_policy =
  boundary :: "string option"
  accepted_issuers :: "string list"
  accepted_policy_digests :: "string list"
  accepted_environment_digests :: "string list"
  required_issuer_roles :: "string list"
  accepted_evaluators :: "string list"
  required_evaluator_roles :: "string list"
  accepted_evidence_producers :: "string list"
  accepted_evidence_environment_digests :: "string list"
  required_evidence_producer_roles :: "string list"
  required_claims :: "string list"
  require_signature :: bool
  require_evidence_artifacts :: bool
  require_decision_artifact :: bool
  require_independent_issuer :: bool
  require_independent_evidence_producers :: bool
  max_age_ms :: "int option"

definition default_policy :: trust_policy where
  "default_policy =
     \<lparr>boundary = None, accepted_issuers = [], accepted_policy_digests = [], accepted_environment_digests = [],
      required_issuer_roles = [], accepted_evaluators = [], required_evaluator_roles = [], accepted_evidence_producers = [],
      accepted_evidence_environment_digests = [], required_evidence_producer_roles = [], required_claims = [],
      require_signature = True, require_evidence_artifacts = True, require_decision_artifact = True,
      require_independent_issuer = False, require_independent_evidence_producers = False, max_age_ms = None\<rparr>"

definition normalize_text_set :: "string list \<Rightarrow> string \<Rightarrow> string list res" where
  "normalize_text_set items label = map_sum id uniq (map_res (\<lambda>s. require_text (JStr s) label) items)"

definition normalize_role_set :: "string list \<Rightarrow> string list res" where
  "normalize_role_set roles = normalize_roles (JArr (map JStr roles))"

definition define_trust_policy :: "trust_policy \<Rightarrow> trust_policy res" where
  "define_trust_policy p =
     rbind (invariant (boundary p = None \<or> the (boundary p) \<in> set trust_boundaries) ''trust policy boundary is invalid'') (\<lambda>_.
     rbind (invariant (max_age_ms p = None \<or> 0 \<le> the (max_age_ms p)) ''trust policy maxAgeMs must be non-negative'') (\<lambda>_.
     rbind (normalize_text_set (accepted_issuers p) ''accepted issuer'') (\<lambda>issuers.
     rbind (normalize_text_set (accepted_policy_digests p) ''accepted policy digest'') (\<lambda>policies.
     rbind (normalize_text_set (accepted_environment_digests p) ''accepted environment digest'') (\<lambda>environments.
     rbind (normalize_role_set (required_issuer_roles p)) (\<lambda>issuer_roles.
     rbind (normalize_text_set (accepted_evaluators p) ''accepted evaluator'') (\<lambda>evaluators.
     rbind (normalize_role_set (required_evaluator_roles p)) (\<lambda>evaluator_roles.
     rbind (normalize_text_set (accepted_evidence_producers p) ''accepted evidence producer'') (\<lambda>producers.
     rbind (normalize_text_set (accepted_evidence_environment_digests p) ''accepted evidence environment digest'') (\<lambda>evidence_environments.
     rbind (normalize_role_set (required_evidence_producer_roles p)) (\<lambda>producer_roles.
     rbind (normalize_text_set (required_claims p) ''required claim'') (\<lambda>claims.
       Inr (p\<lparr>accepted_issuers := issuers, accepted_policy_digests := policies, accepted_environment_digests := environments,
              required_issuer_roles := issuer_roles, accepted_evaluators := evaluators,
              required_evaluator_roles := evaluator_roles, accepted_evidence_producers := producers,
              accepted_evidence_environment_digests := evidence_environments,
              required_evidence_producer_roles := producer_roles, required_claims := claims\<rparr>)))))))))))))"

subsection \<open>Evaluating an attestation\<close>

definition reason :: "string \<Rightarrow> (string \<times> jsval) list \<Rightarrow> json" where
  "reason code fs = obj ((''code'', Some (JStr code)) # fs)"

abbreviation reason_if :: "bool \<Rightarrow> string \<Rightarrow> (string \<times> jsval) list \<Rightarrow> json list res" where
  "reason_if c code fs \<equiv> Inr (if c then [reason code fs] else [])"

definition invalid_provenance :: "string \<Rightarrow> json list" where
  "invalid_provenance detail = [reason ''INVALID_PROVENANCE'' [(''detail'', Some (JStr detail))]]"

text \<open>An accept list that is empty accepts everything.\<close>

definition accepted :: "string list \<Rightarrow> jsval \<Rightarrow> bool" where
  "accepted xs v \<longleftrightarrow> xs = [] \<or> one_of v xs"

text \<open>\<open>a?.k ?? null\<close> of an authority, and other properties of properties.\<close>

definition path :: "jsval \<Rightarrow> string \<Rightarrow> string \<Rightarrow> jsval" where
  "path v k l = opt_member (opt_member v k) l"

definition path_or_null :: "jsval \<Rightarrow> string \<Rightarrow> string \<Rightarrow> jsval" where
  "path_or_null v k l = Some (or_null (path v k l))"

definition ref_texts :: "json list \<Rightarrow> string list res" where
  "ref_texts refs = map_res (\<lambda>r.
     rbind (js_member (Some r) ''id'') (\<lambda>id. rbind (js_member (Some r) ''digest'') (\<lambda>digest.
       Inr (js_text id @ '':'' @ js_text digest)))) refs"

definition validate_evidence_manifest :: "platform \<Rightarrow> jsval \<Rightarrow> json list \<Rightarrow> bool res" where
  "validate_evidence_manifest P attestation evidence =
     rbind (manifest_refs P evidence) (\<lambda>provided.
     rbind (js_array (Some (or_default (path attestation ''evidenceManifest'' ''refs'') (JArr [])))) (\<lambda>expected.
     rbind (ref_texts (map ref_json provided)) (\<lambda>provided_set.
     rbind (ref_texts expected) (\<lambda>expected_set.
       Inr (path attestation ''evidenceManifest'' ''digest'' = Some (JStr (refs_digest P provided)) \<and>
            length provided = length expected \<and>
            card (set provided_set) = card (set expected_set) \<and> set provided_set \<subseteq> set expected_set)))))"

definition same_decision_summary :: "platform \<Rightarrow> jsval \<Rightarrow> jsval \<Rightarrow> bool" where
  "same_decision_summary P attestation decision \<longleftrightarrow>
     strict_eq (path attestation ''decision'' ''id'') (opt_member decision ''id'') \<and>
     strict_eq (path attestation ''decision'' ''digest'') (opt_member decision ''digest'') \<and>
     strict_eq (path attestation ''decision'' ''verdict'') (opt_member decision ''verdict'') \<and>
     trust_digest P (or_default (path attestation ''decision'' ''claims'') (JArr [])) =
       trust_digest P (or_default (opt_member decision ''claims'') (JArr []))"

definition check_authority_roles :: "jsval \<Rightarrow> string list \<Rightarrow> string \<Rightarrow> json list res" where
  "check_authority_roles authority required code =
     rbind (js_iterate (or_default (opt_member authority ''roles'') (JArr []))) (\<lambda>roles.
       Inr (map (\<lambda>role. reason code [(''role'', Some (JStr role)),
                   (''identity'', Some (or_null (opt_member authority ''identity'')))])
             (filter (\<lambda>role. JStr role \<notin> set roles) required)))"

definition provenance_reasons :: "platform \<Rightarrow> jsval \<Rightarrow> json list res" where
  "provenance_reasons P a =
     rbind (digest_fields P (attestation_payload a)) (\<lambda>payload_digest.
     rbind (envelope_digest P payload_digest (opt_member a ''signature'')) (\<lambda>d.
       Inr (if opt_member a ''payloadDigest'' \<noteq> Some (JStr payload_digest) \<or>
               opt_member a ''digest'' \<noteq> Some (JStr d) \<or> opt_member a ''id'' \<noteq> Some (JStr (''attestation:'' @ d))
            then invalid_provenance ''attestation digest mismatch'' else [])))"

definition independence_reasons :: "jsval \<Rightarrow> json \<Rightarrow> trust_policy \<Rightarrow> json list" where
  "independence_reasons a subject p =
     (let producer = or_null (path (Some subject) ''producer'' ''identity'') in
      if require_independent_issuer p \<and>
         (producer = JNull \<or> strict_eq (Some producer) (path a ''issuer'' ''identity''))
      then [reason ''AUTHORITY_NOT_INDEPENDENT''
              [(''issuer'', path_or_null a ''issuer'' ''identity''), (''producer'', Some producer),
               (''detail'', Some (JStr (if producer = JNull then ''subject producer authority is unknown''
                                        else ''subject producer equals attestation issuer'')))]]
      else [])"

text \<open>\<open>new Map(claims.map(claim => [claim.name, claim])).get(required)\<close>: the last claim of that name.\<close>

definition find_claim :: "json list \<Rightarrow> string \<Rightarrow> jsval" where
  "find_claim claims name = last_opt (filter (\<lambda>c. claim_name c = Some (JStr name)) claims)"

definition claim_reasons :: "jsval \<Rightarrow> string list \<Rightarrow> json list res" where
  "claim_reasons a required =
     rbind (js_array (Some (or_default (path a ''decision'' ''claims'') (JArr [])))) (\<lambda>claims.
     rbind (map_res (\<lambda>c. js_member (Some c) ''name'') claims) (\<lambda>_.
       Inr (concat (map (\<lambda>name. case find_claim claims name of
           None \<Rightarrow> [reason ''MISSING_CLAIM'' [(''claim'', Some (JStr name))]]
         | Some c \<Rightarrow>
             if opt_member (Some c) ''status'' = Some (JStr ''SATISFIED'') then []
             else [reason ''UNSATISFIED_CLAIM'' [(''claim'', Some (JStr name)), (''status'', opt_member (Some c) ''status'')]])
         required))))"

definition producer_reasons :: "trust_policy \<Rightarrow> json \<Rightarrow> json \<Rightarrow> json list res" where
  "producer_reasons p subject_producer artifact =
     (let producer = or_null (path (Some artifact) ''producer'' ''identity'');
          environment = path (Some artifact) ''environment'' ''digest'' in
      gather
        [reason_if (\<not> accepted (accepted_evidence_producers p) (Some producer))
           ''UNTRUSTED_EVIDENCE_PRODUCER'' [(''producer'', Some producer)],
         reason_if (\<not> accepted (accepted_evidence_environment_digests p) environment)
           ''UNTRUSTED_EVIDENCE_ENVIRONMENT'' [(''producer'', Some producer), (''digest'', Some (or_null environment))],
         check_authority_roles (opt_member (Some artifact) ''producer'') (required_evidence_producer_roles p)
           ''MISSING_EVIDENCE_PRODUCER_ROLE'',
         reason_if (require_independent_evidence_producers p \<and>
                    (subject_producer = JNull \<or> strict_eq (Some producer) (Some subject_producer)))
           ''EVIDENCE_AUTHORITY_NOT_INDEPENDENT''
           [(''producer'', Some producer), (''subjectProducer'', Some subject_producer),
            (''detail'', Some (JStr (if subject_producer = JNull then ''subject producer authority is unknown''
                                     else ''evidence producer equals subject producer'')))]])"

definition evidence_reasons :: "platform \<Rightarrow> trust_policy \<Rightarrow> jsval \<Rightarrow> json \<Rightarrow> json list \<Rightarrow> json list res" where
  "evidence_reasons P p a subject evidence =
     (if \<not> require_evidence_artifacts p then Inr []
      else gather
        ([rbind (every_res (\<lambda>e. evidence_integrity P (Some e)) evidence) (\<lambda>ok.
            Inr (if ok then [] else invalid_provenance ''evidence artifact integrity failure'')),
          rbind (validate_evidence_manifest P a evidence) (\<lambda>ok.
            Inr (if ok then [] else invalid_provenance ''evidence manifest mismatch''))] @
         map (producer_reasons p (or_null (path (Some subject) ''producer'' ''identity''))) evidence))"

definition decision_reasons :: "platform \<Rightarrow> trust_policy \<Rightarrow> jsval \<Rightarrow> jsval \<Rightarrow> json list res" where
  "decision_reasons P p a d =
     (if \<not> require_decision_artifact p then Inr []
      else rbind (decision_integrity P d) (\<lambda>ok.
        if \<not> ok then Inr (invalid_provenance ''decision artifact missing or invalid'')
        else gather
          [Inr (if same_decision_summary P a d then [] else invalid_provenance ''attestation decision reference mismatch''),
           Inr (if strict_eq (path d ''subject'' ''type'') (path a ''subject'' ''type'') \<and>
                   strict_eq (path d ''subject'' ''digest'') (path a ''subject'' ''digest'')
                then [] else invalid_provenance ''decision subject mismatch''),
           Inr (if strict_eq (path d ''policy'' ''digest'') (path a ''policy'' ''digest'') \<and>
                   strict_eq (path d ''evidenceManifest'' ''digest'') (path a ''evidenceManifest'' ''digest'')
                then [] else invalid_provenance ''decision provenance mismatch''),
           reason_if (\<not> accepted (accepted_evaluators p) (path d ''evaluator'' ''identity''))
             ''UNTRUSTED_EVALUATOR'' [(''evaluator'', path_or_null d ''evaluator'' ''identity'')],
           check_authority_roles (opt_member d ''evaluator'') (required_evaluator_roles p) ''MISSING_EVALUATOR_ROLE'']))"

definition age_reasons :: "platform \<Rightarrow> trust_policy \<Rightarrow> jsval \<Rightarrow> string \<Rightarrow> json list" where
  "age_reasons P p a now =
     (case max_age_ms p of
        None \<Rightarrow> []
      | Some age \<Rightarrow>
          (case (date_parse P (opt_member a ''issuedAt''), date_parse P (Some (JStr now))) of
             (Some issued, Some current) \<Rightarrow>
               if current < issued \<or> age < current - issued then [reason ''EXPIRED'' []] else []
           | _ \<Rightarrow> [reason ''EXPIRED'' []]))"

text \<open>The verifier gets the attestation; the digest, signature and issuer it is also given are its properties.\<close>

definition signature_reasons :: "trust_policy \<Rightarrow> jsval \<Rightarrow> (json \<Rightarrow> jsval res) option \<Rightarrow> json list res" where
  "signature_reasons p a verify =
     (if \<not> require_signature p then Inr []
      else case verify of
        None \<Rightarrow> Inr [reason ''INVALID_SIGNATURE'' [(''detail'', Some (JStr ''signature verifier unavailable''))]]
      | Some f \<Rightarrow> rbind (f (the a)) (\<lambda>valid. reason_if (valid \<noteq> Some (JBool True)) ''INVALID_SIGNATURE'' []))"

record trust_result =
  trusted :: bool
  reasons :: "json list"
  result_subject :: jsval
  result_boundary :: jsval
  result_issuer :: jsval
  result_decision :: jsval

definition policy_reasons ::
  "platform \<Rightarrow> trust_policy \<Rightarrow> jsval \<Rightarrow> json \<Rightarrow> json list \<Rightarrow> jsval \<Rightarrow> (json \<Rightarrow> jsval res) option \<Rightarrow> string \<Rightarrow> json list res" where
  "policy_reasons P p a subject evidence decision verify now =
     gather
       [reason_if (\<not> (strict_eq (path a ''subject'' ''type'') (opt_member (Some subject) ''type'') \<and>
                      strict_eq (path a ''subject'' ''digest'') (opt_member (Some subject) ''digest''))) ''STALE_SUBJECT'' [],
        reason_if (boundary p \<noteq> None \<and> opt_member a ''boundary'' \<noteq> map_option JStr (boundary p)) ''WRONG_BOUNDARY''
          [(''expected'', map_option JStr (boundary p)), (''actual'', opt_member a ''boundary'')],
        reason_if (\<not> accepted (accepted_policy_digests p) (path a ''policy'' ''digest'')) ''STALE_POLICY''
          [(''digest'', path_or_null a ''policy'' ''digest'')],
        reason_if (\<not> accepted (accepted_environment_digests p) (path a ''environment'' ''digest'')) ''UNTRUSTED_ENVIRONMENT''
          [(''digest'', path_or_null a ''environment'' ''digest'')],
        reason_if (\<not> accepted (accepted_issuers p) (path a ''issuer'' ''identity'')) ''UNTRUSTED_ISSUER''
          [(''issuer'', path_or_null a ''issuer'' ''identity'')],
        check_authority_roles (opt_member a ''issuer'') (required_issuer_roles p) ''MISSING_ISSUER_ROLE'',
        Inr (independence_reasons a subject p),
        claim_reasons a (required_claims p),
        evidence_reasons P p a subject evidence,
        decision_reasons P p a decision,
        Inr (age_reasons P p a now),
        signature_reasons p a verify]"

definition evaluate_attestation_trust ::
  "platform \<Rightarrow> jsval \<Rightarrow> jsval \<Rightarrow> trust_policy \<Rightarrow> json list \<Rightarrow> jsval \<Rightarrow> (json \<Rightarrow> jsval res) option \<Rightarrow> string
     \<Rightarrow> trust_result res" where
  "evaluate_attestation_trust P a current_subject policy evidence decision verify now =
     rbind (invariant (is_object a) ''attestation is required'') (\<lambda>_.
     rbind (define_trust_policy policy) (\<lambda>p.
     rbind (provenance_reasons P a) (\<lambda>first.
     rbind (define_subject current_subject) (\<lambda>subject.
     rbind (policy_reasons P p a subject evidence decision verify now) (\<lambda>others.
       Inr \<lparr>trusted = (first @ others = []), reasons = first @ others, result_subject = opt_member a ''subject'',
            result_boundary = opt_member a ''boundary'', result_issuer = opt_member a ''issuer'',
            result_decision = opt_member a ''decision''\<rparr>)))))"

subsection \<open>From verifications and evaluations to artifacts\<close>

text \<open>\<open>toLowerCase\<close> on the characters below 256.\<close>

definition lower_char :: "char \<Rightarrow> char" where
  "lower_char c =
     (let n = of_char c :: nat in
      if 65 \<le> n \<and> n \<le> 90 \<or> 192 \<le> n \<and> n \<le> 222 \<and> n \<noteq> 215 then char_of (n + 32) else c)"

definition lower_case :: "jsval \<Rightarrow> string res" where
  "lower_case v =
     (case v of Some (JStr s) \<Rightarrow> Inr (map lower_char s) | _ \<Rightarrow> Inl (TypeFault ''toLowerCase is not a function''))"

definition verification_producer :: "jsval \<Rightarrow> json res" where
  "verification_producer verification =
     (let source = Some (or_default (opt_member verification ''source'')
                           (JObj [(''kind'', JStr ''MANUAL''), (''name'', JNull)]));
          name = opt_member source ''name'' in
      rbind (lower_case (opt_member source ''kind'')) (\<lambda>kind.
        Inr (JObj [(''identity'', JStr (if truthy name then kind @ '':'' @ js_text name else kind)),
                   (''version'', JNull), (''roles'', JArr [JStr ''verifier''])])))"

definition evidence_from_verification :: "platform \<Rightarrow> jsval \<Rightarrow> json \<Rightarrow> json res" where
  "evidence_from_verification P verification opts =
     (let v = opt_member verification; opt = opt_member (Some opts) in
      rbind (invariant (is_object verification) ''verification artifact is required'') (\<lambda>_.
      rbind (verification_producer verification) (\<lambda>producer.
      rbind (defined_fields ''evidence.content''
        [(''claim'', v ''claim''), (''status'', v ''status''), (''evidence'', Some (or_default (v ''evidence'') (JArr []))),
         (''summary'', Some (or_null (v ''summary''))), (''details'', Some (or_null (v ''details''))),
         (''request'', Some (or_null (v ''request'')))]) (\<lambda>content.
        create_evidence_artifact P (obj
          [(''subject'', opt ''subject''), (''kind'', Some (JStr ''VERIFICATION'')), (''producer'', Some producer),
           (''environment'', opt ''environment''),
           (''generatedAt'', if opt ''generatedAt'' = None then v ''at'' else opt ''generatedAt''),
           (''metadata'', Some (JObj [(''verificationId'', or_null (v ''id'')), (''claim'', the (v ''claim'')),
                                      (''verificationStatus'', the (v ''status''))])),
           (''content'', Some (JObj content))])))))"

text \<open>
  Statuses grouped by claim.  A \<open>Map\<close> finds an object key only by identity, so claims that
  are objects stay apart.  The code would throw from \<open>localeCompare\<close> on a claim that is not
  text; here it is refused with the artifact that is made of it.
\<close>

fun add_status :: "json \<Rightarrow> json \<Rightarrow> (json \<times> json list) list \<Rightarrow> (json \<times> json list) list" where
  "add_status c s [] = [(c, [s])]"
| "add_status c s ((c', ss) # r) =
     (if strict_eq (Some c) (Some c')
      then (c', if s \<in> set ss \<and> \<not> compound s then ss else ss @ [s]) # r else (c', ss) # add_status c s r)"

fun group_statuses :: "(json \<times> json list) list \<Rightarrow> json list \<Rightarrow> (json \<times> json list) list res" where
  "group_statuses g [] = Inr g"
| "group_statuses g (a # as) =
     rbind (js_member (Some a) ''metadata'') (\<lambda>m.
       let c = opt_member m ''claim''; s = opt_member m ''verificationStatus'' in
       if truthy c \<and> truthy s then group_statuses (add_status (the c) (the s) g) as else group_statuses g as)"

definition claim_status :: "json list \<Rightarrow> string" where
  "claim_status statuses =
     (if JStr ''FAIL'' \<in> set statuses then ''UNSATISFIED''
      else if statuses = [JStr ''PASS''] then ''SATISFIED'' else ''UNKNOWN'')"

definition claims_from_evidence :: "platform \<Rightarrow> json list \<Rightarrow> json list res" where
  "claims_from_evidence P evidence =
     map_sum id (\<lambda>g. map (\<lambda>(name, statuses).
         JObj [(''name'', name), (''status'', JStr (claim_status statuses)),
               (''details'', JObj [(''verificationStatuses'', JArr (sort_key (\<lambda>s. js_text (Some s)) statuses))])])
       (sort_key (\<lambda>e. collation_key P (js_text (Some (fst e)))) g)) (group_statuses [] evidence)"

definition decision_from_evaluation :: "platform \<Rightarrow> jsval \<Rightarrow> json \<Rightarrow> json res" where
  "decision_from_evaluation P evaluation opts =
     (let e = opt_member evaluation; opt = opt_member (Some opts) in
      rbind (invariant (is_object evaluation) ''evaluation is required'') (\<lambda>_.
      rbind (js_array (Some (arg_or (opt ''evidence'') (JArr [])))) (\<lambda>evidence.
      rbind (if nullish (opt ''claims'') then map_sum id JArr (claims_from_evidence P evidence)
             else Inr (the (opt ''claims''))) (\<lambda>claims.
        create_decision_artifact P (obj
          [(''subject'', opt ''subject''), (''boundary'', Some (arg_or (opt ''boundary'') (JStr ''VERIFICATION''))),
           (''policy'', opt ''policy''), (''evaluator'', opt ''evaluator''), (''evidence'', Some (JArr evidence)),
           (''claims'', Some claims), (''unresolved'', Some (arg_or (opt ''unresolved'') (JArr []))),
           (''verdict'', if opt ''verdict'' = None then e ''verdict'' else opt ''verdict''),
           (''generatedAt'', if opt ''generatedAt'' = None then e ''at'' else opt ''generatedAt''),
           (''metadata'', Some (JObj [(''evaluationId'', or_null (e ''id'')), (''validity'', or_null (e ''validity'')),
                                      (''originalVerdict'', or_null (e ''verdict''))]))])))))"

subsection \<open>The bundle check\<close>

definition validate_trust_bundle :: "platform \<Rightarrow> json list \<Rightarrow> jsval \<Rightarrow> jsval \<Rightarrow> (json list \<times> jsval \<times> jsval) res" where
  "validate_trust_bundle P evidence decision a =
     rbind (every_res (\<lambda>e. evidence_integrity P (Some e)) evidence) (\<lambda>ok.
     rbind (invariant ok ''trust bundle contains invalid evidence artifact'') (\<lambda>_.
     rbind (decision_integrity P decision) (\<lambda>ok.
     rbind (invariant ok ''trust bundle requires intact decision artifact'') (\<lambda>_.
     rbind (invariant (opt_member a ''type'' = Some (JStr ''ATTESTATION'')) ''trust bundle requires attestation'') (\<lambda>_.
     rbind (invariant (strict_eq (opt_member decision ''digest'') (path a ''decision'' ''digest''))
              ''attestation decision digest does not match decision artifact'') (\<lambda>_.
     rbind (invariant (strict_eq (opt_member decision ''id'') (path a ''decision'' ''id''))
              ''attestation decision id does not match decision artifact'') (\<lambda>_.
     rbind (js_member (opt_member decision ''subject'') ''type'') (\<lambda>type.
     rbind (invariant (strict_eq type (path a ''subject'' ''type'') \<and>
                       strict_eq (path decision ''subject'' ''digest'') (path a ''subject'' ''digest''))
              ''attestation subject does not match decision subject'') (\<lambda>_.
     rbind (js_member (opt_member decision ''policy'') ''digest'') (\<lambda>policy_digest.
     rbind (invariant (strict_eq policy_digest (path a ''policy'' ''digest''))
              ''attestation policy does not match decision policy'') (\<lambda>_.
     rbind (validate_evidence_manifest P a evidence) (\<lambda>ok.
     rbind (invariant ok ''attestation evidence manifest does not match evidence artifacts'') (\<lambda>_.
     rbind (digest_fields P (attestation_payload a)) (\<lambda>payload_digest.
     rbind (invariant (opt_member a ''payloadDigest'' = Some (JStr payload_digest)) ''attestation payload digest is invalid'') (\<lambda>_.
     rbind (envelope_digest P payload_digest (opt_member a ''signature'')) (\<lambda>d.
     rbind (invariant (opt_member a ''digest'' = Some (JStr d)) ''attestation envelope digest is invalid'') (\<lambda>_.
       Inr (evidence, decision, a))))))))))))))))))"

end
