(* ===== verification/Trust_Boundary.thy ===== *)
theory Trust_Boundary
  imports Trust
begin

section \<open>Trust at a boundary and along a chain of attestations\<close>

text \<open>
  Models \<open>packages/core-harness/src/trust-boundary.js\<close> and \<open>trust-chain.js\<close>.  The verifiers
  of authorities and of upstream attestations are the caller's functions, absent or given.
\<close>

subsection \<open>The effective policy\<close>

definition issuer_authority_required :: "trust_policy \<Rightarrow> bool" where
  "issuer_authority_required p \<longleftrightarrow>
     accepted_issuers p \<noteq> [] \<or> required_issuer_roles p \<noteq> [] \<or> require_independent_issuer p"

definition evaluator_authority_required :: "trust_policy \<Rightarrow> bool" where
  "evaluator_authority_required p \<longleftrightarrow> accepted_evaluators p \<noteq> [] \<or> required_evaluator_roles p \<noteq> []"

definition evidence_authority_required :: "trust_policy \<Rightarrow> bool" where
  "evidence_authority_required p \<longleftrightarrow>
     accepted_evidence_producers p \<noteq> [] \<or> accepted_evidence_environment_digests p \<noteq> [] \<or>
     required_evidence_producer_roles p \<noteq> [] \<or> require_independent_evidence_producers p"

definition effective_policy :: "trust_policy \<Rightarrow> trust_policy res" where
  "effective_policy p =
     define_trust_policy
       (p\<lparr>require_signature := require_signature p \<or> issuer_authority_required p,
          require_decision_artifact := require_decision_artifact p \<or> evaluator_authority_required p,
          require_evidence_artifacts := require_evidence_artifacts p \<or> evidence_authority_required p\<rparr>)"

subsection \<open>The boundary\<close>

text \<open>An authority verifier sees the artifact it is asked about, the attestation, the subject and the policy.\<close>

type_synonym authority_verifier = "json \<Rightarrow> jsval \<Rightarrow> jsval \<Rightarrow> trust_policy \<Rightarrow> jsval res"

definition verified_by ::
  "authority_verifier option \<Rightarrow> jsval \<Rightarrow> jsval \<Rightarrow> jsval \<Rightarrow> trust_policy \<Rightarrow> bool res" where
  "verified_by verify artifact a subject p =
     (if \<not> truthy artifact then Inr False
      else case verify of
        None \<Rightarrow> Inr False
      | Some f \<Rightarrow> map_sum id (\<lambda>v. v = Some (JBool True)) (f (the artifact) a subject p))"

definition verifier_detail :: "authority_verifier option \<Rightarrow> string \<Rightarrow> jsval" where
  "verifier_detail verify who =
     Some (JStr (who @ (if verify = None then '' authority verifier unavailable'' else '' authority verification failed'')))"

definition evaluator_boundary_reasons ::
  "trust_policy \<Rightarrow> jsval \<Rightarrow> jsval \<Rightarrow> jsval \<Rightarrow> authority_verifier option \<Rightarrow> json list res" where
  "evaluator_boundary_reasons p a decision subject verify =
     (if \<not> evaluator_authority_required p then Inr []
      else rbind (verified_by verify decision a subject p) (\<lambda>ok.
        reason_if (\<not> ok) ''UNVERIFIED_EVALUATOR_AUTHORITY''
          [(''evaluator'', path_or_null decision ''evaluator'' ''identity''), (''detail'', verifier_detail verify ''evaluator'')]))"

definition evidence_boundary_reasons ::
  "trust_policy \<Rightarrow> jsval \<Rightarrow> json list \<Rightarrow> jsval \<Rightarrow> authority_verifier option \<Rightarrow> json list res" where
  "evidence_boundary_reasons p a evidence subject verify =
     (if \<not> evidence_authority_required p then Inr []
      else gather
        (reason_if (evidence = []) ''UNVERIFIED_EVIDENCE_AUTHORITY''
           [(''evidenceId'', Some JNull), (''producer'', Some JNull),
            (''detail'', Some (JStr ''evidence authority policy requires evidence artifacts''))] #
         map (\<lambda>e. rbind (verified_by verify (Some e) a subject p) (\<lambda>ok.
             reason_if (\<not> ok) ''UNVERIFIED_EVIDENCE_AUTHORITY''
               [(''evidenceId'', Some (or_null (opt_member (Some e) ''id''))),
                (''producer'', path_or_null (Some e) ''producer'' ''identity''),
                (''detail'', verifier_detail verify ''evidence'')])) evidence))"

record boundary_result =
  boundary_trusted :: bool
  boundary_reasons :: "json list"
  local_result :: trust_result
  attested :: jsval

definition evaluate_trust_boundary ::
  "platform \<Rightarrow> jsval \<Rightarrow> jsval \<Rightarrow> json list \<Rightarrow> jsval \<Rightarrow> trust_policy \<Rightarrow> (json \<Rightarrow> jsval res) option \<Rightarrow>
     authority_verifier option \<Rightarrow> authority_verifier option \<Rightarrow> string \<Rightarrow> boundary_result res" where
  "evaluate_trust_boundary P a decision evidence subject policy verify verify_evaluator verify_evidence now =
     rbind (define_trust_policy policy) (\<lambda>declared.
     rbind (effective_policy declared) (\<lambda>p.
     rbind (evaluate_attestation_trust P a subject p evidence decision verify now) (\<lambda>local.
     rbind (evaluator_boundary_reasons p a decision subject verify_evaluator) (\<lambda>evaluator.
     rbind (evidence_boundary_reasons p a evidence subject verify_evidence) (\<lambda>producers.
       let all = reasons local @ evaluator @ producers in
       Inr \<lparr>boundary_trusted = (all = []), boundary_reasons = all, local_result = local, attested = a\<rparr>)))))"

subsection \<open>The chain\<close>

record upstream_ref =
  ref_id :: jsval
  ref_digest :: jsval

record chain_result =
  chain_trusted :: bool
  chain_reasons :: "json list"
  chain_local :: boundary_result
  upstream :: "(upstream_ref \<times> jsval) list"

definition upstream_ref_json :: "upstream_ref \<Rightarrow> json" where
  "upstream_ref_json r = obj [(''id'', ref_id r), (''digest'', ref_digest r)]"

definition read_ref :: "json \<Rightarrow> upstream_ref res" where
  "read_ref r =
     rbind (js_member (Some r) ''id'') (\<lambda>id. rbind (js_member (Some r) ''digest'') (\<lambda>digest.
       Inr \<lparr>ref_id = id, ref_digest = digest\<rparr>))"

text \<open>One upstream reference: a reason, or the boundary it was verified at.\<close>

definition check_upstream :: "(json \<Rightarrow> jsval res) option \<Rightarrow> json \<Rightarrow> (json list \<times> (upstream_ref \<times> jsval) list) res" where
  "check_upstream verify ref =
     rbind (case verify of None \<Rightarrow> map_sum id (\<lambda>_. None) (read_ref ref)
                         | Some f \<Rightarrow> rbind (read_ref ref) (\<lambda>r. f (upstream_ref_json r))) (\<lambda>result.
     rbind (read_ref ref) (\<lambda>r.
       let supplied = Some (or_null (opt_member result ''attestation''));
           matches = strict_eq (opt_member supplied ''id'') (ref_id r) \<and> strict_eq (opt_member supplied ''digest'') (ref_digest r)
       in if opt_member result ''trusted'' = Some (JBool True) \<and> matches
          then rbind (if nullish (opt_member result ''boundary'') then js_member supplied ''boundary''
                      else Inr (opt_member result ''boundary'')) (\<lambda>b.
            Inr ([], [(r, Some (or_null b))]))
          else Inr ([reason ''UNTRUSTED_UPSTREAM_ATTESTATION''
            [(''ref'', Some (upstream_ref_json r)),
             (''detail'', Some (JStr (if nullish result then ''upstream trust verification unavailable''
                else if matches then ''upstream attestation was not trusted''
                else ''upstream trust result does not match referenced attestation'')))]], [])))"

definition evaluate_chain_trust ::
  "platform \<Rightarrow> jsval \<Rightarrow> json list \<Rightarrow> (json \<Rightarrow> jsval res) option \<Rightarrow> boundary_result res \<Rightarrow> chain_result res" where
  "evaluate_chain_trust P a required verify_upstream boundary_evaluation =
     rbind (invariant (is_object a) ''attestation is required'') (\<lambda>_.
     rbind (map_res (\<lambda>b. require_text b ''required upstream boundary'') required) (\<lambda>required.
     rbind boundary_evaluation (\<lambda>local.
     rbind (js_iterate (or_default (opt_member a ''upstreamAttestations'') (JArr []))) (\<lambda>refs.
     rbind (map_res (check_upstream verify_upstream) refs) (\<lambda>checks.
       let verified = concat (map snd checks);
           all = boundary_reasons local @ concat (map fst checks) @
             map (\<lambda>b. reason ''MISSING_UPSTREAM_BOUNDARY'' [(''boundary'', Some (JStr b))])
               (filter (\<lambda>b. Some (JStr b) \<notin> snd ` set verified) (uniq required))
       in Inr \<lparr>chain_trusted = (all = []), chain_reasons = all, chain_local = local, upstream = verified\<rparr>)))))"

definition evaluate_attestation_chain_trust ::
  "platform \<Rightarrow> jsval \<Rightarrow> json list \<Rightarrow> (json \<Rightarrow> jsval res) option \<Rightarrow> jsval \<Rightarrow> json list \<Rightarrow> jsval \<Rightarrow> trust_policy \<Rightarrow>
     (json \<Rightarrow> jsval res) option \<Rightarrow> authority_verifier option \<Rightarrow> authority_verifier option \<Rightarrow> string \<Rightarrow> chain_result res" where
  "evaluate_attestation_chain_trust P a required verify_upstream decision evidence subject policy verify
     verify_evaluator verify_evidence now =
     evaluate_chain_trust P a required verify_upstream
       (evaluate_trust_boundary P a decision evidence subject policy verify verify_evaluator verify_evidence now)"

end
