(* ===== verification/Trust_Props.thy ===== *)
theory Trust_Props
  imports Trust_Boundary
begin

section \<open>Trust: what a verdict means\<close>

text \<open>
  What \<open>trusted: true\<close> of \<open>evaluateAttestationTrust\<close>, \<open>evaluateTrustBoundary\<close> and
  \<open>evaluateAttestationChainTrust\<close> says about the artifacts, and that artifacts made by this
  code are accepted.  Facts that rest on digests hold up to a collision of the hash function.
\<close>

subsection \<open>When a check pushes no reason\<close>

definition intact_attestation :: "platform \<Rightarrow> jsval \<Rightarrow> bool" where
  "intact_attestation P a \<longleftrightarrow>
     (\<exists>payload_digest d. digest_fields P (attestation_payload a) = Inr payload_digest \<and>
        envelope_digest P payload_digest (opt_member a ''signature'') = Inr d \<and>
        opt_member a ''payloadDigest'' = Some (JStr payload_digest) \<and> opt_member a ''digest'' = Some (JStr d) \<and>
        opt_member a ''id'' = Some (JStr (''attestation:'' @ d)))"

definition holds_roles :: "jsval \<Rightarrow> string list \<Rightarrow> bool" where
  "holds_roles authority required \<longleftrightarrow>
     (\<exists>roles. js_iterate (or_default (opt_member authority ''roles'') (JArr [])) = Inr roles \<and>
        JStr ` set required \<subseteq> set roles)"

definition claim_satisfied :: "json list \<Rightarrow> string \<Rightarrow> bool" where
  "claim_satisfied claims name \<longleftrightarrow>
     (\<exists>c. find_claim claims name = Some c \<and> opt_member (Some c) ''status'' = Some (JStr ''SATISFIED''))"

definition claims_hold :: "jsval \<Rightarrow> string list \<Rightarrow> bool" where
  "claims_hold a required \<longleftrightarrow>
     (\<exists>claims. js_array (Some (or_default (path a ''decision'' ''claims'') (JArr []))) = Inr claims \<and>
        \<not> (\<exists>c \<in> set claims. c = JNull) \<and> (\<forall>name \<in> set required. claim_satisfied claims name))"

definition independent :: "json \<Rightarrow> jsval \<Rightarrow> bool" where
  "independent producer other \<longleftrightarrow> producer \<noteq> JNull \<and> \<not> strict_eq (Some producer) other"

definition producer_acceptable :: "trust_policy \<Rightarrow> json \<Rightarrow> json \<Rightarrow> bool" where
  "producer_acceptable p subject_producer e \<longleftrightarrow>
     accepted (accepted_evidence_producers p) (Some (or_null (path (Some e) ''producer'' ''identity''))) \<and>
     accepted (accepted_evidence_environment_digests p) (path (Some e) ''environment'' ''digest'') \<and>
     holds_roles (opt_member (Some e) ''producer'') (required_evidence_producer_roles p) \<and>
     (require_independent_evidence_producers p \<longrightarrow>
        subject_producer \<noteq> JNull \<and>
        \<not> strict_eq (Some (or_null (path (Some e) ''producer'' ''identity''))) (Some subject_producer))"

definition evidence_acceptable :: "platform \<Rightarrow> trust_policy \<Rightarrow> jsval \<Rightarrow> json \<Rightarrow> json list \<Rightarrow> bool" where
  "evidence_acceptable P p a subject evidence \<longleftrightarrow>
     (\<forall>e \<in> set evidence. evidence_integrity P (Some e) = Inr True) \<and>
     validate_evidence_manifest P a evidence = Inr True \<and>
     (\<forall>e \<in> set evidence. producer_acceptable p (or_null (path (Some subject) ''producer'' ''identity'')) e)"

definition decision_acceptable :: "platform \<Rightarrow> trust_policy \<Rightarrow> jsval \<Rightarrow> jsval \<Rightarrow> bool" where
  "decision_acceptable P p a d \<longleftrightarrow>
     decision_integrity P d = Inr True \<and> same_decision_summary P a d \<and>
     strict_eq (path d ''subject'' ''type'') (path a ''subject'' ''type'') \<and>
     strict_eq (path d ''subject'' ''digest'') (path a ''subject'' ''digest'') \<and>
     strict_eq (path d ''policy'' ''digest'') (path a ''policy'' ''digest'') \<and>
     strict_eq (path d ''evidenceManifest'' ''digest'') (path a ''evidenceManifest'' ''digest'') \<and>
     accepted (accepted_evaluators p) (path d ''evaluator'' ''identity'') \<and>
     holds_roles (opt_member d ''evaluator'') (required_evaluator_roles p)"

definition young_enough :: "platform \<Rightarrow> int \<Rightarrow> jsval \<Rightarrow> string \<Rightarrow> bool" where
  "young_enough P age a now \<longleftrightarrow>
     (\<exists>issued current. date_parse P (opt_member a ''issuedAt'') = Some issued \<and>
        date_parse P (Some (JStr now)) = Some current \<and> issued \<le> current \<and> current - issued \<le> age)"

definition signed :: "jsval \<Rightarrow> (json \<Rightarrow> jsval res) option \<Rightarrow> bool" where
  "signed a verify \<longleftrightarrow> (\<exists>f. verify = Some f \<and> f (the a) = Inr (Some (JBool True)))"

named_theorems no_reason \<open>when a check pushes nothing\<close>

lemma provenance_Nil [no_reason]: "provenance_reasons P a = Inr [] \<longleftrightarrow> intact_attestation P a"
  by (auto simp: provenance_reasons_def intact_attestation_def invalid_provenance_def split: if_splits)

lemma roles_Nil [no_reason]: "check_authority_roles authority required code = Inr [] \<longleftrightarrow> holds_roles authority required"
  by (auto simp: check_authority_roles_def holds_roles_def filter_empty_conv)

lemma map_res_Inr_all: "(\<exists>ys. map_res f xs = Inr ys) \<longleftrightarrow> (\<forall>x \<in> set xs. \<exists>y. f x = Inr y)"
  by (induction xs) auto

lemma js_member_Inr: "(\<exists>x. js_member (Some v) k = Inr x) \<longleftrightarrow> v \<noteq> JNull"
  by (auto simp: js_member_def nullish_def)

lemma claims_Nil [no_reason]: "claim_reasons a required = Inr [] \<longleftrightarrow> claims_hold a required"
proof -
  have "(\<exists>ys. map_res (\<lambda>c. js_member (Some c) ''name'') claims = Inr ys) \<longleftrightarrow> \<not> (\<exists>c \<in> set claims. c = JNull)" for claims
    by (auto simp: map_res_Inr_all js_member_Inr)
  moreover have "(case find_claim claims name of None \<Rightarrow> [x]
      | Some c \<Rightarrow> if opt_member (Some c) ''status'' = Some (JStr ''SATISFIED'') then [] else [y c]) = [] \<longleftrightarrow>
      claim_satisfied claims name" for claims name x and y :: "json \<Rightarrow> json"
    by (auto simp: claim_satisfied_def split: option.splits if_splits)
  ultimately show ?thesis
    by (auto simp: claim_reasons_def claims_hold_def)
qed

lemma independence_Nil [no_reason]:
  "independence_reasons a subject p = [] \<longleftrightarrow>
     (require_independent_issuer p \<longrightarrow>
        independent (or_null (path (Some subject) ''producer'' ''identity'')) (path a ''issuer'' ''identity''))"
  by (auto simp: independence_reasons_def independent_def Let_def)

lemma age_Nil [no_reason]:
  "age_reasons P p a now = [] \<longleftrightarrow> (\<forall>age. max_age_ms p = Some age \<longrightarrow> young_enough P age a now)"
  by (auto simp: age_reasons_def young_enough_def split: option.splits)

lemma signature_Nil [no_reason]: "signature_reasons p a verify = Inr [] \<longleftrightarrow> (require_signature p \<longrightarrow> signed a verify)"
  by (auto simp: signature_reasons_def signed_def split: option.splits if_splits)

lemma producer_Nil [no_reason]: "producer_reasons p subject_producer e = Inr [] \<longleftrightarrow> producer_acceptable p subject_producer e"
  by (auto simp: producer_reasons_def producer_acceptable_def Let_def no_reason split: if_splits)

lemma evidence_Nil [no_reason]:
  "evidence_reasons P p a subject evidence = Inr [] \<longleftrightarrow>
     (require_evidence_artifacts p \<longrightarrow> evidence_acceptable P p a subject evidence)"
  by (auto simp: evidence_reasons_def evidence_acceptable_def invalid_provenance_def no_reason split: if_splits)

lemma decision_Nil [no_reason]:
  "decision_reasons P p a d = Inr [] \<longleftrightarrow> (require_decision_artifact p \<longrightarrow> decision_acceptable P p a d)"
  by (auto simp: decision_reasons_def decision_acceptable_def invalid_provenance_def no_reason split: if_splits)

lemma evaluate_trusted:
  "evaluate_attestation_trust P a cs policy evidence d verify now = Inr r \<Longrightarrow>
     \<exists>p subject. define_trust_policy policy = Inr p \<and> define_subject cs = Inr subject \<and> is_object a \<and>
       (trusted r \<longleftrightarrow> provenance_reasons P a = Inr [] \<and> policy_reasons P p a subject evidence d verify now = Inr [])"
  by (auto simp: evaluate_attestation_trust_def)

text \<open>C29: An attestation is trusted exactly when it is intact and about the current subject, everything the policy
  names accepts it, every required claim is SATISFIED, and the evidence, the decision, the age and the signature
  the policy asks for check out.\<close>

theorem trusted_iff_policy_holds:
  assumes "evaluate_attestation_trust P a cs policy evidence d verify now = Inr r"
    "define_trust_policy policy = Inr p" "define_subject cs = Inr subject"
  shows "trusted r \<longleftrightarrow>
    intact_attestation P a \<and>
    strict_eq (path a ''subject'' ''type'') (opt_member (Some subject) ''type'') \<and>
    strict_eq (path a ''subject'' ''digest'') (opt_member (Some subject) ''digest'') \<and>
    (boundary p = None \<or> opt_member a ''boundary'' = map_option JStr (boundary p)) \<and>
    accepted (accepted_policy_digests p) (path a ''policy'' ''digest'') \<and>
    accepted (accepted_environment_digests p) (path a ''environment'' ''digest'') \<and>
    accepted (accepted_issuers p) (path a ''issuer'' ''identity'') \<and>
    holds_roles (opt_member a ''issuer'') (required_issuer_roles p) \<and>
    (require_independent_issuer p \<longrightarrow>
       independent (or_null (path (Some subject) ''producer'' ''identity'')) (path a ''issuer'' ''identity'')) \<and>
    claims_hold a (required_claims p) \<and>
    (require_evidence_artifacts p \<longrightarrow> evidence_acceptable P p a subject evidence) \<and>
    (require_decision_artifact p \<longrightarrow> decision_acceptable P p a d) \<and>
    (\<forall>age. max_age_ms p = Some age \<longrightarrow> young_enough P age a now) \<and>
    (require_signature p \<longrightarrow> signed a verify)"
  using evaluate_trusted [OF assms(1)] assms(2,3)
  by (auto simp: policy_reasons_def no_reason)

subsection \<open>Artifacts are what they were sealed as\<close>

lemma opt_member_sealed:
  "opt_member (Some (JObj (sealed P prefix body @ rest))) k =
     (if k = ''id'' then Some (JStr (prefix @ trust_digest P (JObj body)))
      else if k = ''digest'' then Some (JStr (trust_digest P (JObj body)))
      else case map_of body k of Some v \<Rightarrow> Some v | None \<Rightarrow> map_of rest k)"
  by (simp add: sealed_def Let_def map_add_def split: option.split)

lemma optional_text_or_null [simp]:
  "optional_text v label = Inr x \<Longrightarrow> or_null (Some x) = x"
  by (auto simp: or_default_def nullish_def)

lemma or_null_id [simp]: "or_null (Some x) = x"
  by (auto simp: or_default_def nullish_def)

lemma evidence_body_sealed:
  assumes "map fst body = [''type'', ''subject'', ''kind'', ''producer'', ''environment'', ''contentDigest'', ''uri'',
     ''metadata'', ''generatedAt'']"
  shows "evidence_body (Some (JObj (sealed P prefix body @ rest))) = map (\<lambda>kv. (fst kv, Some (snd kv))) body"
proof -
  from assms obtain a b c d e f g h i where
    "body = [(''type'', a), (''subject'', b), (''kind'', c), (''producer'', d), (''environment'', e), (''contentDigest'', f),
       (''uri'', g), (''metadata'', h), (''generatedAt'', i)]"
    by (auto simp: map_eq_Cons_conv)
  then show ?thesis by (simp add: evidence_body_def opt_member_sealed del: opt_member.simps)
qed

lemma decision_body_sealed:
  assumes "map fst body = [''type'', ''subject'', ''boundary'', ''policy'', ''evaluator'', ''evidenceManifest'',
       ''claims'', ''unresolved'', ''verdict'', ''generatedAt'', ''metadata'']"
  shows "decision_body (Some (JObj (sealed P prefix body @ rest))) = map (\<lambda>kv. (fst kv, Some (snd kv))) body"
proof -
  from assms obtain a b c d e f g h i j k where
    "body = [(''type'', a), (''subject'', b), (''boundary'', c), (''policy'', d), (''evaluator'', e), (''evidenceManifest'', f),
       (''claims'', g), (''unresolved'', h), (''verdict'', i), (''generatedAt'', j), (''metadata'', k)]"
    by (auto simp: map_eq_Cons_conv)
  then show ?thesis by (simp add: decision_body_def opt_member_sealed del: opt_member.simps)
qed

lemma digest_defined: "digest_fields P (map (\<lambda>kv. (fst kv, Some (snd kv))) body) = Inr (trust_digest P (JObj body))"
  by (auto simp: digest_fields_Inr comp_def)

lemma created_evidence:
  assumes "create_evidence_artifact P args = Inr e"
  obtains body where "e = JObj (sealed P ''evidence:'' body @ [(''content'', optional_stable (opt_member (Some args) ''content''))])"
    "map fst body = [''type'', ''subject'', ''kind'', ''producer'', ''environment'', ''contentDigest'', ''uri'',
       ''metadata'', ''generatedAt'']"
    "map_of body ''type'' = Some (JStr ''EVIDENCE'')"
    "map_of body ''contentDigest'' = Some (if nullish (opt_member (Some args) ''contentDigest'')
       then JStr (trust_digest P (stable_value (or_null (opt_member (Some args) ''content''))))
       else the (opt_member (Some args) ''contentDigest''))"
  using assms
  by (auto simp: create_evidence_artifact_def Let_def nullish_def split: if_splits intro!: that)

lemma created_evidence_integrity:
  assumes "create_evidence_artifact P args = Inr e"
  shows "evidence_integrity P (Some e) = Inr (nullish (opt_member (Some args) ''contentDigest'') \<or>
    nullish (opt_member (Some args) ''content'') \<or>
    opt_member (Some args) ''contentDigest'' = Some (JStr (trust_digest P (the (opt_member (Some args) ''content'')))))"
proof -
  let ?c = "opt_member (Some args) ''content''" and ?d = "opt_member (Some args) ''contentDigest''"
  obtain body where e: "e = JObj (sealed P ''evidence:'' body @ [(''content'', optional_stable ?c)])"
    and keys: "map fst body = [''type'', ''subject'', ''kind'', ''producer'', ''environment'', ''contentDigest'', ''uri'',
       ''metadata'', ''generatedAt'']"
    and vals: "map_of body ''type'' = Some (JStr ''EVIDENCE'')"
    "map_of body ''contentDigest'' =
       Some (if nullish ?d then JStr (trust_digest P (stable_value (or_null ?c))) else the ?d)"
    by (rule created_evidence [OF assms])
  have none: "map_of body ''content'' = None"
    by (simp add: map_of_eq_None_iff keys flip: set_map)
  have "opt_member (Some e) ''content'' = Some (optional_stable ?c)"
    by (simp add: e opt_member_sealed none del: opt_member.simps)
  moreover have "opt_member (Some e) ''contentDigest'' =
      Some (if nullish ?d then JStr (trust_digest P (or_null ?c)) else the ?d)"
    by (simp add: e opt_member_sealed vals del: opt_member.simps)
  moreover have "opt_member (Some e) ''type'' = Some (JStr ''EVIDENCE'')"
    by (simp add: e opt_member_sealed vals del: opt_member.simps)
  moreover have "digest_fields P (evidence_body (Some e)) = Inr (trust_digest P (JObj body))"
    by (simp add: e evidence_body_sealed [OF keys] digest_defined)
  moreover have "opt_member (Some e) ''digest'' = Some (JStr (trust_digest P (JObj body)))"
    "opt_member (Some e) ''id'' = Some (JStr (''evidence:'' @ trust_digest P (JObj body)))"
    by (simp_all add: e opt_member_sealed del: opt_member.simps)
  moreover have "stable_value v = JNull \<longleftrightarrow> v = JNull" for v
    by (cases v) auto
  ultimately show ?thesis
    by (cases ?c; cases ?d) (auto simp: evidence_integrity_def optional_stable_def nullish_def or_default_def)
qed

text \<open>A created evidence artifact passes the integrity check of its consumers, exactly when its content digest was
  computed from its content, or given with no content, or given and the right one.\<close>

theorem created_evidence_is_intact:
  assumes "create_evidence_artifact P args = Inr e"
  shows "evidence_integrity P (Some e) = Inr (nullish (opt_member (Some args) ''contentDigest'') \<or>
    nullish (opt_member (Some args) ''content'') \<or>
    opt_member (Some args) ''contentDigest'' = Some (JStr (trust_digest P (the (opt_member (Some args) ''content'')))))"
  by (rule created_evidence_integrity [OF assms])

lemma created_decision:
  assumes "create_decision_artifact P args = Inr d"
  obtains body where "d = JObj (sealed P ''decision:'' body @ [])"
    "map fst body = [''type'', ''subject'', ''boundary'', ''policy'', ''evaluator'', ''evidenceManifest'',
       ''claims'', ''unresolved'', ''verdict'', ''generatedAt'', ''metadata'']"
    "map_of body ''type'' = Some (JStr ''DECISION'')"
  using assms
  by (auto simp: create_decision_artifact_def Let_def split: if_splits intro!: that)

lemma created_decision_intact:
  assumes "create_decision_artifact P args = Inr d"
  shows "decision_integrity P (Some d) = Inr True"
proof -
  obtain body where d: "d = JObj (sealed P ''decision:'' body @ [])"
    and keys: "map fst body = [''type'', ''subject'', ''boundary'', ''policy'', ''evaluator'', ''evidenceManifest'',
       ''claims'', ''unresolved'', ''verdict'', ''generatedAt'', ''metadata'']"
    and type: "map_of body ''type'' = Some (JStr ''DECISION'')"
    by (rule created_decision [OF assms])
  have "opt_member (Some d) ''type'' = Some (JStr ''DECISION'')"
    "opt_member (Some d) ''digest'' = Some (JStr (trust_digest P (JObj body)))"
    "opt_member (Some d) ''id'' = Some (JStr (''decision:'' @ trust_digest P (JObj body)))"
    by (simp_all only: d opt_member_sealed type) simp_all
  moreover have "digest_fields P (decision_body (Some d)) = Inr (trust_digest P (JObj body))"
    by (simp only: d decision_body_sealed [OF keys] digest_defined)
  ultimately show ?thesis by (simp add: decision_integrity_def)
qed

subsection \<open>Issued attestations\<close>

definition attestation_envelope :: "platform \<Rightarrow> (string \<times> json) list \<Rightarrow> json \<Rightarrow> json" where
  "attestation_envelope P payload signature =
     (let payload_digest = trust_digest P (JObj payload);
          d = trust_digest P (JObj [(''payloadDigest'', JStr payload_digest), (''signature'', signature)])
      in JObj ((''id'', JStr (''attestation:'' @ d)) # (''digest'', JStr d) # (''payloadDigest'', JStr payload_digest) #
               payload @ [(''signature'', signature)]))"

lemma issued:
  assumes "issue P sign issuer args = Inr a"
  obtains payload signature where "attestation_fields P issuer args = Inr payload"
    "map fst payload = attestation_keys" "a = attestation_envelope P payload signature"
proof -
  from assms obtain payload signature where p: "attestation_fields P issuer args = Inr payload"
    and a: "a = attestation_envelope P payload signature"
    by (auto simp: issue_def attestation_envelope_def Let_def)
  have "map fst payload = attestation_keys"
    using p by (auto simp: attestation_fields_def attestation_keys_def Let_def)
  from that [OF p this a] show ?thesis .
qed

lemma opt_member_attestation_envelope:
  assumes "map fst payload = attestation_keys" "k \<in> set attestation_keys"
  shows "opt_member (Some (attestation_envelope P payload signature)) k = map_of payload k"
proof -
  have "map_of payload k \<noteq> None" using assms by (simp add: map_of_eq_None_iff flip: set_map)
  with assms(2) show ?thesis
    by (auto simp: attestation_envelope_def Let_def map_add_def attestation_keys_def split: option.splits)
qed

lemma attestation_fields_values:
  assumes "attestation_fields P issuer args = Inr payload" "opt_member (Some args) ''decision'' = Some d"
  obtains subject policy environment upstream issued_at where
    "decision_integrity P (Some d) = Inr True"
    "define_subject (opt_member (Some d) ''subject'') = Inr subject" "define_policy_ref (opt_member (Some d) ''policy'') = Inr policy"
    "payload = [(''type'', JStr ''ATTESTATION''), (''boundary'', the (opt_member (Some d) ''boundary'')),
       (''subject'', subject), (''decision'', decision_summary (Some d)), (''policy'', policy), (''issuer'', issuer),
       (''environment'', environment), (''evidenceManifest'', the (opt_member (Some d) ''evidenceManifest'')),
       (''upstreamAttestations'', upstream), (''issuedAt'', issued_at)]"
  using assms by (auto simp: attestation_fields_def Let_def)

lemma attestation_envelope_intact:
  assumes "map fst payload = attestation_keys"
  shows "intact_attestation P (Some (attestation_envelope P payload signature))"
proof -
  let ?a = "Some (attestation_envelope P payload signature)"
  have pay: "attestation_payload ?a = map (\<lambda>kv. (fst kv, Some (snd kv))) payload"
  proof -
    have "distinct (map fst payload)" by (simp add: assms attestation_keys_def)
    then have "map_of payload (fst kv) = Some (snd kv)" if "kv \<in> set payload" for kv
      using that by (simp add: map_of_eq_Some_iff)
    moreover have "attestation_payload ?a = map (\<lambda>k. (k, map_of payload k)) (map fst payload)"
      by (simp add: attestation_payload_def assms opt_member_attestation_envelope)
    ultimately show ?thesis by simp
  qed
  have none: "map_of payload ''signature'' = None" "map_of payload ''id'' = None" "map_of payload ''digest'' = None"
    "map_of payload ''payloadDigest'' = None"
    by (simp_all add: map_of_eq_None_iff assms attestation_keys_def flip: set_map)
  have sig: "opt_member ?a ''signature'' = Some signature"
    by (simp add: attestation_envelope_def Let_def none map_add_def)
  have ids: "opt_member ?a ''payloadDigest'' = Some (JStr (trust_digest P (JObj payload)))"
    "opt_member ?a ''digest'' = Some (JStr (trust_digest P
       (JObj [(''payloadDigest'', JStr (trust_digest P (JObj payload))), (''signature'', signature)])))"
    "opt_member ?a ''id'' = Some (JStr (''attestation:'' @ trust_digest P
       (JObj [(''payloadDigest'', JStr (trust_digest P (JObj payload))), (''signature'', signature)])))"
    by (simp_all add: attestation_envelope_def Let_def)
  show ?thesis
    unfolding intact_attestation_def pay sig ids digest_defined envelope_digest_def digest_fields_Inr by simp
qed

lemma issued_intact: "issue P sign issuer args = Inr a \<Longrightarrow> intact_attestation P (Some a)"
  by (erule issued) (simp add: attestation_envelope_intact)

subsection \<open>The pipeline: evidence, decision, attestation, evaluation\<close>

lemma define_subject_keeps:
  assumes "define_subject s = Inr s'"
  obtains t d where "opt_member s ''type'' = Some (JStr t)" "opt_member s ''digest'' = Some (JStr d)"
    "opt_member (Some s') ''type'' = Some (JStr t)" "opt_member (Some s') ''digest'' = Some (JStr d)"
  using assms by (auto simp: define_subject_def intro!: that)

lemma define_policy_ref_keeps:
  assumes "define_policy_ref s = Inr s'"
  obtains d where "opt_member s ''digest'' = Some (JStr d)" "opt_member (Some s') ''digest'' = Some (JStr d)"
  using assms by (auto simp: define_policy_ref_def intro!: that)

lemma define_authority_roles:
  "define_authority a = Inr x \<Longrightarrow> holds_roles (Some x) []"
  by (auto simp: define_authority_def holds_roles_def js_iterate_def or_default_def nullish_def)

lemma normalize_claim_keeps:
  assumes "normalize_claim c = Inr c'"
  shows "c' \<noteq> JNull" "claim_name c' = claim_name c" "opt_member (Some c') ''status'' = opt_member (Some c) ''status''"
  using assms by (auto simp: normalize_claim_def claim_name_def one_of_iff)

lemma distinct_claims_distinct:
  "distinct_claims seen cs = Inr () \<longleftrightarrow> distinct (map claim_name cs) \<and> set seen \<inter> claim_name ` set cs = {}"
  by (induction seen cs rule: distinct_claims.induct) auto

lemma find_distinct_claim:
  assumes "distinct (map claim_name cs)" "c \<in> set cs" "claim_name c = Some (JStr n)"
  shows "find_claim cs n = Some c"
proof -
  have "filter (\<lambda>c. claim_name c = Some (JStr n)) cs = [c]"
    using assms by (induction cs) (auto simp: filter_empty_conv image_iff)
  then show ?thesis by (simp add: find_claim_def last_opt_def)
qed

lemma normalized_claims_satisfied:
  assumes "map_res normalize_claim cs = Inr cs'" "distinct_claims [] cs' = Inr ()"
    "c \<in> set cs" "claim_name c = Some (JStr n)" "opt_member (Some c) ''status'' = Some (JStr ''SATISFIED'')"
  shows "claim_satisfied cs' n"
proof -
  have "\<exists>c' \<in> set cs'. normalize_claim c = Inr c'"
    using assms(1,3) by (induction cs arbitrary: cs') auto
  then obtain c' where c': "c' \<in> set cs'" "normalize_claim c = Inr c'" by blast
  with assms(2,4) have "find_claim cs' n = Some c'"
    by (intro find_distinct_claim) (auto simp: distinct_claims_distinct normalize_claim_keeps)
  with c' assms(5) show ?thesis by (simp add: claim_satisfied_def normalize_claim_keeps)
qed

lemma normalized_claims_nonnull: "map_res normalize_claim cs = Inr cs' \<Longrightarrow> JNull \<notin> set cs'"
  by (auto dest!: map_res_set dest: normalize_claim_keeps(1))

text \<open>What a decision created from evidence and claims holds.\<close>

lemma created_decision_values:
  assumes "create_decision_artifact P args = Inr d" "opt_member (Some args) ''evidence'' = Some (JArr es)"
    "opt_member (Some args) ''claims'' = Some (JArr cs)"
  obtains cs' subject refs evaluator verdict where
    "map_res normalize_claim cs = Inr cs'" "distinct_claims [] cs' = Inr ()"
    "define_subject (opt_member (Some args) ''subject'') = Inr subject" "manifest_refs P es = Inr refs"
    "define_authority (opt_member (Some args) ''evaluator'') = Inr evaluator"
    "opt_member (Some d) ''claims'' = Some (JArr cs')" "opt_member (Some d) ''subject'' = Some subject"
    "opt_member (Some d) ''evaluator'' = Some evaluator" "opt_member (Some d) ''verdict'' = Some (JStr verdict)"
    "opt_member (Some d) ''evidenceManifest'' =
       Some (JObj [(''refs'', JArr (map ref_json refs)), (''digest'', JStr (refs_digest P refs))])"
    "\<exists>x. opt_member (Some d) ''id'' = Some (JStr x)" "\<exists>x. opt_member (Some d) ''digest'' = Some (JStr x)"
proof -
  from assms obtain cs' subject policy evaluator refs verdict boundary unresolved at metadata where
    facts: "map_res normalize_claim cs = Inr cs'" "distinct_claims [] cs' = Inr ()"
    "define_subject (opt_member (Some args) ''subject'') = Inr subject" "manifest_refs P es = Inr refs"
    "define_authority (opt_member (Some args) ''evaluator'') = Inr evaluator"
    and d: "d = JObj (sealed P ''decision:''
       [(''type'', JStr ''DECISION''), (''subject'', subject), (''boundary'', boundary), (''policy'', policy),
        (''evaluator'', evaluator),
        (''evidenceManifest'', JObj [(''refs'', JArr (map ref_json refs)), (''digest'', JStr (refs_digest P refs))]),
        (''claims'', JArr cs'), (''unresolved'', unresolved), (''verdict'', JStr verdict), (''generatedAt'', at),
        (''metadata'', metadata)] @ [])"
    unfolding create_decision_artifact_def Let_def evidence_manifest_def arg_or_def js_array_def
    by clarsimp
  show ?thesis
    by (rule that [OF facts]) (simp_all add: d opt_member_sealed del: opt_member.simps append_Nil2)
qed

definition claims_policy :: "string list \<Rightarrow> trust_policy" where
  "claims_policy names = default_policy\<lparr>required_claims := names\<rparr>"

lemma define_claims_policy:
  "\<forall>n \<in> set names. nonblank n \<Longrightarrow> define_trust_policy (claims_policy names) = Inr (claims_policy (uniq names))"
proof -
  have ok: "normalize_text_set [] label = Inr []" "normalize_role_set [] = Inr []" for label
    by (simp_all add: normalize_text_set_def normalize_role_set_def normalize_roles_def)
  assume "\<forall>n \<in> set names. nonblank n"
  then have "map_res (\<lambda>n. require_text (JStr n) label) names = Inr names" for label
    by (intro map_res_id) simp
  then have "normalize_text_set names label = Inr (uniq names)" for label
    by (simp add: normalize_text_set_def)
  with ok show ?thesis
    by (simp add: define_trust_policy_def claims_policy_def default_policy_def invariant_def)
qed

lemma ref_texts_refs: "ref_texts (map ref_json refs) = Inr (map (\<lambda>r. fst r @ '':'' @ snd r) refs)"
  by (induction refs) (simp_all add: ref_texts_def ref_json_def js_member_def nullish_def)

lemma manifest_matches:
  assumes "manifest_refs P es = Inr refs"
    "opt_member a ''evidenceManifest'' =
       Some (JObj [(''refs'', JArr (map ref_json refs)), (''digest'', JStr (refs_digest P refs))])"
  shows "validate_evidence_manifest P a es = Inr True"
  using assms by (simp add: validate_evidence_manifest_def path_def js_array_def or_default_def nullish_def ref_texts_refs)

lemma created_evidence_producer:
  assumes "create_evidence_artifact P args = Inr e"
  shows "holds_roles (opt_member (Some e) ''producer'') []"
proof -
  from assms obtain producer where "define_authority (opt_member (Some args) ''producer'') = Inr producer"
    "opt_member (Some e) ''producer'' = Some producer"
    by (auto simp: create_evidence_artifact_def Let_def sealed_def)
  then show ?thesis by (metis define_authority_roles)
qed

lemma decision_summary_path:
  "k \<in> {''id'', ''digest'', ''verdict'', ''claims''} \<Longrightarrow>
     opt_member (Some (decision_summary (Some d))) k = opt_member (Some d) k"
  unfolding decision_summary_def by (subst obj_member) auto

lemma pipeline_trusted:
  assumes evidence: "\<forall>e \<in> set es. \<exists>args. create_evidence_artifact P args = Inr e \<and> nullish (opt_member (Some args) ''contentDigest'')"
    and decision: "create_decision_artifact P dargs = Inr d" "opt_member (Some dargs) ''evidence'' = Some (JArr es)"
      "opt_member (Some dargs) ''claims'' = Some (JArr cs)"
    and issuing: "create_attestation_issuer iargs = Inr issuer" "issue P sign issuer args = Inr a"
      "opt_member (Some args) ''decision'' = Some d"
    and claims: "\<forall>n \<in> set names. nonblank n \<and>
      (\<exists>c \<in> set cs. claim_name c = Some (JStr n) \<and> opt_member (Some c) ''status'' = Some (JStr ''SATISFIED''))"
    and verify: "f a = Inr (Some (JBool True))"
  shows "\<exists>r. evaluate_attestation_trust P (Some a) (opt_member (Some dargs) ''subject'') (claims_policy names) es (Some d)
    (Some f) now = Inr r \<and> trusted r"
proof -
  obtain cs' subject refs evaluator verdict where
    d: "map_res normalize_claim cs = Inr cs'" "distinct_claims [] cs' = Inr ()"
    "define_subject (opt_member (Some dargs) ''subject'') = Inr subject" "manifest_refs P es = Inr refs"
    "define_authority (opt_member (Some dargs) ''evaluator'') = Inr evaluator"
    "opt_member (Some d) ''claims'' = Some (JArr cs')" "opt_member (Some d) ''subject'' = Some subject"
    "opt_member (Some d) ''evaluator'' = Some evaluator" "opt_member (Some d) ''verdict'' = Some (JStr verdict)"
    "opt_member (Some d) ''evidenceManifest'' =
       Some (JObj [(''refs'', JArr (map ref_json refs)), (''digest'', JStr (refs_digest P refs))])"
    "\<exists>x. opt_member (Some d) ''id'' = Some (JStr x)" "\<exists>x. opt_member (Some d) ''digest'' = Some (JStr x)"
    by (rule created_decision_values [OF decision])
  obtain x y where ids: "opt_member (Some d) ''id'' = Some (JStr x)" "opt_member (Some d) ''digest'' = Some (JStr y)"
    using d(11,12) by blast
  obtain payload signature where p: "attestation_fields P issuer args = Inr payload" "map fst payload = attestation_keys"
    "a = attestation_envelope P payload signature"
    by (rule issued [OF issuing(2)])
  obtain subject' policy environment upstream issued_at where
    pay: "define_subject (Some subject) = Inr subject'" "define_policy_ref (opt_member (Some d) ''policy'') = Inr policy"
    "payload = [(''type'', JStr ''ATTESTATION''), (''boundary'', the (opt_member (Some d) ''boundary'')),
       (''subject'', subject'), (''decision'', decision_summary (Some d)), (''policy'', policy), (''issuer'', issuer),
       (''environment'', environment), (''evidenceManifest'', the (opt_member (Some d) ''evidenceManifest'')),
       (''upstreamAttestations'', upstream), (''issuedAt'', issued_at)]"
    by (rule attestation_fields_values [OF p(1) issuing(3)]) (simp add: d(7))
  have read: "opt_member (Some a) k = map_of payload k" if "k \<in> set attestation_keys" for k
    using opt_member_attestation_envelope [OF p(2) that] p(3) by simp
  have a: "opt_member (Some a) ''subject'' = Some subject'" "opt_member (Some a) ''decision'' = Some (decision_summary (Some d))"
    "opt_member (Some a) ''policy'' = Some policy" "opt_member (Some a) ''issuer'' = Some issuer"
    "opt_member (Some a) ''evidenceManifest'' = opt_member (Some d) ''evidenceManifest''"
    by (subst read; simp add: pay(3) attestation_keys_def d(10))+
  have intact: "intact_attestation P (Some a)" by (rule issued_intact [OF issuing(2)])
  obtain t g where s: "opt_member (Some subject) ''type'' = Some (JStr t)" "opt_member (Some subject) ''digest'' = Some (JStr g)"
    "opt_member (Some subject') ''type'' = Some (JStr t)" "opt_member (Some subject') ''digest'' = Some (JStr g)"
    by (rule define_subject_keeps [OF pay(1)])
  obtain h where h: "opt_member (opt_member (Some d) ''policy'') ''digest'' = Some (JStr h)"
    "opt_member (Some policy) ''digest'' = Some (JStr h)"
    by (rule define_policy_ref_keeps [OF pay(2)])
  have issuer: "holds_roles (Some issuer) []"
    using issuing(1) by (auto simp: create_attestation_issuer_def intro: define_authority_roles)
  let ?p = "claims_policy (uniq names)"
  have "claims_hold (Some a) (required_claims ?p)"
    using claims normalized_claims_nonnull [OF d(1)] normalized_claims_satisfied [OF d(1,2)]
    by (fastforce simp: claims_hold_def path_def a decision_summary_path d js_array_def or_default_def nullish_def claims_policy_def)
  moreover have "evidence_acceptable P ?p (Some a) subject es"
    unfolding evidence_acceptable_def producer_acceptable_def
    using evidence created_evidence_integrity created_evidence_producer manifest_matches [OF d(4)]
    by (fastforce simp: claims_policy_def default_policy_def accepted_def a d)
  moreover have "decision_acceptable P ?p (Some a) (Some d)"
    using define_authority_roles [OF d(5)] ids
    by (simp add: decision_acceptable_def created_decision_intact [OF decision(1)] same_decision_summary_def path_def a d
        decision_summary_path strict_eq_def s h accepted_def claims_policy_def default_policy_def)
  moreover have "strict_eq (path (Some a) ''subject'' ''type'') (opt_member (Some subject) ''type'')"
    "strict_eq (path (Some a) ''subject'' ''digest'') (opt_member (Some subject) ''digest'')"
    by (simp_all add: path_def a s strict_eq_def)
  moreover have "is_object (Some a)" by (simp add: p(3) attestation_envelope_def Let_def is_object_def)
  ultimately have "provenance_reasons P (Some a) = Inr []"
    "policy_reasons P ?p (Some a) subject es (Some d) (Some f) now = Inr []" "is_object (Some a)"
    using intact issuer verify
    by (auto simp: policy_reasons_def no_reason claims_policy_def default_policy_def accepted_def signed_def a)
  then show ?thesis
    using claims by (simp add: evaluate_attestation_trust_def define_claims_policy d(3))
qed


subsection \<open>Trusted claims are the decision's claims\<close>

lemma map_of_sort_key:
  fixes kvs :: "('k::linorder \<times> 'v) list"
  shows "map_of (sort_key fst kvs) k = map_of kvs k"
proof -
  have "map_of xs k = map_option snd (last_opt (rev (filter (\<lambda>kv. fst kv = k) xs)))" for xs :: "('k \<times> 'v) list"
    by (induction xs) (auto simp: last_opt_def)
  then show ?thesis by (simp add: sort_key_stable)
qed

lemma map_of_map_snd: "map_of (map (\<lambda>kv. (fst kv, f (snd kv))) xs) k = map_option f (map_of xs k)"
  by (induction xs) auto

lemma opt_member_canon: "opt_member (Some (canon v)) k = map_option canon (opt_member (Some v) k)"
proof (cases v)
  case (JObj kvs)
  then show ?thesis by (simp add: map_of_map_snd map_of_sort_key)
qed auto

lemma canon_JStr [simp]: "canon v = JStr s \<longleftrightarrow> v = JStr s"
  by (cases v) auto

lemma text_member_canon: "canon c = canon c' \<Longrightarrow> opt_member (Some c) k = Some (JStr s) \<longleftrightarrow> opt_member (Some c') k = Some (JStr s)"
  using opt_member_canon [of c k] opt_member_canon [of c' k]
  by (cases "opt_member (Some c) k"; cases "opt_member (Some c') k") (auto dest: sym)

lemma find_claim_canon:
  "map canon cs = map canon cs' \<Longrightarrow> claim_satisfied cs n = claim_satisfied cs' n"
proof -
  let ?named = "\<lambda>c. claim_name c = Some (JStr n)"
  assume eq: "map canon cs = map canon cs'"
  have named: "?named (canon c) = ?named c" for c
    unfolding claim_name_def by (rule text_member_canon) (metis canon_stable_value stable_value_canon)
  have found: "map_option canon (find_claim xs n) = last_opt (filter ?named (map canon xs))" for xs
    by (simp add: find_claim_def last_opt_def filter_map comp_def named last_map)
  then have "map_option canon (find_claim cs n) = map_option canon (find_claim cs' n)" using eq by simp
  then show ?thesis
    by (cases "find_claim cs n"; cases "find_claim cs' n") (auto simp: claim_satisfied_def dest: text_member_canon)
qed

lemma trusted_conditions:
  assumes "evaluate_attestation_trust P a cs policy evidence d verify now = Inr r" "trusted r"
  shows "\<exists>p subject. define_trust_policy policy = Inr p \<and> claims_hold a (required_claims p) \<and>
    (require_evidence_artifacts p \<longrightarrow> evidence_acceptable P p a subject evidence) \<and>
    (require_decision_artifact p \<longrightarrow> decision_acceptable P p a d) \<and> (require_signature p \<longrightarrow> signed a verify)"
  using evaluate_trusted [OF assms(1)] assms(2) by (auto simp: policy_reasons_def no_reason)

lemma normalize_text_set_Inr [simp]:
  "normalize_text_set xs label = Inr ys \<longleftrightarrow> (\<forall>x \<in> set xs. nonblank x) \<and> ys = uniq xs"
proof -
  have "map_res (\<lambda>s. require_text (JStr s) label) xs = Inr zs \<longleftrightarrow> (\<forall>x \<in> set xs. nonblank x) \<and> zs = xs" for zs
    by (induction xs arbitrary: zs) auto
  then show ?thesis by (auto simp: normalize_text_set_def map_sum_Inr_iff)
qed

lemma normalize_role_set_Inr [simp]:
  "normalize_role_set xs = Inr ys \<longleftrightarrow> (\<forall>x \<in> set xs. nonblank x) \<and> ys = sort (uniq xs)"
proof -
  have "map_res (\<lambda>r. require_text r label) (map JStr xs) = Inr zs \<longleftrightarrow> (\<forall>x \<in> set xs. nonblank x) \<and> zs = xs" for zs label
    by (induction xs arbitrary: zs) auto
  then show ?thesis by (auto simp: normalize_role_set_def normalize_roles_def map_sum_Inr_iff)
qed

text \<open>What normalising a policy leaves as it is.\<close>

lemma uniq_Nil_iff [simp]: "uniq xs = [] \<longleftrightarrow> xs = []" "sort (uniq xs) = [] \<longleftrightarrow> xs = []"
  by (metis set_uniq set_empty, metis set_uniq set_empty set_sort)

lemma define_trust_policy_keeps:
  assumes "define_trust_policy p = Inr q"
  shows "set (required_claims q) = set (required_claims p)" "require_signature q = require_signature p"
    "require_evidence_artifacts q = require_evidence_artifacts p" "require_decision_artifact q = require_decision_artifact p"
    "issuer_authority_required q = issuer_authority_required p"
    "evaluator_authority_required q = evaluator_authority_required p"
    "evidence_authority_required q = evidence_authority_required p"
proof -
  from assms have "q = p\<lparr>accepted_issuers := uniq (accepted_issuers p), accepted_policy_digests := uniq (accepted_policy_digests p),
      accepted_environment_digests := uniq (accepted_environment_digests p),
      required_issuer_roles := sort (uniq (required_issuer_roles p)), accepted_evaluators := uniq (accepted_evaluators p),
      required_evaluator_roles := sort (uniq (required_evaluator_roles p)),
      accepted_evidence_producers := uniq (accepted_evidence_producers p),
      accepted_evidence_environment_digests := uniq (accepted_evidence_environment_digests p),
      required_evidence_producer_roles := sort (uniq (required_evidence_producer_roles p)),
      required_claims := uniq (required_claims p)\<rparr>"
    by (simp add: define_trust_policy_def)
  then show "set (required_claims q) = set (required_claims p)" "require_signature q = require_signature p"
    "require_evidence_artifacts q = require_evidence_artifacts p" "require_decision_artifact q = require_decision_artifact p"
    "issuer_authority_required q = issuer_authority_required p"
    "evaluator_authority_required q = evaluator_authority_required p"
    "evidence_authority_required q = evidence_authority_required p"
    by (simp_all add: issuer_authority_required_def evaluator_authority_required_def evidence_authority_required_def)
qed

text \<open>Every claim a policy requires of a trusted attestation is SATISFIED in the intact decision artifact that was
  supplied with it, unless the hash function has a collision.\<close>

theorem trusted_claims_hold_in_decision:
  assumes "evaluate_attestation_trust P a cs policy evidence d verify now = Inr r" "trusted r"
    "require_decision_artifact policy" "name \<in> set (required_claims policy)"
  shows "decision_integrity P d = Inr True \<and>
    ((\<exists>claims. opt_member d ''claims'' = Some (JArr claims) \<and> claim_satisfied claims name) \<or> collision P)"
proof -
  from trusted_conditions [OF assms(1,2)] obtain p where p: "define_trust_policy policy = Inr p"
    and claims: "claims_hold a (required_claims p)" and "require_decision_artifact p \<longrightarrow> decision_acceptable P p a d"
    by blast
  with assms(3) have d: "decision_acceptable P p a d" by (simp add: define_trust_policy_keeps [OF p])
  from claims assms(4) obtain xs where xs: "or_default (path a ''decision'' ''claims'') (JArr []) = JArr xs" "claim_satisfied xs name"
    by (auto simp: claims_hold_def define_trust_policy_keeps [OF p] js_array_def split: json.splits)
  define y where "y = or_default (opt_member d ''claims'') (JArr [])"
  have "trust_digest P (JArr xs) = trust_digest P y"
    using d xs by (simp add: decision_acceptable_def same_decision_summary_def y_def)
  then consider "canon (JArr xs) = canon y" | "collision P" by (auto dest: trust_digest_eqD)
  then show ?thesis
  proof cases
    case 1
    then obtain ys where ys: "y = JArr ys" "map canon xs = map canon ys" by (cases y) auto
    then have sat: "claim_satisfied ys name" using xs find_claim_canon by blast
    then have "ys \<noteq> []" by (auto simp: claim_satisfied_def find_claim_def)
    with ys have "opt_member d ''claims'' = Some (JArr ys)" by (auto simp: y_def or_default_def nullish_def split: if_splits)
    with sat d show ?thesis by (auto simp: decision_acceptable_def)
  qed (use d in \<open>simp add: decision_acceptable_def\<close>)
qed

subsection \<open>Boundaries and chains\<close>

lemma verified_by_True:
  "verified_by verify artifact a subject p = Inr True \<longleftrightarrow>
     truthy artifact \<and> (\<exists>f. verify = Some f \<and> f (the artifact) a subject p = Inr (Some (JBool True)))"
  by (cases verify) (auto simp: verified_by_def map_sum_Inr_iff)

lemma boundary_trusted_conditions:
  assumes "evaluate_trust_boundary P a d es subject policy verify ve vp now = Inr r" "boundary_trusted r"
  shows "\<exists>q p local. define_trust_policy policy = Inr q \<and> effective_policy q = Inr p \<and>
    evaluate_attestation_trust P a subject p es d verify now = Inr local \<and> trusted local \<and>
    evaluator_boundary_reasons p a d subject ve = Inr [] \<and> evidence_boundary_reasons p a es subject vp = Inr []"
  using assms by (auto simp: evaluate_trust_boundary_def Let_def evaluate_attestation_trust_def)

lemma authority_flags:
  "evaluator_authority_required (p\<lparr>require_signature := a, require_decision_artifact := b, require_evidence_artifacts := c\<rparr>) =
     evaluator_authority_required p"
  "evidence_authority_required (p\<lparr>require_signature := a, require_decision_artifact := b, require_evidence_artifacts := c\<rparr>) =
     evidence_authority_required p"
  by (simp_all add: evaluator_authority_required_def evidence_authority_required_def)

lemma effective_policy_keeps:
  assumes "define_trust_policy policy = Inr q" "effective_policy q = Inr p"
  shows "require_signature p \<longleftrightarrow> require_signature policy \<or> issuer_authority_required policy"
    "require_decision_artifact p \<longleftrightarrow> require_decision_artifact policy \<or> evaluator_authority_required policy"
    "require_evidence_artifacts p \<longleftrightarrow> require_evidence_artifacts policy \<or> evidence_authority_required policy"
    "evaluator_authority_required p = evaluator_authority_required policy"
    "evidence_authority_required p = evidence_authority_required policy"
proof -
  note keeps = define_trust_policy_keeps [OF assms(2) [unfolded effective_policy_def]] define_trust_policy_keeps [OF assms(1)]
  show "require_signature p \<longleftrightarrow> require_signature policy \<or> issuer_authority_required policy" by (simp add: keeps)
  show "require_decision_artifact p \<longleftrightarrow> require_decision_artifact policy \<or> evaluator_authority_required policy"
    by (simp add: keeps)
  show "require_evidence_artifacts p \<longleftrightarrow> require_evidence_artifacts policy \<or> evidence_authority_required policy"
    by (simp add: keeps)
  show "evaluator_authority_required p = evaluator_authority_required policy" by (simp add: keeps authority_flags)
  show "evidence_authority_required p = evidence_authority_required policy" by (simp add: keeps authority_flags)
qed

lemma evidence_boundary_Nil:
  "evidence_boundary_reasons p a es subject vp = Inr [] \<longleftrightarrow>
     (evidence_authority_required p \<longrightarrow> es \<noteq> [] \<and> (\<forall>e \<in> set es. verified_by vp (Some e) a subject p = Inr True))"
  by (auto simp: evidence_boundary_reasons_def split: if_splits)

text \<open>At a trust boundary the policy cannot be switched off by its flags: naming issuers demands a verified signature,
  naming evaluators demands an intact decision whose evaluator the authority verifier confirmed, and naming evidence
  producers or environments demands intact evidence whose producers it confirmed.\<close>

theorem boundary_trust_rests_on_authorities:
  assumes "evaluate_trust_boundary P a d es subject policy verify ve vp now = Inr r" "boundary_trusted r"
  shows "(require_signature policy \<or> issuer_authority_required policy \<longrightarrow> signed a verify) \<and>
    (evaluator_authority_required policy \<longrightarrow>
       decision_integrity P d = Inr True \<and>
       (\<exists>f p. ve = Some f \<and> f (the d) a subject p = Inr (Some (JBool True)))) \<and>
    (evidence_authority_required policy \<longrightarrow>
       es \<noteq> [] \<and> (\<forall>e \<in> set es. evidence_integrity P (Some e) = Inr True \<and>
          (\<exists>f p. vp = Some f \<and> f e a subject p = Inr (Some (JBool True)))))"
proof -
  from boundary_trusted_conditions [OF assms] obtain q p local where qp: "define_trust_policy policy = Inr q" "effective_policy q = Inr p"
    and local: "evaluate_attestation_trust P a subject p es d verify now = Inr local" "trusted local"
    and authorities: "evaluator_boundary_reasons p a d subject ve = Inr []" "evidence_boundary_reasons p a es subject vp = Inr []"
    by blast
  note keeps = effective_policy_keeps [OF qp]
  from trusted_conditions [OF local] obtain p' subject' where p': "define_trust_policy p = Inr p'"
    and conditions: "require_evidence_artifacts p' \<longrightarrow> evidence_acceptable P p' a subject' es"
      "require_decision_artifact p' \<longrightarrow> decision_acceptable P p' a d" "require_signature p' \<longrightarrow> signed a verify"
    by blast
  note p'_keeps = define_trust_policy_keeps [OF p']
  have "verified_by ve d a subject p = Inr True" if "evaluator_authority_required policy"
    using authorities(1) that by (auto simp: evaluator_boundary_reasons_def keeps split: if_splits)
  moreover have "es \<noteq> [] \<and> (\<forall>e \<in> set es. verified_by vp (Some e) a subject p = Inr True)" if "evidence_authority_required policy"
    using authorities(2) that by (simp add: evidence_boundary_Nil keeps)
  moreover have "signed a verify" if "require_signature policy \<or> issuer_authority_required policy"
    using conditions(3) that by (simp add: p'_keeps keeps)
  moreover have "decision_integrity P d = Inr True" if "evaluator_authority_required policy"
    using conditions(2) that by (simp add: p'_keeps keeps decision_acceptable_def)
  moreover have "\<forall>e \<in> set es. evidence_integrity P (Some e) = Inr True" if "evidence_authority_required policy"
    using conditions(1) that by (simp add: p'_keeps keeps evidence_acceptable_def)
  ultimately show ?thesis unfolding verified_by_True by (metis option.sel)
qed

text \<open>The answer of the upstream verifier that makes a reference count.\<close>

definition upstream_confirmed :: "(json \<Rightarrow> jsval res) option \<Rightarrow> json \<Rightarrow> jsval \<Rightarrow> bool" where
  "upstream_confirmed verify ref result \<longleftrightarrow>
     (\<exists>f. verify = Some f \<and>
        f (obj [(''id'', opt_member (Some ref) ''id''), (''digest'', opt_member (Some ref) ''digest'')]) = Inr result) \<and>
     opt_member result ''trusted'' = Some (JBool True) \<and>
     strict_eq (path result ''attestation'' ''id'') (opt_member (Some ref) ''id'') \<and>
     strict_eq (path result ''attestation'' ''digest'') (opt_member (Some ref) ''digest'')"

lemma read_ref_Inr: "read_ref ref = Inr r \<Longrightarrow> ref_id r = opt_member (Some ref) ''id'' \<and> ref_digest r = opt_member (Some ref) ''digest''"
  by (auto simp: read_ref_def js_member_def split: if_splits)

lemma opt_member_or_null: "opt_member (Some (or_null v)) k = opt_member v k"
  by (cases v) (auto simp: or_default_def nullish_def)

lemma check_upstream_confirmed:
  assumes "check_upstream verify ref = Inr (rs, vs)" "rs = []"
  shows "\<exists>result. upstream_confirmed verify ref result \<and>
    (\<forall>b. Some (JStr b) \<in> snd ` set vs \<longrightarrow>
       opt_member result ''boundary'' = Some (JStr b) \<or> path result ''attestation'' ''boundary'' = Some (JStr b))"
proof (cases verify)
  case None
  with assms show ?thesis by (auto simp: check_upstream_def Let_def map_sum_Inr_iff split: if_splits)
next
  case (Some f)
  with assms obtain r result where r: "read_ref ref = Inr r" "f (upstream_ref_json r) = Inr result"
    and step: "opt_member result ''trusted'' = Some (JBool True)"
      "strict_eq (opt_member (Some (or_null (opt_member result ''attestation''))) ''id'') (ref_id r)"
      "strict_eq (opt_member (Some (or_null (opt_member result ''attestation''))) ''digest'') (ref_digest r)"
      "rbind (if nullish (opt_member result ''boundary'') then js_member (Some (or_null (opt_member result ''attestation''))) ''boundary''
         else Inr (opt_member result ''boundary'')) (\<lambda>b. Inr ([] :: json list, [(r, Some (or_null b))])) = Inr (rs, vs)"
    unfolding check_upstream_def Let_def by (simp only: option.case rbind_simps rbind_Inr_iff) (fastforce split: if_splits)
  from step(4) obtain b where b: "(if nullish (opt_member result ''boundary'')
      then js_member (Some (or_null (opt_member result ''attestation''))) ''boundary''
      else Inr (opt_member result ''boundary'')) = Inr b" "vs = [(r, Some (or_null b))]"
    unfolding rbind_Inr_iff by blast
  note t = step(1-3)
  have "upstream_confirmed verify ref result"
    using Some r t read_ref_Inr [OF r(1)] by (auto simp: upstream_confirmed_def upstream_ref_json_def path_def opt_member_or_null)
  moreover have "b = opt_member result ''boundary'' \<or> b = path result ''attestation'' ''boundary''"
    using b(1) by (auto simp: js_member_def path_def opt_member_or_null split: if_splits)
  moreover have "b = Some (JStr x)" if "Some (JStr x) \<in> snd ` set vs" for x
    using that b(2) by (cases b) (auto simp: or_default_def nullish_def split: if_splits)
  ultimately show ?thesis by metis
qed

text \<open>C30: A trusted chain rests on its links: the attestation is trusted at its own boundary, every upstream attestation it
  refers to was confirmed trusted under that very id and digest, and each required boundary was confirmed by one of them.\<close>

theorem chain_trust_rests_on_upstream:
  assumes "evaluate_attestation_chain_trust P a required vu d es subject policy verify ve vp now = Inr r" "chain_trusted r"
    "js_iterate (or_default (opt_member a ''upstreamAttestations'') (JArr [])) = Inr refs"
  shows "evaluate_trust_boundary P a d es subject policy verify ve vp now = Inr (chain_local r) \<and> boundary_trusted (chain_local r) \<and>
    (\<forall>ref \<in> set refs. \<exists>result. upstream_confirmed vu ref result) \<and>
    (\<forall>b. JStr b \<in> set required \<longrightarrow> (\<exists>ref \<in> set refs. \<exists>result. upstream_confirmed vu ref result \<and>
       (opt_member result ''boundary'' = Some (JStr b) \<or> path result ''attestation'' ''boundary'' = Some (JStr b))))"
proof -
  from assms obtain bs local checks where bs: "map_res (\<lambda>b. require_text b ''required upstream boundary'') required = Inr bs"
    and local: "evaluate_trust_boundary P a d es subject policy verify ve vp now = Inr local" "chain_local r = local"
      "boundary_reasons local = []"
    and checks: "map_res (check_upstream vu) refs = Inr checks" "\<forall>c \<in> set checks. fst c = []"
    and found: "\<forall>b \<in> set bs. Some (JStr b) \<in> snd ` set (concat (map snd checks))"
    by (auto simp: evaluate_attestation_chain_trust_def evaluate_chain_trust_def Let_def filter_empty_conv)
  have trusted: "boundary_trusted local"
    using local by (simp add: evaluate_trust_boundary_def Let_def) (elim exE conjE, drule sym, simp)
  have each: "\<exists>c. c \<in> set checks \<and> check_upstream vu ref = Inr c" if "ref \<in> set refs" for ref
    using checks(1) that by (induction refs arbitrary: checks) auto
  have "\<exists>result. upstream_confirmed vu ref result" if "ref \<in> set refs" for ref
    using each [OF that] checks(2) by (metis check_upstream_confirmed prod.collapse)
  moreover have "\<exists>ref \<in> set refs. \<exists>result. upstream_confirmed vu ref result \<and>
       (opt_member result ''boundary'' = Some (JStr b) \<or> path result ''attestation'' ''boundary'' = Some (JStr b))"
    if "JStr b \<in> set required" for b
  proof -
    have "b \<in> set bs" using bs that by (induction required arbitrary: bs) auto
    with found obtain c where c: "c \<in> set checks" "Some (JStr b) \<in> snd ` set (snd c)" by fastforce
    with map_res_set [OF checks(1) c(1)] obtain ref where ref: "ref \<in> set refs" "check_upstream vu ref = Inr c" by blast
    from ref(2) have "check_upstream vu ref = Inr (fst c, snd c)" by simp
    moreover have "fst c = []" using c(1) checks(2) by blast
    ultimately have "check_upstream vu ref = Inr (fst c, snd c)" "fst c = []" by blast+
    with check_upstream_confirmed [of vu ref "fst c" "snd c"] obtain result where
      "upstream_confirmed vu ref result" "opt_member result ''boundary'' = Some (JStr b) \<or>
       path result ''attestation'' ''boundary'' = Some (JStr b)" using c(2) by blast
    with ref(1) show ?thesis by blast
  qed
  ultimately show ?thesis using local trusted by simp
qed

subsection \<open>A run of the pipeline\<close>

text \<open>A platform with a small checksum for a hash, and the artifacts it makes.\<close>

definition demo_platform :: platform where
  "demo_platform = \<lparr>sha256_hex = (\<lambda>s. s), collation_key = (\<lambda>s. s), date_parse = (\<lambda>_. Some 0)\<rparr>"

definition demo_authority :: "string \<Rightarrow> json" where
  "demo_authority name = JObj [(''identity'', JStr name), (''roles'', JArr [JStr ''checker''])]"

definition demo_subject :: json where
  "demo_subject = JObj [(''type'', JStr ''commit''), (''digest'', JStr ''c0ffee''), (''producer'', JNull), (''metadata'', JNull)]"

definition demo_evidence_args :: json where
  "demo_evidence_args = JObj [(''subject'', demo_subject), (''kind'', JStr ''VERIFICATION''),
     (''producer'', demo_authority ''ci''), (''environment'', JObj [(''digest'', JStr ''env'')]),
     (''content'', JObj [(''passed'', JNum 7)]), (''generatedAt'', JStr ''t0'')]"

definition demo_evidence :: json where
  "demo_evidence = projr (create_evidence_artifact demo_platform demo_evidence_args)"

definition demo_claims :: "json list" where
  "demo_claims = [JObj [(''name'', JStr ''tests''), (''status'', JStr ''SATISFIED'')]]"

definition demo_policy_ref :: json where
  "demo_policy_ref = JObj [(''name'', JStr ''release''), (''digest'', JStr ''p1''), (''version'', JNull)]"

definition demo_decision_args :: json where
  "demo_decision_args = JObj [(''subject'', demo_subject),
     (''policy'', demo_policy_ref), (''evaluator'', demo_authority ''judge''),
     (''evidence'', JArr [demo_evidence]), (''claims'', JArr demo_claims),
     (''verdict'', JStr ''PASS''), (''generatedAt'', JStr ''t1'')]"

definition demo_decision :: json where
  "demo_decision = projr (create_decision_artifact demo_platform demo_decision_args)"

definition demo_issuer :: json where
  "demo_issuer = projr (create_attestation_issuer (demo_authority ''notary''))"

definition demo_sign :: "json \<Rightarrow> jsval res" where
  "demo_sign v = Inr (Some (JStr ''signed''))"

definition demo_upstream :: json where
  "demo_upstream = JObj [(''id'', JStr ''up''), (''digest'', JStr ''u1'')]"

definition demo_issue_args :: json where
  "demo_issue_args = JObj [(''decision'', demo_decision), (''environment'', JObj [(''digest'', JStr ''env'')]),
     (''upstreamAttestations'', JArr [demo_upstream]), (''issuedAt'', JStr ''t2'')]"

definition demo_attestation :: json where
  "demo_attestation = projr (issue demo_platform demo_sign demo_issuer demo_issue_args)"

definition demo_verify :: "json \<Rightarrow> jsval res" where
  "demo_verify v = Inr (Some (JBool True))"

lemma Inr_projr: "\<exists>x. r = Inr x \<Longrightarrow> r = Inr (projr r)"
  by auto

lemma demo_authority_made: "nonblank name \<Longrightarrow> define_authority (Some (demo_authority name)) = Inr
    (JObj [(''identity'', JStr name), (''version'', JNull), (''roles'', JArr [JStr ''checker''])])"
  by (simp add: define_authority_def demo_authority_def destructured_def nullish_def need_text_def or_default_def
      optional_text_def arg_or_def normalize_roles_def nonblank_iff js_space_def uniq_def)

lemma demo_refs_made:
  "define_subject (Some demo_subject) = Inr demo_subject"
  "define_policy_ref (Some demo_policy_ref) = Inr demo_policy_ref"
  by (simp_all add: define_subject_def demo_subject_def define_policy_ref_def demo_policy_ref_def destructured_def nullish_def
      optional_text_def optional_stable_def need_text_def or_default_def nonblank_iff js_space_def)

lemma demo_evidence_made: "create_evidence_artifact demo_platform demo_evidence_args = Inr demo_evidence"
  unfolding demo_evidence_def
  by (rule Inr_projr) (simp add: demo_refs_made create_evidence_artifact_def demo_evidence_args_def
      demo_authority_made define_environment_ref_def optional_text_def nullish_def nonblank_iff js_space_def)

lemma sealed_ref:
  assumes "nonblank prefix"
  shows "\<exists>r. artifact_ref (Some (JObj (sealed P prefix body @ rest))) label = Inr r"
proof -
  have "nonblank (trust_digest P v)" for v
    unfolding trust_digest_def by (rule nonblank_appendI(1)) (simp add: nonblank_iff js_space_def)
  then show ?thesis
    by (simp add: artifact_ref_def is_object_def opt_member_sealed nonblank_appendI assms del: opt_member.simps)
qed

lemma demo_evidence_ref: "\<exists>r. artifact_ref (Some demo_evidence) label = Inr r"
proof -
  obtain body where "demo_evidence = JObj (sealed demo_platform ''evidence:'' body @
      [(''content'', optional_stable (opt_member (Some demo_evidence_args) ''content''))])"
    by (rule created_evidence [OF demo_evidence_made])
  moreover have "nonblank ''evidence:''" by (simp add: nonblank_iff js_space_def)
  ultimately show ?thesis using sealed_ref by metis
qed

lemma demo_decision_made:
  "create_decision_artifact demo_platform demo_decision_args = Inr demo_decision"
  "opt_member (Some demo_decision) ''policy'' = Some demo_policy_ref"
  "opt_member (Some demo_decision) ''subject'' = Some demo_subject"
proof -
  obtain r where "artifact_ref (Some demo_evidence) ''evidence artifact'' = Inr r" using demo_evidence_ref by blast
  then obtain m where m: "evidence_manifest demo_platform [demo_evidence] = Inr m"
    by (simp add: evidence_manifest_def manifest_refs_def)
  have claims: "map_res normalize_claim demo_claims =
      Inr [JObj [(''name'', JStr ''tests''), (''status'', JStr ''SATISFIED''), (''details'', JNull)]]"
    by (simp add: demo_claims_def normalize_claim_def is_object_def one_of_def claim_statuses_def invariant_def need_text_def
      or_default_def nullish_def nonblank_iff js_space_def optional_stable_def)
  have made: "create_decision_artifact demo_platform demo_decision_args = Inr (JObj (sealed demo_platform ''decision:''
      [(''type'', JStr ''DECISION''), (''subject'', demo_subject), (''boundary'', JStr ''VERIFICATION''),
       (''policy'', demo_policy_ref), (''evaluator'', JObj [(''identity'', JStr ''judge''), (''version'', JNull),
          (''roles'', JArr [JStr ''checker''])]), (''evidenceManifest'', m),
       (''claims'', JArr [JObj [(''name'', JStr ''tests''), (''status'', JStr ''SATISFIED''), (''details'', JNull)]]),
       (''unresolved'', JArr []), (''verdict'', JStr ''PASS''), (''generatedAt'', JStr ''t1''), (''metadata'', JNull)]))"
    by (simp add: create_decision_artifact_def demo_decision_args_def arg_or_def one_of_def trust_boundaries_def js_array_def
      claims m demo_refs_made demo_authority_made invariant_def need_text_def or_default_def nullish_def nonblank_iff js_space_def
      optional_stable_def)
  then show "create_decision_artifact demo_platform demo_decision_args = Inr demo_decision"
    unfolding demo_decision_def by (intro Inr_projr) blast
  show "opt_member (Some demo_decision) ''policy'' = Some demo_policy_ref"
    "opt_member (Some demo_decision) ''subject'' = Some demo_subject"
    by (simp_all add: demo_decision_def made sealed_def Let_def)
qed

lemma demo_issuer_made: "create_attestation_issuer (demo_authority ''notary'') = Inr demo_issuer"
proof -
  have "define_authority (Some (obj (map (\<lambda>k. (k, opt_member (Some (demo_authority ''notary'')) k))
      [''identity'', ''version'', ''roles'']))) = define_authority (Some (demo_authority ''notary''))"
    by (simp add: obj_def demo_authority_def List.map_filter_simps)
  then show ?thesis
    unfolding demo_issuer_def create_attestation_issuer_def
    by (intro Inr_projr) (simp add: demo_authority_made nonblank_iff js_space_def)
qed

lemma demo_issue_fields:
  "opt_member (Some demo_issue_args) ''decision'' = Some demo_decision"
  "opt_member (Some demo_issue_args) ''environment'' = Some (JObj [(''digest'', JStr ''env'')])"
  "opt_member (Some demo_issue_args) ''upstreamAttestations'' = Some (JArr [demo_upstream])"
  "opt_member (Some demo_issue_args) ''issuedAt'' = Some (JStr ''t2'')"
  by (simp_all add: demo_issue_args_def)

lemma demo_attestation_made:
  "issue demo_platform demo_sign demo_issuer demo_issue_args = Inr demo_attestation"
  "opt_member (Some demo_attestation) ''upstreamAttestations'' = Some (JArr [demo_upstream])"
proof -
  have "artifact_ref (Some demo_upstream) label = Inr (''up'', ''u1'')" for label
    by (simp add: artifact_ref_def demo_upstream_def is_object_def invariant_def or_default_def nullish_def nonblank_iff js_space_def)
  then have up: "normalize_upstream demo_platform (JArr [demo_upstream]) = Inr (JArr [demo_upstream])"
    by (simp add: normalize_upstream_def js_array_def sort_refs_def ref_json_def demo_upstream_def)
  have "\<exists>x. attestation_fields demo_platform demo_issuer demo_issue_args = Inr x"
    by (simp add: attestation_fields_def Let_def demo_issue_fields created_decision_intact [OF demo_decision_made(1)]
        demo_decision_made demo_refs_made define_environment_ref_def optional_text_def nullish_def nonblank_iff js_space_def
        arg_or_def up)
  then show made: "issue demo_platform demo_sign demo_issuer demo_issue_args = Inr demo_attestation"
    unfolding demo_attestation_def
    by (intro Inr_projr) (auto simp: issue_def Let_def demo_sign_def nullish_def)
  obtain payload signature where p: "attestation_fields demo_platform demo_issuer demo_issue_args = Inr payload"
    "map fst payload = attestation_keys" "demo_attestation = attestation_envelope demo_platform payload signature"
    by (rule issued [OF made])
  have "map_of payload ''upstreamAttestations'' = Some (JArr [demo_upstream])"
    using p(1) by (auto simp: attestation_fields_def Let_def demo_issue_fields arg_or_def up)
  then show "opt_member (Some demo_attestation) ''upstreamAttestations'' = Some (JArr [demo_upstream])"
    using opt_member_attestation_envelope [OF p(2)] by (simp add: p(3) attestation_keys_def)
qed

lemma demo_pipeline:
  "\<exists>r. evaluate_attestation_trust demo_platform (Some demo_attestation) (Some demo_subject) (claims_policy [''tests''])
     [demo_evidence] (Some demo_decision) (Some demo_verify) now = Inr r \<and> trusted r"
proof -
  have args: "opt_member (Some demo_decision_args) ''subject'' = Some demo_subject"
    "opt_member (Some demo_decision_args) ''evidence'' = Some (JArr [demo_evidence])"
    "opt_member (Some demo_decision_args) ''claims'' = Some (JArr demo_claims)"
    "opt_member (Some demo_issue_args) ''decision'' = Some demo_decision"
    by (simp_all add: demo_decision_args_def demo_issue_args_def)
  have "\<exists>args. create_evidence_artifact demo_platform args = Inr demo_evidence \<and>
      nullish (opt_member (Some args) ''contentDigest'')"
    using demo_evidence_made by (intro exI [of _ demo_evidence_args]) (simp add: demo_evidence_args_def nullish_def)
  then show ?thesis
    unfolding args(1) [symmetric]
    by (intro pipeline_trusted [OF _ demo_decision_made(1) args(2,3) demo_issuer_made demo_attestation_made(1) args(4)])
      (auto simp: nonblank_iff js_space_def demo_claims_def claim_name_def demo_verify_def)
qed

lemma demo_policy_effective:
  "define_trust_policy (claims_policy [''tests'']) = Inr (claims_policy [''tests''])"
  "effective_policy (claims_policy [''tests'']) = Inr (claims_policy [''tests''])"
proof -
  show made: "define_trust_policy (claims_policy [''tests'']) = Inr (claims_policy [''tests''])"
    by (simp add: define_claims_policy nonblank_iff js_space_def)
  have "(claims_policy [''tests''])\<lparr>require_signature := True, require_decision_artifact := True,
      require_evidence_artifacts := True\<rparr> = claims_policy [''tests'']"
    by (simp add: claims_policy_def default_policy_def)
  with made show "effective_policy (claims_policy [''tests'']) = Inr (claims_policy [''tests''])"
    by (simp add: effective_policy_def claims_policy_def default_policy_def)
qed

lemma demo_boundary:
  "\<exists>r. evaluate_trust_boundary demo_platform (Some demo_attestation) (Some demo_decision) [demo_evidence] (Some demo_subject)
     (claims_policy [''tests'']) (Some demo_verify) None None ''t3'' = Inr r \<and> boundary_trusted r \<and> boundary_reasons r = []"
proof -
  obtain r where r: "evaluate_attestation_trust demo_platform (Some demo_attestation) (Some demo_subject) (claims_policy [''tests''])
     [demo_evidence] (Some demo_decision) (Some demo_verify) ''t3'' = Inr r" "trusted r"
    using demo_pipeline by blast
  then have "reasons r = []" by (auto simp: evaluate_attestation_trust_def)
  moreover have "\<not> evaluator_authority_required (claims_policy names)" "\<not> evidence_authority_required (claims_policy names)" for names
    by (simp_all add: evaluator_authority_required_def evidence_authority_required_def claims_policy_def default_policy_def)
  ultimately show ?thesis
    by (simp add: evaluate_trust_boundary_def demo_policy_effective r(1) Let_def evaluator_boundary_reasons_def
        evidence_boundary_reasons_def)
qed

theorem trusted_iff_policy_holds_witness:
  "intact_attestation demo_platform (Some demo_attestation) \<and> claims_hold (Some demo_attestation) [''tests''] \<and>
   decision_acceptable demo_platform (claims_policy [''tests'']) (Some demo_attestation) (Some demo_decision) \<and>
   signed (Some demo_attestation) (Some demo_verify)"
proof -
  obtain r where r: "evaluate_attestation_trust demo_platform (Some demo_attestation) (Some demo_subject) (claims_policy [''tests''])
     [demo_evidence] (Some demo_decision) (Some demo_verify) ''t3'' = Inr r" "trusted r"
    using demo_pipeline by blast
  from trusted_iff_policy_holds [OF r(1) demo_policy_effective(1) demo_refs_made(1)] r(2)
  show ?thesis by (simp add: claims_policy_def default_policy_def)
qed

theorem created_evidence_is_intact_witness: "evidence_integrity demo_platform (Some demo_evidence) = Inr True"
  using created_evidence_is_intact [OF demo_evidence_made] by (simp add: demo_evidence_args_def nullish_def)


theorem trusted_claims_hold_in_decision_witness:
  "\<exists>claims. opt_member (Some demo_decision) ''claims'' = Some (JArr claims) \<and> claim_satisfied claims ''tests''"
proof -
  obtain r where r: "evaluate_attestation_trust demo_platform (Some demo_attestation) (Some demo_subject) (claims_policy [''tests''])
     [demo_evidence] (Some demo_decision) (Some demo_verify) ''t3'' = Inr r" "trusted r"
    using demo_pipeline by blast
  have "\<not> collision demo_platform" by (simp add: collision_def demo_platform_def)
  with trusted_claims_hold_in_decision [OF r, of "''tests''"] show ?thesis by (simp add: claims_policy_def default_policy_def)
qed

theorem boundary_trust_rests_on_authorities_witness: "signed (Some demo_attestation) (Some demo_verify)"
proof -
  obtain r where r: "evaluate_trust_boundary demo_platform (Some demo_attestation) (Some demo_decision) [demo_evidence]
     (Some demo_subject) (claims_policy [''tests'']) (Some demo_verify) None None ''t3'' = Inr r" "boundary_trusted r"
    using demo_boundary by blast
  from boundary_trust_rests_on_authorities [OF r] show ?thesis by (simp add: claims_policy_def default_policy_def)
qed

definition demo_verify_upstream :: "json \<Rightarrow> jsval res" where
  "demo_verify_upstream ref = Inr (Some (JObj [(''trusted'', JBool True), (''boundary'', JStr ''RELEASE_BUILD''),
     (''attestation'', ref)]))"

theorem chain_trust_rests_on_upstream_witness:
  "\<exists>result. upstream_confirmed (Some demo_verify_upstream) demo_upstream result"
proof -
  obtain local where local: "evaluate_trust_boundary demo_platform (Some demo_attestation) (Some demo_decision) [demo_evidence]
     (Some demo_subject) (claims_policy [''tests'']) (Some demo_verify) None None ''t3'' = Inr local" "boundary_reasons local = []"
    using demo_boundary by blast
  have up: "check_upstream (Some demo_verify_upstream) demo_upstream =
      Inr ([], [(\<lparr>ref_id = Some (JStr ''up''), ref_digest = Some (JStr ''u1'')\<rparr>, Some (JStr ''RELEASE_BUILD''))])"
    by (simp add: check_upstream_def demo_verify_upstream_def read_ref_def js_member_def nullish_def demo_upstream_def
        upstream_ref_json_def obj_def List.map_filter_simps or_default_def strict_eq_def)
  have refs: "js_iterate (or_default (opt_member (Some demo_attestation) ''upstreamAttestations'') (JArr [])) = Inr [demo_upstream]"
    unfolding demo_attestation_made(2) by (simp add: js_iterate_def or_default_def nullish_def)
  have "is_object (Some demo_attestation)"
    by (rule member_is_object [OF demo_attestation_made(2)])
  then have chain: "\<exists>r. evaluate_attestation_chain_trust demo_platform (Some demo_attestation) [JStr ''RELEASE_BUILD'']
     (Some demo_verify_upstream) (Some demo_decision) [demo_evidence] (Some demo_subject) (claims_policy [''tests''])
     (Some demo_verify) None None ''t3'' = Inr r \<and> chain_trusted r"
    by (simp add: evaluate_attestation_chain_trust_def evaluate_chain_trust_def local refs up Let_def nonblank_iff js_space_def
        uniq_def)
  then obtain r where r: "evaluate_attestation_chain_trust demo_platform (Some demo_attestation) [JStr ''RELEASE_BUILD'']
     (Some demo_verify_upstream) (Some demo_decision) [demo_evidence] (Some demo_subject) (claims_policy [''tests''])
     (Some demo_verify) None None ''t3'' = Inr r" "chain_trusted r" by blast
  from chain_trust_rests_on_upstream [OF r refs] show ?thesis by simp
qed

end
