(* ===== verification/Blackboard_Items.thy ===== *)
theory Blackboard_Items
  imports Js_Values
begin

section \<open>Blackboard items: the documents and their validation\<close>

text \<open>
  The data model of \<open>packages/agentic-system/src/blackboard-orchestrator.js\<close> (lines 9--203):
  work items with their review requirements, reviews, findings and active review, and the
  functions that validate an untyped document into that shape.  \<open>item_json\<close> writes a typed
  item back; validating what it writes gives the item again (\<open>normalize_item_json\<close>), and what
  validation accepts is well formed (\<open>normalize_item_wf\<close>).
\<close>

subsection \<open>Validation primitives\<close>

definition type_invariant :: "bool \<Rightarrow> string \<Rightarrow> unit res" where
  "type_invariant c msg = (if c then Inr () else Inl (TypeFault msg))"

lemma type_invariant_ok [simp]: "type_invariant c msg = Inr u \<longleftrightarrow> c"
  by (simp add: type_invariant_def)

lemma type_invariant_eval: "c \<Longrightarrow> type_invariant c msg = Inr ()" "\<not> c \<Longrightarrow> type_invariant c msg = Inl (TypeFault msg)"
  by (simp_all add: type_invariant_def)

definition text_of :: "jsval \<Rightarrow> string \<Rightarrow> string res" where
  "text_of v name =
     (case v of
        Some (JStr s) \<Rightarrow> if nonblank s then Inr s else Inl (TypeFault (name @ '' must be a non-empty string''))
      | _ \<Rightarrow> Inl (TypeFault (name @ '' must be a non-empty string'')))"

lemma text_of_Inr [simp]: "text_of v name = Inr s \<longleftrightarrow> v = Some (JStr s) \<and> nonblank s"
  by (auto simp: text_of_def split: option.splits json.splits)

lemma text_of_JStr: "nonblank s \<Longrightarrow> text_of (Some (JStr s)) name = Inr s"
  by simp

definition optional :: "(jsval \<Rightarrow> 'a res) \<Rightarrow> jsval \<Rightarrow> 'a option res" where
  "optional f v = (if nullish v then Inr None else map_sum id Some (f v))"

definition optional_json :: "jsval \<Rightarrow> json option" where
  "optional_json v = (if nullish v then None else v)"

definition integer_of :: "bool \<Rightarrow> json \<Rightarrow> string \<Rightarrow> int res" where
  "integer_of allow_zero v name =
     (case v of
        JNum n \<Rightarrow>
          if 0 < n \<or> allow_zero \<and> n = 0 then Inr n
          else Inl (TypeFault (name @ '' must be '' @ (if allow_zero then ''non-negative'' else ''positive'')))
      | _ \<Rightarrow> Inl (TypeFault (name @ '' must be an integer'')))"

lemma integer_of_Inr [simp]:
  "integer_of allow_zero v name = Inr n \<longleftrightarrow> v = JNum n \<and> (0 < n \<or> allow_zero \<and> n = 0)"
  by (auto simp: integer_of_def split: json.splits)

definition indexed :: "string \<Rightarrow> nat \<Rightarrow> string" where
  "indexed name i = name @ ''['' @ nat_text i @ '']''"

definition plain_object :: "jsval \<Rightarrow> string \<Rightarrow> unit res" where
  "plain_object v name = type_invariant (case v of Some (JObj _) \<Rightarrow> True | _ \<Rightarrow> False) (name @ '' must be an object'')"

text \<open>\<open>xs.map((x, index) => ...)\<close>.\<close>

definition map_indexed :: "(nat \<Rightarrow> 'a \<Rightarrow> 'b res) \<Rightarrow> 'a list \<Rightarrow> 'b list res" where
  "map_indexed f xs = map_res (\<lambda>(i, x). f i x) (enumerate 0 xs)"

lemma map_indexed_id:
  assumes "\<And>i x. x \<in> set xs \<Longrightarrow> f i (g x) = Inr x"
  shows "map_indexed f (map g xs) = Inr xs"
proof -
  have "map_res (\<lambda>(i, x). f i x) (enumerate n (map g ys)) = Inr ys" if "set ys \<subseteq> set xs" for n ys
    using that assms by (induction ys arbitrary: n) auto
  then show ?thesis by (simp add: map_indexed_def)
qed

lemma map_indexed_set:
  "map_indexed f xs = Inr ys \<Longrightarrow> y \<in> set ys \<Longrightarrow> \<exists>i x. x \<in> set xs \<and> f i x = Inr y"
  by (auto simp: map_indexed_def in_set_enumerate_eq dest!: map_res_set) (metis nth_mem)

definition text_array :: "jsval \<Rightarrow> string \<Rightarrow> string list res" where
  "text_array v name =
     (case or_default v (JArr []) of
        JArr vs \<Rightarrow> map_sum id uniq (map_indexed (\<lambda>i x. text_of (Some x) (indexed name i)) vs)
      | _ \<Rightarrow> Inl (TypeFault (name @ '' must be an array'')))"

definition text_list_ok :: "string list \<Rightarrow> bool" where
  "text_list_ok xs \<longleftrightarrow> distinct xs \<and> (\<forall>x \<in> set xs. nonblank x)"

lemma text_array_json: "text_list_ok xs \<Longrightarrow> text_array (Some (JArr (map JStr xs))) name = Inr xs"
  by (simp add: text_array_def or_default_def nullish_def text_list_ok_def map_indexed_id)

lemma text_array_ok: "text_array v name = Inr xs \<Longrightarrow> text_list_ok xs"
  by (auto simp: text_array_def text_list_ok_def map_sum_Inr_iff split: json.splits dest: map_indexed_set)

fun no_duplicates :: "string \<Rightarrow> string list \<Rightarrow> string list \<Rightarrow> unit res" where
  "no_duplicates what seen [] = Inr ()"
| "no_duplicates what seen (k # ks) =
     rbind (type_invariant (k \<notin> set seen) (what @ k)) (\<lambda>_. no_duplicates what (k # seen) ks)"

lemma no_duplicates_Inr [simp]:
  "no_duplicates what seen ks = Inr u \<longleftrightarrow> distinct ks \<and> set seen \<inter> set ks = {}"
  by (induction what seen ks rule: no_duplicates.induct) auto

text \<open>An enumeration as a table from the strings in the documents to the model's constructors.\<close>

definition read_enum :: "(string \<times> 'e) list \<Rightarrow> jsval \<Rightarrow> string \<Rightarrow> 'e res" where
  "read_enum table v msg =
     (case v of
        Some (JStr s) \<Rightarrow> (case map_of table s of Some e \<Rightarrow> Inr e | None \<Rightarrow> Inl (TypeFault msg))
      | _ \<Rightarrow> Inl (TypeFault msg))"

subsection \<open>The types\<close>

datatype item_status =
    READY | CLAIMED | PENDING_REVIEW | REVIEWING | PENDING_RECONCILIATION | REOPENED | BLOCKED | DONE | SUPERSEDED

fun item_status_text :: "item_status \<Rightarrow> string" where
  "item_status_text READY = ''READY''"
| "item_status_text CLAIMED = ''CLAIMED''"
| "item_status_text PENDING_REVIEW = ''PENDING_REVIEW''"
| "item_status_text REVIEWING = ''REVIEWING''"
| "item_status_text PENDING_RECONCILIATION = ''PENDING_RECONCILIATION''"
| "item_status_text REOPENED = ''REOPENED''"
| "item_status_text BLOCKED = ''BLOCKED''"
| "item_status_text DONE = ''DONE''"
| "item_status_text SUPERSEDED = ''SUPERSEDED''"

definition item_statuses :: "(string \<times> item_status) list" where
  "item_statuses = map (\<lambda>s. (item_status_text s, s))
     [READY, CLAIMED, PENDING_REVIEW, REVIEWING, PENDING_RECONCILIATION, REOPENED, BLOCKED, DONE, SUPERSEDED]"

datatype requirement_source = WORKER | PM

fun source_text :: "requirement_source \<Rightarrow> string" where
  "source_text WORKER = ''WORKER''"
| "source_text PM = ''PM''"

definition requirement_sources :: "(string \<times> requirement_source) list" where
  "requirement_sources = map (\<lambda>s. (source_text s, s)) [WORKER, PM]"

datatype verdict = ACCEPTED | REJECTED | INCONCLUSIVE

fun verdict_text :: "verdict \<Rightarrow> string" where
  "verdict_text ACCEPTED = ''ACCEPTED''"
| "verdict_text REJECTED = ''REJECTED''"
| "verdict_text INCONCLUSIVE = ''INCONCLUSIVE''"

definition verdicts :: "(string \<times> verdict) list" where
  "verdicts = map (\<lambda>s. (verdict_text s, s)) [ACCEPTED, REJECTED, INCONCLUSIVE]"

datatype disposition = CURRENT_WORK | EXISTING_WORK | NEW_WORK | NON_ACTIONABLE

fun disposition_text :: "disposition \<Rightarrow> string" where
  "disposition_text CURRENT_WORK = ''CURRENT_WORK''"
| "disposition_text EXISTING_WORK = ''EXISTING_WORK''"
| "disposition_text NEW_WORK = ''NEW_WORK''"
| "disposition_text NON_ACTIONABLE = ''NON_ACTIONABLE''"

definition dispositions :: "(string \<times> disposition) list" where
  "dispositions = map (\<lambda>s. (disposition_text s, s)) [CURRENT_WORK, EXISTING_WORK, NEW_WORK, NON_ACTIONABLE]"

lemma read_enum_text [simp]:
  "read_enum item_statuses (Some (JStr (item_status_text s))) msg = Inr s"
  "read_enum requirement_sources (Some (JStr (source_text r))) msg = Inr r"
  "read_enum verdicts (Some (JStr (verdict_text v))) msg = Inr v"
  "read_enum dispositions (Some (JStr (disposition_text d))) msg = Inr d"
     apply (cases s; simp add: read_enum_def item_statuses_def)
    apply (cases r; simp add: read_enum_def requirement_sources_def)
   apply (cases v; simp add: read_enum_def verdicts_def)
  apply (cases d; simp add: read_enum_def dispositions_def)
  done

record requirement =
  req_key :: string
  req_source :: requirement_source
  req_reason :: string

record review =
  review_key :: string
  reviewer :: string
  review_verdict :: verdict
  decision_ref :: string
  attestation_of :: string
  finding_refs :: "string list"

record finding =
  finding_id :: string
  finding_summary :: string
  source_ref :: string
  finding_review :: string
  finding_disposition :: "disposition option"
  target_item :: "string option"

record review_subject =
  subject_type :: string
  subject_digest :: string
  subject_producer :: json
  subject_metadata :: json

record active_review =
  active_key :: string
  active_reviewer :: string
  active_generation :: int
  active_subject :: review_subject

record item =
  item_id :: string
  item_work :: string
  item_status :: item_status
  item_owner :: "string option"
  claim_generation :: int
  review_generation :: int
  depends_on :: "string list"
  remaining_work :: "string list"
  blockers :: "string list"
  artifact_refs :: "string list"
  evidence_refs :: "string list"
  follow_up_refs :: "string list"
  checkpoint :: "json option"
  checkpointed_by :: "string option"
  submission :: "json option"
  submitted_by :: "string option"
  requirements :: "requirement list"
  reviews :: "review list"
  findings :: "finding list"
  active :: "active_review option"
  origin :: "json option"

subsection \<open>Reading a document\<close>

definition normalize_requirement :: "nat \<Rightarrow> json \<Rightarrow> requirement res" where
  "normalize_requirement i raw =
     (let v = Some raw; at = indexed ''reviewRequirements'' i in
      rbind (plain_object v at) (\<lambda>_.
      rbind (read_enum requirement_sources (opt_member v ''source'') (at @ ''.source is invalid'')) (\<lambda>source.
      rbind (text_of (opt_member v ''key'') (at @ ''.key'')) (\<lambda>key.
      rbind (text_of (opt_member v ''reason'') (at @ ''.reason'')) (\<lambda>reason.
        Inr \<lparr>req_key = key, req_source = source, req_reason = reason\<rparr>)))))"

definition normalize_review :: "nat \<Rightarrow> json \<Rightarrow> review res" where
  "normalize_review i raw =
     (let v = Some raw; at = indexed ''reviews'' i in
      rbind (plain_object v at) (\<lambda>_.
      rbind (read_enum verdicts (opt_member v ''verdict'') (at @ ''.verdict is invalid'')) (\<lambda>verdict.
      rbind (text_of (opt_member v ''key'') (at @ ''.key'')) (\<lambda>key.
      rbind (text_of (opt_member v ''reviewer'') (at @ ''.reviewer'')) (\<lambda>who.
      rbind (text_of (opt_member v ''decisionRef'') (at @ ''.decisionRef'')) (\<lambda>decision.
      rbind (text_of (opt_member v ''attestationRef'') (at @ ''.attestationRef'')) (\<lambda>attestation.
      rbind (text_array (opt_member v ''findingRefs'') (at @ ''.findingRefs'')) (\<lambda>refs.
        Inr \<lparr>review_key = key, reviewer = who, review_verdict = verdict, decision_ref = decision,
             attestation_of = attestation, finding_refs = refs\<rparr>))))))))"

definition normalize_finding :: "nat \<Rightarrow> json \<Rightarrow> finding res" where
  "normalize_finding i raw =
     (let v = Some raw; at = indexed ''findings'' i in
      rbind (plain_object v at) (\<lambda>_.
      rbind (optional (\<lambda>d. read_enum dispositions d (at @ ''.disposition is invalid'')) (opt_member v ''disposition'')) (\<lambda>disposition.
      rbind (text_of (opt_member v ''id'') (at @ ''.id'')) (\<lambda>id.
      rbind (text_of (opt_member v ''summary'') (at @ ''.summary'')) (\<lambda>summary.
      rbind (text_of (opt_member v ''sourceRef'') (at @ ''.sourceRef'')) (\<lambda>source.
      rbind (text_of (opt_member v ''reviewKey'') (at @ ''.reviewKey'')) (\<lambda>key.
      rbind (optional (\<lambda>t. text_of t (at @ ''.targetItemId'')) (opt_member v ''targetItemId'')) (\<lambda>target.
        Inr \<lparr>finding_id = id, finding_summary = summary, source_ref = source, finding_review = key,
             finding_disposition = disposition, target_item = target\<rparr>))))))))"

definition normalize_review_subject :: "jsval \<Rightarrow> string \<Rightarrow> review_subject res" where
  "normalize_review_subject v name =
     rbind (plain_object v name) (\<lambda>_.
     rbind (text_of (opt_member v ''type'') (name @ ''.type'')) (\<lambda>type.
     rbind (text_of (opt_member v ''digest'') (name @ ''.digest'')) (\<lambda>digest.
       Inr \<lparr>subject_type = type, subject_digest = digest, subject_producer = or_null (opt_member v ''producer''),
            subject_metadata = or_null (opt_member v ''metadata'')\<rparr>)))"

definition normalize_active_review :: "jsval \<Rightarrow> nat \<Rightarrow> active_review option res" where
  "normalize_active_review v i =
     optional (\<lambda>v. let at = indexed ''items'' i @ ''.activeReview'' in
       rbind (plain_object v at) (\<lambda>_.
       rbind (text_of (opt_member v ''key'') (at @ ''.key'')) (\<lambda>key.
       rbind (text_of (opt_member v ''reviewer'') (at @ ''.reviewer'')) (\<lambda>who.
       rbind (integer_of False
                (or_default (opt_member v ''generation'')
                  (or_default (opt_member (opt_member (opt_member v ''subject'') ''metadata'') ''reviewGeneration'') (JNum 1)))
                (at @ ''.generation'')) (\<lambda>generation.
       rbind (normalize_review_subject (opt_member v ''subject'') (at @ ''.subject'')) (\<lambda>subject.
         Inr \<lparr>active_key = key, active_reviewer = who, active_generation = generation, active_subject = subject\<rparr>)))))) v"

text \<open>\<open>(raw.k ?? []).map(f)\<close>.\<close>

definition read_list :: "jsval \<Rightarrow> (nat \<Rightarrow> json \<Rightarrow> 'a res) \<Rightarrow> 'a list res" where
  "read_list v f = rbind (js_array (Some (or_default v (JArr [])))) (map_indexed f)"

definition normalize_item :: "nat \<Rightarrow> json \<Rightarrow> item res" where
  "normalize_item i raw =
     (let f = opt_member (Some raw); at = indexed ''items'' i in
      rbind (plain_object (Some raw) at) (\<lambda>_.
      rbind (read_enum item_statuses (Some (or_default (f ''status'') (JStr ''READY''))) (at @ ''.status is invalid'')) (\<lambda>status.
      rbind (read_list (f ''reviewRequirements'') normalize_requirement) (\<lambda>requirements.
      rbind (no_duplicates (at @ '' has duplicate review requirement '') [] (map req_key requirements)) (\<lambda>_.
      rbind (read_list (f ''reviews'') normalize_review) (\<lambda>reviews.
      rbind (no_duplicates (at @ '' has duplicate review '') [] (map review_key reviews)) (\<lambda>_.
      rbind (read_list (f ''findings'') normalize_finding) (\<lambda>findings.
      rbind (no_duplicates (at @ '' has duplicate finding '') [] (map finding_id findings)) (\<lambda>_.
      rbind (text_of (f ''id'') (at @ ''.id'')) (\<lambda>id.
      rbind (text_of (f ''work'') (at @ ''.work'')) (\<lambda>work.
      rbind (optional (\<lambda>v. text_of v (at @ ''.owner'')) (f ''owner'')) (\<lambda>owner.
      rbind (integer_of True (or_default (f ''claimGeneration'') (JNum 0)) (at @ ''.claimGeneration'')) (\<lambda>claims.
      rbind (integer_of True (or_default (f ''reviewGeneration'') (JNum 0)) (at @ ''.reviewGeneration'')) (\<lambda>reviewings.
      rbind (text_array (f ''dependsOn'') (at @ ''.dependsOn'')) (\<lambda>depends.
      rbind (text_array (f ''remainingWork'') (at @ ''.remainingWork'')) (\<lambda>remaining.
      rbind (text_array (f ''blockers'') (at @ ''.blockers'')) (\<lambda>blockers.
      rbind (text_array (f ''artifactRefs'') (at @ ''.artifactRefs'')) (\<lambda>artifacts.
      rbind (text_array (f ''evidenceRefs'') (at @ ''.evidenceRefs'')) (\<lambda>evidence.
      rbind (text_array (f ''followUpRefs'') (at @ ''.followUpRefs'')) (\<lambda>follow_ups.
      rbind (optional (\<lambda>v. text_of v (at @ ''.checkpointedBy'')) (f ''checkpointedBy'')) (\<lambda>checkpointer.
      rbind (optional (\<lambda>v. text_of v (at @ ''.submittedBy'')) (f ''submittedBy'')) (\<lambda>submitter.
      rbind (normalize_active_review (f ''activeReview'') i) (\<lambda>active.
        Inr \<lparr>item_id = id, item_work = work, item_status = status, item_owner = owner, claim_generation = claims,
             review_generation = reviewings, depends_on = depends, remaining_work = remaining, blockers = blockers,
             artifact_refs = artifacts, evidence_refs = evidence, follow_up_refs = follow_ups,
             checkpoint = optional_json (f ''checkpoint''), checkpointed_by = checkpointer,
             submission = optional_json (f ''submission''), submitted_by = submitter, requirements = requirements,
             reviews = reviews, findings = findings, active = active, origin = optional_json (f ''origin'')\<rparr>)))))))))))))))))))))))"

text \<open>A snapshot is the list of its items: the version is always 1.\<close>

definition define_snapshot :: "jsval \<Rightarrow> item list res" where
  "define_snapshot raw =
     (let v = Some (arg_or raw (JObj [(''version'', JNum 1), (''items'', JArr [])])) in
      rbind (plain_object v ''Blackboard snapshot'') (\<lambda>_.
      rbind (type_invariant (opt_member v ''version'' = Some (JNum 1)) ''Blackboard snapshot version must be 1'') (\<lambda>_.
      rbind (case opt_member v ''items'' of Some (JArr vs) \<Rightarrow> Inr vs
             | _ \<Rightarrow> Inl (TypeFault ''Blackboard snapshot items must be an array'')) (\<lambda>vs.
      rbind (map_indexed normalize_item vs) (\<lambda>items.
      rbind (no_duplicates ''Blackboard snapshot has duplicate item '' [] (map item_id items)) (\<lambda>_.
        Inr items))))))"

subsection \<open>Writing a document\<close>

abbreviation texts :: "string list \<Rightarrow> json" where
  "texts xs \<equiv> JArr (map JStr xs)"

definition json_or_null :: "json option \<Rightarrow> json" where
  "json_or_null v = (case v of None \<Rightarrow> JNull | Some x \<Rightarrow> x)"

definition requirement_json :: "requirement \<Rightarrow> json" where
  "requirement_json r = JObj [(''key'', JStr (req_key r)), (''source'', JStr (source_text (req_source r))),
     (''reason'', JStr (req_reason r))]"

definition review_json :: "review \<Rightarrow> json" where
  "review_json r = JObj [(''key'', JStr (review_key r)), (''reviewer'', JStr (reviewer r)),
     (''verdict'', JStr (verdict_text (review_verdict r))), (''decisionRef'', JStr (decision_ref r)),
     (''attestationRef'', JStr (attestation_of r)), (''findingRefs'', texts (finding_refs r))]"

definition finding_json :: "finding \<Rightarrow> json" where
  "finding_json f = JObj [(''id'', JStr (finding_id f)), (''summary'', JStr (finding_summary f)),
     (''sourceRef'', JStr (source_ref f)), (''reviewKey'', JStr (finding_review f)),
     (''disposition'', text_or_null (map_option disposition_text (finding_disposition f))),
     (''targetItemId'', text_or_null (target_item f))]"

definition review_subject_json :: "review_subject \<Rightarrow> json" where
  "review_subject_json s = JObj [(''type'', JStr (subject_type s)), (''digest'', JStr (subject_digest s)),
     (''producer'', subject_producer s), (''metadata'', subject_metadata s)]"

definition active_review_json :: "active_review \<Rightarrow> json" where
  "active_review_json a = JObj [(''key'', JStr (active_key a)), (''reviewer'', JStr (active_reviewer a)),
     (''generation'', JNum (active_generation a)), (''subject'', review_subject_json (active_subject a))]"

definition item_fields :: "item \<Rightarrow> (string \<times> json) list" where
  "item_fields i = [(''id'', JStr (item_id i)), (''work'', JStr (item_work i)), (''status'', JStr (item_status_text (item_status i))),
     (''owner'', text_or_null (item_owner i)), (''claimGeneration'', JNum (claim_generation i)),
     (''reviewGeneration'', JNum (review_generation i)), (''dependsOn'', texts (depends_on i)),
     (''remainingWork'', texts (remaining_work i)), (''blockers'', texts (blockers i)),
     (''artifactRefs'', texts (artifact_refs i)), (''evidenceRefs'', texts (evidence_refs i)),
     (''followUpRefs'', texts (follow_up_refs i)), (''checkpoint'', json_or_null (checkpoint i)),
     (''checkpointedBy'', text_or_null (checkpointed_by i)), (''submission'', json_or_null (submission i)),
     (''submittedBy'', text_or_null (submitted_by i)), (''reviewRequirements'', JArr (map requirement_json (requirements i))),
     (''reviews'', JArr (map review_json (reviews i))), (''findings'', JArr (map finding_json (findings i))),
     (''activeReview'', json_or_null (map_option active_review_json (active i))), (''origin'', json_or_null (origin i))]"

definition item_json :: "item \<Rightarrow> json" where
  "item_json i = JObj (item_fields i)"

definition snapshot_json :: "item list \<Rightarrow> json" where
  "snapshot_json items = JObj [(''version'', JNum 1), (''items'', JArr (map item_json items))]"

subsection \<open>Well-formed items\<close>

definition wf_requirement :: "requirement \<Rightarrow> bool" where
  "wf_requirement r \<longleftrightarrow> nonblank (req_key r) \<and> nonblank (req_reason r)"

definition wf_review :: "review \<Rightarrow> bool" where
  "wf_review r \<longleftrightarrow> nonblank (review_key r) \<and> nonblank (reviewer r) \<and> nonblank (decision_ref r) \<and>
     nonblank (attestation_of r) \<and> text_list_ok (finding_refs r)"

definition wf_finding :: "finding \<Rightarrow> bool" where
  "wf_finding f \<longleftrightarrow> nonblank (finding_id f) \<and> nonblank (finding_summary f) \<and> nonblank (source_ref f) \<and>
     nonblank (finding_review f) \<and> pred_option nonblank (target_item f)"

definition wf_active :: "active_review \<Rightarrow> bool" where
  "wf_active a \<longleftrightarrow> nonblank (active_key a) \<and> nonblank (active_reviewer a) \<and> 0 < active_generation a \<and>
     nonblank (subject_type (active_subject a)) \<and> nonblank (subject_digest (active_subject a))"

text \<open>Everything but the distinctness of keys, which an operation may break; saving then throws.\<close>

definition loose_item :: "item \<Rightarrow> bool" where
  "loose_item i \<longleftrightarrow> nonblank (item_id i) \<and> nonblank (item_work i) \<and> pred_option nonblank (item_owner i) \<and>
     0 \<le> claim_generation i \<and> 0 \<le> review_generation i \<and>
     text_list_ok (depends_on i) \<and> text_list_ok (remaining_work i) \<and> text_list_ok (blockers i) \<and>
     text_list_ok (artifact_refs i) \<and> text_list_ok (evidence_refs i) \<and> text_list_ok (follow_up_refs i) \<and>
     checkpoint i \<noteq> Some JNull \<and> pred_option nonblank (checkpointed_by i) \<and> submission i \<noteq> Some JNull \<and>
     pred_option nonblank (submitted_by i) \<and> (\<forall>r \<in> set (requirements i). wf_requirement r) \<and>
     (\<forall>r \<in> set (reviews i). wf_review r) \<and> (\<forall>f \<in> set (findings i). wf_finding f) \<and>
     pred_option wf_active (active i) \<and> origin i \<noteq> Some JNull"

definition wf_item :: "item \<Rightarrow> bool" where
  "wf_item i \<longleftrightarrow> loose_item i \<and> distinct (map req_key (requirements i)) \<and> distinct (map review_key (reviews i)) \<and>
     distinct (map finding_id (findings i))"

definition wf_snapshot :: "item list \<Rightarrow> bool" where
  "wf_snapshot items \<longleftrightarrow> (\<forall>i \<in> set items. wf_item i) \<and> distinct (map item_id items)"

subsection \<open>Reading what was written\<close>

lemma or_default_Some [simp]: "v \<noteq> JNull \<Longrightarrow> or_default (Some v) d = v"
  by (simp add: or_default_def nullish_def)

lemma nullish_Some [simp]: "nullish (Some v) \<longleftrightarrow> v = JNull" "nullish None"
  by (simp_all add: nullish_def)

lemma optional_of_text: "pred_option nonblank x \<Longrightarrow> optional (\<lambda>v. text_of v name) (Some (text_or_null x)) = Inr x"
  by (cases x) (simp_all add: optional_def text_of_JStr)

lemma optional_json_or_null: "x \<noteq> Some JNull \<Longrightarrow> optional_json (Some (json_or_null x)) = x"
  by (cases x) (simp_all add: optional_json_def json_or_null_def)

lemma plain_object_JObj [simp]: "plain_object (Some (JObj kvs)) name = Inr ()"
  by (simp add: plain_object_def)

lemma integer_of_JNum: "0 \<le> n \<Longrightarrow> integer_of True (JNum n) name = Inr n" "0 < n \<Longrightarrow> integer_of z (JNum n) name = Inr n"
  by auto

lemma normalize_requirement_json: "wf_requirement r \<Longrightarrow> normalize_requirement i (requirement_json r) = Inr r"
  by (simp add: normalize_requirement_def requirement_json_def wf_requirement_def text_of_JStr Let_def)

lemma normalize_review_json: "wf_review r \<Longrightarrow> normalize_review i (review_json r) = Inr r"
  by (simp add: normalize_review_def review_json_def wf_review_def text_of_JStr text_array_json Let_def)

lemma normalize_finding_json: "wf_finding f \<Longrightarrow> normalize_finding i (finding_json f) = Inr f"
  by (cases "finding_disposition f")
    (simp_all add: normalize_finding_def finding_json_def wf_finding_def text_of_JStr optional_of_text Let_def, simp_all add: optional_def)

lemma normalize_active_json:
  "pred_option wf_active a \<Longrightarrow> normalize_active_review (Some (json_or_null (map_option active_review_json a))) i = Inr a"
  by (cases a) (simp_all add: normalize_active_review_def optional_def active_review_json_def review_subject_json_def wf_active_def
      normalize_review_subject_def text_of_JStr integer_of_JNum Let_def or_default_def json_or_null_def)

lemma read_list_map:
  "(\<And>i x. x \<in> set xs \<Longrightarrow> f i (g x) = Inr x) \<Longrightarrow> read_list (Some (JArr (map g xs))) f = Inr xs"
  by (simp add: read_list_def js_array_def map_indexed_id)

lemma item_members:
  "opt_member (Some (JObj (item_fields i))) k = map_of (item_fields i) k"
  by simp

lemma item_eta:
  "\<lparr>item_id = item_id i, item_work = item_work i, item_status = item_status i, item_owner = item_owner i,
     claim_generation = claim_generation i, review_generation = review_generation i, depends_on = depends_on i,
     remaining_work = remaining_work i, blockers = blockers i, artifact_refs = artifact_refs i,
     evidence_refs = evidence_refs i, follow_up_refs = follow_up_refs i, checkpoint = checkpoint i,
     checkpointed_by = checkpointed_by i, submission = submission i, submitted_by = submitted_by i,
     requirements = requirements i, reviews = reviews i, findings = findings i, active = active i, origin = origin i\<rparr> = (i :: item)"
  by simp

lemma normalize_item_loose:
  assumes "loose_item i"
  shows "normalize_item n (item_json i) = Inr j \<longleftrightarrow> j = i \<and> wf_item i"
proof -
  have "normalize_item n (item_json i) = Inr j \<longleftrightarrow>
      distinct (map req_key (requirements i)) \<and> distinct (map review_key (reviews i)) \<and> distinct (map finding_id (findings i)) \<and> i = j"
    using assms unfolding normalize_item_def item_json_def Let_def loose_item_def
    by (simp add: item_fields_def text_of_JStr text_array_json optional_of_text integer_of_JNum
      normalize_active_json read_list_map normalize_requirement_json normalize_review_json normalize_finding_json
      optional_json_or_null item_eta)
  with assms show ?thesis by (auto simp: wf_item_def)
qed

lemma normalize_item_json: "wf_item i \<Longrightarrow> normalize_item n (item_json i) = Inr i"
  using normalize_item_loose [of i n i] by (simp add: wf_item_def)

lemma map_indexed_loose:
  assumes "\<And>i x y. x \<in> set xs \<Longrightarrow> f i (g x) = Inr y \<longleftrightarrow> y = x \<and> P x"
  shows "map_indexed f (map g xs) = Inr ys \<longleftrightarrow> ys = xs \<and> (\<forall>x \<in> set xs. P x)"
proof -
  have "map_res (\<lambda>(i, x). f i x) (enumerate n (map g zs)) = Inr ys \<longleftrightarrow> ys = zs \<and> (\<forall>x \<in> set zs. P x)" if "set zs \<subseteq> set xs" for n zs ys
    using that assms by (induction zs arbitrary: n ys) auto
  then show ?thesis by (simp add: map_indexed_def)
qed

lemma define_snapshot_loose:
  assumes "\<forall>i \<in> set items. loose_item i"
  shows "define_snapshot (Some (snapshot_json items)) = Inr saved \<longleftrightarrow> saved = items \<and> wf_snapshot items"
proof -
  have "map_indexed normalize_item (map item_json items) = Inr ys \<longleftrightarrow> ys = items \<and> (\<forall>i \<in> set items. wf_item i)" for ys
    using assms by (intro map_indexed_loose normalize_item_loose) auto
  then show ?thesis
    by (auto simp: define_snapshot_def snapshot_json_def wf_snapshot_def Let_def arg_or_def type_invariant_def)
qed

lemma snapshot_roundtrip: "wf_snapshot items \<Longrightarrow> define_snapshot (Some (snapshot_json items)) = Inr items"
  by (subst define_snapshot_loose) (auto simp: wf_snapshot_def wf_item_def)

subsection \<open>What was read is well formed\<close>

lemma optional_text_ok: "optional (\<lambda>v. text_of v name) v = Inr x \<Longrightarrow> pred_option nonblank x"
  by (auto simp: optional_def map_sum_Inr_iff split: if_splits)

lemma normalize_requirement_wf: "normalize_requirement i v = Inr r \<Longrightarrow> wf_requirement r"
  by (auto simp: normalize_requirement_def wf_requirement_def Let_def)

lemma normalize_review_wf: "normalize_review i v = Inr r \<Longrightarrow> wf_review r"
  by (auto simp: normalize_review_def wf_review_def Let_def intro: text_array_ok)

lemma normalize_finding_wf: "normalize_finding i v = Inr f \<Longrightarrow> wf_finding f"
  by (auto simp: normalize_finding_def wf_finding_def Let_def dest: optional_text_ok)

lemma normalize_active_wf: "normalize_active_review v i = Inr a \<Longrightarrow> pred_option wf_active a"
  by (auto simp: normalize_active_review_def optional_def map_sum_Inr_iff wf_active_def normalize_review_subject_def Let_def
      split: if_splits)

lemma read_list_all:
  "read_list v f = Inr xs \<Longrightarrow> (\<And>i x y. f i x = Inr y \<Longrightarrow> P y) \<Longrightarrow> \<forall>x \<in> set xs. P x"
  by (auto simp: read_list_def dest: map_indexed_set)

lemma optional_json_nonnull: "optional_json v \<noteq> Some JNull"
  by (cases v) (auto simp: optional_json_def)

lemma text_of_nonblank: "text_of v name = Inr s \<Longrightarrow> nonblank s"
  by simp

lemma integer_of_nonneg: "integer_of z v name = Inr n \<Longrightarrow> 0 \<le> n"
  by auto

lemma no_duplicates_distinct: "no_duplicates what seen ks = Inr u \<Longrightarrow> distinct ks"
  by simp

lemmas reads = text_of_nonblank integer_of_nonneg no_duplicates_distinct text_array_ok optional_text_ok normalize_active_wf

lemma normalize_item_wf:
  assumes "normalize_item n raw = Inr i"
  shows "wf_item i"
proof -
  note lists = read_list_all [where f = normalize_requirement and P = wf_requirement, OF _ normalize_requirement_wf]
    read_list_all [where f = normalize_review and P = wf_review, OF _ normalize_review_wf]
    read_list_all [where f = normalize_finding and P = wf_finding, OF _ normalize_finding_wf]
  show ?thesis
    using assms unfolding normalize_item_def Let_def rbind_Inr_iff
    apply (elim exE conjE)
    apply (simp only: sum.inject)
    apply (hypsubst, unfold no_duplicates_Inr, (elim conjE)?)
    apply (simp (no_asm) add: wf_item_def loose_item_def optional_json_nonnull)
    apply (intro conjI)
    apply (assumption | erule reads lists)+
    done
qed

lemma define_snapshot_wf: "define_snapshot v = Inr items \<Longrightarrow> wf_snapshot items"
  by (auto simp: define_snapshot_def wf_snapshot_def Let_def dest!: map_indexed_set split: option.splits json.splits
      intro: normalize_item_wf)

lemma define_snapshot_iff: "define_snapshot (Some (snapshot_json items)) = Inr items \<longleftrightarrow> wf_snapshot items"
  using define_snapshot_wf snapshot_roundtrip by blast

end
