(* ===== verification/Blackboard_Orchestrator.thy ===== *)
theory Blackboard_Orchestrator
  imports Blackboard_Items Trust_Boundary
begin

section \<open>The blackboard orchestrator: operations on work items\<close>

text \<open>
  The operations of \<open>createApplicationOrchestrator\<close> in
  \<open>packages/agentic-system/src/blackboard-orchestrator.js\<close> (lines 318--850).  Each one checks
  its input and hands a mutator to the transactional store; \<open>..._mutator\<close> is what it does to
  the snapshot the transaction reads, the operation itself runs it over any store (the record
  \<open>board_store\<close>).  Item ids are unique in a snapshot, so updating the first item of an id is
  updating the item of that id.  \<open>recordAssessment\<close> reads the board, evaluates the
  trust of the bundle, and only then opens its transaction: others may write in between.
\<close>

subsection \<open>Items in a snapshot\<close>

definition find_item :: "item list \<Rightarrow> string \<Rightarrow> item res" where
  "find_item board iid =
     (case find (\<lambda>i. item_id i = iid) board of
        Some i \<Rightarrow> Inr i
      | None \<Rightarrow> Inl (TypeFault (''Blackboard item not found: '' @ iid)))"

definition put_item :: "item \<Rightarrow> item list \<Rightarrow> item list" where
  "put_item i board = map (\<lambda>j. if item_id j = item_id i then i else j) board"

definition review_for :: "item \<Rightarrow> string \<Rightarrow> review option" where
  "review_for i key = find (\<lambda>r. review_key r = key) (reviews i)"

definition requirement_for :: "item \<Rightarrow> string \<Rightarrow> requirement option" where
  "requirement_for i key = find (\<lambda>r. req_key r = key) (requirements i)"

definition finding_for :: "item \<Rightarrow> string \<Rightarrow> finding res" where
  "finding_for i iid =
     (case find (\<lambda>f. finding_id f = iid) (findings i) of
        Some f \<Rightarrow> Inr f
      | None \<Rightarrow> Inl (TypeFault (''Blackboard finding not found: '' @ iid)))"

definition can_claim :: "item_status \<Rightarrow> bool" where
  "can_claim s \<longleftrightarrow> s = READY \<or> s = REOPENED"

subsection \<open>Where a review leaves an item\<close>

definition unresolved_review :: "item \<Rightarrow> bool" where
  "unresolved_review i \<longleftrightarrow>
     (\<exists>q \<in> set (requirements i). map_option review_verdict (review_for i (req_key q)) \<noteq> Some ACCEPTED)"

definition non_accepted_review :: "item \<Rightarrow> bool" where
  "non_accepted_review i \<longleftrightarrow> (\<exists>r \<in> set (reviews i). review_verdict r \<noteq> ACCEPTED)"

definition has_pending_findings :: "item \<Rightarrow> bool" where
  "has_pending_findings i \<longleftrightarrow> (\<exists>f \<in> set (findings i). finding_disposition f = None)"

definition derive_post_review_status :: "item \<Rightarrow> item_status" where
  "derive_post_review_status i =
     (if has_pending_findings i then PENDING_RECONCILIATION
      else if non_accepted_review i \<or> remaining_work i \<noteq> [] then REOPENED
      else if unresolved_review i then PENDING_REVIEW
      else DONE)"

definition remove_resolved_work :: "item \<Rightarrow> jsval \<Rightarrow> item res" where
  "remove_resolved_work i resolved =
     rbind (text_array resolved ''resolvedWork'') (\<lambda>done_work.
     rbind (map_res (\<lambda>w. type_invariant (w \<in> set (remaining_work i))
              (''resolvedWork is not an outstanding current obligation: '' @ w)) done_work) (\<lambda>_.
       Inr (i\<lparr>remaining_work := filter (\<lambda>w. w \<notin> set done_work) (remaining_work i)\<rparr>)))"

definition board_item_text :: "string \<Rightarrow> string \<Rightarrow> string" where
  "board_item_text iid rest = ''Blackboard item '' @ iid @ '' '' @ rest"

definition assert_claim :: "item \<Rightarrow> string \<Rightarrow> string \<Rightarrow> int \<Rightarrow> string \<Rightarrow> unit res" where
  "assert_claim i iid owner generation action =
     rbind (type_invariant (item_status i = CLAIMED) (board_item_text iid (''must be CLAIMED before '' @ action))) (\<lambda>_.
     rbind (type_invariant (item_owner i = Some owner) (board_item_text iid ''is claimed by another owner'')) (\<lambda>_.
       type_invariant (claim_generation i = generation) (board_item_text iid ''claim generation is stale'')))"

definition review_target :: "item \<Rightarrow> string \<Rightarrow> int \<Rightarrow> (string \<times> json) list" where
  "review_target i key generation =
     [(''itemId'', JStr (item_id i)), (''reviewKey'', JStr key), (''reviewGeneration'', JNum generation)]"

definition review_subject_of :: "platform \<Rightarrow> item \<Rightarrow> string \<Rightarrow> int \<Rightarrow> review_subject res" where
  "review_subject_of P i key generation =
     rbind (type_invariant (submission i \<noteq> None) (board_item_text (item_id i) ''has no submission'')) (\<lambda>_.
     rbind (type_invariant (submitted_by i \<noteq> None) (board_item_text (item_id i) ''has no submission producer'')) (\<lambda>_.
     rbind (subject_from_value P
              (JObj (review_target i key generation @ [(''submission'', the (submission i))]))
              (JObj [(''type'', JStr ''blackboard-review-target''),
                     (''producer'', JObj [(''identity'', JStr (the (submitted_by i))), (''roles'', JArr [JStr ''producer''])]),
                     (''metadata'', JObj (review_target i key generation))])) (\<lambda>s.
       normalize_review_subject (Some s) ''subject'')))"

subsection \<open>The store\<close>

type_synonym mutator = "item list \<Rightarrow> (item list \<times> json) res"

record 's board_store =
  load_board :: "'s \<Rightarrow> 's \<times> item list res"
  transact_board :: "'s \<Rightarrow> mutator \<Rightarrow> 's \<times> (item list \<times> json) res"

text \<open>What every transaction does to the snapshot it reads: mutate, then validate the result.\<close>

definition apply_mutator :: "mutator \<Rightarrow> item list \<Rightarrow> (item list \<times> json) res" where
  "apply_mutator mut board =
     rbind (mut board) (\<lambda>(next, r). rbind (define_snapshot (Some (snapshot_json next))) (\<lambda>saved. Inr (saved, r)))"

definition input_ok :: "unit res list \<Rightarrow> unit res" where
  "input_ok checks = rbind (map_res (\<lambda>c. c) checks) (\<lambda>_. Inr ())"

definition need :: "string \<Rightarrow> string \<Rightarrow> unit res" where
  "need s name = rbind (text_of (Some (JStr s)) name) (\<lambda>_. Inr ())"

definition run_op :: "'s board_store \<Rightarrow> unit res list \<Rightarrow> mutator \<Rightarrow> 's \<Rightarrow> 's \<times> (item list \<times> json) res" where
  "run_op S checks mut s =
     (case input_ok checks of Inl e \<Rightarrow> (s, Inl e) | Inr _ \<Rightarrow> transact_board S s mut)"

text \<open>A mutator that changes one item and answers with it.\<close>

definition on_item :: "string \<Rightarrow> (item list \<Rightarrow> item \<Rightarrow> item res) \<Rightarrow> mutator" where
  "on_item iid f board =
     rbind (find_item board iid) (\<lambda>i. rbind (f board i) (\<lambda>i'. Inr (put_item i' board, item_json i')))"

definition read_blackboard :: "'s board_store \<Rightarrow> 's \<Rightarrow> 's \<times> item list res" where
  "read_blackboard S s =
     (case load_board S s of (s', r) \<Rightarrow>
        (s', rbind r (\<lambda>board. define_snapshot (Some (snapshot_json board)))))"

subsection \<open>Seeding and claiming\<close>

definition seed_mutator :: "json list \<Rightarrow> mutator" where
  "seed_mutator raw board =
     rbind (type_invariant (board = []) ''Blackboard seed requires an empty store'') (\<lambda>_.
     rbind (map_indexed normalize_item raw) (\<lambda>items. Inr (items, JArr (map (\<lambda>i. JStr (item_id i)) items))))"

definition seed :: "'s board_store \<Rightarrow> json list \<Rightarrow> 's \<Rightarrow> 's \<times> (item list \<times> json) res" where
  "seed S raw = run_op S [] (seed_mutator raw)"

definition claim_edit :: "string \<Rightarrow> string \<Rightarrow> item list \<Rightarrow> item \<Rightarrow> item res" where
  "claim_edit iid owner board i =
     rbind (type_invariant (can_claim (item_status i)) (board_item_text iid (''is not claimable from '' @ item_status_text (item_status i)))) (\<lambda>_.
     rbind (map_res (\<lambda>d. rbind (find_item board d) (\<lambda>j.
              type_invariant (item_status j = DONE) (board_item_text iid (''dependency is not DONE: '' @ d)))) (depends_on i)) (\<lambda>_.
       Inr (i\<lparr>claim_generation := claim_generation i + 1, item_status := CLAIMED, item_owner := Some owner, blockers := []\<rparr>)))"

definition claim :: "'s board_store \<Rightarrow> string \<Rightarrow> string \<Rightarrow> 's \<Rightarrow> 's \<times> (item list \<times> json) res" where
  "claim S iid owner = run_op S [need iid ''itemId'', need owner ''owner''] (on_item iid (claim_edit iid owner))"

definition recover_claim_edit :: "string \<Rightarrow> string \<Rightarrow> item list \<Rightarrow> item \<Rightarrow> item res" where
  "recover_claim_edit iid owner board i =
     rbind (type_invariant (item_status i = CLAIMED) (board_item_text iid ''must be CLAIMED before claim recovery'')) (\<lambda>_.
       Inr (i\<lparr>claim_generation := claim_generation i + 1, item_owner := Some owner, blockers := []\<rparr>))"

definition recover_claim :: "'s board_store \<Rightarrow> string \<Rightarrow> string \<Rightarrow> string \<Rightarrow> 's \<Rightarrow> 's \<times> (item list \<times> json) res" where
  "recover_claim S iid owner why =
     run_op S [need iid ''itemId'', need owner ''owner'', need why ''reason''] (on_item iid (recover_claim_edit iid owner))"

subsection \<open>Working on a claimed item\<close>

record work_report =
  report_artifacts :: jsval
  report_evidence :: jsval
  report_remaining :: jsval
  report_resolved :: jsval
  report_status :: item_status
  report_blockers :: jsval

definition positive_generation :: "int \<Rightarrow> unit res" where
  "positive_generation g = rbind (integer_of False (JNum g) ''generation'') (\<lambda>_. Inr ())"

definition checkpoint_edit ::
  "string \<Rightarrow> string \<Rightarrow> int \<Rightarrow> json \<Rightarrow> work_report \<Rightarrow> string list \<Rightarrow> string list \<Rightarrow> string list \<Rightarrow> string list \<Rightarrow>
     item list \<Rightarrow> item \<Rightarrow> item res" where
  "checkpoint_edit iid owner generation value w artifacts evidence remaining blocked board i =
     rbind (assert_claim i iid owner generation ''checkpoint'') (\<lambda>_.
     rbind (remove_resolved_work i (report_resolved w)) (\<lambda>i.
       Inr (i\<lparr>artifact_refs := add_unique (artifact_refs i) artifacts, evidence_refs := add_unique (evidence_refs i) evidence,
              remaining_work := add_unique (remaining_work i) remaining, checkpoint := Some value,
              checkpointed_by := Some owner, item_owner := None, blockers := blocked, item_status := report_status w\<rparr>)))"

definition is_plain :: "json \<Rightarrow> bool" where
  "is_plain v \<longleftrightarrow> (case v of JObj _ \<Rightarrow> True | _ \<Rightarrow> False)"

definition checkpoint_item ::
  "'s board_store \<Rightarrow> string \<Rightarrow> string \<Rightarrow> int \<Rightarrow> json \<Rightarrow> work_report \<Rightarrow> 's \<Rightarrow> 's \<times> (item list \<times> json) res" where
  "checkpoint_item S iid owner generation value w s =
     (case rbind (input_ok [need iid ''itemId'', need owner ''owner'', positive_generation generation,
              type_invariant (is_plain value) ''checkpoint must be an object'',
              type_invariant (report_status w \<in> {REOPENED, BLOCKED}) ''checkpoint status must be REOPENED or BLOCKED'']) (\<lambda>_.
           rbind (text_array (report_artifacts w) ''artifactRefs'') (\<lambda>artifacts.
           rbind (text_array (report_evidence w) ''evidenceRefs'') (\<lambda>evidence.
           rbind (text_array (report_remaining w) ''remainingWork'') (\<lambda>remaining.
           rbind (text_array (report_blockers w) ''blockers'') (\<lambda>blocked.
           rbind (type_invariant (report_status w \<noteq> BLOCKED \<or> blocked \<noteq> []) ''BLOCKED checkpoint requires blockers'') (\<lambda>_.
             Inr (checkpoint_edit iid owner generation value w artifacts evidence remaining blocked))))))) of
        Inl e \<Rightarrow> (s, Inl e)
      | Inr f \<Rightarrow> transact_board S s (on_item iid f))"

definition resume_edit :: "string \<Rightarrow> item list \<Rightarrow> item \<Rightarrow> item res" where
  "resume_edit iid board i =
     rbind (type_invariant (item_status i = BLOCKED) (board_item_text iid ''must be BLOCKED before resume'')) (\<lambda>_.
       Inr (i\<lparr>blockers := [], item_status := REOPENED\<rparr>))"

definition resume :: "'s board_store \<Rightarrow> string \<Rightarrow> 's \<Rightarrow> 's \<times> (item list \<times> json) res" where
  "resume S iid = run_op S [need iid ''itemId''] (on_item iid (resume_edit iid))"

definition supersede_edit :: "string \<Rightarrow> string \<Rightarrow> item list \<Rightarrow> item \<Rightarrow> item res" where
  "supersede_edit iid why board i =
     rbind (type_invariant (item_status i \<noteq> DONE) (board_item_text iid ''cannot be superseded from DONE'')) (\<lambda>_.
     rbind (type_invariant (item_status i \<noteq> SUPERSEDED) (board_item_text iid ''is already SUPERSEDED'')) (\<lambda>_.
       Inr (i\<lparr>claim_generation := claim_generation i + (if item_status i = CLAIMED then 1 else 0), item_owner := None,
              active := None, blockers := [why], item_status := SUPERSEDED\<rparr>)))"

definition supersede :: "'s board_store \<Rightarrow> string \<Rightarrow> string \<Rightarrow> 's \<Rightarrow> 's \<times> (item list \<times> json) res" where
  "supersede S iid why = run_op S [need iid ''itemId'', need why ''reason''] (on_item iid (supersede_edit iid why))"

definition block_edit :: "string \<Rightarrow> string \<Rightarrow> int \<Rightarrow> string list \<Rightarrow> item list \<Rightarrow> item \<Rightarrow> item res" where
  "block_edit iid owner generation blocked board i =
     rbind (assert_claim i iid owner generation ''block'') (\<lambda>_.
       Inr (i\<lparr>item_owner := None, blockers := blocked, item_status := BLOCKED\<rparr>))"

definition block_item :: "'s board_store \<Rightarrow> string \<Rightarrow> string \<Rightarrow> int \<Rightarrow> jsval \<Rightarrow> 's \<Rightarrow> 's \<times> (item list \<times> json) res" where
  "block_item S iid owner generation raw s =
     (case rbind (input_ok [need iid ''itemId'', need owner ''owner'', positive_generation generation]) (\<lambda>_.
           rbind (text_array raw ''blockers'') (\<lambda>blocked.
           rbind (type_invariant (blocked \<noteq> []) ''block requires at least one blocker'') (\<lambda>_. Inr blocked))) of
        Inl e \<Rightarrow> (s, Inl e)
      | Inr blocked \<Rightarrow> transact_board S s (on_item iid (block_edit iid owner generation blocked)))"

subsection \<open>Submitting and requiring reviews\<close>

fun add_requests :: "json list \<Rightarrow> item \<Rightarrow> item res" where
  "add_requests [] i = Inr i"
| "add_requests (raw # rest) i =
     rbind (normalize_requirement (length (requirements i)) raw) (\<lambda>q.
     rbind (type_invariant (req_source q = WORKER) ''submit reviewRequests must be WORKER-sourced'') (\<lambda>_.
       add_requests rest
         (if requirement_for i (req_key q) = None then i\<lparr>requirements := requirements i @ [q]\<rparr> else i)))"

definition submit_edit ::
  "string \<Rightarrow> string \<Rightarrow> int \<Rightarrow> json \<Rightarrow> json list \<Rightarrow> json list \<Rightarrow> item list \<Rightarrow> item \<Rightarrow> item res" where
  "submit_edit iid owner generation value requests resolved board i =
     rbind (assert_claim i iid owner generation ''submit'') (\<lambda>_.
     rbind (remove_resolved_work i (Some (JArr resolved))) (\<lambda>i.
     rbind (add_requests requests i) (\<lambda>i.
       Inr (i\<lparr>checkpoint := None, checkpointed_by := None, submission := Some value, submitted_by := Some owner,
              item_owner := None, active := None, reviews := [], findings := [], item_status := PENDING_REVIEW\<rparr>))))"

definition submit ::
  "platform \<Rightarrow> 's board_store \<Rightarrow> string \<Rightarrow> string \<Rightarrow> int \<Rightarrow> json \<Rightarrow> json list \<Rightarrow> json list \<Rightarrow> 's
     \<Rightarrow> 's \<times> (item list \<times> json) res" where
  "submit P S iid owner generation value requests resolved =
     run_op S [need iid ''itemId'', need owner ''owner'', positive_generation generation,
               type_invariant (is_plain value) ''submission must be an object'',
               rbind (subject_from_value P (JObj [(''itemId'', JStr iid), (''submission'', value)])
                  (JObj [(''type'', JStr ''blackboard-submission''),
                         (''producer'', JObj [(''identity'', JStr owner), (''roles'', JArr [JStr ''producer''])])])) (\<lambda>_. Inr ())]
       (on_item iid (submit_edit iid owner generation value requests resolved))"

definition require_review_edit :: "string \<Rightarrow> requirement \<Rightarrow> item list \<Rightarrow> item \<Rightarrow> item res" where
  "require_review_edit iid q board i =
     rbind (type_invariant (item_status i \<noteq> DONE \<and> item_status i \<noteq> SUPERSEDED)
              (board_item_text iid (''cannot add review from '' @ item_status_text (item_status i)))) (\<lambda>_.
     rbind (type_invariant (requirement_for i (req_key q) = None) (board_item_text iid (''already requires review '' @ req_key q))) (\<lambda>_.
       Inr (i\<lparr>requirements := requirements i @ [q],
              item_status := (if submission i \<noteq> None \<and> item_status i \<notin> {CLAIMED, REVIEWING, PENDING_RECONCILIATION}
                              then PENDING_REVIEW else item_status i)\<rparr>)))"

definition require_review :: "'s board_store \<Rightarrow> string \<Rightarrow> json \<Rightarrow> 's \<Rightarrow> 's \<times> (item list \<times> json) res" where
  "require_review S iid raw s =
     (case rbind (need iid ''itemId'') (\<lambda>_. rbind (normalize_requirement 0 raw) (\<lambda>q.
           rbind (type_invariant (req_source q = PM) ''requireReview must be PM-sourced'') (\<lambda>_. Inr q))) of
        Inl e \<Rightarrow> (s, Inl e)
      | Inr q \<Rightarrow> transact_board S s (on_item iid (require_review_edit iid q)))"

subsection \<open>Starting a review\<close>

definition start_review :: "platform \<Rightarrow> string \<Rightarrow> string \<Rightarrow> string \<Rightarrow> item \<Rightarrow> item res" where
  "start_review P iid key who i =
     rbind (type_invariant (requirement_for i key \<noteq> None) (board_item_text iid (''does not require review '' @ key))) (\<lambda>_.
     rbind (type_invariant (review_for i key = None) (board_item_text iid (''already has assessment for '' @ key))) (\<lambda>_.
     rbind (type_invariant (submitted_by i \<noteq> Some who) ''reviewer must be independent from submission producer'') (\<lambda>_.
     let g = review_generation i + 1 in
     rbind (review_subject_of P i key g) (\<lambda>s.
       Inr (i\<lparr>review_generation := g, item_status := REVIEWING,
              active := Some \<lparr>active_key = key, active_reviewer = who, active_generation = g, active_subject = s\<rparr>\<rparr>)))))"

definition begin_review_edit :: "platform \<Rightarrow> string \<Rightarrow> string \<Rightarrow> string \<Rightarrow> item list \<Rightarrow> item \<Rightarrow> item res" where
  "begin_review_edit P iid key who board i =
     rbind (type_invariant (submission i \<noteq> None) (board_item_text iid ''has no submission to review'')) (\<lambda>_.
     rbind (type_invariant (item_status i = PENDING_REVIEW) (board_item_text iid (''is not reviewable from '' @ item_status_text (item_status i)))) (\<lambda>_.
     rbind (if requirement_for i key \<noteq> None \<and> review_for i key = None
            then type_invariant (active i = None) (board_item_text iid ''already has an active review'') else Inr ()) (\<lambda>_.
       start_review P iid key who i)))"

text \<open>These two answer with the active review instead of the item.\<close>

definition on_review :: "string \<Rightarrow> (item list \<Rightarrow> item \<Rightarrow> item res) \<Rightarrow> mutator" where
  "on_review iid f board =
     rbind (find_item board iid) (\<lambda>i. rbind (f board i) (\<lambda>i'.
       Inr (put_item i' board, json_or_null (map_option active_review_json (active i')))))"

definition begin_review :: "platform \<Rightarrow> 's board_store \<Rightarrow> string \<Rightarrow> string \<Rightarrow> string \<Rightarrow> 's \<Rightarrow> 's \<times> (item list \<times> json) res" where
  "begin_review P S iid key who =
     run_op S [need iid ''itemId'', need key ''key'', need who ''reviewer''] (on_review iid (begin_review_edit P iid key who))"

definition recover_review_edit :: "platform \<Rightarrow> string \<Rightarrow> string \<Rightarrow> string \<Rightarrow> item list \<Rightarrow> item \<Rightarrow> item res" where
  "recover_review_edit P iid key who board i =
     rbind (type_invariant (submission i \<noteq> None) (board_item_text iid ''has no submission to review'')) (\<lambda>_.
     rbind (type_invariant (item_status i = REVIEWING) (board_item_text iid ''must be REVIEWING before review recovery'')) (\<lambda>_.
     rbind (type_invariant (map_option active_key (active i) = Some key) (board_item_text iid ''active review does not match recovery'')) (\<lambda>_.
       start_review P iid key who i)))"

definition recover_review ::
  "platform \<Rightarrow> 's board_store \<Rightarrow> string \<Rightarrow> string \<Rightarrow> string \<Rightarrow> string \<Rightarrow> 's \<Rightarrow> 's \<times> (item list \<times> json) res" where
  "recover_review P S iid key who why =
     run_op S [need iid ''itemId'', need key ''key'', need who ''reviewer'', need why ''reason'']
       (on_review iid (recover_review_edit P iid key who))"

subsection \<open>Judging a review bundle\<close>

text \<open>The caller's trust configuration: a policy per review and the three verifiers.\<close>

record review_trust =
  trust_policy_for :: "item \<Rightarrow> requirement \<Rightarrow> string \<Rightarrow> review_subject \<Rightarrow> trust_policy res"
  trust_signature :: "item \<Rightarrow> requirement \<Rightarrow> string \<Rightarrow> json \<Rightarrow> jsval res"
  trust_evaluator :: "item \<Rightarrow> requirement \<Rightarrow> string \<Rightarrow> authority_verifier"
  trust_evidence :: "item \<Rightarrow> requirement \<Rightarrow> string \<Rightarrow> authority_verifier"

record review_bundle =
  bundle_evidence :: "json list"
  bundle_decision :: jsval
  bundle_attestation :: jsval

record assessment =
  assessed_verdict :: jsval
  assessed_by :: string
  assessed_decision :: jsval
  assessed_attestation :: jsval
  assessed_findings :: "string list"
  blocking_reasons :: "string list"

definition findings_from_decision :: "jsval \<Rightarrow> string list res" where
  "findings_from_decision d = text_array (path d ''metadata'' ''findings'') ''review decision findings''"

definition blocking_reason :: "nat \<Rightarrow> json \<Rightarrow> string res" where
  "blocking_reason n entry =
     (let at = indexed ''review decision unresolved'' n in
      case entry of
        JStr s \<Rightarrow> text_of (Some entry) at
      | _ \<Rightarrow>
          rbind (type_invariant (is_plain entry) (at @ '' must be an object or string'')) (\<lambda>_.
            let f = opt_member (Some entry) in
            text_of (if \<not> nullish (f ''summary'') then f ''summary'' else if \<not> nullish (f ''reason'') then f ''reason''
                     else f ''finding'') (at @ '' summary'')))"

definition blocking_reasons_from_decision :: "jsval \<Rightarrow> string list res" where
  "blocking_reasons_from_decision d =
     (case or_default (opt_member d ''unresolved'') (JArr []) of
        JArr vs \<Rightarrow> map_indexed blocking_reason vs
      | _ \<Rightarrow> Inl (TypeFault ''review decision unresolved must be an array''))"

definition same_subject :: "jsval \<Rightarrow> review_subject \<Rightarrow> bool" where
  "same_subject v s \<longleftrightarrow> opt_member v ''type'' = Some (JStr (subject_type s)) \<and> opt_member v ''digest'' = Some (JStr (subject_digest s))"

definition review_policy :: "trust_policy \<Rightarrow> trust_policy res" where
  "review_policy p =
     define_trust_policy (p\<lparr>boundary := Some ''ACCEPTANCE'',
       required_issuer_roles := uniq (required_issuer_roles p @ [''attestor'']),
       required_evaluator_roles := uniq (required_evaluator_roles p @ [''reviewer'']),
       required_evidence_producer_roles := uniq (required_evidence_producer_roles p @ [''verifier'']),
       require_signature := True, require_evidence_artifacts := True, require_decision_artifact := True,
       require_independent_issuer := True, require_independent_evidence_producers := True\<rparr>)"

definition check_review_bundle :: "platform \<Rightarrow> item \<Rightarrow> active_review \<Rightarrow> review_bundle \<Rightarrow> (string list \<times> string list) res" where
  "check_review_bundle P i a b =
     (let d = bundle_decision b; who = path d ''evaluator'' ''identity'' in
      rbind (type_invariant (bundle_evidence b \<noteq> []) ''review trust bundle requires grounded evidence artifacts'') (\<lambda>_.
      rbind (validate_trust_bundle P (bundle_evidence b) d (bundle_attestation b)) (\<lambda>_.
      rbind (type_invariant (one_of (opt_member d ''verdict'') (map fst verdicts)) ''review decision verdict is invalid'') (\<lambda>_.
      rbind (type_invariant (who = Some (JStr (active_reviewer a))) ''review decision evaluator does not match scheduled reviewer'') (\<lambda>_.
      rbind (type_invariant (who \<noteq> map_option JStr (submitted_by i)) ''review evaluator must be independent from submission producer'') (\<lambda>_.
      rbind (map_res (\<lambda>e. type_invariant (same_subject (opt_member (Some e) ''subject'') (active_subject a))
               ''review evidence subject does not match active review target'') (bundle_evidence b)) (\<lambda>_.
      rbind (findings_from_decision d) (\<lambda>found.
      rbind (blocking_reasons_from_decision d) (\<lambda>blocking.
      rbind (if opt_member d ''verdict'' = Some (JStr ''ACCEPTED'')
             then type_invariant (blocking = []) ''accepted review decision cannot contain unresolved claims''
             else type_invariant (blocking \<noteq> []) ''non-accepted review decision requires at least one unresolved blocking reason'') (\<lambda>_.
        Inr (found, blocking)))))))))))"

definition evaluate_review_bundle ::
  "platform \<Rightarrow> review_trust \<Rightarrow> string \<Rightarrow> item \<Rightarrow> requirement \<Rightarrow> active_review \<Rightarrow> review_bundle \<Rightarrow> assessment res" where
  "evaluate_review_bundle P T now i q a b =
     (let who = active_reviewer a in
      rbind (check_review_bundle P i a b) (\<lambda>(found, blocking).
      rbind (trust_policy_for T i q who (active_subject a)) (\<lambda>declared.
      rbind (review_policy declared) (\<lambda>policy.
      rbind (evaluate_trust_boundary P (bundle_attestation b) (bundle_decision b) (bundle_evidence b)
               (Some (review_subject_json (active_subject a))) policy (Some (trust_signature T i q who))
               (Some (trust_evaluator T i q who)) (Some (trust_evidence T i q who)) now) (\<lambda>trust.
      rbind (type_invariant (boundary_trusted trust)
               (''review trust rejected: '' @ join '', '' (map (\<lambda>r. js_text (opt_member (Some r) ''code'')) (boundary_reasons trust)))) (\<lambda>_.
        Inr \<lparr>assessed_verdict = opt_member (bundle_decision b) ''verdict'', assessed_by = who,
             assessed_decision = opt_member (bundle_decision b) ''id'', assessed_attestation = opt_member (bundle_attestation b) ''id'',
             assessed_findings = found, blocking_reasons = blocking\<rparr>))))))"

subsection \<open>Recording an assessment\<close>

definition observe_review :: "string \<Rightarrow> string \<Rightarrow> item list \<Rightarrow> (item \<times> requirement \<times> active_review) res" where
  "observe_review iid key board =
     rbind (find_item board iid) (\<lambda>i.
     rbind (type_invariant (item_status i = REVIEWING) (board_item_text iid ''is not REVIEWING'')) (\<lambda>_.
     rbind (type_invariant (map_option active_key (active i) = Some key) (board_item_text iid ''active review does not match assessment'')) (\<lambda>_.
     rbind (type_invariant (requirement_for i key \<noteq> None) (board_item_text iid (''does not require review '' @ key))) (\<lambda>_.
       Inr (i, the (requirement_for i key), the (active i))))))"

definition same_active_review :: "active_review option \<Rightarrow> active_review \<Rightarrow> bool" where
  "same_active_review left right \<longleftrightarrow>
     (case left of None \<Rightarrow> False
      | Some a \<Rightarrow> active_key a = active_key right \<and> active_reviewer a = active_reviewer right \<and>
          active_generation a = active_generation right \<and> subject_type (active_subject a) = subject_type (active_subject right) \<and>
          subject_digest (active_subject a) = subject_digest (active_subject right))"

definition review_finding_id :: "jsval \<Rightarrow> nat \<Rightarrow> string" where
  "review_finding_id decision n = js_text decision @ '':finding:'' @ nat_text (n + 1)"

definition assessed_finding_list :: "string \<Rightarrow> assessment \<Rightarrow> nat \<Rightarrow> finding list res" where
  "assessed_finding_list key x start =
     map_indexed (\<lambda>n summary. normalize_finding (start + n + n) (obj
        [(''id'', Some (JStr (review_finding_id (assessed_decision x) n))), (''summary'', Some (JStr summary)),
         (''sourceRef'', assessed_attestation x), (''reviewKey'', Some (JStr key)),
         (''disposition'', Some JNull), (''targetItemId'', Some JNull)])) (assessed_findings x)"

definition record_assessment_edit ::
  "string \<Rightarrow> string \<Rightarrow> active_review \<Rightarrow> assessment \<Rightarrow> item list \<Rightarrow> item \<Rightarrow> item res" where
  "record_assessment_edit iid key observed x board i =
     rbind (type_invariant (item_status i = REVIEWING) (board_item_text iid ''changed while assessment trust was evaluated'')) (\<lambda>_.
     rbind (type_invariant (same_active_review (active i) observed)
              (board_item_text iid ''review target changed while assessment trust was evaluated'')) (\<lambda>_.
     rbind (type_invariant (requirement_for i key \<noteq> None)
              (board_item_text iid ''review requirement changed while assessment trust was evaluated'')) (\<lambda>_.
     rbind (assessed_finding_list key x (length (findings i))) (\<lambda>found.
     rbind (normalize_review (length (reviews i)) (obj
        [(''key'', Some (JStr key)), (''reviewer'', Some (JStr (assessed_by x))), (''verdict'', assessed_verdict x),
         (''decisionRef'', assessed_decision x), (''attestationRef'', assessed_attestation x),
         (''findingRefs'', Some (texts (map finding_id found)))])) (\<lambda>r.
       let i' = i\<lparr>findings := findings i @ found, reviews := reviews i @ [r], active := None,
                  evidence_refs := add_unique (evidence_refs i) [decision_ref r, attestation_of r],
                  remaining_work := add_unique (remaining_work i) (blocking_reasons x)\<rparr>
       in Inr (i'\<lparr>item_status := derive_post_review_status i'\<rparr>))))))"

text \<open>\<open>meanwhile\<close> is what others do to the store while the trust of the bundle is evaluated.\<close>

definition record_assessment ::
  "platform \<Rightarrow> review_trust \<Rightarrow> 's board_store \<Rightarrow> string \<Rightarrow> ('s \<Rightarrow> 's) \<Rightarrow> string \<Rightarrow> string \<Rightarrow> review_bundle \<Rightarrow> 's
     \<Rightarrow> 's \<times> (item list \<times> json) res" where
  "record_assessment P T S now meanwhile iid key b s =
     (case input_ok [need iid ''itemId'', need key ''key''] of
        Inl e \<Rightarrow> (s, Inl e)
      | Inr _ \<Rightarrow>
          (case read_blackboard S s of (s1, board) \<Rightarrow>
             (case rbind board (observe_review iid key) of
                Inl e \<Rightarrow> (s1, Inl e)
              | Inr (i, q, a) \<Rightarrow>
                  (case evaluate_review_bundle P T now i q a b of
                     Inl e \<Rightarrow> (meanwhile s1, Inl e)
                   | Inr x \<Rightarrow> transact_board S (meanwhile s1) (on_item iid (record_assessment_edit iid key a x))))))"

subsection \<open>Reconciling findings\<close>

definition new_work_item :: "item \<Rightarrow> finding \<Rightarrow> nat \<Rightarrow> (string \<times> json) list \<Rightarrow> item res" where
  "new_work_item i f n raw =
     normalize_item n (JObj
       (aset ''origin'' (JObj [(''parentItemId'', JStr (item_id i)), (''findingId'', JStr (finding_id f)),
                               (''finding'', JStr (finding_summary f)), (''sourceRef'', JStr (source_ref f))])
         (aset ''status'' (or_default (map_of raw ''status'') (JStr ''READY'')) raw)))"

text \<open>What the disposition does: the item, the work it is linked to, and an item to add.\<close>

definition dispose :: "item list \<Rightarrow> item \<Rightarrow> finding \<Rightarrow> disposition \<Rightarrow> jsval \<Rightarrow> jsval \<Rightarrow> (item \<times> string option \<times> item list) res" where
  "dispose board i f d existing new_item =
     (case d of
        CURRENT_WORK \<Rightarrow> Inr (i\<lparr>remaining_work := add_unique (remaining_work i) [finding_summary f]\<rparr>, None, [])
      | EXISTING_WORK \<Rightarrow>
          rbind (text_of existing ''existingItemId'') (\<lambda>target.
          rbind (type_invariant (target \<noteq> item_id i) ''existing follow-up target must differ from current item'') (\<lambda>_.
          rbind (find_item board target) (\<lambda>_.
            Inr (i\<lparr>follow_up_refs := add_unique (follow_up_refs i) [target]\<rparr>, Some target, []))))
      | NEW_WORK \<Rightarrow>
          (case new_item of
             Some (JObj raw) \<Rightarrow>
               rbind (new_work_item i f (length board) raw) (\<lambda>child.
               rbind (type_invariant (item_id child \<notin> item_id ` set board) (''Blackboard item already exists: '' @ item_id child)) (\<lambda>_.
                 Inr (i\<lparr>follow_up_refs := add_unique (follow_up_refs i) [item_id child]\<rparr>, Some (item_id child), [child])))
           | _ \<Rightarrow> Inl (TypeFault ''NEW_WORK disposition requires newItem''))
      | NON_ACTIONABLE \<Rightarrow> Inr (i, None, []))"

definition set_finding :: "finding \<Rightarrow> item \<Rightarrow> item" where
  "set_finding f i = i\<lparr>findings := map (\<lambda>g. if finding_id g = finding_id f then f else g) (findings i)\<rparr>"

definition reconcile_mutator :: "string \<Rightarrow> string \<Rightarrow> disposition \<Rightarrow> jsval \<Rightarrow> jsval \<Rightarrow> mutator" where
  "reconcile_mutator iid fid d existing new_item board =
     rbind (find_item board iid) (\<lambda>i.
     rbind (finding_for i fid) (\<lambda>f.
     rbind (type_invariant (finding_disposition f = None) (''Blackboard finding already reconciled: '' @ fid)) (\<lambda>_.
     rbind (dispose board i f d existing new_item) (\<lambda>(i1, target, added).
       let i2 = set_finding (f\<lparr>finding_disposition := Some d, target_item := target\<rparr>) i1;
           i3 = i2\<lparr>item_status := derive_post_review_status i2\<rparr>
       in Inr (put_item i3 board @ added, item_json (case added of [] \<Rightarrow> i3 | child # _ \<Rightarrow> child))))))"

definition reconcile_finding ::
  "'s board_store \<Rightarrow> string \<Rightarrow> string \<Rightarrow> disposition \<Rightarrow> jsval \<Rightarrow> jsval \<Rightarrow> 's \<Rightarrow> 's \<times> (item list \<times> json) res" where
  "reconcile_finding S iid fid d existing new_item =
     run_op S [need iid ''itemId'', need fid ''findingId''] (reconcile_mutator iid fid d existing new_item)"

end
