(* ===== verification/Blackboard_Lifecycle.thy ===== *)
theory Blackboard_Lifecycle
  imports Blackboard_Orchestrator
begin

section \<open>The life of a work item\<close>

text \<open>
  The edits the operations make to one item, as a step relation; the changes they make to a
  board; and the invariant that both keep: \<open>sound_item\<close>.  Work that is seeded or added as a
  follow-up starts fresh here (READY, with no history); the validation of the code would also
  accept a follow-up that claims to be DONE already.
\<close>

declare add_unique.simps [simp del]

subsection \<open>Steps of an item\<close>

inductive item_step :: "platform \<Rightarrow> review_trust \<Rightarrow> item list \<Rightarrow> item \<Rightarrow> item \<Rightarrow> bool" for P T board where
  Step_Claim: "claim_edit iid owner board i = Inr i' \<Longrightarrow> nonblank owner \<Longrightarrow> item_step P T board i i'"
| Step_Recover_Claim: "recover_claim_edit iid owner board i = Inr i' \<Longrightarrow> nonblank owner \<Longrightarrow> item_step P T board i i'"
| Step_Checkpoint:
    "checkpoint_edit iid owner generation value w artifacts evidence remaining blocked board i = Inr i' \<Longrightarrow> nonblank owner \<Longrightarrow>
     is_plain value \<Longrightarrow> report_status w \<in> {REOPENED, BLOCKED} \<Longrightarrow> text_list_ok artifacts \<Longrightarrow> text_list_ok evidence \<Longrightarrow>
     text_list_ok remaining \<Longrightarrow> text_list_ok blocked \<Longrightarrow> item_step P T board i i'"
| Step_Resume: "resume_edit iid board i = Inr i' \<Longrightarrow> item_step P T board i i'"
| Step_Supersede: "supersede_edit iid why board i = Inr i' \<Longrightarrow> nonblank why \<Longrightarrow> item_step P T board i i'"
| Step_Block: "block_edit iid owner generation blocked board i = Inr i' \<Longrightarrow> text_list_ok blocked \<Longrightarrow> item_step P T board i i'"
| Step_Submit:
    "submit_edit iid owner generation value requests resolved board i = Inr i' \<Longrightarrow> nonblank owner \<Longrightarrow> is_plain value \<Longrightarrow>
     item_step P T board i i'"
| Step_Require: "require_review_edit iid q board i = Inr i' \<Longrightarrow> wf_requirement q \<Longrightarrow> item_step P T board i i'"
| Step_Begin: "begin_review_edit P iid key who board i = Inr i' \<Longrightarrow> nonblank key \<Longrightarrow> nonblank who \<Longrightarrow> item_step P T board i i'"
| Step_Recover_Review:
    "recover_review_edit P iid key who board i = Inr i' \<Longrightarrow> nonblank key \<Longrightarrow> nonblank who \<Longrightarrow> item_step P T board i i'"
| Step_Assess:
    "record_assessment_edit iid key a x board i = Inr i' \<Longrightarrow> active_key a = key \<Longrightarrow>
     evaluate_review_bundle P T now i0 q a b = Inr x \<Longrightarrow> item_step P T board i i'"

inductive_cases item_stepE: "item_step P T board i i'"

definition fresh_item :: "item \<Rightarrow> bool" where
  "fresh_item i \<longleftrightarrow> item_status i = READY \<and> item_owner i = None \<and> submission i = None \<and> submitted_by i = None \<and>
     requirements i = [] \<and> reviews i = [] \<and> findings i = [] \<and> active i = None"

inductive board_step :: "platform \<Rightarrow> review_trust \<Rightarrow> item list \<Rightarrow> item list \<Rightarrow> bool" for P T where
  Board_Edit:
    "find_item board iid = Inr i \<Longrightarrow> item_step P T board i i' \<Longrightarrow> wf_snapshot (put_item i' board) \<Longrightarrow>
     board_step P T board (put_item i' board)"
| Board_Seed:
    "seed_mutator raw [] = Inr (items, r) \<Longrightarrow> \<forall>i \<in> set items. fresh_item i \<Longrightarrow> wf_snapshot items \<Longrightarrow> board_step P T [] items"
| Board_Reconcile:
    "reconcile_mutator iid fid d existing new_item board = Inr (next, r) \<Longrightarrow>
     \<forall>i \<in> set next. item_id i \<in> item_id ` set board \<or> fresh_item i \<Longrightarrow> wf_snapshot next \<Longrightarrow> board_step P T board next"

subsection \<open>The invariant\<close>

definition done_sound :: "item \<Rightarrow> bool" where
  "done_sound i \<longleftrightarrow> (item_status i = DONE \<longrightarrow>
     \<not> has_pending_findings i \<and> \<not> non_accepted_review i \<and> remaining_work i = [] \<and> \<not> unresolved_review i \<and> reviews i \<noteq> [])"

definition phase_sound :: "item \<Rightarrow> bool" where
  "phase_sound i \<longleftrightarrow> (item_status i = REVIEWING \<longleftrightarrow> active i \<noteq> None) \<and> (item_status i = CLAIMED \<longleftrightarrow> item_owner i \<noteq> None)"

definition party_sound :: "item \<Rightarrow> bool" where
  "party_sound i \<longleftrightarrow> (submission i = None \<longleftrightarrow> submitted_by i = None) \<and>
     (\<forall>a. active i = Some a \<longrightarrow> submitted_by i \<noteq> Some (active_reviewer a) \<and> review_for i (active_key a) = None) \<and>
     (\<forall>r \<in> set (reviews i). submitted_by i \<noteq> Some (reviewer r)) \<and>
     (reviews i \<noteq> [] \<or> active i \<noteq> None \<longrightarrow> submission i \<noteq> None)"

definition finding_sound :: "item \<Rightarrow> bool" where
  "finding_sound i \<longleftrightarrow> (findings i \<noteq> [] \<longrightarrow> reviews i \<noteq> []) \<and>
     (has_pending_findings i \<longrightarrow> item_status i = PENDING_RECONCILIATION \<or> item_status i = SUPERSEDED)"

definition sound_item :: "item \<Rightarrow> bool" where
  "sound_item i \<longleftrightarrow> done_sound i \<and> phase_sound i \<and> party_sound i \<and> finding_sound i"

lemmas sound_parts = sound_item_def done_sound_def phase_sound_def party_sound_def finding_sound_def

lemma fresh_item_sound: "fresh_item i \<Longrightarrow> sound_item i"
  by (simp add: fresh_item_def sound_parts has_pending_findings_def)

lemma derive_DONE:
  "derive_post_review_status i = DONE \<Longrightarrow>
     \<not> has_pending_findings i \<and> \<not> non_accepted_review i \<and> remaining_work i = [] \<and> \<not> unresolved_review i"
  by (simp add: derive_post_review_status_def split: if_splits)

lemma derive_range:
  "derive_post_review_status i \<in> {PENDING_RECONCILIATION, REOPENED, PENDING_REVIEW, DONE}"
  "has_pending_findings i \<Longrightarrow> derive_post_review_status i = PENDING_RECONCILIATION"
  by (simp_all add: derive_post_review_status_def)

lemma assert_claim_Inr [simp]:
  "assert_claim i iid owner g act = Inr u \<longleftrightarrow> item_status i = CLAIMED \<and> item_owner i = Some owner \<and> claim_generation i = g"
  by (auto simp: assert_claim_def)

text \<open>What an edit that keeps submission, reviews, findings and status fields apart may rely on.\<close>

lemmas item_facts = has_pending_findings_def non_accepted_review_def unresolved_review_def review_for_def

lemma remove_resolved_work_keeps:
  assumes "remove_resolved_work i v = Inr j"
  shows "\<exists>w. j = i\<lparr>remaining_work := w\<rparr> \<and> (text_list_ok (remaining_work i) \<longrightarrow> text_list_ok w)"
proof -
  from assms obtain x where "j = i\<lparr>remaining_work := filter (\<lambda>w. w \<notin> set x) (remaining_work i)\<rparr>"
    unfolding remove_resolved_work_def rbind_Inr_iff by blast
  then show ?thesis by (auto simp: text_list_ok_def)
qed

lemma add_requests_keeps:
  "add_requests rs i = Inr j \<Longrightarrow> \<exists>qs. j = i\<lparr>requirements := qs\<rparr> \<and>
     ((\<forall>q \<in> set (requirements i). wf_requirement q) \<longrightarrow> (\<forall>q \<in> set qs. wf_requirement q)) \<and>
     (distinct (map req_key (requirements i)) \<longrightarrow> distinct (map req_key qs))"
proof (induction rs arbitrary: i)
  case Nil
  then show ?case by (intro exI [of _ "requirements i"]) simp
next
  case (Cons raw rest)
  define k where "k q = (if requirement_for i (req_key q) = None then i\<lparr>requirements := requirements i @ [q]\<rparr> else i)" for q
  from Cons.prems obtain q where q: "normalize_requirement (length (requirements i)) raw = Inr q" "add_requests rest (k q) = Inr j"
    by (auto simp: k_def)
  have wf: "wf_requirement q" by (rule normalize_requirement_wf [OF q(1)])
  have "\<exists>qs. k q = i\<lparr>requirements := qs\<rparr> \<and> set qs \<subseteq> insert q (set (requirements i)) \<and>
     (distinct (map req_key (requirements i)) \<longrightarrow> distinct (map req_key qs))"
  proof (cases "requirement_for i (req_key q)")
    case None
    then show ?thesis by (intro exI [of _ "requirements i @ [q]"]) (auto simp: k_def requirement_for_def find_None_iff)
  next
    case (Some r)
    then show ?thesis by (intro exI [of _ "requirements i"]) (auto simp: k_def)
  qed
  then obtain qs where "k q = i\<lparr>requirements := qs\<rparr>" "set qs \<subseteq> insert q (set (requirements i))"
     "distinct (map req_key (requirements i)) \<longrightarrow> distinct (map req_key qs)" by blast
  with Cons.IH [OF q(2)] wf show ?case by auto
qed

lemma review_subject_of_wf:
  "review_subject_of P i key g = Inr s \<Longrightarrow> nonblank (subject_type s) \<and> nonblank (subject_digest s)"
  by (auto simp: review_subject_of_def normalize_review_subject_def)

lemma start_review_result:
  assumes "start_review P iid key who i = Inr i'"
  shows "\<exists>s. i' = i\<lparr>review_generation := review_generation i + 1, item_status := REVIEWING,
      active := Some \<lparr>active_key = key, active_reviewer = who, active_generation = review_generation i + 1, active_subject = s\<rparr>\<rparr> \<and>
    nonblank (subject_type s) \<and> nonblank (subject_digest s) \<and> review_for i key = None \<and> submitted_by i \<noteq> Some who \<and>
    submission i \<noteq> None \<and> requirement_for i key \<noteq> None"
  using assms by (auto simp: start_review_def Let_def review_subject_of_def normalize_review_subject_def)

subsection \<open>What each edit does\<close>

lemma checkpoint_result:
  assumes "checkpoint_edit iid owner g value w artifacts evidence remaining blocked board i = Inr i'"
  shows "item_status i = CLAIMED \<and> claim_generation i = g \<and>
    (\<exists>left. i' = i\<lparr>artifact_refs := add_unique (artifact_refs i) artifacts, evidence_refs := add_unique (evidence_refs i) evidence,
        remaining_work := add_unique left remaining, checkpoint := Some value, checkpointed_by := Some owner, item_owner := None,
        blockers := blocked, item_status := report_status w\<rparr> \<and> (text_list_ok (remaining_work i) \<longrightarrow> text_list_ok left))"
proof -
  from assms obtain j where "item_status i = CLAIMED" "claim_generation i = g"
    and j: "remove_resolved_work i (report_resolved w) = Inr j"
    and i': "i' = j\<lparr>artifact_refs := add_unique (artifact_refs j) artifacts, evidence_refs := add_unique (evidence_refs j) evidence,
        remaining_work := add_unique (remaining_work j) remaining, checkpoint := Some value, checkpointed_by := Some owner,
        item_owner := None, blockers := blocked, item_status := report_status w\<rparr>"
    unfolding checkpoint_edit_def rbind_Inr_iff by auto
  with remove_resolved_work_keeps [OF j] show ?thesis by auto
qed

lemma submit_result:
  assumes "submit_edit iid owner g value requests resolved board i = Inr i'"
  shows "item_status i = CLAIMED \<and> claim_generation i = g \<and>
    (\<exists>left qs. i' = i\<lparr>remaining_work := left, requirements := qs, checkpoint := None, checkpointed_by := None,
        submission := Some value, submitted_by := Some owner, item_owner := None, active := None, reviews := [], findings := [],
        item_status := PENDING_REVIEW\<rparr> \<and> (text_list_ok (remaining_work i) \<longrightarrow> text_list_ok left) \<and>
      ((\<forall>q \<in> set (requirements i). wf_requirement q) \<longrightarrow> (\<forall>q \<in> set qs. wf_requirement q)) \<and>
      (distinct (map req_key (requirements i)) \<longrightarrow> distinct (map req_key qs)))"
proof -
  from assms obtain j k where c: "item_status i = CLAIMED" "claim_generation i = g"
    and j: "remove_resolved_work i (Some (JArr resolved)) = Inr j" and k: "add_requests requests j = Inr k"
    and i': "i' = k\<lparr>checkpoint := None, checkpointed_by := None, submission := Some value, submitted_by := Some owner,
        item_owner := None, active := None, reviews := [], findings := [], item_status := PENDING_REVIEW\<rparr>"
    unfolding submit_edit_def rbind_Inr_iff by auto
  obtain left where left: "j = i\<lparr>remaining_work := left\<rparr>" "text_list_ok (remaining_work i) \<longrightarrow> text_list_ok left"
    using remove_resolved_work_keeps [OF j] by blast
  obtain qs where "k = j\<lparr>requirements := qs\<rparr>"
    "(\<forall>q \<in> set (requirements j). wf_requirement q) \<longrightarrow> (\<forall>q \<in> set qs. wf_requirement q)"
    "distinct (map req_key (requirements j)) \<longrightarrow> distinct (map req_key qs)"
    using add_requests_keeps [OF k] by blast
  with left i' c show ?thesis by (intro conjI exI [of _ left] exI [of _ qs]) simp_all
qed

definition assessed :: "string \<Rightarrow> assessment \<Rightarrow> finding list \<Rightarrow> review \<Rightarrow> item \<Rightarrow> item" where
  "assessed key x found r i =
     i\<lparr>findings := findings i @ found, reviews := reviews i @ [r], active := None,
       evidence_refs := add_unique (evidence_refs i) [decision_ref r, attestation_of r],
       remaining_work := add_unique (remaining_work i) (blocking_reasons x)\<rparr>"

lemma assess_result:
  assumes "record_assessment_edit iid key a x board i = Inr i'"
  shows "item_status i = REVIEWING \<and> same_active_review (active i) a \<and> requirement_for i key \<noteq> None \<and>
    (\<exists>found r. i' = (assessed key x found r i)\<lparr>item_status := derive_post_review_status (assessed key x found r i)\<rparr> \<and>
       wf_review r \<and> review_key r = key \<and> reviewer r = assessed_by x \<and>
       assessed_verdict x = Some (JStr (verdict_text (review_verdict r))) \<and> (\<forall>f \<in> set found. wf_finding f))"
proof -
  let ?doc = "\<lambda>found. obj
        [(''key'', Some (JStr key)), (''reviewer'', Some (JStr (assessed_by x))), (''verdict'', assessed_verdict x),
         (''decisionRef'', assessed_decision x), (''attestationRef'', assessed_attestation x),
         (''findingRefs'', Some (texts (map finding_id found)))]"
  from assms obtain found r where i: "item_status i = REVIEWING" "same_active_review (active i) a" "requirement_for i key \<noteq> None"
    and found: "assessed_finding_list key x (length (findings i)) = Inr found"
    and r: "normalize_review (length (reviews i)) (?doc found) = Inr r"
    and i': "i' = (assessed key x found r i)\<lparr>item_status := derive_post_review_status (assessed key x found r i)\<rparr>"
    unfolding record_assessment_edit_def rbind_Inr_iff Let_def assessed_def by auto
  have "\<forall>f \<in> set found. wf_finding f"
    using found unfolding assessed_finding_list_def by (auto dest!: map_indexed_set intro: normalize_finding_wf)
  moreover have doc: "opt_member (Some (?doc found)) ''key'' = Some (JStr key)"
    "opt_member (Some (?doc found)) ''reviewer'' = Some (JStr (assessed_by x))"
    "opt_member (Some (?doc found)) ''verdict'' = assessed_verdict x"
    by (subst obj_member; simp)+
  moreover have "read_enum verdicts v msg = Inr e \<Longrightarrow> v = Some (JStr (verdict_text e))" for v msg e
    by (auto simp: read_enum_def verdicts_def split: option.splits json.splits if_splits)
  then have "review_key r = key" "reviewer r = assessed_by x" "assessed_verdict x = Some (JStr (verdict_text (review_verdict r)))"
    using r unfolding normalize_review_def Let_def rbind_Inr_iff doc by auto
  ultimately show ?thesis using i i' normalize_review_wf [OF r] by blast
qed

lemma blocking_reason_nonblank: "blocking_reason n v = Inr w \<Longrightarrow> nonblank w"
  by (auto simp: blocking_reason_def Let_def split: json.splits)

lemma evaluated_bundle:
  assumes "evaluate_review_bundle P T now i q a b = Inr x"
  obtains declared policy trust where "check_review_bundle P i a b = Inr (assessed_findings x, blocking_reasons x)"
    "trust_policy_for T i q (active_reviewer a) (active_subject a) = Inr declared" "review_policy declared = Inr policy"
    "evaluate_trust_boundary P (bundle_attestation b) (bundle_decision b) (bundle_evidence b)
       (Some (review_subject_json (active_subject a))) policy (Some (trust_signature T i q (active_reviewer a)))
       (Some (trust_evaluator T i q (active_reviewer a))) (Some (trust_evidence T i q (active_reviewer a))) now = Inr trust"
    "boundary_trusted trust" "assessed_by x = active_reviewer a" "assessed_verdict x = opt_member (bundle_decision b) ''verdict''"
    "assessed_decision x = opt_member (bundle_decision b) ''id''"
  using assms by (auto simp: evaluate_review_bundle_def Let_def)

lemma checked_bundle:
  assumes "check_review_bundle P i a b = Inr (found, blocking)"
  shows "\<forall>w \<in> set blocking. nonblank w"
    "opt_member (bundle_decision b) ''verdict'' = Some (JStr ''ACCEPTED'') \<longleftrightarrow> blocking = []"
proof -
  from assms obtain u where bl: "blocking_reasons_from_decision (bundle_decision b) = Inr blocking"
    and v: "(if opt_member (bundle_decision b) ''verdict'' = Some (JStr ''ACCEPTED'')
             then type_invariant (blocking = []) ''accepted review decision cannot contain unresolved claims''
             else type_invariant (blocking \<noteq> []) ''non-accepted review decision requires at least one unresolved blocking reason'') = Inr u"
    unfolding check_review_bundle_def Let_def rbind_Inr_iff by blast
  from bl show "\<forall>w \<in> set blocking. nonblank w"
    by (auto simp: blocking_reasons_from_decision_def split: json.splits dest!: map_indexed_set intro: blocking_reason_nonblank)
  from v show "opt_member (bundle_decision b) ''verdict'' = Some (JStr ''ACCEPTED'') \<longleftrightarrow> blocking = []"
    by (simp split: if_splits)
qed

subsection \<open>Items stay well formed\<close>

lemma text_list_ok_add: "text_list_ok xs \<Longrightarrow> \<forall>x \<in> set ys. nonblank x \<Longrightarrow> text_list_ok (add_unique xs ys)"
  by (auto simp: text_list_ok_def)

lemma text_list_okD: "text_list_ok xs \<Longrightarrow> \<forall>x \<in> set xs. nonblank x"
  by (simp add: text_list_ok_def)

lemma text_list_ok_simps [simp]: "text_list_ok []" "text_list_ok [x] \<longleftrightarrow> nonblank x"
  by (simp_all add: text_list_ok_def)

lemma start_review_wf:
  assumes "start_review P iid key who i = Inr i'" "wf_item i" "nonblank key" "nonblank who"
  shows "wf_item i'"
  using start_review_result [OF assms(1)] assms(2-4) by (auto simp: wf_item_def loose_item_def wf_active_def)

lemma start_reviewD:
  "begin_review_edit P iid key who board i = Inr i' \<Longrightarrow> start_review P iid key who i = Inr i' \<and> item_status i = PENDING_REVIEW"
  "recover_review_edit P iid key who board i = Inr i' \<Longrightarrow> start_review P iid key who i = Inr i' \<and> item_status i = REVIEWING"
  by (auto simp: begin_review_edit_def recover_review_edit_def)

lemma assess_loose:
  assumes "record_assessment_edit iid key a x board i = Inr i'" "evaluate_review_bundle P T now i0 q a b = Inr x" "wf_item i"
  shows "loose_item i'"
proof -
  obtain found r where "i' = (assessed key x found r i)\<lparr>item_status := derive_post_review_status (assessed key x found r i)\<rparr>"
    "wf_review r" "\<forall>f \<in> set found. wf_finding f"
    using assess_result [OF assms(1)] by blast
  moreover have "\<forall>w \<in> set (blocking_reasons x). nonblank w"
    by (rule evaluated_bundle [OF assms(2)]) (rule checked_bundle(1))
  ultimately show ?thesis
    using assms(3) by (auto simp: assessed_def wf_item_def loose_item_def wf_review_def intro!: text_list_ok_add)
qed

lemma item_step_loose: "item_step P T board i i' \<Longrightarrow> wf_item i \<Longrightarrow> loose_item i'"
proof (induction rule: item_step.induct)
  case (Step_Checkpoint iid owner generation "value" w artifacts evidence remaining blocked i i')
  from checkpoint_result [OF this(1)] this(2-) show ?case
    by (auto simp: wf_item_def loose_item_def is_plain_def dest: text_list_okD intro!: text_list_ok_add)
next
  case (Step_Submit iid owner generation "value" requests resolved i i')
  from submit_result [OF this(1)] this(2-) show ?case
    by (auto simp: wf_item_def loose_item_def is_plain_def)
next
  case (Step_Begin iid key who i i')
  then show ?case using start_review_wf start_reviewD by (metis wf_item_def)
next
  case (Step_Recover_Review iid key who i i')
  then show ?case using start_review_wf start_reviewD by (metis wf_item_def)
next
  case (Step_Assess iid key a x i i' now i0 q b)
  then show ?case using assess_loose by blast
next
  case (Step_Claim iid owner i i')
  then show ?case by (auto simp: claim_edit_def wf_item_def loose_item_def)
next
  case (Step_Recover_Claim iid owner i i')
  then show ?case by (auto simp: recover_claim_edit_def wf_item_def loose_item_def)
next
  case (Step_Resume iid i i')
  then show ?case by (auto simp: resume_edit_def wf_item_def loose_item_def)
next
  case (Step_Supersede iid why i i')
  then show ?case by (auto simp: supersede_edit_def wf_item_def loose_item_def)
next
  case (Step_Block iid owner generation blocked i i')
  then show ?case by (auto simp: block_edit_def wf_item_def loose_item_def)
next
  case (Step_Require iid q i i')
  then show ?case by (auto simp: require_review_edit_def wf_item_def loose_item_def)
qed

text \<open>Only an assessment can make a step that saving refuses: its finding ids may be taken.\<close>

lemma item_step_wf:
  assumes "item_step P T board i i'" "wf_item i" "sound_item i" "distinct (map finding_id (findings i'))"
  shows "wf_item i'"
  using assms
proof (induction rule: item_step.induct)
  case (Step_Checkpoint iid owner generation "value" w artifacts evidence remaining blocked i i')
  from checkpoint_result [OF this(1)] this(2-)
    item_step_loose [OF item_step.Step_Checkpoint [OF Step_Checkpoint.hyps] Step_Checkpoint.prems(1)] show ?case
    by (auto simp: wf_item_def)
next
  case (Step_Submit iid owner generation "value" requests resolved i i')
  from submit_result [OF this(1)] this(2-)
    item_step_loose [OF item_step.Step_Submit [OF Step_Submit.hyps] Step_Submit.prems(1)] show ?case
    by (auto simp: wf_item_def)
next
  case (Step_Begin iid key who i i')
  then show ?case using start_review_wf start_reviewD by metis
next
  case (Step_Recover_Review iid key who i i')
  then show ?case using start_review_wf start_reviewD by metis
next
  case (Step_Assess iid key a x i i' now i0 q b)
  obtain found r where i': "i' = (assessed key x found r i)\<lparr>item_status := derive_post_review_status (assessed key x found r i)\<rparr>"
    and r: "review_key r = key" and same: "same_active_review (active i) a"
    using assess_result [OF Step_Assess.hyps(1)] by blast
  from same Step_Assess.hyps(2) have "\<exists>c. active i = Some c \<and> active_key c = key"
    by (auto simp: same_active_review_def split: option.splits)
  with Step_Assess.prems(2) have "review_for i key = None" by (auto simp: sound_item_def party_sound_def)
  with i' r Step_Assess.prems assess_loose [OF Step_Assess.hyps(1,3)] show ?case
    by (auto simp: wf_item_def assessed_def review_for_def find_None_iff)
next
  case (Step_Claim iid owner i i')
  then show ?case by (auto simp: claim_edit_def wf_item_def loose_item_def)
next
  case (Step_Recover_Claim iid owner i i')
  then show ?case by (auto simp: recover_claim_edit_def wf_item_def loose_item_def)
next
  case (Step_Resume iid i i')
  then show ?case by (auto simp: resume_edit_def wf_item_def loose_item_def)
next
  case (Step_Supersede iid why i i')
  then show ?case by (auto simp: supersede_edit_def wf_item_def loose_item_def)
next
  case (Step_Block iid owner generation blocked i i')
  then show ?case by (auto simp: block_edit_def wf_item_def loose_item_def)
next
  case (Step_Require iid q i i')
  from Step_Require.hyps(1) have new: "req_key q \<notin> req_key ` set (requirements i)"
    by (auto simp: require_review_edit_def requirement_for_def find_None_iff)
  from Step_Require.hyps(1) have i': "\<exists>st. i' = i\<lparr>requirements := requirements i @ [q], item_status := st\<rparr>"
    unfolding require_review_edit_def rbind_Inr_iff by blast
  from i' new Step_Require.hyps(2) Step_Require.prems(1) show ?case
    by (auto simp: wf_item_def loose_item_def)
qed

subsection \<open>Items stay sound\<close>

lemma item_step_id: "item_step P T board i i' \<Longrightarrow> item_id i' = item_id i"
proof (induction rule: item_step.induct)
  case (Step_Checkpoint iid owner generation "value" w artifacts evidence remaining blocked i i')
  from checkpoint_result [OF this(1)] show ?case by auto
next
  case (Step_Submit iid owner generation "value" requests resolved i i')
  from submit_result [OF this(1)] show ?case by auto
next
  case (Step_Begin iid key who i i')
  from start_review_result [OF conjunct1 [OF start_reviewD(1) [OF this(1)]]] show ?case by auto
next
  case (Step_Recover_Review iid key who i i')
  from start_review_result [OF conjunct1 [OF start_reviewD(2) [OF this(1)]]] show ?case by auto
next
  case (Step_Assess iid key a x i i' now i0 q b)
  from assess_result [OF this(1)] show ?case by (auto simp: assessed_def)
qed (auto simp: claim_edit_def recover_claim_edit_def resume_edit_def supersede_edit_def block_edit_def require_review_edit_def)

text \<open>Pending findings, reviews and requirements are read off the item's lists only.\<close>

lemma lists_only [simp]:
  "has_pending_findings (i\<lparr>item_status := a\<rparr>) = has_pending_findings i"
  "non_accepted_review (i\<lparr>item_status := a\<rparr>) = non_accepted_review i"
  "unresolved_review (i\<lparr>item_status := a\<rparr>) = unresolved_review i"
  by (simp_all add: item_facts)

lemma start_review_sound:
  assumes "start_review P iid key who i = Inr i'" "sound_item i" "item_status i \<in> {PENDING_REVIEW, REVIEWING}"
  shows "sound_item i'"
proof -
  obtain s where i': "i' = i\<lparr>review_generation := review_generation i + 1, item_status := REVIEWING,
      active := Some \<lparr>active_key = key, active_reviewer = who, active_generation = review_generation i + 1, active_subject = s\<rparr>\<rparr>"
    and more: "review_for i key = None" "submitted_by i \<noteq> Some who" "submission i \<noteq> None"
    using start_review_result [OF assms(1)] by blast
  have owner: "item_owner i = None" using assms(2,3) by (auto simp: sound_item_def phase_sound_def)
  have pending: "\<not> has_pending_findings i" using assms(2,3) by (auto simp: sound_item_def finding_sound_def)
  have "review_for i' key = None" "\<not> has_pending_findings i'"
    using more pending by (simp_all add: i' review_for_def has_pending_findings_def)
  moreover have "party_sound i" "finding_sound i" using assms(2) by (simp_all add: sound_item_def)
  ultimately show ?thesis
    using owner more by (auto simp: i' sound_parts)
qed

lemma assess_sound:
  assumes "record_assessment_edit iid key a x board i = Inr i'" "assessed_by x = active_reviewer a" "active_key a = key"
    "sound_item i"
  shows "sound_item i'"
proof -
  obtain found r where i': "i' = (assessed key x found r i)\<lparr>item_status := derive_post_review_status (assessed key x found r i)\<rparr>"
    and r: "reviewer r = active_reviewer a" and st: "item_status i = REVIEWING" and same: "same_active_review (active i) a"
    using assess_result [OF assms(1)] assms(2) by auto
  let ?j = "assessed key x found r i"
  from same obtain c where c: "active i = Some c" "active_reviewer c = active_reviewer a"
    by (auto simp: same_active_review_def split: option.splits)
  have i: "item_owner i = None" "submission i \<noteq> None" "submitted_by i \<noteq> Some (reviewer r)"
    "\<forall>r \<in> set (reviews i). submitted_by i \<noteq> Some (reviewer r)" "submission i = None \<longleftrightarrow> submitted_by i = None"
    using assms(4) st c r by (auto simp: sound_item_def phase_sound_def party_sound_def)
  have j: "reviews ?j \<noteq> []" "active ?j = None" "item_owner ?j = None" "submission ?j = submission i" "submitted_by ?j = submitted_by i"
    "set (reviews ?j) = insert r (set (reviews i))"
    using i by (simp_all add: assessed_def)
  show ?thesis
    unfolding sound_item_def
  proof (intro conjI)
    show "done_sound i'" using derive_DONE [of ?j] j by (simp add: done_sound_def i')
    show "phase_sound i'" using derive_range(1) [of ?j] j by (auto simp: phase_sound_def i')
    show "party_sound i'" using i j by (auto simp: party_sound_def i')
    show "finding_sound i'" using derive_range(2) [of ?j] j by (simp add: finding_sound_def i')
  qed
qed

text \<open>An edit that touches neither the submission nor the reviews, and ends no review.\<close>

lemma sound_frame:
  assumes "sound_item i" "submission i' = submission i" "submitted_by i' = submitted_by i" "reviews i' = reviews i"
    "findings i' = findings i" "active i' = active i \<or> active i' = None" "item_status i' \<noteq> DONE"
    "item_status i' = REVIEWING \<longleftrightarrow> active i' \<noteq> None" "item_status i' = CLAIMED \<longleftrightarrow> item_owner i' \<noteq> None"
    "has_pending_findings i \<Longrightarrow> item_status i' = PENDING_RECONCILIATION \<or> item_status i' = SUPERSEDED"
  shows "sound_item i'"
proof -
  have "has_pending_findings i' = has_pending_findings i" "\<And>k. review_for i' k = review_for i k"
    using assms(4,5) by (simp_all add: has_pending_findings_def review_for_def)
  note same = this assms(2-5)
  have parts: "party_sound i" "finding_sound i" using assms(1) by (simp_all add: sound_item_def)
  show ?thesis
    unfolding sound_item_def
  proof (intro conjI)
    show "done_sound i'" using assms(7) by (simp add: done_sound_def)
    show "phase_sound i'" using assms(8,9) by (simp add: phase_sound_def)
    show "party_sound i'" using parts(1) assms(6) by (cases "active i' = None") (auto simp: party_sound_def same)
    show "finding_sound i'" using parts(2) assms(10) by (simp add: finding_sound_def same)
  qed
qed

lemma sound_status:
  assumes "sound_item i"
  shows "item_status i = CLAIMED \<or> item_status i = READY \<or> item_status i = REOPENED \<or> item_status i = BLOCKED \<Longrightarrow>
      active i = None \<and> \<not> has_pending_findings i"
    "item_status i \<noteq> REVIEWING \<Longrightarrow> active i = None" "item_status i \<noteq> CLAIMED \<Longrightarrow> item_owner i = None"
    "item_status i = REVIEWING \<Longrightarrow> active i \<noteq> None" "item_status i = CLAIMED \<Longrightarrow> item_owner i \<noteq> None"
    "has_pending_findings i \<Longrightarrow> item_status i = PENDING_RECONCILIATION \<or> item_status i = SUPERSEDED"
  using assms by (auto simp: sound_item_def phase_sound_def finding_sound_def)

lemma item_step_sound: "item_step P T board i i' \<Longrightarrow> sound_item i \<Longrightarrow> sound_item i'"
proof (induction rule: item_step.induct)
  case (Step_Checkpoint iid owner generation "value" w artifacts evidence remaining blocked i i')
  obtain left where i: "item_status i = CLAIMED" and i': "i' = i\<lparr>artifact_refs := add_unique (artifact_refs i) artifacts,
        evidence_refs := add_unique (evidence_refs i) evidence, remaining_work := add_unique left remaining,
        checkpoint := Some value, checkpointed_by := Some owner, item_owner := None, blockers := blocked, item_status := report_status w\<rparr>"
    using checkpoint_result [OF Step_Checkpoint.hyps(1)] by blast
  have "active i = None" "\<not> has_pending_findings i"
    using sound_status(1) [OF Step_Checkpoint.prems] i by blast+
  with Step_Checkpoint.hyps(4) show ?case
    unfolding i' by (intro sound_frame [OF Step_Checkpoint.prems]) auto
next
  case (Step_Submit iid owner generation "value" requests resolved i i')
  obtain left qs where i': "i' = i\<lparr>remaining_work := left, requirements := qs, checkpoint := None, checkpointed_by := None,
        submission := Some value, submitted_by := Some owner, item_owner := None, active := None, reviews := [], findings := [],
        item_status := PENDING_REVIEW\<rparr>"
    using submit_result [OF Step_Submit.hyps(1)] by blast
  show ?case by (simp add: i' sound_parts has_pending_findings_def)
next
  case (Step_Begin iid key who i i')
  then show ?case using start_review_sound start_reviewD by (metis insertCI)
next
  case (Step_Recover_Review iid key who i i')
  then show ?case using start_review_sound start_reviewD by (metis insertCI)
next
  case (Step_Assess iid key a x i i' now i0 q b)
  have "assessed_by x = active_reviewer a" by (rule evaluated_bundle [OF Step_Assess.hyps(3)])
  then show ?case by (rule assess_sound [OF Step_Assess.hyps(1) _ Step_Assess.hyps(2) Step_Assess.prems])
next
  case (Step_Claim iid owner i i')
  then show ?case using sound_status [OF Step_Claim.prems]
    by (intro sound_frame [OF Step_Claim.prems]) (auto simp: claim_edit_def can_claim_def)
next
  case (Step_Recover_Claim iid owner i i')
  then show ?case using sound_status [OF Step_Recover_Claim.prems]
    by (intro sound_frame [OF Step_Recover_Claim.prems]) (auto simp: recover_claim_edit_def)
next
  case (Step_Resume iid i i')
  then show ?case using sound_status [OF Step_Resume.prems]
    by (intro sound_frame [OF Step_Resume.prems]) (auto simp: resume_edit_def)
next
  case (Step_Supersede iid why i i')
  from Step_Supersede.hyps(1) have "i' = i\<lparr>claim_generation := claim_generation i + (if item_status i = CLAIMED then 1 else 0),
      item_owner := None, active := None, blockers := [why], item_status := SUPERSEDED\<rparr>"
    unfolding supersede_edit_def rbind_Inr_iff by blast
  then show ?case by (intro sound_frame [OF Step_Supersede.prems]) simp_all
next
  case (Step_Block iid owner generation blocked i i')
  then show ?case using sound_status [OF Step_Block.prems]
    by (intro sound_frame [OF Step_Block.prems]) (auto simp: block_edit_def)
next
  case (Step_Require iid q i i')
  let ?st = "if submission i \<noteq> None \<and> item_status i \<notin> {CLAIMED, REVIEWING, PENDING_RECONCILIATION}
      then PENDING_REVIEW else item_status i"
  from Step_Require have i': "i' = i\<lparr>requirements := requirements i @ [q], item_status := ?st\<rparr>"
    and st: "item_status i \<noteq> DONE" "item_status i \<noteq> SUPERSEDED"
    unfolding require_review_edit_def rbind_Inr_iff type_invariant_ok by blast+
  have facts: "item_status i = REVIEWING \<longleftrightarrow> active i \<noteq> None" "item_status i = CLAIMED \<longleftrightarrow> item_owner i \<noteq> None"
    "has_pending_findings i \<longrightarrow> item_status i = PENDING_RECONCILIATION \<or> item_status i = SUPERSEDED"
    using Step_Require.prems by (simp_all add: sound_item_def phase_sound_def finding_sound_def)
  show ?case
  proof (cases "?st = item_status i")
    case True
    with facts st show ?thesis
      unfolding i' True by (intro sound_frame [OF Step_Require.prems]) simp_all
  next
    case False
    then have new: "?st = PENDING_REVIEW" "item_status i \<notin> {CLAIMED, REVIEWING, PENDING_RECONCILIATION}" by (auto split: if_splits)
    with facts st show ?thesis
      unfolding i' new(1) by (intro sound_frame [OF Step_Require.prems]) simp_all
  qed
qed

subsection \<open>Boards\<close>

lemma find_item_Inr: "find_item board iid = Inr i \<Longrightarrow> i \<in> set board \<and> item_id i = iid"
  by (auto simp: find_item_def find_Some_iff split: option.splits)

lemma find_item_unique:
  assumes "distinct (map item_id board)" "i \<in> set board"
  shows "find_item board (item_id i) = Inr i"
proof (cases "find (\<lambda>j. item_id j = item_id i) board")
  case None
  with assms(2) show ?thesis by (auto simp: find_None_iff)
next
  case (Some j)
  then have "j \<in> set board" "item_id j = item_id i" by (auto simp: find_Some_iff)
  with assms have "j = i" by (auto simp: distinct_map inj_on_def)
  with Some show ?thesis by (simp add: find_item_def)
qed

lemma put_item_ids [simp]: "item_id i' = item_id i \<Longrightarrow> map item_id (put_item i' board) = map item_id board"
  by (simp add: put_item_def)

lemma put_item_same_ids: "map item_id (put_item i board) = map item_id board"
  by (simp add: put_item_def)

lemma set_put_item: "j \<in> set (put_item i board) \<Longrightarrow> j = i \<or> j \<in> set board \<and> item_id j \<noteq> item_id i"
  by (auto simp: put_item_def split: if_splits)

lemma put_item_member: "j \<in> set board \<Longrightarrow> (if item_id j = item_id i then i else j) \<in> set (put_item i board)"
  by (auto simp: put_item_def)

lemma finding_for_Inr: "finding_for i fid = Inr f \<Longrightarrow> f \<in> set (findings i) \<and> finding_id f = fid"
  by (auto simp: finding_for_def find_Some_iff split: option.splits)

lemma dispose_result:
  assumes "dispose board i f d existing new_item = Inr (i1, target, added)"
  shows "(\<exists>w fs. i1 = i\<lparr>remaining_work := w, follow_up_refs := fs\<rparr>) \<and>
    (\<forall>c \<in> set added. item_id c \<notin> item_id ` set board)"
proof (cases d)
  case CURRENT_WORK
  with assms have "i1 = i\<lparr>remaining_work := add_unique (remaining_work i) [finding_summary f]\<rparr>" "added = []"
    by (auto simp: dispose_def)
  then show ?thesis by (intro conjI exI [of _ "add_unique (remaining_work i) [finding_summary f]"] exI [of _ "follow_up_refs i"]) simp_all
next
  case EXISTING_WORK
  with assms obtain t where "i1 = i\<lparr>follow_up_refs := add_unique (follow_up_refs i) [t]\<rparr>" "added = []"
    by (auto simp: dispose_def)
  then show ?thesis by (intro conjI exI [of _ "remaining_work i"] exI [of _ "add_unique (follow_up_refs i) [t]"]) simp_all
next
  case NEW_WORK
  with assms obtain c where "i1 = i\<lparr>follow_up_refs := add_unique (follow_up_refs i) [item_id c]\<rparr>" "added = [c]"
    "item_id c \<notin> item_id ` set board"
    by (auto simp: dispose_def split: option.splits json.splits)
  then show ?thesis by (intro conjI exI [of _ "remaining_work i"] exI [of _ "add_unique (follow_up_refs i) [item_id c]"]) simp_all
next
  case NON_ACTIONABLE
  with assms have "i1 = i" "added = []" by (auto simp: dispose_def)
  then show ?thesis by (intro conjI exI [of _ "remaining_work i"] exI [of _ "follow_up_refs i"]) simp_all
qed

lemma reconcile_result:
  assumes "reconcile_mutator iid fid d existing new_item board = Inr (next, r)"
  obtains i f i1 target added where "find_item board iid = Inr i" "finding_for i fid = Inr f" "finding_disposition f = None"
    "dispose board i f d existing new_item = Inr (i1, target, added)"
    "next = put_item ((set_finding (f\<lparr>finding_disposition := Some d, target_item := target\<rparr>) i1)
       \<lparr>item_status := derive_post_review_status (set_finding (f\<lparr>finding_disposition := Some d, target_item := target\<rparr>) i1)\<rparr>) board @ added"
  using assms unfolding reconcile_mutator_def rbind_Inr_iff Let_def by (auto intro: that)

lemma reconciled_sound:
  assumes "sound_item i" "f \<in> set (findings i)" "finding_disposition f = None"
    "i2 = set_finding g (i\<lparr>remaining_work := w, follow_up_refs := fs\<rparr>)"
  shows "sound_item (i2\<lparr>item_status := derive_post_review_status i2\<rparr>)"
proof -
  have "has_pending_findings i" using assms(2,3) by (auto simp: has_pending_findings_def)
  with assms(1) have st: "item_status i = PENDING_RECONCILIATION \<or> item_status i = SUPERSEDED" "reviews i \<noteq> []"
    using assms(2) by (auto simp: sound_item_def finding_sound_def)
  then have "active i = None" "item_owner i = None" using assms(1) by (auto simp: sound_item_def phase_sound_def)
  moreover have "party_sound i" using assms(1) by (simp add: sound_item_def)
  ultimately have i2: "active i2 = None" "item_owner i2 = None" "reviews i2 = reviews i" "submission i2 = submission i"
    "submitted_by i2 = submitted_by i" "party_sound i"
    by (simp_all add: assms(4) set_finding_def)
  show ?thesis
    unfolding sound_item_def
  proof (intro conjI)
    show "done_sound (i2\<lparr>item_status := derive_post_review_status i2\<rparr>)"
      using derive_DONE [of i2] i2 st by (simp add: done_sound_def)
    show "phase_sound (i2\<lparr>item_status := derive_post_review_status i2\<rparr>)"
      using derive_range(1) [of i2] i2 by (auto simp: phase_sound_def)
    show "party_sound (i2\<lparr>item_status := derive_post_review_status i2\<rparr>)"
      using i2 by (auto simp: party_sound_def)
    show "finding_sound (i2\<lparr>item_status := derive_post_review_status i2\<rparr>)"
      using derive_range(2) [of i2] i2 st by (auto simp: finding_sound_def)
  qed
qed

definition sound_board :: "item list \<Rightarrow> bool" where
  "sound_board board \<longleftrightarrow> (\<forall>i \<in> set board. sound_item i)"

lemma sound_board_edit:
  "sound_board board \<Longrightarrow> sound_item i' \<Longrightarrow> sound_board (put_item i' board)"
  by (auto simp: sound_board_def dest!: set_put_item)

lemma board_step_sound: "board_step P T board board' \<Longrightarrow> sound_board board \<Longrightarrow> sound_board board'"
proof (induction rule: board_step.induct)
  case (Board_Edit board iid i i')
  then have "sound_item i" by (auto simp: sound_board_def dest!: find_item_Inr)
  with Board_Edit show ?case using item_step_sound sound_board_edit by blast
next
  case (Board_Seed raw items r)
  then show ?case by (auto simp: sound_board_def intro: fresh_item_sound)
next
  case (Board_Reconcile iid fid d existing new_item board "next" r)
  obtain i f i1 target added where i: "find_item board iid = Inr i" "finding_for i fid = Inr f" "finding_disposition f = None"
    and di: "dispose board i f d existing new_item = Inr (i1, target, added)"
    and n: "next = put_item ((set_finding (f\<lparr>finding_disposition := Some d, target_item := target\<rparr>) i1)
       \<lparr>item_status := derive_post_review_status (set_finding (f\<lparr>finding_disposition := Some d, target_item := target\<rparr>) i1)\<rparr>) board @ added"
    by (rule reconcile_result [OF Board_Reconcile.hyps(1)])
  let ?i2 = "set_finding (f\<lparr>finding_disposition := Some d, target_item := target\<rparr>) i1"
  let ?i3 = "?i2\<lparr>item_status := derive_post_review_status ?i2\<rparr>"
  have "sound_item i" using Board_Reconcile.prems find_item_Inr [OF i(1)] by (simp add: sound_board_def)
  moreover obtain w fs where "i1 = i\<lparr>remaining_work := w, follow_up_refs := fs\<rparr>" using dispose_result [OF di] by blast
  ultimately have "sound_item ?i3"
    using reconciled_sound [OF _ conjunct1 [OF finding_for_Inr [OF i(2)]] i(3)] by blast
  then have edited: "sound_board (put_item ?i3 board)" by (rule sound_board_edit [OF Board_Reconcile.prems])
  have "\<forall>c \<in> set added. item_id c \<in> item_id ` set board \<or> fresh_item c"
    using Board_Reconcile.hyps(2) by (simp add: n)
  with dispose_result [OF di] have "\<forall>c \<in> set added. sound_item c" by (blast intro: fresh_item_sound)
  with edited show ?case by (auto simp: n sound_board_def)
qed

subsection \<open>Claim generations only rise\<close>

lemma item_step_generation: "item_step P T board i i' \<Longrightarrow> claim_generation i \<le> claim_generation i'"
proof (induction rule: item_step.induct)
  case (Step_Checkpoint iid owner generation "value" w artifacts evidence remaining blocked i i')
  from checkpoint_result [OF this(1)] show ?case by auto
next
  case (Step_Submit iid owner generation "value" requests resolved i i')
  from submit_result [OF this(1)] show ?case by auto
next
  case (Step_Begin iid key who i i')
  from start_review_result [OF conjunct1 [OF start_reviewD(1) [OF this(1)]]] show ?case by auto
next
  case (Step_Recover_Review iid key who i i')
  from start_review_result [OF conjunct1 [OF start_reviewD(2) [OF this(1)]]] show ?case by auto
next
  case (Step_Assess iid key a x i i' now i0 q b)
  from assess_result [OF this(1)] show ?case by (auto simp: assessed_def)
qed (auto simp: claim_edit_def recover_claim_edit_def resume_edit_def supersede_edit_def block_edit_def require_review_edit_def)

definition generations_rise :: "item list \<Rightarrow> item list \<Rightarrow> bool" where
  "generations_rise b b' \<longleftrightarrow>
     (\<forall>i \<in> set b. \<exists>j \<in> set b'. item_id j = item_id i \<and> claim_generation i \<le> claim_generation j)"

lemma generations_rise_trans: "generations_rise a b \<Longrightarrow> generations_rise b c \<Longrightarrow> generations_rise a c"
  unfolding generations_rise_def by (metis order_trans)

lemma generations_rise_put:
  assumes "distinct (map item_id board)" "i \<in> set board" "item_id i' = item_id i" "claim_generation i \<le> claim_generation i'"
  shows "generations_rise board (put_item i' board @ added)"
  unfolding generations_rise_def
proof
  fix j assume j: "j \<in> set board"
  show "\<exists>k \<in> set (put_item i' board @ added). item_id k = item_id j \<and> claim_generation j \<le> claim_generation k"
  proof (cases "item_id j = item_id i'")
    case True
    with assms j have "j = i" by (auto simp: distinct_map inj_on_def)
    with put_item_member [OF j, of i'] assms show ?thesis by auto
  next
    case False
    with put_item_member [OF j, of i'] show ?thesis by auto
  qed
qed

lemma board_step_generations:
  assumes "board_step P T board board'" "wf_snapshot board"
  shows "generations_rise board board'"
  using assms
proof (induction rule: board_step.induct)
  case (Board_Edit board iid i i')
  from generations_rise_put [of board i i' "[]"] Board_Edit find_item_Inr item_step_id item_step_generation show ?case
    by (fastforce simp: wf_snapshot_def)
next
  case (Board_Seed raw items r)
  then show ?case by (simp add: generations_rise_def)
next
  case (Board_Reconcile iid fid d existing new_item board "next" r)
  obtain i f i1 target added where i: "find_item board iid = Inr i" "finding_for i fid = Inr f" "finding_disposition f = None"
    and di: "dispose board i f d existing new_item = Inr (i1, target, added)"
    and n: "next = put_item ((set_finding (f\<lparr>finding_disposition := Some d, target_item := target\<rparr>) i1)
       \<lparr>item_status := derive_post_review_status (set_finding (f\<lparr>finding_disposition := Some d, target_item := target\<rparr>) i1)\<rparr>) board @ added"
    by (rule reconcile_result [OF Board_Reconcile.hyps(1)])
  obtain w fs where "i1 = i\<lparr>remaining_work := w, follow_up_refs := fs\<rparr>" using dispose_result [OF di] by blast
  then show ?case
    unfolding n using Board_Reconcile.prems find_item_Inr [OF i(1)]
    by (intro generations_rise_put [of board i]) (simp_all add: wf_snapshot_def set_finding_def)
qed

lemma board_step_wf: "board_step P T board board' \<Longrightarrow> wf_snapshot board'"
  by (induction rule: board_step.induct) auto

end
