(* ===== verification/Blackboard_Graph.thy ===== *)
theory Blackboard_Graph
  imports Blackboard_Lifecycle
begin

section \<open>The dependency graph of a board\<close>

text \<open>
  \<open>packages/agentic-system/src/blackboard-graph.js\<close>: the depth-first search that reports self,
  dangling and cyclic dependencies, the snapshot validation and the store wrapper built on it,
  and the repair of a stored graph.  The search keeps the code's bookkeeping (the state of each
  id, the stack and the position of each id on it); \<open>dependency_issues_Nil\<close> says it reports
  nothing exactly when every dependency names an item and the graph has no cycle.
\<close>

subsection \<open>The search\<close>

datatype dependency_issue =
    Self_Dependency string string
  | Dangling_Dependency string string
  | Cyclic_Dependency string string "string list"

datatype mark = VISITING | VISITED

record search =
  marks :: "string \<Rightarrow> mark option"
  stack :: "string list"
  stack_index :: "string \<Rightarrow> nat option"
  cycles :: "dependency_issue list"

definition board_ids :: "item list \<Rightarrow> string set" where
  "board_ids board = set (map item_id board)"

definition dependencies_of :: "item list \<Rightarrow> string \<Rightarrow> string list" where
  "dependencies_of board iid = (case find (\<lambda>i. item_id i = iid) board of None \<Rightarrow> [] | Some i \<Rightarrow> depends_on i)"

definition edge_issues :: "item list \<Rightarrow> dependency_issue list" where
  "edge_issues board = concat (map (\<lambda>i. concat (map (\<lambda>d.
     if d = item_id i then [Self_Dependency (item_id i) d]
     else if d \<notin> board_ids board then [Dangling_Dependency (item_id i) d] else []) (depends_on i))) board)"

text \<open>What \<open>visit\<close> does before and after the loop over the dependencies.\<close>

definition enter :: "string \<Rightarrow> search \<Rightarrow> search" where
  "enter iid s = s\<lparr>marks := (marks s)(iid \<mapsto> VISITING), stack_index := (stack_index s)(iid \<mapsto> length (stack s)),
     stack := stack s @ [iid]\<rparr>"

definition leave :: "string \<Rightarrow> search \<Rightarrow> search" where
  "leave iid s = s\<lparr>stack := butlast (stack s), stack_index := (stack_index s)(iid := None), marks := (marks s)(iid \<mapsto> VISITED)\<rparr>"

definition report_cycle :: "string \<Rightarrow> string \<Rightarrow> search \<Rightarrow> search" where
  "report_cycle iid d s =
     s\<lparr>cycles := cycles s @ [Cyclic_Dependency iid d (drop (case stack_index s d of None \<Rightarrow> 0 | Some k \<Rightarrow> k) (stack s) @ [d])]\<rparr>"

definition unseen :: "item list \<Rightarrow> search \<Rightarrow> nat" where
  "unseen board s = length (filter (\<lambda>i. marks s (item_id i) = None) board)"

lemma unseen_mono:
  assumes "\<And>x. marks s x \<noteq> None \<Longrightarrow> marks s' x \<noteq> None"
  shows "unseen board s' \<le> unseen board s"
proof -
  have "marks s' x = None \<Longrightarrow> marks s x = None" for x using assms [of x] by blast
  then show ?thesis by (induction board) (auto simp: unseen_def le_SucI)
qed

lemma unseen_report [simp]: "unseen board (report_cycle iid d s) = unseen board s"
  by (simp add: unseen_def report_cycle_def)

lemma unseen_enter:
  assumes "d \<in> board_ids board" "marks s d = None"
  shows "unseen board (enter d s) < unseen board s"
proof -
  have le: "unseen b (enter d s) \<le> unseen b s" for b by (rule unseen_mono) (simp add: enter_def)
  from assms show ?thesis
  proof (induction board)
    case (Cons i board)
    show ?case
    proof (cases "item_id i = d")
      case True
      with Cons.prems le [of board] show ?thesis by (simp add: unseen_def enter_def)
    next
      case False
      with Cons show ?thesis by (auto simp: unseen_def enter_def board_ids_def)
    qed
  qed (simp add: board_ids_def)
qed

text \<open>
  The loop over the dependencies of \<open>iid\<close>, with the recursive call of \<open>visit\<close> in it.
\<close>

function walk :: "item list \<Rightarrow> string \<Rightarrow> string list \<Rightarrow> search \<Rightarrow> search" where
  "walk board iid [] s = s"
| "walk board iid (d # ds) s =
     (if d = iid \<or> d \<notin> board_ids board then walk board iid ds s
      else case marks s d of
        None \<Rightarrow> walk board iid ds (leave d (walk board d (dependencies_of board d) (enter d s)))
      | Some VISITING \<Rightarrow> walk board iid ds (report_cycle iid d s)
      | Some VISITED \<Rightarrow> walk board iid ds s)"
  by pat_completeness auto
termination
proof (relation "inv_image (less_than <*lex*> less_than) (\<lambda>(board, iid, ds, s). (unseen board s, length ds))", goal_cases)
  case 1
  then show ?case by auto
next
  case (4 board iid d ds s)
  have kept: "walk_dom (b, j, es, t) \<Longrightarrow> marks t x \<noteq> None \<Longrightarrow> marks (walk b j es t) x \<noteq> None" for b j es t x
  proof (induction b j es t rule: walk.pinduct)
    case (1 b j t)
    then show ?case by (simp add: walk.psimps)
  next
    case (2 b j e es t)
    then show ?case by (auto simp: walk.psimps enter_def leave_def report_cycle_def split: option.splits mark.splits)
  qed
  have "unseen board (leave d (walk board d (dependencies_of board d) (enter d s))) \<le> unseen board (enter d s)"
    by (rule unseen_mono) (use kept [OF 4(3)] in \<open>auto simp: leave_def\<close>)
  also have "\<dots> < unseen board s" by (rule unseen_enter) (use 4 in auto)
  finally show ?case by simp
qed (auto simp: unseen_enter)

definition visit :: "item list \<Rightarrow> string \<Rightarrow> search \<Rightarrow> search" where
  "visit board iid s = leave iid (walk board iid (dependencies_of board iid) (enter iid s))"

fun visit_all :: "item list \<Rightarrow> item list \<Rightarrow> search \<Rightarrow> search" where
  "visit_all board [] s = s"
| "visit_all board (i # is) s = visit_all board is (if marks s (item_id i) = None then visit board (item_id i) s else s)"

definition dependency_issues :: "item list \<Rightarrow> dependency_issue list" where
  "dependency_issues board =
     edge_issues board @
     cycles (visit_all board board \<lparr>marks = Map.empty, stack = [], stack_index = Map.empty, cycles = []\<rparr>)"

lemmas walk_cases = walk.induct [case_names Nil Cons]

subsection \<open>What the search leaves alone\<close>

lemma search_fields [simp]:
  "marks (enter d s) = (marks s)(d \<mapsto> VISITING)" "stack (enter d s) = stack s @ [d]" "cycles (enter d s) = cycles s"
  "marks (leave d s) = (marks s)(d \<mapsto> VISITED)" "stack (leave d s) = butlast (stack s)" "cycles (leave d s) = cycles s"
  "marks (report_cycle iid d s) = marks s" "stack (report_cycle iid d s) = stack s"
  "stack_index (enter d s) = (stack_index s)(d \<mapsto> length (stack s))" "stack_index (leave d s) = (stack_index s)(d := None)"
  "stack_index (report_cycle iid d s) = stack_index s"
  "cycles (report_cycle iid d s) = cycles s @ [Cyclic_Dependency iid d (drop (case stack_index s d of None \<Rightarrow> 0 | Some k \<Rightarrow> k) (stack s) @ [d])]"
  by (simp_all add: enter_def leave_def report_cycle_def)

lemma walk_keeps: "marks s x = Some m \<Longrightarrow> marks (walk board iid ds s) x = Some m"
proof (induction board iid ds s rule: walk_cases)
  case (Cons board iid d ds s)
  show ?case
  proof (cases "x = d")
    case True
    with Cons show ?thesis by (cases m) auto
  next
    case False
    with Cons show ?thesis by (auto split: option.splits mark.splits)
  qed
qed simp

lemma walk_visiting: "marks (walk board iid ds s) x = Some VISITING \<Longrightarrow> marks s x = Some VISITING"
  by (induction board iid ds s rule: walk.induct)
    (auto split: option.splits mark.splits if_splits)

lemma walk_cycles: "\<exists>found. cycles (walk board iid ds s) = cycles s @ found"
proof (induction board iid ds s rule: walk_cases)
  case (Cons board iid d ds s)
  then show ?case
    by (auto split: option.splits mark.splits)
qed simp

lemma walk_stack: "stack (walk board iid ds s) = stack s"
  by (induction board iid ds s rule: walk.induct) (auto split: option.splits mark.splits)

subsection \<open>No report, no cycle\<close>

definition depends :: "item list \<Rightarrow> (string \<times> string) set" where
  "depends board = {(a, b). b \<in> set (dependencies_of board a)}"

definition edges :: "item list \<Rightarrow> (string \<times> string) set" where
  "edges board = {(a, b). b \<in> set (dependencies_of board a) \<and> b \<noteq> a \<and> b \<in> board_ids board}"

definition finished :: "search \<Rightarrow> string set" where
  "finished s = {x. marks s x = Some VISITED}"

definition clean :: "item list \<Rightarrow> search \<Rightarrow> bool" where
  "clean board s \<longleftrightarrow> edges board `` finished s \<subseteq> finished s \<and> (\<forall>x \<in> finished s. (x, x) \<notin> (edges board)\<^sup>+)"

lemma trancl_closed: "(x, y) \<in> R\<^sup>+ \<Longrightarrow> R `` D \<subseteq> D \<Longrightarrow> x \<in> D \<Longrightarrow> y \<in> D"
  by (induction rule: trancl_induct) auto

lemma finished_simps [simp]:
  "marks s d = None \<Longrightarrow> finished (enter d s) = finished s"
  "finished (leave d s) = insert d (finished s)"
  "finished (report_cycle iid d s) = finished s"
  by (auto simp: finished_def)

lemma clean_same: "finished s' = finished s \<Longrightarrow> clean board s' = clean board s"
  by (simp add: clean_def)

lemma clean_leave:
  assumes "clean board s" "edges board `` {d} \<subseteq> finished s" "d \<notin> finished s"
  shows "clean board (leave d s)"
proof -
  have closed: "edges board `` finished s \<subseteq> finished s" using assms(1) by (simp add: clean_def)
  have "(d, d) \<notin> (edges board)\<^sup>+"
  proof
    assume "(d, d) \<in> (edges board)\<^sup>+"
    then obtain y where "(d, y) \<in> edges board" "y = d \<or> (y, d) \<in> (edges board)\<^sup>+" by (meson tranclD rtranclD)
    with assms(2,3) trancl_closed [OF _ closed] show False by blast
  qed
  with assms closed show ?thesis by (auto simp: clean_def)
qed

text \<open>A loop that reports nothing finishes every dependency it looks at and keeps the search clean.\<close>

lemma walk_clean:
  "cycles (walk board iid ds s) = cycles s \<Longrightarrow> clean board s \<Longrightarrow>
     clean board (walk board iid ds s) \<and>
     (\<forall>d \<in> set ds. d \<noteq> iid \<and> d \<in> board_ids board \<longrightarrow> d \<in> finished (walk board iid ds s))"
proof (induction board iid ds s rule: walk_cases)
  case (Cons board iid d ds s)
  show ?case
  proof (cases "d = iid \<or> d \<notin> board_ids board")
    case True
    with Cons show ?thesis by auto
  next
    case False
    show ?thesis
    proof (cases "marks s d")
      case None
      let ?inner = "walk board d (dependencies_of board d) (enter d s)"
      obtain f g where f: "cycles ?inner = cycles s @ f"
        and g: "cycles (walk board iid ds (leave d ?inner)) = cycles ?inner @ g"
        using walk_cycles [of board d "dependencies_of board d" "enter d s"] walk_cycles [of board iid ds "leave d ?inner"]
        by auto
      with Cons.prems(1) False None have quiet: "cycles ?inner = cycles (enter d s)"
        "cycles (walk board iid ds (leave d ?inner)) = cycles (leave d ?inner)"
        by simp_all
      have inner: "clean board ?inner"
        "\<forall>e \<in> set (dependencies_of board d). e \<noteq> d \<and> e \<in> board_ids board \<longrightarrow> e \<in> finished ?inner"
        using Cons.IH(2) [OF False None quiet(1)] Cons.prems(2) clean_same [OF finished_simps(1) [of s d]] None by auto
      have "marks ?inner d = Some VISITING" by (rule walk_keeps) simp
      then have "clean board (leave d ?inner)"
        using inner by (intro clean_leave) (auto simp: edges_def finished_def)
      with Cons.IH(3) [OF False None quiet(2)] have
        *: "clean board (walk board iid ds (leave d ?inner))"
        "\<forall>e \<in> set ds. e \<noteq> iid \<and> e \<in> board_ids board \<longrightarrow> e \<in> finished (walk board iid ds (leave d ?inner))" by auto
      have "d \<in> finished (walk board iid ds (leave d ?inner))"
        unfolding finished_def by (simp add: walk_keeps)
      with * False None show ?thesis by simp
    next
      case (Some m)
      show ?thesis
      proof (cases m)
        case VISITING
        obtain g where "cycles (walk board iid ds (report_cycle iid d s)) = cycles (report_cycle iid d s) @ g"
          using walk_cycles by blast
        with Cons.prems(1) False Some VISITING show ?thesis by simp
      next
        case VISITED
        then have "d \<in> finished (walk board iid ds s)"
          unfolding finished_def using walk_keeps [of s d m] Some by simp
        with Cons.IH(5) [OF False Some VISITED] Cons.prems False Some VISITED show ?thesis by auto
      qed
    qed
  qed
qed simp

lemma visit_clean:
  assumes "cycles (visit board iid s) = cycles s" "clean board s" "marks s iid = None"
  shows "clean board (visit board iid s)"
proof -
  let ?w = "walk board iid (dependencies_of board iid) (enter iid s)"
  have "cycles ?w = cycles (enter iid s)" using assms(1) by (simp add: visit_def)
  then have "clean board ?w"
    "\<forall>d \<in> set (dependencies_of board iid). d \<noteq> iid \<and> d \<in> board_ids board \<longrightarrow> d \<in> finished ?w"
    using walk_clean [of board iid _ "enter iid s"] assms(2,3) clean_same [OF finished_simps(1) [of s iid]] by auto
  moreover have "marks ?w iid = Some VISITING" by (rule walk_keeps) simp
  ultimately show ?thesis
    unfolding visit_def by (intro clean_leave) (auto simp: edges_def finished_def)
qed

lemma visit_cycles: "\<exists>found. cycles (visit board iid s) = cycles s @ found"
  using walk_cycles [of board iid _ "enter iid s"] by (simp add: visit_def)

lemma visit_marks: "marks s x = Some m \<Longrightarrow> marks s iid = None \<Longrightarrow> marks (visit board iid s) x = Some m"
  "marks (visit board iid s) iid = Some VISITED"
  using walk_keeps [of "enter iid s" x m board iid] by (auto simp: visit_def)

lemma visit_all_cycles: "\<exists>found. cycles (visit_all board is s) = cycles s @ found"
proof (induction "is" arbitrary: s)
  case (Cons i "is")
  from Cons [of s] Cons [of "visit board (item_id i) s"] visit_cycles [of board "item_id i" s] show ?case
    by (auto split: if_splits)
qed simp

lemma visit_all_keeps: "marks s x = Some m \<Longrightarrow> marks (visit_all board is s) x = Some m"
  by (induction "is" arbitrary: s) (auto simp: visit_marks)

lemma visit_all_clean:
  "cycles (visit_all board is s) = cycles s \<Longrightarrow> clean board s \<Longrightarrow> \<forall>x. marks s x \<noteq> Some VISITING \<Longrightarrow>
     clean board (visit_all board is s) \<and> (\<forall>i \<in> set is. item_id i \<in> finished (visit_all board is s))"
proof (induction "is" arbitrary: s)
  case (Cons i "is")
  let ?s = "if marks s (item_id i) = None then visit board (item_id i) s else s"
  obtain g where "cycles (visit_all board is ?s) = cycles ?s @ g" using visit_all_cycles by blast
  moreover obtain f where "cycles ?s = cycles s @ f"
    using visit_cycles [of board "item_id i" s] by (cases "marks s (item_id i)") auto
  ultimately have fg: "cycles ?s = cycles s @ f" "cycles (visit_all board is ?s) = cycles ?s @ g" by auto
  with Cons.prems(1) have quiet: "cycles ?s = cycles s" "cycles (visit_all board is ?s) = cycles ?s" by simp_all
  have "clean board ?s" using visit_clean [of board "item_id i" s] quiet(1) Cons.prems(2) by auto
  moreover have "\<forall>x. marks ?s x \<noteq> Some VISITING"
    using Cons.prems(3) by (auto simp: visit_def dest!: walk_visiting split: if_splits)
  ultimately have rest: "clean board (visit_all board is ?s)" "\<forall>j \<in> set is. item_id j \<in> finished (visit_all board is ?s)"
    using Cons.IH [OF quiet(2)] by auto
  have "marks ?s (item_id i) = Some VISITED"
    using Cons.prems(3) visit_marks(2) by (cases "marks s (item_id i)") (auto, metis mark.exhaust)
  then have "item_id i \<in> finished (visit_all board is ?s)" by (simp add: finished_def visit_all_keeps)
  with rest show ?case by simp
qed simp

subsection \<open>What is reported is a cycle\<close>

definition genuine :: "item list \<Rightarrow> dependency_issue \<Rightarrow> bool" where
  "genuine board c \<longleftrightarrow>
     (case c of
        Cyclic_Dependency a d cs \<Rightarrow>
          (a, d) \<in> edges board \<and> 2 \<le> length cs \<and> hd cs = d \<and> last cs = d \<and> last (butlast cs) = a \<and>
          successively (\<lambda>x y. (x, y) \<in> edges board) cs
      | _ \<Rightarrow> False)"

definition on_path :: "item list \<Rightarrow> search \<Rightarrow> bool" where
  "on_path board s \<longleftrightarrow> successively (\<lambda>x y. (x, y) \<in> edges board) (stack s) \<and>
     (\<forall>x k. stack_index s x = Some k \<longrightarrow> k < length (stack s) \<and> stack s ! k = x) \<and>
     (\<forall>x. marks s x = Some VISITING \<longrightarrow> stack_index s x \<noteq> None)"

lemma on_path_index: "on_path board s \<Longrightarrow> stack_index s x = Some k \<Longrightarrow> k < length (stack s) \<and> stack s ! k = x"
  by (simp add: on_path_def)

lemma on_path_enter:
  assumes "on_path board s" "stack s = [] \<or> (last (stack s), d) \<in> edges board"
  shows "on_path board (enter d s)"
  unfolding on_path_def
proof (intro conjI allI impI)
  show "successively (\<lambda>x y. (x, y) \<in> edges board) (stack (enter d s))"
    using assms by (auto simp: on_path_def successively_append_iff)
  fix x k assume "stack_index (enter d s) x = Some k"
  then show "k < length (stack (enter d s))" "stack (enter d s) ! k = x"
    using on_path_index [OF assms(1), of x k] by (auto simp: nth_append split: if_splits)
qed (use assms(1) in \<open>auto simp: on_path_def\<close>)

lemma on_path_leave:
  assumes "on_path board s" "stack s = xs @ [d]"
  shows "on_path board (leave d s)"
  unfolding on_path_def
proof (intro conjI allI impI)
  show "successively (\<lambda>x y. (x, y) \<in> edges board) (stack (leave d s))"
    using assms by (auto simp: on_path_def successively_append_iff)
  fix x k assume "stack_index (leave d s) x = Some k"
  then have "stack_index s x = Some k" "x \<noteq> d" by (auto split: if_splits)
  with on_path_index [OF assms(1)] have "k < length (xs @ [d])" "(xs @ [d]) ! k = x" "x \<noteq> d" by (simp_all flip: assms(2))
  then show "k < length (stack (leave d s))" "stack (leave d s) ! k = x"
    by (auto simp: assms(2) nth_append less_Suc_eq)
qed (use assms(1) in \<open>auto simp: on_path_def split: if_splits\<close>)

lemma report_genuine:
  assumes "on_path board s" "stack s \<noteq> []" "(last (stack s), d) \<in> edges board" "marks s d = Some VISITING"
  shows "genuine board (Cyclic_Dependency (last (stack s)) d (drop (case stack_index s d of None \<Rightarrow> 0 | Some k \<Rightarrow> k) (stack s) @ [d]))"
proof -
  obtain k where k: "stack_index s d = Some k" "k < length (stack s)" "stack s ! k = d"
    using assms(1,4) by (auto simp: on_path_def)
  have "successively (\<lambda>x y. (x, y) \<in> edges board) (take k (stack s) @ drop k (stack s))"
    using assms(1) by (simp add: on_path_def)
  then have "successively (\<lambda>x y. (x, y) \<in> edges board) (drop k (stack s))" by (simp add: successively_append_iff del: append_take_drop_id)
  moreover have "hd (drop k (stack s)) = d" "drop k (stack s) \<noteq> []" "last (drop k (stack s)) = last (stack s)"
    using k by (simp_all add: hd_drop_conv_nth)
  ultimately show ?thesis
    using assms(3) k by (auto simp: genuine_def successively_append_iff hd_append)
qed

lemma walk_genuine:
  "on_path board s \<Longrightarrow> stack s \<noteq> [] \<Longrightarrow> last (stack s) = iid \<Longrightarrow> set ds \<subseteq> set (dependencies_of board iid) \<Longrightarrow>
     \<forall>c \<in> set (cycles s). genuine board c \<Longrightarrow>
     on_path board (walk board iid ds s) \<and> (\<forall>c \<in> set (cycles (walk board iid ds s)). genuine board c)"
proof (induction board iid ds s rule: walk_cases)
  case (Cons board iid d ds s)
  show ?case
  proof (cases "d = iid \<or> d \<notin> board_ids board")
    case True
    then have "walk board iid (d # ds) s = walk board iid ds s" by simp
    with Cons.IH(1) [OF True] Cons.prems show ?thesis by (simp del: walk.simps)
  next
    case False
    then have edge: "(last (stack s), d) \<in> edges board" using Cons.prems(3,4) by (auto simp: edges_def)
    show ?thesis
    proof (cases "marks s d")
      case None
      let ?inner = "walk board d (dependencies_of board d) (enter d s)"
      have "on_path board (enter d s)" using on_path_enter Cons.prems(1) edge by blast
      with Cons.IH(2) [OF False None] Cons.prems(5) have inner: "on_path board ?inner" "\<forall>c \<in> set (cycles ?inner). genuine board c"
        by auto
      have "on_path board (leave d ?inner)"
        by (rule on_path_leave [OF inner(1)]) (simp add: walk_stack)
      with Cons.IH(3) [OF False None] Cons.prems inner(2) False None show ?thesis by (simp add: walk_stack)
    next
      case (Some m)
      show ?thesis
      proof (cases m)
        case VISITING
        have "on_path board (report_cycle iid d s)" using Cons.prems(1) by (simp add: on_path_def)
        moreover have "set ds \<subseteq> set (dependencies_of board iid)" using Cons.prems(4) by simp
        moreover have "\<forall>c \<in> set (cycles (report_cycle iid d s)). genuine board c"
          using Cons.prems(3,5) report_genuine [OF Cons.prems(1,2) edge] Some VISITING by auto
        ultimately have "on_path board (walk board iid ds (report_cycle iid d s)) \<and>
            (\<forall>c \<in> set (cycles (walk board iid ds (report_cycle iid d s))). genuine board c)"
          using Cons.IH(4) [OF False Some VISITING] Cons.prems(2,3) unfolding search_fields(8) by blast
        with False Some VISITING show ?thesis by simp
      next
        case VISITED
        then have "walk board iid (d # ds) s = walk board iid ds s" using False Some by simp
        with Cons.IH(5) [OF False Some VISITED] Cons.prems show ?thesis by (simp del: walk.simps)
      qed
    qed
  qed
qed simp

lemma visit_genuine:
  assumes "on_path board s" "stack s = []" "\<forall>c \<in> set (cycles s). genuine board c"
  shows "on_path board (visit board iid s) \<and> stack (visit board iid s) = [] \<and> (\<forall>c \<in> set (cycles (visit board iid s)). genuine board c)"
proof -
  let ?w = "walk board iid (dependencies_of board iid) (enter iid s)"
  have "on_path board (enter iid s)" using on_path_enter assms(1,2) by blast
  with walk_genuine [of board "enter iid s" iid "dependencies_of board iid"] assms(2,3)
  have "on_path board ?w" "\<forall>c \<in> set (cycles ?w). genuine board c" by auto
  moreover from this(1) have "on_path board (leave iid ?w)" by (rule on_path_leave) (simp add: walk_stack)
  ultimately show ?thesis using assms(2) by (simp add: visit_def walk_stack)
qed

lemma visit_all_genuine:
  "on_path board s \<Longrightarrow> stack s = [] \<Longrightarrow> \<forall>c \<in> set (cycles s). genuine board c \<Longrightarrow>
     \<forall>c \<in> set (cycles (visit_all board is s)). genuine board c"
proof (induction "is" arbitrary: s)
  case (Cons i "is")
  show ?case
  proof (cases "marks s (item_id i)")
    case None
    have "\<forall>c \<in> set (cycles (visit_all board is (visit board (item_id i) s))). genuine board c"
      using Cons.IH [of "visit board (item_id i) s"] visit_genuine [OF Cons.prems, of "item_id i"] by blast
    with None show ?thesis by simp
  next
    case (Some m)
    with Cons show ?thesis by simp
  qed
qed simp

abbreviation (input) "start \<equiv> \<lparr>marks = Map.empty, stack = [], stack_index = Map.empty, cycles = []\<rparr>"

lemma reported_genuine: "c \<in> set (cycles (visit_all board board start)) \<Longrightarrow> genuine board c"
  using visit_all_genuine [of board start board] by (auto simp: on_path_def)

lemma successively_trancl: "successively (\<lambda>x y. (x, y) \<in> R) xs \<Longrightarrow> 2 \<le> length xs \<Longrightarrow> (hd xs, last xs) \<in> R\<^sup>+"
proof (induction xs rule: induct_list012)
  case (3 x y zs)
  then show ?case by (cases zs) (auto intro: trancl_into_trancl2)
qed auto

lemma genuine_cyclic: "genuine board c \<Longrightarrow> \<not> acyclic (edges board)"
  using successively_trancl by (fastforce simp: genuine_def acyclic_def split: dependency_issue.splits)

lemma cycles_Nil: "cycles (visit_all board board start) = [] \<longleftrightarrow> acyclic (edges board)"
proof
  assume quiet: "cycles (visit_all board board start) = []"
  have "clean board start" by (simp add: clean_def finished_def)
  with visit_all_clean [of board board start] quiet
  have all: "clean board (visit_all board board start)" "\<forall>i \<in> set board. item_id i \<in> finished (visit_all board board start)" by auto
  have "(x, x) \<notin> (edges board)\<^sup>+" for x
  proof
    assume x: "(x, x) \<in> (edges board)\<^sup>+"
    then obtain y where "(y, x) \<in> edges board" by (meson tranclD2)
    then have "x \<in> finished (visit_all board board start)" using all(2) by (auto simp: edges_def board_ids_def)
    with all(1) x show False by (simp add: clean_def)
  qed
  then show "acyclic (edges board)" by (simp add: acyclic_def)
next
  assume "acyclic (edges board)"
  then have "c \<notin> set (cycles (visit_all board board start))" for c
    using reported_genuine [of c board] genuine_cyclic by blast
  then show "cycles (visit_all board board start) = []" by (metis list.set_intros(1) neq_Nil_conv)
qed

subsection \<open>Nothing reported means closed and acyclic\<close>

definition closed_graph :: "item list \<Rightarrow> bool" where
  "closed_graph board \<longleftrightarrow> (\<forall>i \<in> set board. set (depends_on i) \<subseteq> board_ids board)"

lemma findD: "find p xs = Some x \<Longrightarrow> x \<in> set xs \<and> p x"
  by (auto simp: find_Some_iff)

lemma dependencies_of_item:
  "distinct (map item_id board) \<Longrightarrow> i \<in> set board \<Longrightarrow> dependencies_of board (item_id i) = depends_on i"
  using find_item_unique [of board i] by (auto simp: dependencies_of_def find_item_def split: option.splits)

lemma depends_iff:
  assumes "distinct (map item_id board)"
  shows "(a, b) \<in> depends board \<longleftrightarrow> (\<exists>i \<in> set board. item_id i = a \<and> b \<in> set (depends_on i))"
proof
  assume "(a, b) \<in> depends board"
  then show "\<exists>i \<in> set board. item_id i = a \<and> b \<in> set (depends_on i)"
    by (auto simp: depends_def dependencies_of_def split: option.splits dest!: findD [OF sym])
qed (use dependencies_of_item [OF assms] in \<open>auto simp: depends_def\<close>)

lemma concat_Nil: "concat (map f xs) = [] \<longleftrightarrow> (\<forall>x \<in> set xs. f x = [])"
  by auto

lemma edge_issues_Nil:
  "edge_issues board = [] \<longleftrightarrow> (\<forall>i \<in> set board. \<forall>d \<in> set (depends_on i). d \<noteq> item_id i \<and> d \<in> board_ids board)"
  unfolding edge_issues_def concat_Nil by (intro ball_cong refl) simp

lemma dependency_issues_Nil:
  assumes "distinct (map item_id board)"
  shows "dependency_issues board = [] \<longleftrightarrow> closed_graph board \<and> acyclic (depends board)"
proof -
  have same: "edges board = depends board" if "edge_issues board = []"
    using that depends_iff [OF assms] by (fastforce simp: edge_issues_Nil edges_def depends_def)
  have "dependency_issues board = [] \<longleftrightarrow> edge_issues board = [] \<and> acyclic (depends board)"
    using same cycles_Nil [of board] by (auto simp: dependency_issues_def)
  also have "\<dots> \<longleftrightarrow> closed_graph board \<and> acyclic (depends board)"
  proof -
    have "(d, d) \<notin> depends board" if "acyclic (depends board)" for d using that by (auto simp: acyclic_def)
    then show ?thesis using depends_iff [OF assms] by (fastforce simp: edge_issues_Nil closed_graph_def)
  qed
  finally show ?thesis .
qed

subsection \<open>Diagnosis, validation and repair\<close>

definition diagnose :: "jsval \<Rightarrow> dependency_issue list res" where
  "diagnose raw = rbind (define_snapshot raw) (\<lambda>board. Inr (dependency_issues board))"

fun format_issue :: "dependency_issue \<Rightarrow> string" where
  "format_issue (Self_Dependency a b) = ''SELF_DEPENDENCY '' @ a @ '' -> '' @ b"
| "format_issue (Dangling_Dependency a b) = ''DANGLING_DEPENDENCY '' @ a @ '' -> '' @ b"
| "format_issue (Cyclic_Dependency a b cs) =
     ''CYCLIC_DEPENDENCY '' @ a @ '' -> '' @ b @ '' (cycle: '' @ join '' -> '' cs @ '')''"

definition define_graph_snapshot :: "jsval \<Rightarrow> item list res" where
  "define_graph_snapshot raw =
     rbind (define_snapshot raw) (\<lambda>board.
     rbind (type_invariant (dependency_issues board = [])
              (''Blackboard dependency graph invalid: '' @ join ''; '' (map format_issue (dependency_issues board)))) (\<lambda>_.
       Inr board))"

type_synonym repair = "string \<times> string list"

definition repair_text :: "string" where
  "repair_text = ''Blackboard dependency repair''"

fun normalize_repairs_from :: "nat \<Rightarrow> string list \<Rightarrow> json list \<Rightarrow> repair list res" where
  "normalize_repairs_from n seen [] = Inr []"
| "normalize_repairs_from n seen (raw # rest) =
     (let at = indexed (repair_text @ '' replacements'') n in
      rbind (type_invariant (is_plain raw) (at @ '' must be an object'')) (\<lambda>_.
      rbind (text_of (opt_member (Some raw) ''itemId'') (at @ ''.itemId'')) (\<lambda>iid.
      rbind (type_invariant (iid \<notin> set seen) (repair_text @ '' has duplicate item '' @ iid)) (\<lambda>_.
      rbind (case opt_member (Some raw) ''dependsOn'' of
               Some (JArr vs) \<Rightarrow> map_indexed (\<lambda>k v. text_of (Some v) (indexed (at @ ''.dependsOn'') k)) vs
             | _ \<Rightarrow> Inl (TypeFault (at @ ''.dependsOn must be an array''))) (\<lambda>deps.
      rbind (normalize_repairs_from (n + 1) (iid # seen) rest) (\<lambda>more_repairs.
        Inr ((iid, uniq deps) # more_repairs)))))))"

definition normalize_dependency_repairs :: "jsval \<Rightarrow> repair list res" where
  "normalize_dependency_repairs v =
     (case v of
        Some (JArr raws) \<Rightarrow>
          rbind (type_invariant (raws \<noteq> []) (repair_text @ '' requires at least one replacement'')) (\<lambda>_.
            normalize_repairs_from 0 [] raws)
      | _ \<Rightarrow> Inl (TypeFault (repair_text @ '' replacements must be an array'')))"

fun repair_items :: "repair list \<Rightarrow> item list \<Rightarrow> item list res" where
  "repair_items [] board = Inr board"
| "repair_items ((iid, deps) # rest) board =
     (case find (\<lambda>i. item_id i = iid) board of
        None \<Rightarrow> Inl (TypeFault (repair_text @ '' item not found: '' @ iid))
      | Some i \<Rightarrow> repair_items rest (put_item (i\<lparr>depends_on := deps\<rparr>) board))"

fun issue_json :: "dependency_issue \<Rightarrow> json" where
  "issue_json (Self_Dependency a b) =
     JObj [(''code'', JStr ''SELF_DEPENDENCY''), (''itemId'', JStr a), (''dependencyId'', JStr b)]"
| "issue_json (Dangling_Dependency a b) =
     JObj [(''code'', JStr ''DANGLING_DEPENDENCY''), (''itemId'', JStr a), (''dependencyId'', JStr b)]"
| "issue_json (Cyclic_Dependency a b cs) =
     JObj [(''code'', JStr ''CYCLIC_DEPENDENCY''), (''itemId'', JStr a), (''dependencyId'', JStr b), (''cycle'', texts cs)]"

definition repair_mutator :: "repair list \<Rightarrow> mutator" where
  "repair_mutator repairs board =
     rbind (define_snapshot (Some (snapshot_json board))) (\<lambda>stored.
     rbind (type_invariant (dependency_issues stored \<noteq> []) (repair_text @ '' requires an invalid stored graph'')) (\<lambda>_.
     rbind (repair_items repairs board) (\<lambda>repaired.
     rbind (define_graph_snapshot (Some (snapshot_json repaired))) (\<lambda>_.
       Inr (repaired, JObj
         [(''issuesBefore'', JArr (map issue_json (dependency_issues stored))),
          (''replacements'', JArr (map (\<lambda>(iid, deps). JObj [(''itemId'', JStr iid), (''dependsOn'', texts deps)]) repairs))])))))"

definition repair_dependency_graph :: "'s board_store \<Rightarrow> jsval \<Rightarrow> 's \<Rightarrow> 's \<times> (item list \<times> json) res" where
  "repair_dependency_graph S raw s =
     (case normalize_dependency_repairs raw of
        Inl e \<Rightarrow> (s, Inl e)
      | Inr repairs \<Rightarrow> transact_board S s (repair_mutator repairs))"

definition diagnose_dependency_graph :: "'s board_store \<Rightarrow> 's \<Rightarrow> 's \<times> dependency_issue list res" where
  "diagnose_dependency_graph S s =
     (case load_board S s of (s', r) \<Rightarrow> (s', rbind r (\<lambda>board. diagnose (Some (snapshot_json board)))))"

text \<open>The store that validates the graph before and after every mutation.\<close>

definition graph_checked :: "mutator \<Rightarrow> mutator" where
  "graph_checked mut board =
     rbind (define_graph_snapshot (Some (snapshot_json board))) (\<lambda>_.
     rbind (mut board) (\<lambda>(changed, r).
     rbind (define_graph_snapshot (Some (snapshot_json changed))) (\<lambda>_.
       Inr (changed, r))))"

definition graph_store :: "'s board_store \<Rightarrow> 's board_store" where
  "graph_store S = \<lparr>
     load_board = (\<lambda>s. case load_board S s of (s', r) \<Rightarrow>
        (s', rbind r (\<lambda>board. define_graph_snapshot (Some (snapshot_json board))))),
     transact_board = (\<lambda>s mut. transact_board S s (graph_checked mut))\<rparr>"

lemma define_graph_snapshot_Inr:
  "define_graph_snapshot raw = Inr board \<longleftrightarrow>
     define_snapshot raw = Inr board \<and> closed_graph board \<and> acyclic (depends board)"
proof -
  have "dependency_issues board = [] \<longleftrightarrow> closed_graph board \<and> acyclic (depends board)" if "define_snapshot raw = Inr board"
    using define_snapshot_wf [OF that] dependency_issues_Nil by (simp add: wf_snapshot_def)
  then show ?thesis by (auto simp: define_graph_snapshot_def)
qed

lemma graph_checked_valid:
  assumes "apply_mutator (graph_checked mut) board = Inr (saved, r)"
  shows "apply_mutator mut board = Inr (saved, r)" "closed_graph saved" "acyclic (depends saved)" "wf_snapshot saved"
proof -
  from assms obtain changed where m: "mut board = Inr (changed, r)"
    and ok: "is_ok (define_graph_snapshot (Some (snapshot_json changed)))"
    and d: "define_snapshot (Some (snapshot_json changed)) = Inr saved"
    by (auto simp: apply_mutator_def graph_checked_def)
  from ok d have "define_graph_snapshot (Some (snapshot_json changed)) = Inr saved"
    by (auto simp: is_ok_def define_graph_snapshot_def split: sum.splits)
  then show "closed_graph saved" "acyclic (depends saved)" by (simp_all add: define_graph_snapshot_Inr)
  show "apply_mutator mut board = Inr (saved, r)" using m d by (simp add: apply_mutator_def)
  show "wf_snapshot saved" by (rule define_snapshot_wf [OF d])
qed

subsection \<open>Some unfinished item can be claimed\<close>

lemma finite_depends: "finite (depends board)"
proof -
  have "depends board \<subseteq> (\<Union>i \<in> set board. {item_id i} \<times> set (depends_on i))"
    by (auto simp: depends_def dependencies_of_def split: option.splits dest!: findD [OF sym])
  then show ?thesis by (rule finite_subset) simp
qed

lemma dependencies_first:
  assumes "wf_snapshot board" "closed_graph board" "acyclic (depends board)" "i \<in> set board" "item_status i \<noteq> DONE"
  obtains j where "j \<in> set board" "item_status j \<noteq> DONE"
    "\<forall>d \<in> set (depends_on j). \<exists>k. find_item board d = Inr k \<and> item_status k = DONE"
proof -
  have ids: "distinct (map item_id board)" using assms(1) by (simp add: wf_snapshot_def)
  let ?open = "{item_id k | k. k \<in> set board \<and> item_status k \<noteq> DONE}"
  have "wf ((depends board)\<inverse>)" by (rule finite_acyclic_wf_converse [OF finite_depends assms(3)])
  moreover have "item_id i \<in> ?open" using assms(4,5) by blast
  ultimately obtain z where z: "z \<in> ?open" "\<And>y. (y, z) \<in> (depends board)\<inverse> \<Longrightarrow> y \<notin> ?open"
    by (rule wfE_min) blast
  then obtain j where j: "j \<in> set board" "item_status j \<noteq> DONE" "item_id j = z" by blast
  have "\<exists>k. find_item board d = Inr k \<and> item_status k = DONE" if d: "d \<in> set (depends_on j)" for d
  proof -
    have "(z, d) \<in> depends board" using depends_iff [OF ids] j d by blast
    then have "d \<notin> ?open" using z(2) by blast
    moreover have "d \<in> board_ids board" using assms(2) j(1) d by (auto simp: closed_graph_def)
    ultimately obtain k where "k \<in> set board" "item_id k = d" "item_status k = DONE"
      by (auto simp: board_ids_def)
    with find_item_unique [OF ids] show ?thesis by metis
  qed
  with j that show ?thesis by blast
qed

lemma claim_edit_ok:
  assumes "can_claim (item_status j)" "\<forall>d \<in> set (depends_on j). \<exists>k. find_item board d = Inr k \<and> item_status k = DONE"
  shows "claim_edit iid owner board j =
    Inr (j\<lparr>claim_generation := claim_generation j + 1, item_status := CLAIMED, item_owner := Some owner, blockers := []\<rparr>)"
proof -
  have "\<exists>us. map_res (\<lambda>d. rbind (find_item board d) (\<lambda>k. type_invariant (item_status k = DONE) (msg d))) ds = Inr us"
    if "set ds \<subseteq> set (depends_on j)" for ds msg
    using that assms(2) by (induction ds) (auto simp: type_invariant_def)
  from this [of "depends_on j" "\<lambda>d. board_item_text iid (''dependency is not DONE: '' @ d)"] show ?thesis
    using assms(1) by (auto simp: claim_edit_def type_invariant_def)
qed

end
