(* ===== verification/Blackboard_Base.thy ===== *)
theory Blackboard_Base
  imports Blackboard_Graph
begin

section \<open>The guarded orchestrator and the extension of the work graph\<close>

text \<open>
  \<open>packages/agentic-system/src/application-orchestrator-base.js\<close>: the store guard under which
  the operations of the orchestrator run, which refuses to change a SUPERSEDED item, and
  \<open>extendWorkGraph\<close>, which adds fresh items, dependencies, references, reviews and blockers
  around one target item in a single transaction.
\<close>

subsection \<open>Superseded items are immutable\<close>

definition terminal_snapshot :: "item \<Rightarrow> string" where
  "terminal_snapshot i = render (item_json i)"

text \<open>The \<open>Map\<close> from ids to items keeps the last item of an id.\<close>

definition by_id :: "item list \<Rightarrow> string \<Rightarrow> item option" where
  "by_id items = map_of (rev (map (\<lambda>i. (item_id i, i)) items))"

fun superseded_immutable :: "item list \<Rightarrow> item list \<Rightarrow> unit res" where
  "superseded_immutable [] after = Inr ()"
| "superseded_immutable (i # is) after =
     (if item_status i \<noteq> SUPERSEDED then superseded_immutable is after
      else case by_id after (item_id i) of
        None \<Rightarrow> Inl (TypeFault (board_item_text (item_id i) ''is SUPERSEDED and cannot be removed''))
      | Some j \<Rightarrow>
          rbind (type_invariant (terminal_snapshot j = terminal_snapshot i)
                   (board_item_text (item_id i) ''is SUPERSEDED and cannot be mutated'')) (\<lambda>_.
            superseded_immutable is after))"

definition guarded :: "mutator \<Rightarrow> mutator" where
  "guarded mut board =
     rbind (mut board) (\<lambda>(changed, r). rbind (superseded_immutable board changed) (\<lambda>_. Inr (changed, r)))"

definition guard_terminal_cancellation :: "'s board_store \<Rightarrow> 's board_store" where
  "guard_terminal_cancellation S =
     \<lparr>load_board = load_board S, transact_board = (\<lambda>s mut. transact_board S s (guarded mut))\<rparr>"

lemma render_eq_iff [simp]: "render a = render b \<longleftrightarrow> a = b"
  using render_prefix [of "[]" "[]" a b] by (auto simp: token_end_def)

lemma by_id_member: "by_id items k = Some i \<Longrightarrow> i \<in> set items \<and> item_id i = k"
  unfolding by_id_def by (drule map_of_SomeD) auto

lemma superseded_immutableD:
  "superseded_immutable before after = Inr u \<Longrightarrow> i \<in> set before \<Longrightarrow> item_status i = SUPERSEDED \<Longrightarrow>
     \<exists>j \<in> set after. item_json j = item_json i"
  by (induction before after rule: superseded_immutable.induct)
    (auto simp: terminal_snapshot_def split: if_splits option.splits dest!: by_id_member)

lemma map_indexed_image:
  assumes "map_indexed f xs = Inr ys" "x \<in> set xs" "\<And>n. f n x = Inr y"
  shows "y \<in> set ys"
proof -
  have "map_res (\<lambda>(i, x). f i x) (enumerate n xs) = Inr ys \<Longrightarrow> x \<in> set xs \<Longrightarrow> y \<in> set ys" for n xs ys
    using assms(3) by (induction xs arbitrary: n ys) auto
  with assms show ?thesis by (simp add: map_indexed_def)
qed

lemma define_snapshot_member:
  assumes "define_snapshot (Some (snapshot_json items)) = Inr saved" "wf_item i" "j \<in> set items" "item_json j = item_json i"
  shows "i \<in> set saved"
proof -
  have "map_indexed normalize_item (map item_json items) = Inr saved"
    using assms(1) by (auto simp: define_snapshot_def snapshot_json_def Let_def arg_or_def)
  moreover have "item_json i \<in> set (map item_json items)" using assms(3) by (simp flip: assms(4))
  ultimately show ?thesis by (rule map_indexed_image) (rule normalize_item_json [OF assms(2)])
qed

lemma guarded_keeps_superseded:
  assumes "apply_mutator (guarded mut) board = Inr (saved, r)" "wf_snapshot board" "i \<in> set board" "item_status i = SUPERSEDED"
  shows "i \<in> set saved"
proof -
  from assms(1) obtain changed where c: "superseded_immutable board changed = Inr ()"
    "define_snapshot (Some (snapshot_json changed)) = Inr saved"
    by (auto simp: apply_mutator_def guarded_def)
  obtain j where "j \<in> set changed" "item_json j = item_json i"
    using superseded_immutableD [OF c(1) assms(3,4)] by blast
  then show ?thesis
    using define_snapshot_member [OF c(2) _ _] assms(2,3) by (auto simp: wf_snapshot_def)
qed

lemma guarded_result: "apply_mutator (guarded mut) board = Inr (saved, r) \<Longrightarrow> apply_mutator mut board = Inr (saved, r)"
  by (auto simp: apply_mutator_def guarded_def)

subsection \<open>Normalising an extension\<close>

definition graph_extension_status :: "item_status set" where
  "graph_extension_status = {READY, REOPENED, BLOCKED}"

definition new_item_text :: "nat \<Rightarrow> string \<Rightarrow> string" where
  "new_item_text n rest = indexed ''newItems'' n @ '' '' @ rest"

definition normalize_fresh_work :: "nat \<Rightarrow> json \<Rightarrow> item res" where
  "normalize_fresh_work n raw =
     (case raw of
        JObj kvs \<Rightarrow>
          rbind (define_snapshot (Some (JObj [(''version'', JNum 1),
             (''items'', JArr [JObj (aset ''status'' (or_default (map_of kvs ''status'') (JStr ''READY'')) kvs)])]))) (\<lambda>items.
          let i = hd items in
          rbind (type_invariant (item_status i = READY) (new_item_text n ''must start READY'')) (\<lambda>_.
          rbind (type_invariant (item_owner i = None) (new_item_text n ''cannot start claimed'')) (\<lambda>_.
          rbind (type_invariant (claim_generation i = 0) (new_item_text n ''cannot start with claim generation history'')) (\<lambda>_.
          rbind (type_invariant (review_generation i = 0) (new_item_text n ''cannot start with review generation history'')) (\<lambda>_.
          rbind (type_invariant (checkpoint i = None) (new_item_text n ''cannot start with a checkpoint'')) (\<lambda>_.
          rbind (type_invariant (checkpointed_by i = None) (new_item_text n ''cannot start with checkpoint producer history'')) (\<lambda>_.
          rbind (type_invariant (submission i = None) (new_item_text n ''cannot start with a submission'')) (\<lambda>_.
          rbind (type_invariant (submitted_by i = None) (new_item_text n ''cannot start with submission producer history'')) (\<lambda>_.
          rbind (type_invariant (active i = None) (new_item_text n ''cannot start with an active review'')) (\<lambda>_.
          rbind (type_invariant (blockers i = []) (new_item_text n ''cannot start READY with blockers'')) (\<lambda>_.
          rbind (type_invariant (follow_up_refs i = []) (new_item_text n ''cannot start with follow-up history'')) (\<lambda>_.
          rbind (type_invariant (requirements i = []) (new_item_text n ''cannot start with review requirements'')) (\<lambda>_.
          rbind (type_invariant (reviews i = []) (new_item_text n ''cannot start with reviews'')) (\<lambda>_.
          rbind (type_invariant (findings i = []) (new_item_text n ''cannot start with findings'')) (\<lambda>_.
          rbind (type_invariant (origin i \<noteq> None) (new_item_text n ''requires explicit origin provenance'')) (\<lambda>_.
            Inr i))))))))))))))))
      | _ \<Rightarrow> Inl (TypeFault (new_item_text n ''must be an object'')))"

definition stable_work_seed :: "item \<Rightarrow> json" where
  "stable_work_seed i = JObj (item_fields i)"

definition same_fresh_work :: "item \<Rightarrow> item \<Rightarrow> bool" where
  "same_fresh_work l r \<longleftrightarrow> render (stable_work_seed l) = render (stable_work_seed r)"

record dependency_edge =
  edge_item :: string
  edge_dependency :: string

definition normalize_edge :: "nat \<Rightarrow> json \<Rightarrow> dependency_edge res" where
  "normalize_edge n raw =
     (let at = indexed ''dependencyEdges'' n in
      rbind (type_invariant (is_plain raw) (at @ '' must be an object'')) (\<lambda>_.
      rbind (text_of (opt_member (Some raw) ''itemId'') (at @ ''.itemId'')) (\<lambda>a.
      rbind (text_of (opt_member (Some raw) ''dependencyId'') (at @ ''.dependencyId'')) (\<lambda>b.
        Inr \<lparr>edge_item = a, edge_dependency = b\<rparr>))))"

definition normalize_dependency_edges :: "jsval \<Rightarrow> dependency_edge list res" where
  "normalize_dependency_edges v =
     (case or_default v (JArr []) of
        JArr raws \<Rightarrow> map_indexed normalize_edge raws
      | _ \<Rightarrow> Inl (TypeFault ''dependencyEdges must be an array''))"

record expected_target =
  expected_item :: string
  expected_status :: string
  expected_claims :: int
  expected_reviews :: int

definition require_non_negative :: "jsval \<Rightarrow> string \<Rightarrow> int res" where
  "require_non_negative v name =
     (case v of
        Some (JNum n) \<Rightarrow> if 0 \<le> n then Inr n else Inl (TypeFault (name @ '' must be a non-negative integer''))
      | _ \<Rightarrow> Inl (TypeFault (name @ '' must be a non-negative integer'')))"

definition normalize_expected_target :: "jsval \<Rightarrow> string \<Rightarrow> expected_target res" where
  "normalize_expected_target raw tid =
     (let f = opt_member raw in
      rbind (plain_object raw ''expectedTarget'') (\<lambda>_.
      rbind (text_of (f ''itemId'') ''expectedTarget.itemId'') (\<lambda>a.
      rbind (text_of (f ''status'') ''expectedTarget.status'') (\<lambda>s.
      rbind (require_non_negative (f ''claimGeneration'') ''expectedTarget.claimGeneration'') (\<lambda>c.
      rbind (require_non_negative (f ''reviewGeneration'') ''expectedTarget.reviewGeneration'') (\<lambda>g.
      rbind (type_invariant (a = tid) ''expectedTarget.itemId must match targetItemId'') (\<lambda>_.
        Inr \<lparr>expected_item = a, expected_status = s, expected_claims = c, expected_reviews = g\<rparr>)))))))"

definition assert_expected_target :: "item \<Rightarrow> expected_target \<Rightarrow> unit res" where
  "assert_expected_target i e =
     type_invariant (item_id i = expected_item e \<and> item_status_text (item_status i) = expected_status e \<and>
         claim_generation i = expected_claims e \<and> review_generation i = expected_reviews e)
       (board_item_text (item_id i) ''lifecycle state changed before work graph extension'')"

text \<open>The same two functions serve \<open>submitWithRequiredReviews\<close> in \<open>application-orchestrator.js\<close>.\<close>

definition normalize_pm_requirement :: "nat \<Rightarrow> json \<Rightarrow> requirement res" where
  "normalize_pm_requirement n raw =
     (let at = indexed ''reviewRequirements'' n; f = opt_member (Some raw) in
      rbind (type_invariant (is_plain raw) (at @ '' must be an object'')) (\<lambda>_.
      rbind (type_invariant (f ''source'' = Some (JStr ''PM'')) (at @ ''.source must be PM'')) (\<lambda>_.
      rbind (text_of (f ''key'') (at @ ''.key'')) (\<lambda>k.
      rbind (text_of (f ''reason'') (at @ ''.reason'')) (\<lambda>why.
        Inr \<lparr>req_key = k, req_source = PM, req_reason = why\<rparr>)))))"

definition normalize_review_requirements :: "jsval \<Rightarrow> requirement list res" where
  "normalize_review_requirements v =
     (case or_default v (JArr []) of
        JArr raws \<Rightarrow> map_indexed normalize_pm_requirement raws
      | _ \<Rightarrow> Inl (TypeFault ''reviewRequirements must be an array''))"

fun add_review_requirements :: "requirement list \<Rightarrow> item \<Rightarrow> item res" where
  "add_review_requirements [] i = Inr i"
| "add_review_requirements (q # qs) i =
     (case requirement_for i (req_key q) of
        None \<Rightarrow> add_review_requirements qs (i\<lparr>requirements := requirements i @ [q]\<rparr>)
      | Some old \<Rightarrow>
          rbind (type_invariant (req_source old = req_source q) (''review requirement '' @ req_key q @ '' changed source'')) (\<lambda>_.
          rbind (type_invariant (req_reason old = req_reason q) (''review requirement '' @ req_key q @ '' changed reason'')) (\<lambda>_.
            add_review_requirements qs i)))"

record extension =
  ext_target :: string
  ext_expected :: expected_target
  ext_items :: "item list"
  ext_edges :: "dependency_edge list"
  ext_artifacts :: "string list"
  ext_evidence :: "string list"
  ext_blockers :: "string list"
  ext_requirements :: "requirement list"

definition normalize_extension ::
  "jsval \<Rightarrow> jsval \<Rightarrow> jsval \<Rightarrow> jsval \<Rightarrow> jsval \<Rightarrow> jsval \<Rightarrow> jsval \<Rightarrow> jsval \<Rightarrow> extension res" where
  "normalize_extension tid expected new_items raw_edges artifacts evidence blocked required =
     rbind (text_of tid ''targetItemId'') (\<lambda>t.
     rbind (normalize_expected_target expected t) (\<lambda>e.
     rbind (case arg_or new_items (JArr []) of JArr vs \<Rightarrow> Inr vs | _ \<Rightarrow> Inl (TypeFault ''newItems must be an array'')) (\<lambda>raws.
     rbind (normalize_dependency_edges raw_edges) (\<lambda>es.
     rbind (text_array artifacts ''artifactRefs'') (\<lambda>as.
     rbind (text_array evidence ''evidenceRefs'') (\<lambda>vs.
     rbind (text_array blocked ''blockers'') (\<lambda>bs.
     rbind (normalize_review_requirements required) (\<lambda>qs.
     rbind (map_indexed normalize_fresh_work raws) (\<lambda>items.
     rbind (type_invariant (t \<notin> set (map item_id items)) (''newItems cannot replace target item '' @ t)) (\<lambda>_.
     rbind (type_invariant (distinct (map item_id items)) ''newItems cannot contain duplicate ids'') (\<lambda>_.
       Inr \<lparr>ext_target = t, ext_expected = e, ext_items = items, ext_edges = es, ext_artifacts = as, ext_evidence = vs,
            ext_blockers = bs, ext_requirements = qs\<rparr>)))))))))))"

subsection \<open>Applying an extension\<close>

text \<open>
  The code mutates the items of the snapshot in place, and keeps a reference to the target
  while it adds edges; \<open>extend_mutator\<close> looks the target up again instead.
\<close>

text \<open>The board and the ids of the items created.\<close>

fun add_fresh_items :: "item list \<Rightarrow> item list \<Rightarrow> string list \<Rightarrow> (item list \<times> string list) res" where
  "add_fresh_items [] board created = Inr (board, created)"
| "add_fresh_items (p # ps) board created =
     (case find (\<lambda>i. item_id i = item_id p) board of
        Some old \<Rightarrow>
          rbind (type_invariant (same_fresh_work old p)
                   (''Blackboard work graph extension conflicts with existing item '' @ item_id p)) (\<lambda>_.
            add_fresh_items ps board created)
      | None \<Rightarrow> add_fresh_items ps (board @ [p]) (created @ [item_id p]))"

fun add_edges :: "string \<Rightarrow> string list \<Rightarrow> dependency_edge list \<Rightarrow> item list \<Rightarrow> item list res" where
  "add_edges tid ext_ids [] board = Inr board"
| "add_edges tid ext_ids (e # es) board =
     rbind (type_invariant (edge_item e = tid \<or> edge_item e \<in> set ext_ids)
              (''Blackboard work graph extension cannot rewrite unrelated item '' @ edge_item e)) (\<lambda>_.
     rbind (find_item board (edge_item e)) (\<lambda>i.
     rbind (find_item board (edge_dependency e)) (\<lambda>_.
     rbind (type_invariant (edge_item e \<noteq> edge_dependency e)
              (''Blackboard dependency cannot self-reference: '' @ edge_item e)) (\<lambda>_.
     rbind (type_invariant (item_status i \<in> graph_extension_status)
              (board_item_text (edge_item e) (''cannot add a dependency from '' @ item_status_text (item_status i)))) (\<lambda>_.
       add_edges tid ext_ids es (put_item (i\<lparr>depends_on := add_unique (depends_on i) [edge_dependency e]\<rparr>) board))))))"

text \<open>The references, reviews, status and blockers of the target.\<close>

definition extend_target :: "extension \<Rightarrow> item \<Rightarrow> item res" where
  "extend_target x t =
     rbind (add_review_requirements (ext_requirements x)
              (t\<lparr>artifact_refs := add_unique (artifact_refs t) (ext_artifacts x),
                 evidence_refs := add_unique (evidence_refs t) (ext_evidence x)\<rparr>)) (\<lambda>t1.
     let t2 = (if ext_requirements x \<noteq> [] \<and> submission t1 \<noteq> None \<and> item_status t1 \<noteq> BLOCKED \<and> blockers t1 = [] \<and> ext_blockers x = []
               then t1\<lparr>item_status := PENDING_REVIEW\<rparr> else t1)
     in Inr (if ext_blockers x \<noteq> []
             then t2\<lparr>blockers := add_unique (blockers t2) (ext_blockers x), item_owner := None, item_status := BLOCKED\<rparr> else t2))"

fun brief_issue :: "dependency_issue \<Rightarrow> string" where
  "brief_issue (Self_Dependency a b) = ''SELF_DEPENDENCY '' @ a @ '' -> '' @ b"
| "brief_issue (Dangling_Dependency a b) = ''DANGLING_DEPENDENCY '' @ a @ '' -> '' @ b"
| "brief_issue (Cyclic_Dependency a b cs) = ''CYCLIC_DEPENDENCY '' @ a @ '' -> '' @ b"

definition assert_valid_graph :: "item list \<Rightarrow> unit res" where
  "assert_valid_graph board =
     rbind (diagnose (Some (snapshot_json board))) (\<lambda>issues.
       type_invariant (issues = []) (''Blackboard dependency graph invalid after extension: '' @ join ''; '' (map brief_issue issues)))"

definition edge_json :: "dependency_edge \<Rightarrow> json" where
  "edge_json e = JObj [(''itemId'', JStr (edge_item e)), (''dependencyId'', JStr (edge_dependency e))]"

definition extend_mutator :: "extension \<Rightarrow> mutator" where
  "extend_mutator x board =
     rbind (find_item board (ext_target x)) (\<lambda>t.
     rbind (assert_expected_target t (ext_expected x)) (\<lambda>_.
     rbind (type_invariant (item_status t \<in> graph_extension_status)
              (board_item_text (ext_target x) (''cannot extend its work graph from '' @ item_status_text (item_status t)))) (\<lambda>_.
     rbind (add_fresh_items (ext_items x) board []) (\<lambda>(b1, created).
     rbind (add_edges (ext_target x) (map item_id (ext_items x)) (ext_edges x) b1) (\<lambda>b2.
     rbind (find_item b2 (ext_target x)) (\<lambda>t1.
     rbind (extend_target x t1) (\<lambda>t2.
     let b3 = put_item t2 b2 in
     rbind (assert_valid_graph b3) (\<lambda>_.
       Inr (b3, JObj [(''target'', item_json t2), (''createdItemIds'', texts created),
                      (''dependencyEdges'', JArr (map edge_json (ext_edges x))),
                      (''reviewRequirementKeys'', texts (map req_key (ext_requirements x)))])))))))))"

definition extend_work_graph :: "'s board_store \<Rightarrow> extension res \<Rightarrow> 's \<Rightarrow> 's \<times> (item list \<times> json) res" where
  "extend_work_graph S x s =
     (case x of
        Inl e \<Rightarrow> (s, Inl e)
      | Inr x \<Rightarrow> transact_board (guard_terminal_cancellation S) s (extend_mutator x))"

subsection \<open>What an extension keeps\<close>

text \<open>Distinct ids, claim generations that only rise, and sound items.\<close>

definition board_kept :: "item list \<Rightarrow> item list \<Rightarrow> bool" where
  "board_kept b b' \<longleftrightarrow> (distinct (map item_id b) \<longrightarrow>
     distinct (map item_id b') \<and> generations_rise b b' \<and> (sound_board b \<longrightarrow> sound_board b'))"

lemma board_kept_refl: "board_kept b b"
  by (auto simp: board_kept_def generations_rise_def)

lemma board_kept_trans: "board_kept a b \<Longrightarrow> board_kept b c \<Longrightarrow> board_kept a c"
  unfolding board_kept_def using generations_rise_trans by blast

lemma board_kept_put:
  assumes "find_item b iid = Inr i" "item_id i' = item_id i" "claim_generation i \<le> claim_generation i'"
    "sound_item i \<longrightarrow> sound_item i'"
  shows "board_kept b (put_item i' b)"
  unfolding board_kept_def
proof (intro conjI impI)
  assume ids: "distinct (map item_id b)"
  have i: "i \<in> set b" using find_item_Inr [OF assms(1)] by simp
  show "distinct (map item_id (put_item i' b))" using ids assms(2) by (simp add: put_item_same_ids)
  show "generations_rise b (put_item i' b)" using generations_rise_put [OF ids i assms(2,3), of "[]"] by simp
  assume "sound_board b"
  with i assms(4) show "sound_board (put_item i' b)" by (intro sound_board_edit) (auto simp: sound_board_def)
qed

lemma board_kept_add:
  assumes "item_id p \<notin> item_id ` set b" "sound_item p"
  shows "board_kept b (b @ [p])"
  using assms by (auto simp: board_kept_def generations_rise_def sound_board_def)

lemma find_item_None: "find (\<lambda>i. item_id i = k) b = None \<longleftrightarrow> k \<notin> item_id ` set b"
  by (auto simp: find_None_iff)

lemma normalize_fresh_work_fresh:
  assumes "normalize_fresh_work n raw = Inr i"
  shows "fresh_item i \<and> claim_generation i = 0"
  using assms unfolding normalize_fresh_work_def fresh_item_def Let_def
  by (cases raw) (simp_all, blast)

lemma normalize_extension_fresh:
  assumes "normalize_extension tid expected new_items raw_edges artifacts evidence blocked required = Inr x"
  shows "\<forall>p \<in> set (ext_items x). fresh_item p"
  using assms unfolding normalize_extension_def rbind_Inr_iff
  by (auto dest!: map_indexed_set simp: normalize_fresh_work_fresh)

lemma add_fresh_items_kept:
  "add_fresh_items ps b created = Inr (b', made) \<Longrightarrow> \<forall>p \<in> set ps. fresh_item p \<Longrightarrow> board_kept b b'"
proof (induction ps b created rule: add_fresh_items.induct)
  case (2 p ps b created)
  show ?case
  proof (cases "find (\<lambda>i. item_id i = item_id p) b")
    case None
    then have "board_kept b (b @ [p])"
      using 2(4) by (intro board_kept_add) (auto simp: find_item_None intro: fresh_item_sound)
    moreover have "board_kept (b @ [p]) b'" using 2(1) [OF None] 2(3,4) None by simp
    ultimately show ?thesis by (rule board_kept_trans)
  next
    case (Some old)
    with 2(2) [OF Some] 2(3,4) show ?thesis by auto
  qed
qed (simp add: board_kept_refl)

lemma sound_frame_fields [simp]:
  "sound_item (i\<lparr>depends_on := ds\<rparr>) = sound_item i"
  by (simp add: sound_parts item_facts)

lemma add_edges_kept: "add_edges tid ext_ids es b = Inr b' \<Longrightarrow> board_kept b b'"
proof (induction es arbitrary: b)
  case (Cons e es)
  from Cons.prems obtain i where i: "find_item b (edge_item e) = Inr i"
    and rest: "add_edges tid ext_ids es (put_item (i\<lparr>depends_on := add_unique (depends_on i) [edge_dependency e]\<rparr>) b) = Inr b'"
    by auto
  have "board_kept b (put_item (i\<lparr>depends_on := add_unique (depends_on i) [edge_dependency e]\<rparr>) b)"
    by (rule board_kept_put [OF i]) simp_all
  with Cons.IH [OF rest] show ?case by (blast intro: board_kept_trans)
qed (simp add: board_kept_refl)

lemma add_review_requirements_result:
  "add_review_requirements qs i = Inr j \<Longrightarrow> \<exists>rs. j = i\<lparr>requirements := rs\<rparr> \<and> (\<forall>q \<in> set rs. q \<in> set (requirements i) \<or> q \<in> set qs)"
proof (induction qs arbitrary: i)
  case Nil
  then show ?case by (intro exI [of _ "requirements i"]) simp
next
  case (Cons q qs)
  show ?case
  proof (cases "requirement_for i (req_key q)")
    case None
    with Cons.prems Cons.IH [of "i\<lparr>requirements := requirements i @ [q]\<rparr>"] show ?thesis by auto
  next
    case (Some old)
    with Cons.prems Cons.IH [of i] show ?thesis by auto
  qed
qed

lemma extend_target_result:
  assumes "extend_target x t = Inr t'"
  obtains rs bs where "t' = t\<lparr>artifact_refs := add_unique (artifact_refs t) (ext_artifacts x),
      evidence_refs := add_unique (evidence_refs t) (ext_evidence x), requirements := rs, blockers := bs,
      item_owner := (if ext_blockers x \<noteq> [] then None else item_owner t),
      item_status := (if ext_blockers x \<noteq> [] then BLOCKED
        else if ext_requirements x \<noteq> [] \<and> submission t \<noteq> None \<and> item_status t \<noteq> BLOCKED \<and> blockers t = [] then PENDING_REVIEW
        else item_status t)\<rparr>"
proof -
  let ?t = "t\<lparr>artifact_refs := add_unique (artifact_refs t) (ext_artifacts x), evidence_refs := add_unique (evidence_refs t) (ext_evidence x)\<rparr>"
  from assms obtain t1 where t1: "add_review_requirements (ext_requirements x) ?t = Inr t1"
    by (auto simp: extend_target_def)
  obtain rs where "t1 = ?t\<lparr>requirements := rs\<rparr>" using add_review_requirements_result [OF t1] by blast
  with assms t1 that [of "if ext_blockers x \<noteq> [] then add_unique (blockers t) (ext_blockers x) else blockers t" rs]
  show ?thesis by (cases "ext_blockers x = []") (auto simp: extend_target_def Let_def split: if_splits)
qed

lemma extend_target_sound:
  assumes "extend_target x t = Inr t'" "sound_item t" "item_status t \<in> graph_extension_status"
  shows "sound_item t'"
proof -
  have t: "active t = None" "\<not> has_pending_findings t" "item_owner t = None"
    using sound_status [OF assms(2)] assms(3) by (auto simp: graph_extension_status_def)
  show ?thesis
    by (rule extend_target_result [OF assms(1)])
      (use t assms(3) in \<open>intro sound_frame [OF assms(2)]; auto simp: graph_extension_status_def split: if_splits\<close>)
qed

lemma find_item_Inr_iff: "find_item b k = Inr i \<longleftrightarrow> find (\<lambda>m. item_id m = k) b = Some i"
  by (auto simp: find_item_def split: option.splits)

lemma find_item_put:
  assumes "find_item b k = Inr i"
  shows "find_item (put_item q b) k = Inr (if item_id q = k then q else i)"
proof -
  have "find (\<lambda>m. item_id m = k) b = Some i \<Longrightarrow>
      find (\<lambda>m. item_id m = k) (put_item q b) = Some (if item_id q = k then q else i)"
    by (induction b) (auto simp: put_item_def split: if_splits)
  with assms show ?thesis by (simp add: find_item_Inr_iff)
qed

lemma add_edges_status:
  "add_edges tid ext_ids es b = Inr b' \<Longrightarrow> find_item b k = Inr i \<Longrightarrow>
     \<exists>ds. find_item b' k = Inr (i\<lparr>depends_on := ds\<rparr>)"
proof (induction es arbitrary: b i)
  case Nil
  then show ?case by (intro exI [of _ "depends_on i"]) simp
next
  case (Cons e es)
  from Cons.prems(1) obtain j where j: "find_item b (edge_item e) = Inr j"
    and rest: "add_edges tid ext_ids es (put_item (j\<lparr>depends_on := add_unique (depends_on j) [edge_dependency e]\<rparr>) b) = Inr b'"
    by auto
  let ?j = "j\<lparr>depends_on := add_unique (depends_on j) [edge_dependency e]\<rparr>"
  have "\<exists>ds. find_item (put_item ?j b) k = Inr (i\<lparr>depends_on := ds\<rparr>)"
  proof (cases "k = edge_item e")
    case True
    with j Cons.prems(2) have "j = i" "item_id j = k" by (auto dest: find_item_Inr)
    with find_item_put [OF Cons.prems(2), of ?j] show ?thesis by auto
  next
    case False
    with find_item_put [OF Cons.prems(2), of ?j] find_item_Inr [OF j] show ?thesis
      by (intro exI [of _ "depends_on i"]) simp
  qed
  then obtain ds where "find_item (put_item ?j b) k = Inr (i\<lparr>depends_on := ds\<rparr>)" by blast
  from Cons.IH [OF rest this] show ?case by simp
qed

lemma find_snoc: "find p xs = Some x \<Longrightarrow> find p (xs @ ys) = Some x"
  by (induction xs) (auto split: if_splits)

lemma add_fresh_items_finds:
  "add_fresh_items ps b created = Inr (b', made) \<Longrightarrow> find_item b k = Inr i \<Longrightarrow> find_item b' k = Inr i"
  unfolding find_item_Inr_iff
  by (induction ps b created rule: add_fresh_items.induct) (auto simp: find_snoc split: option.splits)

text \<open>The steps of a successful extension.\<close>

lemma extend_result:
  assumes "extend_mutator x board = Inr (b', r)"
  obtains t b1 made b2 ds t2 where
    "find_item board (ext_target x) = Inr t" "item_status t \<in> graph_extension_status"
    "add_fresh_items (ext_items x) board [] = Inr (b1, made)"
    "add_edges (ext_target x) (map item_id (ext_items x)) (ext_edges x) b1 = Inr b2"
    "find_item b2 (ext_target x) = Inr (t\<lparr>depends_on := ds\<rparr>)" "extend_target x (t\<lparr>depends_on := ds\<rparr>) = Inr t2"
    "b' = put_item t2 b2" "diagnose (Some (snapshot_json b')) = Inr []"
proof -
  from assms obtain t b1 made b2 t1 t2 where t: "find_item board (ext_target x) = Inr t" "item_status t \<in> graph_extension_status"
    and b: "add_fresh_items (ext_items x) board [] = Inr (b1, made)"
      "add_edges (ext_target x) (map item_id (ext_items x)) (ext_edges x) b1 = Inr b2"
    and t1: "find_item b2 (ext_target x) = Inr t1" "extend_target x t1 = Inr t2" "b' = put_item t2 b2"
    and ok: "assert_valid_graph b' = Inr ()"
    unfolding extend_mutator_def rbind_Inr_iff Let_def by (auto split: prod.splits)
  obtain ds where "find_item b2 (ext_target x) = Inr (t\<lparr>depends_on := ds\<rparr>)"
    using add_edges_status [OF b(2) add_fresh_items_finds [OF b(1) t(1)]] by blast
  with t1 have "t1 = t\<lparr>depends_on := ds\<rparr>" by simp
  moreover have "diagnose (Some (snapshot_json b')) = Inr []" using ok by (auto simp: assert_valid_graph_def)
  ultimately show ?thesis using that [OF t b _ _ t1(3)] t1(1,2) by simp
qed

lemma extend_mutator_kept:
  assumes "extend_mutator x board = Inr (b', r)" "\<forall>p \<in> set (ext_items x). fresh_item p"
  shows "board_kept board b'"
proof (rule extend_result [OF assms(1)])
  fix t b1 made b2 ds t2
  assume t: "item_status t \<in> graph_extension_status" and b1: "add_fresh_items (ext_items x) board [] = Inr (b1, made)"
    and b2: "add_edges (ext_target x) (map item_id (ext_items x)) (ext_edges x) b1 = Inr b2"
    and t1: "find_item b2 (ext_target x) = Inr (t\<lparr>depends_on := ds\<rparr>)" and t2: "extend_target x (t\<lparr>depends_on := ds\<rparr>) = Inr t2"
    and b': "b' = put_item t2 b2"
  have "sound_item (t\<lparr>depends_on := ds\<rparr>) \<longrightarrow> sound_item t2" using extend_target_sound [OF t2] t by simp
  moreover have "item_id t2 = item_id t" "claim_generation t2 = claim_generation t"
    by (rule extend_target_result [OF t2], simp)+
  ultimately have "board_kept b2 b'" unfolding b' by (intro board_kept_put [OF t1]) simp_all
  with add_fresh_items_kept [OF b1 assms(2)] add_edges_kept [OF b2] show ?thesis by (blast intro: board_kept_trans)
qed

text \<open>Every other item is as it was, and the saved graph is valid.\<close>

lemma add_fresh_items_members:
  "add_fresh_items ps b created = Inr (b', made) \<Longrightarrow> i \<in> set b \<Longrightarrow> i \<in> set b'"
  by (induction ps b created rule: add_fresh_items.induct) (auto split: option.splits)

lemma add_edges_members:
  "add_edges tid ext_ids es b = Inr b' \<Longrightarrow> i \<in> set b \<Longrightarrow> item_id i \<noteq> tid \<Longrightarrow> item_id i \<notin> set ext_ids \<Longrightarrow> i \<in> set b'"
proof (induction es arbitrary: b)
  case (Cons e es)
  from Cons.prems(1) obtain j where j: "find_item b (edge_item e) = Inr j" "edge_item e = tid \<or> edge_item e \<in> set ext_ids"
    and rest: "add_edges tid ext_ids es (put_item (j\<lparr>depends_on := add_unique (depends_on j) [edge_dependency e]\<rparr>) b) = Inr b'"
    by auto
  let ?j = "j\<lparr>depends_on := add_unique (depends_on j) [edge_dependency e]\<rparr>"
  have "item_id i \<noteq> item_id ?j" using find_item_Inr [OF j(1)] j(2) Cons.prems(3,4) by auto
  then have "i \<in> set (put_item ?j b)" using put_item_member [OF Cons.prems(2), of ?j] by simp
  then show ?case by (rule Cons.IH [OF rest _ Cons.prems(3,4)])
qed simp

lemma extend_unrelated:
  assumes "extend_mutator x board = Inr (b', r)" "i \<in> set board" "item_id i \<noteq> ext_target x"
    "item_id i \<notin> set (map item_id (ext_items x))"
  shows "i \<in> set b'"
proof (rule extend_result [OF assms(1)])
  fix t b1 made b2 ds t2
  assume t: "find_item board (ext_target x) = Inr t" and b1: "add_fresh_items (ext_items x) board [] = Inr (b1, made)"
    and b2: "add_edges (ext_target x) (map item_id (ext_items x)) (ext_edges x) b1 = Inr b2"
    and t2: "extend_target x (t\<lparr>depends_on := ds\<rparr>) = Inr t2" and b': "b' = put_item t2 b2"
  have "i \<in> set b2" by (rule add_edges_members [OF b2 add_fresh_items_members [OF b1 assms(2)] assms(3,4)])
  moreover have "item_id t2 = ext_target x" by (rule extend_target_result [OF t2]) (simp add: find_item_Inr [OF t])
  ultimately show "i \<in> set b'" using put_item_member [of i b2 t2] assms(3) by (simp add: b')
qed

lemma extend_graph:
  assumes "apply_mutator (extend_mutator x) board = Inr (saved, r)"
  shows "closed_graph saved" "acyclic (depends saved)"
proof -
  from assms obtain b' where e: "extend_mutator x board = Inr (b', r)"
    and d: "define_snapshot (Some (snapshot_json b')) = Inr saved"
    by (auto simp: apply_mutator_def)
  have "diagnose (Some (snapshot_json b')) = Inr []" by (rule extend_result [OF e])
  with d have "dependency_issues saved = []" by (simp add: diagnose_def)
  with define_snapshot_wf [OF d] dependency_issues_Nil [of saved] show "closed_graph saved" "acyclic (depends saved)"
    by (simp_all add: wf_snapshot_def)
qed

end
