(* ===== verification/Blackboard_Store.thy ===== *)
theory Blackboard_Store
  imports Blackboard_Graph "HOL-Library.Sublist"
begin

section \<open>The blackboard store: a chain of immutable commits\<close>

text \<open>
  \<open>packages/agentic-system/src/blackboard-store.js\<close>.  A board is a root document and a chain
  of commit files; the file for revision \<open>t\<close> is created by an exclusive hard link and names the
  next revision, so a revision has at most one successor and nothing committed is rewritten.
  The disk is a record with one field per family of files; \<open>None\<close> in a \<open>doc\<close> is text
  \<open>JSON.parse\<close> rejects.  Temporary files have fresh random names and are left out.  A function
  argument \<open>env\<close> is what other processes do at that point.  Because committed files never
  change, walking the chain file by file gives what an atomic read at the moment of the last
  lookup would give, so a load is one step here.
\<close>

subsection \<open>Serialisation\<close>

text \<open>\<open>JSON.stringify(v, null, 2)\<close>.\<close>

fun pretty :: "string \<Rightarrow> json \<Rightarrow> string" where
  "pretty ind (JArr vs) =
     (if vs = [] then ''[]''
      else ''['' @ [CHR 0x0A] @ join ('','' @ [CHR 0x0A]) (map (\<lambda>v. ind @ ''  '' @ pretty (ind @ ''  '') v) vs) @ [CHR 0x0A] @ ind @ '']'')"
| "pretty ind (JObj kvs) =
     (if kvs = [] then ''{}''
      else ''{'' @ [CHR 0x0A] @
           join ('','' @ [CHR 0x0A]) (map (\<lambda>kv. ind @ ''  '' @ quote (fst kv) @ '': '' @ pretty (ind @ ''  '') (snd kv)) kvs) @
           [CHR 0x0A] @ ind @ ''}'')"
| "pretty ind v = render v"

definition serialize_snapshot :: "item list \<Rightarrow> string res" where
  "serialize_snapshot board =
     rbind (define_snapshot (Some (snapshot_json board))) (\<lambda>b. Inr (pretty '''' (snapshot_json b) @ [CHR 0x0A]))"

definition snapshot_digest :: "platform \<Rightarrow> item list \<Rightarrow> string res" where
  "snapshot_digest P board = map_sum id (sha256_hex P) (serialize_snapshot board)"

subsection \<open>The disk\<close>

type_synonym doc = "json option"

record board_disk =
  root_file :: "doc option"
  commit_files :: "(string \<times> doc) list"
  projection_file :: "doc option"
  fence_file :: "doc option"

definition root_path :: "string \<Rightarrow> string" where
  "root_path dir = dir @ ''.root''"

definition commit_path :: "string \<Rightarrow> string \<Rightarrow> string" where
  "commit_path dir token = dir @ ''.commit-'' @ token"

definition parse_snapshot :: "doc \<Rightarrow> string \<Rightarrow> item list res" where
  "parse_snapshot doc source =
     (case doc of
        None \<Rightarrow> Inl (Invariant (''Blackboard store contains invalid snapshot at '' @ source))
      | Some v \<Rightarrow>
          (case define_snapshot (Some v) of
             Inl _ \<Rightarrow> Inl (Invariant (''Blackboard store contains invalid snapshot at '' @ source))
           | Inr board \<Rightarrow> Inr board))"

record commit_record =
  base_token :: string
  base_digest :: string
  next_token :: string
  commit_snapshot :: "item list"

definition define_commit_record :: "jsval \<Rightarrow> string \<Rightarrow> commit_record res" where
  "define_commit_record raw source =
     (let f = opt_member raw in
      rbind (type_invariant (case raw of Some (JObj _) \<Rightarrow> True | _ \<Rightarrow> False) (''Blackboard commit record is invalid at '' @ source)) (\<lambda>_.
      rbind (type_invariant (f ''version'' = Some (JNum 1)) (''Blackboard commit record version is invalid at '' @ source)) (\<lambda>_.
      rbind (text_of (f ''baseToken'') (''Blackboard commit baseToken at '' @ source)) (\<lambda>base.
      rbind (text_of (f ''baseDigest'') (''Blackboard commit baseDigest at '' @ source)) (\<lambda>dig.
      rbind (text_of (f ''nextToken'') (''Blackboard commit nextToken at '' @ source)) (\<lambda>succ.
      rbind (type_invariant (succ \<noteq> base) (''Blackboard commit record cannot point to its own revision at '' @ source)) (\<lambda>_.
      rbind (define_snapshot (f ''snapshot'')) (\<lambda>board.
        Inr \<lparr>base_token = base, base_digest = dig, next_token = succ, commit_snapshot = board\<rparr>))))))))"

definition commit_json :: "commit_record \<Rightarrow> json" where
  "commit_json c = JObj [(''version'', JNum 1), (''baseToken'', JStr (base_token c)), (''baseDigest'', JStr (base_digest c)),
     (''nextToken'', JStr (next_token c)), (''snapshot'', snapshot_json (commit_snapshot c))]"

text \<open>\<open>error?.message?.includes(source)\<close>, for the errors validation throws.\<close>

definition message_includes :: "error \<Rightarrow> string \<Rightarrow> bool" where
  "message_includes e s = (case e of TypeFault m \<Rightarrow> list_ex (\<lambda>u. take (length s) u = s) (suffixes m) | _ \<Rightarrow> False)"

definition parse_commit_record :: "doc \<Rightarrow> string \<Rightarrow> commit_record res" where
  "parse_commit_record doc source =
     (let wrapped = Invariant (''Blackboard store contains invalid commit record at '' @ source) in
      case doc of
        None \<Rightarrow> Inl wrapped
      | Some v \<Rightarrow>
          (case define_commit_record (Some v) source of
             Inl e \<Rightarrow> Inl (if message_includes e source then e else wrapped)
           | Inr c \<Rightarrow> Inr c))"

subsection \<open>The root and the chain\<close>

definition read_legacy_projection :: "string \<Rightarrow> board_disk \<Rightarrow> item list res" where
  "read_legacy_projection dir d =
     (case projection_file d of None \<Rightarrow> Inr [] | Some doc \<Rightarrow> parse_snapshot doc dir)"

definition read_root :: "string \<Rightarrow> board_disk \<Rightarrow> item list res" where
  "read_root dir d =
     (case root_file d of
        None \<Rightarrow> Inl (Invariant (''ENOENT: '' @ root_path dir))
      | Some doc \<Rightarrow> parse_snapshot doc (root_path dir))"

text \<open>An exclusive link: the first writer's document stays.\<close>

definition link_root :: "item list \<Rightarrow> board_disk \<Rightarrow> board_disk" where
  "link_root initial d = (if root_file d = None then d\<lparr>root_file := Some (Some (snapshot_json initial))\<rparr> else d)"

definition ensure_root :: "string \<Rightarrow> (board_disk \<Rightarrow> board_disk) \<Rightarrow> board_disk \<Rightarrow> board_disk \<times> item list res" where
  "ensure_root dir env d =
     (case root_file d of
        Some doc \<Rightarrow> (d, parse_snapshot doc (root_path dir))
      | None \<Rightarrow>
          (case read_legacy_projection dir d of
             Inl e \<Rightarrow> (d, Inl e)
           | Inr initial \<Rightarrow> let d' = link_root initial (env d) in (d', read_root dir d')))"

type_synonym head = "string \<times> item list"

definition read_committed_successor :: "platform \<Rightarrow> string \<Rightarrow> board_disk \<Rightarrow> head \<Rightarrow> commit_record option res" where
  "read_committed_successor P dir d h =
     (case map_of (commit_files d) (fst h) of
        None \<Rightarrow> Inr None
      | Some doc \<Rightarrow>
          rbind (parse_commit_record doc (commit_path dir (fst h))) (\<lambda>c.
          rbind (type_invariant (base_token c = fst h) (''Blackboard commit base revision does not match '' @ fst h)) (\<lambda>_.
          rbind (snapshot_digest P (snd h)) (\<lambda>dig.
          rbind (type_invariant (base_digest c = dig) (''Blackboard commit base digest does not match revision '' @ fst h)) (\<lambda>_.
            Inr (Some c))))))"

lemma read_committed_successor_key:
  "read_committed_successor P dir d h = Inr (Some c) \<Longrightarrow> fst h \<in> set (map fst (commit_files d))"
  by (force simp: read_committed_successor_def split: option.splits dest!: map_of_SomeD)

definition cycle_text :: "string \<Rightarrow> string" where
  "cycle_text t = ''Blackboard store committed revision chain contains a cycle at '' @ t"

function walk_chain :: "platform \<Rightarrow> string \<Rightarrow> board_disk \<Rightarrow> string list \<Rightarrow> head \<Rightarrow> head res" where
  "walk_chain P dir d seen h =
     (if fst h \<in> set seen then Inl (TypeFault (cycle_text (fst h)))
      else case read_committed_successor P dir d h of
        Inl e \<Rightarrow> Inl e
      | Inr None \<Rightarrow> Inr h
      | Inr (Some c) \<Rightarrow>
          if next_token c \<in> set (fst h # seen) then Inl (TypeFault (cycle_text (next_token c)))
          else walk_chain P dir d (fst h # seen) (next_token c, commit_snapshot c))"
  by pat_completeness auto
termination
proof (relation "measure (\<lambda>(P, dir, d, seen, h). card (set (map fst (commit_files d)) - set seen))", goal_cases)
  case (2 P dir d seen h r c)
  then have "read_committed_successor P dir d h = Inr (Some c)" by simp
  then have "fst h \<in> set (map fst (commit_files d)) - set seen"
    using read_committed_successor_key 2(1) by blast
  then have "card (set (map fst (commit_files d)) - set seen - {fst h}) < card (set (map fst (commit_files d)) - set seen)"
    by (intro card_Diff1_less) auto
  moreover have "set (map fst (commit_files d)) - set (fst h # seen) = set (map fst (commit_files d)) - set seen - {fst h}" by auto
  ultimately show ?case by (simp only: in_measure prod.case)
qed simp

declare walk_chain.simps [simp del]

definition load_committed_head :: "platform \<Rightarrow> string \<Rightarrow> (board_disk \<Rightarrow> board_disk) \<Rightarrow> board_disk \<Rightarrow> board_disk \<times> head res" where
  "load_committed_head P dir env d =
     (case ensure_root dir env d of (d', r) \<Rightarrow>
        (d', rbind r (\<lambda>board. walk_chain P dir d' [] (''root'', board))))"

subsection \<open>Publishing\<close>

text \<open>\<open>fs.link\<close> onto the commit file of the base revision, which fails when the file exists.\<close>

definition publish_successor :: "platform \<Rightarrow> string \<Rightarrow> string \<Rightarrow> (board_disk \<Rightarrow> board_disk) \<Rightarrow> head \<Rightarrow> item list \<Rightarrow> board_disk \<Rightarrow> board_disk \<times> bool res" where
  "publish_successor P dir token env base board d =
     (case rbind (snapshot_digest P (snd base)) (\<lambda>bd. rbind (snapshot_digest P board) (\<lambda>nd. Inr (bd, nd))) of
        Inl e \<Rightarrow> (d, Inl e)
      | Inr (bd, nd) \<Rightarrow>
          if bd = nd then (d, Inr False)
          else
            (case define_commit_record (Some (commit_json \<lparr>base_token = fst base, base_digest = bd, next_token = token, commit_snapshot = board\<rparr>))
                    (commit_path dir (fst base) @ ''.'' @ token @ ''.tmp'') of
               Inl e \<Rightarrow> (d, Inl e)
             | Inr c \<Rightarrow>
                 let d' = env d in
                 if map_of (commit_files d') (fst base) \<noteq> None
                 then (d', Inl (Invariant (''Blackboard store transaction conflict: revision '' @ fst base @ '' already has a committed successor'')))
                 else (d'\<lparr>commit_files := (fst base, Some (commit_json c)) # commit_files d'\<rparr>, Inr True)))"

text \<open>The projection for older readers, which nothing in the chain depends on.\<close>

fun refresh_projection :: "platform \<Rightarrow> string \<Rightarrow> (nat \<Rightarrow> board_disk \<Rightarrow> board_disk) \<Rightarrow> nat \<Rightarrow> board_disk \<Rightarrow> board_disk \<times> bool res" where
  "refresh_projection P dir env 0 d = (d, Inr False)"
| "refresh_projection P dir env (Suc n) d =
     (case load_committed_head P dir (\<lambda>d. d) d of
        (d1, Inl e) \<Rightarrow> (d1, Inl e)
      | (d1, Inr h) \<Rightarrow>
          (case load_committed_head P dir (\<lambda>d. d) (env n (d1\<lparr>projection_file := Some (Some (snapshot_json (snd h)))\<rparr>)) of
             (d2, Inl e) \<Rightarrow> (d2, Inl e)
           | (d2, Inr after) \<Rightarrow> if fst after = fst h then (d2, Inr True) else refresh_projection P dir env n d2))"

definition projection_attempts :: nat where
  "projection_attempts = 4"

text \<open>What others do: before the root is linked, before the commit is linked, while the projection is written.\<close>

record interference =
  at_root :: "board_disk \<Rightarrow> board_disk"
  at_commit :: "board_disk \<Rightarrow> board_disk"
  at_projection :: "nat \<Rightarrow> board_disk \<Rightarrow> board_disk"

definition chain_load :: "platform \<Rightarrow> string \<Rightarrow> interference \<Rightarrow> board_disk \<Rightarrow> board_disk \<times> item list res" where
  "chain_load P dir env d =
     (case load_committed_head P dir (at_root env) d of (d', r) \<Rightarrow> (d', map_sum id snd r))"

definition chain_transact ::
  "platform \<Rightarrow> string \<Rightarrow> string \<Rightarrow> interference \<Rightarrow> board_disk \<Rightarrow> mutator \<Rightarrow> board_disk \<times> (item list \<times> json) res" where
  "chain_transact P dir token env d mut =
     (case load_committed_head P dir (at_root env) d of
        (d1, Inl e) \<Rightarrow> (d1, Inl e)
      | (d1, Inr h) \<Rightarrow>
          (case apply_mutator mut (snd h) of
             Inl e \<Rightarrow> (d1, Inl e)
           | Inr (board, out) \<Rightarrow>
               (case publish_successor P dir token (at_commit env) h board d1 of
                  (d2, Inl e) \<Rightarrow> (d2, Inl e)
                | (d2, Inr committed) \<Rightarrow>
                    (if committed then fst (refresh_projection P dir (at_projection env) projection_attempts d2) else d2,
                     Inr (board, out)))))"

definition chain_store :: "platform \<Rightarrow> string \<Rightarrow> string \<Rightarrow> interference \<Rightarrow> board_disk board_store" where
  "chain_store P dir token env =
     \<lparr>load_board = chain_load P dir env, transact_board = chain_transact P dir token env\<rparr>"

subsection \<open>The mutation fence\<close>

definition fence_doc :: "string \<Rightarrow> doc" where
  "fence_doc token = Some (JObj [(''version'', JNum 1), (''token'', JStr token)])"

text \<open>
  One entry per attempt: the time since the first attempt, and what others did before it.  The
  result is \<open>None\<close> when the attempts given do not decide.
\<close>

fun acquire_fence :: "int \<Rightarrow> string \<Rightarrow> (int \<times> (board_disk \<Rightarrow> board_disk)) list \<Rightarrow> board_disk \<Rightarrow> (board_disk \<times> unit res) option" where
  "acquire_fence limit token [] d = None"
| "acquire_fence limit token ((elapsed, env) # polls) d =
     (let d' = env d in
      if fence_file d' = None then Some (d'\<lparr>fence_file := Some (fence_doc token)\<rparr>, Inr ())
      else if limit \<le> elapsed then Some (d', Inl (Invariant ''Blackboard store mutation fence remained held past wait limit''))
      else acquire_fence limit token polls d')"

definition release_fence :: "string \<Rightarrow> board_disk \<Rightarrow> board_disk \<times> unit res" where
  "release_fence token d =
     (case fence_file d of
        None \<Rightarrow> (d, Inl (Invariant ''Blackboard store mutation fence disappeared before release''))
      | Some None \<Rightarrow> (d, Inl (Invariant ''SyntaxError''))
      | Some (Some v) \<Rightarrow>
          if opt_member (Some v) ''version'' = Some (JNum 1) \<and> opt_member (Some v) ''token'' = Some (JStr token)
          then (d\<lparr>fence_file := None\<rparr>, Inr ())
          else (d, Inl (TypeFault ''Blackboard store mutation fence ownership changed'')))"

text \<open>An error of the release replaces the outcome of the action.\<close>

definition with_fence ::
  "int \<Rightarrow> string \<Rightarrow> (int \<times> (board_disk \<Rightarrow> board_disk)) list \<Rightarrow> (board_disk \<Rightarrow> board_disk \<times> 'a res) \<Rightarrow> board_disk
     \<Rightarrow> (board_disk \<times> 'a res) option" where
  "with_fence limit token polls action d =
     (case acquire_fence limit token polls d of
        None \<Rightarrow> None
      | Some (d1, Inl e) \<Rightarrow> Some (d1, Inl e)
      | Some (d1, Inr _) \<Rightarrow>
          (case action d1 of (d2, r) \<Rightarrow>
             (case release_fence token d2 of
                (d3, Inl e) \<Rightarrow> Some (d3, Inl e)
              | (d3, Inr _) \<Rightarrow> Some (d3, r))))"

definition with_mutation_fence ::
  "platform \<Rightarrow> string \<Rightarrow> int \<Rightarrow> string \<Rightarrow> (int \<times> (board_disk \<Rightarrow> board_disk)) list
     \<Rightarrow> (string \<Rightarrow> item list \<Rightarrow> board_disk \<Rightarrow> board_disk \<times> 'a res) \<Rightarrow> board_disk \<Rightarrow> (board_disk \<times> 'a res) option" where
  "with_mutation_fence P dir limit token polls action =
     with_fence limit token polls (\<lambda>d.
       case load_committed_head P dir (\<lambda>d. d) d of
         (d', Inl e) \<Rightarrow> (d', Inl e)
       | (d', Inr h) \<Rightarrow> action (fst h) (snd h) d')"

end
