(* ===== verification/Blackboard_Chain.thy ===== *)
theory Blackboard_Chain
  imports Blackboard_Store
begin

section \<open>The chain as a history of boards\<close>

text \<open>
  What the commit chain means: \<open>revisions P dir d hs\<close> says that the disk \<open>d\<close> holds the committed
  revisions \<open>hs\<close>, from the root to the head.  A transaction extends that history by at most
  one board, computed from the board that is the head at the moment of the commit
  (\<open>chain_transact_history\<close>); the locale \<open>board_contract\<close> states this as the contract of a
  board store, and is interpreted on the chain.
\<close>

subsection \<open>The revisions on a disk\<close>

fun links :: "platform \<Rightarrow> string \<Rightarrow> board_disk \<Rightarrow> head list \<Rightarrow> bool" where
  "links P dir d [] = False"
| "links P dir d [h] = (map_of (commit_files d) (fst h) = None)"
| "links P dir d (h # k # hs) =
     ((\<exists>c. read_committed_successor P dir d h = Inr (Some c) \<and> next_token c = fst k \<and> commit_snapshot c = snd k) \<and>
      links P dir d (k # hs))"

definition revisions :: "platform \<Rightarrow> string \<Rightarrow> board_disk \<Rightarrow> head list \<Rightarrow> bool" where
  "revisions P dir d hs \<longleftrightarrow> hs \<noteq> [] \<and> fst (hd hs) = ''root'' \<and> read_root dir d = Inr (snd (hd hs)) \<and>
     distinct (map fst hs) \<and> links P dir d hs"

lemma walk_links:
  "links P dir d (h # hs) \<Longrightarrow> distinct (map fst (h # hs)) \<Longrightarrow> set seen \<inter> set (map fst (h # hs)) = {} \<Longrightarrow>
     walk_chain P dir d seen h = Inr (last (h # hs))"
proof (induction hs arbitrary: seen h)
  case Nil
  then show ?case by (subst walk_chain.simps) (simp add: read_committed_successor_def)
next
  case (Cons k hs)
  then obtain c where c: "read_committed_successor P dir d h = Inr (Some c)" "(next_token c, commit_snapshot c) = k" by auto
  have "walk_chain P dir d (fst h # seen) k = Inr (last (k # hs))" using Cons.prems by (intro Cons.IH) auto
  moreover have "next_token c \<notin> set (fst h # seen)" "fst h \<notin> set seen" using Cons.prems c(2) by auto
  ultimately show ?case using c by (subst walk_chain.simps) simp
qed

lemma revisions_head:
  assumes "revisions P dir d hs"
  shows "load_committed_head P dir env d = (d, Inr (last hs))"
proof -
  obtain b rest where hs: "hs = (''root'', b) # rest" using assms by (cases hs) (auto simp: revisions_def)
  have root: "read_root dir d = Inr b" using assms by (simp add: revisions_def hs)
  then obtain doc where "root_file d = Some doc" "parse_snapshot doc (root_path dir) = Inr b"
    by (auto simp: read_root_def split: option.splits)
  moreover have "walk_chain P dir d [] (''root'', b) = Inr (last hs)"
    unfolding hs by (rule walk_links) (use assms in \<open>simp_all add: revisions_def hs\<close>)
  ultimately show ?thesis by (simp add: load_committed_head_def ensure_root_def)
qed

lemma define_snapshot_parse: "parse_snapshot doc source = Inr b \<Longrightarrow> wf_snapshot b"
  by (auto simp: parse_snapshot_def split: option.splits sum.splits intro: define_snapshot_wf)

lemma read_committed_wf: "read_committed_successor P dir d h = Inr (Some c) \<Longrightarrow> wf_snapshot (commit_snapshot c)"
  by (auto simp: read_committed_successor_def parse_commit_record_def define_commit_record_def Let_def
      split: option.splits sum.splits intro: define_snapshot_wf)

lemma links_wf: "links P dir d hs \<Longrightarrow> h \<in> set (tl hs) \<Longrightarrow> wf_snapshot (snd h)"
  by (induction P dir d hs rule: links.induct) (auto dest: read_committed_wf)

lemma revisions_wf: "revisions P dir d hs \<Longrightarrow> h \<in> set hs \<Longrightarrow> wf_snapshot (snd h)"
  using links_wf [of P dir d hs h]
  by (cases hs) (auto simp: revisions_def read_root_def split: option.splits dest: define_snapshot_parse)

lemma read_committed_cong:
  "map_of (commit_files d') (fst h) = map_of (commit_files d) (fst h) \<Longrightarrow>
     read_committed_successor P dir d' h = read_committed_successor P dir d h"
  by (simp add: read_committed_successor_def)

lemma links_cong:
  "\<forall>h \<in> set hs. map_of (commit_files d') (fst h) = map_of (commit_files d) (fst h) \<Longrightarrow> links P dir d' hs = links P dir d hs"
proof (induction hs)
  case (Cons h hs)
  then have "read_committed_successor P dir d' h = read_committed_successor P dir d h"
    by (intro read_committed_cong) simp
  with Cons show ?case by (cases hs) simp_all
qed simp

lemma revisions_projection [simp]: "revisions P dir (d\<lparr>projection_file := x\<rparr>) hs = revisions P dir d hs"
  using links_cong [of hs "d\<lparr>projection_file := x\<rparr>" d] by (simp add: revisions_def read_root_def)

lemma links_keys: "links P dir d hs \<Longrightarrow> h \<in> set (butlast hs) \<Longrightarrow> map_of (commit_files d) (fst h) \<noteq> None"
  by (induction P dir d hs rule: links.induct) (auto simp: read_committed_successor_def split: option.splits)

lemma links_last: "links P dir d hs \<Longrightarrow> map_of (commit_files d) (fst (last hs)) = None"
  by (induction P dir d hs rule: links.induct) auto

text \<open>A disk holds one history.\<close>

lemma read_committed_None: "map_of (commit_files d) (fst h) = None \<Longrightarrow> read_committed_successor P dir d h = Inr None"
  by (simp add: read_committed_successor_def)

lemma links_unique: "links P dir d (h # hs) \<Longrightarrow> links P dir d (h # ks) \<Longrightarrow> hs = ks"
proof (induction hs arbitrary: h ks)
  case Nil
  then show ?case by (cases ks) (auto simp: read_committed_None)
next
  case (Cons k hs)
  then obtain j js where ks: "ks = j # js" by (cases ks) (auto simp: read_committed_None)
  with Cons.prems have "j = k" by (auto simp: prod_eq_iff)
  with Cons.IH [of k js] Cons.prems ks show ?case by simp
qed

lemma revisions_unique: "revisions P dir d hs \<Longrightarrow> revisions P dir d ks \<Longrightarrow> hs = ks"
  by (cases hs; cases ks) (auto simp: revisions_def prod_eq_iff dest: links_unique)

lemma links_extend:
  assumes "links P dir d hs" "distinct (map fst hs)" "map_of (commit_files d) token = None"
    "commit_files d' = (fst (last hs), doc) # commit_files d" "token \<noteq> fst (last hs)"
    "read_committed_successor P dir d' (last hs) = Inr (Some c)" "next_token c = token"
  shows "links P dir d' (hs @ [(token, commit_snapshot c)])"
  using assms
proof (induction P dir d hs rule: links.induct)
  case (3 P dir d h k hs)
  have "fst (last (k # hs)) \<in> set (map fst (k # hs))" by (metis last_in_set list.discI list.set_map image_eqI)
  then have "fst h \<noteq> fst (last (k # hs))" using 3(3) by auto
  then have "read_committed_successor P dir d' h = read_committed_successor P dir d h"
    using 3(5) by (intro read_committed_cong) simp
  with 3 show ?case by simp
qed auto

subsection \<open>Committing\<close>

text \<open>What a commit writes is read back.\<close>

lemma define_commit_source: "define_commit_record raw source = Inr c \<Longrightarrow> define_commit_record raw source' = Inr c"
  by (simp add: define_commit_record_def Let_def)

lemma define_commit_json:
  "define_commit_record (Some (commit_json c)) source = Inr c' \<Longrightarrow> wf_snapshot (commit_snapshot c) \<Longrightarrow>
     c' = c \<and> next_token c \<noteq> base_token c"
  by (auto simp: define_commit_record_def commit_json_def Let_def snapshot_roundtrip)

lemma parse_commit_json:
  "define_commit_record (Some (commit_json c)) source = Inr c \<Longrightarrow> parse_commit_record (Some (commit_json c)) source' = Inr c"
  using define_commit_source [of "Some (commit_json c)" source c source'] by (simp add: parse_commit_record_def Let_def)

lemma apply_mutator_wf: "apply_mutator mut b = Inr (saved, out) \<Longrightarrow> wf_snapshot saved"
  by (auto simp: apply_mutator_def intro: define_snapshot_wf)

text \<open>
  Publishing on top of the head \<open>last hs\<close>: nothing is written; or the base already has a
  successor; or the new revision is the head.
\<close>

lemma publish_result:
  assumes "publish_successor P dir token env (last hs) board d = (d', r)" "wf_snapshot board"
    "revisions P dir (env d) (hs @ others)" "hs \<noteq> []" "map_of (commit_files (env d)) token = None"
  shows "d' = d \<and> r \<noteq> Inr True \<or> d' = env d \<and> (\<exists>e. r = Inl e) \<or>
    r = Inr True \<and> others = [] \<and> revisions P dir d' (hs @ [(token, board)]) \<and>
      map_of (commit_files d') = (map_of (commit_files (env d)))(fst (last hs) \<mapsto> the (map_of (commit_files d') (fst (last hs))))"
proof (cases "r = Inr True")
  case True
  let ?c = "\<lambda>bd. \<lparr>base_token = fst (last hs), base_digest = bd, next_token = token, commit_snapshot = board\<rparr>"
  from assms(1) True obtain bd c source where dig: "snapshot_digest P (snd (last hs)) = Inr bd"
    and c: "define_commit_record (Some (commit_json (?c bd))) source = Inr c"
    and free: "map_of (commit_files (env d)) (fst (last hs)) = None"
    and d': "d' = (env d)\<lparr>commit_files := (fst (last hs), Some (commit_json c)) # commit_files (env d)\<rparr>"
    by (auto simp: publish_successor_def Let_def split: sum.splits if_splits)
  from define_commit_json [OF c] assms(2) have same: "c = ?c bd" "token \<noteq> fst (last hs)" by auto
  have links: "links P dir (env d) (hs @ others)" using assms(3) by (simp add: revisions_def)
  have "others = []"
  proof (rule ccontr)
    assume "others \<noteq> []"
    then have "last hs \<in> set (butlast (hs @ others))" using assms(4) by (simp add: butlast_append)
    with links_keys [OF links] free show False by blast
  qed
  with links assms(3) have here: "links P dir (env d) hs" "distinct (map fst hs)"
    "fst (hd hs) = ''root''" "read_root dir (env d) = Inr (snd (hd hs))"
    by (auto simp: revisions_def)
  have "parse_commit_record (Some (commit_json c)) (commit_path dir (fst (last hs))) = Inr c"
    by (rule parse_commit_json) (use c same in simp)
  then have "read_committed_successor P dir d' (last hs) = Inr (Some c)"
    using dig same by (simp add: read_committed_successor_def d' type_invariant_def)
  with links_extend [OF here(1,2) assms(5)] same d' have "links P dir d' (hs @ [(token, board)])" by force
  moreover have "token \<notin> set (map fst hs)"
  proof
    assume "token \<in> set (map fst hs)"
    then obtain h where h: "h \<in> set hs" "fst h = token" by auto
    from h(1) have "h \<in> set (butlast hs @ [last hs])" using assms(4) by simp
    with same(2) h(2) have "h \<in> set (butlast hs)" by auto
    with links_keys [OF here(1), of h] h(2) assms(5) show False by simp
  qed
  ultimately have "revisions P dir d' (hs @ [(token, board)])"
    using here assms(4) by (simp add: revisions_def d' read_root_def)
  with \<open>others = []\<close> True d' show ?thesis by simp
next
  case False
  with assms(1) show ?thesis
    by (auto simp: publish_successor_def Let_def split: sum.splits if_splits)
qed

subsection \<open>Other writers\<close>

text \<open>
  What the others do to the disk extends the history by boards related by \<open>R\<close>: they commit
  through this store too, and rewrite nothing.
\<close>

definition boards :: "head list \<Rightarrow> item list list" where
  "boards hs = map snd hs"

definition extends :: "platform \<Rightarrow> string \<Rightarrow> (item list \<Rightarrow> item list \<Rightarrow> bool) \<Rightarrow> (board_disk \<Rightarrow> board_disk) \<Rightarrow> bool" where
  "extends P dir R f \<longleftrightarrow> (\<forall>d hs. revisions P dir d hs \<longrightarrow>
     (\<exists>others. revisions P dir (f d) (hs @ others) \<and> successively R (snd (last hs) # boards others)))"

definition honest :: "platform \<Rightarrow> string \<Rightarrow> (item list \<Rightarrow> item list \<Rightarrow> bool) \<Rightarrow> string \<Rightarrow> interference \<Rightarrow> bool" where
  "honest P dir R token env \<longleftrightarrow> extends P dir R (at_commit env) \<and> (\<forall>n. extends P dir R (at_projection env n)) \<and>
     (\<forall>d. map_of (commit_files d) token = None \<longrightarrow> map_of (commit_files (at_commit env d)) token = None)"

lemma extendsE:
  assumes "extends P dir R f" "revisions P dir d hs"
  obtains others where "revisions P dir (f d) (hs @ others)" "successively R (snd (last hs) # boards others)"
  using assms unfolding extends_def by blast

lemma successively_join:
  "successively R (snd (last hs) # boards xs) \<Longrightarrow> hs \<noteq> [] \<Longrightarrow> successively R (snd (last (hs @ xs)) # boards ys) \<Longrightarrow>
     successively R (snd (last hs) # boards (xs @ ys))"
  by (cases xs rule: rev_cases) (auto simp: boards_def successively_append_iff successively_Cons hd_append split: if_splits)

lemma refresh_history:
  "refresh_projection P dir env n d = (d', r) \<Longrightarrow> \<forall>k. extends P dir R (env k) \<Longrightarrow> revisions P dir d hs \<Longrightarrow>
     \<exists>others. revisions P dir d' (hs @ others) \<and> successively R (snd (last hs) # boards others)"
proof (induction n arbitrary: d hs)
  case 0
  then show ?case by (intro exI [of _ "[]"]) (simp add: boards_def)
next
  case (Suc n)
  have hs: "hs \<noteq> []" using Suc.prems(3) by (simp add: revisions_def)
  let ?d1 = "d\<lparr>projection_file := Some (Some (snapshot_json (snd (last hs))))\<rparr>"
  have "revisions P dir ?d1 hs" using Suc.prems(3) by simp
  then obtain xs where xs: "revisions P dir (env n ?d1) (hs @ xs)" "successively R (snd (last hs) # boards xs)"
    using Suc.prems(2) by (blast elim: extendsE)
  note heads = revisions_head [OF Suc.prems(3)] revisions_head [OF xs(1)]
  show ?case
  proof (cases "fst (last (hs @ xs)) = fst (last hs)")
    case True
    with Suc.prems(1) heads xs show ?thesis by auto
  next
    case False
    with Suc.prems(1) heads have "refresh_projection P dir env n (env n ?d1) = (d', r)" by simp
    from Suc.IH [OF this Suc.prems(2) xs(1)] obtain ys where
      "revisions P dir d' (hs @ xs @ ys)" "successively R (snd (last (hs @ xs)) # boards ys)" by auto
    with successively_join [OF xs(2) hs] show ?thesis by blast
  qed
qed

subsection \<open>A transaction on the chain\<close>

theorem chain_transact_history:
  assumes "revisions P dir d hs" "honest P dir R token env" "map_of (commit_files d) token = None"
    "chain_transact P dir token env d mut = (d', r)"
  shows "\<exists>extra. revisions P dir d' (hs @ extra) \<and>
     (successively R (snd (last hs) # boards extra) \<or>
      (\<exists>board out others. r = Inr (board, out) \<and> apply_mutator mut (snd (last hs)) = Inr (board, out) \<and>
         boards extra = board # others \<and> successively R (board # others)))"
    "r = Inr (board, out) \<Longrightarrow> apply_mutator mut (snd (last hs)) = Inr (board, out)"
proof -
  have hs: "hs \<noteq> []" using assms(1) by (simp add: revisions_def)
  note head = revisions_head [OF assms(1), of "at_root env"]
  show "r = Inr (board, out) \<Longrightarrow> apply_mutator mut (snd (last hs)) = Inr (board, out)"
    using assms(4) head by (auto simp: chain_transact_def split: sum.splits prod.splits)
  show "\<exists>extra. revisions P dir d' (hs @ extra) \<and>
     (successively R (snd (last hs) # boards extra) \<or>
      (\<exists>board out others. r = Inr (board, out) \<and> apply_mutator mut (snd (last hs)) = Inr (board, out) \<and>
         boards extra = board # others \<and> successively R (board # others)))"
  proof (cases "apply_mutator mut (snd (last hs))")
    case (Inl e)
    with assms(1,4) head show ?thesis by (intro exI [of _ "[]"]) (auto simp: chain_transact_def boards_def)
  next
    case (Inr saved)
    obtain board out where saved: "saved = (board, out)" by (cases saved)
    obtain d2 p where p: "publish_successor P dir token (at_commit env) (last hs) board d = (d2, p)"
      by (cases "publish_successor P dir token (at_commit env) (last hs) board d")
    obtain others where others: "revisions P dir (at_commit env d) (hs @ others)" "successively R (snd (last hs) # boards others)"
      using assms(1,2) by (auto simp: honest_def elim: extendsE)
    have unused: "map_of (commit_files (at_commit env d)) token = None" using assms(2,3) by (simp add: honest_def)
    have wf: "wf_snapshot board" using apply_mutator_wf Inr saved by simp
    show ?thesis
    proof (cases "p = Inr True")
      case False
      with assms(4) head Inr saved p have "d' = d2"
        by (auto simp: chain_transact_def split: sum.splits if_splits)
      moreover have "d2 = d \<or> d2 = at_commit env d"
        using publish_result [OF p wf others(1) hs unused] False by blast
      ultimately consider "d' = d" | "d' = at_commit env d" by blast
      then show ?thesis
      proof cases
        case 1
        with assms(1) show ?thesis by (intro exI [of _ "[]"]) (simp add: boards_def)
      next
        case 2
        with others show ?thesis by blast
      qed
    next
      case True
      then have new: "revisions P dir d2 (hs @ [(token, board)])"
        using publish_result [OF p wf others(1) hs unused] by blast
      obtain b where d': "refresh_projection P dir (at_projection env) projection_attempts d2 = (d', b)" and r: "r = Inr (board, out)"
        using assms(4) head Inr saved p True by (cases "refresh_projection P dir (at_projection env) projection_attempts d2") (auto simp: chain_transact_def)
      have "\<forall>k. extends P dir R (at_projection env k)" using assms(2) by (simp add: honest_def)
      from refresh_history [OF d' this new] obtain more_heads where
        "revisions P dir d' (hs @ (token, board) # more_heads)" "successively R (board # boards more_heads)" by auto
      with r Inr saved show ?thesis by (intro exI [of _ "(token, board) # more_heads"]) (auto simp: boards_def)
    qed
  qed
qed

subsection \<open>The contract of a board store\<close>

text \<open>
  What the orchestrator relies on: a history of boards that others extend by steps of \<open>R\<close>,
  and a transaction that adds at most one board of its own, computed from the head it found
  and committed only while that is still the head.
\<close>

definition step_mutator :: "(item list \<Rightarrow> item list \<Rightarrow> bool) \<Rightarrow> mutator \<Rightarrow> bool" where
  "step_mutator R mut \<longleftrightarrow> (\<forall>b saved out. wf_snapshot b \<and> apply_mutator mut b = Inr (saved, out) \<longrightarrow> R b saved)"

locale board_contract =
  fixes S :: "'s board_store" and history :: "'s \<Rightarrow> item list list \<Rightarrow> bool" and usable :: "'s \<Rightarrow> bool"
    and R :: "item list \<Rightarrow> item list \<Rightarrow> bool"
  assumes history_wf: "history s hs \<Longrightarrow> hs \<noteq> [] \<and> (\<forall>b \<in> set hs. wf_snapshot b)"
    and load_history: "history s hs \<Longrightarrow> load_board S s = (s, Inr (last hs))"
    and transact_history: "history s hs \<Longrightarrow> usable s \<Longrightarrow> transact_board S s mut = (s', r) \<Longrightarrow>
      \<exists>extra. history s' (hs @ extra) \<and>
        (successively R (last hs # extra) \<or>
         (\<exists>board out others. r = Inr (board, out) \<and> apply_mutator mut (last hs) = Inr (board, out) \<and>
            extra = board # others \<and> successively R (board # others)))"
    and transact_result: "history s hs \<Longrightarrow> usable s \<Longrightarrow> transact_board S s mut = (s', Inr (board, out)) \<Longrightarrow>
      apply_mutator mut (last hs) = Inr (board, out)"
begin

text \<open>If the mutator makes steps of \<open>Q\<close>, and so do the others, the history grows by steps of \<open>Q\<close>.\<close>

lemma transact_steps:
  assumes "history s hs" "usable s" "transact_board S s mut = (s', r)" "step_mutator Q mut" "R \<le> Q"
  shows "\<exists>extra. history s' (hs @ extra) \<and> successively Q (last hs # extra)"
proof -
  have wf: "wf_snapshot (last hs)" using history_wf [OF assms(1)] by simp
  have weaken: "successively Q bs" if "successively R bs" for bs
    by (rule successively_mono [OF that]) (use assms(5) in blast)
  obtain extra where extra: "history s' (hs @ extra)"
    and how: "successively R (last hs # extra) \<or>
      (\<exists>board out others. r = Inr (board, out) \<and> apply_mutator mut (last hs) = Inr (board, out) \<and>
         extra = board # others \<and> successively R (board # others))"
    using transact_history [OF assms(1-3)] by blast
  from how have "successively Q (last hs # extra)"
  proof (elim disjE exE conjE)
    fix board out others
    assume "apply_mutator mut (last hs) = Inr (board, out)" and e: "extra = board # others" "successively R (board # others)"
    then have "Q (last hs) board" using assms(4) wf unfolding step_mutator_def by blast
    with weaken [OF e(2)] e(1) show ?thesis by simp
  qed (rule weaken)
  with extra show ?thesis by blast
qed

lemma run_op_steps:
  assumes "history s hs" "usable s" "run_op S checks mut s = (s', r)" "is_ok (input_ok checks) \<longrightarrow> step_mutator Q mut" "R \<le> Q"
  shows "\<exists>extra. history s' (hs @ extra) \<and> successively Q (last hs # extra)"
proof (cases "input_ok checks")
  case (Inl e)
  with assms(1,3) show ?thesis by (intro exI [of _ "[]"]) (auto simp: run_op_def)
next
  case (Inr u)
  with assms(3,4) have "transact_board S s mut = (s', r)" "step_mutator Q mut" by (simp_all add: run_op_def)
  then show ?thesis by (rule transact_steps [OF assms(1,2) _ _ assms(5)])
qed

lemma read_blackboard_head: "history s hs \<Longrightarrow> read_blackboard S s = (s, Inr (last hs))"
  using history_wf [of s hs] by (simp add: read_blackboard_def load_history snapshot_roundtrip)

end

subsection \<open>The chain provides the contract\<close>

definition chain_history :: "platform \<Rightarrow> string \<Rightarrow> board_disk \<Rightarrow> item list list \<Rightarrow> bool" where
  "chain_history P dir d bs \<longleftrightarrow> (\<exists>hs. revisions P dir d hs \<and> bs = boards hs)"

text \<open>A transaction may run when its token is new and the others keep to the rules.\<close>

definition admissible :: "platform \<Rightarrow> string \<Rightarrow> (item list \<Rightarrow> item list \<Rightarrow> bool) \<Rightarrow> string \<Rightarrow> interference \<Rightarrow> board_disk \<Rightarrow> bool" where
  "admissible P dir R token env d \<longleftrightarrow> honest P dir R token env \<and> map_of (commit_files d) token = None"

lemma last_boards: "hs \<noteq> [] \<Longrightarrow> last (boards hs) = snd (last hs)"
  by (simp add: boards_def last_map)

lemma boards_append: "boards (xs @ ys) = boards xs @ boards ys"
  by (simp add: boards_def)

lemma chain_historyE:
  assumes "chain_history P dir d bs"
  obtains hs where "revisions P dir d hs" "bs = boards hs" "last bs = snd (last hs)"
  using assms last_boards by (auto simp: chain_history_def revisions_def)

interpretation chain: board_contract "chain_store P dir token env" "chain_history P dir" "admissible P dir R token env" R
  for P dir token env R
proof
  show "bs \<noteq> [] \<and> (\<forall>b \<in> set bs. wf_snapshot b)" if "chain_history P dir d bs" for d bs
    using that revisions_wf by (auto simp: chain_history_def boards_def revisions_def)
next
  fix d bs assume "chain_history P dir d bs"
  then show "load_board (chain_store P dir token env) d = (d, Inr (last bs))"
    by (elim chain_historyE) (simp add: chain_store_def chain_load_def revisions_head)
next
  fix d bs mut d' r
  assume "chain_history P dir d bs" and ok: "admissible P dir R token env d"
    and t: "transact_board (chain_store P dir token env) d mut = (d', r)"
  then obtain hs where hs: "revisions P dir d hs" "bs = boards hs" "last bs = snd (last hs)" by (elim chain_historyE)
  have t: "chain_transact P dir token env d mut = (d', r)" using t by (simp add: chain_store_def)
  obtain extra where "revisions P dir d' (hs @ extra)"
    "successively R (last bs # boards extra) \<or>
      (\<exists>board out others. r = Inr (board, out) \<and> apply_mutator mut (last bs) = Inr (board, out) \<and>
         boards extra = board # others \<and> successively R (board # others))"
    using chain_transact_history(1) [OF hs(1) _ _ t] ok unfolding admissible_def hs(3) by blast
  then show "\<exists>extra. chain_history P dir d' (bs @ extra) \<and>
        (successively R (last bs # extra) \<or>
         (\<exists>board out others. r = Inr (board, out) \<and> apply_mutator mut (last bs) = Inr (board, out) \<and>
            extra = board # others \<and> successively R (board # others)))"
    unfolding chain_history_def hs(2) by (metis boards_append)
next
  fix d bs mut d' board out
  assume "chain_history P dir d bs" and ok: "admissible P dir R token env d"
    and t: "transact_board (chain_store P dir token env) d mut = (d', Inr (board, out))"
  then obtain hs where hs: "revisions P dir d hs" "last bs = snd (last hs)" by (elim chain_historyE)
  from t have "chain_transact P dir token env d mut = (d', Inr (board, out))" by (simp add: chain_store_def)
  from ok have "honest P dir R token env" "map_of (commit_files d) token = None" by (simp_all add: admissible_def)
  from chain_transact_history(2) [OF hs(1) this \<open>chain_transact P dir token env d mut = _\<close> refl]
  show "apply_mutator mut (last bs) = Inr (board, out)" by (simp add: hs(2))
qed

subsection \<open>The graph check keeps the contract\<close>

definition graph_valid :: "item list \<Rightarrow> bool" where
  "graph_valid b \<longleftrightarrow> closed_graph b \<and> acyclic (depends b)"

definition valid_history :: "('s \<Rightarrow> item list list \<Rightarrow> bool) \<Rightarrow> 's \<Rightarrow> item list list \<Rightarrow> bool" where
  "valid_history history s hs \<longleftrightarrow> history s hs \<and> (\<forall>b \<in> set hs. graph_valid b)"

definition valid_step :: "(item list \<Rightarrow> item list \<Rightarrow> bool) \<Rightarrow> item list \<Rightarrow> item list \<Rightarrow> bool" where
  "valid_step R b b' \<longleftrightarrow> R b b' \<and> graph_valid b'"

lemma valid_steps: "successively (valid_step R) (b # bs) \<Longrightarrow> \<forall>c \<in> set bs. graph_valid c"
proof (induction bs arbitrary: b)
  case (Cons c bs)
  from Cons.prems have "valid_step R b c" "successively (valid_step R) (c # bs)" by simp_all
  moreover have "valid_step R b c \<longrightarrow> graph_valid c" by (simp add: valid_step_def)
  moreover note Cons.IH [of c]
  ultimately have "graph_valid c" "\<forall>c \<in> set bs. graph_valid c" by blast+
  then show ?case by simp
qed simp

lemma graph_store_contract:
  assumes "board_contract S history usable (valid_step R)"
  shows "board_contract (graph_store S) (valid_history history) usable (valid_step R)"
proof -
  note laws = board_contract.history_wf [OF assms] board_contract.load_history [OF assms]
    board_contract.transact_history [OF assms] board_contract.transact_result [OF assms]
  show ?thesis
  proof
    show "hs \<noteq> [] \<and> (\<forall>b \<in> set hs. wf_snapshot b)" if "valid_history history s hs" for s hs
      using that laws(1) [of s hs] by (simp add: valid_history_def)
  next
    fix s hs assume h: "valid_history history s hs"
    then have "hs \<noteq> []" "wf_snapshot (last hs)" "graph_valid (last hs)" using laws(1) [of s hs] by (auto simp: valid_history_def)
    then have "define_graph_snapshot (Some (snapshot_json (last hs))) = Inr (last hs)"
      by (simp add: define_graph_snapshot_Inr snapshot_roundtrip graph_valid_def)
    moreover have "load_board S s = (s, Inr (last hs))" using h laws(2) [of s hs] by (simp add: valid_history_def)
    ultimately show "load_board (graph_store S) s = (s, Inr (last hs))" by (simp add: graph_store_def)
  next
    fix s hs mut s' r
    assume h: "valid_history history s hs" and u: "usable s" and t: "transact_board (graph_store S) s mut = (s', r)"
    from t have t: "transact_board S s (graph_checked mut) = (s', r)" by (simp add: graph_store_def)
    from h have hist: "history s hs" by (simp add: valid_history_def)
    obtain extra where e: "history s' (hs @ extra)"
      and how: "successively (valid_step R) (last hs # extra) \<or>
        (\<exists>board out others. r = Inr (board, out) \<and> apply_mutator (graph_checked mut) (last hs) = Inr (board, out) \<and>
          extra = board # others \<and> successively (valid_step R) (board # others))"
      using laws(3) [OF hist u t] by blast
    from how have "\<forall>b \<in> set extra. graph_valid b"
    proof
      assume "successively (valid_step R) (last hs # extra)"
      then show ?thesis by (rule valid_steps)
    next
      assume "\<exists>board out others. r = Inr (board, out) \<and> apply_mutator (graph_checked mut) (last hs) = Inr (board, out) \<and>
          extra = board # others \<and> successively (valid_step R) (board # others)"
      then obtain board out others where b: "apply_mutator (graph_checked mut) (last hs) = Inr (board, out)"
        "extra = board # others" "successively (valid_step R) (board # others)" by blast
      have "graph_valid board" using graph_checked_valid(2,3) [OF b(1)] by (simp add: graph_valid_def)
      with valid_steps [OF b(3)] b(2) show ?thesis by simp
    qed
    with h e have "valid_history history s' (hs @ extra)" by (auto simp: valid_history_def)
    moreover have "successively (valid_step R) (last hs # extra) \<or>
         (\<exists>board out others. r = Inr (board, out) \<and> apply_mutator mut (last hs) = Inr (board, out) \<and>
            extra = board # others \<and> successively (valid_step R) (board # others))"
      using how
    proof (elim disjE exE conjE)
      fix board out others
      assume "r = Inr (board, out)" "apply_mutator (graph_checked mut) (last hs) = Inr (board, out)"
        "extra = board # others" "successively (valid_step R) (board # others)"
      then show ?thesis using graph_checked_valid(1) [of mut "last hs" board out] by blast
    qed (rule disjI1)
    ultimately show "\<exists>extra. valid_history history s' (hs @ extra) \<and>
        (successively (valid_step R) (last hs # extra) \<or>
         (\<exists>board out others. r = Inr (board, out) \<and> apply_mutator mut (last hs) = Inr (board, out) \<and>
            extra = board # others \<and> successively (valid_step R) (board # others)))"
      by (intro exI [of _ extra] conjI)
  next
    fix s hs mut s' board out
    assume "valid_history history s hs" "usable s" "transact_board (graph_store S) s mut = (s', Inr (board, out))"
    then have "history s hs" "usable s" "transact_board S s (graph_checked mut) = (s', Inr (board, out))"
      by (simp_all add: valid_history_def graph_store_def)
    then show "apply_mutator mut (last hs) = Inr (board, out)" by (rule graph_checked_valid(1) [OF laws(4)])
  qed
qed

interpretation graph: board_contract "graph_store (chain_store P dir token env)" "valid_history (chain_history P dir)"
    "admissible P dir (valid_step R) token env" "valid_step R"
  for P dir token env R
  by (rule graph_store_contract) (rule chain.board_contract_axioms)

end
