(* ===== verification/Blackboard_Application.thy ===== *)
theory Blackboard_Application
  imports Blackboard_Base Blackboard_Chain
begin

section \<open>The application orchestrator\<close>

text \<open>
  The operations \<open>packages/agentic-system/src/application-orchestrator.js\<close> adds to the guarded
  orchestrator: recovery of a self-upgrade claim, submission with PM reviews, resolution of a
  blocked checkpoint, the materialisation, blocking and invalidation of organization work, and
  the two operations that run under the store's mutation fence.  These use the store directly,
  not through the guard.
\<close>

subsection \<open>Reading arguments\<close>

definition positive_integer :: "jsval \<Rightarrow> string \<Rightarrow> int res" where
  "positive_integer v name =
     (case v of
        Some (JNum n) \<Rightarrow> if 0 < n then Inr n else Inl (TypeFault (name @ '' must be a positive integer''))
      | _ \<Rightarrow> Inl (TypeFault (name @ '' must be a positive integer'')))"

definition json_digest :: "platform \<Rightarrow> json \<Rightarrow> string" where
  "json_digest P v = sha256_hex P (render v)"

text \<open>\<open>isDeepStrictEqual\<close> does not look at the order of keys.\<close>

definition deep_equal :: "json \<Rightarrow> json \<Rightarrow> bool" where
  "deep_equal a b \<longleftrightarrow> canon a = canon b"

definition checkpoint_is :: "item \<Rightarrow> json \<Rightarrow> bool" where
  "checkpoint_is i expected \<longleftrightarrow> (case checkpoint i of None \<Rightarrow> False | Some c \<Rightarrow> deep_equal c expected)"

subsection \<open>Recovering a self-upgrade claim\<close>

definition attempt_prefix :: string where
  "attempt_prefix = ''SELF_UPGRADE_EVALUATION_ATTEMPT:''"

definition recover_self_upgrade_edit :: "string \<Rightarrow> string \<Rightarrow> string \<Rightarrow> json \<Rightarrow> item list \<Rightarrow> item \<Rightarrow> item res" where
  "recover_self_upgrade_edit iid owner blocker expected board i =
     rbind (type_invariant (item_status i = BLOCKED) (board_item_text iid ''must be BLOCKED before self-upgrade evaluation recovery'')) (\<lambda>_.
     rbind (type_invariant (opt_member (checkpoint i) ''kind'' = Some (JStr ''RESEARCH_CONTINUATION''))
              (board_item_text iid ''must carry a research-continuation checkpoint'')) (\<lambda>_.
     rbind (type_invariant (blockers i = [blocker]) (board_item_text iid ''self-upgrade evaluation blocker changed'')) (\<lambda>_.
     rbind (type_invariant (checkpoint_is i expected) (board_item_text iid ''self-upgrade evaluation checkpoint changed'')) (\<lambda>_.
       Inr (i\<lparr>claim_generation := claim_generation i + 1, item_status := CLAIMED, item_owner := Some owner, blockers := []\<rparr>)))))"

definition recover_self_upgrade_claim ::
  "'s board_store \<Rightarrow> string \<Rightarrow> string \<Rightarrow> string \<Rightarrow> json \<Rightarrow> 's \<Rightarrow> 's \<times> (item list \<times> json) res" where
  "recover_self_upgrade_claim S iid owner blocker expected =
     run_op S [need iid ''itemId'', need owner ''owner'', need blocker ''expectedBlocker'',
               type_invariant (take (length attempt_prefix) blocker = attempt_prefix)
                 ''self-upgrade recovery blocker must use the bounded evaluation-attempt namespace'',
               type_invariant (is_plain expected) ''self-upgrade recovery expectedCheckpoint must be an object'']
       (on_item iid (recover_self_upgrade_edit iid owner blocker expected))"

subsection \<open>Submitting with required reviews\<close>

definition normalize_required_reviews :: "json \<Rightarrow> requirement list res" where
  "normalize_required_reviews v =
     (case v of
        JArr raws \<Rightarrow>
          rbind (map_indexed normalize_pm_requirement raws) (\<lambda>qs.
          rbind (type_invariant (qs \<noteq> []) ''submitWithRequiredReviews requires at least one PM review requirement'') (\<lambda>_.
          rbind (type_invariant (distinct (map req_key qs)) ''reviewRequirements must not contain duplicate keys'') (\<lambda>_.
            Inr qs)))
      | _ \<Rightarrow> Inl (TypeFault ''reviewRequirements must be an array''))"

definition submit_required_edit ::
  "string \<Rightarrow> string \<Rightarrow> int \<Rightarrow> json \<Rightarrow> json list \<Rightarrow> requirement list \<Rightarrow> item list \<Rightarrow> item \<Rightarrow> item res" where
  "submit_required_edit iid owner generation value resolved required board i =
     rbind (assert_claim i iid owner generation ''required-review submit'') (\<lambda>_.
     rbind (remove_resolved_work i (Some (JArr resolved))) (\<lambda>i.
     rbind (add_review_requirements required i) (\<lambda>i.
       Inr (i\<lparr>checkpoint := None, checkpointed_by := None, submission := Some value, submitted_by := Some owner,
              item_owner := None, active := None, reviews := [], findings := [], blockers := [], item_status := PENDING_REVIEW\<rparr>))))"

definition submit_with_required_reviews ::
  "platform \<Rightarrow> 's board_store \<Rightarrow> string \<Rightarrow> string \<Rightarrow> int \<Rightarrow> json \<Rightarrow> json list \<Rightarrow> json \<Rightarrow> 's
     \<Rightarrow> 's \<times> (item list \<times> json) res" where
  "submit_with_required_reviews P S iid owner generation value resolved raw s =
     (case rbind (input_ok [need iid ''itemId'', need owner ''owner'',
                rbind (positive_integer (Some (JNum generation)) ''generation'') (\<lambda>_. Inr ()),
                type_invariant (is_plain value) ''submission must be an object'']) (\<lambda>_.
           rbind (normalize_required_reviews raw) (\<lambda>required.
           rbind (subject_from_value P (JObj [(''itemId'', JStr iid), (''submission'', value)])
                  (JObj [(''type'', JStr ''blackboard-submission''),
                         (''producer'', JObj [(''identity'', JStr owner), (''roles'', JArr [JStr ''producer''])])])) (\<lambda>_.
             Inr required))) of
        Inl e \<Rightarrow> (s, Inl e)
      | Inr required \<Rightarrow> transact_board S s (on_item iid (submit_required_edit iid owner generation value resolved required)))"

subsection \<open>Resolving a blocked checkpoint\<close>

definition resolve_checkpoint_edit :: "string \<Rightarrow> string \<Rightarrow> json \<Rightarrow> json \<Rightarrow> item list \<Rightarrow> item \<Rightarrow> item res" where
  "resolve_checkpoint_edit iid who expected value board i =
     rbind (type_invariant (item_status i = BLOCKED) (board_item_text iid ''must be BLOCKED before blocked-checkpoint resolution'')) (\<lambda>_.
     rbind (type_invariant (item_owner i = None) (board_item_text iid ''cannot resolve a blocked checkpoint while owned'')) (\<lambda>_.
     rbind (type_invariant (checkpoint_is i expected) (board_item_text iid ''blocked checkpoint changed before resolution'')) (\<lambda>_.
       Inr (i\<lparr>checkpoint := Some value, checkpointed_by := Some who, item_owner := None, blockers := [], item_status := REOPENED\<rparr>))))"

definition resolve_blocked_checkpoint ::
  "'s board_store \<Rightarrow> string \<Rightarrow> string \<Rightarrow> json \<Rightarrow> json \<Rightarrow> 's \<Rightarrow> 's \<times> (item list \<times> json) res" where
  "resolve_blocked_checkpoint S iid who expected value =
     run_op S [need iid ''itemId'', need who ''checkpointedBy'',
               type_invariant (is_plain expected) ''expectedCheckpoint must be an object'',
               type_invariant (is_plain value) ''checkpoint must be an object'']
       (on_item iid (resolve_checkpoint_edit iid who expected value))"

subsection \<open>Organization work\<close>

record materialization =
  mat_item :: string
  mat_work :: string
  mat_domain :: string
  mat_workload :: string
  mat_dependencies :: "string list"
  mat_subject :: string
  mat_key :: string
  mat_contract :: string
  mat_auth_id :: string
  mat_auth_ref :: string
  mat_auth_generation :: int
  mat_auth_revision :: string
  mat_artifact :: string
  mat_project :: string
  mat_root :: string
  mat_intent :: string

definition normalize_materialization :: "jsval \<Rightarrow> materialization res" where
  "normalize_materialization input =
     (let t = (\<lambda>k. text_of (opt_member input k) k) in
      rbind (t ''itemId'') (\<lambda>iid. rbind (t ''work'') (\<lambda>w. rbind (t ''owningDomain'') (\<lambda>dom. rbind (t ''workloadType'') (\<lambda>wl.
      rbind (text_array (opt_member input ''dependencyIds'') ''dependencyIds'') (\<lambda>deps.
      rbind (t ''obligationSubjectKey'') (\<lambda>sub. rbind (t ''materializationKey'') (\<lambda>k.
      rbind (type_invariant (iid = ''ORG-'' @ take 24 k)
               ''organization materialization itemId is not canonical for materializationKey'') (\<lambda>_.
      rbind (t ''workContractRef'') (\<lambda>c. rbind (t ''authorizationId'') (\<lambda>a. rbind (t ''authorizationRef'') (\<lambda>r.
      rbind (positive_integer (opt_member input ''authorizationGeneration'') ''authorizationGeneration'') (\<lambda>g.
      rbind (t ''authorizationRevision'') (\<lambda>rev. rbind (t ''implementationArtifactRef'') (\<lambda>art.
      rbind (t ''projectId'') (\<lambda>p. rbind (t ''rootItemId'') (\<lambda>root. rbind (t ''rootIntentId'') (\<lambda>intent.
        Inr \<lparr>mat_item = iid, mat_work = w, mat_domain = dom, mat_workload = wl, mat_dependencies = deps, mat_subject = sub,
             mat_key = k, mat_contract = c, mat_auth_id = a, mat_auth_ref = r, mat_auth_generation = g,
             mat_auth_revision = rev, mat_artifact = art, mat_project = p, mat_root = root, mat_intent = intent\<rparr>))))))))))))))))))"

definition materialized_origin :: "materialization \<Rightarrow> json" where
  "materialized_origin m = JObj
     [(''kind'', JStr ''ORGANIZATION_MATERIALIZATION''), (''projectId'', JStr (mat_project m)), (''rootItemId'', JStr (mat_root m)),
      (''rootIntentId'', JStr (mat_intent m)), (''owningDomain'', JStr (mat_domain m)), (''workloadType'', JStr (mat_workload m)),
      (''obligationSubjectKey'', JStr (mat_subject m)), (''materializationKey'', JStr (mat_key m)),
      (''workContractRef'', JStr (mat_contract m)), (''authorizationId'', JStr (mat_auth_id m)),
      (''authorizationRef'', JStr (mat_auth_ref m)), (''authorizationGeneration'', JNum (mat_auth_generation m)),
      (''authorizationRevision'', JStr (mat_auth_revision m)), (''implementationArtifactRef'', JStr (mat_artifact m))]"

definition materialized_item :: "materialization \<Rightarrow> item" where
  "materialized_item m =
     \<lparr>item_id = mat_item m, item_work = mat_work m, item_status = READY, item_owner = None, claim_generation = 0,
      review_generation = 0, depends_on = uniq (mat_root m # mat_dependencies m), remaining_work = [], blockers = [],
      artifact_refs = [mat_contract m], evidence_refs = [mat_auth_ref m], follow_up_refs = [], checkpoint = None,
      checkpointed_by = None, submission = None, submitted_by = None, requirements = [], reviews = [], findings = [],
      active = None, origin = Some (materialized_origin m)\<rparr>"

definition origin_text :: "item \<Rightarrow> string \<Rightarrow> string \<Rightarrow> bool" where
  "origin_text i k s \<longleftrightarrow> opt_member (origin i) k = Some (JStr s)"

text \<open>An existing item of the same id must be the very same materialisation.\<close>

definition check_existing_materialization :: "materialization \<Rightarrow> item \<Rightarrow> unit res" where
  "check_existing_materialization m i =
     input_ok
       [type_invariant (origin_text i ''kind'' ''ORGANIZATION_MATERIALIZATION'') (board_item_text (mat_item m) ''conflicts with deterministic materialization''),
        type_invariant (origin_text i ''obligationSubjectKey'' (mat_subject m)) (board_item_text (mat_item m) ''logical obligation subject conflicts''),
        type_invariant (origin_text i ''materializationKey'' (mat_key m)) (board_item_text (mat_item m) ''materialization key conflicts''),
        type_invariant (origin_text i ''workContractRef'' (mat_contract m)) (board_item_text (mat_item m) ''work contract conflicts''),
        type_invariant (origin_text i ''projectId'' (mat_project m) \<and> origin_text i ''rootItemId'' (mat_root m) \<and>
            origin_text i ''rootIntentId'' (mat_intent m)) (board_item_text (mat_item m) ''project/root binding conflicts''),
        type_invariant (origin_text i ''authorizationId'' (mat_auth_id m)) (board_item_text (mat_item m) ''authorization subject conflicts''),
        type_invariant (origin_text i ''authorizationRef'' (mat_auth_ref m) \<and>
            opt_member (origin i) ''authorizationGeneration'' = Some (JNum (mat_auth_generation m)) \<and>
            origin_text i ''authorizationRevision'' (mat_auth_revision m))
          (board_item_text (mat_item m) ''authorization observation conflicts''),
        type_invariant (origin_text i ''implementationArtifactRef'' (mat_artifact m)) (board_item_text (mat_item m) ''implementation artifact conflicts''),
        type_invariant (depends_on i = uniq (mat_root m # mat_dependencies m)) (board_item_text (mat_item m) ''dependency set conflicts'')]"

definition live_materialization :: "string \<Rightarrow> item \<Rightarrow> bool" where
  "live_materialization subject i \<longleftrightarrow> origin_text i ''kind'' ''ORGANIZATION_MATERIALIZATION'' \<and>
     origin_text i ''obligationSubjectKey'' subject \<and> item_status i \<notin> {DONE, SUPERSEDED}"

text \<open>\<open>authorized\<close> is what the caller's revalidation answers.\<close>

definition materialize_mutator :: "materialization \<Rightarrow> jsval res \<Rightarrow> mutator" where
  "materialize_mutator m authorized board =
     rbind (find_item board (mat_root m)) (\<lambda>root.
     rbind (type_invariant (origin_text root ''kind'' ''USER_INTENT_ROOT'') ''organization materialization root kind mismatch'') (\<lambda>_.
     rbind (type_invariant (origin_text root ''projectId'' (mat_project m)) ''organization materialization project mismatch'') (\<lambda>_.
     rbind (type_invariant (path (origin root) ''userIntent'' ''id'' = Some (JStr (mat_intent m)))
              ''organization materialization root intent mismatch'') (\<lambda>_.
     rbind (type_invariant (item_status root = DONE) ''organization materialization root must remain DONE'') (\<lambda>_.
     rbind authorized (\<lambda>answer.
     rbind (type_invariant (answer = Some (JBool True)) ''materialization authorization revalidation failed'') (\<lambda>_.
       case find (\<lambda>i. item_id i = mat_item m) board of
         Some old \<Rightarrow> rbind (check_existing_materialization m old) (\<lambda>_. Inr (board, item_json old))
       | None \<Rightarrow>
           rbind (type_invariant (\<forall>i \<in> set board. \<not> live_materialization (mat_subject m) i)
                    ''live organization work already exists for obligationSubjectKey'') (\<lambda>_.
           rbind (map_res (\<lambda>d. rbind (type_invariant (d \<noteq> mat_item m) ''organization materialization cannot depend on itself'') (\<lambda>_.
                    find_item board d)) (mat_dependencies m)) (\<lambda>_.
             Inr (board @ [materialized_item m], item_json (materialized_item m)))))))))))"

definition materialize_accepted_work ::
  "'s board_store \<Rightarrow> jsval \<Rightarrow> jsval res \<Rightarrow> 's \<Rightarrow> 's \<times> (item list \<times> json) res" where
  "materialize_accepted_work S input authorized s =
     (case normalize_materialization input of
        Inl e \<Rightarrow> (s, Inl e)
      | Inr m \<Rightarrow> transact_board S s (materialize_mutator m authorized))"

definition invalidated_blocker :: "string \<Rightarrow> string" where
  "invalidated_blocker r = ''WORK_AUTHORIZATION_INVALIDATED:'' @ r"

definition block_materialization_edit :: "string \<Rightarrow> int \<Rightarrow> string \<Rightarrow> item list \<Rightarrow> item \<Rightarrow> item res" where
  "block_materialization_edit auth_ref generation why board i =
     rbind (type_invariant (origin_text i ''kind'' ''ORGANIZATION_MATERIALIZATION'')
              ''organization materialization blocker requires organization-managed work'') (\<lambda>_.
     rbind (type_invariant (origin_text i ''authorizationRef'' auth_ref) ''organization materialization authorization ref changed'') (\<lambda>_.
     rbind (type_invariant (opt_member (origin i) ''authorizationGeneration'' = Some (JNum generation))
              ''organization materialization authorization generation changed'') (\<lambda>_.
       if item_status i = BLOCKED \<and> invalidated_blocker why \<in> set (blockers i) then Inr i
       else
         rbind (type_invariant (item_status i = READY \<or> item_status i = REOPENED)
                  ''organization materialization can only be blocked while eligible'') (\<lambda>_.
           Inr (i\<lparr>evidence_refs := add_unique (evidence_refs i) [why], item_owner := None,
                  blockers := [invalidated_blocker why], item_status := BLOCKED\<rparr>)))))"

definition block_organization_materialization ::
  "'s board_store \<Rightarrow> string \<Rightarrow> string \<Rightarrow> int \<Rightarrow> string \<Rightarrow> 's \<Rightarrow> 's \<times> (item list \<times> json) res" where
  "block_organization_materialization S iid auth_ref generation why =
     run_op S [need iid ''itemId'', need auth_ref ''authorizationRef'',
               rbind (positive_integer (Some (JNum generation)) ''authorizationGeneration'') (\<lambda>_. Inr ()), need why ''reasonRef'']
       (on_item iid (block_materialization_edit auth_ref generation why))"

definition invalidation_kinds :: "string list" where
  "invalidation_kinds = [''EXECUTION_AUTHORITY_INVALIDATED'', ''ABANDONED_PROVISIONAL_CLAIM'', ''WORK_AUTHORIZATION_INVALIDATED'']"

definition invalidate_claim_edit ::
  "string \<Rightarrow> string \<Rightarrow> int \<Rightarrow> string \<Rightarrow> string \<Rightarrow> json \<Rightarrow> item list \<Rightarrow> item \<Rightarrow> item res" where
  "invalidate_claim_edit iid owner generation kind r artifact board i =
     (let from = opt_member (Some artifact); own = opt_member (origin i) in
      rbind (type_invariant (item_status i = CLAIMED) (board_item_text iid ''must be CLAIMED before organization invalidation'')) (\<lambda>_.
      rbind (type_invariant (item_owner i = Some owner) (board_item_text iid ''owner changed before organization invalidation'')) (\<lambda>_.
      rbind (type_invariant (claim_generation i = generation) (board_item_text iid ''claim generation changed before organization invalidation'')) (\<lambda>_.
      rbind (type_invariant (strict_eq (own ''projectId'') (from ''projectId'') \<and> strict_eq (own ''rootItemId'') (from ''rootItemId'') \<and>
               strict_eq (own ''rootIntentId'') (from ''rootIntentId'')) ''claim invalidation project/root mismatch'') (\<lambda>_.
        let i1 = i\<lparr>evidence_refs := add_unique (evidence_refs i) [r], item_owner := None, active := None\<rparr>
        in Inr (if kind = ''WORK_AUTHORIZATION_INVALIDATED''
                then i1\<lparr>blockers := [invalidated_blocker r], item_status := BLOCKED\<rparr>
                else i1\<lparr>blockers := [], item_status := REOPENED\<rparr>))))))"

definition invalidate_organization_claim ::
  "platform \<Rightarrow> 's board_store \<Rightarrow> string \<Rightarrow> string \<Rightarrow> int \<Rightarrow> string \<Rightarrow> string \<Rightarrow> json \<Rightarrow> 's \<Rightarrow> 's \<times> (item list \<times> json) res" where
  "invalidate_organization_claim P S iid owner generation kind r artifact =
     (let from = opt_member (Some artifact) in
      run_op S [need iid ''itemId'', need owner ''expectedOwner'',
                rbind (positive_integer (Some (JNum generation)) ''expectedClaimGeneration'') (\<lambda>_. Inr ()),
                need r ''invalidationRef'',
                type_invariant (is_plain artifact) ''invalidation artifact is required'',
                type_invariant (from ''kind'' = Some (JStr ''CLAIM_AUTHORITY_INVALIDATION'') \<and> from ''version'' = Some (JNum 1))
                  ''claim authority invalidation artifact is invalid'',
                type_invariant (kind \<in> set invalidation_kinds) ''organization claim invalidation kind is invalid'',
                type_invariant (from ''itemId'' = Some (JStr iid)) ''claim invalidation item mismatch'',
                type_invariant (from ''expectedOwner'' = Some (JStr owner)) ''claim invalidation owner mismatch'',
                type_invariant (from ''expectedClaimGeneration'' = Some (JNum generation)) ''claim invalidation generation mismatch'',
                type_invariant (from ''cause'' = Some (JStr kind)) ''claim invalidation cause mismatch'',
                type_invariant (''claim-authority-invalidation:sha256:'' @ json_digest P artifact = r) ''claim invalidation ref/content mismatch'']
        (on_item iid (invalidate_claim_edit iid owner generation kind r artifact)))"

subsection \<open>Under the mutation fence\<close>

text \<open>\<open>limit\<close> is the wait limit of the store and \<open>polls\<close> the attempts to take the fence.\<close>

definition with_lifecycle_mutation ::
  "platform \<Rightarrow> string \<Rightarrow> int \<Rightarrow> string \<Rightarrow> (int \<times> (board_disk \<Rightarrow> board_disk)) list \<Rightarrow> (board_disk \<Rightarrow> board_disk \<times> 'a res)
     \<Rightarrow> board_disk \<Rightarrow> (board_disk \<times> 'a res) option" where
  "with_lifecycle_mutation P dir limit token polls action = with_mutation_fence P dir limit token polls (\<lambda>_ _. action)"

record claim_observation =
  seen_item :: string
  seen_status :: item_status
  seen_owner :: string
  seen_generation :: int
  board_revision :: string
  lifecycle_revision :: string

definition observe_claim :: "platform \<Rightarrow> string \<Rightarrow> string \<Rightarrow> int \<Rightarrow> string \<Rightarrow> item list \<Rightarrow> claim_observation res" where
  "observe_claim P iid owner generation token board =
     rbind (find_item board iid) (\<lambda>i.
     rbind (type_invariant (item_status i = CLAIMED) (board_item_text iid ''must remain CLAIMED during guarded mutation'')) (\<lambda>_.
     rbind (type_invariant (item_owner i = Some owner) (board_item_text iid ''owner changed during guarded mutation'')) (\<lambda>_.
     rbind (type_invariant (claim_generation i = generation) (board_item_text iid ''claim generation changed during guarded mutation'')) (\<lambda>_.
       Inr \<lparr>seen_item = iid, seen_status = item_status i, seen_owner = owner, seen_generation = claim_generation i,
            board_revision = token,
            lifecycle_revision = json_digest P (JObj
              [(''boardRevision'', JStr token), (''itemId'', JStr (item_id i)), (''status'', JStr (item_status_text (item_status i))),
               (''owner'', JStr owner), (''claimGeneration'', JNum (claim_generation i)), (''origin'', json_or_null (origin i))])\<rparr>))))"

definition with_claim_guard ::
  "platform \<Rightarrow> string \<Rightarrow> int \<Rightarrow> string \<Rightarrow> (int \<times> (board_disk \<Rightarrow> board_disk)) list \<Rightarrow> string \<Rightarrow> string \<Rightarrow> int
     \<Rightarrow> (claim_observation \<Rightarrow> board_disk \<Rightarrow> board_disk \<times> 'a res) \<Rightarrow> board_disk \<Rightarrow> (board_disk \<times> (claim_observation \<times> 'a) res) option" where
  "with_claim_guard P dir limit token polls iid owner generation action d =
     (case input_ok [need iid ''itemId'', need owner ''expectedOwner'',
            rbind (positive_integer (Some (JNum generation)) ''expectedClaimGeneration'') (\<lambda>_. Inr ())] of
        Inl e \<Rightarrow> Some (d, Inl e)
      | Inr _ \<Rightarrow> with_mutation_fence P dir limit token polls (\<lambda>revision board d.
          case observe_claim P iid owner generation revision board of
            Inl e \<Rightarrow> (d, Inl e)
          | Inr seen \<Rightarrow> (case action seen d of (d', r) \<Rightarrow> (d', map_sum id (Pair seen) r))) d)"

subsection \<open>Edits that keep items good\<close>

definition good_edit :: "(item list \<Rightarrow> item \<Rightarrow> item res) \<Rightarrow> bool" where
  "good_edit f \<longleftrightarrow> (\<forall>b i i'. wf_item i \<and> f b i = Inr i' \<longrightarrow>
     loose_item i' \<and> item_id i' = item_id i \<and> claim_generation i \<le> claim_generation i' \<and> (sound_item i \<longrightarrow> sound_item i'))"

lemma good_editI:
  assumes "\<And>b i i'. wf_item i \<Longrightarrow> f b i = Inr i' \<Longrightarrow> loose_item i' \<and> item_id i' = item_id i \<and> claim_generation i \<le> claim_generation i'"
    "\<And>b i i'. wf_item i \<Longrightarrow> f b i = Inr i' \<Longrightarrow> sound_item i \<Longrightarrow> sound_item i'"
  shows "good_edit f"
  unfolding good_edit_def using assms by blast

lemma evidence_added: "wf_item i \<Longrightarrow> nonblank r \<Longrightarrow> text_list_ok (add_unique (evidence_refs i) [r])"
  by (rule text_list_ok_add) (simp_all add: wf_item_def loose_item_def)

lemma invalidated_blocker_nonblank: "nonblank r \<Longrightarrow> nonblank (invalidated_blocker r)"
  unfolding invalidated_blocker_def by (rule nonblank_appendI(2))

lemma good_edit_step:
  assumes "\<And>b i i'. f b i = Inr i' \<Longrightarrow> item_step P T b i i'"
  shows "good_edit f"
  using assms item_step_loose item_step_id item_step_generation item_step_sound by (intro good_editI) metis+

lemma good_recover_self_upgrade: "nonblank owner \<Longrightarrow> good_edit (recover_self_upgrade_edit iid owner blocker expected)"
proof (rule good_editI)
  fix b i i' assume "nonblank owner" "wf_item i" "recover_self_upgrade_edit iid owner blocker expected b i = Inr i'"
  then show "loose_item i' \<and> item_id i' = item_id i \<and> claim_generation i \<le> claim_generation i'"
    by (auto simp: recover_self_upgrade_edit_def wf_item_def loose_item_def)
next
  fix b i i' assume "recover_self_upgrade_edit iid owner blocker expected b i = Inr i'" and s: "sound_item i"
  then have i: "item_status i = BLOCKED" and i': "i' = i\<lparr>claim_generation := claim_generation i + 1, item_status := CLAIMED, item_owner := Some owner, blockers := []\<rparr>"
    by (auto simp: recover_self_upgrade_edit_def)
  have "active i = None" "\<not> has_pending_findings i" using sound_status(1) [OF s] i by blast+
  then show "sound_item i'" unfolding i' by (intro sound_frame [OF s]) simp_all
qed

lemma good_resolve_checkpoint:
  assumes "nonblank who" "is_plain v"
  shows "good_edit (resolve_checkpoint_edit iid who expected v)"
proof (rule good_editI)
  fix b i i' assume "wf_item i" "resolve_checkpoint_edit iid who expected v b i = Inr i'"
  with assms show "loose_item i' \<and> item_id i' = item_id i \<and> claim_generation i \<le> claim_generation i'"
    by (auto simp: resolve_checkpoint_edit_def wf_item_def loose_item_def is_plain_def)
next
  fix b i i' assume "resolve_checkpoint_edit iid who expected v b i = Inr i'" and s: "sound_item i"
  then have i: "item_status i = BLOCKED" and i': "i' = i\<lparr>checkpoint := Some v, checkpointed_by := Some who, item_owner := None, blockers := [], item_status := REOPENED\<rparr>"
    by (auto simp: resolve_checkpoint_edit_def)
  have "active i = None" "\<not> has_pending_findings i" using sound_status(1) [OF s] i by blast+
  then show "sound_item i'" unfolding i' by (intro sound_frame [OF s]) simp_all
qed

lemma block_materialization_result:
  "block_materialization_edit auth_ref generation why b i = Inr i' \<Longrightarrow> i' = i \<or>
     (item_status i = READY \<or> item_status i = REOPENED) \<and>
     i' = i\<lparr>evidence_refs := add_unique (evidence_refs i) [why], item_owner := None, blockers := [invalidated_blocker why], item_status := BLOCKED\<rparr>"
  by (auto simp: block_materialization_edit_def split: if_splits)

lemma good_block_materialization:
  assumes "nonblank why"
  shows "good_edit (block_materialization_edit auth_ref generation why)"
proof (rule good_editI)
  fix b i i' assume wf: "wf_item i" and e: "block_materialization_edit auth_ref generation why b i = Inr i'"
  note evidence_added [OF wf assms] invalidated_blocker_nonblank [OF assms]
  with block_materialization_result [OF e] wf show "loose_item i' \<and> item_id i' = item_id i \<and> claim_generation i \<le> claim_generation i'"
    by (elim disjE conjE) (simp_all add: wf_item_def loose_item_def)
next
  fix b i i' assume e: "block_materialization_edit auth_ref generation why b i = Inr i'" and s: "sound_item i"
  show "sound_item i'"
  proof (cases "i' = i")
    case False
    with block_materialization_result [OF e] have i: "item_status i = READY \<or> item_status i = REOPENED"
      and i': "i' = i\<lparr>evidence_refs := add_unique (evidence_refs i) [why], item_owner := None, blockers := [invalidated_blocker why], item_status := BLOCKED\<rparr>"
      by blast+
    have "active i = None" "\<not> has_pending_findings i" using sound_status(1) [OF s] i by blast+
    then show ?thesis unfolding i' by (intro sound_frame [OF s]) simp_all
  qed (use s in simp)
qed

lemma invalidate_claim_result:
  "invalidate_claim_edit iid owner generation kind r artifact b i = Inr i' \<Longrightarrow>
     item_status i = CLAIMED \<and> (\<exists>bs st. (st = BLOCKED \<or> st = REOPENED) \<and> (bs = [] \<or> bs = [invalidated_blocker r]) \<and>
       i' = i\<lparr>evidence_refs := add_unique (evidence_refs i) [r], item_owner := None, active := None, blockers := bs, item_status := st\<rparr>)"
  unfolding invalidate_claim_edit_def Let_def rbind_Inr_iff type_invariant_ok sum.inject
  by (cases "kind = ''WORK_AUTHORIZATION_INVALIDATED''") auto

lemma good_invalidate_claim:
  assumes "nonblank r"
  shows "good_edit (invalidate_claim_edit iid owner generation kind r artifact)"
proof (rule good_editI)
  fix b i i' assume wf: "wf_item i" and e: "invalidate_claim_edit iid owner generation kind r artifact b i = Inr i'"
  obtain bs st where i': "i' = i\<lparr>evidence_refs := add_unique (evidence_refs i) [r], item_owner := None, active := None, blockers := bs, item_status := st\<rparr>"
    and bs: "bs = [] \<or> bs = [invalidated_blocker r]"
    using invalidate_claim_result [OF e] by blast
  have "text_list_ok bs" using bs invalidated_blocker_nonblank [OF assms] by auto
  with evidence_added [OF wf assms] wf show "loose_item i' \<and> item_id i' = item_id i \<and> claim_generation i \<le> claim_generation i'"
    by (simp add: i' wf_item_def loose_item_def)
next
  fix b i i' assume e: "invalidate_claim_edit iid owner generation kind r artifact b i = Inr i'" and s: "sound_item i"
  obtain bs st where i: "item_status i = CLAIMED" and st: "st = BLOCKED \<or> st = REOPENED"
    and i': "i' = i\<lparr>evidence_refs := add_unique (evidence_refs i) [r], item_owner := None, active := None, blockers := bs, item_status := st\<rparr>"
    using invalidate_claim_result [OF e] by blast
  have "\<not> has_pending_findings i" using sound_status(1) [OF s] i by blast
  with st show "sound_item i'" unfolding i' by (intro sound_frame [OF s]) auto
qed

lemma good_submit_required:
  assumes "nonblank owner" "is_plain v" "\<forall>q \<in> set required. wf_requirement q"
  shows "good_edit (submit_required_edit iid owner generation v resolved required)"
proof -
  have result: "\<exists>left qs. i' = i\<lparr>remaining_work := left, requirements := qs, checkpoint := None, checkpointed_by := None,
        submission := Some v, submitted_by := Some owner, item_owner := None, active := None, reviews := [], findings := [],
        blockers := [], item_status := PENDING_REVIEW\<rparr> \<and> (text_list_ok (remaining_work i) \<longrightarrow> text_list_ok left) \<and>
      (\<forall>q \<in> set qs. q \<in> set (requirements i) \<or> q \<in> set required)"
    if e: "submit_required_edit iid owner generation v resolved required b i = Inr i'" for b i i'
  proof -
    from e obtain j k where j: "remove_resolved_work i (Some (JArr resolved)) = Inr j" and k: "add_review_requirements required j = Inr k"
      and i': "i' = k\<lparr>checkpoint := None, checkpointed_by := None, submission := Some v, submitted_by := Some owner,
        item_owner := None, active := None, reviews := [], findings := [], blockers := [], item_status := PENDING_REVIEW\<rparr>"
      unfolding submit_required_edit_def rbind_Inr_iff by auto
    obtain left where left: "j = i\<lparr>remaining_work := left\<rparr>" "text_list_ok (remaining_work i) \<longrightarrow> text_list_ok left"
      using remove_resolved_work_keeps [OF j] by blast
    obtain qs where "k = j\<lparr>requirements := qs\<rparr>" "\<forall>q \<in> set qs. q \<in> set (requirements j) \<or> q \<in> set required"
      using add_review_requirements_result [OF k] by blast
    with left i' show ?thesis by (intro exI [of _ left] exI [of _ qs]) simp
  qed
  show ?thesis
  proof (rule good_editI)
    fix b i i' assume wf: "wf_item i" and e: "submit_required_edit iid owner generation v resolved required b i = Inr i'"
    from result [OF e] wf assms show "loose_item i' \<and> item_id i' = item_id i \<and> claim_generation i \<le> claim_generation i'"
      by (auto simp: wf_item_def loose_item_def is_plain_def)
  next
    fix b i i' assume e: "submit_required_edit iid owner generation v resolved required b i = Inr i'"
    from result [OF e] obtain left qs where i': "i' = i\<lparr>remaining_work := left, requirements := qs, checkpoint := None, checkpointed_by := None,
        submission := Some v, submitted_by := Some owner, item_owner := None, active := None, reviews := [], findings := [],
        blockers := [], item_status := PENDING_REVIEW\<rparr>" by blast
    show "sound_item i'" by (simp add: i' sound_parts has_pending_findings_def)
  qed
qed

end
