(* ===== verification/Blackboard_Calls.thy ===== *)
theory Blackboard_Calls
  imports Blackboard_Application
begin

section \<open>The calls of the orchestrator\<close>

text \<open>
  Every operation of the orchestrator is a mutator, and every mutator keeps the boards sound
  (\<open>sound_step\<close>).  \<open>call\<close> and \<open>perform\<close> put the methods of the application orchestrator side
  by side, over any board store; inside the contract of a store, a call extends the history of
  boards by sound steps only (\<open>perform_steps\<close>).
\<close>

subsection \<open>Sound steps\<close>

definition sound_step :: "item list \<Rightarrow> item list \<Rightarrow> bool" where
  "sound_step b b' \<longleftrightarrow> wf_snapshot b \<longrightarrow>
     wf_snapshot b' \<and> generations_rise b b' \<and> (sound_board b \<longrightarrow> sound_board b')"

lemma sound_step_kept: "board_kept b b' \<Longrightarrow> wf_snapshot b' \<Longrightarrow> sound_step b b'"
  by (auto simp: sound_step_def board_kept_def wf_snapshot_def)

lemma step_mutatorI:
  assumes "\<And>b c out. wf_snapshot b \<Longrightarrow> mut b = Inr (c, out) \<Longrightarrow> (\<forall>i \<in> set c. loose_item i) \<and> board_kept b c"
  shows "step_mutator sound_step mut"
  unfolding step_mutator_def
proof (intro allI impI, elim conjE)
  fix b saved out assume wf: "wf_snapshot b" and "apply_mutator mut b = Inr (saved, out)"
  then obtain c where c: "mut b = Inr (c, out)" "define_snapshot (Some (snapshot_json c)) = Inr saved"
    by (auto simp: apply_mutator_def)
  from assms [OF wf c(1)] c(2) have "saved = c" "wf_snapshot c" "board_kept b c" using define_snapshot_loose by blast+
  then show "sound_step b saved" using sound_step_kept by blast
qed

lemma edit_kept:
  assumes "good_edit f" "wf_snapshot b" "find_item b iid = Inr i" "f b i = Inr i'"
  shows "(\<forall>j \<in> set (put_item i' b). loose_item j) \<and> board_kept b (put_item i' b)"
proof -
  have i: "i \<in> set b" "wf_item i" using find_item_Inr [OF assms(3)] assms(2) by (auto simp: wf_snapshot_def)
  with assms(1,4) have e: "loose_item i'" "item_id i' = item_id i" "claim_generation i \<le> claim_generation i'"
    "sound_item i \<longrightarrow> sound_item i'" unfolding good_edit_def by blast+
  have "\<forall>j \<in> set (put_item i' b). loose_item j"
    using e(1) assms(2) by (auto simp: wf_snapshot_def wf_item_def dest!: set_put_item)
  with board_kept_put [OF assms(3) e(2-4)] show ?thesis by blast
qed

lemma step_on_item: "good_edit f \<Longrightarrow> step_mutator sound_step (on_item iid f)"
  by (rule step_mutatorI, unfold on_item_def rbind_Inr_iff) (elim exE conjE, simp, blast dest: edit_kept)

lemma step_on_review: "good_edit f \<Longrightarrow> step_mutator sound_step (on_review iid f)"
  by (rule step_mutatorI, unfold on_review_def rbind_Inr_iff) (elim exE conjE, simp, blast dest: edit_kept)

lemma step_guarded: "step_mutator R mut \<Longrightarrow> step_mutator R (guarded mut)"
  unfolding step_mutator_def using guarded_result by blast

subsection \<open>The edits\<close>

lemma good_claim: "nonblank owner \<Longrightarrow> good_edit (claim_edit iid owner)"
  by (rule good_edit_step) (rule Step_Claim)

lemma good_recover_claim: "nonblank owner \<Longrightarrow> good_edit (recover_claim_edit iid owner)"
  by (rule good_edit_step) (rule Step_Recover_Claim)

lemma good_resume: "good_edit (resume_edit iid)"
  by (rule good_edit_step) (rule Step_Resume)

lemma good_supersede: "nonblank why \<Longrightarrow> good_edit (supersede_edit iid why)"
  by (rule good_edit_step) (rule Step_Supersede)

lemma good_block: "text_list_ok blocked \<Longrightarrow> good_edit (block_edit iid owner generation blocked)"
  by (rule good_edit_step) (rule Step_Block)

lemma good_checkpoint:
  assumes "nonblank owner" "is_plain v" "report_status w \<in> {REOPENED, BLOCKED}" "text_list_ok artifacts" "text_list_ok evidence"
    "text_list_ok remaining" "text_list_ok blocked"
  shows "good_edit (checkpoint_edit iid owner generation v w artifacts evidence remaining blocked)"
  by (rule good_edit_step) (rule Step_Checkpoint [OF _ assms])

lemma good_submit: "nonblank owner \<Longrightarrow> is_plain v \<Longrightarrow> good_edit (submit_edit iid owner generation v requests resolved)"
  by (rule good_edit_step) (rule Step_Submit)

lemma good_require: "wf_requirement q \<Longrightarrow> good_edit (require_review_edit iid q)"
  by (rule good_edit_step) (rule Step_Require)

lemma good_begin: "nonblank key \<Longrightarrow> nonblank who \<Longrightarrow> good_edit (begin_review_edit P iid key who)"
  by (rule good_edit_step) (rule Step_Begin)

lemma good_recover_review: "nonblank key \<Longrightarrow> nonblank who \<Longrightarrow> good_edit (recover_review_edit P iid key who)"
  by (rule good_edit_step) (rule Step_Recover_Review)

lemma good_assess:
  "active_key a = key \<Longrightarrow> evaluate_review_bundle P T now i0 q a b = Inr x \<Longrightarrow> good_edit (record_assessment_edit iid key a x)"
  by (rule good_edit_step) (rule Step_Assess)

subsection \<open>Seeding, reconciling, extending, materialising\<close>

text \<open>Work seeded or added as a follow-up has no history.\<close>

definition fresh_seed :: "json list \<Rightarrow> bool" where
  "fresh_seed raw \<longleftrightarrow> (\<forall>items. map_indexed normalize_item raw = Inr items \<longrightarrow> (\<forall>i \<in> set items. fresh_item i))"

definition fresh_child :: "jsval \<Rightarrow> bool" where
  "fresh_child new_item \<longleftrightarrow>
     (\<forall>raw i f n child. new_item = Some (JObj raw) \<and> new_work_item i f n raw = Inr child \<longrightarrow> fresh_item child)"

lemma board_kept_append:
  assumes "\<forall>p \<in> set added. item_id p \<notin> item_id ` set b \<and> sound_item p" "distinct (map item_id added)"
  shows "board_kept b (b @ added)"
  using assms by (auto simp: board_kept_def generations_rise_def sound_board_def image_iff) metis

lemma step_seed: "fresh_seed raw \<Longrightarrow> step_mutator sound_step (seed_mutator raw)"
  unfolding step_mutator_def
proof (intro allI impI, elim conjE)
  fix b saved out assume f: "fresh_seed raw" and wf: "wf_snapshot b" and "apply_mutator (seed_mutator raw) b = Inr (saved, out)"
  then obtain items where b: "b = []" and i: "map_indexed normalize_item raw = Inr items"
    and d: "define_snapshot (Some (snapshot_json items)) = Inr saved"
    by (auto simp: apply_mutator_def seed_mutator_def)
  have "\<forall>i \<in> set items. loose_item i" using i by (auto dest!: map_indexed_set normalize_item_wf simp: wf_item_def)
  with d have s: "saved = items" "wf_snapshot items" by (auto simp: define_snapshot_loose)
  have "sound_board items" using f i by (auto simp: fresh_seed_def sound_board_def intro: fresh_item_sound)
  with s b show "sound_step b saved" by (simp add: sound_step_def generations_rise_def)
qed

lemma dispose_loose:
  assumes "dispose board i f d existing new_item = Inr (i1, target, added)" "wf_item i" "wf_finding f"
  shows "loose_item i1 \<and> pred_option nonblank target \<and> (\<forall>c \<in> set added. wf_item c)"
proof -
  have w: "text_list_ok (add_unique (remaining_work i) [finding_summary f])"
    and r: "nonblank t \<Longrightarrow> text_list_ok (add_unique (follow_up_refs i) [t])" for t
    using assms(2,3) by (auto intro!: text_list_ok_add simp: wf_item_def loose_item_def wf_finding_def)
  show ?thesis
  proof (cases d)
    case CURRENT_WORK
    with assms w show ?thesis by (auto simp: dispose_def wf_item_def loose_item_def)
  next
    case EXISTING_WORK
    with assms(1) obtain t where t: "i1 = i\<lparr>follow_up_refs := add_unique (follow_up_refs i) [t]\<rparr>" "target = Some t" "nonblank t" "added = []"
      by (auto simp: dispose_def)
    with assms(2) r [OF t(3)] show ?thesis by (simp add: wf_item_def loose_item_def)
  next
    case NEW_WORK
    with assms(1) obtain raw c where c: "new_work_item i f (length board) raw = Inr c" and t:
      "i1 = i\<lparr>follow_up_refs := add_unique (follow_up_refs i) [item_id c]\<rparr>" "target = Some (item_id c)" "added = [c]"
      by (auto simp: dispose_def split: option.splits json.splits)
    have wf: "wf_item c" using c unfolding new_work_item_def by (rule normalize_item_wf)
    then have "nonblank (item_id c)" by (simp add: wf_item_def loose_item_def)
    with r [OF this] wf assms(2) t show ?thesis by (simp add: wf_item_def loose_item_def)
  next
    case NON_ACTIONABLE
    with assms show ?thesis by (auto simp: dispose_def wf_item_def)
  qed
qed

lemma step_reconcile:
  assumes "fresh_child new_item"
  shows "step_mutator sound_step (reconcile_mutator iid fid d existing new_item)"
proof (rule step_mutatorI)
  fix b c out assume wf: "wf_snapshot b" and m: "reconcile_mutator iid fid d existing new_item b = Inr (c, out)"
  obtain i f i1 target added where i: "find_item b iid = Inr i" "finding_for i fid = Inr f" "finding_disposition f = None"
    and di: "dispose b i f d existing new_item = Inr (i1, target, added)"
    and c: "c = put_item ((set_finding (f\<lparr>finding_disposition := Some d, target_item := target\<rparr>) i1)
       \<lparr>item_status := derive_post_review_status (set_finding (f\<lparr>finding_disposition := Some d, target_item := target\<rparr>) i1)\<rparr>) b @ added"
    by (rule reconcile_result [OF m])
  let ?i2 = "set_finding (f\<lparr>finding_disposition := Some d, target_item := target\<rparr>) i1"
  let ?i3 = "?i2\<lparr>item_status := derive_post_review_status ?i2\<rparr>"
  have f: "f \<in> set (findings i)" using finding_for_Inr [OF i(2)] by simp
  have iwf: "wf_item i" using find_item_Inr [OF i(1)] wf by (auto simp: wf_snapshot_def)
  then have fwf: "wf_finding f" using f by (auto simp: wf_item_def loose_item_def)
  note l = dispose_loose [OF di iwf fwf]
  obtain w fs where i1: "i1 = i\<lparr>remaining_work := w, follow_up_refs := fs\<rparr>" using dispose_result [OF di] by blast
  have "\<forall>g \<in> set (findings ?i3). wf_finding g"
    using iwf fwf l by (auto simp: i1 set_finding_def wf_item_def loose_item_def wf_finding_def)
  with l have loose: "loose_item ?i3" by (simp add: loose_item_def set_finding_def)
  have "sound_item i \<longrightarrow> sound_item ?i3" using reconciled_sound [OF _ f i(3)] i1 by blast
  moreover have "item_id ?i3 = item_id i" "claim_generation ?i3 = claim_generation i" by (simp_all add: i1 set_finding_def)
  ultimately have "board_kept b (put_item ?i3 b)" by (intro board_kept_put [OF i(1)]) simp_all
  moreover have "board_kept (put_item ?i3 b) (put_item ?i3 b @ added)"
  proof (rule board_kept_append)
    have "\<forall>c \<in> set added. fresh_item c" "distinct (map item_id added)"
      using di assms by (cases d; auto simp: dispose_def fresh_child_def split: option.splits json.splits)+
    moreover have "item_id ` set (put_item ?i3 b) = item_id ` set b" by (metis list.set_map put_item_same_ids)
    ultimately show "\<forall>p \<in> set added. item_id p \<notin> item_id ` set (put_item ?i3 b) \<and> sound_item p" "distinct (map item_id added)"
      using dispose_result [OF di] fresh_item_sound by simp_all
  qed
  ultimately have "board_kept b c" unfolding c by (rule board_kept_trans)
  moreover have "\<forall>j \<in> set c. loose_item j"
    using loose l wf by (auto simp: c wf_snapshot_def wf_item_def dest!: set_put_item)
  ultimately show "(\<forall>j \<in> set c. loose_item j) \<and> board_kept b c" by blast
qed

lemma materialized_fresh: "fresh_item (materialized_item m)"
  by (simp add: fresh_item_def materialized_item_def)

lemma normalize_materialization_loose:
  assumes "normalize_materialization input = Inr m"
  shows "loose_item (materialized_item m)"
proof -
  have "nonblank (mat_item m) \<and> nonblank (mat_work m) \<and> nonblank (mat_contract m) \<and> nonblank (mat_auth_ref m) \<and>
      nonblank (mat_root m) \<and> text_list_ok (mat_dependencies m)"
    using assms unfolding normalize_materialization_def Let_def rbind_Inr_iff text_of_Inr sum.inject
    by (elim exE conjE, hypsubst) (simp add: text_array_ok)
  then show ?thesis
    by (auto simp: loose_item_def materialized_item_def materialized_origin_def text_list_ok_def)
qed

lemma step_materialize:
  assumes "normalize_materialization input = Inr m"
  shows "step_mutator sound_step (materialize_mutator m authorized)"
proof (rule step_mutatorI)
  fix b c out assume wf: "wf_snapshot b" and e: "materialize_mutator m authorized b = Inr (c, out)"
  have loose: "\<forall>i \<in> set b. loose_item i" using wf by (auto simp: wf_snapshot_def wf_item_def)
  show "(\<forall>i \<in> set c. loose_item i) \<and> board_kept b c"
  proof (cases "find (\<lambda>i. item_id i = mat_item m) b")
    case (Some old)
    with e have "c = b" unfolding materialize_mutator_def rbind_Inr_iff by auto
    with loose show ?thesis by (simp add: board_kept_refl)
  next
    case None
    with e have "c = b @ [materialized_item m]" unfolding materialize_mutator_def rbind_Inr_iff by auto
    moreover have "board_kept b (b @ [materialized_item m])"
      using None by (intro board_kept_add fresh_item_sound materialized_fresh) (auto simp: find_item_None materialized_item_def)
    ultimately show ?thesis using loose normalize_materialization_loose [OF assms] by auto
  qed
qed

definition extension_ok :: "extension \<Rightarrow> bool" where
  "extension_ok x \<longleftrightarrow> (\<forall>p \<in> set (ext_items x). fresh_item p \<and> wf_item p) \<and> (\<forall>e \<in> set (ext_edges x). nonblank (edge_dependency e)) \<and>
     text_list_ok (ext_artifacts x) \<and> text_list_ok (ext_evidence x) \<and> text_list_ok (ext_blockers x) \<and>
     (\<forall>q \<in> set (ext_requirements x). wf_requirement q)"

lemma normalize_fresh_work_wf:
  assumes "normalize_fresh_work n raw = Inr i"
  shows "wf_item i"
proof -
  from assms obtain items v where d: "define_snapshot (Some (JObj [(''version'', JNum 1), (''items'', JArr [v])])) = Inr items"
    and i: "i = hd items"
    unfolding normalize_fresh_work_def Let_def by (cases raw) auto
  from d have "map_indexed normalize_item [v] = Inr items"
    by (auto simp: define_snapshot_def Let_def arg_or_def)
  then have "length items = 1" by (auto simp: map_indexed_def dest!: map_res_length)
  with define_snapshot_wf [OF d] i show ?thesis by (cases items) (auto simp: wf_snapshot_def)
qed

lemma normalize_extension_ok:
  assumes "normalize_extension tid expected new_items raw_edges artifacts evidence blocked required = Inr x"
  shows "extension_ok x"
proof -
  from assms obtain as vs bs qs raws es items where
    a: "text_array artifacts ''artifactRefs'' = Inr as" "text_array evidence ''evidenceRefs'' = Inr vs" "text_array blocked ''blockers'' = Inr bs"
    and q: "normalize_review_requirements required = Inr qs" and e: "normalize_dependency_edges raw_edges = Inr es"
    and i: "map_indexed normalize_fresh_work raws = Inr items"
    and x: "ext_items x = items" "ext_edges x = es" "ext_artifacts x = as" "ext_evidence x = vs" "ext_blockers x = bs" "ext_requirements x = qs"
    unfolding normalize_extension_def rbind_Inr_iff by (elim exE conjE) (simp, hypsubst, auto)
  have "\<forall>q \<in> set qs. wf_requirement q"
    using q by (auto simp: normalize_review_requirements_def normalize_pm_requirement_def wf_requirement_def Let_def
        split: json.splits dest!: map_indexed_set)
  moreover have "\<forall>e \<in> set es. nonblank (edge_dependency e)"
    using e by (auto simp: normalize_dependency_edges_def normalize_edge_def Let_def split: json.splits dest!: map_indexed_set)
  moreover have "\<forall>p \<in> set items. fresh_item p \<and> wf_item p"
    using i by (auto dest!: map_indexed_set simp: normalize_fresh_work_fresh normalize_fresh_work_wf)
  ultimately show ?thesis using text_array_ok [OF a(1)] text_array_ok [OF a(2)] text_array_ok [OF a(3)] by (simp add: extension_ok_def x)
qed

lemma add_fresh_items_loose:
  "add_fresh_items ps b created = Inr (b', made) \<Longrightarrow> \<forall>p \<in> set ps. loose_item p \<Longrightarrow> \<forall>i \<in> set b. loose_item i \<Longrightarrow> \<forall>i \<in> set b'. loose_item i"
  by (induction ps b created rule: add_fresh_items.induct) (simp, simp split: option.splits)

lemma add_edges_loose:
  "add_edges tid ext_ids es b = Inr b' \<Longrightarrow> \<forall>e \<in> set es. nonblank (edge_dependency e) \<Longrightarrow> \<forall>i \<in> set b. loose_item i \<Longrightarrow>
     \<forall>i \<in> set b'. loose_item i"
proof (induction es arbitrary: b)
  case (Cons e es)
  from Cons.prems(1) obtain j where j: "find_item b (edge_item e) = Inr j"
    and rest: "add_edges tid ext_ids es (put_item (j\<lparr>depends_on := add_unique (depends_on j) [edge_dependency e]\<rparr>) b) = Inr b'"
    by auto
  have "loose_item j" using find_item_Inr [OF j] Cons.prems(3) by blast
  moreover from this have "text_list_ok (add_unique (depends_on j) [edge_dependency e])"
    using Cons.prems(2) by (intro text_list_ok_add) (auto simp: loose_item_def)
  ultimately have "loose_item (j\<lparr>depends_on := add_unique (depends_on j) [edge_dependency e]\<rparr>)" by (simp add: loose_item_def)
  then have "\<forall>i \<in> set (put_item (j\<lparr>depends_on := add_unique (depends_on j) [edge_dependency e]\<rparr>) b). loose_item i"
    using Cons.prems(3) by (auto dest!: set_put_item)
  with Cons.IH [OF rest] Cons.prems(2) show ?case by simp
qed simp

lemma extend_target_loose:
  assumes "extend_target x t = Inr t'" "extension_ok x" "loose_item t"
  shows "loose_item t'"
proof -
  let ?t = "t\<lparr>artifact_refs := add_unique (artifact_refs t) (ext_artifacts x), evidence_refs := add_unique (evidence_refs t) (ext_evidence x)\<rparr>"
  have lists: "text_list_ok (add_unique (artifact_refs t) (ext_artifacts x))" "text_list_ok (add_unique (evidence_refs t) (ext_evidence x))"
    "text_list_ok (add_unique (blockers t) (ext_blockers x))"
    using assms(2,3) by (auto intro!: text_list_ok_add text_list_okD simp: extension_ok_def loose_item_def dest: text_list_okD)
  from assms(1) obtain t1 where t1: "add_review_requirements (ext_requirements x) ?t = Inr t1"
    and t': "t' = (let t2 = (if ext_requirements x \<noteq> [] \<and> submission t1 \<noteq> None \<and> item_status t1 \<noteq> BLOCKED \<and> blockers t1 = [] \<and> ext_blockers x = []
               then t1\<lparr>item_status := PENDING_REVIEW\<rparr> else t1)
     in if ext_blockers x \<noteq> []
        then t2\<lparr>blockers := add_unique (blockers t2) (ext_blockers x), item_owner := None, item_status := BLOCKED\<rparr> else t2)"
    by (auto simp: extend_target_def Let_def)
  obtain rs where rs: "t1 = ?t\<lparr>requirements := rs\<rparr>" "\<forall>q \<in> set rs. q \<in> set (requirements t) \<or> q \<in> set (ext_requirements x)"
    using add_review_requirements_result [OF t1] by auto
  have "\<forall>q \<in> set rs. wf_requirement q" using rs(2) assms(2,3) by (auto simp: extension_ok_def loose_item_def)
  with lists assms(3) have t1_loose: "loose_item t1" by (simp add: rs(1) loose_item_def)
  have "blockers t1 = blockers t" by (simp add: rs(1))
  with t1_loose lists(3) show ?thesis unfolding t' Let_def by (simp add: loose_item_def)
qed

lemma step_extend:
  assumes "extension_ok x"
  shows "step_mutator sound_step (extend_mutator x)"
proof (rule step_mutatorI)
  fix b c out assume wf: "wf_snapshot b" and e: "extend_mutator x b = Inr (c, out)"
  have ok: "\<forall>p \<in> set (ext_items x). fresh_item p" "\<forall>p \<in> set (ext_items x). loose_item p"
    "\<forall>e \<in> set (ext_edges x). nonblank (edge_dependency e)"
    using assms by (auto simp: extension_ok_def wf_item_def)
  have b: "\<forall>i \<in> set b. loose_item i" using wf by (auto simp: wf_snapshot_def wf_item_def)
  have "\<forall>j \<in> set c. loose_item j"
  proof (rule extend_result [OF e])
    fix t b1 made b2 ds t2
    assume b1: "add_fresh_items (ext_items x) b [] = Inr (b1, made)"
      and b2: "add_edges (ext_target x) (map item_id (ext_items x)) (ext_edges x) b1 = Inr b2"
      and t1: "find_item b2 (ext_target x) = Inr (t\<lparr>depends_on := ds\<rparr>)" and t2: "extend_target x (t\<lparr>depends_on := ds\<rparr>) = Inr t2"
      and c: "c = put_item t2 b2"
    have l2: "\<forall>i \<in> set b2. loose_item i" by (rule add_edges_loose [OF b2 ok(3) add_fresh_items_loose [OF b1 ok(2) b]])
    then have "loose_item t2" using find_item_Inr [OF t1] by (intro extend_target_loose [OF t2 assms]) blast
    with l2 show "\<forall>j \<in> set c. loose_item j" by (auto simp: c dest!: set_put_item)
  qed
  with extend_mutator_kept [OF e ok(1)] show "(\<forall>i \<in> set c. loose_item i) \<and> board_kept b c" by blast
qed

subsection \<open>The methods of the orchestrator\<close>

datatype call =
    Seed_Call "json list"
  | Claim_Call string string
  | Recover_Claim_Call string string string
  | Checkpoint_Call string string int json work_report
  | Resume_Call string
  | Supersede_Call string string
  | Block_Call string string int jsval
  | Submit_Call string string int json "json list" "json list"
  | Require_Call string json
  | Begin_Call string string string
  | Recover_Review_Call string string string string
  | Assess_Call string string review_bundle
  | Reconcile_Call string string disposition jsval jsval
  | Extend_Call jsval jsval jsval jsval jsval jsval jsval jsval
  | Self_Upgrade_Call string string string json
  | Submit_Required_Call string string int json "json list" json
  | Resolve_Call string string json json
  | Materialize_Call jsval "jsval res"
  | Block_Materialization_Call string string int string
  | Invalidate_Call string string int string string json

text \<open>
  The base operations run over the guarded store, the added ones over the store itself.
  \<open>meanwhile\<close> is what others do while an assessment's trust is evaluated.
\<close>

fun perform ::
  "platform \<Rightarrow> review_trust \<Rightarrow> string \<Rightarrow> 's board_store \<Rightarrow> ('s \<Rightarrow> 's) \<Rightarrow> call \<Rightarrow> 's \<Rightarrow> 's \<times> (item list \<times> json) res" where
  "perform P T now S meanwhile (Seed_Call raw) = seed (guard_terminal_cancellation S) raw"
| "perform P T now S meanwhile (Claim_Call iid owner) = claim (guard_terminal_cancellation S) iid owner"
| "perform P T now S meanwhile (Recover_Claim_Call iid owner why) = recover_claim (guard_terminal_cancellation S) iid owner why"
| "perform P T now S meanwhile (Checkpoint_Call iid owner g v w) = checkpoint_item (guard_terminal_cancellation S) iid owner g v w"
| "perform P T now S meanwhile (Resume_Call iid) = resume (guard_terminal_cancellation S) iid"
| "perform P T now S meanwhile (Supersede_Call iid why) = supersede (guard_terminal_cancellation S) iid why"
| "perform P T now S meanwhile (Block_Call iid owner g raw) = block_item (guard_terminal_cancellation S) iid owner g raw"
| "perform P T now S meanwhile (Submit_Call iid owner g v requests resolved) =
     submit P (guard_terminal_cancellation S) iid owner g v requests resolved"
| "perform P T now S meanwhile (Require_Call iid raw) = require_review (guard_terminal_cancellation S) iid raw"
| "perform P T now S meanwhile (Begin_Call iid key who) = begin_review P (guard_terminal_cancellation S) iid key who"
| "perform P T now S meanwhile (Recover_Review_Call iid key who why) =
     recover_review P (guard_terminal_cancellation S) iid key who why"
| "perform P T now S meanwhile (Assess_Call iid key bundle) =
     record_assessment P T (guard_terminal_cancellation S) now meanwhile iid key bundle"
| "perform P T now S meanwhile (Reconcile_Call iid fid d existing new_item) =
     reconcile_finding (guard_terminal_cancellation S) iid fid d existing new_item"
| "perform P T now S meanwhile (Extend_Call tid expected new_items raw_edges artifacts evidence blocked required) =
     extend_work_graph S (normalize_extension tid expected new_items raw_edges artifacts evidence blocked required)"
| "perform P T now S meanwhile (Self_Upgrade_Call iid owner blocker expected) = recover_self_upgrade_claim S iid owner blocker expected"
| "perform P T now S meanwhile (Submit_Required_Call iid owner g v resolved raw) =
     submit_with_required_reviews P S iid owner g v resolved raw"
| "perform P T now S meanwhile (Resolve_Call iid who expected v) = resolve_blocked_checkpoint S iid who expected v"
| "perform P T now S meanwhile (Materialize_Call input authorized) = materialize_accepted_work S input authorized"
| "perform P T now S meanwhile (Block_Materialization_Call iid r g why) = block_organization_materialization S iid r g why"
| "perform P T now S meanwhile (Invalidate_Call iid owner g kind r artifact) =
     invalidate_organization_claim P S iid owner g kind r artifact"

text \<open>The work a call brings in has no history of its own.\<close>

fun fresh_call :: "call \<Rightarrow> bool" where
  "fresh_call (Seed_Call raw) = fresh_seed raw"
| "fresh_call (Reconcile_Call iid fid d existing new_item) = fresh_child new_item"
| "fresh_call _ = True"

lemma input_ok_Inr [simp]: "input_ok cs = Inr u \<longleftrightarrow> (\<forall>c \<in> set cs. c = Inr ())"
  by (induction cs) (auto simp: input_ok_def)

lemma is_ok_iff: "is_ok r \<longleftrightarrow> (\<exists>x. r = Inr x)"
  by (auto simp: is_ok_def split: sum.splits)

lemma need_Inr [simp]: "need s name = Inr u \<longleftrightarrow> nonblank s"
  by (auto simp: need_def)

lemma guard_contract:
  assumes "board_contract S history usable R"
  shows "board_contract (guard_terminal_cancellation S) history usable R"
proof
  fix s hs assume "history s hs"
  then show "hs \<noteq> [] \<and> (\<forall>b \<in> set hs. wf_snapshot b)" by (rule board_contract.history_wf [OF assms])
next
  fix s hs assume "history s hs"
  then show "load_board (guard_terminal_cancellation S) s = (s, Inr (last hs))"
    by (simp add: guard_terminal_cancellation_def board_contract.load_history [OF assms])
next
  fix s hs mut s' r
  assume h: "history s hs" "usable s" and "transact_board (guard_terminal_cancellation S) s mut = (s', r)"
  then have "transact_board S s (guarded mut) = (s', r)" by (simp add: guard_terminal_cancellation_def)
  from board_contract.transact_history [OF assms h this] obtain extra where e: "history s' (hs @ extra)"
    "successively R (last hs # extra) \<or> (\<exists>board out others. r = Inr (board, out) \<and>
       apply_mutator (guarded mut) (last hs) = Inr (board, out) \<and> extra = board # others \<and> successively R (board # others))"
    by blast
  have "successively R (last hs # extra) \<or> (\<exists>board out others. r = Inr (board, out) \<and>
       apply_mutator mut (last hs) = Inr (board, out) \<and> extra = board # others \<and> successively R (board # others))"
    using e(2)
  proof (elim disjE exE conjE)
    fix board out others
    assume "r = Inr (board, out)" "apply_mutator (guarded mut) (last hs) = Inr (board, out)"
      "extra = board # others" "successively R (board # others)"
    then show ?thesis using guarded_result [of mut "last hs" board out] by blast
  qed (rule disjI1)
  with e(1) show "\<exists>extra. history s' (hs @ extra) \<and> (successively R (last hs # extra) \<or>
       (\<exists>board out others. r = Inr (board, out) \<and> apply_mutator mut (last hs) = Inr (board, out) \<and>
          extra = board # others \<and> successively R (board # others)))" by (intro exI [of _ extra] conjI)
next
  fix s hs mut s' board out
  assume h: "history s hs" "usable s" and "transact_board (guard_terminal_cancellation S) s mut = (s', Inr (board, out))"
  then have "transact_board S s (guarded mut) = (s', Inr (board, out))" by (simp add: guard_terminal_cancellation_def)
  then show "apply_mutator mut (last hs) = Inr (board, out)"
    by (rule guarded_result [OF board_contract.transact_result [OF assms h]])
qed

interpretation guarded_chain: board_contract "guard_terminal_cancellation (chain_store P dir token env)" "chain_history P dir"
    "admissible P dir R token env" R
  for P dir token env R
  by (rule guard_contract) (rule chain.board_contract_axioms)

subsection \<open>A call extends the history by sound steps\<close>

definition grows :: "('s \<Rightarrow> item list list \<Rightarrow> bool) \<Rightarrow> item list list \<Rightarrow> 's \<Rightarrow> bool" where
  "grows history hs s' \<longleftrightarrow> (\<exists>extra. history s' (hs @ extra) \<and> successively sound_step (last hs # extra))"

lemma grows_refl: "history s hs \<Longrightarrow> grows history hs s"
  unfolding grows_def by (intro exI [of _ "[]"]) simp

lemma successively_glue:
  "successively R (last hs # xs) \<Longrightarrow> hs \<noteq> [] \<Longrightarrow> successively R (last (hs @ xs) # ys) \<Longrightarrow> successively R (last hs # xs @ ys)"
  by (cases xs rule: rev_cases) (auto simp: successively_append_iff successively_Cons hd_append split: if_splits)

lemma grows_trans:
  assumes "history s (hs @ xs)" "successively sound_step (last hs # xs)" "hs \<noteq> []" "grows history (hs @ xs) s'"
  shows "grows history hs s'"
proof -
  from assms(4) obtain ys where "history s' ((hs @ xs) @ ys)" "successively sound_step (last (hs @ xs) # ys)"
    by (auto simp: grows_def)
  with successively_glue [OF assms(2,3)] show ?thesis unfolding grows_def by (intro exI [of _ "xs @ ys"]) simp
qed

text \<open>What others do while the trust of a bundle is evaluated.\<close>

definition meanwhile_ok :: "('s \<Rightarrow> item list list \<Rightarrow> bool) \<Rightarrow> ('s \<Rightarrow> bool) \<Rightarrow> ('s \<Rightarrow> 's) \<Rightarrow> bool" where
  "meanwhile_ok history usable f \<longleftrightarrow> (\<forall>s hs. history s hs \<and> usable s \<longrightarrow> usable (f s) \<and>
     (\<exists>others. history (f s) (hs @ others) \<and> successively sound_step (last hs # others)))"

lemma required_reviews_wf: "normalize_required_reviews raw = Inr required \<Longrightarrow> \<forall>q \<in> set required. wf_requirement q"
  by (auto simp: normalize_required_reviews_def normalize_pm_requirement_def wf_requirement_def Let_def
      split: json.splits dest!: map_indexed_set)

context board_contract
begin

lemma transact_grows:
  assumes "history s hs" "usable s" "R \<le> sound_step" "transact_board S s mut = (s', r)" "step_mutator sound_step mut"
  shows "grows history hs s'"
  unfolding grows_def by (rule transact_steps [OF assms(1,2,4,5,3)])

lemma run_op_grows:
  assumes "history s hs" "usable s" "R \<le> sound_step" "run_op S checks mut s = (s', r)"
    "\<forall>c \<in> set checks. c = Inr () \<Longrightarrow> step_mutator sound_step mut"
  shows "grows history hs s'"
  unfolding grows_def by (rule run_op_steps [OF assms(1,2,4) _ assms(3)]) (use assms(5) in \<open>auto simp: is_ok_iff\<close>)

lemma checked_grows:
  assumes "history s hs" "usable s" "R \<le> sound_step"
    "(case x of Inl e \<Rightarrow> (s, Inl e) | Inr v \<Rightarrow> transact_board S s (mut v)) = (s', r)"
    "\<And>v. x = Inr v \<Longrightarrow> step_mutator sound_step (mut v)"
  shows "grows history hs s'"
proof (cases x)
  case (Inl e)
  with assms(4) have "s' = s" by simp
  with grows_refl [of history] assms(1) show ?thesis by simp
next
  case (Inr v)
  with assms(4) have "transact_board S s (mut v) = (s', r)" by simp
  from transact_grows [OF assms(1-3) this assms(5) [OF Inr]] show ?thesis .
qed

lemma assessment_grows:
  assumes "history s hs" "usable s" "R \<le> sound_step" "meanwhile_ok history usable meanwhile"
    "record_assessment P T S now meanwhile iid key b s = (s', r)"
  shows "grows history hs s'"
proof -
  obtain others where o: "usable (meanwhile s)" "history (meanwhile s) (hs @ others)" "successively sound_step (last hs # others)"
    using assms(1,2,4) unfolding meanwhile_ok_def by blast
  have hs: "hs \<noteq> []" using history_wf [OF assms(1)] by simp
  have waited: "grows history hs (meanwhile s)" using o(2,3) unfolding grows_def by blast
  note read = read_blackboard_head [OF assms(1)]
  show ?thesis
  proof (cases "rbind (Inr (last hs)) (observe_review iid key)")
    case (Inl e)
    with assms(5) read have "s' = s" by (auto simp: record_assessment_def split: sum.splits)
    with grows_refl [of history] assms(1) show ?thesis by simp
  next
    case (Inr seen)
    obtain i q a where seen: "seen = (i, q, a)" by (cases seen)
    have key: "active_key a = key" using Inr seen by (auto simp: observe_review_def)
    show ?thesis
    proof (cases "evaluate_review_bundle P T now i q a b")
      case e: (Inl e)
      with assms(5) read Inr seen have "s' = s \<or> s' = meanwhile s" by (auto simp: record_assessment_def split: sum.splits)
      with waited grows_refl [of history] assms(1) show ?thesis by auto
    next
      case x: (Inr x)
      from assms(5) read Inr seen x have "s' = s \<or>
          transact_board S (meanwhile s) (on_item iid (record_assessment_edit iid key a x)) = (s', r)"
        by (auto simp: record_assessment_def split: sum.splits)
      then show ?thesis
      proof
        assume "s' = s"
        with grows_refl [of history] assms(1) show ?thesis by simp
      next
        assume "transact_board S (meanwhile s) (on_item iid (record_assessment_edit iid key a x)) = (s', r)"
        then have "grows history (hs @ others) s'"
          using transact_grows [OF o(2,1) assms(3)] step_on_item [OF good_assess [OF key x]] by blast
        then show ?thesis by (rule grows_trans [where history = history and s = "meanwhile s" and xs = others, OF o(2,3) hs])
      qed
    qed
  qed
qed

lemma base_call_grows:
  assumes "history s hs" "usable s" "R \<le> sound_step"
  shows "claim S iid owner s = (s', r) \<Longrightarrow> grows history hs s'"
    "recover_claim S iid owner why s = (s', r) \<Longrightarrow> grows history hs s'"
    "resume S iid s = (s', r) \<Longrightarrow> grows history hs s'"
    "supersede S iid why s = (s', r) \<Longrightarrow> grows history hs s'"
    "submit P S iid owner g v requests resolved s = (s', r) \<Longrightarrow> grows history hs s'"
    "begin_review P S iid key who s = (s', r) \<Longrightarrow> grows history hs s'"
    "recover_review P S iid key who why s = (s', r) \<Longrightarrow> grows history hs s'"
  unfolding claim_def recover_claim_def resume_def supersede_def submit_def begin_review_def recover_review_def
  by (erule run_op_grows [OF assms]; use in \<open>intro step_on_item step_on_review good_claim good_recover_claim good_resume good_supersede
      good_submit good_begin good_recover_review; simp\<close>)+

lemma seed_grows:
  "history s hs \<Longrightarrow> usable s \<Longrightarrow> R \<le> sound_step \<Longrightarrow> seed S raw s = (s', r) \<Longrightarrow> fresh_seed raw \<Longrightarrow> grows history hs s'"
  unfolding seed_def by (erule (3) run_op_grows) (rule step_seed)

lemma reconcile_grows:
  "history s hs \<Longrightarrow> usable s \<Longrightarrow> R \<le> sound_step \<Longrightarrow> reconcile_finding S iid fid d existing new_item s = (s', r) \<Longrightarrow>
     fresh_child new_item \<Longrightarrow> grows history hs s'"
  unfolding reconcile_finding_def by (erule (3) run_op_grows) (rule step_reconcile)

lemma checkpoint_grows:
  assumes "history s hs" "usable s" "R \<le> sound_step" "checkpoint_item S iid owner g v w s = (s', r)"
  shows "grows history hs s'"
  by (rule checked_grows [OF assms(1-3) assms(4) [unfolded checkpoint_item_def]])
    (auto intro!: step_on_item good_checkpoint dest: text_array_ok)

lemma block_grows:
  assumes "history s hs" "usable s" "R \<le> sound_step" "block_item S iid owner g raw s = (s', r)"
  shows "grows history hs s'"
  by (rule checked_grows [OF assms(1-3) assms(4) [unfolded block_item_def]])
    (auto intro!: step_on_item good_block dest: text_array_ok)

lemma require_grows:
  assumes "history s hs" "usable s" "R \<le> sound_step" "require_review S iid raw s = (s', r)"
  shows "grows history hs s'"
  by (rule checked_grows [OF assms(1-3) assms(4) [unfolded require_review_def]])
    (auto intro!: step_on_item good_require dest: normalize_requirement_wf)

lemma added_call_grows:
  assumes "history s hs" "usable s" "R \<le> sound_step"
  shows "recover_self_upgrade_claim S iid owner blocker expected s = (s', r) \<Longrightarrow> grows history hs s'"
    "resolve_blocked_checkpoint S iid who expected v s = (s', r) \<Longrightarrow> grows history hs s'"
    "block_organization_materialization S iid auth g why s = (s', r) \<Longrightarrow> grows history hs s'"
    "invalidate_organization_claim P S iid owner g kind ref artifact s = (s', r) \<Longrightarrow> grows history hs s'"
  unfolding recover_self_upgrade_claim_def resolve_blocked_checkpoint_def block_organization_materialization_def
    invalidate_organization_claim_def Let_def
  by (erule run_op_grows [OF assms]; use in \<open>intro step_on_item good_recover_self_upgrade good_resolve_checkpoint
      good_block_materialization good_invalidate_claim; simp\<close>)+

lemma submit_required_grows:
  assumes "history s hs" "usable s" "R \<le> sound_step" "submit_with_required_reviews P S iid owner g v resolved raw s = (s', r)"
  shows "grows history hs s'"
proof (rule checked_grows [OF assms(1-3) assms(4) [unfolded submit_with_required_reviews_def]])
  fix required
  assume "rbind (input_ok [need iid ''itemId'', need owner ''owner'',
                rbind (positive_integer (Some (JNum g)) ''generation'') (\<lambda>_. Inr ()),
                type_invariant (is_plain v) ''submission must be an object'']) (\<lambda>_.
           rbind (normalize_required_reviews raw) (\<lambda>required.
           rbind (subject_from_value P (JObj [(''itemId'', JStr iid), (''submission'', v)])
                  (JObj [(''type'', JStr ''blackboard-submission''),
                         (''producer'', JObj [(''identity'', JStr owner), (''roles'', JArr [JStr ''producer''])])])) (\<lambda>_.
             Inr required))) = Inr required"
  then have "nonblank owner" "is_plain v" "normalize_required_reviews raw = Inr required" by auto
  then show "step_mutator sound_step (on_item iid (submit_required_edit iid owner g v resolved required))"
    using required_reviews_wf by (intro step_on_item good_submit_required)
qed

lemma materialize_grows:
  assumes "history s hs" "usable s" "R \<le> sound_step" "materialize_accepted_work S input authorized s = (s', r)"
  shows "grows history hs s'"
  by (rule checked_grows [OF assms(1-3) assms(4) [unfolded materialize_accepted_work_def]]) (rule step_materialize)

lemma extend_grows:
  assumes "history s hs" "usable s" "R \<le> sound_step" "extend_work_graph S x s = (s', r)" "\<And>v. x = Inr v \<Longrightarrow> extension_ok v"
  shows "grows history hs s'"
proof -
  have "(case x of Inl e \<Rightarrow> (s, Inl e) | Inr v \<Rightarrow> transact_board S s (guarded (extend_mutator v))) = (s', r)"
    using assms(4) by (cases x) (simp_all add: extend_work_graph_def guard_terminal_cancellation_def)
  then show ?thesis
    by (rule checked_grows [OF assms(1-3)]) (intro step_guarded step_extend assms(5))
qed

end

lemma perform_grows:
  assumes "board_contract S history usable R" "R \<le> sound_step" "history s hs" "usable s" "meanwhile_ok history usable meanwhile"
    "fresh_call c" "perform P T now S meanwhile c s = (s', r)"
  shows "grows history hs s'"
proof -
  note plain = assms(1) assms(3,4,2) and guarded = guard_contract [OF assms(1)] assms(3,4,2)
  show ?thesis
  proof (cases c)
    case (Seed_Call raw)
    with assms(6,7) board_contract.seed_grows [OF guarded] show ?thesis by simp
  next
    case (Claim_Call iid owner)
    with assms(7) board_contract.base_call_grows(1) [OF guarded] show ?thesis by simp
  next
    case (Recover_Claim_Call iid owner why)
    with assms(7) board_contract.base_call_grows(2) [OF guarded] show ?thesis by simp
  next
    case (Checkpoint_Call iid owner g v w)
    with assms(7) board_contract.checkpoint_grows [OF guarded] show ?thesis by simp
  next
    case (Resume_Call iid)
    with assms(7) board_contract.base_call_grows(3) [OF guarded] show ?thesis by simp
  next
    case (Supersede_Call iid why)
    with assms(7) board_contract.base_call_grows(4) [OF guarded] show ?thesis by simp
  next
    case (Block_Call iid owner g raw)
    with assms(7) board_contract.block_grows [OF guarded] show ?thesis by simp
  next
    case (Submit_Call iid owner g v requests resolved)
    with assms(7) board_contract.base_call_grows(5) [OF guarded] show ?thesis by simp
  next
    case (Require_Call iid raw)
    with assms(7) board_contract.require_grows [OF guarded] show ?thesis by simp
  next
    case (Begin_Call iid key who)
    with assms(7) board_contract.base_call_grows(6) [OF guarded] show ?thesis by simp
  next
    case (Recover_Review_Call iid key who why)
    with assms(7) board_contract.base_call_grows(7) [OF guarded] show ?thesis by simp
  next
    case (Assess_Call iid key b)
    with assms(7) board_contract.assessment_grows [OF guarded assms(5)] show ?thesis by simp
  next
    case (Reconcile_Call iid fid d existing new_item)
    with assms(6,7) board_contract.reconcile_grows [OF guarded] show ?thesis by simp
  next
    case (Extend_Call tid expected new_items raw_edges artifacts evidence blocked required)
    with assms(7) board_contract.extend_grows [OF plain] normalize_extension_ok show ?thesis by simp
  next
    case (Self_Upgrade_Call iid owner blocker expected)
    with assms(7) board_contract.added_call_grows(1) [OF plain] show ?thesis by simp
  next
    case (Submit_Required_Call iid owner g v resolved raw)
    with assms(7) board_contract.submit_required_grows [OF plain] show ?thesis by simp
  next
    case (Resolve_Call iid who expected v)
    with assms(7) board_contract.added_call_grows(2) [OF plain] show ?thesis by simp
  next
    case (Materialize_Call input authorized)
    with assms(7) board_contract.materialize_grows [OF plain] show ?thesis by simp
  next
    case (Block_Materialization_Call iid auth g why)
    with assms(7) board_contract.added_call_grows(3) [OF plain] show ?thesis by simp
  next
    case (Invalidate_Call iid owner g kind ref artifact)
    with assms(7) board_contract.added_call_grows(4) [OF plain] show ?thesis by simp
  qed
qed

text \<open>Sound steps keep a history sound.\<close>

lemma sound_steps:
  assumes "successively sound_step (b # bs)" "wf_snapshot b" "sound_board b" "c \<in> set bs"
  shows "wf_snapshot c \<and> sound_board c \<and> generations_rise b c"
proof -
  have "wf_snapshot b \<Longrightarrow> sound_board b \<Longrightarrow> successively sound_step (b # bs) \<Longrightarrow>
      \<forall>c \<in> set bs. wf_snapshot c \<and> sound_board c \<and> generations_rise b c" for b bs
  proof (induction bs arbitrary: b)
    case (Cons d bs)
    from Cons.prems have step: "sound_step b d" "successively sound_step (d # bs)" by simp_all
    from step(1) Cons.prems(1,2) have d: "wf_snapshot d" "sound_board d" "generations_rise b d" unfolding sound_step_def by blast+
    from Cons.IH [OF d(1,2) step(2)] have "\<forall>c \<in> set bs. wf_snapshot c \<and> sound_board c \<and> generations_rise d c" .
    with d generations_rise_trans [OF d(3)] show ?case by auto
  qed simp
  with assms show ?thesis by blast
qed

end
