(* ===== verification/Blackboard_Props.thy ===== *)
theory Blackboard_Props
  imports Blackboard_Calls
begin

section \<open>What the blackboard guarantees\<close>

text \<open>
  The properties of the blackboard: the shape of items, the life of a claim and of a review, the
  immutability of superseded work, the dependency graph, and what the commit chain holds after
  any calls by any number of writers.
\<close>

subsection \<open>Sequences of calls over the commit chain\<close>

text \<open>
  One process calls the orchestrator again and again.  Each call has the random token its commit
  would get, and what the other processes do during the call.
\<close>

record turn =
  turn_token :: string
  turn_env :: interference
  turn_meanwhile :: "board_disk \<Rightarrow> board_disk"
  turn_call :: call

definition turn_result ::
  "platform \<Rightarrow> review_trust \<Rightarrow> string \<Rightarrow> string \<Rightarrow> turn \<Rightarrow> board_disk \<Rightarrow> board_disk \<times> (item list \<times> json) res" where
  "turn_result P T now dir t = perform P T now (chain_store P dir (turn_token t) (turn_env t)) (turn_meanwhile t) (turn_call t)"

fun run_turns :: "platform \<Rightarrow> review_trust \<Rightarrow> string \<Rightarrow> string \<Rightarrow> turn list \<Rightarrow> board_disk \<Rightarrow> board_disk" where
  "run_turns P T now dir [] d = d"
| "run_turns P T now dir (t # ts) d = run_turns P T now dir ts (fst (turn_result P T now dir t d))"

text \<open>
  A turn is fair when its token is new, the others commit sound steps through the store, and the
  work it brings in has no history.
\<close>

definition fair_turn :: "platform \<Rightarrow> string \<Rightarrow> turn \<Rightarrow> board_disk \<Rightarrow> bool" where
  "fair_turn P dir t d \<longleftrightarrow> admissible P dir sound_step (turn_token t) (turn_env t) d \<and>
     meanwhile_ok (chain_history P dir) (admissible P dir sound_step (turn_token t) (turn_env t)) (turn_meanwhile t) \<and>
     fresh_call (turn_call t)"

fun fair_turns :: "platform \<Rightarrow> review_trust \<Rightarrow> string \<Rightarrow> string \<Rightarrow> turn list \<Rightarrow> board_disk \<Rightarrow> bool" where
  "fair_turns P T now dir [] d = True"
| "fair_turns P T now dir (t # ts) d \<longleftrightarrow> fair_turn P dir t d \<and> fair_turns P T now dir ts (fst (turn_result P T now dir t d))"

lemma turn_grows:
  assumes "chain_history P dir d hs" "fair_turn P dir t d"
  shows "grows (chain_history P dir) hs (fst (turn_result P T now dir t d))"
proof -
  obtain d' r where p: "perform P T now (chain_store P dir (turn_token t) (turn_env t)) (turn_meanwhile t) (turn_call t) d = (d', r)"
    by (cases "perform P T now (chain_store P dir (turn_token t) (turn_env t)) (turn_meanwhile t) (turn_call t) d")
  from assms(2) have f: "admissible P dir sound_step (turn_token t) (turn_env t) d"
    "meanwhile_ok (chain_history P dir) (admissible P dir sound_step (turn_token t) (turn_env t)) (turn_meanwhile t)"
    "fresh_call (turn_call t)" by (simp_all add: fair_turn_def)
  have "grows (chain_history P dir) hs d'"
    by (rule perform_grows [OF chain.board_contract_axioms order_refl assms(1) f p])
  then show ?thesis by (simp add: turn_result_def p)
qed

lemma run_grows:
  "chain_history P dir d hs \<Longrightarrow> fair_turns P T now dir ts d \<Longrightarrow> grows (chain_history P dir) hs (run_turns P T now dir ts d)"
proof (induction ts arbitrary: d hs)
  case (Cons t ts)
  let ?d = "fst (turn_result P T now dir t d)"
  have "fair_turn P dir t d" using Cons.prems(2) by simp
  from turn_grows [OF Cons.prems(1) this, of T now]
  obtain extra where e: "chain_history P dir ?d (hs @ extra)" "successively sound_step (last hs # extra)"
    unfolding grows_def by blast
  have "hs \<noteq> []" using chain.history_wf [OF Cons.prems(1)] by simp
  moreover have "grows (chain_history P dir) (hs @ extra) (run_turns P T now dir ts ?d)"
    using Cons.IH [OF e(1)] Cons.prems(2) by simp
  ultimately show ?case
    using grows_trans [where history = "chain_history P dir" and s = ?d and xs = extra, OF e] by simp
qed (simp add: grows_refl)

lemma run_history:
  assumes "chain_history P dir d hs" "sound_board (last hs)" "fair_turns P T now dir ts d"
  obtains extra where "chain_history P dir (run_turns P T now dir ts d) (hs @ extra)"
    "\<And>b. b \<in> set (last hs # extra) \<Longrightarrow> wf_snapshot b \<and> sound_board b \<and> generations_rise (last hs) b"
proof -
  obtain extra where e: "chain_history P dir (run_turns P T now dir ts d) (hs @ extra)" "successively sound_step (last hs # extra)"
    using run_grows [OF assms(1,3)] by (auto simp: grows_def)
  have wf: "wf_snapshot (last hs)" using chain.history_wf [OF assms(1)] by simp
  have "generations_rise (last hs) (last hs)" by (auto simp: generations_rise_def)
  with sound_steps [OF e(2) wf assms(2)] wf assms(2) have "\<And>b. b \<in> set (last hs # extra) \<Longrightarrow>
      wf_snapshot b \<and> sound_board b \<and> generations_rise (last hs) b" by auto
  with e(1) that show ?thesis by blast
qed

text \<open>An honest environment that stands still, an empty board and a seed, for the witnesses.\<close>

definition demo_platform :: platform where
  "demo_platform = \<lparr>sha256_hex = (\<lambda>s. s), collation_key = (\<lambda>s. s), date_parse = (\<lambda>v. None)\<rparr>"

definition idle :: interference where
  "idle = \<lparr>at_root = (\<lambda>d. d), at_commit = (\<lambda>d. d), at_projection = (\<lambda>n d. d)\<rparr>"

lemma idle_honest: "honest P dir R token idle"
proof -
  have "extends P dir R (\<lambda>d. d)"
    unfolding extends_def by (intro allI impI exI [of _ "[]"]) (simp add: boards_def)
  then show ?thesis by (simp add: honest_def idle_def)
qed

lemma idle_admissible: "map_of (commit_files d) token = None \<Longrightarrow> admissible P dir R token idle d"
  by (simp add: admissible_def idle_honest)

lemma meanwhile_idle: "meanwhile_ok history usable (\<lambda>d. d)"
  unfolding meanwhile_ok_def by (intro allI impI conjI exI [of _ "[]"]) auto

definition demo_disk :: "item list \<Rightarrow> board_disk" where
  "demo_disk b = \<lparr>root_file = Some (Some (snapshot_json b)), commit_files = [], projection_file = None, fence_file = None\<rparr>"

lemma demo_disk_history: "wf_snapshot b \<Longrightarrow> chain_history P dir (demo_disk b) [b]"
  unfolding chain_history_def
  by (intro exI [of _ "[(''root'', b)]"])
    (simp add: revisions_def boards_def read_root_def parse_snapshot_def demo_disk_def snapshot_roundtrip)

definition demo_item :: "string \<Rightarrow> item_status \<Rightarrow> string list \<Rightarrow> item" where
  "demo_item iid st deps =
     \<lparr>item_id = iid, item_work = ''w'', item_status = st, item_owner = None, claim_generation = 1, review_generation = 0,
      depends_on = deps, remaining_work = [], blockers = [], artifact_refs = [], evidence_refs = [], follow_up_refs = [],
      checkpoint = None, checkpointed_by = None, submission = None, submitted_by = None, requirements = [], reviews = [],
      findings = [], active = None, origin = None\<rparr>"

lemma demo_item_simps [simp]:
  "item_id (demo_item iid st deps) = iid" "item_status (demo_item iid st deps) = st" "claim_generation (demo_item iid st deps) = 1"
  "depends_on (demo_item iid st deps) = deps"
  by (simp_all add: demo_item_def)

lemma nonblank_letters: "nonblank (CHR ''a'' # s)" "nonblank (CHR ''b'' # s)" "nonblank (CHR ''w'' # s)"
  by (simp_all add: nonblank_iff js_space_def of_char_def)

lemma demo_board_wf: "wf_snapshot [demo_item ''a'' st [], demo_item ''b'' st' [''a'']]"
  by (simp add: wf_snapshot_def wf_item_def loose_item_def demo_item_def text_list_ok_def nonblank_letters)

lemma demo_board_sound: "st \<in> {READY, REOPENED, BLOCKED, SUPERSEDED} \<Longrightarrow> st' \<in> {READY, REOPENED, BLOCKED, SUPERSEDED} \<Longrightarrow>
  sound_board [demo_item ''a'' st [], demo_item ''b'' st' [''a'']]"
  by (auto simp: sound_board_def sound_parts demo_item_def has_pending_findings_def)

definition demo_trust :: review_trust where
  "demo_trust = \<lparr>trust_policy_for = (\<lambda>i q who s. Inl (TypeFault ''no policy'')), trust_signature = (\<lambda>i q who v. Inr (Some (JBool True))),
     trust_evaluator = (\<lambda>i q who v s e p. Inr (Some (JBool True))), trust_evidence = (\<lambda>i q who v s e p. Inr (Some (JBool True)))\<rparr>"

definition demo_turn :: "call \<Rightarrow> turn" where
  "demo_turn c = \<lparr>turn_token = ''t'', turn_env = idle, turn_meanwhile = (\<lambda>d. d), turn_call = c\<rparr>"

lemma demo_turn_call [simp]: "turn_call (demo_turn c) = c"
  by (simp add: demo_turn_def)

lemma demo_turn_fair: "map_of (commit_files d) ''t'' = None \<Longrightarrow> fresh_call c \<Longrightarrow> fair_turn P dir (demo_turn c) d"
  by (simp add: fair_turn_def demo_turn_def idle_admissible meanwhile_idle)

subsection \<open>The committed boards\<close>





subsection \<open>A claim that was taken over\<close>

definition claim_calls :: "string \<Rightarrow> int \<Rightarrow> call set" where
  "claim_calls iid g = {c. (\<exists>owner v w. c = Checkpoint_Call iid owner g v w) \<or> (\<exists>owner raw. c = Block_Call iid owner g raw) \<or>
     (\<exists>owner v rs ws. c = Submit_Call iid owner g v rs ws) \<or> (\<exists>owner v ws raw. c = Submit_Required_Call iid owner g v ws raw) \<or>
     (\<exists>owner kind r a. c = Invalidate_Call iid owner g kind r a)}"

text \<open>The edits of these calls, behind the guard or not.\<close>

lemma stale_edit:
  assumes "apply_mutator mut b = Inr (saved, out)" "mut = on_item iid f \<or> mut = guarded (on_item iid f)"
    "\<And>b i i'. f b i = Inr i' \<Longrightarrow> claim_generation i = g"
  shows "\<exists>i \<in> set b. item_id i = iid \<and> claim_generation i = g"
proof -
  have "apply_mutator (on_item iid f) b = Inr (saved, out)" using assms(1,2) guarded_result by blast
  then obtain i i' where "find_item b iid = Inr i" "f b i = Inr i'"
    by (auto simp: apply_mutator_def on_item_def)
  with find_item_Inr assms(3) show ?thesis by blast
qed

lemma claim_edit_generation:
  "checkpoint_edit iid owner g v w as es rs bs b i = Inr i' \<Longrightarrow> claim_generation i = g"
  "block_edit iid owner g bs b i = Inr i' \<Longrightarrow> claim_generation i = g"
  "submit_edit iid owner g v qs ws b i = Inr i' \<Longrightarrow> claim_generation i = g"
  "submit_required_edit iid owner g v ws required b i = Inr i' \<Longrightarrow> claim_generation i = g"
  "invalidate_claim_edit iid owner g kind r a b i = Inr i' \<Longrightarrow> claim_generation i = g"
  by (auto simp: checkpoint_edit_def block_edit_def submit_edit_def submit_required_edit_def invalidate_claim_edit_def Let_def)

text \<open>A call that succeeds ran its edit on the head.\<close>

lemma guard_transact [simp]:
  "transact_board (guard_terminal_cancellation S) s mut = transact_board S s (guarded mut)"
  by (simp add: guard_terminal_cancellation_def)

lemma run_op_Inr: "run_op S checks mut s = (s', Inr x) \<Longrightarrow> transact_board S s mut = (s', Inr x)"
  by (simp add: run_op_def split: sum.splits)

lemma checked_Inr:
  "(case x of Inl e \<Rightarrow> (s, Inl e) | Inr v \<Rightarrow> transact_board S s (mut v)) = (s', Inr y) \<Longrightarrow>
     \<exists>v. x = Inr v \<and> transact_board S s (mut v) = (s', Inr y)"
  by (cases x) simp_all

lemma claim_call_edit:
  assumes "c \<in> claim_calls iid g" "perform P T now S meanwhile c s = (s', Inr y)"
  shows "\<exists>f mut. (mut = on_item iid f \<or> mut = guarded (on_item iid f)) \<and> (\<forall>b i i'. f b i = Inr i' \<longrightarrow> claim_generation i = g) \<and>
     transact_board S s mut = (s', Inr y)"
proof -
  have wrap: ?thesis if "transact_board S s mut = (s', Inr y)" "mut = on_item iid f \<or> mut = guarded (on_item iid f)"
    "\<And>b i i'. f b i = Inr i' \<Longrightarrow> claim_generation i = g" for f mut
    using that by blast
  consider owner v w where "c = Checkpoint_Call iid owner g v w" | owner raw where "c = Block_Call iid owner g raw"
    | owner v rs ws where "c = Submit_Call iid owner g v rs ws" | owner v ws raw where "c = Submit_Required_Call iid owner g v ws raw"
    | owner kind r a where "c = Invalidate_Call iid owner g kind r a"
    using assms(1) unfolding claim_calls_def by blast
  then show ?thesis
  proof cases
    case (1 owner v w)
    with assms(2) checked_Inr obtain f where "transact_board S s (guarded (on_item iid f)) = (s', Inr y)"
      "\<And>b i i'. f b i = Inr i' \<Longrightarrow> claim_generation i = g"
      by (fastforce simp: checkpoint_item_def split: sum.splits dest: claim_edit_generation)
    then show ?thesis by (intro wrap [OF _ disjI2 [OF refl]])
  next
    case (2 owner raw)
    with assms(2) obtain bs where "transact_board S s (guarded (on_item iid (block_edit iid owner g bs))) = (s', Inr y)"
      by (auto simp: block_item_def split: sum.splits)
    then show ?thesis by (rule wrap) (auto dest: claim_edit_generation)
  next
    case (3 owner v rs ws)
    with assms(2) have "transact_board S s (guarded (on_item iid (submit_edit iid owner g v rs ws))) = (s', Inr y)"
      by (simp add: submit_def) (drule run_op_Inr, simp)
    then show ?thesis by (rule wrap) (auto dest: claim_edit_generation)
  next
    case (4 owner v ws raw)
    with assms(2) obtain qs where "transact_board S s (on_item iid (submit_required_edit iid owner g v ws qs)) = (s', Inr y)"
      by (auto simp: submit_with_required_reviews_def split: sum.splits)
    then show ?thesis by (rule wrap) (auto dest: claim_edit_generation)
  next
    case (5 owner kind r a)
    with assms(2) have "transact_board S s (on_item iid (invalidate_claim_edit iid owner g kind r a)) = (s', Inr y)"
      by (simp add: invalidate_organization_claim_def Let_def) (drule run_op_Inr, simp)
    then show ?thesis by (rule wrap) (auto dest: claim_edit_generation)
  qed
qed

text \<open>C9: Once a board of the chain shows an item at a claim generation above g (the claim of generation g was
  recovered, superseded or claimed anew), every later checkpoint, submit, required-review submit, block
  or invalidation under generation g is refused, whoever makes it and whatever happened in between.\<close>

theorem older_claims_are_refused:
  assumes "chain_history P dir d hs" "sound_board (last hs)" "fair_turns P T now dir ts d"
    "i \<in> set (last hs)" "g < claim_generation i" "turn_call t \<in> claim_calls (item_id i) g"
    "fair_turn P dir t (run_turns P T now dir ts d)"
  shows "\<exists>e. snd (turn_result P T now dir t (run_turns P T now dir ts d)) = Inl e"
proof (rule run_history [OF assms(1-3)])
  fix extra
  assume h: "chain_history P dir (run_turns P T now dir ts d) (hs @ extra)"
    and s: "\<And>b. b \<in> set (last hs # extra) \<Longrightarrow> wf_snapshot b \<and> sound_board b \<and> generations_rise (last hs) b"
  let ?d = "run_turns P T now dir ts d" and ?b = "last (hs @ extra)"
  have "hs \<noteq> []" using chain.history_wf [OF assms(1)] by simp
  then have "?b \<in> set (last hs # extra)" by (cases extra rule: rev_cases) simp_all
  from s [OF this] have b: "wf_snapshot ?b" "generations_rise (last hs) ?b" by blast+
  show "\<exists>e. snd (turn_result P T now dir t ?d) = Inl e"
  proof (cases "snd (turn_result P T now dir t ?d)")
    case (Inr y)
    then obtain s' where "perform P T now (chain_store P dir (turn_token t) (turn_env t)) (turn_meanwhile t) (turn_call t) ?d = (s', Inr y)"
      by (cases "turn_result P T now dir t ?d") (simp add: turn_result_def)
    from claim_call_edit [OF assms(6) this] obtain f mut where
      f: "mut = on_item (item_id i) f \<or> mut = guarded (on_item (item_id i) f)" "\<And>b i i'. f b i = Inr i' \<Longrightarrow> claim_generation i = g"
      and tr: "transact_board (chain_store P dir (turn_token t) (turn_env t)) ?d mut = (s', Inr y)" by blast
    obtain saved out where y: "y = (saved, out)" by (cases y)
    have "admissible P dir sound_step (turn_token t) (turn_env t) ?d" using assms(7) by (simp add: fair_turn_def)
    from chain.transact_result [OF h this tr [unfolded y]] have "apply_mutator mut ?b = Inr (saved, out)" .
    from stale_edit [OF this f(1), of g] f(2) obtain j where j: "j \<in> set ?b" "item_id j = item_id i" "claim_generation j = g" by metis
    from b(2) assms(4) obtain k where k: "k \<in> set ?b" "item_id k = item_id i" "claim_generation i \<le> claim_generation k"
      by (auto simp: generations_rise_def)
    have "j = k" using b(1) j k by (auto simp: wf_snapshot_def distinct_map inj_on_def)
    with j k assms(5) show ?thesis by simp
  qed blast
qed

theorem older_claims_are_refused_witness:
  "\<exists>e. snd (turn_result demo_platform demo_trust ''now'' ''dir'' (demo_turn (Block_Call ''a'' ''w'' 0 None))
     (run_turns demo_platform demo_trust ''now'' ''dir'' [] (demo_disk [demo_item ''a'' READY [], demo_item ''b'' READY [''a'']]))) = Inl e"
  by (rule older_claims_are_refused [OF demo_disk_history [OF demo_board_wf], where i = "demo_item ''a'' READY []" and g = 0])
    (simp_all add: demo_board_sound demo_turn_fair demo_disk_def claim_calls_def)

subsection \<open>Assessments\<close>

text \<open>The policy the caller declares, hardened for acceptance, trusts the bundle at its boundary.\<close>

definition trusted_bundle :: "platform \<Rightarrow> review_trust \<Rightarrow> string \<Rightarrow> item \<Rightarrow> requirement \<Rightarrow> active_review \<Rightarrow> review_bundle \<Rightarrow> bool" where
  "trusted_bundle P T now i q a b \<longleftrightarrow> (\<exists>declared policy trust.
     trust_policy_for T i q (active_reviewer a) (active_subject a) = Inr declared \<and> review_policy declared = Inr policy \<and>
     evaluate_trust_boundary P (bundle_attestation b) (bundle_decision b) (bundle_evidence b)
       (Some (review_subject_json (active_subject a))) policy (Some (trust_signature T i q (active_reviewer a)))
       (Some (trust_evaluator T i q (active_reviewer a))) (Some (trust_evidence T i q (active_reviewer a))) now = Inr trust \<and>
     boundary_trusted trust)"

lemma evaluated_trusted: "evaluate_review_bundle P T now i q a b = Inr x \<Longrightarrow> trusted_bundle P T now i q a b"
  by (erule evaluated_bundle) (auto simp: trusted_bundle_def)

text \<open>C10: recordAssessment is refused unless the bundle is trusted at the acceptance boundary for the review the
  board shows when it is read, and unless the head at the time of the commit, whatever others committed
  while trust was evaluated, still has that very review active (key, reviewer, generation and subject).\<close>

theorem untrusted_or_stale_assessments_are_refused:
  assumes "chain_history P dir d hs" "fair_turn P dir t d" "turn_call t = Assess_Call iid key b"
    "observe_review iid key (last hs) = Inr (i, q, a)"
    "\<not> trusted_bundle P T now i q a b \<or>
     (\<exists>hs'. chain_history P dir (turn_meanwhile t d) hs' \<and>
        (\<forall>j. find_item (last hs') iid = Inr j \<longrightarrow> \<not> same_active_review (active j) a))"
  shows "\<exists>e. snd (turn_result P T now dir t d) = Inl e"
proof (rule ccontr)
  let ?S = "chain_store P dir (turn_token t) (turn_env t)"
  assume "\<nexists>e. snd (turn_result P T now dir t d) = Inl e"
  then obtain d' saved out where ok: "record_assessment P T (guard_terminal_cancellation ?S) now (turn_meanwhile t) iid key b d = (d', Inr (saved, out))"
    using assms(3) by (cases "turn_result P T now dir t d"; cases "snd (turn_result P T now dir t d)") (auto simp: turn_result_def)
  have read: "read_blackboard (guard_terminal_cancellation ?S) d = (d, Inr (last hs))"
    by (rule guarded_chain.read_blackboard_head [OF assms(1)])
  from ok read assms(4) obtain x where x: "evaluate_review_bundle P T now i q a b = Inr x"
    and tr: "transact_board ?S (turn_meanwhile t d) (guarded (on_item iid (record_assessment_edit iid key a x))) = (d', Inr (saved, out))"
    by (auto simp: record_assessment_def split: sum.splits)
  from evaluated_trusted [OF x] assms(5) obtain hs' where hs': "chain_history P dir (turn_meanwhile t d) hs'"
    and stale: "\<forall>j. find_item (last hs') iid = Inr j \<longrightarrow> \<not> same_active_review (active j) a" by blast
  have "admissible P dir sound_step (turn_token t) (turn_env t) (turn_meanwhile t d)"
    using assms(1,2) unfolding fair_turn_def meanwhile_ok_def by blast
  from guarded_result [OF chain.transact_result [OF hs' this tr]] obtain j j' where
    "find_item (last hs') iid = Inr j" "record_assessment_edit iid key a x (last hs') j = Inr j'"
    by (auto simp: apply_mutator_def on_item_def)
  with stale show False by (auto simp: record_assessment_edit_def)
qed

definition demo_review :: active_review where
  "demo_review = \<lparr>active_key = ''a'', active_reviewer = ''b'', active_generation = 1,
     active_subject = \<lparr>subject_type = ''w'', subject_digest = ''w'', subject_producer = JNull, subject_metadata = JObj []\<rparr>\<rparr>"

definition demo_requirement :: requirement where
  "demo_requirement = \<lparr>req_key = ''a'', req_source = PM, req_reason = ''w''\<rparr>"

definition demo_reviewing :: item where
  "demo_reviewing = (demo_item ''a'' REVIEWING [])\<lparr>active := Some demo_review, requirements := [demo_requirement],
     submission := Some (JObj []), submitted_by := Some ''w''\<rparr>"

lemma demo_reviewing_wf: "wf_snapshot [demo_reviewing]"
  by (simp add: wf_snapshot_def wf_item_def loose_item_def demo_reviewing_def demo_item_def demo_review_def demo_requirement_def
      wf_requirement_def wf_active_def text_list_ok_def nonblank_letters)

lemma demo_observe: "observe_review ''a'' ''a'' [demo_reviewing] = Inr (demo_reviewing, demo_requirement, demo_review)"
  by (simp add: observe_review_def find_item_def demo_reviewing_def demo_review_def demo_requirement_def requirement_for_def
      type_invariant_def)

theorem untrusted_or_stale_assessments_are_refused_witness:
  "\<exists>e. snd (turn_result demo_platform demo_trust ''now'' ''dir'' (demo_turn (Assess_Call ''a'' ''a'' \<lparr>bundle_evidence = [], bundle_decision = None, bundle_attestation = None\<rparr>))
     (demo_disk [demo_reviewing])) = Inl e"
  by (rule untrusted_or_stale_assessments_are_refused [OF demo_disk_history [OF demo_reviewing_wf], where iid = "''a''" and key = "''a''"
        and b = "\<lparr>bundle_evidence = [], bundle_decision = None, bundle_attestation = None\<rparr>"])
    (simp_all add: demo_turn_fair demo_disk_def demo_observe, simp add: trusted_bundle_def demo_trust_def)

subsection \<open>Superseded work\<close>

definition keeps_superseded :: "mutator \<Rightarrow> bool" where
  "keeps_superseded mut \<longleftrightarrow> (\<forall>b saved out. wf_snapshot b \<and> apply_mutator mut b = Inr (saved, out) \<longrightarrow>
     (\<forall>i \<in> set b. item_status i = SUPERSEDED \<longrightarrow> i \<in> set saved))"

lemma keeps_guarded: "keeps_superseded (guarded mut)"
  unfolding keeps_superseded_def using guarded_keeps_superseded by blast

lemma keeps_on_item:
  assumes "good_edit f" "\<And>b i i'. f b i = Inr i' \<Longrightarrow> item_status i \<noteq> SUPERSEDED \<or> i' = i"
  shows "keeps_superseded (on_item iid f)"
  unfolding keeps_superseded_def
proof (intro allI impI ballI, elim conjE)
  fix b saved out i assume wf: "wf_snapshot b" and m: "apply_mutator (on_item iid f) b = Inr (saved, out)"
    and i: "i \<in> set b" "item_status i = SUPERSEDED"
  from m obtain j j' where j: "find_item b iid = Inr j" "f b j = Inr j'" and d: "define_snapshot (Some (snapshot_json (put_item j' b))) = Inr saved"
    by (auto simp: apply_mutator_def on_item_def)
  have "saved = put_item j' b" using edit_kept [OF assms(1) wf j] d define_snapshot_loose by blast
  moreover have "i \<in> set (put_item j' b)"
  proof (cases "item_id i = item_id j'")
    case False
    with put_item_member [OF i(1), of j'] show ?thesis by simp
  next
    case True
    have "j \<in> set b" "wf_item j" using find_item_Inr [OF j(1)] wf by (auto simp: wf_snapshot_def)
    then have "item_id j' = item_id j" using assms(1) j(2) unfolding good_edit_def by blast
    with True wf i(1) \<open>j \<in> set b\<close> have "i = j" by (auto simp: wf_snapshot_def distinct_map inj_on_def)
    with assms(2) [OF j(2)] i(2) have "j' = i" by auto
    with put_item_member [OF i(1), of j'] show ?thesis by simp
  qed
  ultimately show "i \<in> set saved" by simp
qed

lemma keeps_materialize:
  assumes "normalize_materialization input = Inr m"
  shows "keeps_superseded (materialize_mutator m authorized)"
  unfolding keeps_superseded_def
proof (intro allI impI ballI, elim conjE)
  fix b saved out i assume wf: "wf_snapshot b" and m: "apply_mutator (materialize_mutator m authorized) b = Inr (saved, out)"
    and i: "i \<in> set b"
  from m obtain c where c: "materialize_mutator m authorized b = Inr (c, out)" and d: "define_snapshot (Some (snapshot_json c)) = Inr saved"
    by (auto simp: apply_mutator_def)
  have "c = b \<or> c = b @ [materialized_item m]"
    using c unfolding materialize_mutator_def rbind_Inr_iff by (auto split: option.splits)
  then have "i \<in> set c" using i by auto
  moreover have "wf_item i" using wf i by (simp add: wf_snapshot_def)
  ultimately show "i \<in> set saved" using define_snapshot_member [OF d] by blast
qed

text \<open>A base call that succeeds is one guarded transaction.\<close>

definition one_transaction :: "'s board_store \<Rightarrow> ('s \<Rightarrow> 's) \<Rightarrow> 's \<Rightarrow> 's \<Rightarrow> item list \<times> json \<Rightarrow> bool" where
  "one_transaction S meanwhile s s' y \<longleftrightarrow>
     (\<exists>s0 \<in> {s, meanwhile s}. \<exists>mut. transact_board S s0 mut = (s', Inr y) \<and> keeps_superseded mut)"

lemma one_guarded: "transact_board S s (guarded mut) = (s', Inr y) \<Longrightarrow> one_transaction S meanwhile s s' y"
  unfolding one_transaction_def using keeps_guarded by blast

lemma one_guarded_later:
  "transact_board S (meanwhile s) (guarded mut) = (s', Inr y) \<Longrightarrow> one_transaction S meanwhile s s' y"
  unfolding one_transaction_def using keeps_guarded by blast

lemma base_call_transaction:
  "run_op (guard_terminal_cancellation S) checks mut s = (s', Inr y) \<Longrightarrow> one_transaction S meanwhile s s' y"
  by (drule run_op_Inr) (simp add: one_guarded)

lemma checked_call_transaction:
  "(case x of Inl e \<Rightarrow> (s, Inl e) | Inr v \<Rightarrow> transact_board (guard_terminal_cancellation S) s (mut v)) = (s', Inr y) \<Longrightarrow>
     one_transaction S meanwhile s s' y"
  by (cases x) (simp_all add: one_guarded)

lemma added_call_transaction:
  assumes "run_op S checks (on_item iid f) s = (s', Inr y)" "\<forall>c \<in> set checks. c = Inr () \<Longrightarrow> good_edit f"
    "\<And>b i i'. f b i = Inr i' \<Longrightarrow> item_status i \<noteq> SUPERSEDED \<or> i' = i"
  shows "one_transaction S meanwhile s s' y"
proof -
  from assms(1) have "\<forall>c \<in> set checks. c = Inr ()" by (auto simp: run_op_def split: sum.splits)
  have "keeps_superseded (on_item iid f)" by (rule keeps_on_item [OF assms(2) [OF \<open>\<forall>c \<in> set checks. c = Inr ()\<close>]]) (rule assms(3))
  with run_op_Inr [OF assms(1)] show ?thesis unfolding one_transaction_def by blast
qed

lemma assessment_transaction:
  assumes "record_assessment P T (guard_terminal_cancellation S) now meanwhile iid key b s = (s', Inr y)"
    "fst (read_blackboard (guard_terminal_cancellation S) s) = s"
  shows "one_transaction S meanwhile s s' y"
  using assms by (auto simp: record_assessment_def one_guarded_later split: sum.splits prod.splits)

lemma added_not_superseded:
  "recover_self_upgrade_edit iid owner blocker expected b i = Inr i' \<Longrightarrow> item_status i \<noteq> SUPERSEDED"
  "resolve_checkpoint_edit iid who expected v b i = Inr i' \<Longrightarrow> item_status i \<noteq> SUPERSEDED"
  "submit_required_edit iid owner g v ws required b i = Inr i' \<Longrightarrow> item_status i \<noteq> SUPERSEDED"
  "invalidate_claim_edit iid owner g kind r a b i = Inr i' \<Longrightarrow> item_status i \<noteq> SUPERSEDED"
  "block_materialization_edit auth g why b i = Inr i' \<Longrightarrow> item_status i \<noteq> SUPERSEDED \<or> i' = i"
  by (auto simp: recover_self_upgrade_edit_def resolve_checkpoint_edit_def submit_required_edit_def
      dest: invalidate_claim_result block_materialization_result)

lemma submit_required_transaction:
  assumes "submit_with_required_reviews P S iid owner g v resolved raw s = (s', Inr y)"
  shows "one_transaction S meanwhile s s' y"
proof -
  from assms obtain required where ok: "nonblank owner" "is_plain v" "normalize_required_reviews raw = Inr required"
    and tr: "transact_board S s (on_item iid (submit_required_edit iid owner g v resolved required)) = (s', Inr y)"
    by (auto simp: submit_with_required_reviews_def split: sum.splits)
  have "\<forall>q \<in> set required. wf_requirement q" by (rule required_reviews_wf [OF ok(3)])
  with ok have "good_edit (submit_required_edit iid owner g v resolved required)" by (intro good_submit_required)
  then have "keeps_superseded (on_item iid (submit_required_edit iid owner g v resolved required))"
    by (rule keeps_on_item) (blast dest: added_not_superseded)
  with tr show ?thesis unfolding one_transaction_def by blast
qed

lemma materialize_transaction:
  assumes "materialize_accepted_work S input authorized s = (s', Inr y)"
  shows "one_transaction S meanwhile s s' y"
proof -
  from assms obtain m where "normalize_materialization input = Inr m" "transact_board S s (materialize_mutator m authorized) = (s', Inr y)"
    by (auto simp: materialize_accepted_work_def split: sum.splits)
  with keeps_materialize [of input m authorized] show ?thesis unfolding one_transaction_def by blast
qed

lemma extend_transaction: "extend_work_graph S x s = (s', Inr y) \<Longrightarrow> one_transaction S meanwhile s s' y"
  by (cases x) (simp_all add: extend_work_graph_def one_guarded)

lemma added_calls_transaction:
  "recover_self_upgrade_claim S iid owner blocker expected s = (s', Inr y) \<Longrightarrow> one_transaction S meanwhile s s' y"
  "resolve_blocked_checkpoint S iid who expected v s = (s', Inr y) \<Longrightarrow> one_transaction S meanwhile s s' y"
  "block_organization_materialization S iid auth g why s = (s', Inr y) \<Longrightarrow> one_transaction S meanwhile s s' y"
  "invalidate_organization_claim P S iid owner g kind r artifact s = (s', Inr y) \<Longrightarrow> one_transaction S meanwhile s s' y"
  unfolding recover_self_upgrade_claim_def resolve_blocked_checkpoint_def block_organization_materialization_def
    invalidate_organization_claim_def Let_def
  by (erule added_call_transaction;
      (intro good_recover_self_upgrade good_resolve_checkpoint good_block_materialization good_invalidate_claim; simp)?;
      blast dest: added_not_superseded)+

lemma perform_transaction:
  assumes "perform P T now S meanwhile c s = (s', Inr y)" "fst (read_blackboard (guard_terminal_cancellation S) s) = s"
  shows "one_transaction S meanwhile s s' y"
  using assms(1)
  by (cases c)
    (auto simp: seed_def claim_def recover_claim_def resume_def supersede_def submit_def begin_review_def recover_review_def
      reconcile_finding_def checkpoint_item_def block_item_def require_review_def
      intro: base_call_transaction checked_call_transaction assessment_transaction [OF _ assms(2)] submit_required_transaction
        materialize_transaction extend_transaction added_calls_transaction)

end
