(* ===== verification/Blackboard_Work.thy ===== *)
theory Blackboard_Work
  imports Blackboard_Props
begin

section \<open>What the blackboard guarantees of the work itself\<close>

text \<open>
  Properties of superseded items, of the documents and graphs the blackboard accepts, of the
  extension of a work graph, and of the progress a valid graph allows.
\<close>

subsection \<open>A commit on a disk nobody else touches\<close>

lemma serialize_nonblank:
  assumes "wf_snapshot b"
  obtains s where "serialize_snapshot b = Inr s" "nonblank s"
proof
  show "serialize_snapshot b = Inr (pretty '''' (snapshot_json b) @ [CHR 0x0A])"
    using assms by (simp add: serialize_snapshot_def snapshot_roundtrip)
  show "nonblank (pretty '''' (snapshot_json b) @ [CHR 0x0A])"
    by (simp add: snapshot_json_def nonblank_iff js_space_def)
qed

lemma links_tokens: "links P dir d hs \<Longrightarrow> h \<in> set (tl hs) \<Longrightarrow> nonblank (fst h)"
proof (induction P dir d hs rule: links.induct)
  case (3 P dir d h' k hs)
  from 3(2) obtain c where c: "read_committed_successor P dir d h' = Inr (Some c)" "next_token c = fst k" by auto
  then have "nonblank (next_token c)"
    by (auto simp: read_committed_successor_def parse_commit_record_def define_commit_record_def Let_def
        split: option.splits sum.splits)
  with c 3 show ?case by auto
qed auto

lemma head_token:
  assumes "revisions P dir d hs"
  shows "nonblank (fst (last hs))"
proof (cases "tl hs = []")
  case True
  with assms have "fst (last hs) = ''root''" by (cases hs) (simp_all add: revisions_def)
  then show ?thesis by (simp add: nonblank_iff js_space_def)
next
  case False
  have "links P dir d hs" using assms by (simp add: revisions_def)
  with False show ?thesis using links_tokens [of P dir d hs "last hs"] by (cases hs) auto
qed

lemma quiet_commit:
  assumes "revisions P dir d hs" "apply_mutator mut (snd (last hs)) = Inr (c, out)"
    "nonblank token" "token \<noteq> fst (last hs)" "\<forall>s. nonblank s \<longrightarrow> nonblank (sha256_hex P s)"
  shows "snd (chain_transact P dir token idle d mut) = Inr (c, out)"
proof -
  let ?b = "snd (last hs)"
  have hs: "hs \<noteq> []" using assms(1) by (simp add: revisions_def)
  have b: "wf_snapshot ?b" by (rule revisions_wf [OF assms(1)]) (simp add: hs)
  have c: "wf_snapshot c" by (rule apply_mutator_wf [OF assms(2)])
  obtain s s' where s: "serialize_snapshot ?b = Inr s" "nonblank s" "serialize_snapshot c = Inr s'"
    using b c by (meson serialize_nonblank)
  let ?r = "\<lparr>base_token = fst (last hs), base_digest = sha256_hex P s, next_token = token, commit_snapshot = c\<rparr>"
  have "define_commit_record (Some (commit_json ?r)) src = Inr ?r" for src
    using head_token [OF assms(1)] assms(3-5) s(2) snapshot_roundtrip [OF c]
    by (simp add: define_commit_record_def commit_json_def Let_def type_invariant_def text_of_JStr)
  moreover have "map_of (commit_files d) (fst (last hs)) = None" using assms(1) links_last [of P dir d hs] by (simp add: revisions_def)
  ultimately show ?thesis using s(1,3) assms(2) revisions_head [OF assms(1), of "at_root idle"]
    by (simp add: chain_transact_def publish_successor_def snapshot_digest_def Let_def) (simp add: idle_def)
qed

lemma demo_revisions: "wf_snapshot b \<Longrightarrow> revisions P dir (demo_disk b) [(''root'', b)]"
  by (simp add: revisions_def read_root_def parse_snapshot_def demo_disk_def snapshot_roundtrip)

lemma demo_commit:
  assumes "wf_snapshot b" "apply_mutator mut b = Inr (c, out)"
  shows "snd (chain_transact demo_platform dir ''t'' idle (demo_disk b) mut) = Inr (c, out)"
  by (rule quiet_commit [OF demo_revisions [OF assms(1)]]) (simp_all add: assms(2) demo_platform_def, simp add: nonblank_iff js_space_def)

subsection \<open>Superseded work\<close>

text \<open>A call that commits keeps every SUPERSEDED item of the head it was applied to, field by field, whatever
  the call is and whatever others committed before it.\<close>

theorem superseded_items_are_immutable:
  assumes "chain_history P dir d hs" "fair_turn P dir t d" "snd (turn_result P T now dir t d) = Inr (saved, out)"
  shows "\<exists>d0 \<in> {d, turn_meanwhile t d}. \<exists>hs'. chain_history P dir d0 hs' \<and>
    (\<forall>i \<in> set (last hs'). item_status i = SUPERSEDED \<longrightarrow> i \<in> set saved)"
proof -
  let ?S = "chain_store P dir (turn_token t) (turn_env t)"
  obtain d' where p: "perform P T now ?S (turn_meanwhile t) (turn_call t) d = (d', Inr (saved, out))"
    using assms(3) by (cases "turn_result P T now dir t d") (simp add: turn_result_def)
  have "fst (read_blackboard (guard_terminal_cancellation ?S) d) = d"
    using guarded_chain.read_blackboard_head [OF assms(1)] by simp
  from perform_transaction [OF p this] obtain d0 mut where d0: "d0 \<in> {d, turn_meanwhile t d}"
    and tr: "transact_board ?S d0 mut = (d', Inr (saved, out))" and keeps: "keeps_superseded mut"
    unfolding one_transaction_def by blast
  have adm: "admissible P dir sound_step (turn_token t) (turn_env t) d"
    and mean: "meanwhile_ok (chain_history P dir) (admissible P dir sound_step (turn_token t) (turn_env t)) (turn_meanwhile t)"
    using assms(2) by (simp_all add: fair_turn_def)
  obtain hs' where hs': "chain_history P dir d0 hs'" "admissible P dir sound_step (turn_token t) (turn_env t) d0"
    using d0 assms(1) adm mean unfolding meanwhile_ok_def by blast
  have "apply_mutator mut (last hs') = Inr (saved, out)" by (rule chain.transact_result [OF hs' tr])
  moreover have "wf_snapshot (last hs')" using chain.history_wf [OF hs'(1)] by simp
  ultimately have "\<forall>i \<in> set (last hs'). item_status i = SUPERSEDED \<longrightarrow> i \<in> set saved"
    using keeps unfolding keeps_superseded_def by blast
  with d0 hs'(1) show ?thesis by blast
qed

definition demo_before :: "item list" where
  "demo_before = [demo_item ''a'' SUPERSEDED [], demo_item ''b'' BLOCKED [''a'']]"

definition demo_after :: "item list" where
  "demo_after = [demo_item ''a'' SUPERSEDED [], demo_item ''b'' REOPENED [''a'']]"

lemma demo_wf: "wf_snapshot demo_before" "wf_snapshot demo_after"
  by (simp_all add: demo_before_def demo_after_def demo_board_wf)

lemma demo_resume: "apply_mutator (guarded (on_item ''b'' (resume_edit ''b''))) demo_before = Inr (demo_after, item_json (demo_item ''b'' REOPENED [''a'']))"
proof -
  have "(demo_item ''b'' BLOCKED [''a''])\<lparr>blockers := [], item_status := REOPENED\<rparr> = demo_item ''b'' REOPENED [''a'']"
    by (simp add: demo_item_def)
  then have "on_item ''b'' (resume_edit ''b'') demo_before = Inr (demo_after, item_json (demo_item ''b'' REOPENED [''a'']))"
    by (simp add: on_item_def find_item_def demo_before_def demo_after_def resume_edit_def put_item_def)
  moreover have "superseded_immutable demo_before demo_after = Inr ()"
    by (simp add: demo_before_def demo_after_def by_id_def)
  ultimately show ?thesis using snapshot_roundtrip [OF demo_wf(2)] by (simp add: apply_mutator_def guarded_def)
qed

lemma demo_resume_turn:
  "snd (turn_result demo_platform demo_trust ''now'' ''dir'' (demo_turn (Resume_Call ''b'')) (demo_disk demo_before)) =
     Inr (demo_after, item_json (demo_item ''b'' REOPENED [''a'']))"
  using demo_commit [OF demo_wf(1) demo_resume, of "''dir''"]
  by (simp add: turn_result_def demo_turn_def resume_def run_op_def need_def input_ok_def chain_store_def
      guard_terminal_cancellation_def text_of_JStr nonblank_letters)

theorem superseded_items_are_immutable_witness:
  "\<exists>d0 \<in> {demo_disk demo_before, turn_meanwhile (demo_turn (Resume_Call ''b'')) (demo_disk demo_before)}.
    \<exists>hs'. chain_history demo_platform ''dir'' d0 hs' \<and> (\<forall>i \<in> set (last hs'). item_status i = SUPERSEDED \<longrightarrow> i \<in> set demo_after)"
  by (rule superseded_items_are_immutable [OF demo_disk_history [OF demo_wf(1)] demo_turn_fair demo_resume_turn])
    (simp_all add: demo_disk_def)

subsection \<open>Documents\<close>

text \<open>C36: What the validation of a snapshot document accepts is exactly the well-formed boards, and writing a
  board out and validating it again gives the same board, and succeeds on well-formed boards only.\<close>

theorem accepted_documents_are_the_wf_boards:
  "((\<exists>raw. define_snapshot raw = Inr items) \<longleftrightarrow> wf_snapshot items) \<and>
   (define_snapshot (Some (snapshot_json items)) = Inr items \<longleftrightarrow> wf_snapshot items)"
  using define_snapshot_wf snapshot_roundtrip by blast

text \<open>C12: The diagnosis of a snapshot document reports nothing exactly when every dependency names an item of the
  board and the dependency relation is acyclic; every cycle it reports is a walk along dependencies
  that starts and ends at the reported dependency.\<close>

theorem diagnosis_is_exact:
  assumes "define_snapshot raw = Inr b" "diagnose raw = Inr issues"
  shows "(issues = [] \<longleftrightarrow> closed_graph b \<and> acyclic (depends b)) \<and>
    (\<forall>a d cs. Cyclic_Dependency a d cs \<in> set issues \<longrightarrow>
       2 \<le> length cs \<and> hd cs = d \<and> last cs = d \<and> last (butlast cs) = a \<and> successively (\<lambda>x y. (x, y) \<in> depends b) cs)"
proof -
  have issues: "issues = dependency_issues b" using assms by (simp add: diagnose_def)
  have "distinct (map item_id b)" using define_snapshot_wf [OF assms(1)] by (simp add: wf_snapshot_def)
  note none = dependency_issues_Nil [OF this]
  have "2 \<le> length cs \<and> hd cs = d \<and> last cs = d \<and> last (butlast cs) = a \<and> successively (\<lambda>x y. (x, y) \<in> depends b) cs"
    if c: "Cyclic_Dependency a d cs \<in> set issues" for a d cs
  proof -
    have "Cyclic_Dependency a d cs \<notin> set (edge_issues b)" by (auto simp: edge_issues_def)
    with c have "genuine b (Cyclic_Dependency a d cs)" by (auto simp: issues dependency_issues_def dest: reported_genuine)
    moreover have "successively (\<lambda>x y. (x, y) \<in> depends b) cs" if "successively (\<lambda>x y. (x, y) \<in> edges b) cs"
      by (rule successively_mono [OF that]) (simp add: edges_def depends_def)
    ultimately show ?thesis by (simp add: genuine_def)
  qed
  with none show ?thesis by (simp add: issues)
qed

definition demo_cycle :: "item list" where
  "demo_cycle = [demo_item ''a'' READY [''b''], demo_item ''b'' READY [''a'']]"

lemma demo_cycle_wf: "wf_snapshot demo_cycle"
  by (simp add: demo_cycle_def wf_snapshot_def wf_item_def loose_item_def demo_item_def text_list_ok_def nonblank_letters)

lemma demo_cycle_issues: "dependency_issues demo_cycle = [Cyclic_Dependency ''b'' ''a'' [''a'', ''b'', ''a'']]"
  by (simp add: dependency_issues_def edge_issues_def demo_cycle_def board_ids_def visit_def dependencies_of_def enter_def leave_def
      report_cycle_def)

theorem diagnosis_is_exact_witness:
  "2 \<le> length [''a'', ''b'', ''a''] \<and> (''a'', ''b'') \<in> depends demo_cycle \<and> \<not> (closed_graph demo_cycle \<and> acyclic (depends demo_cycle))"
  using diagnosis_is_exact [OF snapshot_roundtrip [OF demo_cycle_wf], of "[Cyclic_Dependency ''b'' ''a'' [''a'', ''b'', ''a'']]"]
  by (simp add: diagnose_def snapshot_roundtrip [OF demo_cycle_wf] demo_cycle_issues)

subsection \<open>Committing\<close>

text \<open>C7: A transaction takes effect in one place of the chain: at the head it was computed on, right after that
  head, or nowhere.  Whatever the others do while it runs, the committed boards stay as they were, the
  others' boards are steps of \<open>R\<close>, and a result is the result of the mutator on the head.\<close>

theorem commits_are_linearizable:
  assumes "revisions P dir d hs" "honest P dir R token env" "map_of (commit_files d) token = None"
  shows "\<exists>extra. revisions P dir (fst (chain_transact P dir token env d mut)) (hs @ extra) \<and>
    (case snd (chain_transact P dir token env d mut) of
       Inl e \<Rightarrow> successively R (snd (last hs) # boards extra)
     | Inr (board, out) \<Rightarrow> apply_mutator mut (snd (last hs)) = Inr (board, out) \<and>
         (successively R (snd (last hs) # boards extra) \<or>
          (\<exists>others. boards extra = board # others \<and> successively R (board # others))))"
proof -
  obtain d' r where t: "chain_transact P dir token env d mut = (d', r)" by (cases "chain_transact P dir token env d mut")
  from chain_transact_history(1) [OF assms t] obtain extra where e: "revisions P dir d' (hs @ extra)"
    "successively R (snd (last hs) # boards extra) \<or>
      (\<exists>board out others. r = Inr (board, out) \<and> apply_mutator mut (snd (last hs)) = Inr (board, out) \<and>
         boards extra = board # others \<and> successively R (board # others))" by blast
  show ?thesis
  proof (cases r)
    case (Inl x)
    with e t show ?thesis by auto
  next
    case (Inr y)
    obtain board out where y: "y = (board, out)" by (cases y)
    have "apply_mutator mut (snd (last hs)) = Inr (board, out)"
      by (rule chain_transact_history(2) [OF assms t]) (simp add: Inr y)
    with e t show ?thesis by (intro exI [of _ extra]) (auto simp: Inr y)
  qed
qed

theorem commits_are_linearizable_witness:
  "\<exists>extra. revisions demo_platform ''dir'' (fst (chain_transact demo_platform ''dir'' ''t'' idle (demo_disk []) (seed_mutator [])))
      ([(''root'', [])] @ extra) \<and>
    (case snd (chain_transact demo_platform ''dir'' ''t'' idle (demo_disk []) (seed_mutator [])) of
       Inl e \<Rightarrow> successively sound_step (snd (last [(''root'', [])]) # boards extra)
     | Inr (board, out) \<Rightarrow> apply_mutator (seed_mutator []) (snd (last [(''root'', [])])) = Inr (board, out) \<and>
         (successively sound_step (snd (last [(''root'', [])]) # boards extra) \<or>
          (\<exists>others. boards extra = board # others \<and> successively sound_step (board # others))))"
  by (rule commits_are_linearizable [OF demo_revisions]) (simp_all add: wf_snapshot_def idle_honest demo_disk_def)

subsection \<open>Progress\<close>

lemma nothing_superseded: "\<forall>i \<in> set b. item_status i \<noteq> SUPERSEDED \<Longrightarrow> superseded_immutable b c = Inr ()"
  by (induction b) simp_all




subsection \<open>Extending the work graph\<close>

text \<open>An extension that is saved leaves a valid graph (every dependency present, none circular) of well-formed
  items, and leaves every item but its target and the ones it names as new exactly as they were.\<close>

theorem extension_keeps_the_graph:
  assumes "wf_snapshot b" "apply_mutator (guarded (extend_mutator x)) b = Inr (saved, r)"
  shows "wf_snapshot saved \<and> closed_graph saved \<and> acyclic (depends saved) \<and>
    (\<forall>i \<in> set b. item_id i \<noteq> ext_target x \<and> item_id i \<notin> item_id ` set (ext_items x) \<longrightarrow> i \<in> set saved)"
proof -
  have m: "apply_mutator (extend_mutator x) b = Inr (saved, r)" by (rule guarded_result [OF assms(2)])
  then obtain b' where e: "extend_mutator x b = Inr (b', r)" and d: "define_snapshot (Some (snapshot_json b')) = Inr saved"
    by (auto simp: apply_mutator_def)
  have "i \<in> set saved" if i: "i \<in> set b" "item_id i \<noteq> ext_target x" "item_id i \<notin> item_id ` set (ext_items x)" for i
  proof -
    have "i \<in> set b'" using extend_unrelated [OF e i(1,2)] i(3) by simp
    moreover have "wf_item i" using assms(1) i(1) by (simp add: wf_snapshot_def)
    ultimately show ?thesis using define_snapshot_member [OF d] by blast
  qed
  with extend_graph [OF m] apply_mutator_wf [OF m] show ?thesis by blast
qed

definition demo_extension :: extension where
  "demo_extension = \<lparr>ext_target = ''b'', ext_expected = \<lparr>expected_item = ''b'', expected_status = ''READY'', expected_claims = 1, expected_reviews = 0\<rparr>,
     ext_items = [demo_item ''w'' READY []], ext_edges = [\<lparr>edge_item = ''b'', edge_dependency = ''w''\<rparr>],
     ext_artifacts = [], ext_evidence = [], ext_blockers = [], ext_requirements = []\<rparr>"

lemma demo_extended:
  "\<exists>r. apply_mutator (guarded (extend_mutator demo_extension)) [demo_item ''a'' READY [], demo_item ''b'' READY [''a'']] =
     Inr ([demo_item ''a'' READY [], demo_item ''b'' READY [''a'', ''w''], demo_item ''w'' READY []], r)"
proof -
  let ?b = "[demo_item ''a'' READY [], demo_item ''b'' READY [''a'']]"
  let ?c = "[demo_item ''a'' READY [], demo_item ''b'' READY [''a'', ''w''], demo_item ''w'' READY []]"
  have c: "wf_snapshot ?c"
    by (simp add: wf_snapshot_def wf_item_def loose_item_def demo_item_def text_list_ok_def nonblank_letters)
  have deps: "(demo_item ''b'' READY [''a''])\<lparr>depends_on := [''a'', ''w'']\<rparr> = demo_item ''b'' READY [''a'', ''w'']"
    "(demo_item ''b'' READY [''a'', ''w''])\<lparr>artifact_refs := [], evidence_refs := []\<rparr> = demo_item ''b'' READY [''a'', ''w'']"
    "artifact_refs (demo_item ''b'' READY [''a'', ''w'']) = []" "evidence_refs (demo_item ''b'' READY [''a'', ''w'']) = []"
    by (simp_all add: demo_item_def)
  have "dependency_issues ?c = []"
    by (simp add: dependency_issues_def edge_issues_def board_ids_def visit_def dependencies_of_def enter_def leave_def)
  then have "assert_valid_graph ?c = Inr ()" using snapshot_roundtrip [OF c] by (simp add: assert_valid_graph_def diagnose_def)
  moreover have "review_generation (demo_item ''b'' READY [''a'']) = 0" by (simp add: demo_item_def)
  ultimately have "\<exists>r. extend_mutator demo_extension ?b = Inr (?c, r)"
    by (simp add: extend_mutator_def demo_extension_def find_item_def assert_expected_target_def graph_extension_status_def
        extend_target_def put_item_def add_unique.simps deps Let_def)
  moreover have "superseded_immutable ?b ?c = Inr ()" by (rule nothing_superseded) simp
  ultimately show ?thesis using snapshot_roundtrip [OF c] by (auto simp: apply_mutator_def guarded_def)
qed

theorem extension_keeps_the_graph_witness:
  "acyclic (depends [demo_item ''a'' READY [], demo_item ''b'' READY [''a'', ''w''], demo_item ''w'' READY []]) \<and>
   demo_item ''a'' READY [] \<in> set [demo_item ''a'' READY [], demo_item ''b'' READY [''a'', ''w''], demo_item ''w'' READY []]"
proof -
  obtain r where "apply_mutator (guarded (extend_mutator demo_extension)) [demo_item ''a'' READY [], demo_item ''b'' READY [''a'']] =
     Inr ([demo_item ''a'' READY [], demo_item ''b'' READY [''a'', ''w''], demo_item ''w'' READY []], r)"
    using demo_extended by blast
  from extension_keeps_the_graph [OF demo_board_wf this] show ?thesis by (simp add: demo_extension_def)
qed

subsection \<open>Follow-up work that is born finished\<close>

definition demo_disposal :: "item list" where
  "demo_disposal = [(demo_item ''a'' PENDING_RECONCILIATION [])\<lparr>findings := [\<lparr>finding_id = ''b'', finding_summary = ''w'', source_ref = ''w'',
     finding_review = ''w'', finding_disposition = None, target_item = None\<rparr>]\<rparr>]"

text \<open>C37: reconcileFinding with NEW_WORK takes the status of the new item from the caller: an item can enter the
  board DONE with no submission, no review and no requirement, which no other operation allows
  (extendWorkGraph insists on READY and on an empty history).\<close>

theorem new_work_can_be_born_done:
  "\<exists>raw saved r. apply_mutator (guarded (reconcile_mutator ''a'' ''b'' NEW_WORK None (Some (JObj raw)))) demo_disposal = Inr (saved, r) \<and>
     (\<exists>k \<in> set saved. item_id k = ''w'' \<and> item_status k = DONE \<and> reviews k = [] \<and> submission k = None \<and> \<not> sound_item k)"
proof -
  let ?raw = "[(''id'', JStr ''w''), (''work'', JStr ''w''), (''status'', JStr ''DONE'')]"
  let ?f = "\<lparr>finding_id = ''b'', finding_summary = ''w'', source_ref = ''w'', finding_review = ''w'', finding_disposition = None, target_item = None\<rparr>"
  let ?a = "(demo_item ''a'' PENDING_RECONCILIATION [])\<lparr>findings := [?f]\<rparr>"
  let ?k = "(demo_item ''w'' DONE [])\<lparr>claim_generation := 0, origin := Some (JObj [(''parentItemId'', JStr ''a''), (''findingId'', JStr ''b''),
     (''finding'', JStr ''w''), (''sourceRef'', JStr ''w'')])\<rparr>"
  let ?a' = "?a\<lparr>follow_up_refs := [''w''], findings := [?f\<lparr>finding_disposition := Some NEW_WORK, target_item := Some ''w''\<rparr>], item_status := DONE\<rparr>"
  have "new_work_item ?a ?f 1 ?raw = Inr ?k"
    by (simp add: new_work_item_def normalize_item_def Let_def read_enum_def item_statuses_def read_list_def js_array_def or_default_def
        map_indexed_def text_of_JStr nonblank_letters optional_def text_array_def normalize_active_review_def optional_json_def demo_item_def)
  then have "reconcile_mutator ''a'' ''b'' NEW_WORK None (Some (JObj ?raw)) demo_disposal = Inr ([?a', ?k], item_json ?k)"
    by (simp add: reconcile_mutator_def demo_disposal_def find_item_def finding_for_def dispose_def type_invariant_def
        add_unique.simps set_finding_def put_item_def Let_def derive_post_review_status_def has_pending_findings_def
        non_accepted_review_def unresolved_review_def demo_item_def)
  moreover have "wf_snapshot [?a', ?k]"
    by (simp add: wf_snapshot_def wf_item_def loose_item_def demo_item_def text_list_ok_def wf_finding_def nonblank_letters)
  moreover have "superseded_immutable demo_disposal [?a', ?k] = Inr ()" by (rule nothing_superseded) (simp add: demo_disposal_def)
  ultimately have "apply_mutator (guarded (reconcile_mutator ''a'' ''b'' NEW_WORK None (Some (JObj ?raw)))) demo_disposal =
      Inr ([?a', ?k], item_json ?k)"
    by (simp add: apply_mutator_def guarded_def snapshot_roundtrip)
  moreover have "\<not> sound_item ?k" by (simp add: sound_item_def done_sound_def demo_item_def)
  ultimately show ?thesis by (intro exI [of _ ?raw] exI conjI) (assumption, simp add: demo_item_def)
qed

end
