(* ===== verification/Async_Context.thy ===== *)
theory Async_Context
  imports Detached_Store Js_Values
begin

section \<open>The context of asynchronous results\<close>

text \<open>
  \<open>packages/core-harness/src/async-result-context.js\<close>: transitions of detached operations
  become items a model will see.  New items are staged; a submission commits a leading part of
  the staged items.  The committed items are an exact prefix of every later request, and a
  digest of their bytes guards them.  \<open>sha\<close> is the SHA-256 of the platform.
\<close>

subsection \<open>Items\<close>

definition async_binding_fault :: "string \<Rightarrow> error" where
  "async_binding_fault msg = Contract ''ASYNC_RESULT_CONTEXT_BINDING_MISMATCH'' msg"

definition async_prefix_fault :: "string \<Rightarrow> error" where
  "async_prefix_fault msg = Contract ''ASYNC_RESULT_CONTEXT_PREFIX_CORRUPTION'' msg"

definition async_pairing_fault :: "string \<Rightarrow> error" where
  "async_pairing_fault msg = Contract ''ASYNC_RESULT_CONTEXT_PAIRING_VIOLATION'' msg"

text \<open>A transition after validation.\<close>

record async_update =
  up_operation :: string
  up_transition :: string
  up_generation :: int
  up_sequence :: int
  up_status :: op_status
  up_call :: "string option"
  up_effect :: string
  up_result :: json
  up_error :: json

definition require_positive_integer :: "jsval \<Rightarrow> string \<Rightarrow> int res" where
  "require_positive_integer v label =
     (case v of
        Some (JNum n) \<Rightarrow> if 1 \<le> n then Inr n else Inl (Invariant (label @ '' must be a positive integer''))
      | _ \<Rightarrow> Inl (Invariant (label @ '' must be a positive integer'')))"

lemma require_positive_integer_Inr [simp]:
  "require_positive_integer v label = Inr n \<longleftrightarrow> v = Some (JNum n) \<and> 1 \<le> n"
  by (auto simp: require_positive_integer_def split: option.splits json.splits)

abbreviation text_member :: "jsval \<Rightarrow> string \<Rightarrow> string res" where
  "text_member v label \<equiv> require_text (or_null v) label"

lemma or_null_JStr [simp]: "or_null v = JStr s \<longleftrightarrow> v = Some (JStr s)"
  by (auto simp: or_default_def nullish_def)

definition normalize_transition_input :: "jsval \<Rightarrow> async_update res" where
  "normalize_transition_input raw =
     (let f = opt_member raw; at = ''async-result transition ''; emb = f ''binding'';
          call = (case opt_member emb ''callId'' of Some v \<Rightarrow> Some v | None \<Rightarrow> f ''callId'');
          eff = (case opt_member emb ''effectOperationId'' of Some v \<Rightarrow> Some v | None \<Rightarrow> f ''effectOperationId'') in
      rbind (invariant (case raw of Some (JObj _) \<Rightarrow> True | _ \<Rightarrow> False) (at @ ''envelope is required'')) (\<lambda>_.
      rbind (text_member (f ''operationId'') (at @ ''operationId'')) (\<lambda>op.
      rbind (text_member (f ''transitionId'') (at @ ''transitionId'')) (\<lambda>tid.
      rbind (require_positive_integer (f ''generation'') (at @ ''generation'')) (\<lambda>gen.
      rbind (require_positive_integer (f ''sequence'') (at @ ''sequence'')) (\<lambda>sq.
      rbind (text_member (f ''status'') (at @ ''status'')) (\<lambda>s.
      rbind (case parse_status s of Some st \<Rightarrow> Inr st
             | None \<Rightarrow> Inl (Invariant (at @ ''status must be one of '' @ join ''|'' (map status_text all_statuses)))) (\<lambda>st.
      rbind (invariant (nullish emb \<or> (case emb of Some (JObj _) \<Rightarrow> True | _ \<Rightarrow> False)) (at @ ''binding must be an object'')) (\<lambda>_.
      rbind (case call of Some JNull \<Rightarrow> Inr None
             | Some (JStr c) \<Rightarrow> map_sum id Some (require_text (JStr c) (at @ ''callId''))
             | _ \<Rightarrow> Inl (Invariant (at @ ''callId must be a string or null''))) (\<lambda>c.
      rbind (if nullish eff
             then Inl (async_binding_fault (at @ tid @ '' has unresolved effect identity: effectOperationId is required and ambiguity fails closed''))
             else text_member eff (at @ ''effectOperationId'')) (\<lambda>e.
      rbind (derive_transition_id op gen sq st) (\<lambda>expected.
        if tid \<noteq> expected
        then Inl (async_binding_fault (''async-result transitionId '' @ tid @
                    '' does not derive from its operationId/generation/sequence/status envelope (expected '' @ expected @
                    ''): forged or corrupted identity fails closed''))
        else Inr \<lparr>up_operation = op, up_transition = tid, up_generation = gen, up_sequence = sq, up_status = st, up_call = c,
                  up_effect = e, up_result = or_null (f ''result''), up_error = or_null (f ''error'')\<rparr>))))))))))))"

record async_item =
  ai_id :: string
  ai_operation :: string
  ai_call :: "string option"
  ai_effect :: string
  ai_generation :: int
  ai_sequence :: int
  ai_transition :: string
  ai_status :: op_status
  ai_terminal :: bool
  ai_result :: json
  ai_error :: json

definition async_binding_key :: "string \<Rightarrow> string option \<Rightarrow> string \<Rightarrow> int \<Rightarrow> int \<Rightarrow> op_status \<Rightarrow> string" where
  "async_binding_key op c e gen sq st = stable_stringify (JObj
     [(''operationId'', JStr op), (''callId'', text_or_null c), (''effectOperationId'', JStr e), (''generation'', JNum gen),
      (''sequence'', JNum sq), (''status'', JStr (status_text st))])"

definition update_key :: "async_update \<Rightarrow> string" where
  "update_key u = async_binding_key (up_operation u) (up_call u) (up_effect u) (up_generation u) (up_sequence u) (up_status u)"

definition item_key :: "async_item \<Rightarrow> string" where
  "item_key i = async_binding_key (ai_operation i) (ai_call i) (ai_effect i) (ai_generation i) (ai_sequence i) (ai_status i)"

definition operation_key :: "string option \<Rightarrow> string \<Rightarrow> string" where
  "operation_key c e = stable_stringify (JObj [(''callId'', text_or_null c), (''effectOperationId'', JStr e)])"

definition async_item_id :: "string \<Rightarrow> string" where
  "async_item_id t = ''async-result:'' @ t"

lemma async_item_id_eq [simp]: "async_item_id t = async_item_id u \<longleftrightarrow> t = u"
  by (simp add: async_item_id_def)

lemma async_item_id_nonblank: "nonblank t \<Longrightarrow> nonblank (async_item_id t)"
  unfolding async_item_id_def by (rule nonblank_appendI(2))

definition item_of_update :: "async_update \<Rightarrow> async_item" where
  "item_of_update u =
     (let terminal = is_terminal (up_status u) in
      \<lparr>ai_id = async_item_id (up_transition u), ai_operation = up_operation u, ai_call = up_call u, ai_effect = up_effect u,
       ai_generation = up_generation u, ai_sequence = up_sequence u, ai_transition = up_transition u, ai_status = up_status u,
       ai_terminal = terminal, ai_result = (if terminal then up_result u else JNull), ai_error = (if terminal then up_error u else JNull)\<rparr>)"

definition async_item_json :: "async_item \<Rightarrow> json" where
  "async_item_json i = JObj
     [(''kind'', JStr ''ASYNC_OPERATION_UPDATE/v1''), (''schemaVersion'', JNum 1), (''itemId'', JStr (ai_id i)),
      (''operationId'', JStr (ai_operation i)), (''callId'', text_or_null (ai_call i)), (''effectOperationId'', JStr (ai_effect i)),
      (''generation'', JNum (ai_generation i)), (''sequence'', JNum (ai_sequence i)), (''transitionId'', JStr (ai_transition i)),
      (''status'', JStr (status_text (ai_status i))), (''terminal'', JBool (ai_terminal i)), (''result'', ai_result i),
      (''error'', ai_error i)]"

definition serialize_item :: "async_item \<Rightarrow> string" where
  "serialize_item i = stable_stringify (async_item_json i)"

definition projection_bytes :: "async_item list \<Rightarrow> string" where
  "projection_bytes items = join [CHR 0x0A] (map serialize_item items)"

definition digest_of_bytes :: "(string \<Rightarrow> string) \<Rightarrow> string \<Rightarrow> string" where
  "digest_of_bytes sha t = ''sha256:'' @ sha t"

text \<open>\<open>Buffer.byteLength(text, 'utf8')\<close> for characters below 256.\<close>

definition utf8_length :: "string \<Rightarrow> nat" where
  "utf8_length t = sum_list (map (\<lambda>c. if (of_char c :: nat) < 128 then 1 else 2) t)"

subsection \<open>The state\<close>

record async_state =
  async_profile :: json
  committed_items :: "async_item list"
  staged_items :: "async_item list"
  seen_bindings :: "(string \<times> string) list"
  operation_bindings :: "(string \<times> string) list"
  max_generations :: "(string \<times> int) list"
  last_sequences :: "(string \<times> int) list"
  committed_digest :: string
  committed_bytes :: nat
  staged_digest :: string
  staged_bytes :: nat
  committed_text :: string
  submission_count :: int
  last_submission :: "string option"

definition all_items :: "async_state \<Rightarrow> async_item list" where
  "all_items s = committed_items s @ staged_items s"

definition refresh_digests :: "(string \<Rightarrow> string) \<Rightarrow> async_state \<Rightarrow> async_state" where
  "refresh_digests sha s =
     (let c = projection_bytes (committed_items s); t = projection_bytes (staged_items s) in
      s\<lparr>committed_text := c, committed_bytes := utf8_length c, committed_digest := digest_of_bytes sha c,
        staged_bytes := utf8_length t, staged_digest := digest_of_bytes sha t\<rparr>)"

definition verify_committed_integrity :: "(string \<Rightarrow> string) \<Rightarrow> async_state \<Rightarrow> string res" where
  "verify_committed_integrity sha s =
     (let t = projection_bytes (committed_items s) in
      if digest_of_bytes sha t \<noteq> committed_digest s
      then Inl (async_prefix_fault ''committed async-result checkpoint failed integrity verification: recorded prefix digest does not match the committed items'')
      else Inr t)"

definition create_async_state :: "(string \<Rightarrow> string) \<Rightarrow> json \<Rightarrow> async_state" where
  "create_async_state sha prof =
     \<lparr>async_profile = prof, committed_items = [], staged_items = [], seen_bindings = [], operation_bindings = [],
      max_generations = [], last_sequences = [], committed_digest = digest_of_bytes sha [], committed_bytes = 0,
      staged_digest = digest_of_bytes sha [], staged_bytes = 0, committed_text = [], submission_count = 0, last_submission = None\<rparr>"

text \<open>\<open>if ((table[k] ?? 0) < n) table[k] = n\<close>.\<close>

definition raise_to :: "string \<Rightarrow> int \<Rightarrow> (string \<times> int) list \<Rightarrow> (string \<times> int) list" where
  "raise_to k n table = (if (case map_of table k of None \<Rightarrow> 0 | Some m \<Rightarrow> m) < n then aset k n table else table)"

subsection \<open>Staging\<close>

definition register :: "string \<Rightarrow> string \<Rightarrow> async_item \<Rightarrow> async_state \<Rightarrow> async_state" where
  "register key opkey i s =
     s\<lparr>seen_bindings := aset (ai_transition i) key (seen_bindings s),
       operation_bindings := aset (ai_operation i) opkey (operation_bindings s),
       max_generations := raise_to (ai_operation i) (ai_generation i) (max_generations s),
       last_sequences := raise_to (ai_operation i) (ai_sequence i) (last_sequences s)\<rparr>"

text \<open>One candidate: a known transition is skipped (\<open>None\<close>), a new one staged.\<close>

definition stage_one :: "jsval \<Rightarrow> async_state \<Rightarrow> (async_state \<times> string \<times> bool) res" where
  "stage_one raw s =
     rbind (normalize_transition_input raw) (\<lambda>u.
       case map_of (seen_bindings s) (up_transition u) of
         Some known \<Rightarrow>
           if known \<noteq> update_key u
           then Inl (async_binding_fault (''async-result transitionId reuse with conflicting binding: '' @ up_transition u))
           else Inr (s, up_transition u, False)
       | None \<Rightarrow>
           let opkey = operation_key (up_call u) (up_effect u); i = item_of_update u in
           if map_of (operation_bindings s) (up_operation u) \<notin> {None, Some opkey}
           then Inl (async_binding_fault (''async-result operation '' @ up_operation u @ '' changed call/effect binding on a new transitionId '' @
                       up_transition u @ '': corrupted operation identity fails closed''))
           else Inr ((register (update_key u) opkey i s)\<lparr>staged_items := staged_items s @ [i]\<rparr>, ai_id i, True))"

text \<open>The items staged before a candidate that throws stay in the state.\<close>

fun stage_loop :: "json list \<Rightarrow> string list \<Rightarrow> string list \<Rightarrow> async_state \<Rightarrow> async_state \<times> (string list \<times> string list) res" where
  "stage_loop [] staged skipped s = (s, Inr (staged, skipped))"
| "stage_loop (raw # rest) staged skipped s =
     (case stage_one (Some raw) s of
        Inl e \<Rightarrow> (s, Inl e)
      | Inr (s', k, True) \<Rightarrow> stage_loop rest (staged @ [k]) skipped s'
      | Inr (s', k, False) \<Rightarrow> stage_loop rest staged (skipped @ [k]) s')"

definition stage_async_transitions ::
  "(string \<Rightarrow> string) \<Rightarrow> json list \<Rightarrow> async_state \<Rightarrow> async_state \<times> (string list \<times> string list) res" where
  "stage_async_transitions sha raws s =
     (case verify_committed_integrity sha s of
        Inl e \<Rightarrow> (s, Inl e)
      | Inr _ \<Rightarrow>
          (case stage_loop raws [] [] s of
             (s', Inl e) \<Rightarrow> (s', Inl e)
           | (s', Inr r) \<Rightarrow> (refresh_digests sha s', Inr r)))"

subsection \<open>Committing\<close>

definition staged_by_id :: "async_state \<Rightarrow> string \<Rightarrow> async_item option" where
  "staged_by_id s = map_of (rev (map (\<lambda>i. (ai_id i, i)) (staged_items s)))"

definition commit_async_context ::
  "(string \<Rightarrow> string) \<Rightarrow> string list \<Rightarrow> string \<Rightarrow> async_state \<Rightarrow> async_state \<times> string list res" where
  "commit_async_context sha ids sub s =
     (case rbind (verify_committed_integrity sha s) (\<lambda>_.
           rbind (invariant (ids \<noteq> []) ''commit requires at least one staged item id'') (\<lambda>_.
           rbind (require_text (JStr sub) ''async-result commit submissionId'') (\<lambda>_.
           rbind (map_res (\<lambda>k. require_text (JStr k) ''async-result commit staged item id'') ids) (\<lambda>_.
           rbind (map_res (\<lambda>k. case staged_by_id s k of Some i \<Rightarrow> Inr i
                  | None \<Rightarrow> Inl (Invariant (''async-result commit references unknown or already-committed staged item: '' @ k))) ids) (\<lambda>ordered.
           rbind (invariant (distinct ids) ''commit staged item ids must be unique: duplicate commit of one staged item is rejected'') (\<lambda>_.
           rbind (invariant (map ai_id (take (length ids) (staged_items s)) = ids)
                    ''commit must follow staged projection order from the front without reordering or skipping staged items'') (\<lambda>_.
             Inr ordered))))))) of
        Inl e \<Rightarrow> (s, Inl e)
      | Inr ordered \<Rightarrow>
          (refresh_digests sha (s\<lparr>
             staged_items := filter (\<lambda>i. ai_id i \<notin> ai_id ` set ordered) (staged_items s),
             committed_items := committed_items s @ ordered,
             submission_count := submission_count s + 1, last_submission := Some sub\<rparr>),
           Inr (map ai_id ordered)))"

subsection \<open>Projecting and checking\<close>

record async_projection =
  projected_bytes :: string
  projected_digest :: string
  projected_length :: nat
  suffix_digest :: string
  suffix_length :: nat
  projected_ids :: "string list"
  suffix_ids :: "string list"
  cached_tokens :: "int option"
  cache_write_tokens :: "int option"
  telemetry_status :: string

definition number_of :: "jsval \<Rightarrow> int option" where
  "number_of v = (case v of Some (JNum n) \<Rightarrow> Some n | _ \<Rightarrow> None)"

definition telemetry :: "jsval \<Rightarrow> (int option \<times> int option \<times> string) res" where
  "telemetry v =
     (if nullish v then Inr (None, None, ''missing'')
      else rbind (invariant (is_object v) ''provider telemetry must be an object'') (\<lambda>_.
        let cached = number_of (opt_member v ''cachedTokens''); written = number_of (opt_member v ''cacheWriteTokens'');
            st = (if cached \<noteq> None \<or> written \<noteq> None then ''reported'' else ''missing'') in
        case opt_member v ''reason'' of
          Some (JStr r) \<Rightarrow>
            if st = ''missing''
            then rbind (invariant (r \<in> set [''unsupported'', ''missing'', ''ambiguous''])
                          ''provider telemetry reason must be unsupported|missing|ambiguous'') (\<lambda>_. Inr (cached, written, r))
            else Inr (cached, written, st)
        | _ \<Rightarrow> Inr (cached, written, st)))"

definition project_async_request ::
  "(string \<Rightarrow> string) \<Rightarrow> jsval \<Rightarrow> async_state \<Rightarrow> async_state \<times> async_projection res" where
  "project_async_request sha tele s =
     (case verify_committed_integrity sha s of
        Inl e \<Rightarrow> (s, Inl e)
      | Inr _ \<Rightarrow>
          let s' = refresh_digests sha s in
          (s', rbind (telemetry tele) (\<lambda>(cached, written, st). Inr
             \<lparr>projected_bytes = committed_text s', projected_digest = committed_digest s', projected_length = committed_bytes s',
              suffix_digest = staged_digest s', suffix_length = staged_bytes s', projected_ids = map ai_id (committed_items s'),
              suffix_ids = map ai_id (staged_items s'), cached_tokens = cached, cache_write_tokens = written, telemetry_status = st\<rparr>)))"

definition assert_committed_prefix_stable :: "(string \<Rightarrow> string) \<Rightarrow> string \<Rightarrow> async_state \<Rightarrow> unit res" where
  "assert_committed_prefix_stable sha previous s =
     rbind (verify_committed_integrity sha s) (\<lambda>current.
       if take (length previous) current = previous then Inr ()
       else Inl (async_prefix_fault ''committed async-result prefix is not byte-stable: prior committed bytes are not an exact prefix of the current request projection''))"

subsection \<open>Restoring a checkpoint\<close>

record async_checkpoint =
  cp_schema :: jsval
  cp_profile :: json
  cp_committed :: "async_item list"
  cp_staged :: "async_item list"
  cp_committed_digest :: "string option"
  cp_staged_digest :: "string option"
  cp_count :: int
  cp_last :: "string option"

fun rebuild_registries :: "async_item list \<Rightarrow> async_state \<Rightarrow> async_state res" where
  "rebuild_registries [] s = Inr s"
| "rebuild_registries (i # rest) s =
     rbind (require_text (JStr (ai_transition i)) ''async-result checkpoint item transitionId'') (\<lambda>_.
     rbind (require_text (JStr (ai_operation i)) ''async-result checkpoint item operationId'') (\<lambda>_.
       let opkey = operation_key (ai_call i) (ai_effect i) in
       if map_of (operation_bindings s) (ai_operation i) \<notin> {None, Some opkey}
       then Inl (async_binding_fault (''async-result checkpoint holds conflicting bindings for operation '' @ ai_operation i @
                   '': call/effect identity changed without failure''))
       else rebuild_registries rest (register (item_key i) opkey i s)))"

definition restore_async_state :: "(string \<Rightarrow> string) \<Rightarrow> async_checkpoint \<Rightarrow> async_state res" where
  "restore_async_state sha cp =
     rbind (invariant (cp_schema cp = Some (JNum 1)) ''async-result checkpoint schema is unsupported'') (\<lambda>_.
     let s0 = (create_async_state sha (cp_profile cp))\<lparr>committed_items := cp_committed cp, staged_items := cp_staged cp,
           committed_digest := (case cp_committed_digest cp of None \<Rightarrow> [] | Some d \<Rightarrow> d), submission_count := cp_count cp,
           last_submission := cp_last cp\<rparr> in
     rbind (rebuild_registries (cp_committed cp @ cp_staged cp) s0) (\<lambda>s.
     rbind (verify_committed_integrity sha s) (\<lambda>_.
       if (\<exists>d. cp_staged_digest cp = Some d \<and> digest_of_bytes sha (projection_bytes (cp_staged cp)) \<noteq> d)
       then Inl (async_prefix_fault ''restored async-result checkpoint failed staged integrity verification: recorded suffix digest does not match the staged items'')
       else Inr (refresh_digests sha s))))"

definition checkpoint_of :: "async_state \<Rightarrow> async_checkpoint" where
  "checkpoint_of s = \<lparr>cp_schema = Some (JNum 1), cp_profile = async_profile s, cp_committed = committed_items s, cp_staged = staged_items s,
     cp_committed_digest = Some (committed_digest s), cp_staged_digest = Some (staged_digest s), cp_count = submission_count s,
     cp_last = last_submission s\<rparr>"

subsection \<open>Provider routes\<close>

datatype delivery_mode = NATIVE_PENDING_CALL | HANDLE_THEN_EVENT | SYNCHRONOUS

definition resolve_mode :: "jsval \<Rightarrow> delivery_mode" where
  "resolve_mode v =
     (if v = Some (JStr ''NATIVE_PENDING_CALL'') then NATIVE_PENDING_CALL
      else if v = Some (JStr ''HANDLE_THEN_EVENT'') then HANDLE_THEN_EVENT
      else SYNCHRONOUS)"

record delivery =
  delivered_mode :: delivery_mode
  delivered_call :: string
  pending_call :: bool
  tool_result :: "json option"
  async_event :: "async_item option"
  waiting :: bool

definition terminal_output :: "string \<Rightarrow> async_item \<Rightarrow> json" where
  "terminal_output call i = JObj [(''providerCallId'', JStr call), (''output'', ai_result i), (''error'', ai_error i)]"

definition operation_handle :: "string \<Rightarrow> async_item \<Rightarrow> json" where
  "operation_handle call i = JObj [(''providerCallId'', JStr call), (''handle'', JObj [(''operationId'', JStr (ai_operation i)),
     (''transitionId'', JStr (ai_transition i)), (''status'', JStr (status_text (ai_status i)))])]"

definition translate_for_provider ::
  "jsval \<Rightarrow> async_item \<Rightarrow> string \<Rightarrow> string list \<Rightarrow> string list \<Rightarrow> delivery res" where
  "translate_for_provider raw_mode i call fulfilled delivered =
     (let mode = resolve_mode raw_mode;
          again = (call \<in> set fulfilled);
          out = (\<lambda>pending result event wait. Inr \<lparr>delivered_mode = mode, delivered_call = call, pending_call = pending,
                   tool_result = result, async_event = event, waiting = wait\<rparr>) in
      rbind (require_text (JStr call) ''async-result provider providerCallId'') (\<lambda>_.
        if ai_terminal i \<and> ai_transition i \<in> set delivered
        then Inl (async_pairing_fault (''terminal output for transition '' @ ai_transition i @ '' was already delivered on '' @ call @
                    ''; repeating it would corrupt one-call pairing''))
        else case mode of
          NATIVE_PENDING_CALL \<Rightarrow>
            if \<not> ai_terminal i then out True None None False
            else if again
            then Inl (async_pairing_fault (''native provider route already fulfilled '' @ call @ ''; a second terminal tool result is rejected''))
            else out False (Some (terminal_output call i)) None False
        | HANDLE_THEN_EVENT \<Rightarrow>
            if \<not> ai_terminal i
            then (if again
                  then Inl (async_pairing_fault (''strict provider route already fulfilled '' @ call @ ''; a second tool result is rejected''))
                  else out False (Some (operation_handle call i)) None False)
            else if again then out False None (Some i) False
            else out False (Some (terminal_output call i)) None False
        | SYNCHRONOUS \<Rightarrow>
            if \<not> ai_terminal i then out False None None True
            else if again
            then Inl (async_pairing_fault (''synchronous provider route already fulfilled '' @ call @
                        ''; one-call/one-result pairing forbids a second tool result''))
            else out False (Some (terminal_output call i)) None False))"

definition assert_tool_result_allowed :: "jsval \<Rightarrow> string \<Rightarrow> string list \<Rightarrow> delivery_mode res" where
  "assert_tool_result_allowed raw_mode call fulfilled =
     rbind (require_text (JStr call) ''async-result provider providerCallId'') (\<lambda>_.
       if call \<in> set fulfilled
       then Inl (async_pairing_fault (''provider route already fulfilled '' @ call @ ''; another tool result would corrupt pairing''))
       else Inr (resolve_mode raw_mode))"

subsection \<open>The invariant\<close>

text \<open>
  The recorded digest is that of the committed items, every item has its own transition, and the
  two registries describe exactly the items.
\<close>

definition async_ok :: "(string \<Rightarrow> string) \<Rightarrow> async_state \<Rightarrow> bool" where
  "async_ok sha s \<longleftrightarrow>
     committed_digest s = digest_of_bytes sha (projection_bytes (committed_items s)) \<and>
     distinct (map ai_transition (all_items s)) \<and>
     (\<forall>i \<in> set (all_items s). ai_id i = async_item_id (ai_transition i) \<and> nonblank (ai_transition i) \<and> nonblank (ai_operation i)) \<and>
     (\<forall>t key. map_of (seen_bindings s) t = Some key \<longleftrightarrow> (\<exists>i \<in> set (all_items s). ai_transition i = t \<and> item_key i = key)) \<and>
     (\<forall>t key. map_of (operation_bindings s) t = Some key \<longleftrightarrow>
        (\<exists>i \<in> set (all_items s). ai_operation i = t \<and> operation_key (ai_call i) (ai_effect i) = key))"

lemma async_okD:
  assumes "async_ok sha s"
  shows "committed_digest s = digest_of_bytes sha (projection_bytes (committed_items s))" "distinct (map ai_transition (all_items s))"
    "i \<in> set (all_items s) \<Longrightarrow> ai_id i = async_item_id (ai_transition i) \<and> nonblank (ai_transition i) \<and> nonblank (ai_operation i)"
    "map_of (seen_bindings s) t = Some key \<longleftrightarrow> (\<exists>i \<in> set (all_items s). ai_transition i = t \<and> item_key i = key)"
    "map_of (operation_bindings s) t = Some key \<longleftrightarrow>
        (\<exists>i \<in> set (all_items s). ai_operation i = t \<and> operation_key (ai_call i) (ai_effect i) = key)"
  using assms by (auto simp: async_ok_def)

lemma refresh_simps [simp]:
  "committed_items (refresh_digests sha s) = committed_items s" "staged_items (refresh_digests sha s) = staged_items s"
  "all_items (refresh_digests sha s) = all_items s" "seen_bindings (refresh_digests sha s) = seen_bindings s"
  "operation_bindings (refresh_digests sha s) = operation_bindings s"
  "committed_digest (refresh_digests sha s) = digest_of_bytes sha (projection_bytes (committed_items s))"
  "committed_text (refresh_digests sha s) = projection_bytes (committed_items s)"
  by (simp_all add: refresh_digests_def Let_def all_items_def)

lemma create_async_ok: "async_ok sha (create_async_state sha prof)"
  by (simp add: async_ok_def create_async_state_def all_items_def projection_bytes_def)

lemma verify_ok: "async_ok sha s \<Longrightarrow> verify_committed_integrity sha s = Inr (projection_bytes (committed_items s))"
  by (simp add: verify_committed_integrity_def async_okD(1) Let_def)

lemma verify_Inr: "verify_committed_integrity sha s = Inr t \<longleftrightarrow>
    committed_digest s = digest_of_bytes sha (projection_bytes (committed_items s)) \<and> t = projection_bytes (committed_items s)"
  by (auto simp: verify_committed_integrity_def Let_def)

text \<open>The digest aside, staging keeps the invariant, also when it throws.\<close>

lemma register_simps [simp]:
  "seen_bindings (register key opkey i s) = aset (ai_transition i) key (seen_bindings s)"
  "operation_bindings (register key opkey i s) = aset (ai_operation i) opkey (operation_bindings s)"
  "committed_items (register key opkey i s) = committed_items s" "staged_items (register key opkey i s) = staged_items s"
  "committed_digest (register key opkey i s) = committed_digest s"
  by (simp_all add: register_def)

lemma normalize_transition_text: "normalize_transition_input raw = Inr u \<Longrightarrow> nonblank (up_transition u) \<and> nonblank (up_operation u)"
  by (auto simp: normalize_transition_input_def Let_def split: if_splits)

lemma item_of_update_simps [simp]:
  "ai_id (item_of_update u) = async_item_id (up_transition u)" "ai_transition (item_of_update u) = up_transition u"
  "ai_operation (item_of_update u) = up_operation u" "item_key (item_of_update u) = update_key u"
  "ai_call (item_of_update u) = up_call u" "ai_effect (item_of_update u) = up_effect u"
  by (simp_all add: item_of_update_def Let_def item_key_def update_key_def)

lemma stage_one_new:
  assumes "stage_one raw s = Inr (s', k, True)"
  obtains u where "normalize_transition_input raw = Inr u" "map_of (seen_bindings s) (up_transition u) = None"
    "map_of (operation_bindings s) (up_operation u) \<in> {None, Some (operation_key (up_call u) (up_effect u))}"
    "s' = (register (update_key u) (operation_key (up_call u) (up_effect u)) (item_of_update u) s)\<lparr>staged_items := staged_items s @ [item_of_update u]\<rparr>"
    "k = ai_id (item_of_update u)"
proof -
  from assms obtain u where u: "normalize_transition_input raw = Inr u" unfolding stage_one_def rbind_Inr_iff by blast
  have new: "map_of (seen_bindings s) (up_transition u) = None"
    using assms by (cases "map_of (seen_bindings s) (up_transition u)") (auto simp: stage_one_def u split: if_splits)
  show ?thesis by (rule that [OF u new]) (use assms in \<open>simp_all add: stage_one_def u new Let_def split: if_splits\<close>)
qed

lemma stage_one_known: "stage_one raw s = Inr (s', k, False) \<Longrightarrow> s' = s"
  unfolding stage_one_def rbind_Inr_iff by (auto simp: Let_def split: option.splits if_splits)

lemma stage_one_ok:
  assumes ok: "async_ok sha s" and new: "stage_one raw s = Inr (s', k, True)"
  shows "async_ok sha s'"
proof -
  from new obtain u where u: "normalize_transition_input raw = Inr u" "map_of (seen_bindings s) (up_transition u) = None"
    "map_of (operation_bindings s) (up_operation u) \<in> {None, Some (operation_key (up_call u) (up_effect u))}"
    and s': "s' = (register (update_key u) (operation_key (up_call u) (up_effect u)) (item_of_update u) s)\<lparr>staged_items := staged_items s @ [item_of_update u]\<rparr>"
    by (rule stage_one_new)
  have items: "all_items s' = all_items s @ [item_of_update u]" by (simp add: s' all_items_def)
  have fresh: "ai_transition i \<noteq> up_transition u" if "i \<in> set (all_items s)" for i
  proof
    assume "ai_transition i = up_transition u"
    with that have "map_of (seen_bindings s) (up_transition u) = Some (item_key i)" using async_okD(4) [OF ok] by blast
    with u(2) show False by simp
  qed
  have seen: "map_of (seen_bindings s') t = Some key \<longleftrightarrow> (\<exists>i \<in> set (all_items s'). ai_transition i = t \<and> item_key i = key)" for t key
  proof (cases "t = up_transition u")
    case True
    with fresh show ?thesis unfolding items by (auto simp: s')
  next
    case False
    with async_okD(4) [OF ok, of t key] show ?thesis unfolding items by (auto simp: s')
  qed
  have bound: "map_of (operation_bindings s') t = Some key \<longleftrightarrow>
      (\<exists>i \<in> set (all_items s'). ai_operation i = t \<and> operation_key (ai_call i) (ai_effect i) = key)" for t key
  proof (cases "t = up_operation u")
    case True
    have "key = operation_key (up_call u) (up_effect u)" if "i \<in> set (all_items s)" "ai_operation i = t" "operation_key (ai_call i) (ai_effect i) = key" for i
      using async_okD(5) [OF ok, of t key] u(3) that True by auto
    with True show ?thesis unfolding items by (auto simp: s')
  next
    case False
    with async_okD(5) [OF ok, of t key] show ?thesis unfolding items by (auto simp: s')
  qed
  show ?thesis unfolding async_ok_def
  proof (intro conjI allI ballI)
    show "committed_digest s' = digest_of_bytes sha (projection_bytes (committed_items s'))"
      using async_okD(1) [OF ok] by (simp add: s')
    have "up_transition u \<notin> ai_transition ` set (all_items s)" using fresh by force
    with async_okD(2) [OF ok] show "distinct (map ai_transition (all_items s'))" by (simp add: items)
    show "ai_id i = async_item_id (ai_transition i)" "nonblank (ai_transition i)" "nonblank (ai_operation i)" if "i \<in> set (all_items s')" for i
      using that async_okD(3) [OF ok, of i] normalize_transition_text [OF u(1)] by (auto simp: items)
  qed (rule seen bound)+
qed

text \<open>Staging appends items, committing moves a leading part of the staged ones.\<close>

lemma stage_loop_grows:
  "stage_loop raws staged skipped s = (s', r) \<Longrightarrow> async_ok sha s \<Longrightarrow>
     async_ok sha s' \<and> committed_items s' = committed_items s \<and> (\<exists>new. staged_items s' = staged_items s @ new)"
proof (induction raws staged skipped s rule: stage_loop.induct)
  case (2 raw rest staged skipped s)
  show ?case
  proof (cases "stage_one (Some raw) s")
    case (Inl e)
    with 2(3,4) show ?thesis by auto
  next
    case (Inr p)
    obtain s1 k b where p: "p = (s1, k, b)" by (cases p)
    show ?thesis
    proof (cases b)
      case True
      with Inr p have one: "stage_one (Some raw) s = Inr (s1, k, True)" by simp
      have more: "committed_items s1 = committed_items s" "\<exists>i. staged_items s1 = staged_items s @ [i]"
        by (rule stage_one_new [OF one], simp)+
      from 2(1) [OF Inr p [symmetric] refl _ _ stage_one_ok [OF 2(4) one]] True Inr 2(3) p
      have "async_ok sha s' \<and> committed_items s' = committed_items s1 \<and> (\<exists>new. staged_items s' = staged_items s1 @ new)" by simp
      with more show ?thesis by auto
    next
      case False
      with Inr p have "stage_one (Some raw) s = Inr (s1, k, False)" by simp
      from stage_one_known [OF this] have "s1 = s" .
      with 2(4) have "async_ok sha s1" by simp
      from 2(2) [OF Inr p [symmetric] refl _ _ this] Inr p False 2(3) \<open>s1 = s\<close> show ?thesis by simp
    qed
  qed
qed auto

lemma async_ok_refresh: "async_ok sha s \<Longrightarrow> async_ok sha (refresh_digests sha s)"
  by (simp add: async_ok_def)

lemma stage_grows:
  assumes "stage_async_transitions sha raws s = (s', r)" "async_ok sha s"
  shows "async_ok sha s' \<and> committed_items s' = committed_items s \<and> (\<exists>new. staged_items s' = staged_items s @ new)"
proof -
  obtain s1 r1 where l: "stage_loop raws [] [] s = (s1, r1)" by (cases "stage_loop raws [] [] s")
  from stage_loop_grows [OF l assms(2)] assms(1) show ?thesis
    by (cases r1) (auto simp: stage_async_transitions_def verify_ok [OF assms(2)] l async_ok_refresh)
qed

lemma distinct_ids: "async_ok sha s \<Longrightarrow> distinct (map ai_id (all_items s))"
proof -
  assume ok: "async_ok sha s"
  have "map ai_id (all_items s) = map async_item_id (map ai_transition (all_items s))"
    using async_okD(3) [OF ok] by simp
  moreover have "inj_on async_item_id A" for A by (simp add: inj_on_def)
  ultimately show ?thesis using async_okD(2) [OF ok] by (simp only: distinct_map [of async_item_id])
qed

lemma staged_by_id_distinct:
  "distinct (map ai_id (staged_items s)) \<Longrightarrow> staged_by_id s k = Some i \<longleftrightarrow> i \<in> set (staged_items s) \<and> ai_id i = k"
  unfolding staged_by_id_def
  by (subst map_of_eq_Some_iff) (auto simp: distinct_map rev_map [symmetric] inj_on_def comp_def)

lemma staged_found:
  assumes "distinct (map ai_id (staged_items s))" "set is \<subseteq> set (staged_items s)"
  shows "map_res (\<lambda>k. case staged_by_id s k of Some i \<Rightarrow> Inr i | None \<Rightarrow> Inl (e k)) (map ai_id is) = Inr is"
proof -
  have "staged_by_id s (ai_id i) = Some i" if "i \<in> set (staged_items s)" for i
    using staged_by_id_distinct [OF assms(1)] that by blast
  with assms(2) show ?thesis by (induction "is") auto
qed

lemma commit_Inr:
  assumes "commit_async_context sha ids sub s = (s', Inr out)" "async_ok sha s"
  shows "out = ids" "\<exists>n. committed_items s' = committed_items s @ take n (staged_items s) \<and> staged_items s' = drop n (staged_items s) \<and>
      ids = map ai_id (take n (staged_items s))"
    "committed_digest s' = digest_of_bytes sha (projection_bytes (committed_items s'))"
    "seen_bindings s' = seen_bindings s" "operation_bindings s' = operation_bindings s"
proof -
  let ?n = "length ids" and ?st = "staged_items s"
  from assms(1) obtain ordered where
    ordered: "map_res (\<lambda>k. case staged_by_id s k of Some i \<Rightarrow> Inr i
                  | None \<Rightarrow> Inl (Invariant (''async-result commit references unknown or already-committed staged item: '' @ k))) ids = Inr ordered"
    and ids: "map ai_id (take ?n ?st) = ids"
    and s': "s' = refresh_digests sha (s\<lparr>staged_items := filter (\<lambda>i. ai_id i \<notin> ai_id ` set ordered) ?st,
             committed_items := committed_items s @ ordered, submission_count := submission_count s + 1, last_submission := Some sub\<rparr>)"
    and out: "out = map ai_id ordered"
    by (auto simp: commit_async_context_def split: sum.splits)
  have d: "distinct (map ai_id ?st)" using distinct_ids [OF assms(2)] by (simp add: all_items_def)
  from staged_found [OF d, of "take ?n ?st"] ordered have o: "ordered = take ?n ?st" by (simp add: set_take_subset ids)
  with out ids show "out = ids" by simp
  have split: "filter (\<lambda>i. ai_id i \<notin> ai_id ` set xs) (xs @ ys) = ys" if "distinct (map ai_id (xs @ ys))" for xs ys
    using that by (auto simp: filter_empty_conv filter_id_conv)
  from split [of "take ?n ?st" "drop ?n ?st"] d have "filter (\<lambda>i. ai_id i \<notin> ai_id ` set ordered) ?st = drop ?n ?st" by (simp add: o)
  with ids show "\<exists>n. committed_items s' = committed_items s @ take n ?st \<and> staged_items s' = drop n ?st \<and> ids = map ai_id (take n ?st)"
    by (intro exI [of _ ?n]) (simp add: s' o)
  show "committed_digest s' = digest_of_bytes sha (projection_bytes (committed_items s'))"
    "seen_bindings s' = seen_bindings s" "operation_bindings s' = operation_bindings s" by (simp_all add: s')
qed

lemma commit_Inl: "commit_async_context sha ids sub s = (s', Inl e) \<Longrightarrow> s' = s"
  by (auto simp: commit_async_context_def split: sum.splits)

lemma commit_grows:
  assumes "commit_async_context sha ids sub s = (s', r)" "async_ok sha s"
  shows "async_ok sha s' \<and> all_items s' = all_items s \<and> (\<exists>new. committed_items s' = committed_items s @ new)"
proof (cases r)
  case (Inl e)
  with assms commit_Inl show ?thesis by fastforce
next
  case (Inr out)
  note c = commit_Inr [OF assms(1) [unfolded Inr] assms(2)]
  from c(2) have items: "all_items s' = all_items s" "\<exists>new. committed_items s' = committed_items s @ new"
    by (auto simp: all_items_def)
  moreover have "async_ok sha s'" using assms(2) c(3-5) unfolding async_ok_def items(1) by simp
  ultimately show ?thesis by blast
qed

text \<open>Everything staged can be committed in one submission.\<close>

lemma commit_all_staged:
  assumes "async_ok sha s" "staged_items s \<noteq> []" "nonblank sub"
  shows "\<exists>s'. commit_async_context sha (map ai_id (staged_items s)) sub s = (s', Inr (map ai_id (staged_items s))) \<and>
    committed_items s' = all_items s \<and> staged_items s' = []"
proof -
  let ?ids = "map ai_id (staged_items s)"
  have d: "distinct ?ids" using distinct_ids [OF assms(1)] by (simp add: all_items_def)
  have texts: "\<exists>us. map_res (\<lambda>k. require_text (JStr k) l) ?ids = Inr us" for l
  proof -
    have "nonblank (ai_id i)" if "i \<in> set (staged_items s)" for i
      using async_okD(3) [OF assms(1), of i] that by (auto simp: all_items_def async_item_id_nonblank)
    then have "set is \<subseteq> set (staged_items s) \<Longrightarrow> \<exists>us. map_res (\<lambda>k. require_text (JStr k) l) (map ai_id is) = Inr us" for "is"
      by (induction "is") auto
    then show ?thesis by blast
  qed
  note found = staged_found [OF d subset_refl]
  show ?thesis
    using texts [of "''async-result commit staged item id''"] found assms(2,3) d
    by (auto simp: commit_async_context_def verify_ok [OF assms(1)] invariant_def all_items_def)
qed

subsection \<open>The committed bytes only grow at their end\<close>

definition async_evolves :: "async_state \<Rightarrow> async_state \<Rightarrow> bool" where
  "async_evolves s s' \<longleftrightarrow> (\<exists>new. committed_items s' = committed_items s @ new) \<and> (\<exists>new. all_items s' = all_items s @ new)"

lemma async_evolves_refl [simp]: "async_evolves s s"
  by (simp add: async_evolves_def)

lemma async_evolves_trans: "async_evolves a b \<Longrightarrow> async_evolves b c \<Longrightarrow> async_evolves a c"
  by (auto simp: async_evolves_def)

lemma stage_evolves: "stage_async_transitions sha raws s = (s', r) \<Longrightarrow> async_ok sha s \<Longrightarrow> async_ok sha s' \<and> async_evolves s s'"
  by (drule (1) stage_grows) (auto simp: async_evolves_def all_items_def)

lemma commit_evolves: "commit_async_context sha ids sub s = (s', r) \<Longrightarrow> async_ok sha s \<Longrightarrow> async_ok sha s' \<and> async_evolves s s'"
  by (drule (1) commit_grows) (auto simp: async_evolves_def)

lemma join_append: "\<exists>t. join sep (xs @ ys) = join sep xs @ t"
proof (induction sep xs rule: join.induct)
  case (2 sep x)
  show ?case by (cases ys) auto
qed auto

lemma projection_append: "\<exists>t. projection_bytes (xs @ ys) = projection_bytes xs @ t"
  unfolding projection_bytes_def map_append by (rule join_append)

lemma evolves_prefix_stable:
  assumes "async_ok sha s'" "async_evolves s s'"
  shows "assert_committed_prefix_stable sha (projection_bytes (committed_items s)) s' = Inr ()"
proof -
  obtain new where "committed_items s' = committed_items s @ new" using assms(2) by (auto simp: async_evolves_def)
  with projection_append [of "committed_items s" new] obtain t where
    "projection_bytes (committed_items s') = projection_bytes (committed_items s) @ t" by auto
  then show ?thesis by (simp add: assert_committed_prefix_stable_def verify_ok [OF assms(1)])
qed

subsection \<open>The digest pins the items\<close>

lemma join_set: "set (join sep xs) \<subseteq> set sep \<union> \<Union> (set ` set xs)"
  by (induction sep xs rule: join.induct) auto

lemma esc_no_newline: "CHR 0x0A \<notin> set (esc c)"
proof -
  have hex: "n < 16 \<Longrightarrow> hex_digit n \<noteq> CHR 0x0A" for n
  proof
    assume "n < 16" "hex_digit n = CHR 0x0A"
    then have "of_char (hex_digit n) = (10::nat)" by simp
    with \<open>n < 16\<close> show False by (auto simp: hex_digit_def split: if_splits)
  qed
  have "c = CHR 0x0A \<Longrightarrow> of_char c = (10::nat)" by simp
  moreover have "(of_char c :: nat) < 32 \<Longrightarrow> of_char c div 16 < (16::nat)" by (rule less_mult_imp_div_less) simp
  ultimately show ?thesis
    using hex [of "of_char c div 16"] hex [of "of_char c mod 16"] by (auto simp: esc_def Let_def)
qed

lemma quote_no_newline: "CHR 0x0A \<notin> set (quote s)"
  using esc_no_newline by (auto simp: quote_def)

lemma nat_text_no_newline: "CHR 0x0A \<notin> set (nat_text n)"
  using nat_text_digits [of n] by (auto simp: is_digit_def)

lemma render_no_newline: "CHR 0x0A \<notin> set (render v)"
proof (induction v rule: render.induct)
  case (3 n)
  show ?case using nat_text_no_newline by (auto simp: int_text_def)
next
  case (5 vs)
  then show ?case using join_set [of "'',''" "map render vs"] by auto
next
  case (6 kvs)
  have "CHR 0x0A \<notin> set (quote k @ '':'' @ render v)" if "(k, v) \<in> set kvs" for k v
    using 6 that quote_no_newline by auto
  then show ?case using join_set [of "'',''" "map (\<lambda>(k, v). quote k @ '':'' @ render v) kvs"] by auto
qed (use quote_no_newline in auto)

lemma serialize_no_newline: "CHR 0x0A \<notin> set (serialize_item i)"
  by (simp add: serialize_item_def stable_stringify_render render_no_newline)

lemma serialize_nonempty: "serialize_item i \<noteq> []"
  by (simp add: serialize_item_def async_item_json_def)

lemma line_split:
  "x @ c # r = y @ c # t \<Longrightarrow> c \<notin> set x \<Longrightarrow> c \<notin> set y \<Longrightarrow> x = y \<and> r = t"
  by (induction x arbitrary: y) (auto simp: Cons_eq_append_conv)

lemma join_lines_inj:
  "join [c] xs = join [c] ys \<Longrightarrow> \<forall>x \<in> set xs \<union> set ys. c \<notin> set x \<and> x \<noteq> [] \<Longrightarrow> xs = ys"
proof (induction "[c]" xs arbitrary: ys rule: join.induct)
  case 1
  show ?case
  proof (cases ys)
    case (Cons y zs)
    with 1 show ?thesis by (cases zs) auto
  qed simp
next
  case (2 x)
  show ?case
  proof (cases ys)
    case (Cons y zs)
    then show ?thesis using 2 by (cases zs) auto
  qed (use 2 in auto)
next
  case (3 x x' xs)
  show ?case
  proof (cases ys)
    case (Cons y zs)
    show ?thesis
    proof (cases zs)
      case Nil
      with Cons 3 have "c \<in> set y" by (metis in_set_conv_decomp append_Cons append_Nil join.simps(2,3))
      with Cons 3 show ?thesis by auto
    next
      case (Cons z ws)
      with \<open>ys = y # zs\<close> 3(2) have "x @ c # join [c] (x' # xs) = y @ c # join [c] (z # ws)" by simp
      from line_split [OF this] 3(3) \<open>ys = y # zs\<close> Cons have "x = y" "join [c] (x' # xs) = join [c] (z # ws)" by auto
      with 3(1) [of "z # ws"] 3(3) \<open>ys = y # zs\<close> Cons show ?thesis by auto
    qed
  qed (use 3 in auto)
qed

lemma canon_member:
  assumes "canon (JObj kvs) = canon (JObj kvs')" "distinct (map fst kvs)" "distinct (map fst kvs')"
    "map_of kvs k = Some v" "map_of kvs' k = Some v'"
  shows "canon v = canon v'"
proof -
  have "(k, v) \<in> set (sort_key fst kvs)" using map_of_SomeD [OF assms(4)] by simp
  then have "(k, canon v) \<in> set (map (\<lambda>kv. (fst kv, canon (snd kv))) (sort_key fst kvs))" by force
  moreover have "map (\<lambda>kv. (fst kv, canon (snd kv))) (sort_key fst kvs) = map (\<lambda>kv. (fst kv, canon (snd kv))) (sort_key fst kvs')"
    using assms(1) by simp
  ultimately have "(k, canon v) \<in> set (map (\<lambda>kv. (fst kv, canon (snd kv))) (sort_key fst kvs'))" by (simp only:)
  then obtain w where "(k, w) \<in> set kvs'" "canon w = canon v" by auto
  from map_of_is_SomeI [OF assms(3) this(1)] assms(5) this(2) show ?thesis by simp
qed

text \<open>An item up to the order of the keys in its result and error.\<close>

definition canon_item :: "async_item \<Rightarrow> async_item" where
  "canon_item i = i\<lparr>ai_result := canon (ai_result i), ai_error := canon (ai_error i)\<rparr>"

lemma status_text_inj: "status_text a = status_text b \<Longrightarrow> a = b"
  by (metis option.inject parse_status_text)

lemma serialize_item_inj:
  assumes "serialize_item i = serialize_item j"
  shows "canon_item i = canon_item j"
proof -
  obtain kvs kvs' where kvs: "async_item_json i = JObj kvs" "async_item_json j = JObj kvs'" by (simp add: async_item_json_def)
  have "canon (JObj kvs) = canon (JObj kvs')" using assms kvs by (simp only: serialize_item_def stable_stringify_eq_iff)
  moreover have "distinct (map fst kvs)" "distinct (map fst kvs')" using kvs by (auto simp: async_item_json_def)
  ultimately have field: "map_of kvs k = Some v \<Longrightarrow> map_of kvs' k = Some v' \<Longrightarrow> canon v = canon v'" for k v v'
    using canon_member by blast
  then have value_eq: "map_of kvs k \<noteq> None \<Longrightarrow> map_of kvs' k \<noteq> None \<Longrightarrow> canon (the (map_of kvs k)) = canon (the (map_of kvs' k))" for k
    by auto
  have get: "map_of kvs k = map_of (case async_item_json i of JObj xs \<Rightarrow> xs | _ \<Rightarrow> []) k"
    "map_of kvs' k = map_of (case async_item_json j of JObj xs \<Rightarrow> xs | _ \<Rightarrow> []) k" for k by (simp_all add: kvs)
  note member = get [unfolded async_item_json_def json.case]
  have texts: "ai_id i = ai_id j" "ai_operation i = ai_operation j" "ai_effect i = ai_effect j" "ai_transition i = ai_transition j"
    using value_eq [of "''itemId''"] value_eq [of "''operationId''"] value_eq [of "''effectOperationId''"] value_eq [of "''transitionId''"]
    by (simp_all add: member)
  have nums: "ai_generation i = ai_generation j" "ai_sequence i = ai_sequence j" "ai_terminal i = ai_terminal j"
    using value_eq [of "''generation''"] value_eq [of "''sequence''"] value_eq [of "''terminal''"] by (simp_all add: member)
  have call: "canon (text_or_null a) = canon (text_or_null b) \<Longrightarrow> a = b" for a b by (cases a; cases b) auto
  have "canon (text_or_null (ai_call i)) = canon (text_or_null (ai_call j))" by (rule field [of "''callId''"]) (simp_all add: member)
  from call [OF this] have "ai_call i = ai_call j" .
  moreover have "status_text (ai_status i) = status_text (ai_status j)" using value_eq [of "''status''"] by (simp add: member)
  moreover have "canon (ai_result i) = canon (ai_result j)" by (rule field [of "''result''"]) (simp_all add: member)
  moreover have "canon (ai_error i) = canon (ai_error j)" by (rule field [of "''error''"]) (simp_all add: member)
  ultimately show ?thesis using texts nums by (simp add: canon_item_def status_text_inj)
qed

lemma projection_inj:
  assumes "projection_bytes xs = projection_bytes ys"
  shows "map canon_item xs = map canon_item ys"
proof -
  have "map serialize_item xs = map serialize_item ys"
    by (rule join_lines_inj [OF assms [unfolded projection_bytes_def]]) (auto simp: serialize_no_newline serialize_nonempty)
  then show ?thesis
    by (induction xs ys rule: list_induct2') (auto intro: serialize_item_inj)
qed

subsection \<open>Restoring what was stored\<close>

definition describes :: "async_state \<Rightarrow> async_item list \<Rightarrow> bool" where
  "describes s items \<longleftrightarrow>
     (\<forall>t key. map_of (seen_bindings s) t = Some key \<longleftrightarrow> (\<exists>i \<in> set items. ai_transition i = t \<and> item_key i = key)) \<and>
     (\<forall>t key. map_of (operation_bindings s) t = Some key \<longleftrightarrow>
        (\<exists>i \<in> set items. ai_operation i = t \<and> operation_key (ai_call i) (ai_effect i) = key))"

lemma async_ok_iff: "async_ok sha s \<longleftrightarrow>
     committed_digest s = digest_of_bytes sha (projection_bytes (committed_items s)) \<and>
     distinct (map ai_transition (all_items s)) \<and>
     (\<forall>i \<in> set (all_items s). ai_id i = async_item_id (ai_transition i) \<and> nonblank (ai_transition i) \<and> nonblank (ai_operation i)) \<and>
     describes s (all_items s)"
  by (auto simp: async_ok_def describes_def)

lemma describes_register:
  assumes "describes s xs" "ai_transition i \<notin> ai_transition ` set xs"
    "map_of (operation_bindings s) (ai_operation i) \<in> {None, Some (operation_key (ai_call i) (ai_effect i))}"
  shows "describes (register (item_key i) (operation_key (ai_call i) (ai_effect i)) i s) (xs @ [i])"
proof -
  have seen: "map_of (seen_bindings s) t = Some key \<longleftrightarrow> (\<exists>i \<in> set xs. ai_transition i = t \<and> item_key i = key)"
    and ops: "map_of (operation_bindings s) t = Some key \<longleftrightarrow>
        (\<exists>i \<in> set xs. ai_operation i = t \<and> operation_key (ai_call i) (ai_effect i) = key)" for t key
    using assms(1) by (auto simp: describes_def)
  have "(if t = ai_transition i then Some (item_key i) else map_of (seen_bindings s) t) = Some key \<longleftrightarrow>
      (\<exists>j \<in> set (xs @ [i]). ai_transition j = t \<and> item_key j = key)" for t key
    using seen [of t key] assms(2) by (cases "t = ai_transition i") (auto simp: image_iff)
  moreover have "(if t = ai_operation i then Some (operation_key (ai_call i) (ai_effect i)) else map_of (operation_bindings s) t) = Some key \<longleftrightarrow>
      (\<exists>j \<in> set (xs @ [i]). ai_operation j = t \<and> operation_key (ai_call j) (ai_effect j) = key)" for t key
  proof (cases "t = ai_operation i")
    case True
    with ops [of t key] assms(3) show ?thesis by auto
  qed (use ops [of t key] in auto)
  ultimately show ?thesis by (simp add: describes_def fun_upd_def)
qed

lemma rebuild_ok:
  assumes "describes s xs" "distinct (map ai_transition (xs @ ys))" "\<forall>i \<in> set ys. nonblank (ai_transition i) \<and> nonblank (ai_operation i)"
    "\<forall>i \<in> set (xs @ ys). \<forall>j \<in> set (xs @ ys). ai_operation i = ai_operation j \<longrightarrow>
       operation_key (ai_call i) (ai_effect i) = operation_key (ai_call j) (ai_effect j)"
  shows "\<exists>s'. rebuild_registries ys s = Inr s' \<and> describes s' (xs @ ys) \<and> committed_items s' = committed_items s \<and>
    staged_items s' = staged_items s \<and> committed_digest s' = committed_digest s"
  using assms
proof (induction ys arbitrary: xs s)
  case (Cons i ys)
  let ?k = "operation_key (ai_call i) (ai_effect i)"
  have op: "map_of (operation_bindings s) (ai_operation i) \<in> {None, Some ?k}"
  proof (cases "map_of (operation_bindings s) (ai_operation i)")
    case (Some key)
    with Cons.prems(1) obtain j where "j \<in> set xs" "ai_operation j = ai_operation i" "operation_key (ai_call j) (ai_effect j) = key"
      unfolding describes_def by blast
    with Cons.prems(4) have "key = ?k" by auto
    with Some show ?thesis by simp
  qed simp
  have new: "ai_transition i \<notin> ai_transition ` set xs" using Cons.prems(2) by auto
  have "\<exists>s'. rebuild_registries ys (register (item_key i) ?k i s) = Inr s' \<and> describes s' ((xs @ [i]) @ ys) \<and>
      committed_items s' = committed_items (register (item_key i) ?k i s) \<and>
      staged_items s' = staged_items (register (item_key i) ?k i s) \<and> committed_digest s' = committed_digest (register (item_key i) ?k i s)"
  proof (rule Cons.IH [OF describes_register [OF Cons.prems(1) new op]])
    show "distinct (map ai_transition ((xs @ [i]) @ ys))" using Cons.prems(2) by simp
    show "\<forall>i \<in> set ys. nonblank (ai_transition i) \<and> nonblank (ai_operation i)" using Cons.prems(3) by simp
    have "(xs @ [i]) @ ys = xs @ i # ys" by simp
    with Cons.prems(4) show "\<forall>j \<in> set ((xs @ [i]) @ ys). \<forall>l \<in> set ((xs @ [i]) @ ys). ai_operation j = ai_operation l \<longrightarrow>
       operation_key (ai_call j) (ai_effect j) = operation_key (ai_call l) (ai_effect l)" by (simp only:)
  qed
  with op Cons.prems(3) show ?case by (auto simp: Let_def)
next
  case Nil
  from Nil.prems(1) show ?case by simp
qed

lemma same_operation_same_key:
  assumes "async_ok sha s" "i \<in> set (all_items s)" "j \<in> set (all_items s)" "ai_operation i = ai_operation j"
  shows "operation_key (ai_call i) (ai_effect i) = operation_key (ai_call j) (ai_effect j)"
proof -
  have "map_of (operation_bindings s) (ai_operation i) = Some (operation_key (ai_call i) (ai_effect i))"
    "map_of (operation_bindings s) (ai_operation j) = Some (operation_key (ai_call j) (ai_effect j))"
    using async_okD(5) [OF assms(1)] assms(2,3) by blast+
  with assms(4) show ?thesis by simp
qed

lemma restore_checkpoint:
  assumes "async_ok sha s" "staged_digest s = digest_of_bytes sha (projection_bytes (staged_items s))"
  shows "\<exists>s'. restore_async_state sha (checkpoint_of s) = Inr s' \<and> async_ok sha s' \<and> committed_items s' = committed_items s \<and>
    staged_items s' = staged_items s"
proof -
  let ?s0 = "(create_async_state sha (async_profile s))\<lparr>committed_items := committed_items s, staged_items := staged_items s,
           committed_digest := committed_digest s, submission_count := submission_count s, last_submission := last_submission s\<rparr>"
  have "\<exists>s'. rebuild_registries (all_items s) ?s0 = Inr s' \<and> describes s' ([] @ all_items s) \<and> committed_items s' = committed_items ?s0 \<and>
      staged_items s' = staged_items ?s0 \<and> committed_digest s' = committed_digest ?s0"
  proof (rule rebuild_ok)
    show "describes ?s0 []" by (simp add: describes_def create_async_state_def)
    show "distinct (map ai_transition ([] @ all_items s))" using async_okD(2) [OF assms(1)] by simp
    show "\<forall>i \<in> set (all_items s). nonblank (ai_transition i) \<and> nonblank (ai_operation i)" using async_okD(3) [OF assms(1)] by blast
    show "\<forall>i \<in> set ([] @ all_items s). \<forall>j \<in> set ([] @ all_items s). ai_operation i = ai_operation j \<longrightarrow>
       operation_key (ai_call i) (ai_effect i) = operation_key (ai_call j) (ai_effect j)"
      using same_operation_same_key [OF assms(1)] by (simp only: append_Nil) blast
  qed
  then obtain s' where s': "rebuild_registries (all_items s) ?s0 = Inr s'" "describes s' (all_items s)"
    "committed_items s' = committed_items s" "staged_items s' = staged_items s" "committed_digest s' = committed_digest s" by auto
  have items: "all_items s' = all_items s" using s' by (simp add: all_items_def)
  have ok: "async_ok sha s'" using assms(1) s'(2,3,5) unfolding async_ok_iff items by simp
  have "restore_async_state sha (checkpoint_of s) = Inr (refresh_digests sha s')"
    using s'(1) verify_ok [OF ok] assms(2) by (simp add: restore_async_state_def checkpoint_of_def invariant_def all_items_def)
  with async_ok_refresh [OF ok] s'(3,4) show ?thesis by simp
qed

text \<open>A checkpoint that restores has the items its digests were taken of.\<close>

lemma rebuild_items:
  "rebuild_registries ys s = Inr s' \<Longrightarrow> committed_items s' = committed_items s \<and> staged_items s' = staged_items s \<and>
     committed_digest s' = committed_digest s"
proof (induction ys arbitrary: s)
  case (Cons i ys)
  then have "rebuild_registries ys (register (item_key i) (operation_key (ai_call i) (ai_effect i)) i s) = Inr s'"
    by (simp add: Let_def split: if_splits)
  from Cons.IH [OF this] show ?case by simp
qed simp

lemma restore_Inr:
  assumes "restore_async_state sha cp = Inr s'"
  shows "committed_items s' = cp_committed cp" "staged_items s' = cp_staged cp"
    "cp_committed_digest cp = Some (digest_of_bytes sha (projection_bytes (cp_committed cp)))"
    "\<forall>d. cp_staged_digest cp = Some d \<longrightarrow> d = digest_of_bytes sha (projection_bytes (cp_staged cp))"
proof -
  from assms obtain s where reg: "rebuild_registries (cp_committed cp @ cp_staged cp) ((create_async_state sha (cp_profile cp))
      \<lparr>committed_items := cp_committed cp, staged_items := cp_staged cp,
        committed_digest := (case cp_committed_digest cp of None \<Rightarrow> [] | Some d \<Rightarrow> d), submission_count := cp_count cp, last_submission := cp_last cp\<rparr>) = Inr s"
    and ver: "is_ok (verify_committed_integrity sha s)"
    and staged: "\<not> (\<exists>d. cp_staged_digest cp = Some d \<and> digest_of_bytes sha (projection_bytes (cp_staged cp)) \<noteq> d)"
    and s': "s' = refresh_digests sha s"
    by (auto simp: restore_async_state_def Let_def split: if_splits)
  from rebuild_items [OF reg] have s: "committed_items s = cp_committed cp" "staged_items s = cp_staged cp"
    "committed_digest s = (case cp_committed_digest cp of None \<Rightarrow> [] | Some d \<Rightarrow> d)" by simp_all
  then show "committed_items s' = cp_committed cp" "staged_items s' = cp_staged cp" by (simp_all add: s')
  from ver have "committed_digest s = digest_of_bytes sha (projection_bytes (committed_items s))"
    by (cases "verify_committed_integrity sha s") (auto simp: verify_Inr)
  with s show "cp_committed_digest cp = Some (digest_of_bytes sha (projection_bytes (cp_committed cp)))"
    by (auto simp: digest_of_bytes_def split: option.splits)
  show "\<forall>d. cp_staged_digest cp = Some d \<longrightarrow> d = digest_of_bytes sha (projection_bytes (cp_staged cp))"
    using staged by auto
qed

end
