(* ===== verification/Async_Coordinator.thy ===== *)
theory Async_Coordinator
  imports Async_Context "HOL-Library.Word"
begin

section \<open>The asynchronous agent coordinator\<close>

text \<open>
  \<open>packages/core-harness/src/async-agent-coordinator.js\<close>: one durable document per session
  orders what reaches an agent (user input, STOP, transitions of detached operations, explicit
  wakes), decides when the next model turn is due, and fences the turns that are out of date.
  Every operation is an optimistic update of the document with up to five retries.  A mutator
  works on \<open>persistentMemory\<close>, here the record \<open>coord\<close>; other writers and the clock are
  arguments, as in \<open>Detached_Store\<close>.  The operation manager is a record of functions.
  The abort signals, which live in the memory of one process and decide nothing, are left out.
\<close>

subsection \<open>The document\<close>

datatype ingress_kind = USER_INPUT | STOP | OPERATION_TRANSITION | EXPLICIT_WAKE

record ingress_entry =
  ingress_seq :: int
  ingress_kind :: ingress_kind
  ingress_input :: "string option"
  ingress_transition :: "string option"
  ingress_operation :: "string option"
  ingress_payload :: json
  ingress_at :: string

record wake_request =
  wake_id :: string
  covers_up_to :: int
  wake_reason :: string
  wake_kind :: ingress_kind
  wake_at :: string

datatype submission_status = ACTIVE | ABANDONED

record submission =
  submission_id :: string
  submission_generation :: int
  covered_seq :: int
  submission_reason :: string
  submitted_at :: string
  submission_status :: submission_status
  abandoned_at :: "string option"
  abandoned_reason :: "string option"

record stop_fence =
  fence_seq :: int
  fence_input :: string
  fence_reason :: string
  fence_at :: string

record committed_turn =
  turn_submission :: string
  turn_generation :: int
  turn_seq :: int
  turn_at :: string
  turn_failed :: bool
  turn_error :: json

record completion_burst =
  burst_count :: int
  burst_last :: "int option"
  burst_started :: "int option"

record coord_metrics =
  replacement_turns :: int
  abort_count :: int
  fence_count :: int
  coalesced_transitions :: int
  duplicate_transitions :: int
  duplicate_inputs :: int
  recovery_turns :: int
  steering_latencies :: "int list"
  last_steering :: "int option"

record coord =
  next_ingress :: int
  ingress :: "ingress_entry list"
  input_seqs :: "(string \<times> int) list"
  transition_seqs :: "(string \<times> int) list"
  transition_bindings :: "(string \<times> string) list"
  input_digests :: "(string \<times> string) list"
  pending_wake :: "wake_request option"
  model_generation :: int
  current_submission :: "submission option"
  stopped :: "stop_fence option"
  async_context :: async_state
  last_turn :: "committed_turn option"
  quick_grace :: "int option"
  burst :: completion_burst
  last_staged :: int
  metrics :: coord_metrics

type_synonym coord_doc = "coord session"

definition no_burst :: completion_burst where
  "no_burst = \<lparr>burst_count = 0, burst_last = None, burst_started = None\<rparr>"

definition no_metrics :: coord_metrics where
  "no_metrics = \<lparr>replacement_turns = 0, abort_count = 0, fence_count = 0, coalesced_transitions = 0, duplicate_transitions = 0,
     duplicate_inputs = 0, recovery_turns = 0, steering_latencies = [], last_steering = None\<rparr>"

definition empty_coord :: "(string \<Rightarrow> string) \<Rightarrow> coord" where
  "empty_coord sha =
     \<lparr>next_ingress = 1, ingress = [], input_seqs = [], transition_seqs = [], transition_bindings = [], input_digests = [],
      pending_wake = None, model_generation = 1, current_submission = None, stopped = None,
      async_context = create_async_state sha JNull, last_turn = None, quick_grace = None, burst = no_burst, last_staged = 0,
      metrics = no_metrics\<rparr>"

definition coordinator_id :: "string \<Rightarrow> string" where
  "coordinator_id sess = ''__exharness_async_coordinator__:'' @ encode_uri_component sess"

definition work_of_session :: "string \<Rightarrow> json" where
  "work_of_session sess = JObj [(''kind'', JStr ''ASYNC_AGENT_COORDINATOR''), (''sessionId'', JStr sess)]"

definition empty_coord_doc :: "(string \<Rightarrow> string) \<Rightarrow> string \<Rightarrow> string \<Rightarrow> coord_doc" where
  "empty_coord_doc sha sess at =
     \<lparr>sid = coordinator_id sess, schema_version = Some 2, revision = Some 0, work = Some (work_of_session sess), memory_lists = [],
      memory = empty_coord sha, trajectory = Some [], supervision = Some default_supervision, created_at = at, updated_at = at\<rparr>"

text \<open>A document a coordinator wrote has every field of \<open>persistentMemory\<close>; only \<open>work\<close> may be missing.\<close>

definition ensure_coord_shape :: "string \<Rightarrow> coord_doc \<Rightarrow> coord_doc" where
  "ensure_coord_shape sess d = d\<lparr>work := Some (or_else (work d) (work_of_session sess))\<rparr>"

subsection \<open>Digests and keys\<close>

definition hash_step :: "32 word \<Rightarrow> char \<Rightarrow> 32 word" where
  "hash_step h c = h * 31 + of_nat (of_char c)"

fun hex_text :: "nat \<Rightarrow> string" where
  "hex_text n = (if n < 16 then [hex_digit n] else hex_text (n div 16) @ [hex_digit (n mod 16)])"

declare hex_text.simps [simp del]

definition payload_digest :: "json \<Rightarrow> string" where
  "payload_digest v =
     (let t = stable_stringify v in ''digest:'' @ hex_text (unat (foldl hash_step 0 t)) @ '':'' @ nat_text (length t))"

definition transition_binding_key :: "json \<Rightarrow> string" where
  "transition_binding_key t =
     (let f = (\<lambda>k. (k, or_null (opt_member (Some t) k))) in
      stable_stringify (JObj [f ''operationId'', f ''callId'', f ''effectOperationId'', f ''generation'', f ''sequence'', f ''status'']))"

definition coord_binding_fault :: "string \<Rightarrow> error" where
  "coord_binding_fault msg = Contract ''ASYNC_COORDINATOR_BINDING_MISMATCH'' msg"

subsection \<open>The profile\<close>

record coord_profile =
  completion_idle_ms :: int
  max_coalesced :: int
  quick_grace_ms :: int

definition resolve_profile :: "int option \<Rightarrow> int option \<Rightarrow> int option \<Rightarrow> coord_profile res" where
  "resolve_profile idle most grace =
     (let p = \<lparr>completion_idle_ms = or_else idle 1, max_coalesced = or_else most 100, quick_grace_ms = or_else grace 1000\<rparr> in
      rbind (invariant (0 \<le> completion_idle_ms p) ''coordinator completionIdleMs must be a non-negative integer'') (\<lambda>_.
      rbind (invariant (1 \<le> max_coalesced p) ''coordinator maxCoalescedTransitions must be a positive integer'') (\<lambda>_.
      rbind (invariant (0 \<le> quick_grace_ms p) ''coordinator quickCompletionGraceMs must be a non-negative integer'') (\<lambda>_.
        Inr p))))"

subsection \<open>The optimistic update\<close>

text \<open>
  The closures assign the variable \<open>fencedGeneration\<close> outside the mutator, so what an attempt
  assigned is still there in the next one: a mutator gets its value and answers with the new one.
\<close>

type_synonym 'v coord_mutator = "clock \<Rightarrow> int option \<Rightarrow> coord \<Rightarrow> int option \<times> (coord \<times> 'v) res"

definition load_coord :: "('s, coord) session_store \<Rightarrow> string \<Rightarrow> 's \<Rightarrow> coord_doc option res" where
  "load_coord ops sess st = rbind (op_load ops st (coordinator_id sess)) (\<lambda>found. Inr (map_option (ensure_coord_shape sess) found))"

definition save_coord :: "('s, coord) session_store \<Rightarrow> string \<Rightarrow> coord_doc \<Rightarrow> 's \<Rightarrow> 's \<times> int res" where
  "save_coord ops at d st =
     (let expected = or_else (revision d) 0 in
      case op_save ops st (d\<lparr>updated_at := at\<rparr>) expected of
        (st', Inl e) \<Rightarrow> (st', Inl e)
      | (st', Inr result) \<Rightarrow> (st', assert_persisted_revision result expected (supports_revisions ops)))"

fun with_coord ::
  "('s, coord) session_store \<Rightarrow> (string \<Rightarrow> string) \<Rightarrow> string \<Rightarrow> (nat \<Rightarrow> clock) \<Rightarrow> (nat \<Rightarrow> 's \<Rightarrow> 's) \<Rightarrow> 'v coord_mutator \<Rightarrow>
     int option \<Rightarrow> nat \<Rightarrow> nat \<Rightarrow> 's \<Rightarrow> 's \<times> int option \<times> 'v res" where
  "with_coord ops sha sess clk env mutator fenced n left st =
     (let st1 = env (2 * n) st in
      case load_coord ops sess st1 of
        Inl e \<Rightarrow> (st1, fenced, Inl e)
      | Inr found \<Rightarrow>
          let d = (case found of None \<Rightarrow> empty_coord_doc sha sess (clk n 0) | Some d \<Rightarrow> d) in
          case mutator (clk n) fenced (memory d) of
            (fenced', Inl e) \<Rightarrow> (st1, fenced', Inl e)
          | (fenced', Inr (m, v)) \<Rightarrow>
              let st2 = env (2 * n + 1) st1 in
              case save_coord ops (clk n 1) (d\<lparr>memory := m\<rparr>) st2 of
                (st3, Inr _) \<Rightarrow> (st3, fenced', Inr v)
              | (st3, Inl e) \<Rightarrow>
                  if is_store_conflict e \<and> 0 < left
                  then with_coord ops sha sess clk env mutator fenced' (n + 1) (left - 1) st3
                  else (st3, fenced', Inl e))"

declare with_coord.simps [simp del]

definition coord_retries :: nat where
  "coord_retries = 5"

definition update_coord ::
  "('s, coord) session_store \<Rightarrow> (string \<Rightarrow> string) \<Rightarrow> string \<Rightarrow> (nat \<Rightarrow> clock) \<Rightarrow> (nat \<Rightarrow> 's \<Rightarrow> 's) \<Rightarrow> 'v coord_mutator \<Rightarrow>
     's \<Rightarrow> 's \<times> int option \<times> 'v res" where
  "update_coord ops sha sess clk env mutator st = with_coord ops sha sess clk env mutator None 0 coord_retries st"

definition read_coord :: "('s, coord) session_store \<Rightarrow> (string \<Rightarrow> string) \<Rightarrow> string \<Rightarrow> 's \<Rightarrow> coord res" where
  "read_coord ops sha sess st =
     rbind (load_coord ops sess st) (\<lambda>found. Inr (case found of None \<Rightarrow> empty_coord sha | Some d \<Rightarrow> memory d))"

text \<open>A mutator that leaves the variable alone.\<close>

definition plain :: "(clock \<Rightarrow> coord \<Rightarrow> (coord \<times> 'v) res) \<Rightarrow> 'v coord_mutator" where
  "plain f clk fenced m = (fenced, f clk m)"

subsection \<open>Wakes and fences\<close>

definition model_active :: "coord \<Rightarrow> bool" where
  "model_active m \<longleftrightarrow> (case current_submission m of None \<Rightarrow> False | Some s \<Rightarrow> submission_status s = ACTIVE)"

definition extend_or_create_wake :: "int \<Rightarrow> string \<Rightarrow> ingress_kind \<Rightarrow> string \<Rightarrow> coord \<Rightarrow> coord \<times> bool \<times> wake_request" where
  "extend_or_create_wake covers why kind at m =
     (case pending_wake m of
        Some w \<Rightarrow>
          let w' = (if covers_up_to w < covers then w\<lparr>covers_up_to := covers\<rparr> else w)
          in (m\<lparr>pending_wake := Some w'\<rparr>, False, w')
      | None \<Rightarrow>
          let w = \<lparr>wake_id = ''wake:'' @ int_text (next_ingress m - 1) @ '':'' @ why @ '':'' @ int_text covers,
                   covers_up_to = covers, wake_reason = why, wake_kind = kind, wake_at = at\<rparr>
          in (m\<lparr>pending_wake := Some w\<rparr>, True, w))"

definition abandon :: "string \<Rightarrow> string \<Rightarrow> submission \<Rightarrow> submission" where
  "abandon at why s = s\<lparr>submission_status := ABANDONED, abandoned_at := Some at, abandoned_reason := Some why\<rparr>"

definition count_fence :: "coord \<Rightarrow> coord" where
  "count_fence m = m\<lparr>model_generation := model_generation m + 1,
     metrics := (metrics m)\<lparr>fence_count := fence_count (metrics m) + 1, abort_count := abort_count (metrics m) + 1\<rparr>\<rparr>"

definition add_entry :: "ingress_kind \<Rightarrow> string option \<Rightarrow> string option \<Rightarrow> string option \<Rightarrow> json \<Rightarrow> string \<Rightarrow> coord \<Rightarrow> coord \<times> ingress_entry" where
  "add_entry kind k t op payload at m =
     (let e = \<lparr>ingress_seq = next_ingress m, ingress_kind = kind, ingress_input = k, ingress_transition = t, ingress_operation = op,
               ingress_payload = payload, ingress_at = at\<rparr>
      in (m\<lparr>next_ingress := next_ingress m + 1, ingress := ingress m @ [e]\<rparr>, e))"

text \<open>An entry under an input id: the entry, its place in the tables, and the digest of its payload.\<close>

definition accept_input :: "ingress_kind \<Rightarrow> string \<Rightarrow> json \<Rightarrow> string \<Rightarrow> coord \<Rightarrow> coord \<times> ingress_entry" where
  "accept_input kind k payload at m =
     (case add_entry kind (Some k) None None payload at m of (m', e) \<Rightarrow>
        (m'\<lparr>input_seqs := aset k (ingress_seq e) (input_seqs m'), input_digests := aset k (payload_digest payload) (input_digests m')\<rparr>, e))"

definition entry_at :: "coord \<Rightarrow> int \<Rightarrow> ingress_entry option" where
  "entry_at m q = find (\<lambda>e. ingress_seq e = q) (ingress m)"

definition quiet_completions :: "coord \<Rightarrow> coord" where
  "quiet_completions m = m\<lparr>quick_grace := None, burst := no_burst\<rparr>"

definition skip_input :: "coord \<Rightarrow> coord" where
  "skip_input m = m\<lparr>metrics := (metrics m)\<lparr>duplicate_inputs := duplicate_inputs (metrics m) + 1\<rparr>\<rparr>"

definition skip_transitions :: "nat \<Rightarrow> coord \<Rightarrow> coord" where
  "skip_transitions n m = m\<lparr>metrics := (metrics m)\<lparr>duplicate_transitions := duplicate_transitions (metrics m) + int n\<rparr>\<rparr>"

record ingest_result =
  got_entry :: "ingress_entry option"
  got_duplicate :: bool
  got_wake :: "wake_request option"
  got_generation :: int
  got_stop_fenced :: bool
  got_fence :: "stop_fence option"
  got_held :: "string option"
  got_staged :: "string list"

definition ingested :: "ingress_entry option \<Rightarrow> bool \<Rightarrow> wake_request option \<Rightarrow> coord \<Rightarrow> ingest_result" where
  "ingested e dup w m = \<lparr>got_entry = e, got_duplicate = dup, got_wake = w, got_generation = model_generation m, got_stop_fenced = False,
     got_fence = None, got_held = None, got_staged = []\<rparr>"

subsection \<open>Ingress\<close>

text \<open>\<open>k\<close> is the input id, \<open>at\<close> and \<open>now\<close> what the clock read before the update.\<close>

definition user_input_mutator :: "string \<Rightarrow> json \<Rightarrow> string \<Rightarrow> int \<Rightarrow> ingest_result coord_mutator" where
  "user_input_mutator k payload at now clk fenced m =
     (case map_of (input_seqs m) k of
        Some q \<Rightarrow>
          if map_of (input_digests m) k \<notin> {None, Some (payload_digest payload)}
          then (fenced, Inl (coord_binding_fault (''async coordinator USER_INPUT inputId reuse with conflicting payload: '' @ k)))
          else (fenced, Inr (skip_input m, ingested (entry_at m q) True (pending_wake m) m))
      | None \<Rightarrow>
          (case accept_input USER_INPUT k payload at m of (m1, e) \<Rightarrow>
           let m2 = quiet_completions m1;
               m3 = m2\<lparr>metrics := (metrics m2)\<lparr>last_steering := Some now\<rparr>\<rparr>;
               wake_for = (\<lambda>why mm. case extend_or_create_wake (ingress_seq e) why USER_INPUT at mm of (m4, created, w) \<Rightarrow>
                 (if created then m4\<lparr>metrics := (metrics m4)\<lparr>replacement_turns := replacement_turns (metrics m4) + 1,
                                                           steering_latencies := steering_latencies (metrics m4) @ [0]\<rparr>\<rparr> else m4, w))
           in if stopped m3 \<noteq> None
              then (fenced, Inr (m3, (ingested (Some e) False None m3)\<lparr>got_stop_fenced := True\<rparr>))
              else (case current_submission m3 of
                Some s \<Rightarrow>
                  if submission_status s = ACTIVE
                  then (case wake_for ''USER_INPUT_STEERING'' ((count_fence m3)\<lparr>current_submission := Some (abandon at ''USER_INPUT_STEERING'' s)\<rparr>) of
                          (m5, w) \<Rightarrow> (Some (submission_generation s), Inr (m5, ingested (Some e) False (Some w) m5)))
                  else (case wake_for ''USER_INPUT'' m3 of (m5, w) \<Rightarrow> (fenced, Inr (m5, ingested (Some e) False (Some w) m5)))
              | None \<Rightarrow> (case wake_for ''USER_INPUT'' m3 of (m5, w) \<Rightarrow> (fenced, Inr (m5, ingested (Some e) False (Some w) m5))))))"

definition stop_mutator :: "string \<Rightarrow> string option \<Rightarrow> string \<Rightarrow> ingest_result coord_mutator" where
  "stop_mutator k why at clk fenced m =
     (case map_of (input_seqs m) k of
        Some q \<Rightarrow> (fenced, Inr (skip_input m, (ingested (entry_at m q) True None m)\<lparr>got_fence := stopped m\<rparr>))
      | None \<Rightarrow>
          (case accept_input STOP k (JObj [(''reason'', text_or_null why)]) at m of (m1, e) \<Rightarrow>
           let (m2, fenced') = (case current_submission m1 of
                 Some s \<Rightarrow> if submission_status s = ACTIVE
                   then (m1\<lparr>current_submission := Some (abandon at ''STOP_FENCE'' s)\<rparr>, Some (submission_generation s)) else (m1, fenced)
               | None \<Rightarrow> (m1, fenced));
               fence = \<lparr>fence_seq = ingress_seq e, fence_input = k, fence_reason = or_else why ''STOP'', fence_at = at\<rparr>;
               m3 = quiet_completions ((count_fence m2)\<lparr>stopped := Some fence, pending_wake := None\<rparr>)
           in (fenced', Inr (m3, (ingested (Some e) False None m3)\<lparr>got_fence := Some fence\<rparr>))))"

definition in_grace :: "coord \<Rightarrow> int \<Rightarrow> bool" where
  "in_grace m now \<longleftrightarrow> (case quick_grace m of None \<Rightarrow> False | Some g \<Rightarrow> now < g)"

text \<open>A transition, after its call and effect were looked up.\<close>

definition seen_transition :: "string \<Rightarrow> json \<Rightarrow> coord \<Rightarrow> int \<Rightarrow> (coord \<times> ingest_result) res" where
  "seen_transition tid t m q =
     (if map_of (transition_bindings m) tid \<notin> {None, Some (transition_binding_key t)}
      then Inl (coord_binding_fault (''async coordinator transitionId reuse with conflicting binding: '' @ tid))
      else Inr (skip_transitions 1 m, ingested (entry_at m q) True (pending_wake m) m))"

definition transition_payload :: "json \<Rightarrow> (string \<times> json) list \<Rightarrow> json" where
  "transition_payload t extra = JObj ([(''status'', or_null (opt_member (Some t) ''status'')),
     (''generation'', or_null (opt_member (Some t) ''generation'')), (''sequence'', or_null (opt_member (Some t) ''sequence''))] @ extra)"

definition record_transition :: "string \<Rightarrow> string \<Rightarrow> json \<Rightarrow> (string \<times> json) list \<Rightarrow> string \<Rightarrow> coord \<Rightarrow> coord \<times> ingress_entry" where
  "record_transition tid op t extra at m =
     (case add_entry OPERATION_TRANSITION None (Some tid) (Some op) (transition_payload t extra) at m of (m', e) \<Rightarrow>
        (m'\<lparr>transition_seqs := aset tid (ingress_seq e) (transition_seqs m'),
            transition_bindings := aset tid (transition_binding_key t) (transition_bindings m')\<rparr>, e))"

definition raise_staged :: "json \<Rightarrow> int \<Rightarrow> int" where
  "raise_staged t n = (case opt_member (Some t) ''sequence'' of Some (JNum q) \<Rightarrow> max n q | _ \<Rightarrow> n)"

definition new_transition ::
  "(string \<Rightarrow> string) \<Rightarrow> coord_profile \<Rightarrow> string \<Rightarrow> string \<Rightarrow> json \<Rightarrow> string \<Rightarrow> int \<Rightarrow> coord \<Rightarrow> (coord \<times> ingest_result) res" where
  "new_transition sha p tid op t at now m =
     (case stage_async_transitions sha [t] (async_context m) of
        (ctx, Inl e) \<Rightarrow> Inl e
      | (ctx, Inr (staged, skipped)) \<Rightarrow>
          (case record_transition tid op t [] at (skip_transitions (length skipped) (m\<lparr>async_context := ctx\<rparr>)) of (m1, e) \<Rightarrow>
           let m2 = m1\<lparr>last_staged := raise_staged t (last_staged m1)\<rparr>;
               res = (\<lambda>w mm. (ingested (Some e) False w mm)\<lparr>got_staged := staged\<rparr>)
           in if model_active m2 then Inr (m2, res None m2)
              else if stopped m2 \<noteq> None then Inr (m2, (res None m2)\<lparr>got_stop_fenced := True\<rparr>)
              else
                let b = burst m2;
                    b' = b\<lparr>burst_count := burst_count b + 1, burst_last := Some now,
                           burst_started := (if burst_started b = None then Some now else burst_started b)\<rparr>;
                    m3 = m2\<lparr>burst := b'\<rparr>
                in if in_grace m3 now then Inr (m3, (res None m3)\<lparr>got_held := Some ''QUICK_GRACE''\<rparr>)
                   else if max_coalesced p \<le> burst_count b'
                   then (case extend_or_create_wake (ingress_seq e) ''COMPLETION_BURST_MAX'' OPERATION_TRANSITION at m3 of (m4, created, w) \<Rightarrow>
                           let m5 = (if created then m4\<lparr>metrics := (metrics m4)\<lparr>coalesced_transitions := coalesced_transitions (metrics m4) + burst_count b'\<rparr>,
                                                        burst := no_burst\<rparr> else m4)
                           in Inr (m5, res (Some w) m5))
                   else Inr (m3, (res None m3)\<lparr>got_held := Some ''COMPLETION_IDLE''\<rparr>)))"

definition transition_input_mutator ::
  "(string \<Rightarrow> string) \<Rightarrow> coord_profile \<Rightarrow> string \<Rightarrow> string \<Rightarrow> json \<Rightarrow> string \<Rightarrow> int \<Rightarrow> ingest_result coord_mutator" where
  "transition_input_mutator sha p tid op t at now =
     plain (\<lambda>clk m. case map_of (transition_seqs m) tid of
              Some q \<Rightarrow> seen_transition tid t m q
            | None \<Rightarrow> new_transition sha p tid op t at now m)"

text \<open>\<open>now\<close> is \<open>nowMs()\<close>, which this mutator reads itself.\<close>

definition explicit_wake_mutator :: "string \<Rightarrow> string option \<Rightarrow> string \<Rightarrow> int \<Rightarrow> ingest_result coord_mutator" where
  "explicit_wake_mutator k why at now =
     plain (\<lambda>clk m. case map_of (input_seqs m) k of
        Some q \<Rightarrow> Inr (skip_input m, ingested (entry_at m q) True (pending_wake m) m)
      | None \<Rightarrow>
          (case accept_input EXPLICIT_WAKE k (JObj [(''reason'', text_or_null why)]) at m of (m1, e) \<Rightarrow>
             if stopped m1 \<noteq> None then Inr (m1, (ingested (Some e) False None m1)\<lparr>got_stop_fenced := True\<rparr>)
             else if model_active m1 then Inr (m1, ingested (Some e) False None m1)
             else
               let m2 = (if in_grace m1 now then m1\<lparr>quick_grace := None\<rparr> else m1)
               in case extend_or_create_wake (ingress_seq e) (or_else why ''EXPLICIT_WAKE'') EXPLICIT_WAKE at m2 of (m3, created, w) \<Rightarrow>
                    Inr (m3, ingested (Some e) False (Some w) m3)))"

record drain_result =
  drained_wake :: "wake_request option"
  drain_held :: "string option"
  drain_blocked :: bool
  drain_active :: bool

definition drain_mutator :: "coord_profile \<Rightarrow> string \<Rightarrow> int \<Rightarrow> drain_result coord_mutator" where
  "drain_mutator p at now =
     plain (\<lambda>clk m.
       let none = \<lparr>drained_wake = None, drain_held = None, drain_blocked = False, drain_active = False\<rparr>; b = burst m in
       if stopped m \<noteq> None then Inr (m, none\<lparr>drain_blocked := True\<rparr>)
       else if model_active m then Inr (m, none\<lparr>drain_active := True\<rparr>)
       else if pending_wake m \<noteq> None then Inr (m, none\<lparr>drained_wake := pending_wake m\<rparr>)
       else if burst_count b \<le> 0 \<or> burst_last b = None then Inr (m, none)
       else if in_grace m now then Inr (m, none\<lparr>drain_held := Some ''QUICK_GRACE''\<rparr>)
       else if now - the (burst_last b) < completion_idle_ms p then Inr (m, none\<lparr>drain_held := Some ''COMPLETION_IDLE''\<rparr>)
       else case extend_or_create_wake (next_ingress m - 1) ''COMPLETION_DRAIN'' OPERATION_TRANSITION at m of (m1, created, w) \<Rightarrow>
         let m2 = (if created then m1\<lparr>metrics := (metrics m1)\<lparr>coalesced_transitions := coalesced_transitions (metrics m1) + burst_count b\<rparr>,
                                      burst := no_burst\<rparr> else m1)
         in Inr (m2, none\<lparr>drained_wake := Some w\<rparr>))"

end
