(* ===== verification/Async_Turns.thy ===== *)
theory Async_Turns
  imports Async_Coordinator
begin

section \<open>Turns, recovery and the operations of the coordinator\<close>

text \<open>
  The second half of \<open>packages/core-harness/src/async-agent-coordinator.js\<close>: the updates that offer,
  complete and fail a model turn and that recover after a crash, and the operations the coordinator
  exports, each of which checks its arguments, runs one update and, for a STOP and for recovery, asks
  the operation manager.
\<close>

subsection \<open>Model turns\<close>

record turn_offer =
  offered :: "submission option"
  offered_items :: "string list"

definition stop_fenced_fault :: error where
  "stop_fenced_fault = Contract ''ASYNC_COORDINATOR_STOP_FENCED'' ''STOP fence blocks new model/tool dispatch''"

definition default_submission_id :: "string \<Rightarrow> int \<Rightarrow> int \<Rightarrow> string" where
  "default_submission_id sess gen covers = ''submission:'' @ sess @ '':'' @ int_text gen @ '':'' @ int_text covers"

definition take_turn_mutator :: "(string \<Rightarrow> string) \<Rightarrow> string \<Rightarrow> string option \<Rightarrow> string \<Rightarrow> turn_offer coord_mutator" where
  "take_turn_mutator sha sess k at =
     plain (\<lambda>clk m.
       if stopped m \<noteq> None then Inl stop_fenced_fault
       else if model_active m then Inl (coord_binding_fault ''at most one model generation is active per coordinator session'')
       else if pending_wake m = None \<and> staged_items (async_context m) = [] then Inr (m, \<lparr>offered = None, offered_items = []\<rparr>)
       else
         let covers = (case pending_wake m of Some w \<Rightarrow> covers_up_to w | None \<Rightarrow> next_ingress m - 1);
             k' = or_else k (default_submission_id sess (model_generation m) covers) in
         rbind (require_text (JStr k') ''async coordinator submissionId'') (\<lambda>_.
           let s = \<lparr>submission_id = k', submission_generation = model_generation m, covered_seq = covers,
                    submission_reason = (case pending_wake m of Some w \<Rightarrow> wake_reason w | None \<Rightarrow> ''STAGED_ASYNC_CONTEXT''),
                    submitted_at = at, submission_status = ACTIVE, abandoned_at = None, abandoned_reason = None\<rparr>;
               ids = map ai_id (staged_items (async_context m));
               (ctx, committed) = (if ids = [] then (async_context m, [])
                 else case commit_async_context sha ids k' (async_context m) of
                        (ctx, Inl _) \<Rightarrow> (ctx, [])
                      | (ctx, Inr done) \<Rightarrow> (ctx, done))
           in Inr (m\<lparr>current_submission := Some s, pending_wake := None, burst := no_burst, async_context := ctx\<rparr>,
                   \<lparr>offered = Some s, offered_items = committed\<rparr>)))"

text \<open>\<open>isSubmissionCurrent\<close>: the submission, or why it is not current.\<close>

definition submission_current :: "coord \<Rightarrow> string \<Rightarrow> string + submission" where
  "submission_current m k =
     (if stopped m \<noteq> None then Inl ''STOP_FENCED''
      else case current_submission m of
        None \<Rightarrow> Inl ''NO_ACTIVE_SUBMISSION''
      | Some s \<Rightarrow>
          if submission_id s = k
          then (if submission_status s \<noteq> ACTIVE then Inl ''FENCED_GENERATION''
                else if submission_generation s \<noteq> model_generation m then Inl ''FENCED_GENERATION''
                else Inr s)
          else if submission_status s \<noteq> ACTIVE then Inl ''FENCED_GENERATION''
          else Inl ''STALE_SUBMISSION'')"

record turn_answer =
  answer_accepted :: bool
  answer_reason :: "string option"
  answer_submission :: "submission option"

definition refused_turn :: "string \<Rightarrow> turn_answer" where
  "refused_turn why = \<lparr>answer_accepted = False, answer_reason = Some why, answer_submission = None\<rparr>"

definition close_turn :: "submission \<Rightarrow> string \<Rightarrow> bool \<Rightarrow> json \<Rightarrow> coord \<Rightarrow> coord" where
  "close_turn s at failed err m = m\<lparr>current_submission := None,
     last_turn := Some \<lparr>turn_submission = submission_id s, turn_generation = submission_generation s, turn_seq = covered_seq s, turn_at = at,
                        turn_failed = failed, turn_error = err\<rparr>\<rparr>"

definition complete_turn_mutator :: "coord_profile \<Rightarrow> string \<Rightarrow> string \<Rightarrow> int \<Rightarrow> turn_answer coord_mutator" where
  "complete_turn_mutator p k at now =
     plain (\<lambda>clk m. case submission_current m k of
        Inl why \<Rightarrow> Inr (m, refused_turn why)
      | Inr s \<Rightarrow> Inr ((close_turn s at False JNull m)\<lparr>quick_grace := (if 0 < quick_grace_ms p then Some (now + quick_grace_ms p) else None)\<rparr>,
          \<lparr>answer_accepted = True, answer_reason = None, answer_submission = Some s\<rparr>))"

definition fail_turn_mutator :: "string \<Rightarrow> json \<Rightarrow> turn_answer coord_mutator" where
  "fail_turn_mutator k err =
     plain (\<lambda>clk m. case submission_current m k of
        Inl why \<Rightarrow> Inr (m, refused_turn why)
      | Inr s \<Rightarrow> Inr ((close_turn s (clk 2) True err m)\<lparr>quick_grace := None\<rparr>,
          \<lparr>answer_accepted = True, answer_reason = None, answer_submission = Some s\<rparr>))"

subsection \<open>Recovery\<close>

definition recover_entry ::
  "(string \<Rightarrow> string) \<Rightarrow> string \<Rightarrow> json \<Rightarrow> coord \<times> nat \<times> int \<Rightarrow> coord \<times> nat \<times> int" where
  "recover_entry sha at t acc =
     (case acc of (m, n, highest) \<Rightarrow>
      let tid = js_text (opt_member (Some t) ''transitionId''); op = js_text (opt_member (Some t) ''operationId'') in
      if nullish (opt_member (Some t) ''transitionId'') \<or> nullish (opt_member (Some t) ''operationId'') then acc
      else if map_of (transition_seqs m) tid \<noteq> None then (skip_transitions 1 m, n, highest)
      else if nullish (opt_member (Some t) ''effectOperationId'') then acc
      else case stage_async_transitions sha [t] (async_context m) of
        (ctx, Inl _) \<Rightarrow> (m\<lparr>async_context := ctx\<rparr>, n, highest)
      | (ctx, Inr (staged, skipped)) \<Rightarrow>
          let m1 = m\<lparr>async_context := ctx\<rparr> in
          if staged = [] \<and> skipped \<noteq> [] then (skip_transitions (length skipped) m1, n, highest)
          else (fst (record_transition tid op t [(''recovered'', JBool True)] at m1), n + 1, raise_staged t highest))"

definition nonterminal_operation :: "json \<Rightarrow> bool" where
  "nonterminal_operation v \<longleftrightarrow> v \<noteq> JNull \<and>
     opt_member (Some v) ''status'' \<notin> set (map (\<lambda>s. Some (JStr s)) [''SUCCEEDED'', ''FAILED'', ''CANCELLED'', ''UNKNOWN''])"

record recovery_result =
  recovered_abandoned :: "submission option"
  recovered_staged :: nat
  recovered_wake :: "wake_request option"
  recovered_stopped :: bool
  recovered_previous :: int

definition last_turn_seq :: "coord \<Rightarrow> int" where
  "last_turn_seq m = (case last_turn m of None \<Rightarrow> 0 | Some t \<Rightarrow> turn_seq t)"

definition fence_crashed_turn :: "string \<Rightarrow> bool \<Rightarrow> coord \<Rightarrow> coord \<times> submission option" where
  "fence_crashed_turn at had_active m =
     (case (if model_active m then current_submission m else None) of
        Some s \<Rightarrow> ((count_fence m)\<lparr>current_submission := Some (abandon at ''CRASH_RECOVERY'' s)\<rparr>, Some s)
      | None \<Rightarrow>
          if had_active
          then (m\<lparr>model_generation := model_generation m + 1, metrics := (metrics m)\<lparr>fence_count := fence_count (metrics m) + 1\<rparr>\<rparr>, None)
          else (m, None))"

definition recovery_wake ::
  "string \<Rightarrow> bool \<Rightarrow> bool \<Rightarrow> bool \<Rightarrow> nat \<Rightarrow> coord \<Rightarrow> coord \<times> wake_request option" where
  "recovery_wake at pending nonterminal abandoned staged m =
     (if stopped m \<noteq> None then (m, None)
      else
        let waiting_items = staged_items (async_context m) \<noteq> [];
            covers = next_ingress m - 1 in
        if (pending \<or> nonterminal \<or> abandoned) \<and> pending_wake m = None \<and> \<not> model_active m
        then (if last_turn_seq m < covers \<or> waiting_items \<or> nonterminal
              then (case extend_or_create_wake covers ''CRASH_RECOVERY'' EXPLICIT_WAKE at m of (m1, created, w) \<Rightarrow>
                      (if created then m1\<lparr>metrics := (metrics m1)\<lparr>recovery_turns := recovery_turns (metrics m1) + 1\<rparr>\<rparr> else m1, Some w))
              else (m, None))
        else case pending_wake m of
          None \<Rightarrow> (m, None)
        | Some w \<Rightarrow>
            let w' = (if 0 < staged \<and> covers_up_to w < covers then w\<lparr>covers_up_to := covers\<rparr> else w)
            in (m\<lparr>pending_wake := Some w'\<rparr>, Some w'))"

definition recover_mutator ::
  "(string \<Rightarrow> string) \<Rightarrow> string \<Rightarrow> bool \<Rightarrow> int \<Rightarrow> json list \<Rightarrow> json list \<Rightarrow> recovery_result coord_mutator" where
  "recover_mutator sha at had_active previous unseen recovered =
     plain (\<lambda>clk m.
       case fence_crashed_turn at had_active m of (m1, abandoned) \<Rightarrow>
       case foldl (\<lambda>acc t. recover_entry sha at t acc) (m1, 0, last_staged m1) unseen of (m2, staged, highest) \<Rightarrow>
       let m3 = m2\<lparr>last_staged := highest\<rparr>;
           pending = next_ingress m1 < next_ingress m3 \<or> 0 < staged \<or> staged_items (async_context m3) \<noteq> [] \<or>
                     last_turn_seq m3 < next_ingress m3 - 1
       in case recovery_wake at pending (list_ex nonterminal_operation recovered) (abandoned \<noteq> None) staged m3 of (m4, w) \<Rightarrow>
         Inr (quiet_completions m4,
              \<lparr>recovered_abandoned = abandoned, recovered_staged = staged, recovered_wake = w, recovered_stopped = (stopped m1 \<noteq> None),
               recovered_previous = previous\<rparr>))"

subsection \<open>The operations\<close>

text \<open>
  What the coordinator asks of the operation manager; \<open>None\<close> is a manager, or a function of it,
  that is not there.  The world \<open>'s\<close> holds the documents of both.
\<close>

record 's operation_manager =
  mgr_list :: "('s \<Rightarrow> 's \<times> json list res) option"
  mgr_cancel :: "(string \<Rightarrow> string \<Rightarrow> 's \<Rightarrow> 's \<times> unit res) option"
  mgr_read :: "(string \<Rightarrow> 's \<Rightarrow> 's \<times> jsval res) option"
  mgr_recover :: "('s \<Rightarrow> 's \<times> json list res) option"
  mgr_transitions :: "(int \<Rightarrow> 's \<Rightarrow> 's \<times> json list res) option"

definition no_manager :: "'s operation_manager" where
  "no_manager = \<lparr>mgr_list = None, mgr_cancel = None, mgr_read = None, mgr_recover = None, mgr_transitions = None\<rparr>"

text \<open>The setting of a coordinator: its store, its session, its manager, and for one call the clock and the others.\<close>

record 's coord_setting =
  the_store :: "('s, coord) session_store"
  the_sha :: "string \<Rightarrow> string"
  the_session :: string
  the_profile :: coord_profile
  the_manager :: "'s operation_manager"
  the_clock :: "nat \<Rightarrow> clock"
  the_others :: "nat \<Rightarrow> 's \<Rightarrow> 's"
  the_time :: string
  the_ms :: int

definition update_in :: "'s coord_setting \<Rightarrow> 'v coord_mutator \<Rightarrow> 's \<Rightarrow> 's \<times> int option \<times> 'v res" where
  "update_in C = update_coord (the_store C) (the_sha C) (the_session C) (the_clock C) (the_others C)"

definition read_in :: "'s coord_setting \<Rightarrow> 's \<Rightarrow> coord res" where
  "read_in C = read_coord (the_store C) (the_sha C) (the_session C)"

definition ingest_user_input :: "'s coord_setting \<Rightarrow> string \<Rightarrow> json \<Rightarrow> 's \<Rightarrow> 's \<times> int option \<times> ingest_result res" where
  "ingest_user_input C k payload st =
     (case require_text (JStr k) ''async coordinator USER_INPUT inputId'' of
        Inl e \<Rightarrow> (st, None, Inl e)
      | Inr _ \<Rightarrow> update_in C (user_input_mutator k payload (the_time C) (the_ms C)) st)"

text \<open>The cancellations after the fence; whatever they throw is swallowed.\<close>

fun cancel_each :: "(string \<Rightarrow> string \<Rightarrow> 's \<Rightarrow> 's \<times> unit res) \<Rightarrow> string \<Rightarrow> json list \<Rightarrow> 's \<Rightarrow> 's" where
  "cancel_each cancel why [] st = st"
| "cancel_each cancel why (r # rs) st =
     (if opt_member (Some r) ''status'' \<in> {Some (JStr ''RUNNING''), Some (JStr ''CANCEL_REQUESTED'')}
      then cancel_each cancel why rs (fst (cancel (js_text (opt_member (Some r) ''operationId'')) why st))
      else cancel_each cancel why rs st)"

definition cancel_running :: "'s operation_manager \<Rightarrow> string \<Rightarrow> 's \<Rightarrow> 's" where
  "cancel_running M why st =
     (case (mgr_list M, mgr_cancel M) of
        (Some lst, Some cancel) \<Rightarrow>
          (case lst st of (st', Inl e) \<Rightarrow> st' | (st', Inr records) \<Rightarrow> cancel_each cancel why records st')
      | _ \<Rightarrow> st)"

definition ingest_stop :: "'s coord_setting \<Rightarrow> string \<Rightarrow> string option \<Rightarrow> 's \<Rightarrow> 's \<times> int option \<times> ingest_result res" where
  "ingest_stop C k why st =
     (case require_text (JStr k) ''async coordinator STOP inputId'' of
        Inl e \<Rightarrow> (st, None, Inl e)
      | Inr _ \<Rightarrow>
          (case update_in C (stop_mutator k why (the_time C)) st of
             (st', fenced, Inl e) \<Rightarrow> (st', fenced, Inl e)
           | (st', fenced, Inr r) \<Rightarrow>
               (cancel_running (the_manager C) (case got_fence r of Some f \<Rightarrow> fence_reason f | None \<Rightarrow> ''STOP'') st', fenced, Inr r)))"

text \<open>\<open>enrichTransition\<close>: a missing call or effect is taken from the operation's record, then from an embedded binding.\<close>

definition fill_from :: "string \<Rightarrow> jsval \<Rightarrow> json \<Rightarrow> json" where
  "fill_from k source t =
     (case t of
        JObj kvs \<Rightarrow>
          (if nullish (map_of kvs k) \<and> \<not> nullish (opt_member source k) then JObj (aset k (the (opt_member source k)) kvs) else t)
      | _ \<Rightarrow> t)"

definition fill_both :: "jsval \<Rightarrow> json \<Rightarrow> json" where
  "fill_both source t = fill_from ''effectOperationId'' source (fill_from ''callId'' source t)"

definition enrich_transition :: "'s operation_manager \<Rightarrow> json \<Rightarrow> 's \<Rightarrow> 's \<times> json" where
  "enrich_transition M t st =
     (if nullish (opt_member (Some t) ''callId'') \<or> nullish (opt_member (Some t) ''effectOperationId'')
      then
        let (st', t') = (case mgr_read M of
              Some get \<Rightarrow>
                if nullish (opt_member (Some t) ''operationId'') then (st, t)
                else (case get (js_text (opt_member (Some t) ''operationId'')) st of
                        (st', Inl e) \<Rightarrow> (st', t)
                      | (st', Inr r) \<Rightarrow> (st', fill_both r t))
            | None \<Rightarrow> (st, t))
        in (st', fill_both (opt_member (Some t') ''binding'') t')
      else (st, t))"

definition ingest_operation_transition :: "'s coord_setting \<Rightarrow> jsval \<Rightarrow> 's \<Rightarrow> 's \<times> int option \<times> ingest_result res" where
  "ingest_operation_transition C raw st =
     (case rbind (invariant (is_object raw) ''async coordinator operation transition is required'') (\<lambda>_. Inr (the raw)) of
        Inl e \<Rightarrow> (st, None, Inl e)
      | Inr t0 \<Rightarrow>
          (case enrich_transition (the_manager C) t0 st of (st1, t) \<Rightarrow>
             (case rbind (require_text (or_null (opt_member (Some t) ''transitionId'')) ''async coordinator transition transitionId'') (\<lambda>tid.
                   rbind (require_text (or_null (opt_member (Some t) ''operationId'')) ''async coordinator transition operationId'') (\<lambda>op.
                     Inr (tid, op))) of
                Inl e \<Rightarrow> (st1, None, Inl e)
              | Inr (tid, op) \<Rightarrow>
                  update_in C (transition_input_mutator (the_sha C) (the_profile C) tid op t (the_time C) (the_ms C)) st1)))"

definition request_explicit_wake :: "'s coord_setting \<Rightarrow> string \<Rightarrow> string option \<Rightarrow> 's \<Rightarrow> 's \<times> int option \<times> ingest_result res" where
  "request_explicit_wake C k why st =
     (case require_text (JStr k) ''async coordinator explicit wake wakeId'' of
        Inl e \<Rightarrow> (st, None, Inl e)
      | Inr _ \<Rightarrow> update_in C (explicit_wake_mutator k why (the_time C) (the_ms C)) st)"

definition drain_completions :: "'s coord_setting \<Rightarrow> 's \<Rightarrow> 's \<times> int option \<times> drain_result res" where
  "drain_completions C st = update_in C (drain_mutator (the_profile C) (the_time C) (the_ms C)) st"

record model_turn =
  turn_offered :: "submission option"
  turn_projection :: "async_projection option"
  turn_items :: "string list"

definition take_next_model_turn :: "'s coord_setting \<Rightarrow> string option \<Rightarrow> 's \<Rightarrow> 's \<times> model_turn res" where
  "take_next_model_turn C k st =
     (case update_in C (take_turn_mutator (the_sha C) (the_session C) k (the_time C)) st of
        (st', fenced, Inl e) \<Rightarrow> (st', Inl e)
      | (st', fenced, Inr offer) \<Rightarrow>
          if offered offer = None then (st', Inr \<lparr>turn_offered = None, turn_projection = None, turn_items = []\<rparr>)
          else (st', rbind (read_in C st') (\<lambda>m. Inr
            \<lparr>turn_offered = offered offer,
             turn_projection = (case project_async_request (the_sha C) None (async_context m) of (_, Inl e) \<Rightarrow> None | (_, Inr pr) \<Rightarrow> Some pr),
             turn_items = offered_items offer\<rparr>)))"

text \<open>\<open>dispatchModelResponse\<close> checks once and then hands the response over.\<close>

definition dispatch_model_response ::
  "'s coord_setting \<Rightarrow> string \<Rightarrow> ('s \<Rightarrow> 's \<times> unit res) option \<Rightarrow> 's \<Rightarrow> 's \<times> (bool \<times> string \<times> bool) res" where
  "dispatch_model_response C k hand st =
     (case rbind (require_text (JStr k) ''async coordinator submissionId'') (\<lambda>_. read_in C st) of
        Inl e \<Rightarrow> (st, Inl e)
      | Inr m \<Rightarrow>
          (case submission_current m k of
             Inl why \<Rightarrow> (st, Inr (False, why, False))
           | Inr s \<Rightarrow>
               (case hand of
                  None \<Rightarrow> (st, Inr (True, ''CURRENT_GENERATION'', False))
                | Some f \<Rightarrow> (case f st of (st', Inl e) \<Rightarrow> (st', Inl e) | (st', Inr _) \<Rightarrow> (st', Inr (True, ''CURRENT_GENERATION'', True))))))"

definition complete_model_turn :: "'s coord_setting \<Rightarrow> string \<Rightarrow> 's \<Rightarrow> 's \<times> int option \<times> turn_answer res" where
  "complete_model_turn C k st =
     (case require_text (JStr k) ''async coordinator submissionId'' of
        Inl e \<Rightarrow> (st, None, Inl e)
      | Inr _ \<Rightarrow> update_in C (complete_turn_mutator (the_profile C) k (the_time C) (the_ms C)) st)"

definition fail_model_turn :: "'s coord_setting \<Rightarrow> string \<Rightarrow> json \<Rightarrow> 's \<Rightarrow> 's \<times> int option \<times> turn_answer res" where
  "fail_model_turn C k err st =
     (case require_text (JStr k) ''async coordinator submissionId'' of
        Inl e \<Rightarrow> (st, None, Inl e)
      | Inr _ \<Rightarrow> update_in C (fail_turn_mutator k err) st)"

record liveness =
  live_pending :: bool
  live_wake :: bool
  live_active :: bool
  live_stopped :: bool
  live_staged :: nat
  live_uncommitted :: bool

definition inspect_liveness :: "coord \<Rightarrow> liveness" where
  "inspect_liveness m =
     (let staged = length (staged_items (async_context m)); uncommitted = last_turn_seq m < next_ingress m - 1 in
      \<lparr>live_pending = (pending_wake m \<noteq> None \<or> 0 < staged \<or> model_active m \<or> uncommitted), live_wake = (pending_wake m \<noteq> None),
       live_active = model_active m, live_stopped = (stopped m \<noteq> None), live_staged = staged, live_uncommitted = uncommitted\<rparr>)"

definition can_start_model_turn :: "coord \<Rightarrow> bool" where
  "can_start_model_turn m \<longleftrightarrow> stopped m = None \<and> \<not> model_active m"

text \<open>Recovery looks the missing bindings up before the update, one operation after the other.\<close>

definition recover_fill :: "string \<Rightarrow> jsval \<Rightarrow> json \<Rightarrow> json" where
  "recover_fill k source t =
     (case t of
        JObj kvs \<Rightarrow> if nullish (map_of kvs k) then JObj (aset k (or_null (opt_member source k)) kvs) else t
      | _ \<Rightarrow> t)"

fun enrich_unseen :: "'s operation_manager \<Rightarrow> json list \<Rightarrow> 's \<Rightarrow> 's \<times> json list" where
  "enrich_unseen M [] st = (st, [])"
| "enrich_unseen M (t # ts) st =
     (if nullish (opt_member (Some t) ''transitionId'') \<or> nullish (opt_member (Some t) ''operationId'') then enrich_unseen M ts st
      else
        let (st1, t') = (if nullish (opt_member (Some t) ''callId'') \<or> nullish (opt_member (Some t) ''effectOperationId'')
              then (case mgr_read M of
                      None \<Rightarrow> (st, t)
                    | Some get \<Rightarrow>
                        (case get (js_text (opt_member (Some t) ''operationId'')) st of
                           (st1, Inl e) \<Rightarrow> (st1, t)
                         | (st1, Inr r) \<Rightarrow> (st1, if nullish r then t else recover_fill ''effectOperationId'' r (recover_fill ''callId'' r t))))
              else (st, t));
            (st2, ts') = enrich_unseen M ts st1
        in (st2, t' # ts'))"

definition recover_coordinator :: "'s coord_setting \<Rightarrow> 's \<Rightarrow> 's \<times> recovery_result res" where
  "recover_coordinator C st =
     (case read_in C st of
        Inl e \<Rightarrow> (st, Inl e)
      | Inr before \<Rightarrow>
          (case (case mgr_recover (the_manager C) of None \<Rightarrow> (st, Inr []) | Some f \<Rightarrow> f st) of
             (st1, Inl e) \<Rightarrow> (st1, Inl e)
           | (st1, Inr recovered) \<Rightarrow>
               (case (case mgr_transitions (the_manager C) of
                        None \<Rightarrow> (st1, [])
                      | Some f \<Rightarrow> (case f (last_staged before) st1 of (st2, Inl e) \<Rightarrow> (st2, []) | (st2, Inr ts) \<Rightarrow> (st2, ts))) of
                  (st2, unseen) \<Rightarrow>
                    (case enrich_unseen (the_manager C) unseen st2 of
                       (st3, enriched) \<Rightarrow>
                         (case update_in C (recover_mutator (the_sha C) (the_time C) (model_active before) (model_generation before) enriched recovered) st3 of
                            (st4, fenced, r) \<Rightarrow> (st4, r))))))"

end
