(* ===== verification/Async_Safety.thy ===== *)
theory Async_Safety
  imports Async_Turns
begin

section \<open>What the coordinator keeps\<close>

text \<open>
  The invariant of the coordinator's document, how a step may change it, and for each update of
  \<open>Async_Coordinator\<close> and \<open>Async_Turns\<close> the lemma that it keeps the invariant, only lets the document
  evolve, and makes no turn current but the one it offers (\<open>step_keeps\<close>).
\<close>

subsection \<open>The invariant\<close>

text \<open>The ingress is numbered without gaps, and the table of input ids describes it.\<close>

definition ledger_ok :: "coord \<Rightarrow> bool" where
  "ledger_ok m \<longleftrightarrow> 1 \<le> next_ingress m \<and> map ingress_seq (ingress m) = [1..next_ingress m - 1] \<and>
     (\<forall>k q. map_of (input_seqs m) k = Some q \<longleftrightarrow> (\<exists>e \<in> set (ingress m). ingress_input e = Some k \<and> ingress_seq e = q))"

text \<open>A STOP leaves nothing to run, an active turn leaves nothing to wake, and it carries the fencing token.\<close>

definition fence_ok :: "coord \<Rightarrow> bool" where
  "fence_ok m \<longleftrightarrow> (stopped m \<noteq> None \<longrightarrow> pending_wake m = None \<and> \<not> model_active m) \<and> (model_active m \<longrightarrow> pending_wake m = None) \<and>
     (\<forall>s. current_submission m = Some s \<longrightarrow> submission_generation s \<le> model_generation m \<and>
        (submission_status s = ACTIVE \<longrightarrow> submission_generation s = model_generation m))"

definition wake_reach :: "coord \<Rightarrow> int" where
  "wake_reach m = (case pending_wake m of None \<Rightarrow> 0 | Some w \<Rightarrow> covers_up_to w)"

definition active_reach :: "coord \<Rightarrow> int" where
  "active_reach m = (case current_submission m of None \<Rightarrow> 0 | Some s \<Rightarrow> if submission_status s = ACTIVE then covered_seq s else 0)"

text \<open>Up to where the ingress is answered, being answered or about to be.\<close>

definition coord_reach :: "coord \<Rightarrow> int" where
  "coord_reach m = max (last_turn_seq m) (max (wake_reach m) (active_reach m))"

definition reach_bounds :: "coord \<Rightarrow> bool" where
  "reach_bounds m \<longleftrightarrow> last_turn_seq m < next_ingress m \<and>
     (\<forall>w. pending_wake m = Some w \<longrightarrow> last_turn_seq m \<le> covers_up_to w \<and> covers_up_to w < next_ingress m) \<and>
     (\<forall>s. current_submission m = Some s \<and> submission_status s = ACTIVE \<longrightarrow> last_turn_seq m \<le> covered_seq s \<and> covered_seq s < next_ingress m)"

definition inputs_reached :: "coord \<Rightarrow> bool" where
  "inputs_reached m \<longleftrightarrow> (stopped m = None \<longrightarrow> (\<forall>e \<in> set (ingress m). ingress_kind e = USER_INPUT \<longrightarrow> ingress_seq e \<le> coord_reach m))"

definition coord_ok :: "(string \<Rightarrow> string) \<Rightarrow> coord \<Rightarrow> bool" where
  "coord_ok sha m \<longleftrightarrow> async_ok sha (async_context m) \<and> ledger_ok m \<and> fence_ok m \<and> reach_bounds m \<and> inputs_reached m"

lemma empty_coord_ok: "coord_ok sha (empty_coord sha)"
  by (simp add: coord_ok_def empty_coord_def create_async_ok ledger_ok_def fence_ok_def reach_bounds_def inputs_reached_def
      last_turn_seq_def model_active_def)

text \<open>Only the fields they speak of matter to these predicates.\<close>

lemma ledger_cong: "next_ingress m' = next_ingress m \<Longrightarrow> ingress m' = ingress m \<Longrightarrow> input_seqs m' = input_seqs m \<Longrightarrow> ledger_ok m' = ledger_ok m"
  by (simp add: ledger_ok_def)

lemma model_active_cong: "current_submission m' = current_submission m \<Longrightarrow> model_active m' = model_active m"
  by (simp add: model_active_def)

lemma reach_cong:
  "last_turn m' = last_turn m \<Longrightarrow> pending_wake m' = pending_wake m \<Longrightarrow> current_submission m' = current_submission m \<Longrightarrow>
     coord_reach m' = coord_reach m"
  by (simp add: coord_reach_def last_turn_seq_def wake_reach_def active_reach_def)

lemma model_activeD: "model_active m \<Longrightarrow> \<exists>s. current_submission m = Some s \<and> submission_status s = ACTIVE"
  by (simp add: model_active_def split: option.splits)

lemma active_reach_idle: "\<not> model_active m \<Longrightarrow> active_reach m = 0"
  by (simp add: active_reach_def model_active_def split: option.splits)

lemma last_turn_seq_cong: "last_turn m' = last_turn m \<Longrightarrow> last_turn_seq m' = last_turn_seq m"
  by (simp add: last_turn_seq_def)

text \<open>What a step may do to the document: only append, only raise, never lift a STOP.\<close>

definition coord_evolves :: "coord \<Rightarrow> coord \<Rightarrow> bool" where
  "coord_evolves m m' \<longleftrightarrow> (\<exists>new. ingress m' = ingress m @ new) \<and> model_generation m \<le> model_generation m' \<and>
     (stopped m \<noteq> None \<longrightarrow> stopped m' \<noteq> None) \<and> async_evolves (async_context m) (async_context m') \<and>
     (\<forall>k q. map_of (input_seqs m) k = Some q \<longrightarrow>
        map_of (input_seqs m') k = Some q \<and> map_of (input_digests m') k = map_of (input_digests m) k) \<and>
     last_turn_seq m \<le> last_turn_seq m'"

lemma coord_evolves_refl [simp]: "coord_evolves m m"
  by (simp add: coord_evolves_def)

lemma coord_evolves_trans: "coord_evolves a b \<Longrightarrow> coord_evolves b c \<Longrightarrow> coord_evolves a c"
  unfolding coord_evolves_def by (auto intro: async_evolves_trans)

subsection \<open>New entries\<close>

lemma ledger_bound: "ledger_ok m \<Longrightarrow> e \<in> set (ingress m) \<Longrightarrow> 1 \<le> ingress_seq e \<and> ingress_seq e < next_ingress m"
proof -
  assume l: "ledger_ok m" and e: "e \<in> set (ingress m)"
  then have "ingress_seq e \<in> set (map ingress_seq (ingress m))" by simp
  then have "ingress_seq e \<in> set [1..next_ingress m - 1]" using l unfolding ledger_ok_def by metis
  then show ?thesis by auto
qed

lemma add_entry_simps:
  assumes "add_entry kind k t op payload at m = (m', e)"
  shows "m' = m\<lparr>next_ingress := next_ingress m + 1, ingress := ingress m @ [e]\<rparr>" "ingress_seq e = next_ingress m" "ingress_kind e = kind"
    "ingress_input e = k"
  using assms by (auto simp: add_entry_def Let_def)

lemma upto_next: "1 \<le> n \<Longrightarrow> [1..n] = [1..n - 1] @ [n :: int]"
  by (rule upto_rec2) simp

lemma ledger_add_plain:
  assumes "ledger_ok m" "add_entry kind None t op payload at m = (m', e)"
  shows "ledger_ok m'"
  using assms(1) upto_next [of "next_ingress m"] by (auto simp: ledger_ok_def add_entry_simps [OF assms(2)])

lemma accept_input_simps:
  assumes "accept_input kind k payload at m = (m', e)"
  shows "next_ingress m' = next_ingress m + 1" "ingress m' = ingress m @ [e]" "input_seqs m' = aset k (ingress_seq e) (input_seqs m)"
    "ingress_seq e = next_ingress m" "ingress_kind e = kind" "ingress_input e = Some k"
    "pending_wake m' = pending_wake m" "current_submission m' = current_submission m" "stopped m' = stopped m" "last_turn m' = last_turn m"
    "model_generation m' = model_generation m" "async_context m' = async_context m" "quick_grace m' = quick_grace m" "burst m' = burst m"
    "input_digests m' = aset k (payload_digest payload) (input_digests m)"
proof -
  obtain m1 where a: "add_entry kind (Some k) None None payload at m = (m1, e)"
    using assms by (auto simp: accept_input_def split: prod.splits)
  note s = add_entry_simps [OF a]
  have "m' = m1\<lparr>input_seqs := aset k (ingress_seq e) (input_seqs m1), input_digests := aset k (payload_digest payload) (input_digests m1)\<rparr>"
    using assms a by (auto simp: accept_input_def)
  then show "next_ingress m' = next_ingress m + 1" "ingress m' = ingress m @ [e]" "input_seqs m' = aset k (ingress_seq e) (input_seqs m)"
    "ingress_seq e = next_ingress m" "ingress_kind e = kind" "ingress_input e = Some k"
    "pending_wake m' = pending_wake m" "current_submission m' = current_submission m" "stopped m' = stopped m" "last_turn m' = last_turn m"
    "model_generation m' = model_generation m" "async_context m' = async_context m" "quick_grace m' = quick_grace m" "burst m' = burst m"
    "input_digests m' = aset k (payload_digest payload) (input_digests m)"
    using s by simp_all
qed

lemma ledger_accept:
  assumes "ledger_ok m" "accept_input kind k payload at m = (m', e)" "map_of (input_seqs m) k = None"
  shows "ledger_ok m'"
proof -
  note s = accept_input_simps [OF assms(2)]
  have known: "map_of (input_seqs m) j = Some q \<longleftrightarrow> (\<exists>x \<in> set (ingress m). ingress_input x = Some j \<and> ingress_seq x = q)" for j q
    using assms(1) unfolding ledger_ok_def by blast
  have fresh: "ingress_input x \<noteq> Some k" if "x \<in> set (ingress m)" for x
  proof
    assume "ingress_input x = Some k"
    with that known [of k "ingress_seq x"] assms(3) show False by auto
  qed
  have "(if j = k then Some (next_ingress m) else map_of (input_seqs m) j) = Some q \<longleftrightarrow>
      (\<exists>x \<in> set (ingress m @ [e]). ingress_input x = Some j \<and> ingress_seq x = q)" for j q
    using known [of j q] fresh s(4,6) by (cases "j = k") auto
  then show ?thesis using assms(1) upto_next [of "next_ingress m"] by (simp add: ledger_ok_def s(1-4) fun_upd_def)
qed

subsection \<open>Wakes\<close>

lemma extend_simps:
  assumes "extend_or_create_wake covers why kind at m = (m', created, w)"
  shows "m' = m\<lparr>pending_wake := Some w\<rparr>"
    "covers_up_to w = (case pending_wake m of None \<Rightarrow> covers | Some v \<Rightarrow> max (covers_up_to v) covers)"
  using assms by (auto simp: extend_or_create_wake_def Let_def max_def split: option.splits)

text \<open>A wake up to the last entry answers for everything.\<close>

lemma extended_wake_ok:
  assumes "extend_or_create_wake (next_ingress m - 1) why kind at m = (m', created, w)"
    "ledger_ok m" "fence_ok m" "last_turn_seq m < next_ingress m"
    "\<forall>v. pending_wake m = Some v \<longrightarrow> last_turn_seq m \<le> covers_up_to v \<and> covers_up_to v < next_ingress m"
    "\<not> model_active m" "stopped m = None"
  shows "ledger_ok m' \<and> fence_ok m' \<and> reach_bounds m' \<and> inputs_reached m'"
proof -
  note s = extend_simps [OF assms(1)]
  have covers: "covers_up_to w = next_ingress m - 1" using s(2) assms(5) by (auto split: option.splits)
  have idle: "\<not> model_active m'" using assms(6) by (simp add: s(1) model_active_def)
  have reach: "next_ingress m - 1 \<le> coord_reach m'" by (simp add: coord_reach_def wake_reach_def s(1) covers)
  have "ledger_ok m'" using assms(2) ledger_cong [of m' m] by (simp add: s(1))
  moreover have "fence_ok m'" using assms(3,7) idle by (simp add: fence_ok_def s(1))
  moreover have "reach_bounds m'"
    using assms(4,6) covers by (auto simp: reach_bounds_def s(1) last_turn_seq_def model_active_def)
  moreover have "inputs_reached m'"
    unfolding inputs_reached_def
  proof (intro impI ballI)
    fix e assume "e \<in> set (ingress m')"
    then have "e \<in> set (ingress m)" by (simp add: s(1))
    from ledger_bound [OF assms(2) this] reach show "ingress_seq e \<le> coord_reach m'" by linarith
  qed
  ultimately show ?thesis by blast
qed

text \<open>Changes that concern none of the predicates, and the arrival of an entry.\<close>

lemma quiet_change:
  assumes "coord_ok sha m" "next_ingress m' = next_ingress m" "ingress m' = ingress m" "input_seqs m' = input_seqs m"
    "pending_wake m' = pending_wake m" "current_submission m' = current_submission m" "stopped m' = stopped m" "last_turn m' = last_turn m"
    "model_generation m' = model_generation m" "async_ok sha (async_context m')"
  shows "coord_ok sha m'"
  using assms(1,10) ledger_cong [OF assms(2-4)] model_active_cong [OF assms(6)] reach_cong [OF assms(8,5,6)] last_turn_seq_cong [OF assms(8)]
  by (auto simp: coord_ok_def fence_ok_def reach_bounds_def inputs_reached_def assms(2-9))

text \<open>An entry that is not user input, and user input while stopped, need no wake.\<close>

lemma entry_change:
  assumes "coord_ok sha m" "ledger_ok m'" "next_ingress m' = next_ingress m + 1" "ingress m' = ingress m @ [e]"
    "ingress_kind e \<noteq> USER_INPUT \<or> stopped m \<noteq> None"
    "pending_wake m' = pending_wake m" "current_submission m' = current_submission m" "stopped m' = stopped m" "last_turn m' = last_turn m"
    "model_generation m' = model_generation m" "async_ok sha (async_context m')"
  shows "coord_ok sha m'"
proof -
  note same = model_active_cong [OF assms(7)] reach_cong [OF assms(9,6,7)] last_turn_seq_cong [OF assms(9)]
  have "fence_ok m'" using assms(1) by (simp add: coord_ok_def fence_ok_def assms(6-10) same)
  moreover have "reach_bounds m'" using assms(1) by (auto simp: coord_ok_def reach_bounds_def assms(3,6,7) same)
  moreover have "inputs_reached m'" using assms(1,5) by (auto simp: coord_ok_def inputs_reached_def assms(4,8) same)
  ultimately show ?thesis using assms(2,11) by (simp add: coord_ok_def)
qed

subsection \<open>The steps\<close>

text \<open>One update of the document by any coordinator of the session; the label is the id of a turn it offers.\<close>

inductive coord_step :: "(string \<Rightarrow> string) \<Rightarrow> string option \<Rightarrow> coord \<Rightarrow> coord \<Rightarrow> bool" for sha where
  Step_User_Input: "user_input_mutator k payload at now clk f m = (f', Inr (m', r)) \<Longrightarrow> coord_step sha None m m'"
| Step_Stop: "stop_mutator k why at clk f m = (f', Inr (m', r)) \<Longrightarrow> coord_step sha None m m'"
| Step_Transition: "transition_input_mutator sha p tid op t at now clk f m = (f', Inr (m', r)) \<Longrightarrow> coord_step sha None m m'"
| Step_Explicit_Wake: "explicit_wake_mutator k why at now clk f m = (f', Inr (m', r)) \<Longrightarrow> coord_step sha None m m'"
| Step_Drain: "drain_mutator p at now clk f m = (f', Inr (m', d)) \<Longrightarrow> coord_step sha None m m'"
| Step_Take: "take_turn_mutator sha sess k at clk f m = (f', Inr (m', offer)) \<Longrightarrow>
     coord_step sha (map_option submission_id (offered offer)) m m'"
| Step_Complete: "complete_turn_mutator p k at now clk f m = (f', Inr (m', a)) \<Longrightarrow> coord_step sha None m m'"
| Step_Fail: "fail_turn_mutator k err clk f m = (f', Inr (m', a)) \<Longrightarrow> coord_step sha None m m'"
| Step_Recover: "recover_mutator sha at had previous unseen recovered clk f m = (f', Inr (m', x)) \<Longrightarrow> coord_step sha None m m'"

text \<open>What every step preserves; \<open>k\<close> is a turn that is not current.\<close>

definition turn_current :: "coord \<Rightarrow> string \<Rightarrow> bool" where
  "turn_current m k \<longleftrightarrow> (\<exists>s. current_submission m = Some s \<and> submission_id s = k \<and> submission_status s = ACTIVE)"

definition step_keeps :: "(string \<Rightarrow> string) \<Rightarrow> string option \<Rightarrow> coord \<Rightarrow> coord \<Rightarrow> bool" where
  "step_keeps sha l m m' \<longleftrightarrow> coord_ok sha m' \<and> coord_evolves m m' \<and> (\<forall>k. turn_current m' k \<longrightarrow> turn_current m k \<or> l = Some k)"

lemma step_keepsI:
  assumes "coord_ok sha m'" "coord_evolves m m'"
    "\<And>s. current_submission m' = Some s \<Longrightarrow> submission_status s = ACTIVE \<Longrightarrow> current_submission m = Some s \<or> l = Some (submission_id s)"
  shows "step_keeps sha l m m'"
proof -
  have "turn_current m k \<or> l = Some k" if cur: "turn_current m' k" for k
  proof -
    from cur obtain s where s: "current_submission m' = Some s" "submission_id s = k" "submission_status s = ACTIVE" by (auto simp: turn_current_def)
    from assms(3) [OF s(1,3)] s(2,3) show ?thesis by (auto simp: turn_current_def)
  qed
  with assms(1,2) show ?thesis by (simp add: step_keeps_def)
qed

lemma async_part: "coord_ok sha m \<Longrightarrow> async_ok sha (async_context m)"
  by (simp add: coord_ok_def)

lemma skip_input_keeps:
  assumes "coord_ok sha m"
  shows "step_keeps sha l m (skip_input m)"
proof (rule step_keepsI)
  show "coord_ok sha (skip_input m)" by (rule quiet_change [OF assms]) (simp_all add: skip_input_def async_part [OF assms])
qed (simp_all add: skip_input_def coord_evolves_def last_turn_seq_def)

lemma skip_transitions_keeps:
  assumes "coord_ok sha m"
  shows "step_keeps sha l m (skip_transitions n m)"
proof (rule step_keepsI)
  show "coord_ok sha (skip_transitions n m)" by (rule quiet_change [OF assms]) (simp_all add: skip_transitions_def async_part [OF assms])
qed (simp_all add: skip_transitions_def coord_evolves_def last_turn_seq_def)

text \<open>The evolution of an update that adds an entry under a new input id.\<close>

lemma accepted_evolves:
  assumes "ledger_ok m" "map_of (input_seqs m) k = None" "input_seqs m' = aset k q (input_seqs m)" "ingress m' = ingress m @ [e]"
    "input_digests m' = aset k g (input_digests m)" "model_generation m \<le> model_generation m'" "stopped m \<noteq> None \<longrightarrow> stopped m' \<noteq> None" "async_context m' = async_context m"
    "last_turn m' = last_turn m"
  shows "coord_evolves m m'"
  using assms by (auto simp: coord_evolves_def last_turn_seq_def)

lemma quiet_simps [simp]:
  "stopped (quiet_completions m) = stopped m" "current_submission (quiet_completions m) = current_submission m"
  "pending_wake (quiet_completions m) = pending_wake m" "last_turn (quiet_completions m) = last_turn m"
  "model_generation (quiet_completions m) = model_generation m" "async_context (quiet_completions m) = async_context m"
  "ingress (quiet_completions m) = ingress m" "next_ingress (quiet_completions m) = next_ingress m"
  "input_seqs (quiet_completions m) = input_seqs m" "input_digests (quiet_completions m) = input_digests m"
  by (simp_all add: quiet_completions_def)

lemma user_input_keeps:
  assumes ok: "coord_ok sha m" and st: "user_input_mutator k payload at now clk f m = (f', Inr (m', r))"
  shows "step_keeps sha None m m'"
proof (cases "map_of (input_seqs m) k")
  case (Some q)
  with st have "m' = skip_input m" by (auto simp: user_input_mutator_def split: if_splits)
  then show ?thesis using skip_input_keeps [OF ok] by simp
next
  case None
  obtain m1 e where a: "accept_input USER_INPUT k payload at m = (m1, e)" by (cases "accept_input USER_INPUT k payload at m")
  note s = accept_input_simps [OF a]
  define m3 where "m3 = (quiet_completions m1)\<lparr>metrics := (metrics (quiet_completions m1))\<lparr>last_steering := Some now\<rparr>\<rparr>"
  have l3: "ledger_ok m3" using ledger_accept [OF _ a None] ok ledger_cong [of m3 m1] by (simp add: coord_ok_def m3_def quiet_completions_def)
  have f3: "pending_wake m3 = pending_wake m" "current_submission m3 = current_submission m" "stopped m3 = stopped m" "last_turn m3 = last_turn m"
    "model_generation m3 = model_generation m" "async_context m3 = async_context m" "ingress m3 = ingress m @ [e]"
    "next_ingress m3 = next_ingress m + 1" "input_seqs m3 = aset k (ingress_seq e) (input_seqs m)"
    "input_digests m3 = aset k (payload_digest payload) (input_digests m)"
    by (simp_all add: m3_def quiet_completions_def s)
  have ledger: "ledger_ok m" using ok by (simp add: coord_ok_def)
  show ?thesis
  proof (cases "stopped m = None")
    case False
    then obtain y where y: "stopped m = Some y" by auto
    have m': "m' = m3" using st None a y by (simp add: user_input_mutator_def Let_def m3_def quiet_completions_def s)
    show ?thesis unfolding m'
    proof (rule step_keepsI)
      show "coord_ok sha m3" by (rule entry_change [OF ok l3 f3(8,7)]) (use False ok in \<open>simp_all add: f3 coord_ok_def\<close>)
      show "coord_evolves m m3" by (rule accepted_evolves [OF ledger None f3(9,7,10)]) (simp_all add: f3)
    qed (simp add: f3)
  next
    case run: True
    text \<open>The state the wake is made in: the active turn, if any, has been abandoned.\<close>
    define m4 where "m4 = (case current_submission m of
        Some x \<Rightarrow> if submission_status x = ACTIVE then (count_fence m3)\<lparr>current_submission := Some (abandon at ''USER_INPUT_STEERING'' x)\<rparr> else m3
      | None \<Rightarrow> m3)"
    have f4: "pending_wake m4 = pending_wake m" "stopped m4 = stopped m" "last_turn m4 = last_turn m" "async_context m4 = async_context m"
      "ingress m4 = ingress m @ [e]" "next_ingress m4 = next_ingress m + 1" "input_seqs m4 = aset k (ingress_seq e) (input_seqs m)"
      "input_digests m4 = aset k (payload_digest payload) (input_digests m)"
      "model_generation m \<le> model_generation m4"
      by (simp_all add: m4_def count_fence_def f3 split: option.splits)
    have idle: "\<not> model_active m4" by (auto simp: m4_def model_active_def abandon_def f3 count_fence_def split: option.splits)
    have fence: "fence_ok m4"
      using ok idle run by (auto simp: fence_ok_def coord_ok_def f4 m4_def count_fence_def abandon_def f3 split: option.splits if_splits)
    have l4: "ledger_ok m4" using l3 ledger_cong [of m4 m3] by (simp add: f3 f4)
    obtain m5 created w where w: "extend_or_create_wake (next_ingress m4 - 1)
        (if model_active m then ''USER_INPUT_STEERING'' else ''USER_INPUT'') USER_INPUT at m4 = (m5, created, w)"
      by (cases "extend_or_create_wake (next_ingress m4 - 1)
        (if model_active m then ''USER_INPUT_STEERING'' else ''USER_INPUT'') USER_INPUT at m4") auto
    have bounds: "last_turn_seq m4 < next_ingress m4"
      "\<forall>v. pending_wake m4 = Some v \<longrightarrow> last_turn_seq m4 \<le> covers_up_to v \<and> covers_up_to v < next_ingress m4"
      using ok by (auto simp: coord_ok_def reach_bounds_def f4 last_turn_seq_def)
    have good: "ledger_ok m5 \<and> fence_ok m5 \<and> reach_bounds m5 \<and> inputs_reached m5"
      by (rule extended_wake_ok [OF w l4 fence bounds idle]) (simp add: run f4)
    note m5 = extend_simps(1) [OF w]
    have seq: "next_ingress m4 - 1 = ingress_seq e" by (simp add: f4 s)
    have m': "m' = (if created then m5\<lparr>metrics := (metrics m5)\<lparr>replacement_turns := replacement_turns (metrics m5) + 1,
                                                           steering_latencies := steering_latencies (metrics m5) @ [0]\<rparr>\<rparr> else m5)"
      using st None a run w unfolding seq
      by (cases "current_submission m")
        (auto simp: user_input_mutator_def Let_def m3_def [symmetric] m4_def f3 s model_active_def split: if_splits)
    have same: "coord_ok sha m5" using good ok by (simp add: coord_ok_def m5 f4)
    show ?thesis
    proof (rule step_keepsI)
      show "coord_ok sha m'" using quiet_change [OF same, of m'] async_part [OF same] by (simp add: m')
      show "coord_evolves m m'"
        by (rule accepted_evolves [OF ledger None]) (use f4 in \<open>simp_all add: m' m5\<close>)
      show "current_submission m = Some x \<or> None = Some (submission_id x)" if "current_submission m' = Some x" "submission_status x = ACTIVE" for x
        using that idle by (simp add: m' m5 model_active_def split: if_splits)
    qed
  qed
qed

lemma stop_keeps:
  assumes ok: "coord_ok sha m" and st: "stop_mutator k why at clk f m = (f', Inr (m', r))"
  shows "step_keeps sha None m m'"
proof (cases "map_of (input_seqs m) k")
  case (Some q)
  with st have "m' = skip_input m" by (simp add: stop_mutator_def)
  then show ?thesis using skip_input_keeps [OF ok] by simp
next
  case None
  obtain m1 e where a: "accept_input STOP k (JObj [(''reason'', text_or_null why)]) at m = (m1, e)"
    by (cases "accept_input STOP k (JObj [(''reason'', text_or_null why)]) at m")
  note s = accept_input_simps [OF a]
  have ledger: "ledger_ok m" using ok by (simp add: coord_ok_def)
  have l1: "ledger_ok m1" by (rule ledger_accept [OF ledger a None])
  define c where "c = (case current_submission m of Some x \<Rightarrow> if submission_status x = ACTIVE then Some (abandon at ''STOP_FENCE'' x) else Some x
    | None \<Rightarrow> None)"
  define m2 where "m2 = (case current_submission m of Some x \<Rightarrow> if submission_status x = ACTIVE
      then m1\<lparr>current_submission := Some (abandon at ''STOP_FENCE'' x)\<rparr> else m1 | None \<Rightarrow> m1)"
  define m3 where "m3 = quiet_completions ((count_fence m2)\<lparr>
    stopped := Some \<lparr>fence_seq = ingress_seq e, fence_input = k, fence_reason = or_else why ''STOP'', fence_at = at\<rparr>, pending_wake := None\<rparr>)"
  have m': "m' = m3"
    using st None a by (auto simp: stop_mutator_def Let_def m3_def m2_def s split: option.splits if_splits)
  have f2: "m2 = m1\<lparr>current_submission := c\<rparr>" by (cases m1) (use s(8) in \<open>auto simp: m2_def c_def split: option.splits\<close>)
  have f3: "pending_wake m3 = None" "current_submission m3 = c" "stopped m3 \<noteq> None" "last_turn m3 = last_turn m"
    "model_generation m3 = model_generation m + 1" "async_context m3 = async_context m" "ingress m3 = ingress m @ [e]"
    "next_ingress m3 = next_ingress m + 1" "input_seqs m3 = aset k (ingress_seq e) (input_seqs m)"
    "input_digests m3 = aset k (payload_digest (JObj [(''reason'', text_or_null why)])) (input_digests m)"
    by (simp_all add: m3_def f2 count_fence_def s)
  have idle: "\<not> model_active m3" by (simp add: model_active_def f3 c_def abandon_def split: option.splits)
  have c: "submission_generation x \<le> model_generation m \<and> submission_status x \<noteq> ACTIVE" if "c = Some x" for x
    using that ok by (auto simp: c_def abandon_def coord_ok_def fence_ok_def split: option.splits if_splits)
  show ?thesis unfolding m'
  proof (rule step_keepsI)
    have "ledger_ok m3" using l1 ledger_cong [of m3 m1] by (simp add: f3 s)
    moreover have "fence_ok m3" using idle c by (fastforce simp: fence_ok_def f3)
    moreover have "reach_bounds m3" using ok c by (auto simp: coord_ok_def reach_bounds_def f3 last_turn_seq_def)
    moreover have "inputs_reached m3" using f3(3) unfolding inputs_reached_def by blast
    ultimately show "coord_ok sha m3" using ok by (simp add: coord_ok_def f3)
    show "coord_evolves m m3" by (rule accepted_evolves [OF ledger None f3(9,7,10)]) (simp_all add: f3)
    show "current_submission m = Some x \<or> None = Some (submission_id x)" if "current_submission m3 = Some x" "submission_status x = ACTIVE" for x
      using that c by (simp add: f3)
  qed
qed

text \<open>An update that changes nothing, or only what the metrics and the burst say.\<close>

lemma same_keeps: "coord_ok sha m \<Longrightarrow> step_keeps sha l m m"
  by (rule step_keepsI) simp_all

text \<open>An update that adds an entry, keeps the rest, and possibly wakes up to that entry.\<close>

definition arrival :: "(string \<Rightarrow> string) \<Rightarrow> coord \<Rightarrow> coord \<Rightarrow> ingress_entry \<Rightarrow> bool" where
  "arrival sha m m' e \<longleftrightarrow> ledger_ok m' \<and> next_ingress m' = next_ingress m + 1 \<and> ingress m' = ingress m @ [e] \<and> ingress_kind e \<noteq> USER_INPUT \<and>
     current_submission m' = current_submission m \<and> stopped m' = stopped m \<and> last_turn m' = last_turn m \<and> pending_wake m' = pending_wake m \<and>
     model_generation m' = model_generation m \<and> async_ok sha (async_context m') \<and> async_evolves (async_context m) (async_context m') \<and>
     (\<forall>k q. map_of (input_seqs m) k = Some q \<longrightarrow>
        map_of (input_seqs m') k = Some q \<and> map_of (input_digests m') k = map_of (input_digests m) k)"

lemma arrival_evolves: "arrival sha m m' e \<Longrightarrow> coord_evolves m m'"
  by (auto simp: arrival_def coord_evolves_def last_turn_seq_def)

lemma arrival_keeps:
  assumes ok: "coord_ok sha m" and a: "arrival sha m m' e"
  shows "step_keeps sha l m m'"
proof (rule step_keepsI)
  show "coord_ok sha m'" by (rule entry_change [OF ok, of _ e]) (use a in \<open>simp_all add: arrival_def\<close>)
  show "coord_evolves m m'" by (rule arrival_evolves [OF a])
qed (use a in \<open>simp add: arrival_def\<close>)

text \<open>The same, and then a wake that covers everything; the metrics and the burst may follow.\<close>

lemma wake_keeps:
  assumes ok: "coord_ok sha m0" and ev: "coord_evolves m0 m" and mid: "coord_ok sha m" and idle: "\<not> model_active m" and run: "stopped m = None"
    and w: "extend_or_create_wake (next_ingress m - 1) why kind at m = (m1, created, w)"
    and same: "next_ingress m' = next_ingress m1" "ingress m' = ingress m1" "input_seqs m' = input_seqs m1" "pending_wake m' = pending_wake m1"
      "current_submission m' = current_submission m1" "stopped m' = stopped m1" "last_turn m' = last_turn m1"
      "model_generation m' = model_generation m1" "async_context m' = async_context m1" "input_digests m' = input_digests m1"
  shows "step_keeps sha l m0 m'"
proof (rule step_keepsI)
  note m1 = extend_simps(1) [OF w]
  have "ledger_ok m1 \<and> fence_ok m1 \<and> reach_bounds m1 \<and> inputs_reached m1"
    by (rule extended_wake_ok [OF w _ _ _ _ idle run]) (use mid in \<open>simp_all add: coord_ok_def reach_bounds_def\<close>)
  then have "coord_ok sha m1" using mid by (simp add: coord_ok_def m1)
  from quiet_change [OF this same(1-8)] async_part [OF this] show "coord_ok sha m'" by (simp add: same(9))
  have "coord_evolves m m'" by (simp add: coord_evolves_def same m1 last_turn_seq_def)
  with ev show "coord_evolves m0 m'" by (rule coord_evolves_trans)
  show "current_submission m0 = Some x \<or> l = Some (submission_id x)" if "current_submission m' = Some x" "submission_status x = ACTIVE" for x
    using that idle by (simp add: same m1 model_active_def)
qed

lemma explicit_wake_keeps:
  assumes ok: "coord_ok sha m" and st: "explicit_wake_mutator k why at now clk f m = (f', Inr (m', r))"
  shows "step_keeps sha None m m'"
proof (cases "map_of (input_seqs m) k")
  case (Some q)
  with st have "m' = skip_input m" by (simp add: explicit_wake_mutator_def plain_def)
  then show ?thesis using skip_input_keeps [OF ok] by simp
next
  case None
  obtain m1 e where a: "accept_input EXPLICIT_WAKE k (JObj [(''reason'', text_or_null why)]) at m = (m1, e)"
    by (cases "accept_input EXPLICIT_WAKE k (JObj [(''reason'', text_or_null why)]) at m")
  note s = accept_input_simps [OF a]
  have ledger: "ledger_ok m" using ok by (simp add: coord_ok_def)
  have l1: "ledger_ok m1" by (rule ledger_accept [OF ledger a None])
  have arr: "arrival sha m m1 e" using l1 None async_part [OF ok] by (auto simp: arrival_def s)
  show ?thesis
  proof (cases "stopped m1 = None \<and> \<not> model_active m1")
    case False
    then have "m' = m1" using st None a
      by (auto simp: explicit_wake_mutator_def plain_def Let_def split: if_splits prod.splits)
    then show ?thesis using arrival_keeps [OF ok arr] by simp
  next
    case True
    define m2 where "m2 = (if in_grace m1 now then m1\<lparr>quick_grace := None\<rparr> else m1)"
    have arr2: "arrival sha m m2 e" using arr ledger_cong [of m2 m1] by (simp add: arrival_def m2_def)
    have seq: "ingress_seq e = next_ingress m2 - 1" by (simp add: m2_def s)
    obtain m3 created w where w: "extend_or_create_wake (next_ingress m2 - 1) (or_else why ''EXPLICIT_WAKE'') EXPLICIT_WAKE at m2 = (m3, created, w)"
      by (cases "extend_or_create_wake (next_ingress m2 - 1) (or_else why ''EXPLICIT_WAKE'') EXPLICIT_WAKE at m2") auto
    have "m' = m3" using st None a True w by (auto simp: explicit_wake_mutator_def plain_def m2_def [symmetric] seq)
    moreover have "coord_ok sha m2" using arrival_keeps [OF ok arr2, of None] by (simp add: step_keeps_def)
    moreover have "\<not> model_active m2" "stopped m2 = None" using True by (simp_all add: m2_def model_active_def)
    ultimately show ?thesis using wake_keeps [OF ok arrival_evolves [OF arr2] _ _ _ w, of m3] by simp
  qed
qed

lemma drain_keeps:
  assumes ok: "coord_ok sha m" and st: "drain_mutator p at now clk f m = (f', Inr (m', d))"
  shows "step_keeps sha None m m'"
proof -
  obtain m1 created w where w: "extend_or_create_wake (next_ingress m - 1) ''COMPLETION_DRAIN'' OPERATION_TRANSITION at m = (m1, created, w)"
    by (cases "extend_or_create_wake (next_ingress m - 1) ''COMPLETION_DRAIN'' OPERATION_TRANSITION at m") auto
  consider "m' = m" | "stopped m = None" "\<not> model_active m"
      "m' = (if created then m1\<lparr>metrics := (metrics m1)\<lparr>coalesced_transitions := coalesced_transitions (metrics m1) + burst_count (burst m)\<rparr>,
                                      burst := no_burst\<rparr> else m1)"
    using st w by (auto simp: drain_mutator_def plain_def Let_def split: if_splits)
  then show ?thesis
  proof cases
    case 1
    then show ?thesis using same_keeps [OF ok] by simp
  next
    case 2
    then show ?thesis using wake_keeps [OF ok coord_evolves_refl ok 2(2,1) w, of m'] by simp
  qed
qed

lemma record_transition_simps:
  assumes "record_transition tid op t extra at m = (m', e)"
  shows "next_ingress m' = next_ingress m + 1" "ingress m' = ingress m @ [e]" "ingress_kind e = OPERATION_TRANSITION" "ingress_input e = None"
    "ingress_seq e = next_ingress m" "current_submission m' = current_submission m" "stopped m' = stopped m" "last_turn m' = last_turn m"
    "pending_wake m' = pending_wake m" "model_generation m' = model_generation m" "async_context m' = async_context m"
    "input_seqs m' = input_seqs m" "burst m' = burst m" "quick_grace m' = quick_grace m" "last_staged m' = last_staged m"
    "input_digests m' = input_digests m"
  using assms by (auto simp: record_transition_def add_entry_def Let_def)

lemma record_transition_arrival:
  assumes r: "record_transition tid op t extra at m = (m', e)" and l: "ledger_ok m" and a: "async_ok sha (async_context m)"
  shows "arrival sha m m' e"
proof -
  note s = record_transition_simps [OF r]
  have "ledger_ok m'"
    using l upto_next [of "next_ingress m"] by (auto simp: ledger_ok_def s)
  then show ?thesis using a by (simp add: arrival_def s)
qed

lemma new_transition_keeps:
  assumes ok: "coord_ok sha m" and st: "new_transition sha p tid op t at now m = Inr (m', r)"
  shows "step_keeps sha l m m'"
proof -
  obtain ctx staged skipped where stage: "stage_async_transitions sha [t] (async_context m) = (ctx, Inr (staged, skipped))"
    using st by (auto simp: new_transition_def split: prod.splits sum.splits)
  define m0 where "m0 = skip_transitions (length skipped) (m\<lparr>async_context := ctx\<rparr>)"
  obtain m1 e where r: "record_transition tid op t [] at m0 = (m1, e)" by (cases "record_transition tid op t [] at m0")
  note s = record_transition_simps [OF r]
  from stage_evolves [OF stage async_part [OF ok]] have ctx: "async_ok sha ctx" "async_evolves (async_context m) ctx" by simp_all
  have f0: "next_ingress m0 = next_ingress m" "ingress m0 = ingress m" "current_submission m0 = current_submission m" "stopped m0 = stopped m"
      "last_turn m0 = last_turn m" "pending_wake m0 = pending_wake m" "model_generation m0 = model_generation m" "async_context m0 = ctx"
      "input_seqs m0 = input_seqs m" "burst m0 = burst m" "input_digests m0 = input_digests m"
    by (simp_all add: m0_def skip_transitions_def)
  have l0: "ledger_ok m0" using ok ledger_cong [of m0 m] by (simp add: coord_ok_def f0)
  have "arrival sha m0 m1 e" by (rule record_transition_arrival [OF r l0]) (simp add: f0 ctx)
  then have arr1: "arrival sha m m1 e" using ctx by (simp add: arrival_def f0 s(11))
  define m2 where "m2 = m1\<lparr>last_staged := raise_staged t (last_staged m1)\<rparr>"
  define b where "b = (burst m2)\<lparr>burst_count := burst_count (burst m2) + 1, burst_last := Some now,
                           burst_started := (if burst_started (burst m2) = None then Some now else burst_started (burst m2))\<rparr>"
  define m3 where "m3 = m2\<lparr>burst := b\<rparr>"
  have arr2: "arrival sha m m2 e" and arr3: "arrival sha m m3 e"
    using arr1 ledger_cong [of m2 m1] ledger_cong [of m3 m1] by (simp_all add: arrival_def m2_def m3_def)
  obtain m4 created w where w: "extend_or_create_wake (next_ingress m3 - 1) ''COMPLETION_BURST_MAX'' OPERATION_TRANSITION at m3 = (m4, created, w)"
    by (cases "extend_or_create_wake (next_ingress m3 - 1) ''COMPLETION_BURST_MAX'' OPERATION_TRANSITION at m3") auto
  have seq: "ingress_seq e = next_ingress m3 - 1" by (simp add: m3_def m2_def s)
  consider "m' = m2" | "m' = m3" | "\<not> model_active m2" "stopped m2 = None"
      "m' = (if created then m4\<lparr>metrics := (metrics m4)\<lparr>coalesced_transitions := coalesced_transitions (metrics m4) + burst_count b\<rparr>,
                                                        burst := no_burst\<rparr> else m4)"
    using st stage r w
    unfolding new_transition_def stage prod.case sum.case m0_def [symmetric] r Let_def m2_def [symmetric] b_def [symmetric] m3_def [symmetric] seq w
    by (auto split: if_splits)
  then show ?thesis
  proof cases
    case 1
    then show ?thesis using arrival_keeps [OF ok arr2] by simp
  next
    case 2
    then show ?thesis using arrival_keeps [OF ok arr3] by simp
  next
    case 3
    have "coord_ok sha m3" using arrival_keeps [OF ok arr3, of None] by (simp add: step_keeps_def)
    moreover have "\<not> model_active m3" "stopped m3 = None" using 3 by (simp_all add: m3_def model_active_def)
    ultimately show ?thesis using wake_keeps [OF ok arrival_evolves [OF arr3] _ _ _ w, of m'] 3(3) by simp
  qed
qed

lemma transition_keeps:
  assumes ok: "coord_ok sha m" and st: "transition_input_mutator sha p tid op t at now clk f m = (f', Inr (m', r))"
  shows "step_keeps sha None m m'"
  using st new_transition_keeps [OF ok] skip_transitions_keeps [OF ok]
  by (auto simp: transition_input_mutator_def plain_def seen_transition_def split: option.splits if_splits)

lemma take_keeps:
  assumes ok: "coord_ok sha m" and st: "take_turn_mutator sha sess k at clk f m = (f', Inr (m', offer))"
  shows "step_keeps sha (map_option submission_id (offered offer)) m m'"
proof (cases "pending_wake m = None \<and> staged_items (async_context m) = []")
  case True
  then have "m' = m" using st by (auto simp: take_turn_mutator_def plain_def split: if_splits)
  then show ?thesis using same_keeps [OF ok] by simp
next
  case False
  let ?ids = "map ai_id (staged_items (async_context m))"
  define covers where "covers = (case pending_wake m of Some w \<Rightarrow> covers_up_to w | None \<Rightarrow> next_ingress m - 1)"
  define k' where "k' = or_else k (default_submission_id sess (model_generation m) covers)"
  define s where "s = \<lparr>submission_id = k', submission_generation = model_generation m, covered_seq = covers,
    submission_reason = (case pending_wake m of Some w \<Rightarrow> wake_reason w | None \<Rightarrow> ''STAGED_ASYNC_CONTEXT''),
    submitted_at = at, submission_status = ACTIVE, abandoned_at = None, abandoned_reason = None\<rparr>"
  define commit where "commit = (if ?ids = [] then (async_context m, [])
    else case commit_async_context sha ?ids k' (async_context m) of (ctx, Inl _) \<Rightarrow> (ctx, []) | (ctx, Inr out) \<Rightarrow> (ctx, out))"
  obtain ctx committed where c: "commit = (ctx, committed)" by (cases commit)
  have ctx: "async_ok sha ctx \<and> async_evolves (async_context m) ctx"
  proof (cases "?ids = []")
    case True
    then show ?thesis using c async_part [OF ok] by (simp add: commit_def)
  next
    case False
    obtain ctx' res where k: "commit_async_context sha ?ids k' (async_context m) = (ctx', res)"
      by (cases "commit_async_context sha ?ids k' (async_context m)")
    then have "ctx = ctx'" using c False by (simp add: commit_def split: sum.splits)
    then show ?thesis using commit_evolves [OF k async_part [OF ok]] by simp
  qed
  have run: "stopped m = None" "\<not> model_active m" using st by (auto simp: take_turn_mutator_def plain_def split: if_splits)
  have "(m\<lparr>current_submission := Some s, pending_wake := None, burst := no_burst, async_context := ctx\<rparr>,
         \<lparr>offered = Some s, offered_items = committed\<rparr>) = (m', offer)"
    using st run False
    unfolding take_turn_mutator_def plain_def Let_def covers_def [symmetric] k'_def [symmetric] commit_def [symmetric] s_def [symmetric] c prod.case
    by (auto simp: rbind_def split: sum.splits)
  then have s: "stopped m = None" "\<not> model_active m" "submission_generation s = model_generation m" "submission_status s = ACTIVE"
      "covered_seq s = (case pending_wake m of Some w \<Rightarrow> covers_up_to w | None \<Rightarrow> next_ingress m - 1)" "offered offer = Some s"
      "m' = m\<lparr>current_submission := Some s, pending_wake := None, burst := no_burst, async_context := ctx\<rparr>"
      "async_ok sha ctx" "async_evolves (async_context m) ctx"
    using run ctx by (auto simp: s_def covers_def)
  note m' = s(7)
  have b: "last_turn_seq m < next_ingress m" "last_turn_seq m \<le> covered_seq s" "covered_seq s < next_ingress m"
    using ok by (auto simp: coord_ok_def reach_bounds_def s(5) split: option.splits)
  have act: "active_reach m' = covered_seq s" "wake_reach m' = 0" "last_turn_seq m' = last_turn_seq m"
    by (simp_all add: active_reach_def wake_reach_def last_turn_seq_def m' s(4))
  have reach: "coord_reach m \<le> coord_reach m' \<or> covered_seq s = next_ingress m - 1"
  proof (cases "pending_wake m")
    case None
    then show ?thesis by (simp add: s(5))
  next
    case (Some w)
    then have "wake_reach m = covered_seq s" by (simp add: wake_reach_def s(5))
    then show ?thesis unfolding coord_reach_def act active_reach_idle [OF s(2)] by linarith
  qed
  show ?thesis
  proof (rule step_keepsI)
    have "ledger_ok m'" using ok ledger_cong [of m' m] by (simp add: coord_ok_def m')
    moreover have "fence_ok m'" using s(1,3,4) by (simp add: fence_ok_def m')
    moreover have "reach_bounds m'" using b by (simp add: reach_bounds_def act(3)) (simp add: m' )
    moreover have "inputs_reached m'"
      unfolding inputs_reached_def
    proof (intro impI ballI)
      fix e assume e: "e \<in> set (ingress m')" "ingress_kind e = USER_INPUT"
      then have e': "e \<in> set (ingress m)" by (simp add: m')
      have old: "ingress_seq e \<le> coord_reach m" using ok e(2) e' s(1) by (simp add: coord_ok_def inputs_reached_def)
      have top: "ingress_seq e < next_ingress m" using ok ledger_bound [OF _ e'] by (simp add: coord_ok_def)
      show "ingress_seq e \<le> coord_reach m'"
        using reach old top by (auto simp: coord_reach_def act)
    qed
    ultimately show "coord_ok sha m'" using s(8) by (simp add: coord_ok_def m')
    show "coord_evolves m m'" using s(9) by (simp add: coord_evolves_def m' last_turn_seq_def)
    show "current_submission m = Some x \<or> map_option submission_id (offered offer) = Some (submission_id x)"
      if "current_submission m' = Some x" "submission_status x = ACTIVE" for x
      using that by (simp add: m' s(6))
  qed
qed

lemma submission_current_Inr:
  "submission_current m k = Inr s \<longleftrightarrow> stopped m = None \<and> current_submission m = Some s \<and> submission_id s = k \<and> submission_status s = ACTIVE \<and>
     submission_generation s = model_generation m"
  by (auto simp: submission_current_def split: option.splits)

lemma close_keeps:
  assumes ok: "coord_ok sha m" and cur: "submission_current m k = Inr s"
  shows "step_keeps sha l m ((close_turn s at failed err m)\<lparr>quick_grace := g\<rparr>)" (is "step_keeps sha l m ?m")
proof (rule step_keepsI)
  note c = cur [unfolded submission_current_Inr]
  have act: "model_active m" using c by (simp add: model_active_def)
  have idle: "pending_wake m = None" using ok act by (simp add: coord_ok_def fence_ok_def)
  have b: "last_turn_seq m \<le> covered_seq s" "covered_seq s < next_ingress m" using ok c by (simp_all add: coord_ok_def reach_bounds_def)
  have "ledger_ok ?m" using ok ledger_cong [of ?m m] by (simp add: coord_ok_def close_turn_def)
  moreover have "fence_ok ?m" using ok c idle by (simp add: coord_ok_def fence_ok_def close_turn_def model_active_def)
  moreover have "reach_bounds ?m" using b idle by (simp add: reach_bounds_def close_turn_def last_turn_seq_def)
  moreover have "inputs_reached ?m"
    unfolding inputs_reached_def
  proof (intro impI ballI)
    fix e assume e: "e \<in> set (ingress ?m)" "ingress_kind e = USER_INPUT"
    then have "e \<in> set (ingress m)" by (simp add: close_turn_def)
    then have "ingress_seq e \<le> coord_reach m" "1 \<le> ingress_seq e"
      using ok e(2) c ledger_bound by (auto simp: coord_ok_def inputs_reached_def)
    moreover have "coord_reach m \<le> max 0 (coord_reach ?m)"
      using b c idle by (simp add: coord_reach_def wake_reach_def active_reach_def close_turn_def last_turn_seq_def)
    ultimately show "ingress_seq e \<le> coord_reach ?m" by linarith
  qed
  ultimately show "coord_ok sha ?m" using async_part [OF ok] by (simp add: coord_ok_def close_turn_def)
  show "coord_evolves m ?m" using b by (simp add: coord_evolves_def close_turn_def last_turn_seq_def)
qed (simp add: close_turn_def)

lemma complete_keeps:
  assumes ok: "coord_ok sha m" and st: "complete_turn_mutator p k at now clk f m = (f', Inr (m', a))"
  shows "step_keeps sha None m m'"
  using st close_keeps [OF ok] same_keeps [OF ok] by (auto simp: complete_turn_mutator_def plain_def split: sum.splits)

lemma fail_keeps:
  assumes ok: "coord_ok sha m" and st: "fail_turn_mutator k err clk f m = (f', Inr (m', a))"
  shows "step_keeps sha None m m'"
  using st close_keeps [OF ok] same_keeps [OF ok] by (auto simp: fail_turn_mutator_def plain_def split: sum.splits)

text \<open>Recovery restages what it finds, one transition after the other.\<close>

definition restaged :: "(string \<Rightarrow> string) \<Rightarrow> coord \<Rightarrow> coord \<Rightarrow> bool" where
  "restaged sha m m' \<longleftrightarrow> ledger_ok m' \<and> async_ok sha (async_context m') \<and> coord_evolves m m' \<and> next_ingress m \<le> next_ingress m' \<and>
     {e \<in> set (ingress m'). ingress_kind e = USER_INPUT} = {e \<in> set (ingress m). ingress_kind e = USER_INPUT} \<and>
     pending_wake m' = pending_wake m \<and> current_submission m' = current_submission m \<and> stopped m' = stopped m \<and>
     last_turn m' = last_turn m \<and> model_generation m' = model_generation m"

lemma restaged_refl: "ledger_ok m \<Longrightarrow> async_ok sha (async_context m) \<Longrightarrow> restaged sha m m"
  by (simp add: restaged_def)

lemma restaged_trans: "restaged sha a b \<Longrightarrow> restaged sha b c \<Longrightarrow> restaged sha a c"
  unfolding restaged_def using coord_evolves_trans [of a b c] by auto

lemma restaged_arrival: "arrival sha m m' e \<Longrightarrow> restaged sha m m'"
  using arrival_evolves [of sha m m' e] by (auto simp: restaged_def arrival_def)

lemma restaged_quiet:
  assumes "ledger_ok m" "next_ingress m' = next_ingress m" "ingress m' = ingress m" "input_seqs m' = input_seqs m" "pending_wake m' = pending_wake m"
    "current_submission m' = current_submission m" "stopped m' = stopped m" "last_turn m' = last_turn m"
    "model_generation m' = model_generation m" "async_ok sha (async_context m')" "async_evolves (async_context m) (async_context m')"
    "input_digests m' = input_digests m"
  shows "restaged sha m m'"
  using assms ledger_cong [OF assms(2-4)] by (auto simp: restaged_def coord_evolves_def last_turn_seq_def)

lemma recover_entry_restaged:
  assumes st: "recover_entry sha at t (m, n, h) = (m', n', h')" and l: "ledger_ok m" and a: "async_ok sha (async_context m)"
  shows "restaged sha m m'"
proof (cases "m' = m")
  case True
  then show ?thesis using restaged_refl [OF l a] by simp
next
  case False
  let ?tid = "js_text (opt_member (Some t) ''transitionId'')" and ?op = "js_text (opt_member (Some t) ''operationId'')"
  obtain ctx res where stage: "stage_async_transitions sha [t] (async_context m) = (ctx, res)"
    by (cases "stage_async_transitions sha [t] (async_context m)")
  from stage_evolves [OF stage a] have ctx: "async_ok sha ctx" "async_evolves (async_context m) ctx" by simp_all
  let ?m = "m\<lparr>async_context := ctx\<rparr>"
  have l': "ledger_ok ?m" using l ledger_cong [of ?m m] by simp
  obtain m1 e where r: "record_transition ?tid ?op t [(''recovered'', JBool True)] at ?m = (m1, e)"
    by (cases "record_transition ?tid ?op t [(''recovered'', JBool True)] at ?m")
  have "arrival sha ?m m1 e" by (rule record_transition_arrival [OF r l']) (simp add: ctx)
  then have arr: "arrival sha m m1 e" using ctx record_transition_simps(11) [OF r] by (simp add: arrival_def)
  consider "m' = skip_transitions 1 m" | "m' = ?m" | j where "m' = skip_transitions j ?m" | "m' = m1"
    using st stage r False by (auto simp: recover_entry_def Let_def split: if_splits sum.splits prod.splits)
  then show ?thesis
  proof cases
    case 4
    then show ?thesis using restaged_arrival [OF arr] by simp
  qed (rule restaged_quiet [OF l]; simp add: skip_transitions_def ctx a)+
qed

lemma recover_entries_restaged:
  "foldl (\<lambda>acc t. recover_entry sha at t acc) (m, n, h) ts = (m', n', h') \<Longrightarrow> ledger_ok m \<Longrightarrow> async_ok sha (async_context m) \<Longrightarrow> restaged sha m m'"
proof (induction ts arbitrary: m n h)
  case Nil
  then show ?case using restaged_refl by simp
next
  case (Cons t ts)
  obtain m1 n1 h1 where e: "recover_entry sha at t (m, n, h) = (m1, n1, h1)" by (cases "recover_entry sha at t (m, n, h)")
  from recover_entry_restaged [OF e Cons.prems(2,3)] have r: "restaged sha m m1" .
  then have "restaged sha m1 m'" using Cons.IH [of m1 n1 h1] Cons.prems(1) e by (simp add: restaged_def)
  with r show ?case by (rule restaged_trans)
qed

text \<open>After the crash fence nothing is active; user input is reached unless nothing is going to wake.\<close>

definition fenced_ok :: "(string \<Rightarrow> string) \<Rightarrow> coord \<Rightarrow> bool" where
  "fenced_ok sha m \<longleftrightarrow> async_ok sha (async_context m) \<and> ledger_ok m \<and> fence_ok m \<and> reach_bounds m \<and> \<not> model_active m \<and>
     (pending_wake m \<noteq> None \<longrightarrow> inputs_reached m)"

lemma fence_crashed_fenced:
  assumes ok: "coord_ok sha m" and st: "fence_crashed_turn at had m = (m1, abandoned)"
  shows "fenced_ok sha m1" "coord_evolves m m1" "next_ingress m1 = next_ingress m"
proof -
  have sameness: "ledger_ok m1" "coord_evolves m m1" "next_ingress m1 = next_ingress m" "pending_wake m1 = pending_wake m" "last_turn m1 = last_turn m"
      "ingress m1 = ingress m" "stopped m1 = stopped m" "async_context m1 = async_context m"
    using ok st ledger_cong [of m1 m]
    by (auto simp: coord_ok_def fence_crashed_turn_def count_fence_def coord_evolves_def last_turn_seq_def split: option.splits if_splits)
  then show "coord_evolves m m1" "next_ingress m1 = next_ingress m" by simp_all
  have idle: "\<not> model_active m1"
    using st by (auto simp: fence_crashed_turn_def count_fence_def model_active_def abandon_def split: option.splits if_splits)
  moreover have "fence_ok m1"
    using ok st idle
    by (auto simp: coord_ok_def fence_ok_def fence_crashed_turn_def count_fence_def abandon_def model_active_def split: option.splits if_splits)
  moreover have "reach_bounds m1"
    using ok idle by (auto simp: coord_ok_def reach_bounds_def sameness last_turn_seq_cong [OF sameness(5)] model_active_def)
  moreover have "inputs_reached m1" if "pending_wake m1 \<noteq> None"
  proof -
    have "\<not> model_active m" using ok that by (auto simp: coord_ok_def fence_ok_def sameness)
    then have "coord_reach m1 = coord_reach m"
      using active_reach_idle idle by (simp add: coord_reach_def wake_reach_def sameness last_turn_seq_def)
    then show ?thesis using ok by (simp add: coord_ok_def inputs_reached_def sameness)
  qed
  ultimately show "fenced_ok sha m1" using ok sameness by (simp add: fenced_ok_def coord_ok_def)
qed

lemma restaged_fenced:
  assumes r: "restaged sha m m'" and f: "fenced_ok sha m"
  shows "fenced_ok sha m'"
proof -
  have eqs: "pending_wake m' = pending_wake m" "current_submission m' = current_submission m" "stopped m' = stopped m" "last_turn m' = last_turn m"
      "model_generation m' = model_generation m" "next_ingress m \<le> next_ingress m'"
    and users: "{e \<in> set (ingress m'). ingress_kind e = USER_INPUT} = {e \<in> set (ingress m). ingress_kind e = USER_INPUT}"
    using r by (simp_all add: restaged_def)
  note same = model_active_cong [OF eqs(2)] reach_cong [OF eqs(4,1,2)] last_turn_seq_cong [OF eqs(4)]
  have "fence_ok m'" using f by (simp add: fenced_ok_def fence_ok_def eqs(1-5) same)
  moreover have "reach_bounds m'" using f eqs(6) by (auto simp: fenced_ok_def reach_bounds_def eqs(1-5) same)
  moreover have "inputs_reached m'" if "pending_wake m' \<noteq> None"
  proof -
    have "inputs_reached m" using f that by (simp add: fenced_ok_def eqs)
    then show ?thesis using users unfolding inputs_reached_def eqs(3) same(2) by blast
  qed
  ultimately show ?thesis using f r by (simp add: fenced_ok_def restaged_def same)
qed

lemma recovery_wake_keeps:
  assumes f: "fenced_ok sha m" and st: "recovery_wake at (last_turn_seq m < next_ingress m - 1 \<or> p) non ab staged m = (m', w)"
  shows "step_keeps sha l m m'"
proof (cases "stopped m = None")
  case False
  then have m': "m' = m" using st by (auto simp: recovery_wake_def)
  have "inputs_reached m" using False unfolding inputs_reached_def by blast
  then have "coord_ok sha m" using f by (simp add: coord_ok_def fenced_ok_def)
  from same_keeps [OF this] show ?thesis by (simp add: m')
next
  case run: True
  note idle = f [unfolded fenced_ok_def, THEN conjunct2, THEN conjunct2, THEN conjunct2, THEN conjunct2, THEN conjunct1]
  show ?thesis
  proof (cases "pending_wake m")
    case None
    have covered: "coord_ok sha m" if "\<not> last_turn_seq m < next_ingress m - 1"
    proof -
      have "inputs_reached m"
        unfolding inputs_reached_def
      proof (intro impI ballI)
        fix e assume "e \<in> set (ingress m)"
        then have "ingress_seq e < next_ingress m" using f ledger_bound by (simp add: fenced_ok_def)
        then show "ingress_seq e \<le> coord_reach m" using that by (simp add: coord_reach_def)
      qed
      then show ?thesis using f by (simp add: coord_ok_def fenced_ok_def)
    qed
    obtain m1 created w1 where w1: "extend_or_create_wake (next_ingress m - 1) ''CRASH_RECOVERY'' EXPLICIT_WAKE at m = (m1, created, w1)"
      by (cases "extend_or_create_wake (next_ingress m - 1) ''CRASH_RECOVERY'' EXPLICIT_WAKE at m") auto
    consider "m' = m" "\<not> last_turn_seq m < next_ingress m - 1"
      | "m' = (if created then m1\<lparr>metrics := (metrics m1)\<lparr>recovery_turns := recovery_turns (metrics m1) + 1\<rparr>\<rparr> else m1)"
      using st run None idle w1 by (auto simp: recovery_wake_def Let_def split: if_splits)
    then show ?thesis
    proof cases
      case 1
      then show ?thesis using same_keeps [OF covered] by simp
    next
      case 2
      note m1 = extend_simps(1) [OF w1]
      have "ledger_ok m1 \<and> fence_ok m1 \<and> reach_bounds m1 \<and> inputs_reached m1"
        by (rule extended_wake_ok [OF w1 _ _ _ _ idle run]) (use f in \<open>simp_all add: fenced_ok_def reach_bounds_def\<close>)
      then have ok1: "coord_ok sha m1" using f by (simp add: coord_ok_def fenced_ok_def m1)
      show ?thesis
      proof (rule step_keepsI)
        show "coord_ok sha m'" using quiet_change [OF ok1, of m'] async_part [OF ok1] ok1 by (simp add: 2)
        show "coord_evolves m m'" by (simp add: coord_evolves_def 2 m1 last_turn_seq_def)
      qed (simp add: 2 m1 split: if_splits)
    qed
  next
    case (Some v)
    define v' where "v' = (if 0 < staged \<and> covers_up_to v < next_ingress m - 1 then v\<lparr>covers_up_to := next_ingress m - 1\<rparr> else v)"
    have m': "m' = m\<lparr>pending_wake := Some v'\<rparr>" using st run Some by (auto simp: recovery_wake_def Let_def v'_def split: if_splits)
    have b: "last_turn_seq m \<le> covers_up_to v" "covers_up_to v < next_ingress m" using f Some by (simp_all add: fenced_ok_def reach_bounds_def)
    have v': "covers_up_to v \<le> covers_up_to v'" "covers_up_to v' < next_ingress m" using b by (auto simp: v'_def)
    have "wake_reach m \<le> wake_reach m'" "active_reach m' = active_reach m" "last_turn_seq m' = last_turn_seq m"
      using v' by (simp_all add: m' wake_reach_def Some last_turn_seq_def active_reach_def)
    then have "coord_reach m \<le> coord_reach m'" unfolding coord_reach_def by linarith
    moreover have "inputs_reached m" using f Some by (simp add: fenced_ok_def)
    ultimately have reached: "inputs_reached m'" unfolding inputs_reached_def m' by fastforce
    show ?thesis
    proof (rule step_keepsI)
      have "ledger_ok m'" using f ledger_cong [of m' m] by (simp add: fenced_ok_def m')
      moreover have "fence_ok m'" using f run idle by (simp add: fenced_ok_def fence_ok_def m' model_active_def)
      moreover have "reach_bounds m'" using f b v' by (simp add: fenced_ok_def reach_bounds_def m' last_turn_seq_def)
      ultimately show "coord_ok sha m'" using f reached by (simp add: coord_ok_def fenced_ok_def m')
      show "coord_evolves m m'" by (simp add: coord_evolves_def m' last_turn_seq_def)
    qed (simp add: m')
  qed
qed

lemma recover_keeps:
  assumes ok: "coord_ok sha m" and st: "recover_mutator sha at had previous unseen recovered clk f m = (f', Inr (m', x))"
  shows "step_keeps sha None m m'"
proof -
  obtain m1 abandoned where a: "fence_crashed_turn at had m = (m1, abandoned)" by (cases "fence_crashed_turn at had m")
  obtain m2 staged highest where r: "foldl (\<lambda>acc t. recover_entry sha at t acc) (m1, 0, last_staged m1) unseen = (m2, staged, highest)"
    by (cases "foldl (\<lambda>acc t. recover_entry sha at t acc) (m1, 0, last_staged m1) unseen") auto
  note f1 = fence_crashed_fenced [OF ok a]
  have r2: "restaged sha m1 m2" by (rule recover_entries_restaged [OF r]) (use f1(1) in \<open>simp_all add: fenced_ok_def\<close>)
  define m3 where "m3 = m2\<lparr>last_staged := highest\<rparr>"
  have r3: "restaged sha m1 m3" using r2 ledger_cong [of m3 m2] by (simp add: restaged_def m3_def coord_evolves_def last_turn_seq_def)
  have f3: "fenced_ok sha m3" by (rule restaged_fenced [OF r3 f1(1)])
  obtain m4 w where w: "recovery_wake at (next_ingress m1 < next_ingress m3 \<or> 0 < staged \<or> staged_items (async_context m3) \<noteq> [] \<or>
      last_turn_seq m3 < next_ingress m3 - 1) (list_ex nonterminal_operation recovered) (abandoned \<noteq> None) staged m3 = (m4, w)"
    by (cases "recovery_wake at (next_ingress m1 < next_ingress m3 \<or> 0 < staged \<or> staged_items (async_context m3) \<noteq> [] \<or>
      last_turn_seq m3 < next_ingress m3 - 1) (list_ex nonterminal_operation recovered) (abandoned \<noteq> None) staged m3")
  have m': "m' = quiet_completions m4"
    using st a r w unfolding recover_mutator_def plain_def a prod.case r Let_def m3_def [symmetric] w by simp
  have "step_keeps sha None m3 m4"
    by (rule recovery_wake_keeps [OF f3, of at "next_ingress m1 < next_ingress m3 \<or> 0 < staged \<or> staged_items (async_context m3) \<noteq> []"])
      (use w in \<open>simp add: disj_ac\<close>)
  then have k4: "coord_ok sha m4" "coord_evolves m3 m4" "\<forall>k. turn_current m4 k \<longrightarrow> turn_current m3 k" by (simp_all add: step_keeps_def)
  have "coord_evolves m1 m3" using r3 by (simp add: restaged_def)
  from coord_evolves_trans [OF f1(2) coord_evolves_trans [OF this k4(2)]] have ev: "coord_evolves m m4" .
  have "turn_current m3 k = False" for k using f3 by (auto simp: fenced_ok_def turn_current_def model_active_def)
  then have idle: "\<not> turn_current m4 k" for k using k4(3) by blast
  have "coord_ok sha m'" using quiet_change [OF k4(1), of m'] async_part [OF k4(1)] by (simp add: m')
  moreover have "coord_evolves m m'" using ev by (simp add: coord_evolves_def m' last_turn_seq_def)
  moreover have "\<not> turn_current m' k" for k using idle [of k] by (simp add: m' turn_current_def)
  ultimately show ?thesis by (simp add: step_keeps_def)
qed

lemma coord_step_keeps: "coord_step sha l m m' \<Longrightarrow> coord_ok sha m \<Longrightarrow> step_keeps sha l m m'"
  by (induction rule: coord_step.induct)
    (blast intro: user_input_keeps stop_keeps transition_keeps explicit_wake_keeps drain_keeps take_keeps complete_keeps fail_keeps recover_keeps)+

end
