(* ===== verification/Async_Runs.thy ===== *)
theory Async_Runs
  imports Async_Safety
begin

section \<open>Runs of the coordinator and the store they go through\<close>

text \<open>
  Any interleaving of updates by any number of coordinators of one session is a run of
  \<open>coord_step\<close>.  This theory states what runs preserve, and shows that every operation of
  \<open>packages/core-harness/src/async-agent-coordinator.js\<close> amounts to one step on what the store
  holds, whatever the other writers do meanwhile.
\<close>

subsection \<open>Runs\<close>

text \<open>The list holds the ids of the turns offered during the run.\<close>

inductive coord_run :: "(string \<Rightarrow> string) \<Rightarrow> string list \<Rightarrow> coord \<Rightarrow> coord \<Rightarrow> bool" for sha where
  Run_Stay: "coord_run sha [] m m"
| Run_Step: "coord_run sha ks a b \<Longrightarrow> coord_step sha l b c \<Longrightarrow> coord_run sha (ks @ (case l of None \<Rightarrow> [] | Some k \<Rightarrow> [k])) a c"

lemma run_one: "coord_step sha l a b \<Longrightarrow> coord_run sha (case l of None \<Rightarrow> [] | Some k \<Rightarrow> [k]) a b"
  using Run_Step [OF Run_Stay, of sha l a b] by simp

lemma run_append: "coord_run sha ls b c \<Longrightarrow> coord_run sha ks a b \<Longrightarrow> coord_run sha (ks @ ls) a c"
proof (induction rule: coord_run.induct)
  case (Run_Stay m)
  then show ?case by simp
next
  case (Run_Step js a' b l c)
  from coord_run.Run_Step [OF Run_Step.IH [OF Run_Step.prems] Run_Step.hyps(2)] show ?case by simp
qed

lemma coord_run_keeps:
  assumes "coord_run sha ks m m'" "coord_ok sha m"
  shows "coord_ok sha m'" "coord_evolves m m'" "turn_current m' k \<Longrightarrow> turn_current m k \<or> k \<in> set ks"
proof -
  from assms have "coord_ok sha m' \<and> coord_evolves m m' \<and> (turn_current m' k \<longrightarrow> turn_current m k \<or> k \<in> set ks)"
  proof (induction arbitrary: k rule: coord_run.induct)
    case (Run_Step ks a b l c)
    have "step_keeps sha l b c" using coord_step_keeps [OF Run_Step.hyps(2)] Run_Step.IH [OF Run_Step.prems] by blast
    moreover have "coord_evolves a b" "turn_current b j \<longrightarrow> turn_current a j \<or> j \<in> set ks" for j
      using Run_Step.IH [OF Run_Step.prems] by blast+
    ultimately show ?case unfolding step_keeps_def by (auto intro: coord_evolves_trans)
  qed simp
  then show "coord_ok sha m'" "coord_evolves m m'" "turn_current m' k \<Longrightarrow> turn_current m k \<or> k \<in> set ks" by blast+
qed

lemma coord_run_ok: "coord_run sha ks (empty_coord sha) m \<Longrightarrow> coord_ok sha m"
  using coord_run_keeps(1) [OF _ empty_coord_ok] .

text \<open>A turn that is not current is refused everywhere.\<close>

lemma not_current_refused: "\<not> turn_current m k \<Longrightarrow> \<exists>why. submission_current m k = Inl why"
  by (cases "submission_current m k") (auto simp: submission_current_Inr turn_current_def)

lemma refused_response:
  assumes "submission_current m k = Inl why"
  shows "complete_turn_mutator p k at now clk f m = (f, Inr (m, refused_turn why))"
    "fail_turn_mutator k err clk f m = (f, Inr (m, refused_turn why))"
  using assms by (simp_all add: complete_turn_mutator_def fail_turn_mutator_def plain_def)

subsection \<open>What the store holds\<close>

definition coord_at :: "('s, coord) session_store \<Rightarrow> (string \<Rightarrow> string) \<Rightarrow> string \<Rightarrow> 's \<Rightarrow> coord" where
  "coord_at ops sha sess st = (case op_load ops st (coordinator_id sess) of Inr (Some d) \<Rightarrow> memory d | _ \<Rightarrow> empty_coord sha)"

definition coord_moves ::
  "('s, coord) session_store \<Rightarrow> ('s \<Rightarrow> string \<Rightarrow> int) \<Rightarrow> ('s \<Rightarrow> bool) \<Rightarrow> (string \<Rightarrow> string) \<Rightarrow> string \<Rightarrow> 's \<Rightarrow> 's \<Rightarrow> bool" where
  "coord_moves ops rev_of good sha sess st st' \<longleftrightarrow>
     interference ops rev_of good (coordinator_id sess) st st' \<and>
     (\<exists>ks. coord_run sha ks (coord_at ops sha sess st) (coord_at ops sha sess st'))"

text \<open>The other writers, during every wait.\<close>

definition others_ok ::
  "('s, coord) session_store \<Rightarrow> ('s \<Rightarrow> string \<Rightarrow> int) \<Rightarrow> ('s \<Rightarrow> bool) \<Rightarrow> (string \<Rightarrow> string) \<Rightarrow> string \<Rightarrow> (nat \<Rightarrow> 's \<Rightarrow> 's) \<Rightarrow> bool" where
  "others_ok ops rev_of good sha sess env \<longleftrightarrow> (\<forall>k st. good st \<longrightarrow> coord_moves ops rev_of good sha sess st (env k st))"

lemma coord_moves_refl: "good st \<Longrightarrow> coord_moves ops rev_of good sha sess st st"
  using Run_Stay by (auto simp: coord_moves_def interference_def)

lemma coord_moves_trans:
  "coord_moves ops rev_of good sha sess a b \<Longrightarrow> coord_moves ops rev_of good sha sess b c \<Longrightarrow> coord_moves ops rev_of good sha sess a c"
  unfolding coord_moves_def interference_def by (auto intro: run_append)

lemma others_quiet: "others_ok ops rev_of good sha sess (\<lambda>_ st. st)"
  by (simp add: others_ok_def coord_moves_refl)

definition makes_step :: "(string \<Rightarrow> string) \<Rightarrow> 'v coord_mutator \<Rightarrow> bool" where
  "makes_step sha mu \<longleftrightarrow> (\<forall>clk f m f' m' v. mu clk f m = (f', Inr (m', v)) \<longrightarrow> (\<exists>l. coord_step sha l m m'))"

lemma mutators_make_steps:
  "makes_step sha (user_input_mutator k payload at now)" "makes_step sha (stop_mutator k why at)"
  "makes_step sha (transition_input_mutator sha p tid op t at now)" "makes_step sha (explicit_wake_mutator k why at now)"
  "makes_step sha (drain_mutator p at now)" "makes_step sha (take_turn_mutator sha sess sub at)"
  "makes_step sha (complete_turn_mutator p k at now)" "makes_step sha (fail_turn_mutator k err)"
  "makes_step sha (recover_mutator sha at had previous unseen recovered)"
  unfolding makes_step_def by (blast intro: coord_step.intros)+

text \<open>\<open>v\<close> is what the mutator answered to the very document the save replaced.\<close>

definition took_effect ::
  "('s, coord) session_store \<Rightarrow> ('s \<Rightarrow> string \<Rightarrow> int) \<Rightarrow> ('s \<Rightarrow> bool) \<Rightarrow> (string \<Rightarrow> string) \<Rightarrow> string \<Rightarrow> (nat \<Rightarrow> clock) \<Rightarrow> 'v coord_mutator \<Rightarrow>
     's \<Rightarrow> 's \<Rightarrow> 'v \<Rightarrow> bool" where
  "took_effect ops rev_of good sha sess clk mu st st' v \<longleftrightarrow>
     (\<exists>stc n f f'. coord_moves ops rev_of good sha sess st stc \<and> coord_moves ops rev_of good sha sess stc st' \<and>
        mu (clk n) f (coord_at ops sha sess stc) = (f', Inr (coord_at ops sha sess st', v)))"

lemma took_effect_later:
  "took_effect ops rev_of good sha sess clk mu b c v \<Longrightarrow> coord_moves ops rev_of good sha sess a b \<Longrightarrow>
     took_effect ops rev_of good sha sess clk mu a c v"
  unfolding took_effect_def by (blast intro: coord_moves_trans)

locale coordinator_scope = revision_store ops rev_of good
  for ops :: "('s, coord) session_store" and rev_of good +
  fixes sha :: "string \<Rightarrow> string" and sess :: string
begin

abbreviation moves :: "'s \<Rightarrow> 's \<Rightarrow> bool" where
  "moves \<equiv> coord_moves ops rev_of good sha sess"

text \<open>The document an attempt works on.\<close>

definition doc_of :: "string \<Rightarrow> coord_doc option \<Rightarrow> coord_doc" where
  "doc_of at found = (case found of None \<Rightarrow> empty_coord_doc sha sess at | Some d \<Rightarrow> ensure_coord_shape sess d)"

lemma doc_of_memory: "op_load ops st (coordinator_id sess) = Inr found \<Longrightarrow> memory (doc_of at found) = coord_at ops sha sess st"
  by (cases found) (simp_all add: doc_of_def coord_at_def empty_coord_doc_def ensure_coord_shape_def)

lemma doc_of_id:
  "good st \<Longrightarrow> op_load ops st (coordinator_id sess) = Inr found \<Longrightarrow>
     sid (doc_of at found) = coordinator_id sess \<and>
     or_else (revision (doc_of at found)) 0 = (case found of None \<Rightarrow> 0 | Some x \<Rightarrow> or_else (revision x) 0)"
  using load_present [of st "coordinator_id sess"]
  by (cases found) (auto simp: doc_of_def empty_coord_doc_def ensure_coord_shape_def)

lemma save_coord_cases:
  assumes good: "good st" and save: "save_coord ops at d st = (st', res)"
  obtains (saved) r where "op_save ops st (d\<lparr>updated_at := at\<rparr>) (or_else (revision d) 0) = (st', Inr r)" "is_ok res"
    | (refused) e where "st' = st" "res = Inl e"
proof (cases "op_save ops st (d\<lparr>updated_at := at\<rparr>) (or_else (revision d) 0)")
  case (Pair s x)
  show thesis
  proof (cases x)
    case (Inl e)
    with Pair save save_refused [OF good, of "d\<lparr>updated_at := at\<rparr>"] that(2) show thesis by (auto simp: save_coord_def Let_def)
  next
    case (Inr r)
    with Pair save_commits [OF good, of "d\<lparr>updated_at := at\<rparr>" "or_else (revision d) 0" s r] have "r = Some (or_else (revision d) 0 + 1)" by simp
    with Inr Pair save that(1) show thesis by (auto simp: save_coord_def Let_def assert_persisted_revision_def)
  qed
qed

text \<open>A save that succeeds replaces the document the attempt read.\<close>

lemma saved_step:
  assumes good: "good st1" and load: "op_load ops st1 (coordinator_id sess) = Inr found"
    and step: "mu clk f (memory (doc_of at found)) = (f', Inr (m, v))" and mu: "makes_step sha mu"
    and env: "interference ops rev_of good (coordinator_id sess) st1 st2"
    and save: "op_save ops st2 ((doc_of at found)\<lparr>memory := m, updated_at := at'\<rparr>) (or_else (revision (doc_of at found)) 0) = (st3, Inr r)"
  shows "coord_at ops sha sess st2 = memory (doc_of at found)" "coord_at ops sha sess st3 = m" "moves st2 st3"
proof -
  let ?d = "(doc_of at found)\<lparr>memory := m, updated_at := at'\<rparr>"
  note d = doc_of_id [OF good load, of at]
  have good2: "good st2" using env by (simp add: interference_def)
  have same: "op_load ops st2 (coordinator_id sess) = Inr found"
    using save_sees_read [of st1 ?d found st2, OF good _ _ _ save] load env d by simp
  then show here: "coord_at ops sha sess st2 = memory (doc_of at found)" using doc_of_memory [of st2 found at] by simp
  show new: "coord_at ops sha sess st3 = m"
    using save_commits [OF good2 save] d by (auto simp: coord_at_def)
  obtain l where "coord_step sha l (memory (doc_of at found)) m" using mu step unfolding makes_step_def by blast
  from run_one [OF this] have "\<exists>ks. coord_run sha ks (coord_at ops sha sess st2) (coord_at ops sha sess st3)"
    unfolding here new by blast
  then show "moves st2 st3" using save_is_interference [OF good2 save] by (simp add: coord_moves_def)
qed

lemma with_coord_steps:
  assumes env: "others_ok ops rev_of good sha sess env" and mu: "makes_step sha mu"
  shows "good st \<Longrightarrow> with_coord ops sha sess clk env mu f n left st = (st', f', res) \<Longrightarrow>
     moves st st' \<and> (\<forall>v. res = Inr v \<longrightarrow> took_effect ops rev_of good sha sess clk mu st st' v)"
proof (induction left arbitrary: n f st rule: less_induct)
  case (less left)
  have envD: "good x \<Longrightarrow> interference ops rev_of good (coordinator_id sess) x (env k x) \<and> good (env k x) \<and> moves x (env k x)" for k x
    using env by (auto simp: others_ok_def coord_moves_def interference_def)
  define st1 where "st1 = env (2 * n) st"
  have good1: "good st1" and ev1: "moves st st1" using envD [OF less.prems(1)] by (auto simp: st1_def)
  obtain found where found: "op_load ops st1 (coordinator_id sess) = Inr found" using load_total [OF good1] by blast
  then have load1: "load_coord ops sess st1 = Inr (map_option (ensure_coord_shape sess) found)" by (simp add: load_coord_def)
  have doc: "(case map_option (ensure_coord_shape sess) found of None \<Rightarrow> empty_coord_doc sha sess (clk n 0) | Some d \<Rightarrow> d) = doc_of (clk n 0) found"
    by (cases found) (auto simp: doc_of_def)
  note step = less.prems(2) [unfolded with_coord.simps [of ops sha sess clk env mu f n left st] Let_def, folded st1_def,
      unfolded load1 sum.case doc]
  obtain f1 out where out: "mu (clk n) f (memory (doc_of (clk n 0) found)) = (f1, out)"
    by (cases "mu (clk n) f (memory (doc_of (clk n 0) found))")
  show ?case
  proof (cases out)
    case (Inl e)
    with step out ev1 show ?thesis by auto
  next
    case (Inr p)
    obtain m v where p: "p = (m, v)" by (cases p)
    note mutated = out [unfolded Inr p]
    define st2 where "st2 = env (2 * n + 1) st1"
    have good2: "good st2" and ev2: "moves st st2" and inter: "interference ops rev_of good (coordinator_id sess) st1 st2"
      using envD [OF good1, of "2 * n + 1"] coord_moves_trans [OF ev1] by (auto simp: st2_def)
    let ?d = "(doc_of (clk n 0) found)\<lparr>memory := m\<rparr>"
    obtain st3 sres where save: "save_coord ops (clk n 1) ?d st2 = (st3, sres)" by (cases "save_coord ops (clk n 1) ?d st2")
    note step = step [unfolded mutated prod.case sum.case, folded st2_def, unfolded save prod.case]
    from good2 save show ?thesis
    proof (cases rule: save_coord_cases)
      case (saved r)
      note c = saved_step [OF good1 found mutated mu inter, of "clk n 1" st3 r]
      have ev3: "moves st2 st3" and here: "coord_at ops sha sess st2 = memory (doc_of (clk n 0) found)" "coord_at ops sha sess st3 = m"
        using c saved(1) by simp_all
      from saved(2) step have res: "st' = st3" "res = Inr v" by (auto simp: is_ok_def split: sum.splits)
      have "mu (clk n) f (coord_at ops sha sess st2) = (f1, Inr (coord_at ops sha sess st3, v))" using mutated by (simp only: here)
      then have "took_effect ops rev_of good sha sess clk mu st st3 v" unfolding took_effect_def using ev2 ev3 by blast
      then show ?thesis using coord_moves_trans [OF ev2 ev3] res by blast
    next
      case (refused e)
      note step = step [unfolded refused sum.case]
      show ?thesis
      proof (cases "is_store_conflict e \<and> 0 < left")
        case False
        with step ev2 show ?thesis by auto
      next
        case True
        then have "left - 1 < left" by simp
        moreover have "with_coord ops sha sess clk env mu f1 (n + 1) (left - 1) st2 = (st', f', res)" using step True by simp
        ultimately have "moves st2 st' \<and> (\<forall>v. res = Inr v \<longrightarrow> took_effect ops rev_of good sha sess clk mu st2 st' v)"
          by (rule less.IH [OF _ good2])
        then show ?thesis using coord_moves_trans [OF ev2] took_effect_later [OF _ ev2] by auto
      qed
    qed
  qed
qed

lemma update_coord_steps:
  assumes "others_ok ops rev_of good sha sess env" "makes_step sha mu" "good st"
    "update_coord ops sha sess clk env mu st = (st', f', res)"
  shows "moves st st'" "res = Inr v \<Longrightarrow> took_effect ops rev_of good sha sess clk mu st st' v"
  using with_coord_steps [OF assms(1-3) assms(4) [unfolded update_coord_def]] by auto

end

interpretation coord_mem: coordinator_scope in_memory_store stored_revision mem_good sha sess for sha sess
  by unfold_locales

interpretation coord_validated: coordinator_scope validated_memory stored_revision mem_good sha sess for sha sess
  by unfold_locales

end
