(* ===== verification/Async_Props.thy ===== *)
theory Async_Props
  imports Async_Runs
begin

section \<open>What the coordinator promises\<close>

text \<open>
  The properties of \<open>packages/core-harness/src/async-agent-coordinator.js\<close> and of the checkpoint of
  \<open>packages/core-harness/src/async-result-context.js\<close> it keeps: a STOP is final, steering fences the
  running turn, user input is never forgotten, repeated input is harmless, what the model has seen is
  append-only, and every operation is one step on what the store holds.  The last two properties
  record behaviour the documentation does not mean.
\<close>

subsection \<open>Helpers\<close>

lemma stop_mutator_stops:
  assumes "stop_mutator k why at clk f m = (f', Inr (m', r))" "map_of (input_seqs m) k = None"
  shows "stopped m' \<noteq> None"
  using assms by (auto simp: stop_mutator_def Let_def split: prod.splits option.splits if_splits)

lemma stopped_stays: "coord_run sha ks m m' \<Longrightarrow> coord_ok sha m \<Longrightarrow> stopped m \<noteq> None \<Longrightarrow> stopped m' \<noteq> None"
  using coord_run_keeps(2) [of sha ks m m'] by (simp add: coord_evolves_def)

lemma stopped_refuses:
  assumes "stopped m \<noteq> None"
  shows "submission_current m j = Inl ''STOP_FENCED''" "take_turn_mutator sha sess sub at clk f m = (f, Inl stop_fenced_fault)"
  using assms by (auto simp: submission_current_def take_turn_mutator_def plain_def)

lemma steering_ends_the_turn:
  assumes "user_input_mutator i payload at now clk f m = (f', Inr (m', r))" "map_of (input_seqs m) i = None" "stopped m = None"
  shows "\<not> turn_current m' k"
proof -
  obtain m1 e where a: "accept_input USER_INPUT i payload at m = (m1, e)" by (cases "accept_input USER_INPUT i payload at m")
  note s = accept_input_simps [OF a]
  show ?thesis
    using assms a
    by (cases "current_submission m")
      (auto simp: user_input_mutator_def Let_def s turn_current_def abandon_def count_fence_def
        dest!: extend_simps(1) split: if_splits prod.splits)
qed

text \<open>An entry is found under its number.\<close>

lemma find_by_key: "distinct (map g xs) \<Longrightarrow> x \<in> set xs \<Longrightarrow> find (\<lambda>y. g y = g x) xs = Some x"
  by (induction xs) auto

lemma entry_found:
  assumes "ledger_ok m" "e \<in> set (ingress m)"
  shows "entry_at m (ingress_seq e) = Some e"
proof -
  have "map ingress_seq (ingress m) = [1..next_ingress m - 1]" using assms(1) by (simp add: ledger_ok_def)
  then have "distinct (map ingress_seq (ingress m))" by simp
  then show ?thesis unfolding entry_at_def using assms(2) by (rule find_by_key)
qed

lemma user_input_accepted:
  assumes "user_input_mutator k payload at now clk f m = (f', Inr (m', r))" "map_of (input_seqs m) k = None"
  shows "map_of (input_seqs m') k = Some (next_ingress m)" "map_of (input_digests m') k = Some (payload_digest payload)"
    "\<exists>e. got_entry r = Some e \<and> e \<in> set (ingress m') \<and> ingress_seq e = next_ingress m \<and> ingress_kind e = USER_INPUT \<and> ingress_payload e = payload"
    "\<not> got_duplicate r"
proof -
  obtain m1 e where a: "accept_input USER_INPUT k payload at m = (m1, e)" by (cases "accept_input USER_INPUT k payload at m")
  note s = accept_input_simps [OF a]
  have load: "ingress_payload e = payload" using a by (auto simp: accept_input_def add_entry_def Let_def)
  have "map_of (input_seqs m') k = Some (next_ingress m) \<and> map_of (input_digests m') k = Some (payload_digest payload) \<and>
      e \<in> set (ingress m') \<and> got_entry r = Some e \<and> \<not> got_duplicate r"
    using assms a
    by (cases "current_submission m")
      (auto simp: user_input_mutator_def Let_def s ingested_def count_fence_def dest!: extend_simps(1) split: if_splits prod.splits)
  then show "map_of (input_seqs m') k = Some (next_ingress m)" "map_of (input_digests m') k = Some (payload_digest payload)"
    "\<exists>e. got_entry r = Some e \<and> e \<in> set (ingress m') \<and> ingress_seq e = next_ingress m \<and> ingress_kind e = USER_INPUT \<and> ingress_payload e = payload"
    "\<not> got_duplicate r"
    using s(4,5) load by auto
qed

text \<open>When something is unanswered and nothing runs, a turn is there for the asking.\<close>

lemma unanswered_gets_turn:
  assumes ok: "coord_ok sha m" and e: "e \<in> set (ingress m)" "ingress_kind e = USER_INPUT" and run: "stopped m = None" "\<not> model_active m"
    and late: "last_turn_seq m < ingress_seq e" and k: "nonblank k"
  shows "\<exists>m' offer s. take_turn_mutator sha sess (Some k) at clk f m = (f, Inr (m', offer)) \<and> offered offer = Some s \<and> submission_id s = k \<and>
     submission_current m' k = Inr s \<and> ingress_seq e \<le> covered_seq s"
proof -
  have reach: "ingress_seq e \<le> coord_reach m" using ok e run by (simp add: coord_ok_def inputs_reached_def)
  have pos: "1 \<le> ingress_seq e" using ok e ledger_bound [of m e] by (simp add: coord_ok_def)
  obtain w where w: "pending_wake m = Some w" "ingress_seq e \<le> covers_up_to w"
    using reach late pos by (cases "pending_wake m") (auto simp: coord_reach_def wake_reach_def active_reach_idle [OF run(2)] split: if_splits)
  show ?thesis
    using run w k
    by (auto simp: take_turn_mutator_def plain_def Let_def submission_current_Inr split: sum.splits prod.splits)
qed

subsection \<open>A session, step by step\<close>

text \<open>One input is accepted and answered by a turn; then come more input, or a STOP, or an explicit wake.\<close>

definition ran :: "int option \<times> (coord \<times> 'v) res \<Rightarrow> coord" where
  "ran out = (case snd out of Inr (m, v) \<Rightarrow> m | Inl e \<Rightarrow> empty_coord (\<lambda>t. t))"

definition demo_clock :: clock where
  "demo_clock k = ''2026-01-01T00:00:00.000Z''"

definition demo_profile :: coord_profile where
  "demo_profile = \<lparr>completion_idle_ms = 1, max_coalesced = 100, quick_grace_ms = 1000\<rparr>"

definition demo_ask :: "int option \<times> (coord \<times> ingest_result) res" where
  "demo_ask = user_input_mutator ''input-1'' (JStr ''hello'') (demo_clock 0) 0 demo_clock None (empty_coord (\<lambda>t. t))"

definition demo_take :: "int option \<times> (coord \<times> turn_offer) res" where
  "demo_take = take_turn_mutator (\<lambda>t. t) ''session'' (Some ''turn-1'') (demo_clock 0) demo_clock None (ran demo_ask)"

definition demo_steer :: "int option \<times> (coord \<times> ingest_result) res" where
  "demo_steer = user_input_mutator ''input-2'' (JStr ''wait'') (demo_clock 0) 5 demo_clock None (ran demo_take)"

definition demo_stop :: "int option \<times> (coord \<times> ingest_result) res" where
  "demo_stop = stop_mutator ''stop-1'' None (demo_clock 0) demo_clock None (ran demo_take)"

definition demo_wake :: "int option \<times> (coord \<times> ingest_result) res" where
  "demo_wake = explicit_wake_mutator ''wake-1'' None (demo_clock 0) 5 demo_clock None (ran demo_take)"

definition demo_complete :: "int option \<times> (coord \<times> turn_answer) res" where
  "demo_complete = complete_turn_mutator demo_profile ''turn-1'' (demo_clock 0) 9 demo_clock None (ran demo_wake)"

lemmas demo_defs = ran_def user_input_mutator_def stop_mutator_def take_turn_mutator_def explicit_wake_mutator_def complete_turn_mutator_def
  plain_def accept_input_def add_entry_def Let_def empty_coord_def quiet_completions_def extend_or_create_wake_def ingested_def no_metrics_def
  create_async_state_def model_active_def count_fence_def abandon_def no_burst_def submission_current_def close_turn_def demo_profile_def

lemma demo_asked: "demo_ask = (None, Inr (ran demo_ask, snd (projr (snd demo_ask))))" "map_of (input_seqs (ran demo_ask)) ''input-2'' = None"
  by (simp_all add: demo_ask_def demo_defs)

lemma demo_took: "demo_take = (None, Inr (ran demo_take, snd (projr (snd demo_take))))"
    "map_of (input_seqs (ran demo_take)) = [''input-1'' \<mapsto> 1]" "stopped (ran demo_take) = None"
    "pending_wake (ran demo_take) = None" "burst (ran demo_take) = no_burst" "staged_items (async_context (ran demo_take)) = []"
    "next_ingress (ran demo_take) = 2" "submission_current (ran demo_take) ''turn-1'' = Inr (the (current_submission (ran demo_take)))"
    "covered_seq (the (current_submission (ran demo_take))) = 1" "map_option submission_id (offered (snd (projr (snd demo_take)))) = Some ''turn-1''"
  by (simp_all add: demo_take_def demo_ask_def demo_defs nonblank_iff js_space_def)

lemma demo_later:
  "demo_steer = (Some 1, Inr (ran demo_steer, snd (projr (snd demo_steer))))" "demo_stop = (Some 1, Inr (ran demo_stop, snd (projr (snd demo_stop))))"
  "demo_wake = (None, Inr (ran demo_wake, snd (projr (snd demo_wake))))"
  "demo_complete = (None, Inr (ran demo_complete, snd (projr (snd demo_complete))))"
  by (simp_all add: demo_steer_def demo_stop_def demo_wake_def demo_complete_def demo_take_def demo_ask_def demo_defs nonblank_iff js_space_def)

lemmas demo_state = demo_took(2-9)

lemmas demo_calls = trans [OF demo_ask_def [symmetric] demo_asked(1)] trans [OF demo_take_def [symmetric] demo_took(1)]
  trans [OF demo_steer_def [symmetric] demo_later(1)] trans [OF demo_stop_def [symmetric] demo_later(2)]
  trans [OF demo_wake_def [symmetric] demo_later(3)] trans [OF demo_complete_def [symmetric] demo_later(4)]

lemma demo_runs: "coord_run (\<lambda>t. t) [] (empty_coord (\<lambda>t. t)) (ran demo_ask)"
  "coord_run (\<lambda>t. t) [''turn-1''] (empty_coord (\<lambda>t. t)) (ran demo_take)"
proof -
  from run_one [OF Step_User_Input [OF demo_calls(1)], of "\<lambda>t. t"]
  show ask: "coord_run (\<lambda>t. t) [] (empty_coord (\<lambda>t. t)) (ran demo_ask)" by simp
  from Run_Step [OF ask Step_Take [OF demo_calls(2)], unfolded demo_took(10)]
  show "coord_run (\<lambda>t. t) [''turn-1''] (empty_coord (\<lambda>t. t)) (ran demo_take)" by simp
qed

lemma take_run: "coord_run (\<lambda>t. t) [''turn-1''] (ran demo_ask) (ran demo_take)"
  using run_one [OF Step_Take [OF demo_calls(2)], unfolded demo_took(10)] by simp

subsection \<open>Safety of the turns\<close>

text \<open>C20: A STOP is final.  Once \<open>ingestStop\<close> has recorded a STOP under a new id, then after any further
  interleaving of operations of any coordinators of the session, restarts included, no wake is pending,
  no response is current (so none is dispatched, completed or failed) and no turn can be taken.\<close>

theorem stop_is_final:
  assumes "coord_run sha js (empty_coord sha) m" "stop_mutator i why at clk f m = (f', Inr (m1, r))" "map_of (input_seqs m) i = None"
    "coord_run sha ks m1 m2"
  shows "stopped m2 \<noteq> None \<and> pending_wake m2 = None \<and> \<not> model_active m2 \<and> (\<forall>k. submission_current m2 k = Inl ''STOP_FENCED'') \<and>
    take_turn_mutator sha sess sub at' clk' g m2 = (g, Inl stop_fenced_fault)"
proof -
  have ok: "coord_ok sha m" by (rule coord_run_ok [OF assms(1)])
  have ok1: "coord_ok sha m1" using stop_keeps [OF ok assms(2)] by (simp add: step_keeps_def)
  have stopped: "stopped m2 \<noteq> None" by (rule stopped_stays [OF assms(4) ok1 stop_mutator_stops [OF assms(2,3)]])
  moreover have "coord_ok sha m2" by (rule coord_run_keeps(1) [OF assms(4) ok1])
  ultimately show ?thesis using stopped_refuses [OF stopped] by (simp add: coord_ok_def fence_ok_def)
qed

theorem stop_is_final_witness:
  "submission_current (ran demo_stop) ''turn-1'' = Inl ''STOP_FENCED'' \<and>
     take_turn_mutator (\<lambda>t. t) ''session'' None (demo_clock 0) demo_clock None (ran demo_stop) = (None, Inl stop_fenced_fault)"
  using stop_is_final [OF demo_runs(2) demo_calls(4) _ Run_Stay] by (simp add: demo_state)

text \<open>C21: Steering fences the running turn.  After user input was accepted under a new id, no response of a
  turn offered before is ever accepted again: it is not current, and completing or failing it changes
  nothing, unless a later turn is offered under the very same submission id.\<close>

theorem steered_turns_are_never_accepted:
  assumes "coord_run sha js (empty_coord sha) m" "user_input_mutator i payload at now clk f m = (f', Inr (m1, r))"
    "map_of (input_seqs m) i = None" "stopped m = None" "coord_run sha ks m1 m2" "k \<notin> set ks"
  shows "\<exists>why. submission_current m2 k = Inl why \<and> complete_turn_mutator p k at' now' clk' g m2 = (g, Inr (m2, refused_turn why)) \<and>
    fail_turn_mutator k err clk' g m2 = (g, Inr (m2, refused_turn why))"
proof -
  have ok1: "coord_ok sha m1" using user_input_keeps [OF coord_run_ok [OF assms(1)] assms(2)] by (simp add: step_keeps_def)
  have "\<not> turn_current m2 k"
    using coord_run_keeps(3) [OF assms(5) ok1, of k] steering_ends_the_turn [OF assms(2-4), of k] assms(6) by blast
  from not_current_refused [OF this] show ?thesis using refused_response by blast
qed

theorem steered_turns_are_never_accepted_witness:
  "\<exists>why. submission_current (ran demo_steer) ''turn-1'' = Inl why \<and>
     fail_turn_mutator ''turn-1'' JNull demo_clock None (ran demo_steer) = (None, Inr (ran demo_steer, refused_turn why))"
  using steered_turns_are_never_accepted [OF demo_runs(2) demo_calls(3) _ demo_took(3) Run_Stay, of "''turn-1''"]
  by (simp add: demo_state) blast

text \<open>C22: Accepted user input is never forgotten.  In every reachable document that is not stopped, each user
  input is covered by a finished turn or by the turn that is running, or whoever asks for the next turn
  under a usable id gets one that covers it.\<close>

theorem accepted_input_gets_a_turn:
  assumes "coord_run sha ks (empty_coord sha) m" "e \<in> set (ingress m)" "ingress_kind e = USER_INPUT" "stopped m = None" "nonblank k"
  shows "ingress_seq e \<le> last_turn_seq m \<or> (\<exists>s. current_submission m = Some s \<and> submission_status s = ACTIVE \<and> ingress_seq e \<le> covered_seq s) \<or>
    (\<exists>m' offer s. take_turn_mutator sha sess (Some k) at clk f m = (f, Inr (m', offer)) \<and> offered offer = Some s \<and> submission_id s = k \<and>
       submission_current m' k = Inr s \<and> ingress_seq e \<le> covered_seq s)"
proof -
  have ok: "coord_ok sha m" by (rule coord_run_ok [OF assms(1)])
  show ?thesis
  proof (cases "model_active m")
    case True
    then obtain s where s: "current_submission m = Some s" "submission_status s = ACTIVE" by (auto dest: model_activeD)
    have "pending_wake m = None" using ok True by (simp add: coord_ok_def fence_ok_def)
    then have "coord_reach m = max (last_turn_seq m) (max 0 (covered_seq s))" by (simp add: coord_reach_def wake_reach_def active_reach_def s)
    moreover have "ingress_seq e \<le> coord_reach m" "1 \<le> ingress_seq e"
      using ok assms(2-4) ledger_bound [of m e] by (simp_all add: coord_ok_def inputs_reached_def)
    ultimately show ?thesis using s by (auto split: if_splits)
  next
    case False
    then show ?thesis using unanswered_gets_turn [OF ok assms(2-4) False _ assms(5)] by (meson not_le)
  qed
qed

theorem accepted_input_gets_a_turn_witness:
  "\<exists>m' offer s. take_turn_mutator (\<lambda>t. t) ''session'' (Some ''turn-1'') (demo_clock 0) demo_clock None (ran demo_ask) = (None, Inr (m', offer)) \<and>
     offered offer = Some s \<and> submission_id s = ''turn-1'' \<and> submission_current m' ''turn-1'' = Inr s \<and> 1 \<le> covered_seq s"
proof -
  obtain e where e: "e \<in> set (ingress (ran demo_ask))" "ingress_kind e = USER_INPUT" "ingress_seq e = 1"
    and m: "stopped (ran demo_ask) = None" "last_turn_seq (ran demo_ask) = 0" "current_submission (ran demo_ask) = None"
    by (auto simp: demo_ask_def demo_defs last_turn_seq_def)
  have k: "nonblank ''turn-1''" by (simp add: nonblank_iff js_space_def)
  show ?thesis
    using accepted_input_gets_a_turn [OF demo_runs(1) e(1,2) m(1) k, of "''session''" "demo_clock 0" demo_clock None] e m by simp
qed

text \<open>Repeated input is harmless.  Delivering an accepted user input again, under the same id and with the
  same payload, after any interleaving of other operations, is reported as a duplicate with the original
  entry and leaves everything but a counter as it was; a payload with another digest is refused.\<close>

theorem repeated_input_is_a_duplicate:
  assumes "coord_run sha js (empty_coord sha) m" "user_input_mutator k payload at now clk f m = (f', Inr (m1, r))"
    "map_of (input_seqs m) k = None" "coord_run sha ks m1 m2"
  shows "user_input_mutator k payload at' now' clk' g m2 = (g, Inr (skip_input m2, ingested (got_entry r) True (pending_wake m2) m2)) \<and>
    (payload_digest other \<noteq> payload_digest payload \<longrightarrow> (\<exists>e. user_input_mutator k other at' now' clk' g m2 = (g, Inl e)))"
proof -
  have ok1: "coord_ok sha m1" using user_input_keeps [OF coord_run_ok [OF assms(1)] assms(2)] by (simp add: step_keeps_def)
  note a = user_input_accepted [OF assms(2,3)]
  from a(3) obtain e where e: "got_entry r = Some e" "e \<in> set (ingress m1)" "ingress_seq e = next_ingress m" by blast
  have ev: "coord_evolves m1 m2" and ok2: "coord_ok sha m2" using coord_run_keeps [OF assms(4) ok1] by blast+
  have known: "map_of (input_seqs m2) k = Some (ingress_seq e)" "map_of (input_digests m2) k = Some (payload_digest payload)"
    using ev a(1,2) e(3) by (simp_all add: coord_evolves_def)
  have "e \<in> set (ingress m2)" using ev e(2) by (auto simp: coord_evolves_def)
  then have "entry_at m2 (ingress_seq e) = Some e" using entry_found ok2 by (simp add: coord_ok_def)
  then show ?thesis using known e(1) by (simp add: user_input_mutator_def)
qed

theorem repeated_input_is_a_duplicate_witness:
  "user_input_mutator ''input-1'' (JStr ''hello'') (demo_clock 0) 7 demo_clock None (ran demo_take) = (None, Inr (skip_input (ran demo_take),
     ingested (got_entry (snd (projr (snd demo_ask)))) True (pending_wake (ran demo_take)) (ran demo_take)))"
  using repeated_input_is_a_duplicate [OF Run_Stay demo_calls(1) _ take_run] by (simp add: empty_coord_def)

subsection \<open>What the model has seen\<close>

text \<open>C24: The committed context is append-only.  Whatever the coordinators of a session do, the bytes of the
  committed prefix the model was shown stay a prefix of what it is shown later, which is what
  \<open>assertCommittedPrefixStable\<close> checks, and no transition is ever shown twice.\<close>

theorem committed_context_is_append_only:
  assumes "coord_run sha js (empty_coord sha) m" "coord_run sha ks m m'"
  shows "assert_committed_prefix_stable sha (projection_bytes (committed_items (async_context m))) (async_context m') = Inr () \<and>
    distinct (map ai_transition (committed_items (async_context m')))"
proof -
  have ok: "coord_ok sha m" by (rule coord_run_ok [OF assms(1)])
  have a: "async_ok sha (async_context m')" by (rule async_part [OF coord_run_keeps(1) [OF assms(2) ok]])
  have "async_evolves (async_context m) (async_context m')" using coord_run_keeps(2) [OF assms(2) ok] by (simp add: coord_evolves_def)
  from evolves_prefix_stable [OF a this] async_okD(2) [OF a] show ?thesis by (simp add: all_items_def)
qed

theorem committed_context_is_append_only_witness:
  "assert_committed_prefix_stable (\<lambda>t. t) (projection_bytes (committed_items (async_context (ran demo_ask)))) (async_context (ran demo_take)) = Inr ()"
  using committed_context_is_append_only [OF demo_runs(1) take_run] by simp



subsection \<open>Every operation is one step\<close>





subsection \<open>Behaviour the documentation does not mean\<close>

text \<open>C38: An explicit wake that arrives during a turn is lost.  It is recorded "for the next turn", but no wake is
  made: once the turn completes and nothing else is staged, the liveness inspection reports pending work
  that no drain wakes for and no request for a turn answers, however late, until something else arrives.\<close>

theorem wake_during_a_turn_is_lost:
  assumes "submission_current m s = Inr x" "pending_wake m = None" "burst m = no_burst" "staged_items (async_context m) = []"
    "map_of (input_seqs m) k = None" "covered_seq x < next_ingress m"
    "explicit_wake_mutator k why at now clk f m = (f1, Inr (m1, r1))" "complete_turn_mutator p s at' now' clk' f1 m1 = (f2, Inr (m2, a))"
  shows "answer_accepted a \<and> live_pending (inspect_liveness m2) \<and> live_uncommitted (inspect_liveness m2) \<and>
    (\<exists>d. drain_mutator p at2 now2 clk2 g m2 = (g, Inr (m2, d)) \<and> drained_wake d = None) \<and>
    take_turn_mutator sha sess sub at2 clk2 g m2 = (g, Inr (m2, \<lparr>offered = None, offered_items = []\<rparr>))"
proof -
  note x = assms(1) [unfolded submission_current_Inr]
  obtain e where a: "accept_input EXPLICIT_WAKE k (JObj [(''reason'', text_or_null why)]) at m = (m1, e)"
    using assms(5,7) x by (auto simp: explicit_wake_mutator_def plain_def accept_input_simps model_active_def split: prod.splits if_splits)
  note s = accept_input_simps [OF a]
  have m1: "submission_current m1 s = Inr x" using x by (simp add: submission_current_Inr s)
  have m2: "m2 = (close_turn x at' False JNull m1)\<lparr>quick_grace := (if 0 < quick_grace_ms p then Some (now' + quick_grace_ms p) else None)\<rparr>"
    "answer_accepted a"
    using assms(8) by (auto simp: complete_turn_mutator_def plain_def m1)
  have f2: "stopped m2 = None" "\<not> model_active m2" "pending_wake m2 = None" "burst m2 = no_burst" "async_context m2 = async_context m"
    "last_turn_seq m2 = covered_seq x" "next_ingress m2 = next_ingress m + 1"
    using x assms(2,3) by (simp_all add: m2 close_turn_def s model_active_def last_turn_seq_def)
  show ?thesis
    using m2(2) f2 assms(4,6)
    by (simp add: inspect_liveness_def Let_def drain_mutator_def plain_def take_turn_mutator_def no_burst_def)
qed

theorem wake_during_a_turn_is_lost_witness:
  "live_pending (inspect_liveness (ran demo_complete)) \<and>
     take_turn_mutator (\<lambda>t. t) ''session'' None (demo_clock 0) demo_clock None (ran demo_complete) =
       (None, Inr (ran demo_complete, \<lparr>offered = None, offered_items = []\<rparr>))"
  using wake_during_a_turn_is_lost [OF demo_took(8,4,5,6) _ _ demo_calls(5,6)] by (simp add: demo_state)

text \<open>C39: A STOP under an id already used is dropped.  The documentation says that a conflicting reuse of an input
  id fails closed; \<open>ingestStop\<close> treats it as a duplicate without looking at what was accepted: no fence is
  recorded, and the running turn goes on.\<close>

theorem reused_input_id_drops_stop:
  assumes "map_of (input_seqs m) k = Some q" "stopped m = None"
  shows "\<exists>r. stop_mutator k why at clk f m = (f, Inr (skip_input m, r)) \<and> got_duplicate r \<and> got_fence r = None \<and>
    stopped (skip_input m) = None \<and> submission_current (skip_input m) j = submission_current m j"
  using assms by (simp add: stop_mutator_def skip_input_def ingested_def submission_current_def split: option.splits)

theorem reused_input_id_drops_stop_witness:
  "\<exists>r. stop_mutator ''input-1'' None (demo_clock 0) demo_clock None (ran demo_take) = (None, Inr (skip_input (ran demo_take), r)) \<and>
     submission_current (skip_input (ran demo_take)) ''turn-1'' = Inr (the (current_submission (ran demo_take)))"
  using reused_input_id_drops_stop [of "ran demo_take" "''input-1''" 1 None "demo_clock 0" demo_clock None "''turn-1''"] by (simp add: demo_state) blast

text \<open>
  The digest that tells payloads apart is a multiplicative hash of 32 bits: texts as short as two
  characters collide, and the second of them is taken for a repetition of the first.
\<close>

lemma payload_digest_collides: "payload_digest (JStr ''Aa'') = payload_digest (JStr ''BB'')"
proof -
  have "hash_step (hash_step h CHR ''A'') CHR ''a'' = hash_step (hash_step h CHR ''B'') CHR ''B''" for h
    by (simp add: hash_step_def algebra_simps)
  moreover have "stable_stringify (JStr ''Aa'') = CHR 0x22 # ''Aa'' @ [CHR 0x22]" "stable_stringify (JStr ''BB'') = CHR 0x22 # ''BB'' @ [CHR 0x22]"
    by (simp_all add: quote_def esc_def)
  ultimately show ?thesis by (simp add: payload_digest_def Let_def)
qed

lemma colliding_payload_is_dropped:
  assumes "user_input_mutator k (JStr ''Aa'') at now clk f m = (f', Inr (m1, r))" "map_of (input_seqs m) k = None"
  shows "\<exists>r'. user_input_mutator k (JStr ''BB'') at' now' clk' g m1 = (g, Inr (skip_input m1, r')) \<and> got_duplicate r'"
  using user_input_accepted(1,2) [OF assms] by (simp add: user_input_mutator_def payload_digest_collides ingested_def)

end
