(* ===== verification/Core_Contracts.thy ===== *)
theory Core_Contracts
  imports Session_Store Js_Values
begin

section \<open>Contracts of the search harness\<close>

text \<open>
  The data the core harness of \<open>packages/core-harness/src\<close> keeps of a search, and the functions
  that admit values from outside into it: \<open>contracts.js\<close> (candidates, evaluations, knowledge,
  interventions, doses), \<open>verification.js\<close>, \<open>observation.js\<close>, \<open>runtime-execution.js\<close> and
  \<open>variation.js\<close>.  What a port answers is a \<open>jsval\<close>; what passes a check is a record.
\<close>

subsection \<open>Candidates\<close>

record candidate =
  cand_id :: string
  cand_version :: string

definition normalize_candidate :: "jsval \<Rightarrow> candidate res" where
  "normalize_candidate v =
     rbind (invariant (is_object v) ''candidate is required'') (\<lambda>_.
     rbind (require_text (or_null (opt_member v ''id'')) ''candidate.id'') (\<lambda>i.
     rbind (require_text (or_null (opt_member v ''version'')) ''candidate.version'') (\<lambda>n.
       Inr \<lparr>cand_id = i, cand_version = n\<rparr>)))"

definition candidate_key :: "candidate \<Rightarrow> string" where
  "candidate_key c = cand_id c @ ''@'' @ cand_version c"

text \<open>\<open>sameCandidate\<close> of a candidate of the session and a value from outside.\<close>

definition same_candidate :: "candidate \<Rightarrow> jsval \<Rightarrow> bool res" where
  "same_candidate c v =
     (if truthy v then rbind (normalize_candidate v) (\<lambda>d. Inr (candidate_key c = candidate_key d)) else Inr False)"

definition candidate_json :: "candidate \<Rightarrow> json" where
  "candidate_json c = JObj [(''id'', JStr (cand_id c)), (''version'', JStr (cand_version c))]"

definition candidate_or_null :: "candidate option \<Rightarrow> json" where
  "candidate_or_null c = (case c of None \<Rightarrow> JNull | Some x \<Rightarrow> candidate_json x)"

definition candidate_ok :: "candidate \<Rightarrow> bool" where
  "candidate_ok c \<longleftrightarrow> nonblank (cand_id c) \<and> nonblank (cand_version c)"

lemma or_null_text [simp]: "or_null v = JStr s \<longleftrightarrow> v = Some (JStr s)"
  by (auto simp: or_default_def nullish_def)

lemma normalize_candidate_Inr:
  "normalize_candidate v = Inr c \<Longrightarrow> candidate_ok c \<and> opt_member v ''id'' = Some (JStr (cand_id c)) \<and>
     opt_member v ''version'' = Some (JStr (cand_version c))"
  by (auto simp: normalize_candidate_def candidate_ok_def)

lemma normalize_candidate_ok: "normalize_candidate v = Inr c \<Longrightarrow> candidate_ok c"
  using normalize_candidate_Inr by blast

lemma normalize_candidate_json [simp]: "candidate_ok c \<Longrightarrow> normalize_candidate (Some (candidate_json c)) = Inr c"
  by (simp add: normalize_candidate_def candidate_json_def candidate_ok_def is_object_def invariant_def or_default_def nullish_def)

lemma same_candidate_json [simp]:
  "candidate_ok d \<Longrightarrow> same_candidate c (Some (candidate_json d)) = Inr (candidate_key c = candidate_key d)"
  by (simp add: same_candidate_def) (simp add: candidate_json_def truthy_def)

subsection \<open>Evaluations\<close>

datatype validity = VALID | INVALID | EVALUATION_INCONCLUSIVE

datatype verdict = VERDICT_PASS | GAP | BLOCKED

definition parse_validity :: "jsval \<Rightarrow> validity option" where
  "parse_validity v = map_of [(JStr ''VALID'', VALID), (JStr ''INVALID'', INVALID), (JStr ''INCONCLUSIVE'', EVALUATION_INCONCLUSIVE)] (or_null v)"

definition parse_verdict :: "jsval \<Rightarrow> verdict option" where
  "parse_verdict v = map_of [(JStr ''PASS'', VERDICT_PASS), (JStr ''GAP'', GAP), (JStr ''BLOCKED'', BLOCKED)] (or_null v)"

definition validity_text :: "validity \<Rightarrow> string" where
  "validity_text v = (case v of VALID \<Rightarrow> ''VALID'' | INVALID \<Rightarrow> ''INVALID'' | EVALUATION_INCONCLUSIVE \<Rightarrow> ''INCONCLUSIVE'')"

definition verdict_text :: "verdict \<Rightarrow> string" where
  "verdict_text v = (case v of VERDICT_PASS \<Rightarrow> ''PASS'' | GAP \<Rightarrow> ''GAP'' | BLOCKED \<Rightarrow> ''BLOCKED'')"

record evaluation_result =
  res_validity :: validity
  res_verdict :: "verdict option"
  res_findings :: "json list"
  res_evidence :: "json list"
  res_metadata :: json

text \<open>\<open>[...(x ?? [])]\<close>.\<close>

definition spread :: "jsval \<Rightarrow> json list res" where
  "spread v = js_iterate (or_default v (JArr []))"

definition validate_evaluation :: "jsval \<Rightarrow> evaluation_result res" where
  "validate_evaluation v =
     rbind (invariant (is_object v) ''evaluation result is required'') (\<lambda>_.
     case parse_validity (opt_member v ''validity'') of
       None \<Rightarrow> Inl (Invariant ''evaluation validity is invalid'')
     | Some va \<Rightarrow>
         rbind (if va = VALID
                then (case parse_verdict (opt_member v ''verdict'') of
                        None \<Rightarrow> Inl (Invariant ''valid evaluation requires a verdict'')
                      | Some ve \<Rightarrow> Inr (Some ve))
                else if nullish (opt_member v ''verdict'') then Inr None
                else Inl (Invariant ''invalid or inconclusive evaluation must not certify a verdict'')) (\<lambda>ve.
         rbind (spread (opt_member v ''findings'')) (\<lambda>fs.
         rbind (spread (opt_member v ''evidence'')) (\<lambda>es.
           Inr \<lparr>res_validity = va, res_verdict = ve, res_findings = fs, res_evidence = es,
                res_metadata = or_null (opt_member v ''metadata'')\<rparr>))))"

lemma validate_evaluation_Inr:
  "validate_evaluation v = Inr r \<Longrightarrow> (res_validity r = VALID \<longleftrightarrow> res_verdict r \<noteq> None)"
  by (auto simp: validate_evaluation_def split: option.splits if_splits)

subsection \<open>Knowledge\<close>

datatype knowledge_kind = HYPOTHESIS | FINDING | FAILED_DIRECTION | DECISION

datatype knowledge_scope = CANDIDATE_SCOPE | LINEAGE_SCOPE | SESSION_SCOPE

datatype relation_type = SUPPORTS | CONTRADICTS | DERIVED_FROM | SUPERSEDES

record knowledge_relation =
  rel_type :: relation_type
  rel_target :: string

record knowledge_draft =
  kn_kind :: knowledge_kind
  kn_statement :: string
  kn_evidence :: "json list"
  kn_feedback :: "string list"
  kn_relations :: "knowledge_relation list"
  kn_tags :: "string list"
  kn_scope :: knowledge_scope
  kn_base :: json

definition parse_knowledge_kind :: "jsval \<Rightarrow> knowledge_kind option" where
  "parse_knowledge_kind v = map_of [(JStr ''HYPOTHESIS'', HYPOTHESIS), (JStr ''FINDING'', FINDING),
     (JStr ''FAILED_DIRECTION'', FAILED_DIRECTION), (JStr ''DECISION'', DECISION)] (or_null v)"

definition parse_scope :: "json \<Rightarrow> knowledge_scope option" where
  "parse_scope v = map_of [(JStr ''CANDIDATE'', CANDIDATE_SCOPE), (JStr ''LINEAGE'', LINEAGE_SCOPE), (JStr ''SESSION'', SESSION_SCOPE)] v"

definition parse_relation_type :: "jsval \<Rightarrow> relation_type option" where
  "parse_relation_type v = map_of [(JStr ''SUPPORTS'', SUPPORTS), (JStr ''CONTRADICTS'', CONTRADICTS),
     (JStr ''DERIVED_FROM'', DERIVED_FROM), (JStr ''SUPERSEDES'', SUPERSEDES)] (or_null v)"

definition normalize_relation :: "json \<Rightarrow> knowledge_relation res" where
  "normalize_relation v =
     rbind (invariant (is_object (Some v)) ''knowledge relation is required'') (\<lambda>_.
     case parse_relation_type (opt_member (Some v) ''type'') of
       None \<Rightarrow> Inl (Invariant ''knowledge relation type is invalid'')
     | Some t \<Rightarrow> rbind (require_text (or_null (opt_member (Some v) ''targetId'')) ''knowledge relation targetId'') (\<lambda>k.
         Inr \<lparr>rel_type = t, rel_target = k\<rparr>))"

text \<open>Kind, statement, scope and the lists, in the order both \<open>contracts.js\<close> and \<open>knowledge.js\<close> read them.\<close>

definition normalize_knowledge :: "jsval \<Rightarrow> knowledge_draft res" where
  "normalize_knowledge v =
     rbind (invariant (is_object v) ''knowledge record is required'') (\<lambda>_.
     case parse_knowledge_kind (opt_member v ''kind'') of
       None \<Rightarrow> Inl (Invariant ''knowledge kind is invalid'')
     | Some k \<Rightarrow>
     rbind (require_text (or_null (opt_member v ''statement'')) ''knowledge.statement'') (\<lambda>s.
     case parse_scope (or_default (opt_member v ''scope'') (JStr ''CANDIDATE'')) of
       None \<Rightarrow> Inl (Invariant ''knowledge scope is invalid'')
     | Some sc \<Rightarrow>
     rbind (spread (opt_member v ''evidence'')) (\<lambda>es.
     rbind (rbind (spread (opt_member v ''feedbackRefs'')) (map_res (\<lambda>x. require_text x ''knowledge feedbackRef''))) (\<lambda>fs.
     rbind (rbind (spread (opt_member v ''relations'')) (map_res normalize_relation)) (\<lambda>rs.
     rbind (rbind (js_array (Some (or_default (opt_member v ''tags'') (JArr [])))) (map_res (\<lambda>x. require_text x ''knowledge tag''))) (\<lambda>ts.
     let grounded = es \<noteq> [] \<or> fs \<noteq> [] in
     rbind (invariant (k \<in> {FINDING, FAILED_DIRECTION} \<longrightarrow> grounded)
              (if k = FINDING then ''finding requires evidence or feedbackRefs'' else ''failed_direction requires evidence or feedbackRefs'')) (\<lambda>_.
     rbind (invariant ((\<exists>r \<in> set rs. rel_type r = SUPERSEDES) \<longrightarrow> grounded) ''superseding knowledge requires evidence or feedbackRefs'') (\<lambda>_.
       Inr \<lparr>kn_kind = k, kn_statement = s, kn_evidence = es, kn_feedback = fs, kn_relations = rs, kn_tags = uniq ts, kn_scope = sc,
            kn_base = JNull\<rparr>))))))))"

definition validate_knowledge_record :: "jsval \<Rightarrow> knowledge_draft res" where
  "validate_knowledge_record v =
     rbind (normalize_knowledge v) (\<lambda>d. Inr (d\<lparr>kn_base := or_null (opt_member v ''lineageBase'')\<rparr>))"

subsection \<open>Supervision and dosage\<close>

definition validate_intervention :: "jsval \<Rightarrow> (string \<times> json) option res" where
  "validate_intervention v =
     (if nullish v then Inr None
      else
        rbind (invariant (is_object v) ''supervisor intervention must be an object or null'') (\<lambda>_.
        rbind (invariant (nullish (opt_member v ''verdict'')) ''supervisor cannot issue correctness verdicts'') (\<lambda>_.
        rbind (invariant (nullish (opt_member v ''candidate'') \<and> nullish (opt_member v ''mutated'') \<and> nullish (opt_member v ''mutation''))
                 ''supervisor cannot mutate candidate state'') (\<lambda>_.
        rbind (require_text (or_null (opt_member v ''reason'')) ''supervisor intervention reason'') (\<lambda>why.
          Inr (Some (why, or_null (opt_member v ''guidance''))))))))"

record dose_decision =
  dose_enabled :: bool
  dose_amount :: json
  dose_reason :: string

definition validate_dose :: "jsval \<Rightarrow> dose_decision res" where
  "validate_dose v =
     rbind (invariant (is_object v) ''dosage decision is required'') (\<lambda>_.
     case opt_member v ''enabled'' of
       Some (JBool on) \<Rightarrow>
         rbind (require_text (or_null (opt_member v ''reason'')) ''dosage decision reason'') (\<lambda>why.
         rbind (invariant (on \<longrightarrow> \<not> nullish (opt_member v ''dose'')) ''enabled practice requires an explicit dose'') (\<lambda>_.
           Inr \<lparr>dose_enabled = on, dose_amount = (if on then or_null (opt_member v ''dose'') else JNull), dose_reason = why\<rparr>))
     | _ \<Rightarrow> Inl (Invariant ''dosage decision requires enabled boolean''))"

subsection \<open>Verification records\<close>

datatype verification_status = VERIFIED_PASS | VERIFIED_FAIL | VERIFIED_INCONCLUSIVE

datatype source_kind = MANUAL | CAPABILITY

definition parse_verification_status :: "jsval \<Rightarrow> verification_status option" where
  "parse_verification_status v =
     map_of [(JStr ''PASS'', VERIFIED_PASS), (JStr ''FAIL'', VERIFIED_FAIL), (JStr ''INCONCLUSIVE'', VERIFIED_INCONCLUSIVE)] (or_null v)"

definition verification_status_text :: "verification_status \<Rightarrow> string" where
  "verification_status_text s = (case s of VERIFIED_PASS \<Rightarrow> ''PASS'' | VERIFIED_FAIL \<Rightarrow> ''FAIL'' | VERIFIED_INCONCLUSIVE \<Rightarrow> ''INCONCLUSIVE'')"

definition parse_source_kind :: "jsval \<Rightarrow> source_kind option" where
  "parse_source_kind v = map_of [(JStr ''MANUAL'', MANUAL), (JStr ''CAPABILITY'', CAPABILITY)] (or_null v)"

definition source_kind_text :: "source_kind \<Rightarrow> string" where
  "source_kind_text k = (case k of MANUAL \<Rightarrow> ''MANUAL'' | CAPABILITY \<Rightarrow> ''CAPABILITY'')"

record verification_record =
  vr_candidate :: candidate
  vr_claim :: string
  vr_status :: verification_status
  vr_evidence :: "json list"
  vr_summary :: json
  vr_details :: json
  vr_request :: json
  vr_source :: source_kind
  vr_name :: json

definition normalize_verification_record :: "jsval \<Rightarrow> verification_record res" where
  "normalize_verification_record v =
     rbind (invariant (is_object v) ''verification record is required'') (\<lambda>_.
     rbind (normalize_candidate (opt_member v ''candidate'')) (\<lambda>c.
     case parse_verification_status (opt_member v ''status'') of
       None \<Rightarrow> Inl (Invariant ''verification status is invalid'')
     | Some st \<Rightarrow>
     rbind (require_text (or_null (opt_member v ''claim'')) ''verification.claim'') (\<lambda>cl.
     rbind (spread (opt_member v ''evidence'')) (\<lambda>es.
     rbind (invariant (st = VERIFIED_INCONCLUSIVE \<or> es \<noteq> [])
              (if st = VERIFIED_PASS then ''pass verification requires evidence'' else ''fail verification requires evidence'')) (\<lambda>_.
     let src = Some (or_default (opt_member v ''source'') (JObj [(''kind'', JStr ''MANUAL'')])) in
     rbind (invariant (is_object src) ''verification.source is required'') (\<lambda>_.
     case parse_source_kind (opt_member src ''kind'') of
       None \<Rightarrow> Inl (Invariant ''verification source kind is invalid'')
     | Some k \<Rightarrow>
     rbind (if k = CAPABILITY then require_text (or_null (opt_member src ''name'')) ''verification.source.name'' else Inr []) (\<lambda>_.
       Inr \<lparr>vr_candidate = c, vr_claim = cl, vr_status = st, vr_evidence = es, vr_summary = or_null (opt_member v ''summary''),
            vr_details = or_null (opt_member v ''details''), vr_request = or_null (opt_member v ''request''), vr_source = k,
            vr_name = or_null (opt_member src ''name'')\<rparr>)))))))"

lemma normalize_verification_Inr:
  assumes "normalize_verification_record v = Inr r"
  shows "nonblank (vr_claim r)" "vr_status r \<noteq> VERIFIED_INCONCLUSIVE \<Longrightarrow> vr_evidence r \<noteq> []" "candidate_ok (vr_candidate r)"
    "normalize_candidate (opt_member v ''candidate'') = Inr (vr_candidate r)"
proof -
  have "normalize_candidate (opt_member v ''candidate'') = Inr (vr_candidate r) \<and> nonblank (vr_claim r) \<and>
      (vr_status r \<noteq> VERIFIED_INCONCLUSIVE \<longrightarrow> vr_evidence r \<noteq> [])"
    using assms by (auto simp: normalize_verification_record_def Let_def split: option.splits)
  then show "nonblank (vr_claim r)" "vr_status r \<noteq> VERIFIED_INCONCLUSIVE \<Longrightarrow> vr_evidence r \<noteq> []" "candidate_ok (vr_candidate r)"
    "normalize_candidate (opt_member v ''candidate'') = Inr (vr_candidate r)"
    using normalize_candidate_ok by blast+
qed

subsection \<open>Observations\<close>

record runtime_execution =
  run_call :: string
  run_turn :: "int option"
  run_trace :: "(string \<times> string) option"

definition define_runtime_execution :: "jsval \<Rightarrow> runtime_execution res" where
  "define_runtime_execution v =
     rbind (invariant (is_object v) ''runtime execution metadata is required'') (\<lambda>_.
     rbind (require_text (or_null (opt_member v ''callId'')) ''runtime execution callId'') (\<lambda>call.
     rbind (if nullish (opt_member v ''turn'') then Inr None
            else case opt_member v ''turn'' of
              Some (JNum n) \<Rightarrow> rbind (invariant (0 < n) ''runtime execution turn must be a positive integer'') (\<lambda>_. Inr (Some n))
            | _ \<Rightarrow> Inl (Invariant ''runtime execution turn must be a positive integer'')) (\<lambda>turn.
     rbind (let t = opt_member v ''trace'' in
            if nullish t then Inr None
            else rbind (invariant (is_object t) ''runtime execution trace must be an object'') (\<lambda>_.
              rbind (require_text (or_null (opt_member t ''traceId'')) ''runtime execution traceId'') (\<lambda>a.
              rbind (require_text (or_null (opt_member t ''spanId'')) ''runtime execution spanId'') (\<lambda>b. Inr (Some (a, b)))))) (\<lambda>trace.
       Inr \<lparr>run_call = call, run_turn = turn, run_trace = trace\<rparr>))))"

record observation =
  obs_id :: string
  obs_candidate :: candidate
  obs_at :: string
  obs_request :: json
  obs_value :: jsval
  obs_session :: string
  obs_variation :: "string option"
  obs_runtime :: "runtime_execution option"

definition define_observation ::
  "string \<Rightarrow> candidate \<Rightarrow> string \<Rightarrow> json \<Rightarrow> jsval \<Rightarrow> string \<Rightarrow> string option \<Rightarrow> jsval \<Rightarrow> observation res" where
  "define_observation i c at req v sess var runtime =
     rbind (require_text (JStr i) ''observation id'') (\<lambda>_.
     rbind (require_text (JStr at) ''observation at'') (\<lambda>_.
     rbind (require_text (JStr sess) ''observation provenance sessionId'') (\<lambda>_.
     rbind (case var of None \<Rightarrow> Inr [] | Some k \<Rightarrow> require_text (JStr k) ''observation provenance variationId'') (\<lambda>_.
     rbind (if nullish runtime then Inr None else map_sum id Some (define_runtime_execution runtime)) (\<lambda>r.
       Inr \<lparr>obs_id = i, obs_candidate = c, obs_at = at, obs_request = req, obs_value = v, obs_session = sess, obs_variation = var,
            obs_runtime = r\<rparr>)))))"

subsection \<open>Variations\<close>

datatype variation_status = RUNNING_VARIATION | COMPLETED_VARIATION

datatype variation_outcome = COMMITTED | CANDIDATE_CHANGED | SEARCH_STATE_CHANGED | NO_CHANGE

datatype variation_termination = RETURNED | BUDGET_EXHAUSTED | INTERRUPTED | FAILED_TERMINATION

record activity_snapshot =
  snap_candidate :: candidate
  snap_lineage :: nat
  snap_implementations :: nat
  snap_observations :: nat
  snap_verifications :: nat
  snap_evaluations :: nat
  snap_knowledge :: nat
  snap_failed_directions :: nat
  snap_interventions :: nat
  snap_events :: nat

record variation_activity =
  candidate_changed :: bool
  lineage_advanced :: bool
  implementations_added :: int
  observations_added :: int
  verifications_added :: int
  evaluations_added :: int
  knowledge_added :: int
  failed_directions_added :: int
  interventions_added :: int
  events_added :: int

definition activity_delta :: "activity_snapshot \<Rightarrow> activity_snapshot \<Rightarrow> variation_activity" where
  "activity_delta a b =
     \<lparr>candidate_changed = (cand_id (snap_candidate a) \<noteq> cand_id (snap_candidate b) \<or> cand_version (snap_candidate a) \<noteq> cand_version (snap_candidate b)),
      lineage_advanced = (snap_lineage a < snap_lineage b),
      implementations_added = int (snap_implementations b) - int (snap_implementations a),
      observations_added = int (snap_observations b) - int (snap_observations a),
      verifications_added = int (snap_verifications b) - int (snap_verifications a),
      evaluations_added = int (snap_evaluations b) - int (snap_evaluations a),
      knowledge_added = int (snap_knowledge b) - int (snap_knowledge a),
      failed_directions_added = int (snap_failed_directions b) - int (snap_failed_directions a),
      interventions_added = int (snap_interventions b) - int (snap_interventions a),
      events_added = int (snap_events b) - int (snap_events a)\<rparr>"

definition classify_outcome :: "variation_activity \<Rightarrow> variation_outcome" where
  "classify_outcome a =
     (if lineage_advanced a then COMMITTED
      else if candidate_changed a then CANDIDATE_CHANGED
      else if 0 < observations_added a \<or> 0 < verifications_added a \<or> 0 < evaluations_added a \<or> 0 < knowledge_added a \<or> 0 < interventions_added a
      then SEARCH_STATE_CHANGED else NO_CHANGE)"

end
