(* ===== verification/Core_Harness.thy ===== *)
theory Core_Harness
  imports Core_Contracts
begin

section \<open>The core harness\<close>

text \<open>
  \<open>packages/core-harness/src/core-harness.js\<close> and \<open>state.js\<close>: the durable state of a search (the
  candidate being worked on, what was observed, verified and evaluated of it, the committed lineage, the
  running variation) and the operations on it.  Each operation loads the session document, asks its ports
  (environment, evaluator, supervisor, context projector, dosage policy) and saves the document, which
  the store refuses when somebody else saved it meanwhile; it does not retry.

  The document is a \<open>session\<close> of \<open>Session_Store\<close>; the arrays of \<open>persistentMemory\<close> the harness works on, the
  trajectory and the supervision are the fields of \<open>core_memory\<close>, for which the untyped fields of the
  session record hold the empty values they start with.  Ports are functions of what the code hands them;
  the identifiers and times an operation draws are functions of the position of the draw.
\<close>

subsection \<open>State\<close>

datatype implementation_status = BASELINE | WORKING | PROMOTED

record implementation =
  imp_candidate :: candidate
  imp_parent :: "candidate option"
  imp_base :: "candidate option"
  imp_status :: implementation_status
  imp_created :: string
  imp_promoted :: "string option"

record verification =
  ver_id :: string
  ver_at :: string
  ver_record :: verification_record

record evaluation =
  eval_id :: string
  eval_candidate :: candidate
  eval_at :: string
  eval_verifications :: "string list"
  eval_result :: evaluation_result

record knowledge_item =
  item_id :: string
  item_candidate :: candidate
  item_at :: string
  item_draft :: knowledge_draft

record variation =
  var_id :: string
  var_status :: variation_status
  var_outcome :: "variation_outcome option"
  var_termination :: "variation_termination option"
  var_started :: string
  var_completed :: "string option"
  var_base :: candidate
  var_lineage_base :: "candidate option"
  var_problem :: json
  var_request :: json
  var_policy :: json
  var_start :: "activity_snapshot option"
  var_end :: "activity_snapshot option"
  var_activity :: "variation_activity option"
  var_calls :: int
  var_failure :: json

record lineage_entry =
  line_status :: implementation_status
  line_candidate :: candidate
  line_parent :: "candidate option"
  line_implementation :: "candidate option"
  line_evaluation :: "string option"
  line_verifications :: "string list"
  line_at :: string

record harness_event =
  evt_id :: string
  evt_type :: string
  evt_at :: string
  evt_candidate :: candidate
  evt_payload :: "(string \<times> json) list"

record intervention =
  int_id :: string
  int_at :: string
  int_candidate :: candidate
  int_reason :: string
  int_guidance :: json

record last_decision =
  dec_event :: string
  dec_practice :: string
  dec_dose :: dose_decision

record supervision_state =
  inspections :: int
  skipped :: int
  interventions :: "intervention list"
  last_inspected :: "string option"
  last_dose :: "last_decision option"

text \<open>What a decision of \<open>search-investment.js\<close> was based on, and what it says.\<close>

datatype search_state = WARMUP | IN_RANGE | DIMINISHING_RETURNS | ANOMALOUS | INSUFFICIENT_DATA

datatype search_action = CONTINUE_SEARCH | STOP_SEARCH | ESCALATE_SEARCH

record search_snapshot =
  seen_candidate :: string
  seen_head :: "string option"
  seen_observations :: "string list"
  seen_verifications :: "string list"
  seen_evaluations :: "string list"
  seen_variations :: "string list"
  seen_knowledge :: "string list"
  seen_interventions :: "string list"

record search_policy_ref =
  pol_name :: string
  pol_revision :: string
  pol_minimum :: int
  pol_configuration :: json

record search_verdict =
  sv_state :: search_state
  sv_action :: search_action
  sv_rationale :: string
  sv_metrics :: json

record search_decision =
  sd_id :: string
  sd_at :: string
  sd_candidate :: candidate
  sd_head :: "candidate option"
  sd_policy :: search_policy_ref
  sd_snapshot :: search_snapshot
  sd_verdict :: search_verdict

record core_memory =
  current_candidate :: candidate
  implementations :: "implementation list"
  observations :: "observation list"
  verifications :: "verification list"
  evaluations :: "evaluation list"
  knowledge :: "knowledge_item list"
  variations :: "variation list"
  search_decisions :: "search_decision list"
  lineage :: "lineage_entry list"
  events :: "harness_event list"
  oversight :: supervision_state

type_synonym core_doc = "core_memory session"

definition no_supervision :: supervision_state where
  "no_supervision = \<lparr>inspections = 0, skipped = 0, interventions = [], last_inspected = None, last_dose = None\<rparr>"

definition lineage_head :: "core_memory \<Rightarrow> lineage_entry option" where
  "lineage_head m = last_opt (lineage m)"

definition head_candidate :: "core_memory \<Rightarrow> candidate option" where
  "head_candidate m = map_option line_candidate (lineage_head m)"

definition find_implementation :: "core_memory \<Rightarrow> candidate \<Rightarrow> implementation option" where
  "find_implementation m c = find (\<lambda>i. candidate_key (imp_candidate i) = candidate_key c) (implementations m)"

definition seed_memory :: "candidate \<Rightarrow> string \<Rightarrow> core_memory" where
  "seed_memory c at =
     \<lparr>current_candidate = c,
      implementations = [\<lparr>imp_candidate = c, imp_parent = None, imp_base = None, imp_status = BASELINE, imp_created = at, imp_promoted = Some at\<rparr>],
      observations = [], verifications = [], evaluations = [], knowledge = [], variations = [], search_decisions = [],
      lineage = [\<lparr>line_status = BASELINE, line_candidate = c, line_parent = None, line_implementation = None, line_evaluation = None,
                  line_verifications = [], line_at = at\<rparr>],
      events = [], oversight = no_supervision\<rparr>"

definition create_work_state :: "string \<Rightarrow> json \<Rightarrow> jsval \<Rightarrow> string \<Rightarrow> core_doc res" where
  "create_work_state i w seed at =
     rbind (require_text (JStr i) ''session.id'') (\<lambda>_.
     rbind (normalize_candidate seed) (\<lambda>c.
       Inr \<lparr>sid = i, schema_version = Some current_schema_version, revision = Some 0, work = Some w,
            memory_lists = map (\<lambda>k. (k, [])) standard_lists, memory = seed_memory c at, trajectory = Some [],
            supervision = Some default_supervision, created_at = at, updated_at = at\<rparr>))"

subsection \<open>Views\<close>

definition current_observations :: "core_memory \<Rightarrow> observation list" where
  "current_observations m = filter (\<lambda>x. candidate_key (obs_candidate x) = candidate_key (current_candidate m)) (observations m)"

definition current_verifications :: "core_memory \<Rightarrow> verification list" where
  "current_verifications m =
     filter (\<lambda>x. candidate_key (vr_candidate (ver_record x)) = candidate_key (current_candidate m)) (verifications m)"

definition current_evaluation :: "core_memory \<Rightarrow> evaluation option" where
  "current_evaluation m =
     find (\<lambda>x. candidate_key (eval_candidate x) = candidate_key (current_candidate m)) (rev (evaluations m))"

definition running_variation :: "core_memory \<Rightarrow> variation option" where
  "running_variation m = find (\<lambda>v. var_status v = RUNNING_VARIATION) (variations m)"

record control_view =
  ctl_session :: string
  ctl_work :: "json option"
  ctl_candidate :: candidate
  ctl_verification :: "verification option"
  ctl_evaluation :: "evaluation option"
  ctl_variation :: "variation option"
  ctl_head :: "lineage_entry option"
  ctl_counts :: "nat list"
  ctl_inspections :: int
  ctl_skipped :: int
  ctl_interventions :: nat
  ctl_last :: "last_decision option"

definition control_of :: "core_doc \<Rightarrow> control_view" where
  "control_of d =
     (let m = memory d in
      \<lparr>ctl_session = sid d, ctl_work = work d, ctl_candidate = current_candidate m, ctl_verification = last_opt (current_verifications m),
       ctl_evaluation = current_evaluation m, ctl_variation = last_opt (variations m), ctl_head = lineage_head m,
       ctl_counts = [length (implementations m), length (observations m), length (verifications m), length (evaluations m),
         length (knowledge m), length (variations m), length (lineage m), length (events m)],
       ctl_inspections = inspections (oversight m), ctl_skipped = skipped (oversight m),
       ctl_interventions = length (interventions (oversight m)), ctl_last = last_dose (oversight m)\<rparr>)"

record progress_view =
  prog_session :: string
  prog_work :: "json option"
  prog_memory :: core_memory

definition progress_of :: "core_doc \<Rightarrow> progress_view" where
  "progress_of d = \<lparr>prog_session = sid d, prog_work = work d, prog_memory = memory d\<rparr>"

subsection \<open>Ports\<close>

text \<open>What every port of the environment and the evaluator is told.\<close>

record port_subject =
  sub_session :: string
  sub_work :: "json option"
  sub_candidate :: candidate

definition subject_of :: "core_doc \<Rightarrow> port_subject" where
  "subject_of d = \<lparr>sub_session = sid d, sub_work = work d, sub_candidate = current_candidate (memory d)\<rparr>"

datatype practice = CONTEXT_PROJECTION | SUPERVISION

record core_ports =
  ask_observe :: "port_subject \<Rightarrow> json \<Rightarrow> jsval res"
  ask_act :: "port_subject \<Rightarrow> json \<Rightarrow> jsval res"
  ask_evaluate :: "port_subject \<Rightarrow> observation list \<Rightarrow> verification list \<Rightarrow> json \<Rightarrow> jsval res"
  ask_inspect :: "json \<Rightarrow> jsval \<Rightarrow> json \<Rightarrow> jsval res"
  ask_project :: "string \<Rightarrow> json \<Rightarrow> progress_view \<Rightarrow> json \<Rightarrow> jsval res"
  ask_dose :: "practice \<Rightarrow> json \<Rightarrow> json \<Rightarrow> control_view \<Rightarrow> jsval res"

text \<open>The draws of \<open>idFactory\<close> and \<open>clock\<close> in one operation.\<close>

record draws =
  draw_id :: "nat \<Rightarrow> string"
  draw_at :: "nat \<Rightarrow> string"

definition add_event :: "string \<Rightarrow> string \<Rightarrow> string \<Rightarrow> (string \<times> json) list \<Rightarrow> core_memory \<Rightarrow> core_memory" where
  "add_event i at type payload m =
     m\<lparr>events := events m @ [\<lparr>evt_id = i, evt_type = type, evt_at = at, evt_candidate = current_candidate m, evt_payload = payload\<rparr>]\<rparr>"

definition trigger_json :: "string \<times> string \<Rightarrow> json" where
  "trigger_json t = JObj [(''eventId'', JStr (fst t)), (''type'', JStr (snd t))]"

definition decide_dose :: "core_ports \<Rightarrow> practice \<Rightarrow> json \<Rightarrow> json \<Rightarrow> core_doc \<Rightarrow> dose_decision res" where
  "decide_dose P pr trigger problem d = rbind (ask_dose P pr trigger problem (control_of d)) validate_dose"

text \<open>\<open>inspectProgress\<close>, after the event \<open>trigger\<close>; \<open>k\<close> is the next draw.\<close>

definition inspect_progress :: "core_ports \<Rightarrow> draws \<Rightarrow> nat \<Rightarrow> string \<times> string \<Rightarrow> core_doc \<Rightarrow> (core_doc \<times> dose_decision \<times> intervention option) res" where
  "inspect_progress P D k trigger d =
     rbind (decide_dose P SUPERVISION (trigger_json trigger) JNull d) (\<lambda>dose.
       let m = memory d; o1 = (oversight m)\<lparr>last_dose := Some \<lparr>dec_event = fst trigger, dec_practice = ''SUPERVISION'', dec_dose = dose\<rparr>\<rparr> in
       if \<not> dose_enabled dose
       then Inr (d\<lparr>memory := m\<lparr>oversight := o1\<lparr>skipped := skipped o1 + 1\<rparr>\<rparr>\<rparr>, dose, None)
       else
         rbind (ask_project P ''SUPERVISOR'' (JStr ''assess whether the current search remains productive'')
                  (progress_of (d\<lparr>memory := m\<lparr>oversight := o1\<rparr>\<rparr>)) (dose_amount dose)) (\<lambda>seen.
           let o2 = o1\<lparr>inspections := inspections o1 + 1, last_inspected := Some (fst trigger)\<rparr> in
           rbind (rbind (ask_inspect P (trigger_json trigger) seen (dose_amount dose)) validate_intervention) (\<lambda>raw.
             case raw of
               None \<Rightarrow> Inr (d\<lparr>memory := m\<lparr>oversight := o2\<rparr>\<rparr>, dose, None)
             | Some (why, guidance) \<Rightarrow>
                 let x = \<lparr>int_id = draw_id D k, int_at = draw_at D k, int_candidate = current_candidate m, int_reason = why, int_guidance = guidance\<rparr>
                 in Inr (d\<lparr>memory := add_event (draw_id D (k + 1)) (draw_at D (k + 1)) ''SUPERVISOR_REDIRECTED''
                             [(''interventionId'', JStr (int_id x)), (''reason'', JStr why)]
                             (m\<lparr>oversight := o2\<lparr>interventions := interventions o2 @ [x]\<rparr>\<rparr>)\<rparr>,
                         dose, Some x))))"

subsection \<open>Loading and saving\<close>

definition load_found :: "('s, core_memory) session_store \<Rightarrow> string \<Rightarrow> 's \<Rightarrow> core_doc res" where
  "load_found ops sess st =
     rbind (op_load ops st sess) (\<lambda>found.
       case found of None \<Rightarrow> Inl (Invariant (''session not found: '' @ sess)) | Some d \<Rightarrow> Inr d)"

definition load_work :: "('s, core_memory) session_store \<Rightarrow> string \<Rightarrow> 's \<Rightarrow> core_doc res" where
  "load_work ops sess st = rbind (require_text (JStr sess) ''sessionId'') (\<lambda>_. load_found ops sess st)"

definition save_work :: "('s, core_memory) session_store \<Rightarrow> core_doc \<Rightarrow> 's \<Rightarrow> 's \<times> int option res" where
  "save_work ops d st = op_save ops st d (or_else (revision d) 0)"

definition touched :: "string \<Rightarrow> core_doc \<Rightarrow> core_doc" where
  "touched at d = d\<lparr>updated_at := at\<rparr>"

text \<open>
  An operation loads, computes \<open>step\<close> (asking its ports), stamps the document with \<open>touch\<close> and saves it;
  \<open>env\<close> are the other writers during the two waits.
\<close>

definition commit_step ::
  "('s, core_memory) session_store \<Rightarrow> string \<Rightarrow> (core_doc \<Rightarrow> core_doc) \<Rightarrow> (nat \<Rightarrow> 's \<Rightarrow> 's) \<Rightarrow> (core_doc \<Rightarrow> (core_doc \<times> 'v) res) \<Rightarrow>
     's \<Rightarrow> 's \<times> 'v res" where
  "commit_step ops sess touch env step st =
     (let st1 = env 0 st in
      case load_found ops sess st1 of
        Inl e \<Rightarrow> (st1, Inl e)
      | Inr d \<Rightarrow>
          let st2 = env 1 st1 in
          case step d of
            Inl e \<Rightarrow> (st2, Inl e)
          | Inr (d', v) \<Rightarrow> (case save_work ops (touch d') st2 of (st3, Inl e) \<Rightarrow> (st3, Inl e) | (st3, Inr _) \<Rightarrow> (st3, Inr v)))"

definition run_step ::
  "('s, core_memory) session_store \<Rightarrow> string \<Rightarrow> string \<Rightarrow> (nat \<Rightarrow> 's \<Rightarrow> 's) \<Rightarrow> (core_doc \<Rightarrow> (core_doc \<times> 'v) res) \<Rightarrow> 's \<Rightarrow> 's \<times> 'v res" where
  "run_step ops sess at env step st =
     (case require_text (JStr sess) ''sessionId'' of
        Inl e \<Rightarrow> (st, Inl e)
      | Inr _ \<Rightarrow> commit_step ops sess (touched at) env step st)"

definition start_session ::
  "('s, core_memory) session_store \<Rightarrow> draws \<Rightarrow> (nat \<Rightarrow> 's \<Rightarrow> 's) \<Rightarrow> string \<Rightarrow> jsval \<Rightarrow> jsval \<Rightarrow> 's \<Rightarrow> 's \<times> core_doc res" where
  "start_session ops D env sess w seed st =
     (case rbind (require_text (JStr sess) ''sessionId'') (\<lambda>_. invariant (\<not> nullish w) ''work is required'') of
        Inl e \<Rightarrow> (st, Inl e)
      | Inr _ \<Rightarrow>
          let st1 = env 0 st in
          case rbind (op_load ops st1 sess) (\<lambda>found.
                 rbind (invariant (found = None) (''session already exists: '' @ sess)) (\<lambda>_.
                 create_work_state sess (or_null w) seed (draw_at D 0))) of
            Inl e \<Rightarrow> (st1, Inl e)
          | Inr d \<Rightarrow>
              let d' = d\<lparr>memory := add_event (draw_id D 0) (draw_at D 1) ''SESSION_STARTED'' [] (memory d)\<rparr> in
              case save_work ops (touched (draw_at D 2) d') (env 1 st1) of
                (st2, Inl e) \<Rightarrow> (st2, Inl e)
              | (st2, Inr _) \<Rightarrow> (st2, Inr (d'\<lparr>revision := Some 1, updated_at := draw_at D 2\<rparr>)))"

subsection \<open>Operations\<close>

text \<open>Changing the object \<open>find\<close> answers with.\<close>

fun update_first :: "('a \<Rightarrow> bool) \<Rightarrow> ('a \<Rightarrow> 'a) \<Rightarrow> 'a list \<Rightarrow> 'a list" where
  "update_first p f [] = []"
| "update_first p f (x # xs) = (if p x then f x # xs else x # update_first p f xs)"

definition observe_step :: "core_ports \<Rightarrow> draws \<Rightarrow> json \<Rightarrow> jsval \<Rightarrow> core_doc \<Rightarrow> (core_doc \<times> observation) res" where
  "observe_step P D req runtime d =
     (let m = memory d in
      rbind (ask_observe P (subject_of d) req) (\<lambda>v.
      rbind (define_observation (draw_id D 0) (current_candidate m) (draw_at D 0) req v (sid d)
               (map_option var_id (running_variation m)) runtime) (\<lambda>x.
        Inr (d\<lparr>memory := add_event (draw_id D 1) (draw_at D 1) ''OBSERVED''
               [(''observationId'', JStr (obs_id x)),
                (''artifactRef'', JObj [(''kind'', JStr ''OBSERVATION''), (''id'', JStr (obs_id x))])]
               (m\<lparr>observations := observations m @ [x]\<rparr>)\<rparr>, x))))"

definition record_verification_step :: "draws \<Rightarrow> jsval \<Rightarrow> core_doc \<Rightarrow> (core_doc \<times> verification) res" where
  "record_verification_step D rec d =
     (let m = memory d in
      rbind (normalize_verification_record rec) (\<lambda>r.
      rbind (invariant (candidate_key (vr_candidate r) = candidate_key (current_candidate m))
               ''verification artifact must target the current candidate'') (\<lambda>_.
        let x = \<lparr>ver_id = draw_id D 0, ver_at = draw_at D 0, ver_record = r\<rparr> in
        Inr (d\<lparr>memory := add_event (draw_id D 1) (draw_at D 1) ''VERIFIED''
               [(''verificationId'', JStr (ver_id x)), (''status'', JStr (verification_status_text (vr_status r))), (''claim'', JStr (vr_claim r)),
                (''source'', JObj [(''kind'', JStr (source_kind_text (vr_source r))), (''name'', vr_name r)])]
               (m\<lparr>verifications := verifications m @ [x]\<rparr>)\<rparr>, x))))"

record act_report =
  act_event :: string
  act_mutated :: bool
  act_candidate :: candidate
  act_base :: "candidate option"
  act_result :: json
  act_dose :: dose_decision
  act_intervention :: "intervention option"

text \<open>What an action does to the candidate: the new candidate, and the history that has it.\<close>

definition admit_candidate :: "jsval \<Rightarrow> string \<Rightarrow> core_memory \<Rightarrow> core_memory res" where
  "admit_candidate v at m =
     rbind (normalize_candidate v) (\<lambda>c.
     rbind (invariant (candidate_key (current_candidate m) \<noteq> candidate_key c) ''mutating action must return a new candidate version'') (\<lambda>_.
     rbind (invariant (find_implementation m c = None) ''candidate version already exists in implementation history'') (\<lambda>_.
       Inr (m\<lparr>current_candidate := c,
              implementations := implementations m @ [\<lparr>imp_candidate = c, imp_parent = Some (current_candidate m), imp_base = head_candidate m,
                imp_status = WORKING, imp_created = at, imp_promoted = None\<rparr>]\<rparr>))))"

definition reports_mutation :: "jsval \<Rightarrow> bool" where
  "reports_mutation v \<longleftrightarrow> opt_member v ''mutated'' = Some (JBool True)"

definition candidate_after :: "jsval \<Rightarrow> string \<Rightarrow> core_memory \<Rightarrow> core_memory res" where
  "candidate_after v at m =
     (if reports_mutation v then admit_candidate (opt_member v ''candidate'') at m
      else if nullish (opt_member v ''candidate'') then Inr m
      else rbind (same_candidate (current_candidate m) (opt_member v ''candidate'')) (\<lambda>same.
        rbind (invariant same ''non-mutating action cannot change candidate'') (\<lambda>_. Inr m)))"

definition act_step :: "core_ports \<Rightarrow> draws \<Rightarrow> json \<Rightarrow> core_doc \<Rightarrow> (core_doc \<times> act_report) res" where
  "act_step P D action d =
     (let m = memory d; prior = current_candidate m; base = head_candidate m in
      rbind (ask_act P (subject_of d) action) (\<lambda>v.
      rbind (invariant (is_object v) ''environment action result is required'') (\<lambda>_.
      let mutated = reports_mutation v in
      rbind (candidate_after v (draw_at D 0) m) (\<lambda>m1.
      let m2 = add_event (draw_id D 0) (draw_at D 1) ''ACTED''
                 [(''mutated'', JBool mutated), (''before'', candidate_json prior), (''after'', candidate_json (current_candidate m1)),
                  (''lineageBase'', candidate_or_null base), (''result'', or_null (opt_member v ''result''))] m1 in
      rbind (inspect_progress P D 2 (draw_id D 0, ''ACTED'') (d\<lparr>memory := m2\<rparr>)) (\<lambda>(d', dose, x).
        Inr (d', \<lparr>act_event = draw_id D 0, act_mutated = mutated, act_candidate = current_candidate m1, act_base = base,
                  act_result = or_null (opt_member v ''result''), act_dose = dose, act_intervention = x\<rparr>))))))"

definition evaluate_step :: "core_ports \<Rightarrow> draws \<Rightarrow> json \<Rightarrow> core_doc \<Rightarrow> (core_doc \<times> evaluation) res" where
  "evaluate_step P D req d =
     (let m = memory d; vs = current_verifications m in
      rbind (ask_evaluate P (subject_of d) (current_observations m) vs req) (\<lambda>v.
      rbind (validate_evaluation v) (\<lambda>r.
      let x = \<lparr>eval_id = draw_id D 0, eval_candidate = current_candidate m, eval_at = draw_at D 0, eval_verifications = map ver_id vs,
               eval_result = r\<rparr>;
          m1 = add_event (draw_id D 1) (draw_at D 1) ''EVALUATED''
                 [(''evaluationId'', JStr (eval_id x)), (''verificationIds'', JArr (map JStr (eval_verifications x))),
                  (''validity'', JStr (validity_text (res_validity r))), (''verdict'', text_or_null (map_option verdict_text (res_verdict r)))]
                 (m\<lparr>evaluations := evaluations m @ [x]\<rparr>) in
      rbind (inspect_progress P D 2 (draw_id D 1, ''EVALUATED'') (d\<lparr>memory := m1\<rparr>)) (\<lambda>(d', dose, i). Inr (d', x)))))"

definition knowledge_kind_text :: "knowledge_kind \<Rightarrow> string" where
  "knowledge_kind_text k = (case k of HYPOTHESIS \<Rightarrow> ''HYPOTHESIS'' | FINDING \<Rightarrow> ''FINDING'' | FAILED_DIRECTION \<Rightarrow> ''FAILED_DIRECTION''
     | DECISION \<Rightarrow> ''DECISION'')"

definition record_knowledge_step :: "draws \<Rightarrow> jsval \<Rightarrow> core_doc \<Rightarrow> (core_doc \<times> knowledge_item) res" where
  "record_knowledge_step D rec d =
     (let m = memory d in
      rbind (validate_knowledge_record rec) (\<lambda>r.
        let x = \<lparr>item_id = draw_id D 0, item_candidate = current_candidate m, item_at = draw_at D 0, item_draft = r\<rparr> in
        Inr (d\<lparr>memory := add_event (draw_id D 1) (draw_at D 1) ''KNOWLEDGE_RECORDED''
               [(''knowledgeId'', JStr (item_id x)), (''kind'', JStr (knowledge_kind_text (kn_kind r)))]
               (m\<lparr>knowledge := knowledge m @ [x]\<rparr>)\<rparr>, x)))"

definition snapshot_of :: "core_memory \<Rightarrow> activity_snapshot" where
  "snapshot_of m =
     \<lparr>snap_candidate = current_candidate m, snap_lineage = length (lineage m), snap_implementations = length (implementations m),
      snap_observations = length (observations m), snap_verifications = length (verifications m), snap_evaluations = length (evaluations m),
      snap_knowledge = length (knowledge m),
      snap_failed_directions = length (filter (\<lambda>x. kn_kind (item_draft x) = FAILED_DIRECTION) (knowledge m)),
      snap_interventions = length (interventions (oversight m)), snap_events = length (events m)\<rparr>"

definition new_variation :: "draws \<Rightarrow> json \<Rightarrow> json \<Rightarrow> json \<Rightarrow> core_memory \<Rightarrow> variation" where
  "new_variation D problem req policy m =
     \<lparr>var_id = draw_id D 0, var_status = RUNNING_VARIATION, var_outcome = None, var_termination = None, var_started = draw_at D 0,
      var_completed = None, var_base = current_candidate m, var_lineage_base = head_candidate m, var_problem = problem,
      var_request = req, var_policy = policy, var_start = None, var_end = None, var_activity = None, var_calls = 0, var_failure = JNull\<rparr>"

definition variation_started :: "draws \<Rightarrow> variation \<Rightarrow> core_memory \<Rightarrow> core_memory" where
  "variation_started D x m =
     add_event (draw_id D 1) (draw_at D 1) ''VARIATION_STARTED''
       [(''variationId'', JStr (var_id x)), (''baseCandidate'', candidate_json (var_base x)),
        (''lineageBase'', candidate_or_null (var_lineage_base x))]
       (m\<lparr>variations := variations m @ [x]\<rparr>)"

definition begin_variation_step :: "draws \<Rightarrow> json \<Rightarrow> json \<Rightarrow> json \<Rightarrow> core_doc \<Rightarrow> (core_doc \<times> variation) res" where
  "begin_variation_step D problem req policy d =
     (let m = memory d in
      rbind (invariant (running_variation m = None)
               (''variation already running: '' @ (case running_variation m of None \<Rightarrow> [] | Some v \<Rightarrow> var_id v))) (\<lambda>_.
      let x = new_variation D problem req policy m;
          m1 = variation_started D x m;
          x' = x\<lparr>var_start := Some (snapshot_of m1)\<rparr>
      in Inr (d\<lparr>memory := m1\<lparr>variations := variations m @ [x']\<rparr>\<rparr>, x')))"

definition outcome_text :: "variation_outcome \<Rightarrow> string" where
  "outcome_text x = (case x of COMMITTED \<Rightarrow> ''COMMITTED'' | CANDIDATE_CHANGED \<Rightarrow> ''CANDIDATE_CHANGED''
     | SEARCH_STATE_CHANGED \<Rightarrow> ''SEARCH_STATE_CHANGED'' | NO_CHANGE \<Rightarrow> ''NO_CHANGE'')"

definition termination_text :: "variation_termination \<Rightarrow> string" where
  "termination_text x = (case x of RETURNED \<Rightarrow> ''RETURNED'' | BUDGET_EXHAUSTED \<Rightarrow> ''BUDGET_EXHAUSTED'' | INTERRUPTED \<Rightarrow> ''INTERRUPTED''
     | FAILED_TERMINATION \<Rightarrow> ''FAILED'')"

definition activity_json :: "variation_activity \<Rightarrow> json" where
  "activity_json a = JObj [(''candidateChanged'', JBool (candidate_changed a)), (''lineageAdvanced'', JBool (lineage_advanced a)),
     (''implementationsAdded'', JNum (implementations_added a)), (''observationsAdded'', JNum (observations_added a)),
     (''verificationsAdded'', JNum (verifications_added a)), (''evaluationsAdded'', JNum (evaluations_added a)),
     (''knowledgeAdded'', JNum (knowledge_added a)), (''failedDirectionsAdded'', JNum (failed_directions_added a)),
     (''supervisorInterventionsAdded'', JNum (interventions_added a)), (''trajectoryEventsAdded'', JNum (events_added a))]"

definition complete_variation_step ::
  "draws \<Rightarrow> string \<Rightarrow> variation_termination \<Rightarrow> int \<Rightarrow> json \<Rightarrow> core_doc \<Rightarrow> (core_doc \<times> variation) res" where
  "complete_variation_step D vid termination calls failure d =
     (let m = memory d in
      case find (\<lambda>v. var_id v = vid) (variations m) of
        None \<Rightarrow> Inl (Invariant (''variation not found: '' @ vid))
      | Some x \<Rightarrow>
          rbind (invariant (var_status x = RUNNING_VARIATION) (''variation is not running: '' @ vid)) (\<lambda>_.
          case var_start x of
            None \<Rightarrow> Inl (TypeFault ''Cannot read properties of null (reading candidate)'')
          | Some start \<Rightarrow>
              let a = activity_delta start (snapshot_of m); out = classify_outcome a;
                  x' = x\<lparr>var_status := COMPLETED_VARIATION, var_outcome := Some out, var_termination := Some termination,
                         var_completed := Some (draw_at D 0), var_end := Some (snapshot_of m), var_activity := Some a, var_calls := calls,
                         var_failure := failure\<rparr>
              in Inr (d\<lparr>memory := add_event (draw_id D 0) (draw_at D 1) ''VARIATION_COMPLETED''
                        [(''variationId'', JStr vid), (''outcome'', JStr (outcome_text out)), (''termination'', JStr (termination_text termination)),
                         (''capabilityCalls'', JNum calls), (''activity'', activity_json a)]
                        (m\<lparr>variations := update_first (\<lambda>v. var_id v = vid) (\<lambda>_. x') (variations m)\<rparr>)\<rparr>, x')))"

text \<open>The arguments of \<open>completeVariation\<close> are checked before the document is loaded.\<close>

definition complete_arguments :: "string \<Rightarrow> int \<Rightarrow> unit res" where
  "complete_arguments vid calls =
     rbind (require_text (JStr vid) ''variationId'') (\<lambda>_.
     invariant (0 \<le> calls) ''variation capabilityCalls must be a non-negative integer'')"

definition promote_step :: "draws \<Rightarrow> core_doc \<Rightarrow> (core_doc \<times> lineage_entry) res" where
  "promote_step D d =
     (let m = memory d; c = current_candidate m in
      case current_evaluation m of
        None \<Rightarrow> Inl (Invariant ''current candidate has not been evaluated'')
      | Some x \<Rightarrow>
      rbind (invariant (res_validity (eval_result x) = VALID) ''current evaluation is not valid'') (\<lambda>_.
      rbind (invariant (res_verdict (eval_result x) = Some VERDICT_PASS) ''current candidate did not pass evaluation'') (\<lambda>_.
      case lineage_head m of
        None \<Rightarrow> Inl (Invariant ''committed lineage is missing a baseline'')
      | Some h \<Rightarrow>
      rbind (invariant (candidate_key (line_candidate h) \<noteq> candidate_key c) ''current candidate is already committed to lineage'') (\<lambda>_.
      case find_implementation m c of
        None \<Rightarrow> Inl (Invariant ''current candidate is missing from implementation history'')
      | Some i \<Rightarrow>
      rbind (invariant (case imp_base i of None \<Rightarrow> True | Some b \<Rightarrow> candidate_key b = candidate_key (line_candidate h))
               ''current candidate was not derived from the current committed lineage head'') (\<lambda>_.
      let at = draw_at D 0;
          e = \<lparr>line_status = PROMOTED, line_candidate = c, line_parent = Some (line_candidate h), line_implementation = imp_parent i,
               line_evaluation = Some (eval_id x), line_verifications = eval_verifications x, line_at = at\<rparr>
      in Inr (d\<lparr>memory := add_event (draw_id D 0) (draw_at D 1) ''PROMOTED''
                [(''evaluationId'', JStr (eval_id x)), (''verificationIds'', JArr (map JStr (eval_verifications x))),
                 (''parent'', candidate_json (line_candidate h))]
                (m\<lparr>implementations := update_first (\<lambda>j. candidate_key (imp_candidate j) = candidate_key c)
                       (\<lambda>j. j\<lparr>imp_status := PROMOTED, imp_promoted := Some at\<rparr>) (implementations m),
                    lineage := lineage m @ [e]\<rparr>)\<rparr>, e))))))"

text \<open>The operations on a session: the draw after the step is the time of the save.\<close>

record 's core_setting =
  core_store :: "('s, core_memory) session_store"
  core_session :: string
  core_ask :: core_ports
  core_draws :: draws
  core_others :: "nat \<Rightarrow> 's \<Rightarrow> 's"

definition in_session :: "'s core_setting \<Rightarrow> (core_doc \<Rightarrow> (core_doc \<times> 'v) res) \<Rightarrow> 's \<Rightarrow> 's \<times> 'v res" where
  "in_session C = run_step (core_store C) (core_session C) (draw_at (core_draws C) 9) (core_others C)"

definition observe :: "'s core_setting \<Rightarrow> json \<Rightarrow> jsval \<Rightarrow> 's \<Rightarrow> 's \<times> observation res" where
  "observe C req runtime = in_session C (observe_step (core_ask C) (core_draws C) req runtime)"

definition record_verification :: "'s core_setting \<Rightarrow> jsval \<Rightarrow> 's \<Rightarrow> 's \<times> verification res" where
  "record_verification C rec = in_session C (record_verification_step (core_draws C) rec)"

definition act :: "'s core_setting \<Rightarrow> json \<Rightarrow> 's \<Rightarrow> 's \<times> act_report res" where
  "act C action = in_session C (act_step (core_ask C) (core_draws C) action)"

definition evaluate :: "'s core_setting \<Rightarrow> json \<Rightarrow> 's \<Rightarrow> 's \<times> evaluation res" where
  "evaluate C req = in_session C (evaluate_step (core_ask C) (core_draws C) req)"

definition record_knowledge :: "'s core_setting \<Rightarrow> jsval \<Rightarrow> 's \<Rightarrow> 's \<times> knowledge_item res" where
  "record_knowledge C rec = in_session C (record_knowledge_step (core_draws C) rec)"

definition begin_variation :: "'s core_setting \<Rightarrow> json \<Rightarrow> json \<Rightarrow> json \<Rightarrow> 's \<Rightarrow> 's \<times> variation res" where
  "begin_variation C problem req policy = in_session C (begin_variation_step (core_draws C) problem req policy)"

definition complete_variation :: "'s core_setting \<Rightarrow> string \<Rightarrow> variation_termination \<Rightarrow> int \<Rightarrow> json \<Rightarrow> 's \<Rightarrow> 's \<times> variation res" where
  "complete_variation C vid termination calls failure st =
     (case complete_arguments vid calls of
        Inl e \<Rightarrow> (st, Inl e)
      | Inr _ \<Rightarrow> in_session C (complete_variation_step (core_draws C) vid termination calls failure) st)"

definition promote :: "'s core_setting \<Rightarrow> 's \<Rightarrow> 's \<times> lineage_entry res" where
  "promote C = in_session C (promote_step (core_draws C))"

text \<open>The reading operations.\<close>

definition work_state :: "'s core_setting \<Rightarrow> 's \<Rightarrow> core_doc res" where
  "work_state C = load_work (core_store C) (core_session C)"

definition trajectory_after :: "string \<Rightarrow> core_memory \<Rightarrow> harness_event list res" where
  "trajectory_after i m =
     (if i = [] then Inr (events m)
      else rbind (invariant (\<exists>e \<in> set (events m). evt_id e = i) (''trajectory event not found: '' @ i)) (\<lambda>_.
        Inr (tl (dropWhile (\<lambda>e. evt_id e \<noteq> i) (events m)))))"

record harness_context =
  ctx_subject :: port_subject
  ctx_verification :: "verification option"
  ctx_evaluation :: "evaluation option"
  ctx_variation :: "variation option"
  ctx_intervention :: "intervention option"
  ctx_projected :: jsval
  ctx_dose :: dose_decision
  ctx_head :: "lineage_entry option"

definition context_of :: "core_ports \<Rightarrow> json \<Rightarrow> core_doc \<Rightarrow> harness_context res" where
  "context_of P problem d =
     (let m = memory d in
      rbind (decide_dose P CONTEXT_PROJECTION JNull problem d) (\<lambda>dose.
      rbind (if dose_enabled dose then ask_project P ''AGENT'' problem (progress_of d) (dose_amount dose) else Inr (Some JNull)) (\<lambda>seen.
        Inr \<lparr>ctx_subject = subject_of d, ctx_verification = last_opt (current_verifications m), ctx_evaluation = current_evaluation m,
             ctx_variation = last_opt (variations m), ctx_intervention = last_opt (interventions (oversight m)), ctx_projected = seen,
             ctx_dose = dose, ctx_head = lineage_head m\<rparr>)))"

end
