(* ===== verification/Core_Assessment.thy ===== *)
theory Core_Assessment
  imports Core_Harness
begin

section \<open>Verification policy and fresh evaluations\<close>

text \<open>
  \<open>packages/core-harness/src/verification-assessment.js\<close>: what the verifications of a candidate say about
  each claim, whether a policy lets them through, and the objective that answers GAP when it does not;
  and \<open>evaluation-freshness.js\<close>: an evaluation counts only as long as the observations and verifications
  it saw are all there are.
\<close>

subsection \<open>The policy\<close>

record verification_need =
  need_claim :: string
  need_sources :: int

record verification_policy =
  needs :: "verification_need list"
  reject_failures :: bool
  reject_conflicts :: bool

definition normalize_need :: "json \<Rightarrow> verification_need res" where
  "normalize_need v =
     rbind (invariant (is_object (Some v)) ''verification requirement is required'') (\<lambda>_.
     rbind (require_text (or_null (opt_member (Some v) ''claim'')) ''verification requirement claim'') (\<lambda>c.
     case or_default (opt_member (Some v) ''minSources'') (JNum 1) of
       JNum n \<Rightarrow> rbind (invariant (0 < n) ''verification requirement minSources must be a positive integer'') (\<lambda>_.
         Inr \<lparr>need_claim = c, need_sources = n\<rparr>)
     | _ \<Rightarrow> Inl (Invariant ''verification requirement minSources must be a positive integer'')))"

fun check_needs :: "verification_need list \<Rightarrow> string list \<Rightarrow> unit res" where
  "check_needs [] seen = Inr ()"
| "check_needs (n # ns) seen =
     rbind (invariant (need_claim n \<notin> set seen) (''duplicate verification requirement: '' @ need_claim n)) (\<lambda>_.
     check_needs ns (need_claim n # seen))"

definition define_verification_policy :: "json list \<Rightarrow> jsval \<Rightarrow> jsval \<Rightarrow> verification_policy res" where
  "define_verification_policy reqs failures conflicts =
     rbind (map_res normalize_need reqs) (\<lambda>ns.
     rbind (check_needs ns []) (\<lambda>_.
       Inr \<lparr>needs = ns, reject_failures = (failures \<noteq> Some (JBool False)), reject_conflicts = (conflicts \<noteq> Some (JBool False))\<rparr>))"

subsection \<open>The assessment\<close>

record claim_entry =
  ce_claim :: string
  ce_artifacts :: "string list"
  ce_pass :: "string list"
  ce_fail :: "string list"
  ce_inconclusive :: "string list"

definition source_key :: "verification_record \<Rightarrow> string" where
  "source_key r = source_kind_text (vr_source r) @ '':'' @ (if vr_name r = JNull then ''anonymous'' else js_text (Some (vr_name r)))"

definition count_artifact :: "verification \<Rightarrow> claim_entry \<Rightarrow> claim_entry" where
  "count_artifact v e =
     (let r = ver_record v; k = source_key r; e1 = e\<lparr>ce_artifacts := ce_artifacts e @ [ver_id v]\<rparr> in
      case vr_status r of
        VERIFIED_PASS \<Rightarrow> e1\<lparr>ce_pass := add_unique (ce_pass e) [k]\<rparr>
      | VERIFIED_FAIL \<Rightarrow> e1\<lparr>ce_fail := add_unique (ce_fail e) [k]\<rparr>
      | VERIFIED_INCONCLUSIVE \<Rightarrow> e1\<lparr>ce_inconclusive := add_unique (ce_inconclusive e) [k]\<rparr>)"

definition no_entry :: "string \<Rightarrow> claim_entry" where
  "no_entry c = \<lparr>ce_claim = c, ce_artifacts = [], ce_pass = [], ce_fail = [], ce_inconclusive = []\<rparr>"

text \<open>The map from claims to entries, in insertion order.\<close>

fun claims_loop :: "verification list \<Rightarrow> (string \<times> claim_entry) list \<Rightarrow> (string \<times> claim_entry) list res" where
  "claims_loop [] m = Inr m"
| "claims_loop (v # vs) m =
     rbind (require_text (JStr (vr_claim (ver_record v))) ''verification artifact claim'') (\<lambda>c.
     claims_loop vs (aset c (count_artifact v (or_else (map_of m c) (no_entry c))) m))"

datatype assessment_reason = Conflict_Of string | Failure_Of string | Incomplete_Of string int int

record assessment =
  as_ready :: bool
  as_policy :: verification_policy
  as_claims :: "claim_entry list"
  as_conflicts :: "string list"
  as_failures :: "string list"
  as_reasons :: "assessment_reason list"
  as_artifacts :: nat

definition in_conflict :: "claim_entry \<Rightarrow> bool" where
  "in_conflict e \<longleftrightarrow> ce_pass e \<noteq> [] \<and> ce_fail e \<noteq> []"

definition unmet :: "(string \<times> claim_entry) list \<Rightarrow> verification_need list \<Rightarrow> assessment_reason list" where
  "unmet m ns = concat (map (\<lambda>n.
     let got = (case map_of m (need_claim n) of None \<Rightarrow> 0 | Some e \<Rightarrow> int (length (ce_pass e))) in
     if got < need_sources n then [Incomplete_Of (need_claim n) (need_sources n) got] else []) ns)"

definition assess_verifications :: "verification list \<Rightarrow> verification_policy \<Rightarrow> assessment res" where
  "assess_verifications vs p =
     rbind (claims_loop vs []) (\<lambda>m.
       let es = map snd m;
           conflicts = map ce_claim (filter in_conflict es);
           failures = map ce_claim (filter (\<lambda>e. ce_fail e \<noteq> []) es);
           reasons = (if reject_conflicts p then map Conflict_Of conflicts else []) @
                     (if reject_failures p then map Failure_Of failures else []) @ unmet m (needs p)
       in Inr \<lparr>as_ready = (reasons = []), as_policy = p, as_claims = es, as_conflicts = conflicts, as_failures = failures,
               as_reasons = reasons, as_artifacts = length vs\<rparr>)"

subsection \<open>As data\<close>

definition reason_json :: "assessment_reason \<Rightarrow> json" where
  "reason_json r = (case r of
     Conflict_Of c \<Rightarrow> JObj [(''code'', JStr ''CONFLICT''), (''claim'', JStr c)]
   | Failure_Of c \<Rightarrow> JObj [(''code'', JStr ''FAILURE''), (''claim'', JStr c)]
   | Incomplete_Of c n k \<Rightarrow> JObj [(''code'', JStr ''INCOMPLETE''), (''claim'', JStr c), (''minSources'', JNum n), (''observedSources'', JNum k)])"

definition texts :: "string list \<Rightarrow> json" where
  "texts ts = JArr (map JStr ts)"

definition entry_json :: "claim_entry \<Rightarrow> json" where
  "entry_json e = JObj [(''claim'', JStr (ce_claim e)), (''artifacts'', texts (ce_artifacts e)), (''passSources'', texts (ce_pass e)),
     (''failSources'', texts (ce_fail e)), (''inconclusiveSources'', texts (ce_inconclusive e)), (''conflict'', JBool (in_conflict e))]"

definition verification_policy_json :: "verification_policy \<Rightarrow> json" where
  "verification_policy_json p = JObj [(''requirements'', JArr (map (\<lambda>n. JObj [(''claim'', JStr (need_claim n)), (''minSources'', JNum (need_sources n))]) (needs p))),
     (''rejectFailures'', JBool (reject_failures p)), (''rejectConflicts'', JBool (reject_conflicts p))]"

definition unmet_json :: "assessment_reason list \<Rightarrow> json list" where
  "unmet_json rs = List.map_filter (\<lambda>r. case r of
     Incomplete_Of c n k \<Rightarrow> Some (JObj [(''claim'', JStr c), (''minSources'', JNum n), (''observedSources'', JNum k)]) | _ \<Rightarrow> None) rs"

definition assessment_json :: "assessment \<Rightarrow> json" where
  "assessment_json a =
     (let u = unmet_json (as_reasons a) in
      JObj [(''ready'', JBool (as_ready a)), (''policy'', verification_policy_json (as_policy a)), (''claims'', JArr (map entry_json (as_claims a))),
       (''conflicts'', texts (as_conflicts a)), (''failures'', texts (as_failures a)), (''unmetRequirements'', JArr u),
       (''reasons'', JArr (map reason_json (as_reasons a))),
       (''counts'', JObj [(''artifacts'', JNum (int (as_artifacts a))), (''claims'', JNum (int (length (as_claims a)))),
          (''conflicts'', JNum (int (length (as_conflicts a)))), (''failures'', JNum (int (length (as_failures a)))),
          (''unmetRequirements'', JNum (int (length u)))])])"

subsection \<open>The objective that knows the policy\<close>

text \<open>\<open>.filter(Boolean)\<close> drops empty identifiers.\<close>

definition truthy_ids :: "string list \<Rightarrow> string list" where
  "truthy_ids ids = filter (\<lambda>i. i \<noteq> []) ids"

definition input_snapshot_json :: "observation list \<Rightarrow> verification list \<Rightarrow> json" where
  "input_snapshot_json os vs = JObj [(''observationIds'', texts (truthy_ids (map obs_id os))), (''verificationIds'', texts (truthy_ids (map ver_id vs)))]"

text \<open>\<open>{...v}\<close>: arrays and strings have their elements under their indices.\<close>

definition spread_entries :: "jsval \<Rightarrow> (string \<times> json) list" where
  "spread_entries v = (case v of
     Some (JObj kvs) \<Rightarrow> kvs
   | Some (JArr vs) \<Rightarrow> zip (map nat_text [0..<length vs]) vs
   | Some (JStr s) \<Rightarrow> zip (map nat_text [0..<length s]) (map (\<lambda>c. JStr [c]) s)
   | _ \<Rightarrow> [])"

type_synonym objective = "port_subject \<Rightarrow> observation list \<Rightarrow> verification list \<Rightarrow> json \<Rightarrow> assessment \<Rightarrow> jsval res"

definition aware_evaluate :: "verification_policy \<Rightarrow> objective \<Rightarrow> port_subject \<Rightarrow> observation list \<Rightarrow> verification list \<Rightarrow> json \<Rightarrow> jsval res" where
  "aware_evaluate p objective subject os vs req =
     rbind (assess_verifications vs p) (\<lambda>a.
       let extra = [(''verificationAssessment'', assessment_json a), (''inputSnapshot'', input_snapshot_json os vs)] in
       if \<not> as_ready a
       then Inr (Some (JObj [(''validity'', JStr ''VALID''), (''verdict'', JStr ''GAP''), (''findings'', JArr (map reason_json (as_reasons a))),
              (''evidence'', texts (truthy_ids (map ver_id vs))), (''metadata'', JObj extra)]))
       else rbind (objective subject os vs req a) (\<lambda>v.
              rbind (invariant (is_object v) ''objective evaluation result is required'') (\<lambda>_.
                let old = spread_entries (Some (or_default (opt_member v ''metadata'') (JObj []))) in
                Inr (Some (JObj (aset ''metadata'' (JObj (foldl (\<lambda>m (k, x). aset k x m) old extra)) (spread_entries v)))))))"

subsection \<open>Freshness\<close>

definition evaluated_ids :: "evaluation \<Rightarrow> json list res \<times> json list res" where
  "evaluated_ids x =
     (let snap = opt_member (Some (res_metadata (eval_result x))) ''inputSnapshot'' in
      if nullish snap then (Inr [], Inr (map JStr (eval_verifications x)))
      else (spread (opt_member snap ''observationIds''), spread (opt_member snap ''verificationIds'')))"

definition assert_inputs_fresh :: "core_memory \<Rightarrow> string \<Rightarrow> evaluation res" where
  "assert_inputs_fresh m purpose =
     (case current_evaluation m of
        None \<Rightarrow> Inl (Invariant ''current candidate has not been evaluated'')
      | Some x \<Rightarrow>
          (case evaluated_ids x of (os, vs) \<Rightarrow>
             rbind os (\<lambda>os. rbind (invariant (os = map (JStr \<circ> obs_id) (current_observations m))
                                     (''observations changed since evaluation; re-evaluate before '' @ purpose)) (\<lambda>_.
             rbind vs (\<lambda>vs. rbind (invariant (vs = map (JStr \<circ> ver_id) (current_verifications m))
                                     (''verification artifacts changed since evaluation; re-evaluate before '' @ purpose)) (\<lambda>_.
               Inr x))))))"

end
