(* ===== verification/Core_Knowledge.thy ===== *)
theory Core_Knowledge
  imports Core_Assessment
begin

section \<open>Knowledge and feedback\<close>

text \<open>
  \<open>packages/core-harness/src/knowledge.js\<close> (which records apply to the current candidate, which of them
  are superseded, which contradict each other), \<open>feedback.js\<close> (the feed of everything that was observed,
  verified, evaluated and done, in the order of its times) and \<open>memory.js\<close>, which records knowledge
  only when what it refers to exists.
\<close>

subsection \<open>The feed\<close>

datatype feedback_kind = ACTION_RESULT | OBSERVATION | VERIFICATION | EVALUATION | VARIATION_RESULT

definition feedback_kind_text :: "feedback_kind \<Rightarrow> string" where
  "feedback_kind_text k = (case k of ACTION_RESULT \<Rightarrow> ''ACTION_RESULT'' | OBSERVATION \<Rightarrow> ''OBSERVATION'' | VERIFICATION \<Rightarrow> ''VERIFICATION''
     | EVALUATION \<Rightarrow> ''EVALUATION'' | VARIATION_RESULT \<Rightarrow> ''VARIATION_RESULT'')"

definition feedback_prefix :: "feedback_kind \<Rightarrow> string" where
  "feedback_prefix k = (case k of ACTION_RESULT \<Rightarrow> ''action_result'' | OBSERVATION \<Rightarrow> ''observation'' | VERIFICATION \<Rightarrow> ''verification''
     | EVALUATION \<Rightarrow> ''evaluation'' | VARIATION_RESULT \<Rightarrow> ''variation_result'')"

definition parse_feedback_kind :: "json \<Rightarrow> feedback_kind option" where
  "parse_feedback_kind v = map_of (map (\<lambda>k. (JStr (feedback_kind_text k), k)) [ACTION_RESULT, OBSERVATION, VERIFICATION, EVALUATION, VARIATION_RESULT]) v"

datatype feedback_value =
    Seen json jsval
  | Checked verification_record
  | Judged evaluation_result
  | Varied "variation_outcome option" "variation_termination option" "variation_activity option" json
  | Acted "(string \<times> json) list"

record feedback_item =
  fb_kind :: feedback_kind
  fb_source :: string
  fb_at :: string
  fb_candidate :: json
  fb_value :: feedback_value

definition feedback_id :: "feedback_item \<Rightarrow> string" where
  "feedback_id x = feedback_prefix (fb_kind x) @ '':'' @ fb_source x"

definition of_observation :: "observation \<Rightarrow> feedback_item" where
  "of_observation x = \<lparr>fb_kind = OBSERVATION, fb_source = obs_id x, fb_at = obs_at x, fb_candidate = candidate_json (obs_candidate x),
     fb_value = Seen (obs_request x) (obs_value x)\<rparr>"

definition of_verification :: "verification \<Rightarrow> feedback_item" where
  "of_verification x = \<lparr>fb_kind = VERIFICATION, fb_source = ver_id x, fb_at = ver_at x,
     fb_candidate = candidate_json (vr_candidate (ver_record x)), fb_value = Checked (ver_record x)\<rparr>"

definition of_evaluation :: "evaluation \<Rightarrow> feedback_item" where
  "of_evaluation x = \<lparr>fb_kind = EVALUATION, fb_source = eval_id x, fb_at = eval_at x, fb_candidate = candidate_json (eval_candidate x),
     fb_value = Judged (eval_result x)\<rparr>"

definition of_variation :: "variation \<Rightarrow> feedback_item" where
  "of_variation x = \<lparr>fb_kind = VARIATION_RESULT, fb_source = var_id x, fb_at = (case var_completed x of None \<Rightarrow> ''null'' | Some t \<Rightarrow> t),
     fb_candidate = candidate_json (case var_end x of None \<Rightarrow> var_base x | Some e \<Rightarrow> snap_candidate e),
     fb_value = Varied (var_outcome x) (var_termination x) (var_activity x) (var_failure x)\<rparr>"

definition of_event :: "harness_event \<Rightarrow> feedback_item" where
  "of_event x = \<lparr>fb_kind = ACTION_RESULT, fb_source = evt_id x, fb_at = evt_at x,
     fb_candidate = or_default (map_of (evt_payload x) ''after'') (candidate_json (evt_candidate x)), fb_value = Acted (evt_payload x)\<rparr>"

text \<open>
  \<open>coll\<close> is \<open>String.prototype.localeCompare\<close>, whose order depends on the locale; \<open>sort\<close> is stable.
\<close>

definition feedback_before :: "(string \<Rightarrow> string \<Rightarrow> int) \<Rightarrow> feedback_item \<Rightarrow> feedback_item \<Rightarrow> bool" where
  "feedback_before coll a b \<longleftrightarrow> (let t = coll (fb_at a) (fb_at b) in (if t \<noteq> 0 then t else coll (feedback_id a) (feedback_id b)) \<le> 0)"

fun insert_before :: "('a \<Rightarrow> 'a \<Rightarrow> bool) \<Rightarrow> 'a \<Rightarrow> 'a list \<Rightarrow> 'a list" where
  "insert_before le x [] = [x]"
| "insert_before le x (y # ys) = (if le x y then x # y # ys else y # insert_before le x ys)"

definition sort_before :: "('a \<Rightarrow> 'a \<Rightarrow> bool) \<Rightarrow> 'a list \<Rightarrow> 'a list" where
  "sort_before le xs = foldr (insert_before le) xs []"

definition feedback_sources :: "core_memory \<Rightarrow> feedback_item list" where
  "feedback_sources m =
     map of_observation (observations m) @ map of_verification (verifications m) @ map of_evaluation (evaluations m) @
     map of_variation (filter (\<lambda>v. var_status v = COMPLETED_VARIATION) (variations m)) @
     map of_event (filter (\<lambda>e. evt_type e = ''ACTED'') (events m))"

definition collect_feedback :: "(string \<Rightarrow> string \<Rightarrow> int) \<Rightarrow> core_memory \<Rightarrow> feedback_item list" where
  "collect_feedback coll m = sort_before (feedback_before coll) (feedback_sources m)"

lemma mset_insert_before [simp]: "mset (insert_before le x ys) = add_mset x (mset ys)"
  by (induction ys) auto

lemma mset_sort_before [simp]: "mset (sort_before le xs) = mset xs"
  by (induction xs) (auto simp: sort_before_def)

lemma set_sort_before [simp]: "set (sort_before le xs) = set xs"
  by (metis mset_sort_before set_mset_mset)

lemma sorted_insert_before:
  assumes "\<And>a b. le a b \<or> le b a" "\<And>a b c. le a b \<Longrightarrow> le b c \<Longrightarrow> le a c" "sorted_wrt le ys"
  shows "sorted_wrt le (insert_before le x ys)"
proof -
  have set: "set (insert_before le x zs) = insert x (set zs)" for zs by (induction zs) auto
  show ?thesis using assms(3)
  proof (induction ys)
    case (Cons y ys)
    with assms(1) [of x y] assms(2) show ?case by (auto simp: set)
  qed simp
qed

lemma sorted_sort_before:
  assumes "\<And>a b. le a b \<or> le b a" "\<And>a b c. le a b \<Longrightarrow> le b c \<Longrightarrow> le a c"
  shows "sorted_wrt le (sort_before le xs)"
  by (induction xs) (auto simp: sort_before_def intro: sorted_insert_before [OF assms])

text \<open>\<open>filter\<close> with a predicate that may throw.\<close>

fun filter_res :: "('a \<Rightarrow> bool res) \<Rightarrow> 'a list \<Rightarrow> 'a list res" where
  "filter_res p [] = Inr []"
| "filter_res p (x # xs) = rbind (p x) (\<lambda>b. rbind (filter_res p xs) (\<lambda>ys. Inr (if b then x # ys else ys)))"

lemma filter_res_total: "(\<And>x. x \<in> set xs \<Longrightarrow> p x = Inr (q x)) \<Longrightarrow> filter_res p xs = Inr (filter q xs)"
  by (induction xs) auto

lemma filter_res_Inr: "filter_res p xs = Inr ys \<Longrightarrow> ys = filter (\<lambda>x. p x = Inr True) xs"
  by (induction xs arbitrary: ys) (auto split: if_splits)

text \<open>The last \<open>n\<close> elements.\<close>

definition keep_last :: "int \<Rightarrow> 'a list \<Rightarrow> 'a list" where
  "keep_last n xs = (if n < int (length xs) then drop (nat (int (length xs) - n)) xs else xs)"

definition positive_limit :: "jsval \<Rightarrow> string \<Rightarrow> int res" where
  "positive_limit q label =
     (case arg_or (opt_member q ''limit'') (JNum 50) of
        JNum n \<Rightarrow> rbind (invariant (0 < n) (label @ '' limit must be a positive integer'')) (\<lambda>_. Inr n)
      | _ \<Rightarrow> Inl (Invariant (label @ '' limit must be a positive integer'')))"

text \<open>A list of kinds, or \<open>null\<close> for all.\<close>

definition query_kinds :: "jsval \<Rightarrow> (json \<Rightarrow> 'k option) \<Rightarrow> string \<Rightarrow> 'k list option res" where
  "query_kinds v parse label =
     (if nullish v then Inr None
      else rbind (js_array v) (\<lambda>ks.
           rbind (map_res (\<lambda>k. case parse k of None \<Rightarrow> Inl (Invariant (label @ '' kind is invalid: '' @ js_text (Some k))) | Some x \<Rightarrow> Inr x) ks) (\<lambda>xs.
             Inr (Some xs))))"

text \<open>Destructuring the query throws on \<open>null\<close>.\<close>

definition query_object :: "jsval \<Rightarrow> unit res" where
  "query_object q = (if q = Some JNull then Inl (TypeFault ''Cannot destructure null'') else Inr ())"

definition query_feedback :: "(string \<Rightarrow> string \<Rightarrow> int) \<Rightarrow> core_memory \<Rightarrow> jsval \<Rightarrow> feedback_item list res" where
  "query_feedback coll m q =
     rbind (query_object q) (\<lambda>_.
     rbind (positive_limit q ''feedback'') (\<lambda>limit.
     rbind (query_kinds (opt_member q ''kinds'') parse_feedback_kind ''feedback'') (\<lambda>kinds.
     rbind (if truthy (opt_member q ''currentCandidateOnly'')
            then filter_res (\<lambda>x. if truthy (Some (fb_candidate x))
                   then rbind (normalize_candidate (Some (fb_candidate x))) (\<lambda>c. Inr (candidate_key c = candidate_key (current_candidate m)))
                   else Inr False) (collect_feedback coll m)
            else Inr (collect_feedback coll m)) (\<lambda>xs.
     let ys = (case kinds of None \<Rightarrow> xs | Some ks \<Rightarrow> filter (\<lambda>x. fb_kind x \<in> set ks) xs) in
     rbind (if nullish (opt_member q ''afterFeedbackId'') then Inr ys
            else rbind (require_text (or_null (opt_member q ''afterFeedbackId'')) ''afterFeedbackId'') (\<lambda>i.
                 rbind (invariant (\<exists>x \<in> set ys. feedback_id x = i) (''feedback item not found in query scope: '' @ i)) (\<lambda>_.
                   Inr (tl (dropWhile (\<lambda>x. feedback_id x \<noteq> i) ys))))) (\<lambda>zs.
       Inr (keep_last limit zs))))))"

subsection \<open>The view of knowledge\<close>

definition same_scope_anchor :: "knowledge_item \<Rightarrow> knowledge_item \<Rightarrow> bool" where
  "same_scope_anchor a b \<longleftrightarrow>
     kn_scope (item_draft a) = kn_scope (item_draft b) \<and>
     (kn_scope (item_draft a) = CANDIDATE_SCOPE \<longrightarrow> candidate_key (item_candidate a) = candidate_key (item_candidate b))"

text \<open>\<open>new Map(records.map(r => [r.id, r]))\<close>: the last record of an identifier wins.\<close>

definition record_of :: "knowledge_item list \<Rightarrow> string \<Rightarrow> knowledge_item option" where
  "record_of ks i = find (\<lambda>k. item_id k = i) (rev ks)"

fun check_feedback :: "string set \<Rightarrow> string list \<Rightarrow> unit res" where
  "check_feedback ids [] = Inr ()"
| "check_feedback ids (r # rs) =
     rbind (invariant (r \<in> ids) (''knowledge feedback reference not found: '' @ r)) (\<lambda>_. check_feedback ids rs)"

fun check_relations :: "knowledge_item list \<Rightarrow> knowledge_item \<Rightarrow> knowledge_relation list \<Rightarrow> unit res" where
  "check_relations ks x [] = Inr ()"
| "check_relations ks x (r # rs) =
     rbind (invariant (rel_target r \<noteq> item_id x) ''knowledge cannot relate to itself'') (\<lambda>_.
     case record_of ks (rel_target r) of
       None \<Rightarrow> Inl (Invariant (''knowledge relation target not found: '' @ rel_target r))
     | Some t \<Rightarrow>
         rbind (invariant (rel_type r = SUPERSEDES \<longrightarrow> same_scope_anchor x t) ''superseding knowledge must use the same scope as its target'') (\<lambda>_.
           check_relations ks x rs))"

definition validate_knowledge_links :: "knowledge_item \<Rightarrow> knowledge_item list \<Rightarrow> string set \<Rightarrow> unit res" where
  "validate_knowledge_links x ks ids =
     rbind (check_feedback ids (kn_feedback (item_draft x))) (\<lambda>_. check_relations ks x (kn_relations (item_draft x)))"

definition scope_applies :: "core_memory \<Rightarrow> knowledge_item \<Rightarrow> bool res" where
  "scope_applies m x =
     (case kn_scope (item_draft x) of
        SESSION_SCOPE \<Rightarrow> Inr True
      | CANDIDATE_SCOPE \<Rightarrow> Inr (candidate_key (item_candidate x) = candidate_key (current_candidate m))
      | LINEAGE_SCOPE \<Rightarrow>
          if kn_base (item_draft x) = JNull then Inr True
          else rbind (normalize_candidate (Some (kn_base (item_draft x)))) (\<lambda>c.
            Inr (\<exists>e \<in> set (lineage m). candidate_key (line_candidate e) = candidate_key c)))"

definition conflict_key :: "string \<Rightarrow> string \<Rightarrow> string" where
  "conflict_key a b = join ''::'' (sort [a, b])"

definition targets :: "relation_type \<Rightarrow> knowledge_item \<Rightarrow> string list" where
  "targets t x = map rel_target (filter (\<lambda>r. rel_type r = t) (kn_relations (item_draft x)))"

text \<open>The pairs of active records that contradict each other, each pair once.\<close>

fun conflicts_loop :: "string list \<Rightarrow> (string \<times> string) list \<Rightarrow> string list \<Rightarrow> (string \<times> string) list \<Rightarrow> (string \<times> string) list" where
  "conflicts_loop ids [] seen acc = acc"
| "conflicts_loop ids ((a, b) # ps) seen acc =
     (if b \<notin> set ids \<or> conflict_key a b \<in> set seen then conflicts_loop ids ps seen acc
      else conflicts_loop ids ps (conflict_key a b # seen) (acc @ [(a, b)]))"

record knowledge_view =
  kv_active :: "knowledge_item list"
  kv_conflicts :: "(string \<times> string) list"
  kv_superseded :: "string list"
  kv_history :: nat
  kv_applicable :: nat

definition build_knowledge_view :: "core_memory \<Rightarrow> knowledge_view res" where
  "build_knowledge_view m =
     rbind (filter_res (scope_applies m) (knowledge m)) (\<lambda>xs.
       let gone = uniq (concat (map (targets SUPERSEDES) xs)); active = filter (\<lambda>x. item_id x \<notin> set gone) xs;
           pairs = concat (map (\<lambda>x. map (Pair (item_id x)) (targets CONTRADICTS x)) active)
       in Inr \<lparr>kv_active = active, kv_conflicts = conflicts_loop (map item_id active) pairs [] [], kv_superseded = gone,
               kv_history = length (knowledge m), kv_applicable = length xs\<rparr>)"

definition query_knowledge :: "core_memory \<Rightarrow> jsval \<Rightarrow> knowledge_view res" where
  "query_knowledge m q =
     rbind (query_object q) (\<lambda>_.
     rbind (positive_limit q ''knowledge'') (\<lambda>limit.
     rbind (build_knowledge_view m) (\<lambda>view.
     rbind (query_kinds (opt_member q ''kinds'') (\<lambda>v. parse_knowledge_kind (Some v)) ''knowledge'') (\<lambda>kinds.
     rbind (if nullish (opt_member q ''tags'') then Inr []
            else rbind (js_array (opt_member q ''tags'')) (map_res (\<lambda>t. require_text t ''knowledge query tag''))) (\<lambda>tags.
       let xs = (case kinds of None \<Rightarrow> kv_active view | Some ks \<Rightarrow> filter (\<lambda>x. kn_kind (item_draft x) \<in> set ks) (kv_active view));
           ys = keep_last limit (filter (\<lambda>x. set tags \<subseteq> set (kn_tags (item_draft x))) xs);
           shown = item_id ` set ys
       in Inr (view\<lparr>kv_active := ys, kv_conflicts := filter (\<lambda>(a, b). a \<in> shown \<and> b \<in> shown) (kv_conflicts view)\<rparr>))))))"

subsection \<open>Recording knowledge through the facade\<close>

definition relation_text :: "relation_type \<Rightarrow> string" where
  "relation_text t = (case t of SUPPORTS \<Rightarrow> ''SUPPORTS'' | CONTRADICTS \<Rightarrow> ''CONTRADICTS'' | DERIVED_FROM \<Rightarrow> ''DERIVED_FROM''
     | SUPERSEDES \<Rightarrow> ''SUPERSEDES'')"

definition scope_text :: "knowledge_scope \<Rightarrow> string" where
  "scope_text s = (case s of CANDIDATE_SCOPE \<Rightarrow> ''CANDIDATE'' | LINEAGE_SCOPE \<Rightarrow> ''LINEAGE'' | SESSION_SCOPE \<Rightarrow> ''SESSION'')"

definition draft_json :: "knowledge_draft \<Rightarrow> json" where
  "draft_json d =
     JObj [(''kind'', JStr (knowledge_kind_text (kn_kind d))), (''statement'', JStr (kn_statement d)), (''scope'', JStr (scope_text (kn_scope d))),
       (''evidence'', JArr (kn_evidence d)), (''feedbackRefs'', texts (kn_feedback d)),
       (''relations'', JArr (map (\<lambda>r. JObj [(''type'', JStr (relation_text (rel_type r))), (''targetId'', JStr (rel_target r))]) (kn_relations d))),
       (''tags'', texts (kn_tags d)), (''lineageBase'', kn_base d)]"

definition knowledge_preview :: "core_memory \<Rightarrow> knowledge_draft \<Rightarrow> knowledge_item" where
  "knowledge_preview m d =
     \<lparr>item_id = ''__pending_knowledge__'', item_candidate = current_candidate m, item_at = [],
      item_draft = d\<lparr>kn_base := (if kn_scope d = LINEAGE_SCOPE then candidate_or_null (head_candidate m) else JNull)\<rparr>\<rparr>"

definition prepare_knowledge :: "(string \<Rightarrow> string \<Rightarrow> int) \<Rightarrow> jsval \<Rightarrow> core_memory \<Rightarrow> knowledge_item res" where
  "prepare_knowledge coll rec m =
     rbind (normalize_knowledge rec) (\<lambda>d.
       let x = knowledge_preview m d in
       rbind (validate_knowledge_links x (knowledge m) (feedback_id ` set (collect_feedback coll m))) (\<lambda>_. Inr x))"

text \<open>\<open>recordKnowledge\<close> of the facade: the checks are made on one load, the record on another.\<close>

definition note_knowledge ::
  "(string \<Rightarrow> string \<Rightarrow> int) \<Rightarrow> 's core_setting \<Rightarrow> jsval \<Rightarrow> 's \<Rightarrow> 's \<times> knowledge_item res" where
  "note_knowledge coll C rec st =
     (let st1 = core_others C 2 st in
      case work_state C st1 of
        Inl e \<Rightarrow> (st1, Inl e)
      | Inr d \<Rightarrow>
          (case prepare_knowledge coll rec (memory d) of
             Inl e \<Rightarrow> (st1, Inl e)
           | Inr x \<Rightarrow>
               (case record_knowledge C (Some (draft_json (item_draft x))) st1 of
                  (st2, Inl e) \<Rightarrow> (st2, Inl e)
                | (st2, Inr k) \<Rightarrow>
                    (st2, rbind (invariant (kn_scope (item_draft x) = CANDIDATE_SCOPE \<longrightarrow>
                                   candidate_key (item_candidate k) = candidate_key (current_candidate (memory d)))
                                  ''candidate-scoped knowledge must bind to the current candidate'') (\<lambda>_. Inr k)))))"

end
