(* ===== verification/Core_Search.thy ===== *)
theory Core_Search
  imports Effect_Journal Core_Knowledge
begin

section \<open>Supervising and bounding the search\<close>

text \<open>
  \<open>packages/core-harness/src/supervision.js\<close> (the health signals of a search),
  \<open>search-investment.js\<close> (the controller that decides whether another variation is worth it, and the
  policy that looks at marginal improvement) and \<open>recovery.js\<close> (what to do with a variation somebody
  left running).
\<close>

subsection \<open>Search health\<close>

record supervision_policy =
  variation_window :: int
  no_change_threshold :: int
  budget_threshold :: int
  failed_threshold :: int
  direction_threshold :: int

definition define_supervision_policy :: "supervision_policy \<Rightarrow> supervision_policy res" where
  "define_supervision_policy p =
     (let positive = (\<lambda>n label. invariant (0 < n) (label @ '' must be a positive integer'')) in
      rbind (positive (variation_window p) ''variationWindow'') (\<lambda>_.
      rbind (positive (no_change_threshold p) ''noChangeThreshold'') (\<lambda>_.
      rbind (positive (budget_threshold p) ''budgetExhaustionThreshold'') (\<lambda>_.
      rbind (positive (failed_threshold p) ''failedVariationThreshold'') (\<lambda>_.
      rbind (positive (direction_threshold p) ''repeatedFailedDirectionThreshold'') (\<lambda>_. Inr p))))))"

text \<open>\<open>toLowerCase\<close> of the characters below 256, and \<open>replace(/\textbackslash s+/g, ' ')\<close>.\<close>

definition lower_char :: "char \<Rightarrow> char" where
  "lower_char c = (let n = of_char c :: nat in if 65 \<le> n \<and> n \<le> 90 \<or> 192 \<le> n \<and> n \<le> 222 \<and> n \<noteq> 215 then char_of (n + 32) else c)"

fun squeeze :: "string \<Rightarrow> string" where
  "squeeze [] = []"
| "squeeze (c # cs) = (if \<not> js_space c then c # squeeze cs
     else case cs of [] \<Rightarrow> '' '' | d # _ \<Rightarrow> if js_space d then squeeze cs else CHR '' '' # squeeze cs)"

definition normalize_direction :: "string \<Rightarrow> string" where
  "normalize_direction s = map lower_char (squeeze (trim s))"

datatype search_signal =
    No_Change_Streak nat
  | Budget_Exhaustion nat
  | Failed_Variations nat
  | Repeated_Failed_Direction string nat
  | Knowledge_Conflict nat

record search_health =
  sh_window :: nat
  sh_no_change :: nat
  sh_budget :: nat
  sh_failed :: nat
  sh_directions :: "(string \<times> nat) list"
  sh_conflicts :: nat
  sh_signals :: "search_signal list"

definition completed_variations :: "core_memory \<Rightarrow> variation list" where
  "completed_variations m = filter (\<lambda>v. var_status v = COMPLETED_VARIATION) (variations m)"

fun count_directions :: "string list \<Rightarrow> (string \<times> nat) list \<Rightarrow> (string \<times> nat) list" where
  "count_directions [] m = m"
| "count_directions (k # ks) m =
     count_directions ks (if k = [] then m else aset k (or_else (map_of m k) 0 + 1) m)"

definition build_search_health :: "core_memory \<Rightarrow> supervision_policy \<Rightarrow> search_health" where
  "build_search_health m p =
     (let done = keep_last (variation_window p) (completed_variations m);
          streak = length (takeWhile (\<lambda>v. var_outcome v = Some NO_CHANGE) (rev done));
          budget = length (filter (\<lambda>v. var_termination v = Some BUDGET_EXHAUSTED) done);
          failed = length (filter (\<lambda>v. var_termination v \<in> {Some FAILED_TERMINATION, Some INTERRUPTED}) done);
          dead = keep_last (variation_window p * 2) (filter (\<lambda>k. kn_kind (item_draft k) = FAILED_DIRECTION) (knowledge m));
          repeated = filter (\<lambda>(s, n). direction_threshold p \<le> int n)
                       (count_directions (map (\<lambda>k. normalize_direction (kn_statement (item_draft k))) dead) []);
          conflicts = (case build_knowledge_view m of Inl _ \<Rightarrow> 0 | Inr v \<Rightarrow> length (kv_conflicts v))
      in \<lparr>sh_window = length done, sh_no_change = streak, sh_budget = budget, sh_failed = failed, sh_directions = repeated,
          sh_conflicts = conflicts,
          sh_signals =
            (if no_change_threshold p \<le> int streak then [No_Change_Streak streak] else []) @
            (if budget_threshold p \<le> int budget then [Budget_Exhaustion budget] else []) @
            (if failed_threshold p \<le> int failed then [Failed_Variations failed] else []) @
            map (\<lambda>(s, n). Repeated_Failed_Direction s n) repeated @
            (if 0 < conflicts then [Knowledge_Conflict conflicts] else [])\<rparr>)"

definition attention_suggested :: "search_health \<Rightarrow> bool" where
  "attention_suggested h \<longleftrightarrow> sh_signals h \<noteq> []"

subsection \<open>What a decision is based on\<close>

definition grounded_knowledge :: "core_memory \<Rightarrow> knowledge_item list" where
  "grounded_knowledge m = filter (\<lambda>k. kn_evidence (item_draft k) \<noteq> [] \<or> kn_feedback (item_draft k) \<noteq> []) (knowledge m)"

definition search_input :: "core_memory \<Rightarrow> search_snapshot" where
  "search_input m =
     \<lparr>seen_candidate = candidate_key (current_candidate m), seen_head = map_option candidate_key (head_candidate m),
      seen_observations = map obs_id (observations m), seen_verifications = map ver_id (verifications m),
      seen_evaluations = map eval_id (evaluations m), seen_variations = map var_id (completed_variations m),
      seen_knowledge = map item_id (grounded_knowledge m), seen_interventions = map int_id (interventions (oversight m))\<rparr>"

record search_history =
  hist_evaluations :: "evaluation list"
  hist_verifications :: "verification list"
  hist_variations :: "variation list"
  hist_knowledge :: "knowledge_item list"
  hist_interventions :: "intervention list"
  hist_lineage :: "lineage_entry list"

definition search_history_of :: "core_memory \<Rightarrow> search_history" where
  "search_history_of m =
     \<lparr>hist_evaluations = evaluations m, hist_verifications = verifications m, hist_variations = completed_variations m,
      hist_knowledge = grounded_knowledge m, hist_interventions = interventions (oversight m), hist_lineage = lineage m\<rparr>"

text \<open>\<open>policyRefsEqual\<close> compares the texts of the references.\<close>

definition policy_ref_json :: "search_policy_ref \<Rightarrow> json" where
  "policy_ref_json p = JObj [(''name'', JStr (pol_name p)), (''revision'', JStr (pol_revision p)), (''minEvaluations'', JNum (pol_minimum p)),
     (''configuration'', pol_configuration p)]"

definition same_policy_ref :: "search_policy_ref \<Rightarrow> search_policy_ref \<Rightarrow> bool" where
  "same_policy_ref a b \<longleftrightarrow> render (policy_ref_json a) = render (policy_ref_json b)"

definition decision_fresh :: "core_memory \<Rightarrow> search_decision \<Rightarrow> search_policy_ref \<Rightarrow> bool" where
  "decision_fresh m x p \<longleftrightarrow> sd_snapshot x = search_input m \<and> same_policy_ref (sd_policy x) p"

definition parse_search_state :: "jsval \<Rightarrow> search_state option" where
  "parse_search_state v = map_of [(JStr ''WARMUP'', WARMUP), (JStr ''IN_RANGE'', IN_RANGE), (JStr ''DIMINISHING_RETURNS'', DIMINISHING_RETURNS),
     (JStr ''ANOMALOUS'', ANOMALOUS), (JStr ''INSUFFICIENT_DATA'', INSUFFICIENT_DATA)] (or_null v)"

definition parse_search_action :: "jsval \<Rightarrow> search_action option" where
  "parse_search_action v =
     map_of [(JStr ''CONTINUE'', CONTINUE_SEARCH), (JStr ''STOP'', STOP_SEARCH), (JStr ''ESCALATE'', ESCALATE_SEARCH)] (or_null v)"

definition search_state_text :: "search_state \<Rightarrow> string" where
  "search_state_text s = (case s of WARMUP \<Rightarrow> ''WARMUP'' | IN_RANGE \<Rightarrow> ''IN_RANGE'' | DIMINISHING_RETURNS \<Rightarrow> ''DIMINISHING_RETURNS''
     | ANOMALOUS \<Rightarrow> ''ANOMALOUS'' | INSUFFICIENT_DATA \<Rightarrow> ''INSUFFICIENT_DATA'')"

definition search_action_text :: "search_action \<Rightarrow> string" where
  "search_action_text a = (case a of CONTINUE_SEARCH \<Rightarrow> ''CONTINUE'' | STOP_SEARCH \<Rightarrow> ''STOP'' | ESCALATE_SEARCH \<Rightarrow> ''ESCALATE'')"

definition validate_search_verdict :: "jsval \<Rightarrow> search_verdict res" where
  "validate_search_verdict v =
     rbind (invariant (is_object v) ''search investment decision is required'') (\<lambda>_.
     case parse_search_state (opt_member v ''state'') of
       None \<Rightarrow> Inl (Invariant ''search investment state is invalid'')
     | Some s \<Rightarrow>
     (case parse_search_action (opt_member v ''action'') of
        None \<Rightarrow> Inl (Invariant ''search investment action is invalid'')
      | Some a \<Rightarrow> rbind (require_text (or_null (opt_member v ''rationale'')) ''search investment rationale'') (\<lambda>why.
          Inr \<lparr>sv_state = s, sv_action = a, sv_rationale = why, sv_metrics = or_null (opt_member v ''metrics'')\<rparr>)))"

subsection \<open>The controller\<close>

record search_policy =
  sp_ref :: search_policy_ref
  sp_decide :: "port_subject \<Rightarrow> lineage_entry option \<Rightarrow> search_history \<Rightarrow> search_snapshot \<Rightarrow> jsval res"

definition define_search_policy :: "search_policy \<Rightarrow> search_policy res" where
  "define_search_policy p =
     rbind (require_text (JStr (pol_name (sp_ref p))) ''search investment policy name'') (\<lambda>_.
     rbind (require_text (JStr (pol_revision (sp_ref p))) ''search investment policy revision'') (\<lambda>_.
     rbind (invariant (0 < pol_minimum (sp_ref p)) ''search investment policy minEvaluations must be a positive integer'') (\<lambda>_.
       Inr p)))"

definition keep_decision :: "search_policy_ref \<Rightarrow> draws \<Rightarrow> jsval \<Rightarrow> core_doc \<Rightarrow> (core_doc \<times> search_decision) res" where
  "keep_decision p D raw d =
     (let m = memory d in
      rbind (validate_search_verdict raw) (\<lambda>v.
        let x = \<lparr>sd_id = draw_id D 0, sd_at = draw_at D 0, sd_candidate = current_candidate m, sd_head = head_candidate m, sd_policy = p,
                 sd_snapshot = search_input m, sd_verdict = v\<rparr> in
        Inr (d\<lparr>memory := add_event (draw_id D 1) (draw_at D 1) ''SEARCH_INVESTMENT_DECIDED''
               [(''decisionId'', JStr (sd_id x)), (''state'', JStr (search_state_text (sv_state v))),
                (''action'', JStr (search_action_text (sv_action v))), (''policy'', policy_ref_json p)]
               (m\<lparr>search_decisions := search_decisions m @ [x]\<rparr>)\<rparr>, x)))"

definition search_raw :: "search_policy \<Rightarrow> core_doc \<Rightarrow> jsval res" where
  "search_raw p d =
     (let m = memory d; verdict = (\<lambda>s a why metrics. Some (JObj [(''state'', JStr s), (''action'', JStr a), (''rationale'', JStr why), (''metrics'', metrics)])) in
      if int (length (evaluations m)) < pol_minimum (sp_ref p)
      then Inr (verdict ''WARMUP'' ''CONTINUE''
             (''need '' @ int_text (pol_minimum (sp_ref p)) @ '' grounded evaluations before trend-based search control'')
             (JObj [(''observedEvaluations'', JNum (int (length (evaluations m)))), (''minEvaluations'', JNum (pol_minimum (sp_ref p)))]))
      else (case assert_inputs_fresh m ''search investment'' of
              Inl e \<Rightarrow> Inr (verdict ''INSUFFICIENT_DATA'' ''CONTINUE''
                ''current objective evaluation is missing or stale; re-evaluate before using trend-based search control''
                (JObj [(''evaluationFreshnessError'', error_message e)]))
            | Inr _ \<Rightarrow> sp_decide p (subject_of d) (lineage_head m) (search_history_of m) (search_input m)))"

definition assess_step :: "search_policy \<Rightarrow> draws \<Rightarrow> core_doc \<Rightarrow> (core_doc \<times> search_decision) res" where
  "assess_step p D d = rbind (search_raw p d) (\<lambda>raw. keep_decision (sp_ref p) D raw d)"

definition assess_search :: "search_policy \<Rightarrow> 's core_setting \<Rightarrow> 's \<Rightarrow> 's \<times> search_decision res" where
  "assess_search p C = commit_step (core_store C) (core_session C) id (core_others C) (assess_step p (core_draws C))"

definition latest_decision :: "core_memory \<Rightarrow> search_decision option" where
  "latest_decision m = last_opt (search_decisions m)"

definition current_search :: "search_policy \<Rightarrow> 's core_setting \<Rightarrow> bool \<Rightarrow> 's \<Rightarrow> 's \<times> search_decision option res" where
  "current_search p C refresh st =
     (let st1 = core_others C 2 st in
      case load_found (core_store C) (core_session C) st1 of
        Inl e \<Rightarrow> (st1, Inl e)
      | Inr d \<Rightarrow>
          (case latest_decision (memory d) of
             Some x \<Rightarrow> if decision_fresh (memory d) x (sp_ref p) then (st1, Inr (Some x))
                        else if \<not> refresh then (st1, Inr None)
                        else (case assess_search p C st1 of (st2, r) \<Rightarrow> (st2, map_sum id Some r))
           | None \<Rightarrow> if \<not> refresh then (st1, Inr None)
                      else (case assess_search p C st1 of (st2, r) \<Rightarrow> (st2, map_sum id Some r))))"

definition search_boundary :: "search_decision \<Rightarrow> error" where
  "search_boundary x =
     (if sv_action (sd_verdict x) = ESCALATE_SEARCH
      then Contract ''SEARCH_INVESTMENT_ESCALATION_REQUIRED'' ''search investment policy requires escalation before another variation''
      else Contract ''SEARCH_INVESTMENT_STOPPED'' ''search investment policy stopped further variation'')"

definition assert_can_continue :: "search_policy option \<Rightarrow> 's core_setting \<Rightarrow> 's \<Rightarrow> 's \<times> search_decision option res" where
  "assert_can_continue policy C st =
     (case policy of
        None \<Rightarrow> (st, Inr None)
      | Some p \<Rightarrow>
          let st1 = core_others C 2 st in
          case load_found (core_store C) (core_session C) st1 of
            Inl e \<Rightarrow> (st1, Inl e)
          | Inr d \<Rightarrow>
              (case latest_decision (memory d) of
                 None \<Rightarrow> (st1, Inr None)
               | Some x \<Rightarrow>
                   (case (if decision_fresh (memory d) x (sp_ref p) then (st1, Inr x) else assess_search p C st1) of
                      (st2, Inl e) \<Rightarrow> (st2, Inl e)
                    | (st2, Inr y) \<Rightarrow>
                        (st2, if sv_action (sd_verdict y) = CONTINUE_SEARCH then Inr (Some y) else Inl (search_boundary y)))))"

subsection \<open>The marginal improvement policy\<close>

text \<open>A quality that is not a finite number is \<open>None\<close>.\<close>

record marginal_policy =
  mp_window :: int
  mp_minimum :: int
  mp_anomaly :: "int option"
  mp_quality :: "evaluation \<Rightarrow> int option res"

definition deltas_of :: "int list \<Rightarrow> int list" where
  "deltas_of qs = map2 (\<lambda>a b. b - a) qs (tl qs)"

fun quality_samples :: "(evaluation \<Rightarrow> int option res) \<Rightarrow> evaluation list \<Rightarrow> (string + (string \<times> int) list) res" where
  "quality_samples f [] = Inr (Inr [])"
| "quality_samples f (x # xs) =
     rbind (f x) (\<lambda>q. case q of
       None \<Rightarrow> Inr (Inl (eval_id x))
     | Some n \<Rightarrow> rbind (quality_samples f xs) (\<lambda>r. Inr (case r of Inl i \<Rightarrow> Inl i | Inr ss \<Rightarrow> Inr ((eval_id x, n) # ss))))"

definition int_or_null :: "int option \<Rightarrow> json" where
  "int_or_null x = (case x of None \<Rightarrow> JNull | Some n \<Rightarrow> JNum n)"

definition sample_json :: "string \<times> int \<Rightarrow> json" where
  "sample_json s = JObj [(''evaluationId'', JStr (fst s)), (''quality'', JNum (snd s))]"

definition delta_json :: "(string \<times> int) \<times> (string \<times> int) \<Rightarrow> json" where
  "delta_json p = JObj [(''fromEvaluationId'', JStr (fst (fst p))), (''toEvaluationId'', JStr (fst (snd p))), (''delta'', JNum (snd (snd p) - snd (fst p)))]"

definition marginal_verdict :: "marginal_policy \<Rightarrow> int list \<Rightarrow> search_state \<times> search_action" where
  "marginal_verdict p qs =
     (let ds = deltas_of qs; recent = keep_last (mp_window p) ds in
      if (case mp_anomaly p of None \<Rightarrow> False | Some a \<Rightarrow> (case last_opt ds of None \<Rightarrow> False | Some x \<Rightarrow> a \<le> x)) then (ANOMALOUS, ESCALATE_SEARCH)
      else if int (length recent) = mp_window p \<and> (\<forall>x \<in> set recent. x \<le> mp_minimum p) then (DIMINISHING_RETURNS, STOP_SEARCH)
      else (IN_RANGE, CONTINUE_SEARCH))"

definition marginal_decide :: "marginal_policy \<Rightarrow> search_history \<Rightarrow> jsval res" where
  "marginal_decide p h =
     (let verdict = (\<lambda>s a why metrics. Some (JObj [(''state'', JStr (search_state_text s)), (''action'', JStr (search_action_text a)),
            (''rationale'', JStr why), (''metrics'', JObj metrics)])) in
      rbind (quality_samples (mp_quality p) (hist_evaluations h)) (\<lambda>r. case r of
        Inl i \<Rightarrow> Inr (verdict INSUFFICIENT_DATA CONTINUE_SEARCH (''evaluation '' @ i @ '' has no finite quality sample'') [(''missingEvaluationId'', JStr i)])
      | Inr ss \<Rightarrow>
          let base = [(''samples'', JArr (map sample_json ss)), (''deltas'', JArr (map delta_json (zip ss (tl ss)))), (''window'', JNum (mp_window p))] in
          case marginal_verdict p (map snd ss) of
            (ANOMALOUS, a) \<Rightarrow> Inr (verdict ANOMALOUS a ''latest grounded quality jump exceeds the configured anomaly threshold''
              (base @ [(''anomalyImprovement'', int_or_null (mp_anomaly p))]))
          | (DIMINISHING_RETURNS, a) \<Rightarrow> Inr (verdict DIMINISHING_RETURNS a
              ''recent grounded quality deltas are below the configured useful-improvement threshold'' (base @ [(''minimumImprovement'', JNum (mp_minimum p))]))
          | (s, a) \<Rightarrow> Inr (verdict s a ''grounded quality history remains inside the configured useful search range''
              (base @ [(''minimumImprovement'', JNum (mp_minimum p)), (''anomalyImprovement'', int_or_null (mp_anomaly p))]))))"

definition marginal_improvement_policy :: "string \<Rightarrow> string \<Rightarrow> int \<Rightarrow> marginal_policy \<Rightarrow> search_policy res" where
  "marginal_improvement_policy name edition least p =
     rbind (invariant (0 < mp_window p) ''marginal improvement policy window must be a positive integer'') (\<lambda>_.
     define_search_policy
       \<lparr>sp_ref = \<lparr>pol_name = name, pol_revision = edition, pol_minimum = max least (mp_window p + 1),
          pol_configuration = JObj [(''kind'', JStr ''MARGINAL_IMPROVEMENT''), (''window'', JNum (mp_window p)),
            (''minimumImprovement'', JNum (mp_minimum p)), (''anomalyImprovement'', int_or_null (mp_anomaly p))]\<rparr>,
        sp_decide = (\<lambda>_ _ h _. marginal_decide p h)\<rparr>)"

subsection \<open>Recovery\<close>

record recovery_assessment =
  rec_required :: bool
  rec_stale :: bool
  rec_variation :: "variation option"
  rec_last :: "string option"

definition last_running :: "core_memory \<Rightarrow> variation option" where
  "last_running m = find (\<lambda>v. var_status v = RUNNING_VARIATION) (rev (variations m))"

text \<open>\<open>parse\<close> is \<open>Date.parse\<close>, \<open>None\<close> for a time it cannot read.\<close>

fun last_activity :: "(string \<Rightarrow> int option) \<Rightarrow> int option \<Rightarrow> string list \<Rightarrow> string \<Rightarrow> string" where
  "last_activity parse start [] latest = latest"
| "last_activity parse start (t # ts) latest =
     last_activity parse start ts
       (case (parse t, start) of
          (Some e, Some s) \<Rightarrow> if e < s then latest else (case parse latest of None \<Rightarrow> t | Some l \<Rightarrow> if l \<le> e then t else latest)
        | _ \<Rightarrow> latest)"

definition assess_recovery :: "(string \<Rightarrow> int option) \<Rightarrow> int \<Rightarrow> string \<Rightarrow> core_memory \<Rightarrow> recovery_assessment" where
  "assess_recovery parse stale_after now m =
     (case last_running m of
        None \<Rightarrow> \<lparr>rec_required = False, rec_stale = False, rec_variation = None, rec_last = None\<rparr>
      | Some v \<Rightarrow>
          let latest = last_activity parse (parse (var_started v)) (map evt_at (events m)) (var_started v) in
          \<lparr>rec_required = True,
           rec_stale = (stale_after = 0 \<or> (case (parse now, parse latest) of (Some n, Some l) \<Rightarrow> stale_after \<le> n - l | _ \<Rightarrow> False)),
           rec_variation = Some v, rec_last = Some latest\<rparr>)"

definition recovery_required :: "variation \<Rightarrow> error" where
  "recovery_required v = Contract ''RECOVERY_REQUIRED'' (''session has an interrupted or still-running variation: '' @ var_id v)"

definition interruption_json :: json where
  "interruption_json = JObj [(''name'', JStr ''VariationInterruptedError''), (''message'', JStr ''variation was recovered after interruption''),
     (''code'', JStr ''VARIATION_INTERRUPTED''), (''attemptedCapability'', JNull)]"

definition recover_variation ::
  "(string \<Rightarrow> int option) \<Rightarrow> int \<Rightarrow> string \<Rightarrow> bool \<Rightarrow> 's core_setting \<Rightarrow> 's \<Rightarrow> 's \<times> variation option res" where
  "recover_variation parse stale_after now force C st =
     (let st1 = core_others C 2 st in
      case work_state C st1 of
        Inl e \<Rightarrow> (st1, Inl e)
      | Inr d \<Rightarrow>
          (let a = assess_recovery parse stale_after now (memory d) in
           case rec_variation a of
             None \<Rightarrow> (st1, Inr None)
           | Some v \<Rightarrow>
               if \<not> force \<and> \<not> rec_stale a then (st1, Inl (recovery_required v))
               else (case complete_variation C (var_id v) INTERRUPTED (var_calls v) interruption_json st1 of
                       (st2, Inl e) \<Rightarrow> (st2, Inl e) | (st2, Inr x) \<Rightarrow> (st2, Inr (Some x)))))"

end
