(* ===== verification/Core_Session.thy ===== *)
theory Core_Session
  imports Core_Search
begin

section \<open>Sessions of an agent\<close>

text \<open>
  \<open>packages/core-harness/src/avo-harness.js\<close>: the capabilities an agent gets for one session, promotion
  that first checks the evaluation's inputs, and \<open>vary\<close>, which runs the agent's strategy under a
  budget of capability calls and closes the variation whatever the strategy did; and the part of
  \<open>harness.js\<close> around it: the recovery gate and the review of a completed variation.

  A strategy is whatever the caller supplies; a run of it is the tree of the calls it makes and of what it
  does with each answer, so that every run that ends is such a tree.  Calls are made one after another.
\<close>

subsection \<open>What the harness is made of\<close>

record verifier =
  vf_name :: string
  vf_verify :: "port_subject \<Rightarrow> observation list \<Rightarrow> verification list \<Rightarrow> json \<Rightarrow> jsval res"

text \<open>The operation number \<open>k\<close> of a run draws its identifiers from \<open>av_draws A k\<close> and meets the writers \<open>av_others A k\<close>.\<close>

record 's avo =
  av_store :: "('s, core_memory) session_store"
  av_session :: string
  av_ports :: core_ports
  av_policy :: verification_policy
  av_objective :: objective
  av_verifiers :: "verifier list"
  av_own :: "(string \<times> (json \<Rightarrow> jsval res)) list"
  av_budget :: int
  av_search :: "search_policy option"
  av_collate :: "string \<Rightarrow> string \<Rightarrow> int"
  av_call :: string
  av_draws :: "nat \<Rightarrow> draws"
  av_others :: "nat \<Rightarrow> nat \<Rightarrow> 's \<Rightarrow> 's"

definition setting_of :: "'s avo \<Rightarrow> nat \<Rightarrow> 's core_setting" where
  "setting_of A k =
     \<lparr>core_store = av_store A, core_session = av_session A,
      core_ask = (av_ports A)\<lparr>ask_evaluate := aware_evaluate (av_policy A) (av_objective A)\<rparr>, core_draws = av_draws A k, core_others = av_others A k\<rparr>"

subsection \<open>Promotion and verification\<close>

definition avo_promote :: "'s core_setting \<Rightarrow> 's \<Rightarrow> 's \<times> lineage_entry res" where
  "avo_promote C st =
     (let st1 = core_others C 2 st in
      case rbind (work_state C st1) (\<lambda>d. assert_inputs_fresh (memory d) ''promotion'') of
        Inl e \<Rightarrow> (st1, Inl e)
      | Inr _ \<Rightarrow> promote C st1)"

definition capability_name :: "verifier \<Rightarrow> string" where
  "capability_name v = ''verify.'' @ vf_name v"

text \<open>\<open>{...raw, candidate, request, source}\<close>.\<close>

definition verification_json :: "jsval \<Rightarrow> candidate \<Rightarrow> json \<Rightarrow> verifier \<Rightarrow> json" where
  "verification_json raw c req v =
     JObj (foldl (\<lambda>m (k, x). aset k x m) (spread_entries raw)
       [(''candidate'', candidate_json c), (''request'', req),
        (''source'', JObj [(''kind'', JStr ''CAPABILITY''), (''name'', JStr (capability_name v))])])"

definition verify_with :: "'s core_setting \<Rightarrow> verifier \<Rightarrow> json \<Rightarrow> 's \<Rightarrow> 's \<times> verification res" where
  "verify_with C v req st =
     (let st1 = core_others C 2 st; st2 = core_others C 3 st1; st3 = core_others C 4 st2 in
      case work_state C st1 of
        Inl e \<Rightarrow> (st1, Inl e)
      | Inr d \<Rightarrow>
          (case work_state C st2 of
             Inl e \<Rightarrow> (st2, Inl e)
           | Inr d2 \<Rightarrow>
               (case rbind (work_state C st3) (\<lambda>d3.
                       rbind (vf_verify v (subject_of d) (current_observations (memory d2)) (current_verifications (memory d3)) req) (\<lambda>raw.
                       rbind (invariant (is_object raw) (''verifier '' @ vf_name v @ '' must return a verification result'')) (\<lambda>_.
                         Inr raw))) of
                  Inl e \<Rightarrow> (st3, Inl e)
                | Inr raw \<Rightarrow> record_verification C (Some (verification_json raw (current_candidate (memory d)) req v)) st3)))"

subsection \<open>Capabilities\<close>

datatype capability =
    Cap_Observe | Cap_Act | Cap_Evaluate | Cap_Feedback | Cap_Knowledge | Cap_Record | Cap_Promote
  | Cap_Verify verifier
  | Cap_Own "json \<Rightarrow> jsval res"

datatype reply =
    Out_Observation observation
  | Out_Act act_report
  | Out_Evaluation evaluation
  | Out_Feedback "feedback_item list"
  | Out_Knowledge knowledge_view
  | Out_Recorded knowledge_item
  | Out_Promoted lineage_entry
  | Out_Verified verification
  | Out_Own jsval

definition session_capabilities :: "'s avo \<Rightarrow> (string \<times> capability) list" where
  "session_capabilities A =
     [(''avo.observe'', Cap_Observe), (''avo.act'', Cap_Act), (''avo.evaluate'', Cap_Evaluate), (''avo.queryFeedback'', Cap_Feedback),
      (''avo.queryKnowledge'', Cap_Knowledge), (''avo.recordKnowledge'', Cap_Record), (''avo.promote'', Cap_Promote)] @
     map (\<lambda>v. (capability_name v, Cap_Verify v)) (av_verifiers A)"

definition all_capabilities :: "'s avo \<Rightarrow> (string \<times> capability) list" where
  "all_capabilities A = map (\<lambda>(n, h). (n, Cap_Own h)) (av_own A) @ session_capabilities A"

text \<open>\<open>resolveCapabilities\<close> throws on a name that is there already.\<close>

definition resolve_capabilities :: "'s avo \<Rightarrow> unit res" where
  "resolve_capabilities A =
     (if distinct (map fst (all_capabilities A)) then Inr () else Inl (Invariant ''duplicate capability''))"

definition reading :: "'s core_setting \<Rightarrow> (core_doc \<Rightarrow> 'v res) \<Rightarrow> 's \<Rightarrow> 's \<times> 'v res" where
  "reading C f st = (let st1 = core_others C 2 st in (st1, rbind (work_state C st1) f))"

definition answer_with :: "('v \<Rightarrow> reply) \<Rightarrow> 's \<times> 'v res \<Rightarrow> 's \<times> reply res" where
  "answer_with f r = (fst r, map_sum id f (snd r))"

definition runtime_json :: "'s avo \<Rightarrow> json" where
  "runtime_json A = JObj [(''callId'', JStr (av_call A)), (''turn'', JNull), (''trace'', JNull)]"

text \<open>\<open>query ?? {}\<close>.\<close>

definition query_of :: "json \<Rightarrow> jsval" where
  "query_of q = Some (coalesce q (JObj []))"

definition execute_capability :: "'s avo \<Rightarrow> nat \<Rightarrow> capability \<Rightarrow> json \<Rightarrow> 's \<Rightarrow> 's \<times> reply res" where
  "execute_capability A k cap x st =
     (let C = setting_of A k in
      case cap of
        Cap_Observe \<Rightarrow> answer_with Out_Observation (observe C x (Some (runtime_json A)) st)
      | Cap_Act \<Rightarrow> answer_with Out_Act (act C x st)
      | Cap_Evaluate \<Rightarrow> answer_with Out_Evaluation (evaluate C x st)
      | Cap_Feedback \<Rightarrow> answer_with Out_Feedback (reading C (\<lambda>d. query_feedback (av_collate A) (memory d) (query_of x)) st)
      | Cap_Knowledge \<Rightarrow> answer_with Out_Knowledge (reading C (\<lambda>d. query_knowledge (memory d) (query_of x)) st)
      | Cap_Record \<Rightarrow> answer_with Out_Recorded (note_knowledge (av_collate A) C (Some x) st)
      | Cap_Promote \<Rightarrow> answer_with Out_Promoted (avo_promote C st)
      | Cap_Verify v \<Rightarrow> answer_with Out_Verified (verify_with C v x st)
      | Cap_Own h \<Rightarrow> (core_others C 2 st, map_sum id Out_Own (h x)))"

subsection \<open>Running a strategy\<close>

datatype strategy_run =
    Returns jsval
  | Throws error
  | Calls string json "reply res \<Rightarrow> strategy_run"

record 's run_state =
  rs_store :: 's
  rs_operations :: nat
  rs_calls :: int
  rs_committed :: bool
  rs_violation :: "json option"
  rs_exhausted :: bool

definition coded_error :: "string \<Rightarrow> string \<Rightarrow> string \<Rightarrow> string \<Rightarrow> error" where
  "coded_error name code message attempted =
     External (JObj [(''name'', JStr name), (''message'', JStr message), (''code'', JStr code), (''attemptedCapability'', JStr attempted)])"

definition budget_error :: "int \<Rightarrow> string \<Rightarrow> error" where
  "budget_error n name = coded_error ''CapabilityBudgetExceededError'' ''CAPABILITY_BUDGET_EXHAUSTED''
     (''variation capability budget exhausted after '' @ int_text n @ '' calls'') name"

definition closed_error :: "string \<Rightarrow> error" where
  "closed_error name = coded_error ''VariationClosedAfterCommitError'' ''VARIATION_CLOSED_AFTER_COMMIT''
     ''variation already committed; no further capability calls are allowed'' name"

definition serialize_failure :: "error \<Rightarrow> json" where
  "serialize_failure e =
     (if (case e of External v \<Rightarrow> truthy (Some v) | _ \<Rightarrow> True)
      then JObj [(''name'', error_name e), (''message'', error_message e), (''code'', error_code e),
             (''attemptedCapability'', case e of External v \<Rightarrow> jfield v ''attemptedCapability'' | _ \<Rightarrow> JNull)]
      else JNull)"

definition invoke_capability :: "'s avo \<Rightarrow> string \<Rightarrow> json \<Rightarrow> 's run_state \<Rightarrow> 's run_state \<times> reply res" where
  "invoke_capability A name x s =
     (case require_text (JStr name) ''capability name'' of
        Inl e \<Rightarrow> (s, Inl e)
      | Inr _ \<Rightarrow>
      (case map_of (all_capabilities A) name of
         None \<Rightarrow> (s, Inl (Invariant (''capability not found: '' @ name)))
       | Some cap \<Rightarrow>
           if av_budget A \<le> rs_calls s then (s\<lparr>rs_exhausted := True\<rparr>, Inl (budget_error (av_budget A) name))
           else if rs_committed s
           then (s\<lparr>rs_calls := rs_calls s + 1, rs_violation := Some (serialize_failure (closed_error name))\<rparr>, Inl (closed_error name))
           else (case execute_capability A (rs_operations s) cap x (rs_store s) of (st', r) \<Rightarrow>
                   (s\<lparr>rs_store := st', rs_operations := rs_operations s + 1, rs_calls := rs_calls s + 1,
                      rs_committed := (case cap of Cap_Promote \<Rightarrow> is_ok r | _ \<Rightarrow> False)\<rparr>, r))))"

primrec run_strategy :: "'s avo \<Rightarrow> strategy_run \<Rightarrow> 's run_state \<Rightarrow> 's run_state \<times> jsval res" where
  "run_strategy A (Returns v) = (\<lambda>s. (s, Inr v))"
| "run_strategy A (Throws e) = (\<lambda>s. (s, Inl e))"
| "run_strategy A (Calls name x k) = (\<lambda>s. case invoke_capability A name x s of (s', r) \<Rightarrow> run_strategy A (k r) s')"

subsection \<open>A variation\<close>

record strategy_input =
  vi_variation :: variation
  vi_context :: harness_context
  vi_search :: "search_decision option"
  vi_request :: json

type_synonym strategy = "strategy_input \<Rightarrow> strategy_run"

record variation_report =
  vo_variation :: variation
  vo_before :: candidate
  vo_after :: candidate
  vo_head_before :: "lineage_entry option"
  vo_head_after :: "lineage_entry option"
  vo_advanced :: bool
  vo_search :: "search_decision option"
  vo_result :: jsval
  vo_failure :: json

definition head_moved :: "lineage_entry option \<Rightarrow> lineage_entry option \<Rightarrow> bool" where
  "head_moved a b = (case (a, b) of (Some x, Some y) \<Rightarrow> candidate_key (line_candidate x) \<noteq> candidate_key (line_candidate y) | _ \<Rightarrow> False)"

text \<open>How a run ends: termination, failure, result.\<close>

definition run_ending :: "'s run_state \<Rightarrow> jsval res \<Rightarrow> variation_termination \<times> json \<times> jsval" where
  "run_ending s r =
     (case r of
        Inr v \<Rightarrow>
          (case rs_violation s of
             Some f \<Rightarrow> (FAILED_TERMINATION, f, v)
           | None \<Rightarrow> (if rs_exhausted s then BUDGET_EXHAUSTED else RETURNED, JNull, v))
      | Inl e \<Rightarrow>
          (if error_code e = JStr ''CAPABILITY_BUDGET_EXHAUSTED'' then BUDGET_EXHAUSTED else FAILED_TERMINATION,
           case rs_violation s of Some f \<Rightarrow> f | None \<Rightarrow> serialize_failure e, Some JNull))"

definition start_run :: "nat \<Rightarrow> 's \<Rightarrow> 's run_state" where
  "start_run k st = \<lparr>rs_store = st, rs_operations = k, rs_calls = 0, rs_committed = False, rs_violation = None, rs_exhausted = False\<rparr>"

definition run_agent :: "'s avo \<Rightarrow> strategy_run \<Rightarrow> nat \<Rightarrow> 's \<Rightarrow> 's run_state \<times> jsval res" where
  "run_agent A p k st =
     (case resolve_capabilities A of Inl e \<Rightarrow> (start_run k st, Inl e) | Inr _ \<Rightarrow> run_strategy A p (start_run k st))"

definition policy_json :: "'s avo \<Rightarrow> json" where
  "policy_json A = JObj [(''maxCapabilityCalls'', JNum (av_budget A))]"

definition finish_variation ::
  "'s avo \<Rightarrow> harness_context \<Rightarrow> variation \<Rightarrow> 's run_state \<times> jsval res \<Rightarrow> 's \<times> variation_report res" where
  "finish_variation A seen v rr =
     (let s = fst rr; k = rs_operations s in
      case run_ending s (snd rr) of (termination, failure, result) \<Rightarrow>
      (case complete_variation (setting_of A k) (var_id v) termination (rs_calls s) failure (rs_store s) of
         (st1, Inl e) \<Rightarrow> (st1, Inl e)
       | (st1, Inr ended) \<Rightarrow>
           (case (case av_search A of None \<Rightarrow> (st1, Inr None)
                  | Some p \<Rightarrow> (case assess_search p (setting_of A (k + 1)) st1 of (st2, r) \<Rightarrow> (st2, map_sum id Some r))) of
              (st2, Inl e) \<Rightarrow> (st2, Inl e)
            | (st2, Inr verdict) \<Rightarrow>
                reading (setting_of A (k + 2)) (\<lambda>d. Inr
                  \<lparr>vo_variation = ended, vo_before = var_base v, vo_after = current_candidate (memory d), vo_head_before = ctx_head seen,
                   vo_head_after = lineage_head (memory d), vo_advanced = head_moved (ctx_head seen) (lineage_head (memory d)),
                   vo_search = verdict, vo_result = result, vo_failure = failure\<rparr>) st2)))"

definition vary :: "'s avo \<Rightarrow> strategy \<Rightarrow> json \<Rightarrow> json \<Rightarrow> 's \<Rightarrow> 's \<times> variation_report res" where
  "vary A strategy problem req st =
     (case assert_can_continue (av_search A) (setting_of A 0) st of
        (st1, Inl e) \<Rightarrow> (st1, Inl e)
      | (st1, Inr prior) \<Rightarrow>
          (case reading (setting_of A 1) (context_of (core_ask (setting_of A 1)) problem) st1 of
             (st2, Inl e) \<Rightarrow> (st2, Inl e)
           | (st2, Inr seen) \<Rightarrow>
               (case begin_variation (setting_of A 2) problem req (policy_json A) st2 of
                  (st3, Inl e) \<Rightarrow> (st3, Inl e)
                | (st3, Inr v) \<Rightarrow>
                    finish_variation A seen v
                      (run_agent A (strategy \<lparr>vi_variation = v, vi_context = seen, vi_search = prior, vi_request = req\<rparr>) 3 st3))))"

subsection \<open>The harness around it\<close>

record harness_policy =
  hp_stale_after :: int
  hp_supervision :: supervision_policy
  hp_supervised :: bool
  hp_parse :: "string \<Rightarrow> int option"
  hp_now :: string

definition recovery_gate :: "harness_policy \<Rightarrow> core_memory \<Rightarrow> unit res" where
  "recovery_gate H m =
     (case rec_variation (assess_recovery (hp_parse H) (hp_stale_after H) (hp_now H) m) of None \<Rightarrow> Inr () | Some v \<Rightarrow> Inl (recovery_required v))"

definition harness_resume :: "harness_policy \<Rightarrow> 's core_setting \<Rightarrow> 's \<Rightarrow> 's \<times> core_doc res" where
  "harness_resume H C st =
     (case reading C (\<lambda>d. recovery_gate H (memory d)) st of
        (st1, Inl e) \<Rightarrow> (st1, Inl e)
      | (st1, Inr _) \<Rightarrow> reading (C\<lparr>core_others := \<lambda>k. core_others C (k + 1)\<rparr>) Inr st1)"

text \<open>The review of a completed variation, when its health calls for one and there is a supervisor.\<close>

definition review_step :: "core_ports \<Rightarrow> harness_policy \<Rightarrow> draws \<Rightarrow> string \<Rightarrow> core_doc \<Rightarrow> (core_doc \<times> intervention) option res" where
  "review_step P H D vid d =
     (let m = memory d; n = variation_window (hp_supervision H); dose = JObj [(''maxRecent'', JNum n)] in
      if \<not> hp_supervised H \<or> \<not> attention_suggested (build_search_health m (hp_supervision H)) then Inr None
      else
        rbind (ask_project P ''SUPERVISOR'' (JStr ''review completed variation trajectory for search stagnation or repeated failure'')
                 (progress_of d) dose) (\<lambda>seen.
        rbind (rbind (ask_inspect P (JObj [(''eventId'', JNull), (''type'', JStr ''VARIATION_COMPLETED''), (''variationId'', JStr vid)]) seen dose)
                 validate_intervention) (\<lambda>raw.
          case raw of
            None \<Rightarrow> Inr None
          | Some (why, guidance) \<Rightarrow>
              let x = \<lparr>int_id = draw_id D 0, int_at = draw_at D 0, int_candidate = current_candidate m, int_reason = why, int_guidance = guidance\<rparr>;
                  o1 = oversight m;
                  o2 = o1\<lparr>inspections := inspections o1 + 1, last_inspected := Some (draw_id D 1),
                          last_dose := Some \<lparr>dec_event = draw_id D 1, dec_practice = ''SUPERVISION'',
                            dec_dose = \<lparr>dose_enabled = True, dose_amount = dose, dose_reason = ''trajectory health requested supervisor review''\<rparr>\<rparr>,
                          interventions := interventions o1 @ [x]\<rparr>
              in Inr (Some (d\<lparr>memory := add_event (draw_id D 1) (draw_at D 0) ''SUPERVISOR_REDIRECTED''
                               [(''interventionId'', JStr (int_id x)), (''reason'', JStr why), (''triggerVariationId'', JStr vid)]
                               (m\<lparr>oversight := o2\<rparr>)\<rparr>, x)))))"

definition review_variation :: "harness_policy \<Rightarrow> string \<Rightarrow> 's core_setting \<Rightarrow> 's \<Rightarrow> 's \<times> intervention option res" where
  "review_variation H vid C st =
     (let st1 = core_others C 2 st in
      case work_state C st1 of
        Inl e \<Rightarrow> (st1, Inl e)
      | Inr d \<Rightarrow>
          let st2 = core_others C 1 st1 in
          case review_step (core_ask C) H (core_draws C) vid d of
            Inl e \<Rightarrow> (st2, Inl e)
          | Inr None \<Rightarrow> (st2, Inr None)
          | Inr (Some (d', x)) \<Rightarrow> (case save_work (core_store C) d' st2 of (st3, Inl e) \<Rightarrow> (st3, Inl e) | (st3, Inr _) \<Rightarrow> (st3, Inr (Some x))))"

text \<open>\<open>B\<close> numbers the operations of the harness itself.\<close>

definition harness_vary ::
  "harness_policy \<Rightarrow> 's avo \<Rightarrow> (nat \<Rightarrow> 's core_setting) \<Rightarrow> strategy \<Rightarrow> json \<Rightarrow> json \<Rightarrow> 's \<Rightarrow> 's \<times> (variation_report \<times> intervention option) res" where
  "harness_vary H A B strategy problem req st =
     (case reading (B 0) (\<lambda>d. recovery_gate H (memory d)) st of
        (st1, Inl e) \<Rightarrow> (st1, Inl e)
      | (st1, Inr _) \<Rightarrow>
          (case assert_can_continue (av_search A) (B 1) st1 of
             (st2, Inl e) \<Rightarrow> (st2, Inl e)
           | (st2, Inr _) \<Rightarrow>
               (case vary A strategy problem req st2 of
                  (st3, Inl e) \<Rightarrow> (st3, Inl e)
                | (st3, Inr report) \<Rightarrow>
                    (case review_variation H (var_id (vo_variation report)) (B 2) st3 of
                       (st4, Inl e) \<Rightarrow> (st4, Inl e) | (st4, Inr x) \<Rightarrow> (st4, Inr (report, x))))))"

end
