(* ===== verification/Core_Safety.thy ===== *)
theory Core_Safety
  imports Core_Session "HOL-Library.Sublist"
begin

section \<open>What every step of a search keeps\<close>

text \<open>
  The steps of \<open>core-harness.js\<close>, \<open>search-investment.js\<close> and the review of \<open>harness.js\<close> as one relation on the
  memory of a session, its invariant (the committed lineage rests on passing evaluations, the
  current candidate is the newest implementation, at most one variation runs), and the histories that
  only grow.
\<close>

subsection \<open>Steps and runs\<close>

text \<open>\<open>ok\<close> says which ports the harness is wired to.\<close>

inductive core_step :: "(core_ports \<Rightarrow> bool) \<Rightarrow> core_memory \<Rightarrow> core_memory \<Rightarrow> bool" for ok where
  Step_Observe: "observe_step P D req rt d = Inr (d', x1) \<Longrightarrow> ok P \<Longrightarrow> core_step ok (memory d) (memory d')"
| Step_Verify: "record_verification_step D rec d = Inr (d', x2) \<Longrightarrow> core_step ok (memory d) (memory d')"
| Step_Act: "act_step P D action d = Inr (d', x3) \<Longrightarrow> ok P \<Longrightarrow> core_step ok (memory d) (memory d')"
| Step_Evaluate: "evaluate_step P D req d = Inr (d', x4) \<Longrightarrow> ok P \<Longrightarrow> core_step ok (memory d) (memory d')"
| Step_Knowledge: "record_knowledge_step D rec d = Inr (d', x5) \<Longrightarrow> core_step ok (memory d) (memory d')"
| Step_Begin: "begin_variation_step D problem req policy d = Inr (d', x6) \<Longrightarrow> core_step ok (memory d) (memory d')"
| Step_Complete: "complete_variation_step D vid termination calls failure d = Inr (d', x6) \<Longrightarrow> core_step ok (memory d) (memory d')"
| Step_Promote: "promote_step D d = Inr (d', x7) \<Longrightarrow> core_step ok (memory d) (memory d')"
| Step_Search: "assess_step p D d = Inr (d', x8) \<Longrightarrow> core_step ok (memory d) (memory d')"
| Step_Review: "review_step P H D vid d = Inr (Some (d', x9)) \<Longrightarrow> ok P \<Longrightarrow> core_step ok (memory d) (memory d')"

abbreviation core_run :: "(core_ports \<Rightarrow> bool) \<Rightarrow> core_memory \<Rightarrow> core_memory \<Rightarrow> bool" where
  "core_run ok \<equiv> (core_step ok)\<^sup>*\<^sup>*"

definition first_memory :: "candidate \<Rightarrow> string \<Rightarrow> string \<Rightarrow> string \<Rightarrow> core_memory" where
  "first_memory c at i now = add_event i now ''SESSION_STARTED'' [] (seed_memory c at)"

definition core_reach :: "(core_ports \<Rightarrow> bool) \<Rightarrow> core_memory \<Rightarrow> bool" where
  "core_reach ok m \<longleftrightarrow> (\<exists>c at i now. candidate_ok c \<and> core_run ok (first_memory c at i now) m)"

lemma reach_run: "core_reach ok a \<Longrightarrow> core_run ok a b \<Longrightarrow> core_reach ok b"
  unfolding core_reach_def by (meson rtranclp_trans)

lemma reach_step: "core_reach ok a \<Longrightarrow> core_step ok a b \<Longrightarrow> core_reach ok b"
  by (blast intro: reach_run)

subsection \<open>The invariant\<close>

definition imp_keys :: "core_memory \<Rightarrow> string list" where
  "imp_keys m = map (\<lambda>i. candidate_key (imp_candidate i)) (implementations m)"

definition line_keys :: "core_memory \<Rightarrow> string list" where
  "line_keys m = map (\<lambda>e. candidate_key (line_candidate e)) (lineage m)"

definition candidates_ok :: "core_memory \<Rightarrow> bool" where
  "candidates_ok m \<longleftrightarrow> implementations m \<noteq> [] \<and> distinct (imp_keys m) \<and> imp_candidate (last (implementations m)) = current_candidate m \<and>
     (\<forall>i \<in> set (implementations m). candidate_ok (imp_candidate i))"

text \<open>\<open>b\<close> was committed on top of \<open>a\<close>, with an evaluation that passed.\<close>

definition follows :: "core_memory \<Rightarrow> lineage_entry \<Rightarrow> lineage_entry \<Rightarrow> bool" where
  "follows m a b \<longleftrightarrow>
     line_status b = PROMOTED \<and> line_parent b = Some (line_candidate a) \<and>
     (\<exists>x \<in> set (evaluations m). line_evaluation b = Some (eval_id x) \<and> candidate_key (eval_candidate x) = candidate_key (line_candidate b) \<and>
        res_validity (eval_result x) = VALID \<and> res_verdict (eval_result x) = Some VERDICT_PASS \<and> line_verifications b = eval_verifications x) \<and>
     (\<exists>i \<in> set (implementations m). imp_candidate i = line_candidate b \<and> imp_status i = PROMOTED \<and>
        (\<exists>c. imp_base i = Some c \<and> candidate_key c = candidate_key (line_candidate a)))"

definition lineage_ok :: "core_memory \<Rightarrow> bool" where
  "lineage_ok m \<longleftrightarrow> lineage m \<noteq> [] \<and> line_status (hd (lineage m)) = BASELINE \<and> subseq (line_keys m) (imp_keys m) \<and>
     successively (follows m) (lineage m) \<and> (\<forall>i \<in> set (implementations m). imp_base i = None \<longrightarrow> candidate_key (imp_candidate i) = hd (line_keys m)) \<and>
     (\<forall>i \<in> set (implementations m). imp_status i = WORKING \<longleftrightarrow> candidate_key (imp_candidate i) \<notin> set (line_keys m))"

definition variation_ok :: "variation \<Rightarrow> bool" where
  "variation_ok v \<longleftrightarrow> var_start v \<noteq> None \<and>
     (var_status v = COMPLETED_VARIATION \<longrightarrow> var_termination v \<noteq> None \<and> var_completed v \<noteq> None \<and>
        (\<exists>s e. var_start v = Some s \<and> var_end v = Some e \<and> var_activity v = Some (activity_delta s e) \<and>
           var_outcome v = Some (classify_outcome (activity_delta s e))))"

definition variations_ok :: "core_memory \<Rightarrow> bool" where
  "variations_ok m \<longleftrightarrow> length (filter (\<lambda>v. var_status v = RUNNING_VARIATION) (variations m)) \<le> 1 \<and> (\<forall>v \<in> set (variations m). variation_ok v)"

definition core_ok :: "core_memory \<Rightarrow> bool" where
  "core_ok m \<longleftrightarrow> candidates_ok m \<and> lineage_ok m \<and> variations_ok m"

definition same_work :: "core_memory \<Rightarrow> core_memory \<Rightarrow> bool" where
  "same_work a b \<longleftrightarrow> current_candidate a = current_candidate b \<and> implementations a = implementations b \<and> lineage a = lineage b \<and>
     set (evaluations a) \<subseteq> set (evaluations b)"

lemma follows_mono:
  assumes "follows m a b" "set (evaluations m) \<subseteq> set (evaluations m')"
    "\<And>i. i \<in> set (implementations m) \<Longrightarrow> imp_status i = PROMOTED \<Longrightarrow> i \<in> set (implementations m')"
  shows "follows m' a b"
  using assms unfolding follows_def by blast

lemma lineage_ok_frame: "lineage_ok m \<Longrightarrow> same_work m m' \<Longrightarrow> lineage_ok m'"
  unfolding lineage_ok_def same_work_def line_keys_def imp_keys_def
  by (auto intro: follows_mono elim!: successively_mono)

lemma candidates_ok_frame: "candidates_ok m \<Longrightarrow> same_work m m' \<Longrightarrow> candidates_ok m'"
  by (auto simp: candidates_ok_def same_work_def imp_keys_def)

lemma core_ok_frame: "core_ok m \<Longrightarrow> same_work m m' \<Longrightarrow> variations_ok m' \<Longrightarrow> core_ok m'"
  by (auto simp: core_ok_def intro: lineage_ok_frame candidates_ok_frame)

subsection \<open>Histories\<close>

definition imp_origin :: "implementation \<Rightarrow> candidate \<times> candidate option \<times> candidate option \<times> string" where
  "imp_origin i = (imp_candidate i, imp_parent i, imp_base i, imp_created i)"

definition core_evolves :: "core_memory \<Rightarrow> core_memory \<Rightarrow> bool" where
  "core_evolves a b \<longleftrightarrow> prefix (observations a) (observations b) \<and> prefix (verifications a) (verifications b) \<and>
     prefix (evaluations a) (evaluations b) \<and> prefix (knowledge a) (knowledge b) \<and> prefix (search_decisions a) (search_decisions b) \<and>
     prefix (lineage a) (lineage b) \<and> prefix (events a) (events b) \<and> prefix (interventions (oversight a)) (interventions (oversight b)) \<and>
     prefix (map imp_origin (implementations a)) (map imp_origin (implementations b)) \<and>
     prefix (map var_id (variations a)) (map var_id (variations b))"

lemma core_evolves_refl [simp]: "core_evolves m m"
  by (simp add: core_evolves_def)

lemma core_evolves_trans: "core_evolves a b \<Longrightarrow> core_evolves b c \<Longrightarrow> core_evolves a c"
  unfolding core_evolves_def by (blast intro: prefix_order.trans)

text \<open>What an inspection adds: an oversight with more interventions, and events.\<close>

definition annotated :: "core_memory \<Rightarrow> core_memory \<Rightarrow> bool" where
  "annotated a b \<longleftrightarrow> (\<exists>o2 es. b = a\<lparr>oversight := o2, events := events a @ es\<rparr> \<and> prefix (interventions (oversight a)) (interventions o2))"

lemma annotated_same: "annotated a b \<Longrightarrow> core_evolves a b \<and> same_work a b \<and> variations b = variations a \<and> verifications b = verifications a \<and>
    observations b = observations a \<and> evaluations b = evaluations a"
  by (auto simp: annotated_def core_evolves_def same_work_def)

lemma add_event_memory [simp]:
  "current_candidate (add_event i at t p m) = current_candidate m" "implementations (add_event i at t p m) = implementations m"
  "observations (add_event i at t p m) = observations m" "verifications (add_event i at t p m) = verifications m"
  "evaluations (add_event i at t p m) = evaluations m" "knowledge (add_event i at t p m) = knowledge m"
  "variations (add_event i at t p m) = variations m" "search_decisions (add_event i at t p m) = search_decisions m"
  "lineage (add_event i at t p m) = lineage m" "oversight (add_event i at t p m) = oversight m"
  by (simp_all add: add_event_def)

lemma events_add_event: "\<exists>e. events (add_event i at t p m) = events m @ [e]"
  by (simp add: add_event_def)

lemma add_event_annotates: "annotated m (add_event i at t p m)"
  by (auto simp: annotated_def add_event_def intro!: exI [where x = "oversight m"])

lemma annotatedI: "prefix (interventions (oversight a)) (interventions o2) \<Longrightarrow> annotated a (a\<lparr>oversight := o2\<rparr>)"
  unfolding annotated_def by (rule exI [where x = o2], rule exI [where x = "[]"]) simp

lemma annotated_trans: "annotated a b \<Longrightarrow> annotated b c \<Longrightarrow> annotated a c"
proof -
  assume "annotated a b" "annotated b c"
  then obtain o1 e1 o2 e2 where b: "b = a\<lparr>oversight := o1, events := events a @ e1\<rparr>" "prefix (interventions (oversight a)) (interventions o1)"
    and c: "c = b\<lparr>oversight := o2, events := events b @ e2\<rparr>" "prefix (interventions (oversight b)) (interventions o2)"
    unfolding annotated_def by blast
  then have "c = a\<lparr>oversight := o2, events := events a @ (e1 @ e2)\<rparr>" "prefix (interventions (oversight a)) (interventions o2)"
    by (auto intro: prefix_order.trans)
  then show ?thesis unfolding annotated_def by blast
qed

text \<open>\<open>b\<close> is \<open>a\<close> with one more event of a type.\<close>

definition logged :: "string \<Rightarrow> core_memory \<Rightarrow> core_memory \<Rightarrow> bool" where
  "logged type a b \<longleftrightarrow> (\<exists>i at p. b = add_event i at type p a)"

lemma loggedI [simp, intro]: "logged type a (add_event i at type p a)"
  by (auto simp: logged_def)

lemma logged_annotates: "logged type a b \<Longrightarrow> annotated a b"
  by (auto simp: logged_def add_event_annotates)

lemma inspected_annotates:
  "prefix (interventions (oversight m)) (interventions o2) \<Longrightarrow> annotated m (add_event i at type p (m\<lparr>oversight := o2\<rparr>))"
  by (rule annotated_trans [OF annotatedI add_event_annotates])

lemma inspect_progress_annotates:
  assumes "inspect_progress P D k t d = Inr (d', dose, x)"
  shows "annotated (memory d) (memory d')"
proof -
  obtain dd where dd: "decide_dose P SUPERVISION (trigger_json t) JNull d = Inr dd"
    using assms by (auto simp: inspect_progress_def)
  show ?thesis
  proof (cases "dose_enabled dd")
    case False
    with assms dd show ?thesis by (auto simp: inspect_progress_def Let_def intro!: annotatedI)
  next
    case True
    with assms dd show ?thesis
      by (simp add: inspect_progress_def Let_def) (elim exE conjE, auto split: option.splits intro!: annotatedI inspected_annotates)
  qed
qed

lemma update_first_map: "(\<And>x. g (f x) = g x) \<Longrightarrow> map g (update_first p f xs) = map g xs"
  by (induction xs) auto

lemma set_update_first: "x \<in> set (update_first p f xs) \<Longrightarrow> x \<in> set xs \<or> (\<exists>y \<in> set xs. p y \<and> x = f y)"
  by (induction xs) (auto split: if_splits)

lemma update_first_keeps: "x \<in> set xs \<Longrightarrow> \<not> p x \<Longrightarrow> x \<in> set (update_first p f xs)"
  by (induction xs) auto

lemma length_update_first [simp]: "length (update_first p f xs) = length xs"
  by (induction xs) auto

lemma find_split: "find p xs = Some x \<Longrightarrow> x \<in> set xs \<and> p x"
  by (auto simp: find_Some_iff)

lemma update_first_split: "find p xs = Some x \<Longrightarrow> \<exists>ys zs. xs = ys @ x # zs \<and> update_first p f xs = ys @ f x # zs"
proof (induction xs)
  case (Cons y ys)
  show ?case
  proof (cases "p y")
    case True
    with Cons.prems show ?thesis by (auto intro: exI [where x = "[]"])
  next
    case False
    with Cons obtain us zs where "ys = us @ x # zs" "update_first p f ys = us @ f x # zs" by auto
    with False have "y # ys = (y # us) @ x # zs \<and> update_first p f (y # ys) = (y # us) @ f x # zs" by simp
    then show ?thesis by blast
  qed
qed simp

subsection \<open>Each step\<close>

definition step_fine :: "core_memory \<Rightarrow> core_memory \<Rightarrow> bool" where
  "step_fine m m' \<longleftrightarrow> core_evolves m m' \<and> (core_ok m \<longrightarrow> core_ok m')"

lemma step_fine_trans: "step_fine a b \<Longrightarrow> step_fine b c \<Longrightarrow> step_fine a c"
  unfolding step_fine_def by (blast intro: core_evolves_trans)

lemma step_fine_refl: "step_fine m m"
  by (simp add: step_fine_def)

lemma step_fineI: "core_evolves m m' \<Longrightarrow> same_work m m' \<Longrightarrow> variations m' = variations m \<Longrightarrow> step_fine m m'"
  by (auto simp: step_fine_def core_ok_def variations_ok_def intro: lineage_ok_frame candidates_ok_frame)

lemma annotated_fine: "annotated m m' \<Longrightarrow> step_fine m m'"
  using annotated_same step_fineI by blast

lemma logged_fine: "logged type m1 m' \<Longrightarrow> step_fine m m1 \<Longrightarrow> step_fine m m'"
  by (blast intro: step_fine_trans annotated_fine logged_annotates)

text \<open>The shape of what each step writes.\<close>

lemma observe_shape: "observe_step P D req rt d = Inr (d', x) \<Longrightarrow>
    obs_candidate x = current_candidate (memory d) \<and>
    logged ''OBSERVED'' (memory d\<lparr>observations := observations (memory d) @ [x]\<rparr>) (memory d')"
  by (auto simp: observe_step_def define_observation_def Let_def)

lemma verify_shape: "record_verification_step D rec d = Inr (d', x) \<Longrightarrow>
    candidate_key (vr_candidate (ver_record x)) = candidate_key (current_candidate (memory d)) \<and>
    logged ''VERIFIED'' (memory d\<lparr>verifications := verifications (memory d) @ [x]\<rparr>) (memory d')"
  by (auto simp: record_verification_step_def Let_def)

lemma knowledge_shape: "record_knowledge_step D rec d = Inr (d', x) \<Longrightarrow>
    item_candidate x = current_candidate (memory d) \<and> validate_knowledge_record rec = Inr (item_draft x) \<and>
    logged ''KNOWLEDGE_RECORDED'' (memory d\<lparr>knowledge := knowledge (memory d) @ [x]\<rparr>) (memory d')"
  by (auto simp: record_knowledge_step_def Let_def)

lemma search_shape: "assess_step p D d = Inr (d', x) \<Longrightarrow>
    sd_snapshot x = search_input (memory d) \<and> sd_policy x = sp_ref p \<and>
    logged ''SEARCH_INVESTMENT_DECIDED'' (memory d\<lparr>search_decisions := search_decisions (memory d) @ [x]\<rparr>) (memory d')"
  by (auto simp: assess_step_def keep_decision_def Let_def)

lemma review_shape: "review_step P H D vid d = Inr (Some (d', x)) \<Longrightarrow>
    interventions (oversight (memory d')) = interventions (oversight (memory d)) @ [x] \<and> annotated (memory d) (memory d')"
  by (auto simp: review_step_def Let_def split: if_splits option.splits intro!: inspected_annotates)

lemma evaluate_shape:
  assumes "evaluate_step P D req d = Inr (d', x)"
  shows "eval_candidate x = current_candidate (memory d) \<and> eval_verifications x = map ver_id (current_verifications (memory d)) \<and>
    (\<exists>v. ask_evaluate P (subject_of d) (current_observations (memory d)) (current_verifications (memory d)) req = Inr v \<and>
       validate_evaluation v = Inr (eval_result x)) \<and>
    annotated (memory d\<lparr>evaluations := evaluations (memory d) @ [x]\<rparr>) (memory d')"
  using assms by (auto simp: evaluate_step_def Let_def dest!: inspect_progress_annotates intro: annotated_trans [OF add_event_annotates])

lemmas fine_simps = core_evolves_def same_work_def

lemma observe_fine: "observe_step P D req rt d = Inr (d', x) \<Longrightarrow> step_fine (memory d) (memory d')"
  by (drule observe_shape, elim conjE, rule logged_fine, assumption, rule step_fineI) (simp_all add: fine_simps)

lemma verify_fine: "record_verification_step D rec d = Inr (d', x) \<Longrightarrow> step_fine (memory d) (memory d')"
  by (drule verify_shape, elim conjE exE, rule logged_fine, assumption, rule step_fineI) (simp_all add: fine_simps)

lemma knowledge_fine: "record_knowledge_step D rec d = Inr (d', x) \<Longrightarrow> step_fine (memory d) (memory d')"
  by (drule knowledge_shape, elim conjE exE, rule logged_fine, assumption, rule step_fineI) (simp_all add: fine_simps)

lemma search_fine: "assess_step p D d = Inr (d', x) \<Longrightarrow> step_fine (memory d) (memory d')"
  by (drule search_shape, elim conjE exE, rule logged_fine, assumption, rule step_fineI) (simp_all add: fine_simps)

lemma review_fine: "review_step P H D vid d = Inr (Some (d', x)) \<Longrightarrow> step_fine (memory d) (memory d')"
  by (drule review_shape) (simp add: annotated_fine)

lemma evaluate_fine:
  assumes "evaluate_step P D req d = Inr (d', x)"
  shows "step_fine (memory d) (memory d')"
proof -
  have "step_fine (memory d) (memory d\<lparr>evaluations := evaluations (memory d) @ [x]\<rparr>)"
    by (rule step_fineI) (auto simp: fine_simps)
  with evaluate_shape [OF assms] show ?thesis by (blast intro: step_fine_trans annotated_fine)
qed

subsubsection \<open>Variations\<close>

lemma running_count: "running_variation m = None \<Longrightarrow> filter (\<lambda>v. var_status v = RUNNING_VARIATION) (variations m) = []"
  by (auto simp: running_variation_def find_None_iff filter_empty_conv)

lemma begin_shape:
  assumes "begin_variation_step D problem req policy d = Inr (d', x)"
  shows "running_variation (memory d) = None" "var_status x = RUNNING_VARIATION" "var_base x = current_candidate (memory d)"
    "\<exists>y. var_start x = Some (snapshot_of (variation_started D y (memory d))) \<and>
       memory d' = (variation_started D y (memory d))\<lparr>variations := variations (memory d) @ [x]\<rparr>"
  using assms by (auto simp: begin_variation_step_def Let_def new_variation_def)

lemma begin_fine:
  assumes "begin_variation_step D problem req policy d = Inr (d', x)"
  shows "step_fine (memory d) (memory d')"
proof -
  obtain y where start: "var_start x = Some (snapshot_of (variation_started D y (memory d)))"
    and d': "memory d' = (variation_started D y (memory d))\<lparr>variations := variations (memory d) @ [x]\<rparr>"
    using begin_shape(4) [OF assms] by blast
  have "core_evolves (memory d) (memory d')" "same_work (memory d) (memory d')"
    by (simp_all add: d' variation_started_def add_event_def fine_simps)
  moreover have "variations_ok (memory d) \<Longrightarrow> variations_ok (memory d')"
    using begin_shape(2) [OF assms] start running_count [OF begin_shape(1) [OF assms]] by (auto simp: variations_ok_def variation_ok_def d')
  ultimately show ?thesis unfolding step_fine_def by (metis core_ok_def core_ok_frame)
qed

lemma complete_shape:
  assumes "complete_variation_step D vid termination calls failure d = Inr (d', y)"
  obtains x start where "find (\<lambda>v. var_id v = vid) (variations (memory d)) = Some x" "var_status x = RUNNING_VARIATION" "var_start x = Some start"
    "var_id y = var_id x" "var_status y = COMPLETED_VARIATION" "var_start y = Some start" "var_end y = Some (snapshot_of (memory d))"
    "var_activity y = Some (activity_delta start (snapshot_of (memory d)))" "var_termination y = Some termination" "var_calls y = calls"
    "var_outcome y = Some (classify_outcome (activity_delta start (snapshot_of (memory d))))" "var_completed y \<noteq> None" "var_failure y = failure"
    "logged ''VARIATION_COMPLETED'' (memory d\<lparr>variations := update_first (\<lambda>v. var_id v = vid) (\<lambda>_. y) (variations (memory d))\<rparr>) (memory d')"
  using assms by (auto simp: complete_variation_step_def Let_def split: option.splits)

lemma variations_ok_split:
  assumes "variations_ok m" "variations m = us @ x # ws" "variations m' = us @ y # ws" "variation_ok y"
    "var_status x = RUNNING_VARIATION" "var_status y = COMPLETED_VARIATION"
  shows "variations_ok m' \<and> running_variation m' = None"
  using assms by (auto simp: variations_ok_def running_variation_def find_None_iff filter_empty_conv Suc_le_eq)

lemma complete_fine:
  assumes "complete_variation_step D vid termination calls failure d = Inr (d', y)"
  shows "step_fine (memory d) (memory d')" "variations_ok (memory d) \<Longrightarrow> running_variation (memory d') = None"
proof -
  obtain x start where found: "find (\<lambda>v. var_id v = vid) (variations (memory d)) = Some x" and x: "var_status x = RUNNING_VARIATION" "var_start x = Some start"
    and y: "var_id y = var_id x" "var_status y = COMPLETED_VARIATION" "var_start y = Some start" "var_end y = Some (snapshot_of (memory d))"
      "var_activity y = Some (activity_delta start (snapshot_of (memory d)))" "var_termination y = Some termination"
      "var_outcome y = Some (classify_outcome (activity_delta start (snapshot_of (memory d))))" "var_completed y \<noteq> None"
    and log: "logged ''VARIATION_COMPLETED'' (memory d\<lparr>variations := update_first (\<lambda>v. var_id v = vid) (\<lambda>_. y) (variations (memory d))\<rparr>) (memory d')"
    by (rule complete_shape [OF assms]) blast
  obtain us ws where split: "variations (memory d) = us @ x # ws"
      "update_first (\<lambda>v. var_id v = vid) (\<lambda>_. y) (variations (memory d)) = us @ y # ws"
    using update_first_split [OF found] by blast
  define m1 where "m1 = memory d\<lparr>variations := us @ y # ws\<rparr>"
  have "variation_ok y" using y by (auto simp: variation_ok_def)
  then have ok: "variations_ok (memory d) \<Longrightarrow> variations_ok m1 \<and> running_variation m1 = None"
    using variations_ok_split [of "memory d" us x ws m1 y] split x y by (simp add: m1_def)
  have "core_evolves (memory d) m1" "same_work (memory d) m1" using split y by (simp_all add: m1_def fine_simps)
  with ok have "step_fine (memory d) m1" unfolding step_fine_def by (metis core_ok_def core_ok_frame)
  moreover have log1: "logged ''VARIATION_COMPLETED'' m1 (memory d')" using log split by (simp add: m1_def)
  ultimately show "step_fine (memory d) (memory d')" by (blast intro: logged_fine)
  show "variations_ok (memory d) \<Longrightarrow> running_variation (memory d') = None"
    using ok log1 by (auto simp: logged_def running_variation_def)
qed

subsubsection \<open>Candidates and lineage\<close>

definition admitted :: "candidate \<Rightarrow> string \<Rightarrow> core_memory \<Rightarrow> core_memory" where
  "admitted c at m = m\<lparr>current_candidate := c, implementations := implementations m @
     [\<lparr>imp_candidate = c, imp_parent = Some (current_candidate m), imp_base = head_candidate m, imp_status = WORKING,
       imp_created = at, imp_promoted = None\<rparr>]\<rparr>"

lemma find_implementation_None: "find_implementation m c = None \<longleftrightarrow> candidate_key c \<notin> set (imp_keys m)"
  unfolding find_implementation_def find_None_iff imp_keys_def by force

lemma candidate_after_Inr:
  assumes "candidate_after v at m = Inr m1"
  obtains (stays) "\<not> reports_mutation v" "m1 = m"
  | (moves) c where "reports_mutation v" "candidate_ok c" "candidate_key c \<notin> set (imp_keys m)" "candidate_key (current_candidate m) \<noteq> candidate_key c"
      "m1 = admitted c at m"
proof (cases "reports_mutation v")
  case True
  with assms show ?thesis
    by (intro moves [of "current_candidate m1"]) (auto simp: candidate_after_def admit_candidate_def admitted_def find_implementation_None normalize_candidate_ok)
next
  case False
  with assms show ?thesis by (intro stays) (auto simp: candidate_after_def split: if_splits)
qed

lemma act_shape:
  assumes "act_step P D action d = Inr (d', r)"
  obtains v m1 where "candidate_after v (draw_at D 0) (memory d) = Inr m1" "annotated m1 (memory d')" "act_mutated r = reports_mutation v"
    "act_candidate r = current_candidate m1"
proof -
  obtain v m1 i at p d2 where "candidate_after v (draw_at D 0) (memory d) = Inr m1" "act_mutated r = reports_mutation v"
      "act_candidate r = current_candidate m1" "annotated (add_event i at ''ACTED'' p m1) (memory d')"
    using assms by (auto simp: act_step_def Let_def dest!: inspect_progress_annotates)
  with that show thesis by (meson add_event_annotates annotated_trans)
qed

lemma lineage_keys_known:
  assumes "lineage_ok m" "k \<in> set (line_keys m)"
  shows "k \<in> set (imp_keys m)"
proof -
  have "subseq [k] (line_keys m)" "subseq (line_keys m) (imp_keys m)"
    using assms by (simp_all add: subseq_singleton_left lineage_ok_def)
  then have "subseq [k] (imp_keys m)" by (rule subseq_order.trans)
  then show ?thesis by (simp add: subseq_singleton_left)
qed

lemma admitted_fine:
  assumes "candidate_ok c" "candidate_key c \<notin> set (imp_keys m)"
  shows "step_fine m (admitted c at m)"
proof -
  have "core_evolves m (admitted c at m)" by (simp add: admitted_def fine_simps)
  moreover have "core_ok (admitted c at m)" if ok: "core_ok m"
  proof -
    have keys: "imp_keys (admitted c at m) = imp_keys m @ [candidate_key c]" "line_keys (admitted c at m) = line_keys m"
      by (simp_all add: imp_keys_def line_keys_def admitted_def)
    have lin: "lineage_ok m" and can: "candidates_ok m" using ok by (simp_all add: core_ok_def)
    have "candidates_ok (admitted c at m)"
      using can assms by (simp add: candidates_ok_def keys) (simp add: admitted_def)
    moreover have "lineage_ok (admitted c at m)"
    proof -
      have "candidate_key c \<notin> set (line_keys m)" using lineage_keys_known [OF lin] assms(2) by blast
      moreover have "head_candidate m \<noteq> None" using lin by (simp add: lineage_ok_def head_candidate_def lineage_head_def last_opt_def)
      moreover have "successively (follows (admitted c at m)) (lineage m)"
        using lin by (auto simp: lineage_ok_def admitted_def intro: follows_mono elim!: successively_mono)
      ultimately show ?thesis using lin by (auto simp: lineage_ok_def keys subseq_rev_drop_many) (auto simp: admitted_def)
    qed
    moreover have "variations_ok (admitted c at m)" using ok by (simp add: core_ok_def variations_ok_def admitted_def)
    ultimately show ?thesis by (simp add: core_ok_def)
  qed
  ultimately show ?thesis by (simp add: step_fine_def)
qed

lemma act_fine:
  assumes "act_step P D action d = Inr (d', r)"
  shows "step_fine (memory d) (memory d')"
proof -
  obtain v m1 where after: "candidate_after v (draw_at D 0) (memory d) = Inr m1" and rest: "annotated m1 (memory d')"
    by (rule act_shape [OF assms])
  have "step_fine (memory d) m1"
    by (rule candidate_after_Inr [OF after]) (simp_all add: step_fine_refl admitted_fine)
  with rest show ?thesis by (blast intro: step_fine_trans annotated_fine)
qed

lemma subseq_snoc:
  assumes "subseq xs (ys @ [y])" "xs \<noteq> []" "last xs \<noteq> y"
  shows "subseq xs ys"
proof -
  obtain us ws where xs: "xs = us @ ws" and us: "subseq us ys" and ws: "subseq ws [y]"
    using assms(1) by (auto elim: subseq_appendE)
  have "ws = []"
  proof (rule ccontr)
    assume "ws \<noteq> []"
    then have "last ws \<in> set ws" by simp
    then have "subseq [last ws] ws" by (simp add: subseq_singleton_left)
    then have "subseq [last ws] [y]" using ws by (rule subseq_order.trans)
    then have "last ws = y" by (simp split: if_splits)
    with assms(3) xs \<open>ws \<noteq> []\<close> show False by simp
  qed
  with xs us show ?thesis by simp
qed

lemma distinct_last: "distinct (map f (ys @ [x])) \<Longrightarrow> i \<in> set (ys @ [x]) \<Longrightarrow> f i = f x \<Longrightarrow> i = x"
  by (auto simp: image_iff)

definition committed :: "string \<Rightarrow> lineage_entry \<Rightarrow> core_memory \<Rightarrow> core_memory" where
  "committed at e m = m\<lparr>implementations := update_first (\<lambda>j. candidate_key (imp_candidate j) = candidate_key (current_candidate m))
     (\<lambda>j. j\<lparr>imp_status := PROMOTED, imp_promoted := Some at\<rparr>) (implementations m), lineage := lineage m @ [e]\<rparr>"

lemma promote_shape:
  assumes "promote_step D d = Inr (d', e)"
  obtains x h i where "current_evaluation (memory d) = Some x" "res_validity (eval_result x) = VALID" "res_verdict (eval_result x) = Some VERDICT_PASS"
    "lineage_head (memory d) = Some h" "candidate_key (line_candidate h) \<noteq> candidate_key (current_candidate (memory d))"
    "find_implementation (memory d) (current_candidate (memory d)) = Some i"
    "case imp_base i of None \<Rightarrow> True | Some b \<Rightarrow> candidate_key b = candidate_key (line_candidate h)"
    "line_status e = PROMOTED" "line_candidate e = current_candidate (memory d)" "line_parent e = Some (line_candidate h)"
    "line_evaluation e = Some (eval_id x)" "line_verifications e = eval_verifications x"
    "logged ''PROMOTED'' (committed (draw_at D 0) e (memory d)) (memory d')"
proof -
  obtain x where x: "current_evaluation (memory d) = Some x" using assms by (auto simp: promote_step_def Let_def split: option.splits)
  obtain h where h: "lineage_head (memory d) = Some h" using assms x by (auto simp: promote_step_def Let_def split: option.splits)
  obtain i where i: "find_implementation (memory d) (current_candidate (memory d)) = Some i"
    using assms x h by (auto simp: promote_step_def Let_def split: option.splits)
  have "res_validity (eval_result x) = VALID \<and> res_verdict (eval_result x) = Some VERDICT_PASS \<and>
      candidate_key (line_candidate h) \<noteq> candidate_key (current_candidate (memory d)) \<and>
      (case imp_base i of None \<Rightarrow> True | Some b \<Rightarrow> candidate_key b = candidate_key (line_candidate h)) \<and>
      line_status e = PROMOTED \<and> line_candidate e = current_candidate (memory d) \<and> line_parent e = Some (line_candidate h) \<and>
      line_evaluation e = Some (eval_id x) \<and> line_verifications e = eval_verifications x \<and>
      logged ''PROMOTED'' (committed (draw_at D 0) e (memory d)) (memory d')"
    using assms x h i by (auto simp: promote_step_def Let_def committed_def)
  with that x h i show thesis by blast
qed

lemma current_evaluation_in: "current_evaluation m = Some x \<Longrightarrow> x \<in> set (evaluations m) \<and> candidate_key (eval_candidate x) = candidate_key (current_candidate m)"
  unfolding current_evaluation_def by (drule find_split) simp

text \<open>A candidate that is not the head of the lineage is nowhere in it.\<close>

lemma current_uncommitted:
  assumes can: "candidates_ok m" and lin: "lineage_ok m" and head: "lineage_head m = Some h"
    and new: "candidate_key (line_candidate h) \<noteq> candidate_key (current_candidate m)"
  obtains ys i where "implementations m = ys @ [i]" "imp_candidate i = current_candidate m"
    "subseq (line_keys m) (map (\<lambda>j. candidate_key (imp_candidate j)) ys)" "candidate_key (current_candidate m) \<notin> set (line_keys m)"
proof -
  obtain ys i where imps: "implementations m = ys @ [i]" using can unfolding candidates_ok_def by (metis append_butlast_last_id)
  have i: "imp_candidate i = current_candidate m" using can imps by (simp add: candidates_ok_def)
  have keys: "imp_keys m = map (\<lambda>j. candidate_key (imp_candidate j)) ys @ [candidate_key (current_candidate m)]" by (simp add: imp_keys_def imps i)
  have ne: "lineage m \<noteq> []" "last (lineage m) = h" using head by (auto simp: lineage_head_def last_opt_def split: if_splits)
  have sub: "subseq (line_keys m) (map (\<lambda>j. candidate_key (imp_candidate j)) ys)"
  proof (rule subseq_snoc)
    show "subseq (line_keys m) (map (\<lambda>j. candidate_key (imp_candidate j)) ys @ [candidate_key (current_candidate m)])"
      using lin by (simp add: lineage_ok_def keys)
    show "line_keys m \<noteq> []" "last (line_keys m) \<noteq> candidate_key (current_candidate m)"
      using ne new by (simp_all add: line_keys_def last_map)
  qed
  moreover have "candidate_key (current_candidate m) \<notin> set (line_keys m)"
  proof
    assume "candidate_key (current_candidate m) \<in> set (line_keys m)"
    then have "subseq [candidate_key (current_candidate m)] (line_keys m)" by (simp add: subseq_singleton_left)
    then have "subseq [candidate_key (current_candidate m)] (map (\<lambda>j. candidate_key (imp_candidate j)) ys)" using sub by (rule subseq_order.trans)
    then show False using can by (simp add: candidates_ok_def keys subseq_singleton_left)
  qed
  ultimately show thesis using that imps i by blast
qed

lemma update_first_snoc: "\<forall>y \<in> set ys. \<not> p y \<Longrightarrow> p x \<Longrightarrow> update_first p f (ys @ [x]) = ys @ [f x]"
  by (induction ys) auto

lemma promote_fine:
  assumes "promote_step D d = Inr (d', e)"
  shows "step_fine (memory d) (memory d')"
proof -
  define m c where "m = memory d" and "c = current_candidate m"
  obtain x h i where x: "current_evaluation m = Some x" "res_validity (eval_result x) = VALID" "res_verdict (eval_result x) = Some VERDICT_PASS"
    and h: "lineage_head m = Some h" "candidate_key (line_candidate h) \<noteq> candidate_key c"
    and i: "find_implementation m c = Some i" "case imp_base i of None \<Rightarrow> True | Some b \<Rightarrow> candidate_key b = candidate_key (line_candidate h)"
    and e: "line_status e = PROMOTED" "line_candidate e = c" "line_parent e = Some (line_candidate h)"
      "line_evaluation e = Some (eval_id x)" "line_verifications e = eval_verifications x"
    and log: "logged ''PROMOTED'' (committed (draw_at D 0) e m) (memory d')"
    unfolding m_def c_def by (rule promote_shape [OF assms])
  define at where "at = draw_at D 0"
  define g where "g = (\<lambda>j :: implementation. j\<lparr>imp_status := PROMOTED, imp_promoted := Some at\<rparr>)"
  define m1 where "m1 = m\<lparr>implementations := update_first (\<lambda>j. candidate_key (imp_candidate j) = candidate_key c) g (implementations m), lineage := lineage m @ [e]\<rparr>"
  have g: "imp_candidate (g j) = imp_candidate j" "imp_base (g j) = imp_base j" "imp_status (g j) = PROMOTED" "imp_origin (g j) = imp_origin j" for j
    by (simp_all add: g_def imp_origin_def)
  have "core_evolves m m1" by (simp add: m1_def core_evolves_def update_first_map g)
  moreover have "core_ok m1" if ok: "core_ok m"
  proof -
    have can: "candidates_ok m" and lin: "lineage_ok m" using ok by (simp_all add: core_ok_def)
    obtain ys i' where imps: "implementations m = ys @ [i']" "imp_candidate i' = c" and sub: "subseq (line_keys m) (map (\<lambda>j. candidate_key (imp_candidate j)) ys)"
      and new: "candidate_key c \<notin> set (line_keys m)"
      using current_uncommitted [OF can lin h(1)] h(2) unfolding c_def by blast
    have others: "\<forall>j \<in> set ys. candidate_key (imp_candidate j) \<noteq> candidate_key c"
      using can imps by (force simp: candidates_ok_def imp_keys_def)
    have "i = i'" using i(1) imps others by (auto simp: find_implementation_def find_Some_iff nth_append split: if_splits)
    have m1: "implementations m1 = ys @ [g i']" "lineage m1 = lineage m @ [e]" "current_candidate m1 = c" "evaluations m1 = evaluations m"
      using imps others by (simp_all add: m1_def update_first_snoc c_def)
    have keys: "imp_keys m1 = imp_keys m" "line_keys m1 = line_keys m @ [candidate_key c]" by (simp_all add: imp_keys_def line_keys_def m1 imps g e)
    have "candidates_ok m1" using can by (auto simp: candidates_ok_def keys m1 imps g)
    moreover have "lineage_ok m1"
    proof -
      have ne: "lineage m \<noteq> []" "last (lineage m) = h" using h(1) by (auto simp: lineage_head_def last_opt_def split: if_splits)
      have wk: "imp_status i' = WORKING" using lin new imps by (auto simp: lineage_ok_def)
      have mono: "follows m1 a b" if "follows m a b" for a b
        using that by (rule follows_mono) (use wk in \<open>auto simp: m1 imps\<close>)
      have "\<exists>b. imp_base i' = Some b"
        using lin new imps ne by (cases "imp_base i'") (auto simp: lineage_ok_def line_keys_def hd_map)
      then have "follows m1 h e"
        using x current_evaluation_in [OF x(1)] i(2) e g \<open>i = i'\<close> imps by (auto simp: follows_def m1 c_def)
      then have "successively (follows m1) (lineage m1)"
        using lin ne mono by (auto simp: m1 lineage_ok_def successively_append_iff elim: successively_mono)
      moreover have "subseq (line_keys m1) (imp_keys m1)" using sub by (simp add: keys) (simp add: imp_keys_def imps)
      moreover have "hd (line_keys m1) = hd (line_keys m)" "hd (lineage m1) = hd (lineage m)" using ne by (simp_all add: keys m1) (simp add: line_keys_def)
      moreover have "imp_base j = None \<longrightarrow> candidate_key (imp_candidate j) = hd (line_keys m)" if "j \<in> set (ys @ [g i'])" for j
        using that lin imps g by (auto simp: lineage_ok_def)
      moreover have "imp_status j = WORKING \<longleftrightarrow> candidate_key (imp_candidate j) \<notin> set (line_keys m1)" if "j \<in> set (ys @ [g i'])" for j
        using that lin imps g others by (auto simp: lineage_ok_def keys)
      ultimately show ?thesis using lin ne by (simp add: lineage_ok_def m1)
    qed
    moreover have "variations_ok m1" using ok by (simp add: core_ok_def variations_ok_def m1_def)
    ultimately show ?thesis by (simp add: core_ok_def)
  qed
  ultimately have "step_fine m m1" by (simp add: step_fine_def)
  moreover have "m1 = committed at e m" by (simp add: m1_def committed_def g_def c_def)
  ultimately show ?thesis using log logged_fine by (simp add: m_def at_def)
qed

subsection \<open>All steps\<close>

lemma core_step_fine: "core_step ok m m' \<Longrightarrow> step_fine m m'"
  by (induction rule: core_step.induct)
    (blast intro: observe_fine verify_fine act_fine evaluate_fine knowledge_fine begin_fine complete_fine promote_fine search_fine review_fine)+

lemma core_run_fine: "core_run ok m m' \<Longrightarrow> step_fine m m'"
  by (induction rule: rtranclp_induct) (blast intro: step_fine_refl step_fine_trans core_step_fine)+

lemma core_run_evolves: "core_run ok m m' \<Longrightarrow> core_evolves m m'"
  using core_run_fine step_fine_def by blast

lemma first_memory_ok: "candidate_ok c \<Longrightarrow> core_ok (first_memory c at i now)"
  by (simp add: core_ok_def candidates_ok_def lineage_ok_def variations_ok_def first_memory_def seed_memory_def add_event_def
      imp_keys_def line_keys_def)

lemma core_reach_ok: "core_reach ok m \<Longrightarrow> core_ok m"
  unfolding core_reach_def using core_run_fine first_memory_ok step_fine_def by blast

end
