(* ===== verification/Core_Runs.thy ===== *)
theory Core_Runs
  imports Core_Safety
begin

section \<open>Runs of a search and the store they go through\<close>

text \<open>
  What a variation or an evaluation recorded in a session says about the memories the session went
  through; and that every operation on a session, and every run of an agent's strategy, is a
  sequence of steps of \<open>core_step\<close> on what the store holds, whatever other writers do meanwhile.
\<close>

subsection \<open>Where recorded variations and evaluations come from\<close>

definition begun_at :: "(core_ports \<Rightarrow> bool) \<Rightarrow> core_memory \<Rightarrow> variation \<Rightarrow> core_memory \<Rightarrow> bool" where
  "begun_at ok m v ms \<longleftrightarrow> core_reach ok ms \<and> core_run ok ms m \<and> var_start v = Some (snapshot_of ms)"

definition ended_at :: "(core_ports \<Rightarrow> bool) \<Rightarrow> core_memory \<Rightarrow> variation \<Rightarrow> core_memory \<Rightarrow> core_memory \<Rightarrow> bool" where
  "ended_at ok m v ms me \<longleftrightarrow> begun_at ok me v ms \<and> core_run ok me m \<and> var_end v = Some (snapshot_of me)"

lemma begun_later: "begun_at ok m v ms \<Longrightarrow> core_run ok m m' \<Longrightarrow> begun_at ok m' v ms"
  unfolding begun_at_def by (meson rtranclp_trans)

lemma ended_later: "ended_at ok m v ms me \<Longrightarrow> core_run ok m m' \<Longrightarrow> ended_at ok m' v ms me"
  unfolding ended_at_def by (meson rtranclp_trans)

definition variation_traced :: "(core_ports \<Rightarrow> bool) \<Rightarrow> core_memory \<Rightarrow> variation \<Rightarrow> bool" where
  "variation_traced ok m v \<longleftrightarrow>
     (if var_status v = COMPLETED_VARIATION then \<exists>ms me. ended_at ok m v ms me else \<exists>ms. begun_at ok m v ms)"

lemma variation_traced_later: "variation_traced ok m v \<Longrightarrow> core_run ok m m' \<Longrightarrow> variation_traced ok m' v"
  unfolding variation_traced_def using begun_later ended_later by (metis (no_types))

definition evaluation_traced :: "(core_ports \<Rightarrow> bool) \<Rightarrow> core_memory \<Rightarrow> evaluation \<Rightarrow> bool" where
  "evaluation_traced ok m x \<longleftrightarrow> (\<exists>ms P s req v. core_run ok ms m \<and> ok P \<and> eval_candidate x = current_candidate ms \<and>
     eval_verifications x = map ver_id (current_verifications ms) \<and>
     ask_evaluate P s (current_observations ms) (current_verifications ms) req = Inr v \<and> validate_evaluation v = Inr (eval_result x))"

lemma evaluation_traced_later: "evaluation_traced ok m x \<Longrightarrow> core_run ok m m' \<Longrightarrow> evaluation_traced ok m' x"
  unfolding evaluation_traced_def by (meson rtranclp_trans)

definition core_traced :: "(core_ports \<Rightarrow> bool) \<Rightarrow> core_memory \<Rightarrow> bool" where
  "core_traced ok m \<longleftrightarrow> (\<forall>v \<in> set (variations m). variation_traced ok m v) \<and> (\<forall>x \<in> set (evaluations m). evaluation_traced ok m x)"

lemma core_traced_frame:
  assumes "core_traced ok m" "core_run ok m m'" "set (variations m') \<subseteq> set (variations m)" "set (evaluations m') \<subseteq> set (evaluations m)"
  shows "core_traced ok m'"
  using assms unfolding core_traced_def by (blast intro: variation_traced_later evaluation_traced_later)

lemma annotated_variations: "annotated a b \<Longrightarrow> variations b = variations a \<and> evaluations b = evaluations a"
  by (auto simp: annotated_def)

lemma logged_variations: "logged type a b \<Longrightarrow> variations b = variations a \<and> evaluations b = evaluations a"
  by (auto simp: logged_def)

lemma snapshot_of_variations [simp]: "snapshot_of (m\<lparr>variations := vs\<rparr>) = snapshot_of m"
  by (simp add: snapshot_of_def)

lemma candidate_after_variations: "candidate_after v at m = Inr m1 \<Longrightarrow> variations m1 = variations m \<and> evaluations m1 = evaluations m"
  by (erule candidate_after_Inr) (simp_all add: admitted_def)

lemma core_traced_step:
  assumes reach: "core_reach ok m" and traced: "core_traced ok m" and step: "core_step ok m m'"
  shows "core_traced ok m'"
proof -
  have run: "core_run ok m m'" and reach': "core_reach ok m'" using step reach by (auto intro: reach_step)
  have frame: "variations m' = variations m \<Longrightarrow> evaluations m' = evaluations m \<Longrightarrow> core_traced ok m'"
    using core_traced_frame [OF traced run] by simp
  show ?thesis using step
  proof (cases rule: core_step.cases)
    case (Step_Observe P D req rt d d' x)
    show ?thesis using logged_variations [OF conjunct2 [OF observe_shape [OF Step_Observe(3)]]] Step_Observe(1,2) by (intro frame) simp_all
  next
    case (Step_Verify D rec d d' x)
    show ?thesis using logged_variations [OF conjunct2 [OF verify_shape [OF Step_Verify(3)]]] Step_Verify(1,2) by (intro frame) simp_all
  next
    case (Step_Act P D action d d' x)
    obtain v m1 where "candidate_after v (draw_at D 0) (memory d) = Inr m1" "annotated m1 (memory d')"
      using act_shape [OF Step_Act(3)] by metis
    then show ?thesis using candidate_after_variations [of v "draw_at D 0" m m1] annotated_variations [of m1 m'] Step_Act(1,2) by (intro frame) simp_all
  next
    case (Step_Evaluate P D req d d' x)
    note shape = evaluate_shape [OF Step_Evaluate(3)]
    have same: "variations m' = variations m" "evaluations m' = evaluations m @ [x]"
      using shape annotated_variations Step_Evaluate(1,2) by fastforce+
    have "evaluation_traced ok m x" unfolding evaluation_traced_def
      using shape Step_Evaluate(1,4) by blast
    then show ?thesis using traced run variation_traced_later evaluation_traced_later
      unfolding core_traced_def same by fastforce
  next
    case (Step_Knowledge D rec d d' x)
    show ?thesis using logged_variations [OF conjunct2 [OF conjunct2 [OF knowledge_shape [OF Step_Knowledge(3)]]]] Step_Knowledge(1,2) by (intro frame) simp_all
  next
    case (Step_Begin D problem req policy d d' x)
    obtain y where y: "var_start x = Some (snapshot_of (variation_started D y m))"
        "m' = (variation_started D y m)\<lparr>variations := variations m @ [x]\<rparr>"
      using begin_shape(4) [OF Step_Begin(3)] Step_Begin(1,2) by blast
    then have "begun_at ok m' x m'" using reach' by (simp add: begun_at_def)
    then have "variation_traced ok m' x"
      unfolding variation_traced_def using begin_shape(2) [OF Step_Begin(3)] by auto
    moreover have "variations m' = variations m @ [x]" "evaluations m' = evaluations m" using y by (simp_all add: variation_started_def)
    ultimately show ?thesis using traced run variation_traced_later evaluation_traced_later unfolding core_traced_def by fastforce
  next
    case (Step_Complete D vid how calls failure d d' y)
    obtain x start where found: "find (\<lambda>v. var_id v = vid) (variations m) = Some x" and x: "var_status x = RUNNING_VARIATION" "var_start x = Some start"
      and y: "var_status y = COMPLETED_VARIATION" "var_start y = Some start" "var_end y = Some (snapshot_of m)"
      and log: "logged ''VARIATION_COMPLETED'' (m\<lparr>variations := update_first (\<lambda>v. var_id v = vid) (\<lambda>_. y) (variations m)\<rparr>) m'"
      by (rule complete_shape [OF Step_Complete(3)]) (simp add: Step_Complete(1,2))
    have "variation_traced ok m x" using traced find_split [OF found] by (simp add: core_traced_def)
    then obtain ms where "begun_at ok m x ms" using x by (auto simp: variation_traced_def)
    then have "ended_at ok m y ms m" using x y by (simp add: ended_at_def begun_at_def)
    then have "variation_traced ok m y" using y(1) unfolding variation_traced_def by auto
    moreover have "set (variations m') \<subseteq> insert y (set (variations m))" "evaluations m' = evaluations m"
      using logged_variations [OF log] set_update_first by fastforce+
    ultimately show ?thesis using traced run variation_traced_later evaluation_traced_later unfolding core_traced_def by (metis insert_iff subsetD)
  next
    case (Step_Promote D d d' x)
    have "logged ''PROMOTED'' (committed (draw_at D 0) x (memory d)) (memory d')" by (rule promote_shape [OF Step_Promote(3)])
    from logged_variations [OF this] show ?thesis using Step_Promote(1,2) by (intro frame) (simp_all add: committed_def)
  next
    case (Step_Search p D d d' x)
    show ?thesis using logged_variations [OF conjunct2 [OF conjunct2 [OF search_shape [OF Step_Search(3)]]]] Step_Search(1,2) by (intro frame) simp_all
  next
    case (Step_Review P H D vid d d' x)
    show ?thesis using annotated_variations [OF conjunct2 [OF review_shape [OF Step_Review(3)]]] Step_Review(1,2) by (intro frame) simp_all
  qed
qed

lemma core_reach_traced:
  assumes "core_reach ok m"
  shows "core_traced ok m"
proof -
  obtain c at i now where c: "candidate_ok c" and run: "core_run ok (first_memory c at i now) m"
    using assms unfolding core_reach_def by blast
  have first: "core_reach ok (first_memory c at i now)" using c unfolding core_reach_def by blast
  from run show ?thesis
  proof (induction rule: rtranclp_induct)
    case base
    show ?case by (simp add: core_traced_def first_memory_def seed_memory_def)
  next
    case (step a b)
    with first show ?case by (blast intro: core_traced_step reach_run)
  qed
qed

subsection \<open>What the store holds\<close>

definition core_at :: "('s, core_memory) session_store \<Rightarrow> string \<Rightarrow> 's \<Rightarrow> core_memory option" where
  "core_at ops sess st = (case op_load ops st sess of Inr (Some d) \<Rightarrow> Some (memory d) | _ \<Rightarrow> None)"

text \<open>A session appears with its first memory and then moves by steps.\<close>

definition core_path :: "(core_ports \<Rightarrow> bool) \<Rightarrow> core_memory option \<Rightarrow> core_memory option \<Rightarrow> bool" where
  "core_path ok a b \<longleftrightarrow> (case b of None \<Rightarrow> a = None | Some n \<Rightarrow> (case a of None \<Rightarrow> core_reach ok n | Some m \<Rightarrow> core_run ok m n))"

lemma core_path_refl [simp]: "core_path ok a a"
  by (simp add: core_path_def split: option.split)

lemma core_path_trans: "core_path ok a b \<Longrightarrow> core_path ok b c \<Longrightarrow> core_path ok a c"
  by (auto simp: core_path_def intro: reach_run split: option.splits)

lemma core_path_reach: "core_path ok (Some m) b \<Longrightarrow> core_reach ok m \<Longrightarrow> \<exists>n. b = Some n \<and> core_run ok m n \<and> core_reach ok n"
  by (auto simp: core_path_def intro: reach_run split: option.splits)

definition core_moves ::
  "('s, core_memory) session_store \<Rightarrow> ('s \<Rightarrow> string \<Rightarrow> int) \<Rightarrow> ('s \<Rightarrow> bool) \<Rightarrow> (core_ports \<Rightarrow> bool) \<Rightarrow> string \<Rightarrow> 's \<Rightarrow> 's \<Rightarrow> bool" where
  "core_moves ops rev_of good ok sess st st' \<longleftrightarrow>
     interference ops rev_of good sess st st' \<and> core_path ok (core_at ops sess st) (core_at ops sess st')"

lemma core_moves_refl: "good st \<Longrightarrow> core_moves ops rev_of good ok sess st st"
  by (simp add: core_moves_def interference_def)

lemma core_moves_trans:
  "core_moves ops rev_of good ok sess a b \<Longrightarrow> core_moves ops rev_of good ok sess b c \<Longrightarrow> core_moves ops rev_of good ok sess a c"
  unfolding core_moves_def interference_def using core_path_trans by auto

definition writers_ok ::
  "('s, core_memory) session_store \<Rightarrow> ('s \<Rightarrow> string \<Rightarrow> int) \<Rightarrow> ('s \<Rightarrow> bool) \<Rightarrow> (core_ports \<Rightarrow> bool) \<Rightarrow> string \<Rightarrow> (nat \<Rightarrow> 's \<Rightarrow> 's) \<Rightarrow> bool" where
  "writers_ok ops rev_of good ok sess env \<longleftrightarrow> (\<forall>k st. good st \<longrightarrow> core_moves ops rev_of good ok sess st (env k st))"

lemma no_writers: "writers_ok ops rev_of good ok sess (\<lambda>_ st. st)"
  by (simp add: writers_ok_def core_moves_refl)

definition makes_core_step :: "(core_ports \<Rightarrow> bool) \<Rightarrow> (core_doc \<Rightarrow> (core_doc \<times> 'v) res) \<Rightarrow> bool" where
  "makes_core_step ok step \<longleftrightarrow>
     (\<forall>d d' v. step d = Inr (d', v) \<longrightarrow> core_step ok (memory d) (memory d') \<and> sid d' = sid d \<and> revision d' = revision d)"

lemma inspect_progress_keeps:
  assumes "inspect_progress P D k t d = Inr (d', dose, x)"
  shows "sid d' = sid d \<and> revision d' = revision d"
proof -
  obtain dd where dd: "decide_dose P SUPERVISION (trigger_json t) JNull d = Inr dd"
    using assms by (auto simp: inspect_progress_def)
  show ?thesis
  proof (cases "dose_enabled dd")
    case False
    with assms dd show ?thesis by (auto simp: inspect_progress_def Let_def)
  next
    case True
    with assms dd show ?thesis
      by (simp add: inspect_progress_def Let_def) (elim exE conjE, auto split: option.splits)
  qed
qed

lemma steps_make_steps:
  "ok P \<Longrightarrow> makes_core_step ok (observe_step P D req rt)" "makes_core_step ok (record_verification_step D rec)"
  "ok P \<Longrightarrow> makes_core_step ok (act_step P D action)" "ok P \<Longrightarrow> makes_core_step ok (evaluate_step P D req)"
  "makes_core_step ok (record_knowledge_step D rec)" "makes_core_step ok (begin_variation_step D problem req policy)"
  "makes_core_step ok (complete_variation_step D vid how calls failure)" "makes_core_step ok (promote_step D)"
  "makes_core_step ok (assess_step p D)"
proof -
  show "ok P \<Longrightarrow> makes_core_step ok (observe_step P D req rt)"
    unfolding makes_core_step_def by (auto intro: core_step.intros) (auto simp: observe_step_def Let_def)
  show "makes_core_step ok (record_verification_step D rec)"
    unfolding makes_core_step_def by (auto intro: core_step.intros) (auto simp: record_verification_step_def Let_def)
  show "ok P \<Longrightarrow> makes_core_step ok (act_step P D action)"
    unfolding makes_core_step_def by (auto intro: core_step.intros) (auto simp: act_step_def Let_def dest!: inspect_progress_keeps)
  show "ok P \<Longrightarrow> makes_core_step ok (evaluate_step P D req)"
    unfolding makes_core_step_def by (auto intro: core_step.intros) (auto simp: evaluate_step_def Let_def dest!: inspect_progress_keeps)
  show "makes_core_step ok (record_knowledge_step D rec)"
    unfolding makes_core_step_def by (auto intro: core_step.intros) (auto simp: record_knowledge_step_def Let_def)
  show "makes_core_step ok (begin_variation_step D problem req policy)"
    unfolding makes_core_step_def by (auto intro: core_step.intros) (auto simp: begin_variation_step_def Let_def)
  show "makes_core_step ok (complete_variation_step D vid how calls failure)"
    unfolding makes_core_step_def by (auto intro: core_step.intros) (auto simp: complete_variation_step_def Let_def split: option.splits)
  show "makes_core_step ok (promote_step D)"
    unfolding makes_core_step_def by (auto intro: core_step.intros) (auto simp: promote_step_def Let_def split: option.splits)
  show "makes_core_step ok (assess_step p D)"
    unfolding makes_core_step_def by (auto intro: core_step.intros) (auto simp: assess_step_def keep_decision_def Let_def)
qed

definition stamps :: "(core_doc \<Rightarrow> core_doc) \<Rightarrow> bool" where
  "stamps touch \<longleftrightarrow> (\<forall>d. memory (touch d) = memory d \<and> sid (touch d) = sid d \<and> revision (touch d) = revision d)"

lemma stamps_simps [simp]: "stamps id" "stamps (touched at)"
  by (simp_all add: stamps_def touched_def)

text \<open>The answer \<open>v\<close> is what the step answered to the document that its save replaced.\<close>

definition core_took ::
  "('s, core_memory) session_store \<Rightarrow> ('s \<Rightarrow> string \<Rightarrow> int) \<Rightarrow> ('s \<Rightarrow> bool) \<Rightarrow> (core_ports \<Rightarrow> bool) \<Rightarrow> string \<Rightarrow>
     (core_doc \<Rightarrow> (core_doc \<times> 'v) res) \<Rightarrow> 's \<Rightarrow> 's \<Rightarrow> 'v \<Rightarrow> bool" where
  "core_took ops rev_of good ok sess step st st' v \<longleftrightarrow>
     (\<exists>stc d d'. core_moves ops rev_of good ok sess st stc \<and> op_load ops stc sess = Inr (Some d) \<and> step d = Inr (d', v) \<and>
        core_at ops sess st' = Some (memory d') \<and> core_moves ops rev_of good ok sess stc st')"

locale core_scope = revision_store ops rev_of good
  for ops :: "('s, core_memory) session_store" and rev_of good +
  fixes ok :: "core_ports \<Rightarrow> bool" and sess :: string
begin

abbreviation moves :: "'s \<Rightarrow> 's \<Rightarrow> bool" where
  "moves \<equiv> core_moves ops rev_of good ok sess"

lemma load_found_Inr: "load_found ops i st = Inr d \<longleftrightarrow> op_load ops st i = Inr (Some d)"
  by (auto simp: load_found_def split: option.splits)

lemma load_work_Inr: "load_work ops i st = Inr d \<Longrightarrow> op_load ops st i = Inr (Some d)"
  by (simp add: load_work_def load_found_Inr)

lemma moves_good: "moves a b \<Longrightarrow> good b"
  by (simp add: core_moves_def interference_def)

lemma writer: "writers_ok ops rev_of good ok sess env \<Longrightarrow> good st \<Longrightarrow> moves st (env k st)"
  by (simp add: writers_ok_def)

text \<open>An operation either writes nothing, or replaces the document it read.\<close>

lemma commit_step_cases:
  assumes env: "writers_ok ops rev_of good ok sess env" and step: "makes_core_step ok step" and touch: "stamps touch" and good: "good st"
    and run: "commit_step ops sess touch env step st = (st', r)"
  obtains (failed) e where "r = Inl e" "st' = env 0 st \<or> st' = env 1 (env 0 st)" "moves st st'"
  | (wrote) d d' v where "r = Inr v" "moves st (env 1 (env 0 st))" "op_load ops (env 1 (env 0 st)) sess = Inr (Some d)" "step d = Inr (d', v)"
      "core_at ops sess st' = Some (memory d')" "moves (env 1 (env 0 st)) st'"
proof -
  define st1 st2 where "st1 = env 0 st" and "st2 = env 1 st1"
  have st2': "env (Suc 0) st1 = st2" by (simp add: st2_def)
  have m1: "moves st st1" using writer [OF env good, of 0] by (simp add: st1_def)
  have good1: "good st1" using moves_good [OF m1] .
  have m12: "moves st1 st2" using writer [OF env good1, of 1] by (simp add: st2_def)
  have good2: "good st2" and m2: "moves st st2" using moves_good [OF m12] core_moves_trans [OF m1 m12] .
  show thesis
  proof (cases "load_found ops sess st1")
    case (Inl e)
    with run failed [of e] m1 show thesis by (simp add: commit_step_def Let_def st1_def)
  next
    case (Inr d)
    then have load1: "op_load ops st1 sess = Inr (Some d)" by (simp add: load_found_Inr)
    have d: "sid d = sess" "revision d = Some (rev_of st1 sess)" using load_present [OF good1 load1] by auto
    show thesis
    proof (cases "step d")
      case (Inl e)
      with Inr run failed [of e] m2 show thesis by (simp add: commit_step_def Let_def st1_def st2_def)
    next
      case Inr': (Inr p)
      obtain d' v where p: "p = (d', v)" by (cases p)
      have made: "core_step ok (memory d) (memory d')" "sid d' = sid d" "revision d' = revision d"
        using step Inr' p unfolding makes_core_step_def by auto
      let ?n = "touch d'"
      have n: "memory ?n = memory d'" "sid ?n = sess" "revision ?n = revision d" using touch made d by (auto simp: stamps_def)
      obtain st3 out where save: "op_save ops st2 ?n (or_else (revision ?n) 0) = (st3, out)" by fastforce
      have fold: "(st', r) = (case out of Inl e \<Rightarrow> (st3, Inl e) | Inr _ \<Rightarrow> (st3, Inr v))"
        using run Inr Inr' p save by (simp add: commit_step_def save_work_def Let_def st1_def [symmetric] st2' split: sum.splits)
      show thesis
      proof (cases out)
        case (Inl e)
        have "st3 = st2" using save_refused [OF good2 save [unfolded Inl]] .
        with Inl fold failed [of e] m2 show thesis by (simp add: st1_def st2_def)
      next
        case (Inr q)
        have same: "op_load ops st2 sess = Inr (Some d)"
          using save_sees_read [of st1 ?n "Some d" st2, OF good1 _ _ _ save [unfolded Inr]] n load1 m12 d by (simp add: core_moves_def)
        have here: "core_at ops sess st2 = Some (memory d)" by (simp add: core_at_def same)
        have new: "core_at ops sess st3 = Some (memory d')"
          using save_commits [OF good2 save [unfolded Inr]] n by (auto simp: core_at_def)
        have "moves st2 st3"
          using save_is_interference [OF good2 save [unfolded Inr]] made(1) by (simp add: core_moves_def core_path_def here new r_into_rtranclp)
        with Inr fold wrote [of v d d'] m2 same Inr' p new show thesis by (simp add: st1_def st2_def)
      qed
    qed
  qed
qed

lemma commit_step_steps:
  assumes "writers_ok ops rev_of good ok sess env" "makes_core_step ok step" "stamps touch" "good st"
    "commit_step ops sess touch env step st = (st', r)"
  shows "moves st st'" "r = Inr v \<Longrightarrow> core_took ops rev_of good ok sess step st st' v"
proof -
  from assms have "moves st st' \<and> (r = Inr v \<longrightarrow> core_took ops rev_of good ok sess step st st' v)"
  proof (cases rule: commit_step_cases)
    case (wrote d d' w)
    then show ?thesis unfolding core_took_def by (auto intro: core_moves_trans)
  qed auto
  then show "moves st st'" "r = Inr v \<Longrightarrow> core_took ops rev_of good ok sess step st st' v" by blast+
qed

end

end
