(* ===== verification/Core_Policy.thy ===== *)
theory Core_Policy
  imports Core_Runs
begin

section \<open>The verification policy, and what a promotion rests on\<close>

text \<open>
  The assessment of \<open>verification-assessment.js\<close> decides \<open>policy_met\<close>, the policy stated over the
  verification records themselves; an evaluation made through the aware objective carries the inputs it
  saw, so that a promotion whose inputs are found fresh was made under a met policy.
\<close>

subsection \<open>The policy as a statement\<close>

definition sources :: "verification_status \<Rightarrow> string \<Rightarrow> verification list \<Rightarrow> string set" where
  "sources s c vs = {source_key (ver_record v) | v. v \<in> set vs \<and> vr_claim (ver_record v) = c \<and> vr_status (ver_record v) = s}"

definition policy_met :: "verification list \<Rightarrow> verification_policy \<Rightarrow> bool" where
  "policy_met vs p \<longleftrightarrow>
     (reject_failures p \<longrightarrow> (\<forall>v \<in> set vs. vr_status (ver_record v) \<noteq> VERIFIED_FAIL)) \<and>
     (reject_conflicts p \<longrightarrow> (\<forall>c. sources VERIFIED_PASS c vs = {} \<or> sources VERIFIED_FAIL c vs = {})) \<and>
     (\<forall>n \<in> set (needs p). need_sources n \<le> int (card (sources VERIFIED_PASS (need_claim n) vs)))"

text \<open>What the loop leaves in the map.\<close>

definition tally :: "verification list \<Rightarrow> string \<Rightarrow> claim_entry" where
  "tally vs c = foldl (\<lambda>e v. count_artifact v e) (no_entry c) (filter (\<lambda>v. vr_claim (ver_record v) = c) vs)"

lemma claims_loop_foldl:
  "claims_loop vs m = Inr m' \<Longrightarrow>
     map_of m' c = (if \<exists>v \<in> set vs. vr_claim (ver_record v) = c
        then Some (foldl (\<lambda>e v. count_artifact v e) (or_else (map_of m c) (no_entry c)) (filter (\<lambda>v. vr_claim (ver_record v) = c) vs))
        else map_of m c)"
proof (induction vs arbitrary: m)
  case (Cons v vs)
  let ?k = "vr_claim (ver_record v)"
  let ?m = "aset ?k (count_artifact v (or_else (map_of m ?k) (no_entry ?k))) m"
  have "claims_loop vs ?m = Inr m'" using Cons.prems by (auto split: if_splits)
  note IH = Cons.IH [OF this]
  show ?case
  proof (cases "\<exists>w \<in> set vs. vr_claim (ver_record w) = c")
    case True
    then show ?thesis using IH by (cases "?k = c") auto
  next
    case False
    then have "filter (\<lambda>w. vr_claim (ver_record w) = c) vs = []" by (auto simp: filter_empty_conv)
    with False IH show ?thesis by (cases "?k = c") auto
  qed
qed simp

lemma claims_loop_tally:
  "claims_loop vs [] = Inr m \<Longrightarrow> map_of m c = (if \<exists>v \<in> set vs. vr_claim (ver_record v) = c then Some (tally vs c) else None)"
  by (drule claims_loop_foldl [where c = c]) (simp add: tally_def)

lemma count_artifact_claim [simp]: "ce_claim (count_artifact v e) = ce_claim e"
  by (simp add: count_artifact_def Let_def split: verification_status.split)

lemma count_sets:
  "set (ce_pass (count_artifact v e)) = set (ce_pass e) \<union> (if vr_status (ver_record v) = VERIFIED_PASS then {source_key (ver_record v)} else {})"
  "set (ce_fail (count_artifact v e)) = set (ce_fail e) \<union> (if vr_status (ver_record v) = VERIFIED_FAIL then {source_key (ver_record v)} else {})"
  "distinct (ce_pass e) \<Longrightarrow> distinct (ce_pass (count_artifact v e))"
  by (auto simp: count_artifact_def Let_def split: verification_status.split)

lemma foldl_count:
  "ce_claim (foldl (\<lambda>e v. count_artifact v e) e vs) = ce_claim e"
  "set (ce_pass (foldl (\<lambda>e v. count_artifact v e) e vs)) =
     set (ce_pass e) \<union> {source_key (ver_record v) | v. v \<in> set vs \<and> vr_status (ver_record v) = VERIFIED_PASS}"
  "set (ce_fail (foldl (\<lambda>e v. count_artifact v e) e vs)) =
     set (ce_fail e) \<union> {source_key (ver_record v) | v. v \<in> set vs \<and> vr_status (ver_record v) = VERIFIED_FAIL}"
  "distinct (ce_pass e) \<Longrightarrow> distinct (ce_pass (foldl (\<lambda>e v. count_artifact v e) e vs))"
  by (induction vs arbitrary: e) (auto simp: count_sets)

lemma tally_sets:
  "ce_claim (tally vs c) = c" "set (ce_pass (tally vs c)) = sources VERIFIED_PASS c vs" "set (ce_fail (tally vs c)) = sources VERIFIED_FAIL c vs"
  "distinct (ce_pass (tally vs c))"
  using foldl_count [of "no_entry c" "filter (\<lambda>v. vr_claim (ver_record v) = c) vs"]
  by (auto simp: tally_def sources_def no_entry_def)

lemma claims_loop_entries:
  assumes "claims_loop vs [] = Inr m"
  shows "e \<in> snd ` set m \<longleftrightarrow> (\<exists>v \<in> set vs. e = tally vs (vr_claim (ver_record v)))"
proof -
  have dist: "claims_loop us n = Inr n' \<Longrightarrow> distinct (map fst n) \<Longrightarrow> distinct (map fst n')" for us n n'
    by (induction us arbitrary: n) (auto intro: distinct_aset)
  have "distinct (map fst m)" using dist [OF assms] by simp
  then have "e \<in> snd ` set m \<longleftrightarrow> (\<exists>c. map_of m c = Some e)"
    by (force simp: map_of_eq_Some_iff)
  also have "\<dots> \<longleftrightarrow> (\<exists>v \<in> set vs. e = tally vs (vr_claim (ver_record v)))"
    by (auto simp: claims_loop_tally [OF assms] split: if_splits)
  finally show ?thesis .
qed

lemma unmet_Nil:
  assumes "claims_loop vs [] = Inr m"
  shows "unmet m ns = [] \<longleftrightarrow> (\<forall>n \<in> set ns. need_sources n \<le> int (card (sources VERIFIED_PASS (need_claim n) vs)))"
proof -
  have "(case map_of m c of None \<Rightarrow> 0 | Some e \<Rightarrow> int (length (ce_pass e))) = int (card (sources VERIFIED_PASS c vs))" for c
  proof (cases "\<exists>v \<in> set vs. vr_claim (ver_record v) = c")
    case True
    have "length (ce_pass (tally vs c)) = card (sources VERIFIED_PASS c vs)"
      using distinct_card [OF tally_sets(4) [of vs c]] by (simp add: tally_sets)
    with True show ?thesis by (simp add: claims_loop_tally [OF assms])
  next
    case False
    then have "sources VERIFIED_PASS c vs = {}" by (auto simp: sources_def)
    with False show ?thesis by (simp add: claims_loop_tally [OF assms])
  qed
  then show ?thesis by (induction ns) (auto simp: unmet_def Let_def)
qed

lemma assess_ready:
  assumes "assess_verifications vs p = Inr a"
  shows "as_ready a \<longleftrightarrow> policy_met vs p"
proof -
  obtain m where m: "claims_loop vs [] = Inr m" and a: "as_ready a \<longleftrightarrow>
      (reject_conflicts p \<longrightarrow> filter in_conflict (map snd m) = []) \<and>
      (reject_failures p \<longrightarrow> filter (\<lambda>e. ce_fail e \<noteq> []) (map snd m) = []) \<and> unmet m (needs p) = []"
    using assms by (auto simp: assess_verifications_def Let_def)
  have entry: "(\<forall>e \<in> snd ` set m. Q e) \<longleftrightarrow> (\<forall>v \<in> set vs. Q (tally vs (vr_claim (ver_record v))))" for Q
  proof -
    have "snd ` set m = (\<lambda>v. tally vs (vr_claim (ver_record v))) ` set vs"
      using claims_loop_entries [OF m] by (intro set_eqI) (simp only: image_iff bex_simps)
    then show ?thesis by simp
  qed
  have fail: "ce_fail (tally vs c) = [] \<longleftrightarrow> sources VERIFIED_FAIL c vs = {}" and pass: "ce_pass (tally vs c) = [] \<longleftrightarrow> sources VERIFIED_PASS c vs = {}" for c
    using tally_sets(2,3) [of vs c] by (metis set_empty)+
  have "filter in_conflict (map snd m) = [] \<longleftrightarrow> (\<forall>c. sources VERIFIED_PASS c vs = {} \<or> sources VERIFIED_FAIL c vs = {})"
  proof -
    have "filter in_conflict (map snd m) = [] \<longleftrightarrow> (\<forall>e \<in> snd ` set m. \<not> in_conflict e)" by (auto simp: filter_empty_conv)
    also have "\<dots> \<longleftrightarrow> (\<forall>v \<in> set vs. sources VERIFIED_PASS (vr_claim (ver_record v)) vs = {} \<or> sources VERIFIED_FAIL (vr_claim (ver_record v)) vs = {})"
      by (simp only: entry) (simp add: in_conflict_def fail pass)
    also have "\<dots> \<longleftrightarrow> (\<forall>c. sources VERIFIED_PASS c vs = {} \<or> sources VERIFIED_FAIL c vs = {})" by (auto simp: sources_def)
    finally show ?thesis .
  qed
  moreover have "filter (\<lambda>e. ce_fail e \<noteq> []) (map snd m) = [] \<longleftrightarrow> (\<forall>v \<in> set vs. vr_status (ver_record v) \<noteq> VERIFIED_FAIL)"
  proof -
    have "filter (\<lambda>e. ce_fail e \<noteq> []) (map snd m) = [] \<longleftrightarrow> (\<forall>e \<in> snd ` set m. ce_fail e = [])" by (auto simp: filter_empty_conv)
    also have "\<dots> \<longleftrightarrow> (\<forall>v \<in> set vs. sources VERIFIED_FAIL (vr_claim (ver_record v)) vs = {})" by (simp only: entry) (simp add: fail)
    also have "\<dots> \<longleftrightarrow> (\<forall>v \<in> set vs. vr_status (ver_record v) \<noteq> VERIFIED_FAIL)" by (auto simp: sources_def)
    finally show ?thesis .
  qed
  ultimately show ?thesis by (simp add: a policy_met_def unmet_Nil [OF m]) blast
qed

lemma assess_total: "(\<forall>v \<in> set vs. nonblank (vr_claim (ver_record v))) \<Longrightarrow> \<exists>a. assess_verifications vs p = Inr a"
proof -
  assume named: "\<forall>v \<in> set vs. nonblank (vr_claim (ver_record v))"
  have "(\<forall>v \<in> set us. nonblank (vr_claim (ver_record v))) \<Longrightarrow> \<exists>m'. claims_loop us m = Inr m'" for us m
    by (induction us arbitrary: m) auto
  with named show ?thesis by (fastforce simp: assess_verifications_def Let_def)
qed

subsection \<open>Evaluations through the aware objective\<close>

lemma foldl_aset_map_of: "map_of (foldl (\<lambda>m (k, x). aset k x m) m kvs) k = (case map_of (rev kvs) k of None \<Rightarrow> map_of m k | Some x \<Rightarrow> Some x)"
  by (induction kvs arbitrary: m) (auto simp: map_add_def split: option.splits)

lemma aware_evaluate_pass:
  assumes ask: "aware_evaluate p objective s os vs req = Inr v" and valid: "validate_evaluation v = Inr r" and pass: "res_verdict r = Some VERDICT_PASS"
  shows "policy_met vs p" "opt_member (Some (res_metadata r)) ''inputSnapshot'' = Some (input_snapshot_json os vs)"
proof -
  obtain a where a: "assess_verifications vs p = Inr a" using ask by (auto simp: aware_evaluate_def)
  define extra where "extra = [(''verificationAssessment'', assessment_json a), (''inputSnapshot'', input_snapshot_json os vs)]"
  have ready: "as_ready a"
  proof (rule ccontr)
    assume "\<not> as_ready a"
    with ask a valid pass show False
      by (auto simp: aware_evaluate_def Let_def validate_evaluation_def parse_validity_def parse_verdict_def or_default_def nullish_def
            split: if_splits option.splits)
  qed
  with a show "policy_met vs p" using assess_ready by blast
  obtain w old where v: "v = Some (JObj (aset ''metadata'' (JObj (foldl (\<lambda>m (k, x). aset k x m) old extra)) (spread_entries w)))"
    using ask a ready by (auto simp: aware_evaluate_def Let_def extra_def)
  have "or_null (opt_member v ''metadata'') = JObj (foldl (\<lambda>m (k, x). aset k x m) old extra)" by (simp add: v or_default_def nullish_def)
  then have "res_metadata r = JObj (foldl (\<lambda>m (k, x). aset k x m) old extra)"
    using valid by (auto simp: validate_evaluation_def split: option.splits)
  then show "opt_member (Some (res_metadata r)) ''inputSnapshot'' = Some (input_snapshot_json os vs)"
    by (simp only: opt_member.simps foldl_aset_map_of) (simp add: extra_def)
qed

text \<open>The ports of a harness whose evaluator is the aware objective of the policy.\<close>

definition aware :: "verification_policy \<Rightarrow> core_ports \<Rightarrow> bool" where
  "aware p P \<longleftrightarrow> (\<exists>objective. ask_evaluate P = aware_evaluate p objective)"

lemma texts_iff: "JArr (map JStr ts) = texts us \<longleftrightarrow> ts = us" "map JStr ts = map JStr us \<longleftrightarrow> ts = us"
  by (auto simp: texts_def inj_on_def intro: map_injective)

lemma truthy_prefix:
  assumes "prefix as bs" "truthy_ids (map f as) = map f bs"
  shows "as = bs"
proof -
  have "length bs \<le> length as"
    using assms(2) length_filter_le [of "\<lambda>i. i \<noteq> []" "map f as"] by (metis length_map truthy_ids_def)
  with assms(1) show ?thesis by (auto simp: prefix_def)
qed

text \<open>When the inputs of a passing evaluation are still fresh, they are the inputs it saw.\<close>

lemma fresh_inputs_met:
  assumes reach: "core_reach (aware p) m" and fresh: "assert_inputs_fresh m purpose = Inr x" and pass: "res_verdict (eval_result x) = Some VERDICT_PASS"
  shows "policy_met (current_verifications m) p"
proof -
  have x: "current_evaluation m = Some x" using fresh by (auto simp: assert_inputs_fresh_def split: option.splits prod.splits)
  then have "evaluation_traced (aware p) m x"
    using core_reach_traced [OF reach] current_evaluation_in by (auto simp: core_traced_def)
  then obtain ms P s req v where run: "core_run (aware p) ms m" and P: "aware p P" and c: "eval_candidate x = current_candidate ms"
    and ask: "ask_evaluate P s (current_observations ms) (current_verifications ms) req = Inr v" and valid: "validate_evaluation v = Inr (eval_result x)"
    unfolding evaluation_traced_def by blast
  obtain objective where "ask_evaluate P = aware_evaluate p objective" using P by (auto simp: aware_def)
  note pass = aware_evaluate_pass [OF ask [unfolded this] valid pass]
  have "evaluated_ids x = (Inr (map JStr (truthy_ids (map obs_id (current_observations ms)))), Inr (map JStr (truthy_ids (map ver_id (current_verifications ms)))))"
    using pass(2) by (simp add: evaluated_ids_def nullish_def input_snapshot_json_def spread_def or_default_def js_iterate_def texts_def)
  then have "map JStr (truthy_ids (map ver_id (current_verifications ms))) = map (JStr \<circ> ver_id) (current_verifications m)"
    using fresh x by (auto simp: assert_inputs_fresh_def)
  then have ids: "truthy_ids (map ver_id (current_verifications ms)) = map ver_id (current_verifications m)"
    by (simp only: map_map [symmetric] texts_iff)
  have "prefix (verifications ms) (verifications m)" using core_run_evolves [OF run] by (simp add: core_evolves_def)
  moreover have "candidate_key (current_candidate ms) = candidate_key (current_candidate m)" using current_evaluation_in [OF x] c by simp
  ultimately have "prefix (current_verifications ms) (current_verifications m)"
    by (auto simp: current_verifications_def prefix_def)
  from truthy_prefix [OF this ids] pass(1) show ?thesis by simp
qed

end
