(* ===== verification/Core_Variations.thy ===== *)
theory Core_Variations
  imports Core_Policy
begin

section \<open>Operations, strategies and variations on a store\<close>

text \<open>
  Every operation of the harness and every run of an agent's strategy moves the stored session by steps of
  \<open>core_step\<close>, whatever other writers do; and alone, a strategy leaves the recorded variations as
  they are and extends the lineage by one entry at most.
\<close>

subsection \<open>What the steps of a capability leave alone\<close>

definition tame :: "(core_doc \<Rightarrow> (core_doc \<times> 'v) res) \<Rightarrow> bool" where
  "tame step \<longleftrightarrow> (\<forall>d d' v. step d = Inr (d', v) \<longrightarrow> variations (memory d') = variations (memory d) \<and> lineage (memory d') = lineage (memory d))"

lemma annotated_tame: "annotated a b \<Longrightarrow> variations b = variations a \<and> lineage b = lineage a"
  by (auto simp: annotated_def)

lemma logged_tame: "logged type a b \<Longrightarrow> variations b = variations a \<and> lineage b = lineage a"
  using annotated_tame logged_annotates by blast

lemma candidate_after_tame: "candidate_after v at m = Inr m1 \<Longrightarrow> variations m1 = variations m \<and> lineage m1 = lineage m"
  by (erule candidate_after_Inr) (simp_all add: admitted_def)

lemma steps_tame:
  "tame (observe_step P D req rt)" "tame (record_verification_step D rec)" "tame (act_step P D action)" "tame (evaluate_step P D req)"
  "tame (record_knowledge_step D rec)"
proof -
  show "tame (observe_step P D req rt)" unfolding tame_def by (auto dest!: observe_shape logged_tame)
  show "tame (record_verification_step D rec)" unfolding tame_def by (auto dest!: verify_shape logged_tame)
  show "tame (record_knowledge_step D rec)" unfolding tame_def by (auto dest!: knowledge_shape logged_tame)
  show "tame (evaluate_step P D req)" unfolding tame_def by (auto dest!: evaluate_shape annotated_tame)
  show "tame (act_step P D action)" unfolding tame_def
  proof (intro allI impI)
    fix d d' r assume "act_step P D action d = Inr (d', r)"
    then obtain v m1 where "candidate_after v (draw_at D 0) (memory d) = Inr m1" "annotated m1 (memory d')" by (rule act_shape)
    then show "variations (memory d') = variations (memory d) \<and> lineage (memory d') = lineage (memory d)"
      using candidate_after_tame annotated_tame by metis
  qed
qed

lemma promote_extends:
  assumes "promote_step D d = Inr (d', e)"
  shows "variations (memory d') = variations (memory d)" "lineage (memory d') = lineage (memory d) @ [e]"
proof -
  have "logged ''PROMOTED'' (committed (draw_at D 0) e (memory d)) (memory d')" by (rule promote_shape [OF assms])
  from logged_tame [OF this] show "variations (memory d') = variations (memory d)" "lineage (memory d') = lineage (memory d) @ [e]"
    by (simp_all add: committed_def)
qed

lemma lineage_distinct: "core_ok m \<Longrightarrow> distinct (line_keys m)"
  unfolding core_ok_def candidates_ok_def lineage_ok_def using subseq_order.order_refl
  by (metis subseq_conv_nths distinct_nthsI)

lemma head_moved_iff:
  assumes ok: "core_ok m'" and grow: "lineage m' = lineage m \<or> (\<exists>e. lineage m' = lineage m @ [e])" and ne: "lineage m \<noteq> []"
  shows "head_moved (lineage_head m) (lineage_head m') \<longleftrightarrow> length (lineage m) < length (lineage m')"
  using grow
proof
  assume "lineage m' = lineage m"
  then show ?thesis by (simp add: head_moved_def lineage_head_def split: option.split)
next
  assume "\<exists>e. lineage m' = lineage m @ [e]"
  then obtain e where e: "lineage m' = lineage m @ [e]" ..
  have "candidate_key (line_candidate (last (lineage m))) \<noteq> candidate_key (line_candidate e)"
  proof -
    have "candidate_key (line_candidate (last (lineage m))) \<in> (\<lambda>x. candidate_key (line_candidate x)) ` set (lineage m)"
      using last_in_set [OF ne] by blast
    then show ?thesis using lineage_distinct [OF ok] by (auto simp: line_keys_def e)
  qed
  then show ?thesis using ne by (simp add: head_moved_def lineage_head_def last_opt_def e)
qed

lemma find_at_end: "find p (xs @ [x]) = (case find p xs of None \<Rightarrow> if p x then Some x else None | Some y \<Rightarrow> Some y)"
  by (induction xs) auto

lemma find_running:
  assumes "find (\<lambda>w. var_id w = k) (vs @ [v]) = Some x" "var_status x = RUNNING_VARIATION" "\<forall>w \<in> set vs. var_status w \<noteq> RUNNING_VARIATION"
  shows "x = v"
  using find_split [OF assms(1)] assms(2,3) by auto

definition quiet :: "'s core_setting \<Rightarrow> bool" where
  "quiet C \<longleftrightarrow> core_others C = (\<lambda>_ st. st)"

context core_scope
begin

definition proper :: "'s core_setting \<Rightarrow> bool" where
  "proper C \<longleftrightarrow> core_store C = ops \<and> core_session C = sess \<and> writers_ok ops rev_of good ok sess (core_others C) \<and> ok (core_ask C)"

lemma in_session_cases:
  assumes C: "proper C" and good: "good st" and step: "makes_core_step ok step" and run: "in_session C step st = (st', r)"
  obtains (failed) e where "r = Inl e" "moves st st'" "quiet C \<Longrightarrow> st' = st"
  | (wrote) stc d d' v where "r = Inr v" "moves st stc" "quiet C \<Longrightarrow> stc = st" "op_load ops stc sess = Inr (Some d)" "step d = Inr (d', v)"
      "core_at ops sess st' = Some (memory d')" "moves stc st'"
proof (cases "require_text (JStr sess) ''sessionId''")
  case (Inl e)
  then have "st' = st" "r = Inl e" using C run by (simp_all add: in_session_def run_step_def proper_def del: require_text.simps)
  then show thesis using failed good by (simp add: core_moves_refl)
next
  case (Inr i)
  then have run': "commit_step ops sess (touched (draw_at (core_draws C) 9)) (core_others C) step st = (st', r)"
    using run C [unfolded proper_def, THEN conjunct1] C [unfolded proper_def, THEN conjunct2, THEN conjunct1] Inr
    by (simp only: in_session_def run_step_def sum.case)
  have env: "writers_ok ops rev_of good ok sess (core_others C)" using C by (simp add: proper_def)
  show thesis
  proof (rule commit_step_cases [OF env step stamps_simps(2) good run'])
    fix e assume "r = Inl e" "st' = core_others C 0 st \<or> st' = core_others C 1 (core_others C 0 st)" "moves st st'"
    then show thesis by (intro failed [of e]) (auto simp: quiet_def)
  next
    fix d d' v
    assume "r = Inr v" "moves st (core_others C 1 (core_others C 0 st))" "op_load ops (core_others C 1 (core_others C 0 st)) sess = Inr (Some d)"
      "step d = Inr (d', v)" "core_at ops sess st' = Some (memory d')" "moves (core_others C 1 (core_others C 0 st)) st'"
    then show thesis by (intro wrote [of v "core_others C 1 (core_others C 0 st)" d d']) (auto simp: quiet_def)
  qed
qed

lemma in_session_took:
  assumes C: "proper C" and good: "good st" and step: "makes_core_step ok step" and run: "in_session C step st = (st', Inr v)"
  shows "core_took ops rev_of good ok sess step st st' v"
  by (rule in_session_cases [OF C good step run]) (auto simp: core_took_def)

text \<open>Starting a session.\<close>

lemma start_moves:
  assumes env: "writers_ok ops rev_of good ok sess env" and good: "good st"
    and run: "start_session ops D env sess w seed st = (st', r)"
  shows "moves st st'"
    "r = Inr d \<Longrightarrow> \<exists>c. normalize_candidate seed = Inr c \<and>
       core_at ops sess st' = Some (first_memory c (draw_at D 0) (draw_id D 0) (draw_at D 1))"
proof -
  have both: "moves st st' \<and> (\<forall>d. r = Inr d \<longrightarrow> (\<exists>c. normalize_candidate seed = Inr c \<and>
       core_at ops sess st' = Some (first_memory c (draw_at D 0) (draw_id D 0) (draw_at D 1))))"
  proof (cases "rbind (require_text (JStr sess) ''sessionId'') (\<lambda>_. invariant (\<not> nullish w) ''work is required'')")
    case (Inl e)
    with run good show ?thesis by (auto simp: start_session_def core_moves_refl)
  next
    case (Inr u)
    define st1 st2 where "st1 = env 0 st" and "st2 = env 1 st1"
    have m1: "moves st st1" using writer [OF env good, of 0] by (simp add: st1_def)
    have good1: "good st1" using moves_good [OF m1] .
    have m12: "moves st1 st2" using writer [OF env good1, of 1] by (simp add: st2_def)
    have good2: "good st2" and m2: "moves st st2" using moves_good [OF m12] core_moves_trans [OF m1 m12] .
    note run = run [unfolded start_session_def Inr sum.case Let_def, folded st1_def, folded st2_def]
    show ?thesis
    proof (cases "rbind (op_load ops st1 sess) (\<lambda>found. rbind (invariant (found = None) (''session already exists: '' @ sess)) (\<lambda>_.
        create_work_state sess (or_null w) seed (draw_at D 0)))")
      case (Inl e)
      from run [unfolded Inl sum.case] have "r = Inl e" "st' = st1" by simp_all
      with m1 show ?thesis by simp
    next
      case (Inr d)
      then have load: "op_load ops st1 sess = Inr None" and d: "create_work_state sess (or_null w) seed (draw_at D 0) = Inr d" by auto
      obtain c where c: "normalize_candidate seed = Inr c" "memory d = seed_memory c (draw_at D 0)" "sid d = sess" "revision d = Some 0"
        using d by (auto simp: create_work_state_def)
      let ?n = "touched (draw_at D 2) (d\<lparr>memory := add_event (draw_id D 0) (draw_at D 1) ''SESSION_STARTED'' [] (memory d)\<rparr>)"
      have n: "sid ?n = sess" "revision ?n = Some 0" "memory ?n = first_memory c (draw_at D 0) (draw_id D 0) (draw_at D 1)"
        using c by (simp_all add: touched_def first_memory_def)
      obtain st3 q where save: "op_save ops st2 ?n (or_else (revision ?n) 0) = (st3, q)" by fastforce
      note run = run [unfolded Inr sum.case save_work_def save prod.case]
      show ?thesis
      proof (cases q)
        case (Inl e)
        have "st3 = st2" using save_refused [OF good2 save [unfolded Inl]] .
        with Inl run m2 show ?thesis by auto
      next
        case q: (Inr rv)
        have same: "op_load ops st2 sess = Inr None"
          using save_sees_read [of st1 ?n None st2, OF good1 _ _ _ save [unfolded q]] n load m12 by (simp add: core_moves_def)
        have here: "core_at ops sess st2 = None" by (simp add: core_at_def same)
        have new: "core_at ops sess st3 = Some (memory ?n)" using save_commits [OF good2 save [unfolded q]] n(1) by (auto simp: core_at_def)
        have "core_reach ok (memory ?n)"
          unfolding n(3) core_reach_def using normalize_candidate_ok [OF c(1)] by blast
        then have "moves st2 st3"
          using save_is_interference [OF good2 save [unfolded q]] by (simp add: core_moves_def core_path_def here new)
        then have "moves st st3" by (rule core_moves_trans [OF m2])
        with q run c(1) new n(3) show ?thesis by auto
      qed
    qed
  qed
  then show "moves st st'" "r = Inr d \<Longrightarrow> \<exists>c. normalize_candidate seed = Inr c \<and>
       core_at ops sess st' = Some (first_memory c (draw_at D 0) (draw_id D 0) (draw_at D 1))" by blast+
qed

lemma start_reach: "core_at ops sess st = None \<Longrightarrow> moves st st' \<Longrightarrow> core_at ops sess st' = Some m \<Longrightarrow> core_reach ok m"
  by (simp add: core_moves_def core_path_def)

text \<open>\<open>q\<close>: nobody else writes; \<open>b\<close>: a promotion happened.\<close>

definition calm :: "bool \<Rightarrow> bool \<Rightarrow> 's \<Rightarrow> 's \<Rightarrow> bool" where
  "calm q b st st' \<longleftrightarrow> moves st st' \<and>
     (q \<longrightarrow> (\<not> b \<and> core_at ops sess st' = core_at ops sess st) \<or>
       (\<exists>m m'. core_at ops sess st = Some m \<and> core_at ops sess st' = Some m' \<and> core_step ok m m' \<and> variations m' = variations m \<and>
          (if b then \<exists>e. lineage m' = lineage m @ [e] else lineage m' = lineage m)))"

lemma calm_moves: "calm q b st st' \<Longrightarrow> moves st st'"
  by (simp add: calm_def)

lemma calm_after: "moves st st1 \<Longrightarrow> (q \<Longrightarrow> st1 = st) \<Longrightarrow> calm q b st1 st' \<Longrightarrow> calm q b st st'"
  unfolding calm_def using core_moves_trans by auto

lemma calm_stay: "moves st st1 \<Longrightarrow> (q \<Longrightarrow> st1 = st) \<Longrightarrow> calm q False st st1"
  by (simp add: calm_def)

lemma in_session_calm:
  assumes C: "proper C" and good: "good st" and step: "makes_core_step ok step" "tame step" and run: "in_session C step st = (st', r)"
  shows "calm (quiet C) False st st'"
proof (rule in_session_cases [OF C good step(1) run])
  fix e assume "moves st st'" "quiet C \<Longrightarrow> st' = st"
  then show ?thesis by (rule calm_stay)
next
  fix stc d d' v
  assume a: "r = Inr v" "moves st stc" "quiet C \<Longrightarrow> stc = st" "op_load ops stc sess = Inr (Some d)" "step d = Inr (d', v)"
      "core_at ops sess st' = Some (memory d')" "moves stc st'"
  have "core_at ops sess stc = Some (memory d)" using a by (simp add: core_at_def)
  moreover have "core_step ok (memory d) (memory d')" "variations (memory d') = variations (memory d)" "lineage (memory d') = lineage (memory d)"
    using step a(5) unfolding makes_core_step_def tame_def by auto
  ultimately have "calm (quiet C) False stc st'" using a by (auto simp: calm_def)
  with a show ?thesis by (blast intro: calm_after)
qed

lemma promote_calm:
  assumes C: "proper C" and good: "good st" and run: "promote C st = (st', r)"
  shows "calm (quiet C) (is_ok r) st st'"
proof (rule in_session_cases [OF C good steps_make_steps(8) run [unfolded promote_def]])
  fix e assume "r = Inl e" "moves st st'" "quiet C \<Longrightarrow> st' = st"
  then show ?thesis using calm_stay by simp
next
  fix stc d d' v
  assume a: "r = Inr v" "moves st stc" "quiet C \<Longrightarrow> stc = st" "op_load ops stc sess = Inr (Some d)" "promote_step (core_draws C) d = Inr (d', v)"
      "core_at ops sess st' = Some (memory d')" "moves stc st'"
  have "core_at ops sess stc = Some (memory d)" using a by (simp add: core_at_def)
  moreover have "core_step ok (memory d) (memory d')" using a(5) by (rule core_step.Step_Promote)
  ultimately have "calm (quiet C) True stc st'" using a promote_extends [OF a(5)] by (auto simp: calm_def)
  with a have "calm (quiet C) True st st'" by (blast intro: calm_after)
  with a(1) show ?thesis by simp
qed

lemma waits: "proper C \<Longrightarrow> good st \<Longrightarrow> moves st (core_others C k st) \<and> (quiet C \<longrightarrow> core_others C k st = st)"
  by (simp add: proper_def quiet_def writer)

lemma operation_calm:
  assumes "proper C" "good st"
  shows "observe C req rt st = (st', r1) \<Longrightarrow> calm (quiet C) False st st'"
    "record_verification C rec st = (st', r2) \<Longrightarrow> calm (quiet C) False st st'"
    "act C action st = (st', r3) \<Longrightarrow> calm (quiet C) False st st'"
    "evaluate C req st = (st', r4) \<Longrightarrow> calm (quiet C) False st st'"
    "record_knowledge C rec st = (st', r5) \<Longrightarrow> calm (quiet C) False st st'"
proof -
  have P: "ok (core_ask C)" using assms(1) by (simp add: proper_def)
  note calm = in_session_calm [OF assms]
  show "observe C req rt st = (st', r1) \<Longrightarrow> calm (quiet C) False st st'"
    unfolding observe_def by (rule calm [OF steps_make_steps(1) [where ok = ok, OF P] steps_tame(1)])
  show "record_verification C rec st = (st', r2) \<Longrightarrow> calm (quiet C) False st st'"
    unfolding record_verification_def by (rule calm [OF steps_make_steps(2) steps_tame(2)])
  show "act C action st = (st', r3) \<Longrightarrow> calm (quiet C) False st st'"
    unfolding act_def by (rule calm [OF steps_make_steps(3) [where ok = ok, OF P] steps_tame(3)])
  show "evaluate C req st = (st', r4) \<Longrightarrow> calm (quiet C) False st st'"
    unfolding evaluate_def by (rule calm [OF steps_make_steps(4) [where ok = ok, OF P] steps_tame(4)])
  show "record_knowledge C rec st = (st', r5) \<Longrightarrow> calm (quiet C) False st st'"
    unfolding record_knowledge_def by (rule calm [OF steps_make_steps(5) steps_tame(5)])
qed

lemma reading_calm: "proper C \<Longrightarrow> good st \<Longrightarrow> reading C f st = (st', r) \<Longrightarrow> calm (quiet C) False st st'"
  using waits [of C st 2] by (auto simp: reading_def Let_def intro: calm_stay)

lemma avo_promote_calm:
  assumes "proper C" "good st" "avo_promote C st = (st', r)"
  shows "calm (quiet C) (is_ok r) st st'"
proof -
  note w = waits [OF assms(1,2), of 2]
  have good1: "good (core_others C 2 st)" using w moves_good by blast
  show ?thesis
  proof (cases "rbind (work_state C (core_others C 2 st)) (\<lambda>d. assert_inputs_fresh (memory d) ''promotion'')")
    case (Inl e)
    with assms(3) w show ?thesis by (auto simp: avo_promote_def Let_def intro: calm_stay)
  next
    case (Inr x)
    with assms(3) have "promote C (core_others C 2 st) = (st', r)" by (simp add: avo_promote_def Let_def)
    from promote_calm [OF assms(1) good1 this] w show ?thesis by (blast intro: calm_after)
  qed
qed

lemma note_knowledge_calm:
  assumes "proper C" "good st" "note_knowledge coll C rec st = (st', r)"
  shows "calm (quiet C) False st st'"
proof -
  define st1 where "st1 = core_others C 2 st"
  have w: "moves st st1" "quiet C \<Longrightarrow> st1 = st" using waits [OF assms(1,2), of 2] by (auto simp: st1_def)
  have stay: "calm (quiet C) False st st1" using w by (rule calm_stay)
  show ?thesis
  proof (cases "rbind (work_state C st1) (\<lambda>d. prepare_knowledge coll rec (memory d))")
    case (Inl e)
    with assms(3) stay show ?thesis by (auto simp: note_knowledge_def Let_def st1_def [symmetric] rbind_def split: sum.splits)
  next
    case (Inr x)
    obtain st2 k where k: "record_knowledge C (Some (draft_json (item_draft x))) st1 = (st2, k)" by fastforce
    have "st' = st2"
      using assms(3) Inr k by (auto simp: note_knowledge_def Let_def st1_def [symmetric] rbind_def split: sum.splits)
    with operation_calm(5) [OF assms(1) moves_good [OF w(1)] k] w show ?thesis by (blast intro: calm_after)
  qed
qed

lemma verify_with_calm:
  assumes "proper C" "good st" "verify_with C v req st = (st', r)"
  shows "calm (quiet C) False st st'"
proof -
  define st1 st2 st3 where "st1 = core_others C 2 st" and "st2 = core_others C 3 st1" and "st3 = core_others C 4 st2"
  have w1: "moves st st1" "quiet C \<Longrightarrow> st1 = st" using waits [OF assms(1,2), of 2] by (auto simp: st1_def)
  have w2: "moves st st2" "quiet C \<Longrightarrow> st2 = st"
    using waits [OF assms(1) moves_good [OF w1(1)], of 3] w1 by (auto simp: st2_def intro: core_moves_trans)
  have w3: "moves st st3" "quiet C \<Longrightarrow> st3 = st"
    using waits [OF assms(1) moves_good [OF w2(1)], of 4] w2 by (auto simp: st3_def intro: core_moves_trans)
  have stay: "calm (quiet C) False st st1" "calm (quiet C) False st st2" "calm (quiet C) False st st3"
    using calm_stay w1 w2 w3 by blast+
  note run = assms(3) [unfolded verify_with_def Let_def, folded st1_def, folded st2_def, folded st3_def]
  show ?thesis
  proof (cases "\<exists>x. record_verification C x st3 = (st', r)")
    case True
    then obtain x where "record_verification C x st3 = (st', r)" ..
    from operation_calm(2) [OF assms(1) moves_good [OF w3(1)] this] w3 show ?thesis by (blast intro: calm_after)
  next
    case False
    with run have "st' \<in> {st1, st2, st3}" by (auto split: sum.splits)
    with stay show ?thesis by blast
  qed
qed

text \<open>A harness on this store and session.\<close>

definition wired :: "'s avo \<Rightarrow> bool" where
  "wired A \<longleftrightarrow> (\<forall>k. proper (setting_of A k))"

definition alone :: "'s avo \<Rightarrow> bool" where
  "alone A \<longleftrightarrow> av_others A = (\<lambda>_ _ st. st)"

lemma quiet_alone: "alone A \<Longrightarrow> quiet (setting_of A k)"
  by (simp add: alone_def quiet_def setting_of_def)

lemma calm_alone: "calm (quiet (setting_of A k)) b st st' \<Longrightarrow> calm (alone A) b st st'"
  using quiet_alone unfolding calm_def by blast

definition promotes :: "capability \<Rightarrow> reply res \<Rightarrow> bool" where
  "promotes cap r \<longleftrightarrow> (case cap of Cap_Promote \<Rightarrow> is_ok r | _ \<Rightarrow> False)"

lemma is_ok_map [simp]: "is_ok (map_sum id f r) = is_ok r"
  by (cases r) simp_all

lemma execute_calm:
  assumes "wired A" "good st" "execute_capability A k cap x st = (st', r)"
  shows "calm (alone A) (promotes cap r) st st'"
proof (rule calm_alone)
  let ?C = "setting_of A k"
  have C: "proper ?C" using assms(1) by (simp add: wired_def)
  note calm = operation_calm [OF C assms(2)]
  show "calm (quiet ?C) (promotes cap r) st st'"
  proof (cases cap)
    case Cap_Observe
    obtain s o1 where o: "observe ?C x (Some (runtime_json A)) st = (s, o1)" by fastforce
    with calm(1) [OF o] assms(3) Cap_Observe show ?thesis by (auto simp: execute_capability_def Let_def answer_with_def promotes_def)
  next
    case Cap_Act
    obtain s o1 where o: "act ?C x st = (s, o1)" by fastforce
    with calm(3) [OF o] assms(3) Cap_Act show ?thesis by (auto simp: execute_capability_def Let_def answer_with_def promotes_def)
  next
    case Cap_Evaluate
    obtain s o1 where o: "evaluate ?C x st = (s, o1)" by fastforce
    with calm(4) [OF o] assms(3) Cap_Evaluate show ?thesis by (auto simp: execute_capability_def Let_def answer_with_def promotes_def)
  next
    case Cap_Feedback
    obtain s o1 where o: "reading ?C (\<lambda>d. query_feedback (av_collate A) (memory d) (query_of x)) st = (s, o1)" by fastforce
    with reading_calm [OF C assms(2) o] assms(3) Cap_Feedback show ?thesis by (auto simp: execute_capability_def Let_def answer_with_def promotes_def)
  next
    case Cap_Knowledge
    obtain s o1 where o: "reading ?C (\<lambda>d. query_knowledge (memory d) (query_of x)) st = (s, o1)" by fastforce
    with reading_calm [OF C assms(2) o] assms(3) Cap_Knowledge show ?thesis by (auto simp: execute_capability_def Let_def answer_with_def promotes_def)
  next
    case Cap_Record
    obtain s o1 where o: "note_knowledge (av_collate A) ?C (Some x) st = (s, o1)" by fastforce
    with note_knowledge_calm [OF C assms(2) o] assms(3) Cap_Record show ?thesis by (auto simp: execute_capability_def Let_def answer_with_def promotes_def)
  next
    case Cap_Promote
    obtain s o1 where o: "avo_promote ?C st = (s, o1)" by fastforce
    with avo_promote_calm [OF C assms(2) o] assms(3) Cap_Promote show ?thesis by (auto simp: execute_capability_def Let_def answer_with_def promotes_def)
  next
    case (Cap_Verify v)
    obtain s o1 where o: "verify_with ?C v x st = (s, o1)" by fastforce
    with verify_with_calm [OF C assms(2) o] assms(3) Cap_Verify show ?thesis by (auto simp: execute_capability_def Let_def answer_with_def promotes_def)
  next
    case (Cap_Own h)
    with assms(3) waits [OF C assms(2), of 2] show ?thesis by (auto simp: execute_capability_def Let_def promotes_def intro: calm_stay)
  qed
qed

text \<open>What holds of a run that began in the store \<open>st0\<close> with the memory \<open>m0\<close>.\<close>

definition strategy_ok :: "'s avo \<Rightarrow> 's \<Rightarrow> core_memory \<Rightarrow> 's run_state \<Rightarrow> bool" where
  "strategy_ok A st0 m0 s \<longleftrightarrow>
     moves st0 (rs_store s) \<and> 0 \<le> rs_calls s \<and> rs_calls s \<le> max 0 (av_budget A) \<and>
     (alone A \<and> core_at ops sess st0 = Some m0 \<longrightarrow>
        (\<exists>m. core_at ops sess (rs_store s) = Some m \<and> core_run ok m0 m \<and> variations m = variations m0 \<and>
           (if rs_committed s then \<exists>e. lineage m = lineage m0 @ [e] else lineage m = lineage m0)))"

lemma start_run_ok: "good st0 \<Longrightarrow> strategy_ok A st0 m0 (start_run k st0)"
  by (auto simp: strategy_ok_def start_run_def core_moves_refl)

lemma invoke_ok:
  assumes A: "wired A" and s: "strategy_ok A st0 m0 s" and run: "invoke_capability A name x s = (s', r)"
  shows "strategy_ok A st0 m0 s'"
proof (cases "nonblank name \<and> (\<exists>cap. map_of (all_capabilities A) name = Some cap) \<and> rs_calls s < av_budget A \<and> \<not> rs_committed s")
  case False
  with run s show ?thesis
    by (auto simp: invoke_capability_def strategy_ok_def split: option.splits if_splits)
next
  case True
  then obtain cap where cap: "map_of (all_capabilities A) name = Some cap" and free: "rs_calls s < av_budget A" "\<not> rs_committed s" "nonblank name" by blast
  obtain st' q where ex: "execute_capability A (rs_operations s) cap x (rs_store s) = (st', q)" by fastforce
  have s': "s' = s\<lparr>rs_store := st', rs_operations := rs_operations s + 1, rs_calls := rs_calls s + 1, rs_committed := promotes cap q\<rparr>"
    using run cap free ex by (auto simp: invoke_capability_def promotes_def)
  have good: "good (rs_store s)" using s moves_good unfolding strategy_ok_def by blast
  note calm = execute_calm [OF A good ex]
  have "moves st0 (rs_store s)" using s by (simp add: strategy_ok_def)
  then have "moves st0 st'" using calm_moves [OF calm] by (rule core_moves_trans)
  moreover have "\<exists>m. core_at ops sess st' = Some m \<and> core_run ok m0 m \<and> variations m = variations m0 \<and>
      (if promotes cap q then \<exists>e. lineage m = lineage m0 @ [e] else lineage m = lineage m0)"
    if solo: "alone A" "core_at ops sess st0 = Some m0"
  proof -
    obtain m where m: "core_at ops sess (rs_store s) = Some m" "core_run ok m0 m" "variations m = variations m0" "lineage m = lineage m0"
      using s solo free by (auto simp: strategy_ok_def)
    from calm solo have "(\<not> promotes cap q \<and> core_at ops sess st' = core_at ops sess (rs_store s)) \<or>
       (\<exists>m m'. core_at ops sess (rs_store s) = Some m \<and> core_at ops sess st' = Some m' \<and> core_step ok m m' \<and> variations m' = variations m \<and>
          (if promotes cap q then \<exists>e. lineage m' = lineage m @ [e] else lineage m' = lineage m))"
      by (simp add: calm_def)
    then show ?thesis
    proof (elim disjE exE conjE)
      assume "\<not> promotes cap q" "core_at ops sess st' = core_at ops sess (rs_store s)"
      with m show ?thesis by auto
    next
      fix n m'
      assume "core_at ops sess (rs_store s) = Some n" "core_at ops sess st' = Some m'" "core_step ok n m'" "variations m' = variations n"
        "if promotes cap q then \<exists>e. lineage m' = lineage n @ [e] else lineage m' = lineage n"
      with m show ?thesis by (auto intro: rtranclp.rtrancl_into_rtrancl)
    qed
  qed
  ultimately show ?thesis using s free by (auto simp: strategy_ok_def s')
qed

lemma run_strategy_ok: "wired A \<Longrightarrow> strategy_ok A st0 m0 s \<Longrightarrow> run_strategy A p s = (s', r) \<Longrightarrow> strategy_ok A st0 m0 s'"
proof (induction p arbitrary: s)
  case (Calls name x k)
  obtain s1 q where i: "invoke_capability A name x s = (s1, q)" by fastforce
  with Calls.prems(3) have "run_strategy A (k q) s1 = (s', r)" by simp
  with Calls.IH [of "k q" s1] Calls.prems(1) invoke_ok [OF Calls.prems(1,2) i] show ?case by simp
qed auto

lemma run_agent_ok:
  assumes "wired A" "good st" "run_agent A p k st = (s, r)"
  shows "strategy_ok A st m0 s"
proof (cases "resolve_capabilities A")
  case (Inl e)
  with assms start_run_ok [OF assms(2)] show ?thesis by (auto simp: run_agent_def)
next
  case (Inr u)
  with assms(3) have "run_strategy A p (start_run k st) = (s, r)" by (simp add: run_agent_def)
  then show ?thesis by (rule run_strategy_ok [OF assms(1) start_run_ok [OF assms(2)]])
qed

subsection \<open>The operations around a strategy\<close>

lemma commit_calm:
  assumes C: "proper C" and good: "good st" and step: "makes_core_step ok step" "tame step" "stamps touch"
    and run: "commit_step ops sess touch (core_others C) step st = (st', r)"
  shows "calm (quiet C) False st st'"
proof -
  have env: "writers_ok ops rev_of good ok sess (core_others C)" using C by (simp add: proper_def)
  show ?thesis
  proof (rule commit_step_cases [OF env step(1,3) good run])
    fix e assume "st' = core_others C 0 st \<or> st' = core_others C 1 (core_others C 0 st)" "moves st st'"
    then show ?thesis by (auto simp: quiet_def intro: calm_stay)
  next
    fix d d' v
    let ?stc = "core_others C 1 (core_others C 0 st)"
    assume a: "moves st ?stc" "op_load ops ?stc sess = Inr (Some d)" "step d = Inr (d', v)" "core_at ops sess st' = Some (memory d')" "moves ?stc st'"
    have "core_at ops sess ?stc = Some (memory d)" using a by (simp add: core_at_def)
    moreover have "core_step ok (memory d) (memory d')" "variations (memory d') = variations (memory d)" "lineage (memory d') = lineage (memory d)"
      using step a(3) unfolding makes_core_step_def tame_def by auto
    ultimately have last: "calm (quiet C) False ?stc st'" using a by (auto simp: calm_def)
    show ?thesis by (rule calm_after [OF a(1) _ last]) (simp add: quiet_def)
  qed
qed

lemma assess_tame: "tame (assess_step p D)"
  unfolding tame_def by (auto dest!: search_shape logged_tame)

lemma assess_calm: "proper C \<Longrightarrow> good st \<Longrightarrow> assess_search p C st = (st', r) \<Longrightarrow> calm (quiet C) False st st'"
  using commit_calm [OF _ _ steps_make_steps(9) assess_tame stamps_simps(1)] unfolding assess_search_def by (simp add: proper_def)

lemma continue_calm:
  assumes C: "proper C" and good: "good st" and run: "assert_can_continue policy C st = (st', r)"
  shows "calm (quiet C) False st st'"
proof (cases policy)
  case None
  with run good show ?thesis by (auto simp: assert_can_continue_def intro: calm_stay core_moves_refl)
next
  case (Some p)
  define st1 where "st1 = core_others C 2 st"
  have w: "moves st st1" "quiet C \<Longrightarrow> st1 = st" using waits [OF C good, of 2] by (auto simp: st1_def)
  have stay: "calm (quiet C) False st st1" using w by (rule calm_stay)
  obtain st2 q where ass: "assess_search p C st1 = (st2, q)" by fastforce
  have "st' = st1 \<or> st' = st2"
    using run Some ass by (auto simp: assert_can_continue_def Let_def st1_def [symmetric] split: sum.splits option.splits if_splits)
  moreover have "calm (quiet C) False st st2" using assess_calm [OF C moves_good [OF w(1)] ass] w by (blast intro: calm_after)
  ultimately show ?thesis using stay by blast
qed

lemma begin_effect:
  assumes C: "proper C" and good: "good st" and run: "begin_variation C problem req policy st = (st', r)"
  shows "moves st st'" "quiet C \<Longrightarrow> r = Inl e \<Longrightarrow> st' = st"
    "quiet C \<Longrightarrow> core_at ops sess st = Some m \<Longrightarrow> r = Inr v \<Longrightarrow>
       \<exists>m'. core_at ops sess st' = Some m' \<and> core_step ok m m' \<and> lineage m' = lineage m \<and> variations m' = variations m @ [v] \<and>
         running_variation m = None \<and> var_status v = RUNNING_VARIATION \<and> var_base v = current_candidate m \<and>
         (\<exists>s. var_start v = Some s \<and> snap_lineage s = length (lineage m)) \<and> var_id v = draw_id (core_draws C) 0"
proof -
  note cases = in_session_cases [OF C good steps_make_steps(6) run [unfolded begin_variation_def]]
  show "moves st st'" by (rule cases) (blast intro: core_moves_trans)+
  show "quiet C \<Longrightarrow> r = Inl e \<Longrightarrow> st' = st" by (rule cases) auto
  assume q: "quiet C" and at: "core_at ops sess st = Some m" and r: "r = Inr v"
  show "\<exists>m'. core_at ops sess st' = Some m' \<and> core_step ok m m' \<and> lineage m' = lineage m \<and> variations m' = variations m @ [v] \<and>
         running_variation m = None \<and> var_status v = RUNNING_VARIATION \<and> var_base v = current_candidate m \<and>
         (\<exists>s. var_start v = Some s \<and> snap_lineage s = length (lineage m)) \<and> var_id v = draw_id (core_draws C) 0"
  proof (rule cases)
    fix stc d d' w
    assume a: "r = Inr w" "quiet C \<Longrightarrow> stc = st" "op_load ops stc sess = Inr (Some d)"
      "begin_variation_step (core_draws C) problem req policy d = Inr (d', w)" "core_at ops sess st' = Some (memory d')"
    have w: "w = v" using a(1) r by simp
    have m: "memory d = m" using a(2) [OF q] a(3) at by (simp add: core_at_def)
    note b = begin_shape [OF a(4)]
    obtain y where y: "var_start w = Some (snapshot_of (variation_started (core_draws C) y (memory d)))"
        "memory d' = (variation_started (core_draws C) y (memory d))\<lparr>variations := variations (memory d) @ [w]\<rparr>"
      using b(4) by blast
    have "var_id w = draw_id (core_draws C) 0" using a(4) by (auto simp: begin_variation_step_def new_variation_def Let_def)
    moreover have "snap_lineage (snapshot_of (variation_started (core_draws C) y (memory d))) = length (lineage (memory d))"
      by (simp add: snapshot_of_def variation_started_def)
    ultimately show ?thesis using a(5) y b(1-3) core_step.Step_Begin [OF a(4), of ok] by (simp add: w m variation_started_def)
  qed (use r in simp)
qed

lemma complete_effect:
  assumes C: "proper C" and good: "good st" and run: "complete_variation C vid how calls failure st = (st', r)"
  shows "moves st st'" "quiet C \<Longrightarrow> r = Inl e \<Longrightarrow> st' = st"
    "quiet C \<Longrightarrow> core_at ops sess st = Some m \<Longrightarrow> r = Inr y \<Longrightarrow>
       \<exists>m' x s. core_at ops sess st' = Some m' \<and> core_step ok m m' \<and> lineage m' = lineage m \<and> current_candidate m' = current_candidate m \<and>
         find (\<lambda>v. var_id v = vid) (variations m) = Some x \<and> var_status x = RUNNING_VARIATION \<and> var_start x = Some s \<and> var_calls y = calls \<and>
         var_termination y = Some how \<and> var_outcome y = Some (classify_outcome (activity_delta s (snapshot_of m))) \<and>
         (variations_ok m \<longrightarrow> running_variation m' = None)"
proof -
  have both: "moves st st' \<and> (quiet C \<longrightarrow> (\<forall>e. r = Inl e \<longrightarrow> st' = st)) \<and> (\<forall>m. quiet C \<longrightarrow> core_at ops sess st = Some m \<longrightarrow> r = Inr y \<longrightarrow>
       (\<exists>m' x s. core_at ops sess st' = Some m' \<and> core_step ok m m' \<and> lineage m' = lineage m \<and> current_candidate m' = current_candidate m \<and>
         find (\<lambda>v. var_id v = vid) (variations m) = Some x \<and> var_status x = RUNNING_VARIATION \<and> var_start x = Some s \<and> var_calls y = calls \<and>
         var_termination y = Some how \<and> var_outcome y = Some (classify_outcome (activity_delta s (snapshot_of m))) \<and>
         (variations_ok m \<longrightarrow> running_variation m' = None)))" for y
  proof (cases "complete_arguments vid calls")
    case (Inl e)
    with run good show ?thesis by (auto simp: complete_variation_def intro: core_moves_refl)
  next
    case (Inr u)
    then have run': "in_session C (complete_variation_step (core_draws C) vid how calls failure) st = (st', r)"
      using run by (simp add: complete_variation_def)
    show ?thesis
    proof (rule in_session_cases [OF C good steps_make_steps(7) run'])
      fix stc d d' w
      assume a: "r = Inr w" "moves st stc" "quiet C \<Longrightarrow> stc = st" "op_load ops stc sess = Inr (Some d)"
        "complete_variation_step (core_draws C) vid how calls failure d = Inr (d', w)" "core_at ops sess st' = Some (memory d')" "moves stc st'"
      obtain x s where x: "find (\<lambda>v. var_id v = vid) (variations (memory d)) = Some x" "var_status x = RUNNING_VARIATION" "var_start x = Some s"
        and w: "var_calls w = calls" "var_termination w = Some how" "var_outcome w = Some (classify_outcome (activity_delta s (snapshot_of (memory d))))"
        and log: "logged ''VARIATION_COMPLETED'' (memory d\<lparr>variations := update_first (\<lambda>v. var_id v = vid) (\<lambda>_. w) (variations (memory d))\<rparr>) (memory d')"
        by (rule complete_shape [OF a(5)])
      have "lineage (memory d') = lineage (memory d)" "current_candidate (memory d') = current_candidate (memory d)"
        using log by (auto simp: logged_def)
      with a x w complete_fine(2) [OF a(5)] core_step.Step_Complete [OF a(5), of ok] core_moves_trans [OF a(2,7)] show ?thesis
        by (auto simp: core_at_def)
    qed auto
  qed
  then show "moves st st'" "quiet C \<Longrightarrow> r = Inl e \<Longrightarrow> st' = st" by blast+
  show "quiet C \<Longrightarrow> core_at ops sess st = Some m \<Longrightarrow> r = Inr y \<Longrightarrow>
       \<exists>m' x s. core_at ops sess st' = Some m' \<and> core_step ok m m' \<and> lineage m' = lineage m \<and> current_candidate m' = current_candidate m \<and>
         find (\<lambda>v. var_id v = vid) (variations m) = Some x \<and> var_status x = RUNNING_VARIATION \<and> var_start x = Some s \<and> var_calls y = calls \<and>
         var_termination y = Some how \<and> var_outcome y = Some (classify_outcome (activity_delta s (snapshot_of m))) \<and>
         (variations_ok m \<longrightarrow> running_variation m' = None)"
    using both [of y] by blast
qed

text \<open>Any number of steps, none of which touches variations or lineage.\<close>

definition settled :: "bool \<Rightarrow> 's \<Rightarrow> 's \<Rightarrow> bool" where
  "settled q st st' \<longleftrightarrow> moves st st' \<and> (\<forall>m. q \<longrightarrow> core_at ops sess st = Some m \<longrightarrow>
     (\<exists>m'. core_at ops sess st' = Some m' \<and> core_run ok m m' \<and> variations m' = variations m \<and> lineage m' = lineage m))"

lemma calm_settled:
  assumes "calm q False st st'"
  shows "settled q st st'"
  unfolding settled_def
proof (intro conjI allI impI)
  show "moves st st'" using assms by (rule calm_moves)
  fix m assume "q" "core_at ops sess st = Some m"
  with assms have "core_at ops sess st' = Some m \<or>
      (\<exists>m'. core_at ops sess st' = Some m' \<and> core_step ok m m' \<and> variations m' = variations m \<and> lineage m' = lineage m)"
    by (auto simp: calm_def)
  then show "\<exists>m'. core_at ops sess st' = Some m' \<and> core_run ok m m' \<and> variations m' = variations m \<and> lineage m' = lineage m"
    by (auto intro: r_into_rtranclp)
qed

lemma settled_moves: "settled q a b \<Longrightarrow> moves a b"
  by (simp add: settled_def)

lemma settled_trans:
  assumes "settled q a b" "settled q b c"
  shows "settled q a c"
  unfolding settled_def
proof (intro conjI allI impI)
  show "moves a c" by (rule core_moves_trans [OF settled_moves [OF assms(1)] settled_moves [OF assms(2)]])
  fix m assume "q" "core_at ops sess a = Some m"
  then obtain n where n: "core_at ops sess b = Some n" "core_run ok m n" "variations n = variations m" "lineage n = lineage m"
    using assms(1) unfolding settled_def by blast
  then obtain m' where "core_at ops sess c = Some m'" "core_run ok n m'" "variations m' = variations n" "lineage m' = lineage n"
    using assms(2) \<open>q\<close> unfolding settled_def by blast
  with n show "\<exists>m'. core_at ops sess c = Some m' \<and> core_run ok m m' \<and> variations m' = variations m \<and> lineage m' = lineage m"
    by (auto intro: rtranclp_trans)
qed

lemma settled_good: "settled q a b \<Longrightarrow> good b"
  using moves_good unfolding settled_def by blast

lemma wired_proper: "wired A \<Longrightarrow> proper (setting_of A k)"
  by (simp add: wired_def)

lemma reading_settled:
  assumes A: "wired A" and good: "good st" and run: "reading (setting_of A k) f st = (st', r)"
  shows "settled (alone A) st st'" "r = Inr x \<Longrightarrow> \<exists>d. op_load ops st' sess = Inr (Some d) \<and> f d = Inr x"
proof -
  show "settled (alone A) st st'"
    by (rule calm_settled [OF calm_alone [OF reading_calm [OF wired_proper [OF A] good run]]])
  show "r = Inr x \<Longrightarrow> \<exists>d. op_load ops st' sess = Inr (Some d) \<and> f d = Inr x"
    using run wired_proper [OF A, of k] load_work_Inr by (auto simp: reading_def Let_def work_state_def proper_def)
qed

lemma assess_settled:
  assumes A: "wired A" and good: "good st"
    and run: "(case av_search A of None \<Rightarrow> (st, Inr None) | Some p \<Rightarrow> (case assess_search p (setting_of A k) st of (st2, r) \<Rightarrow> (st2, map_sum id Some r))) = (st', q)"
  shows "settled (alone A) st st'"
proof (cases "av_search A")
  case None
  with run good show ?thesis by (auto intro: calm_settled calm_stay core_moves_refl)
next
  case (Some p)
  obtain st2 r where "assess_search p (setting_of A k) st = (st2, r)" by fastforce
  with run Some assess_calm [OF wired_proper [OF A] good this] show ?thesis by (auto intro: calm_settled calm_alone)
qed

text \<open>How a variation is closed: either \<open>completeVariation\<close> throws, or what follows only reads and assesses.\<close>

lemma finish_steps:
  assumes A: "wired A" and good: "good (rs_store s)" and run: "finish_variation A seen v (s, q) = (st', r)"
  obtains (incomplete) e how failure where "r = Inl e"
      "complete_variation (setting_of A (rs_operations s)) (var_id v) how (rs_calls s) failure (rs_store s) = (st', Inl e)"
  | (completed) st1 y how failure where
      "complete_variation (setting_of A (rs_operations s)) (var_id v) how (rs_calls s) failure (rs_store s) = (st1, Inr y)"
      "settled (alone A) st1 st'"
      "\<And>rep. r = Inr rep \<Longrightarrow> vo_variation rep = y \<and> (\<exists>d. op_load ops st' sess = Inr (Some d) \<and> vo_after rep = current_candidate (memory d) \<and>
         vo_head_after rep = lineage_head (memory d) \<and> vo_advanced rep = head_moved (ctx_head seen) (lineage_head (memory d)))"
proof -
  obtain how failure res where ending: "run_ending s q = (how, failure, res)" by (cases "run_ending s q")
  obtain st1 c where comp: "complete_variation (setting_of A (rs_operations s)) (var_id v) how (rs_calls s) failure (rs_store s) = (st1, c)" by fastforce
  note run = run [unfolded finish_variation_def Let_def fst_conv snd_conv ending prod.case comp]
  show thesis
  proof (cases c)
    case (Inl e)
    with run comp show thesis by (intro incomplete [of e how failure]) auto
  next
    case (Inr y)
    have good1: "good st1" using complete_effect(1) [OF wired_proper [OF A] good comp] by (rule moves_good)
    obtain st2 vd where ass: "(case av_search A of None \<Rightarrow> (st1, Inr None)
        | Some p \<Rightarrow> (case assess_search p (setting_of A (rs_operations s + 1)) st1 of (st2, r) \<Rightarrow> (st2, map_sum id Some r))) = (st2, vd)" by fastforce
    have set1: "settled (alone A) st1 st2" by (rule assess_settled [OF A good1 ass])
    note run = run [unfolded Inr sum.case ass prod.case]
    show thesis
    proof (cases vd)
      case (Inl e)
      with run comp Inr set1 show thesis by (intro completed [of how failure st1 y]) auto
    next
      case vd: (Inr verdict)
      note read = reading_settled [OF A settled_good [OF set1] run [unfolded vd sum.case]]
      show thesis
      proof (rule completed)
        show "complete_variation (setting_of A (rs_operations s)) (var_id v) how (rs_calls s) failure (rs_store s) = (st1, Inr y)" using comp Inr by simp
        show "settled (alone A) st1 st'" by (rule settled_trans [OF set1 read(1)])
        fix rep assume "r = Inr rep"
        from read(2) [OF this] show "vo_variation rep = y \<and> (\<exists>d. op_load ops st' sess = Inr (Some d) \<and> vo_after rep = current_candidate (memory d) \<and>
         vo_head_after rep = lineage_head (memory d) \<and> vo_advanced rep = head_moved (ctx_head seen) (lineage_head (memory d)))" by auto
      qed
    qed
  qed
qed

text \<open>The stages of \<open>vary\<close>.\<close>

lemma vary_steps:
  assumes A: "wired A" and good: "good st" and run: "vary A strategy problem req st = (st', r)"
  obtains (early) "settled (alone A) st st'" "\<exists>e. r = Inl e"
  | (refused) st2 e where "settled (alone A) st st2" "begin_variation (setting_of A 2) problem req (policy_json A) st2 = (st', Inl e)" "r = Inl e"
  | (ran) st2 st3 seen v p s q where "settled (alone A) st st2" "begin_variation (setting_of A 2) problem req (policy_json A) st2 = (st3, Inr v)"
      "\<exists>d. op_load ops st2 sess = Inr (Some d) \<and> ctx_head seen = lineage_head (memory d)"
      "run_agent A p 3 st3 = (s, q)" "finish_variation A seen v (s, q) = (st', r)"
proof -
  obtain st1 pr where cont: "assert_can_continue (av_search A) (setting_of A 0) st = (st1, pr)" by fastforce
  have set1: "settled (alone A) st st1"
    by (rule calm_settled [OF calm_alone [OF continue_calm [OF wired_proper [OF A] good cont]]])
  note run = run [unfolded vary_def cont prod.case]
  show thesis
  proof (cases pr)
    case (Inl e)
    with run set1 early show thesis by auto
  next
    case (Inr prior)
    note run = run [unfolded Inr sum.case]
    obtain st2 cx where read: "reading (setting_of A 1) (context_of (core_ask (setting_of A 1)) problem) st1 = (st2, cx)" by fastforce
    note rs = reading_settled [OF A settled_good [OF set1] read]
    have set2: "settled (alone A) st st2" by (rule settled_trans [OF set1 rs(1)])
    note run = run [unfolded read prod.case]
    show thesis
    proof (cases cx)
      case (Inl e)
      with run set2 early show thesis by auto
    next
      case (Inr seen)
      note run = run [unfolded Inr sum.case]
      from rs(2) [OF Inr] have seen: "\<exists>d. op_load ops st2 sess = Inr (Some d) \<and> ctx_head seen = lineage_head (memory d)"
        by (auto simp: context_of_def Let_def)
      obtain st3 b where beg: "begin_variation (setting_of A 2) problem req (policy_json A) st2 = (st3, b)" by fastforce
      note run = run [unfolded beg prod.case]
      show thesis
      proof (cases b)
        case (Inl e)
        with run set2 beg show thesis by (intro refused [of st2 e]) auto
      next
        case (Inr v)
        note run = run [unfolded Inr sum.case]
        obtain s q where "run_agent A (strategy \<lparr>vi_variation = v, vi_context = seen, vi_search = prior, vi_request = req\<rparr>) 3 st3 = (s, q)" by fastforce
        with run set2 beg seen Inr show thesis by (intro ran [of st2 st3 v seen _ s q]) auto
      qed
    qed
  qed
qed

lemma vary_moves:
  assumes A: "wired A" and good: "good st" and run: "vary A strategy problem req st = (st', r)"
  shows "moves st st'"
proof (rule vary_steps [OF A good run])
  assume "settled (alone A) st st'"
  then show ?thesis by (simp add: settled_def)
next
  fix st2 e assume a: "settled (alone A) st st2" "begin_variation (setting_of A 2) problem req (policy_json A) st2 = (st', Inl e)"
  show ?thesis by (rule core_moves_trans [OF settled_moves [OF a(1)] begin_effect(1) [OF wired_proper [OF A] settled_good [OF a(1)] a(2)]])
next
  fix st2 st3 seen v p s q
  assume a: "settled (alone A) st st2" "begin_variation (setting_of A 2) problem req (policy_json A) st2 = (st3, Inr v)"
    "run_agent A p 3 st3 = (s, q)" "finish_variation A seen v (s, q) = (st', r)"
  have m3: "moves st st3" by (rule core_moves_trans [OF settled_moves [OF a(1)] begin_effect(1) [OF wired_proper [OF A] settled_good [OF a(1)] a(2)]])
  have "moves st3 (rs_store s)" using run_agent_ok [OF A moves_good [OF m3] a(3)] by (simp add: strategy_ok_def)
  with m3 have ms: "moves st (rs_store s)" by (rule core_moves_trans)
  note good_s = moves_good [OF ms]
  show ?thesis
  proof (rule finish_steps [OF A good_s a(4)])
    fix e how failure
    assume b: "complete_variation (setting_of A (rs_operations s)) (var_id v) how (rs_calls s) failure (rs_store s) = (st', Inl e)"
    show ?thesis by (rule core_moves_trans [OF ms complete_effect(1) [OF wired_proper [OF A] good_s b]])
  next
    fix st1 y how failure assume b: "complete_variation (setting_of A (rs_operations s)) (var_id v) how (rs_calls s) failure (rs_store s) = (st1, Inr y)"
      "settled (alone A) st1 st'"
    show ?thesis
      by (rule core_moves_trans [OF core_moves_trans [OF ms complete_effect(1) [OF wired_proper [OF A] good_s b(1)]] settled_moves [OF b(2)]])
  qed
qed

subsection \<open>A variation that nobody interferes with\<close>

lemma run_alone:
  assumes A: "wired A" "alone A" and good: "good st2" and at: "core_at ops sess st2 = Some m2" and reach: "core_reach ok m2"
    and beg: "begin_variation (setting_of A 2) problem req (policy_json A) st2 = (st3, Inr v)" and run: "run_agent A p 3 st3 = (s, q)"
  obtains m3 m4 where "core_run ok m2 m4" "core_reach ok m4" "variations m4 = variations m2 @ [v]" "core_at ops sess (rs_store s) = Some m4"
    "lineage m4 = lineage m2 \<or> (\<exists>e. lineage m4 = lineage m2 @ [e])" "\<forall>w \<in> set (variations m2). var_status w \<noteq> RUNNING_VARIATION"
    "var_status v = RUNNING_VARIATION" "\<exists>sn. var_start v = Some sn \<and> snap_lineage sn = length (lineage m2)" "var_id v = draw_id (av_draws A 2) 0"
    "good (rs_store s)" "0 \<le> rs_calls s" "rs_calls s \<le> max 0 (av_budget A)"
proof -
  note C = wired_proper [OF A(1), of 2]
  have q: "quiet (setting_of A 2)" by (rule quiet_alone [OF A(2)])
  from begin_effect(3) [OF C good beg q at refl]
  obtain m3 where m3: "core_at ops sess st3 = Some m3" "core_step ok m2 m3" "lineage m3 = lineage m2" "variations m3 = variations m2 @ [v]"
    and v: "running_variation m2 = None" "var_status v = RUNNING_VARIATION" "\<exists>sn. var_start v = Some sn \<and> snap_lineage sn = length (lineage m2)"
      "var_id v = draw_id (core_draws (setting_of A 2)) 0" by blast
  have st3: "good st3" using begin_effect(1) [OF C good beg] by (rule moves_good)
  have s: "strategy_ok A st3 m3 s" by (rule run_agent_ok [OF A(1) st3 run])
  then obtain m4 where m4: "core_at ops sess (rs_store s) = Some m4" "core_run ok m3 m4" "variations m4 = variations m3"
      "if rs_committed s then \<exists>e. lineage m4 = lineage m3 @ [e] else lineage m4 = lineage m3"
    using A(2) m3(1) by (auto simp: strategy_ok_def)
  have r4: "core_run ok m2 m4" using m3(2) m4(2) by (rule converse_rtranclp_into_rtranclp)
  have "\<forall>w \<in> set (variations m2). var_status w \<noteq> RUNNING_VARIATION" using running_count [OF v(1)] by (simp add: filter_empty_conv)
  moreover have "lineage m4 = lineage m2 \<or> (\<exists>e. lineage m4 = lineage m2 @ [e])" using m4(4) m3(3) by (auto split: if_splits)
  moreover have "var_id v = draw_id (av_draws A 2) 0" using v(4) by (simp add: setting_of_def)
  ultimately show thesis
    using that [of m4] r4 reach_run [OF reach r4] m4(1,3) m3(4) v(2,3) s moves_good by (auto simp: strategy_ok_def)
qed

lemma vary_alone:
  assumes A: "wired A" "alone A" and good: "good st" and at: "core_at ops sess st = Some m" and reach: "core_reach ok m"
    and run: "vary A strategy problem req st = (st', Inr rep)"
  shows "\<exists>m'. core_at ops sess st' = Some m' \<and> core_run ok m m' \<and> running_variation m' = None \<and> vo_after rep = current_candidate m' \<and>
    (if vo_advanced rep then \<exists>e. lineage m' = lineage m @ [e] else lineage m' = lineage m) \<and>
    (var_outcome (vo_variation rep) = Some COMMITTED \<longleftrightarrow> vo_advanced rep) \<and>
    0 \<le> var_calls (vo_variation rep) \<and> var_calls (vo_variation rep) \<le> max 0 (av_budget A)"
proof (rule vary_steps [OF A(1) good run])
  fix st2 st3 seen v p s q
  assume a: "settled (alone A) st st2" "begin_variation (setting_of A 2) problem req (policy_json A) st2 = (st3, Inr v)"
    "\<exists>d. op_load ops st2 sess = Inr (Some d) \<and> ctx_head seen = lineage_head (memory d)"
    "run_agent A p 3 st3 = (s, q)" "finish_variation A seen v (s, q) = (st', Inr rep)"
  obtain m2 where m2: "core_at ops sess st2 = Some m2" "core_run ok m m2" "lineage m2 = lineage m" using a(1) A(2) at unfolding settled_def by blast
  have reach2: "core_reach ok m2" using reach m2(2) by (rule reach_run)
  have seen: "ctx_head seen = lineage_head m2" using a(3) m2(1) by (auto simp: core_at_def)
  show ?thesis
  proof (rule run_alone [OF A settled_good [OF a(1)] m2(1) reach2 a(2) a(4)])
    fix m4
    assume m4: "core_run ok m2 m4" "core_reach ok m4" "variations m4 = variations m2 @ [v]" "core_at ops sess (rs_store s) = Some m4"
      "lineage m4 = lineage m2 \<or> (\<exists>e. lineage m4 = lineage m2 @ [e])" "\<forall>w \<in> set (variations m2). var_status w \<noteq> RUNNING_VARIATION"
      "\<exists>sn. var_start v = Some sn \<and> snap_lineage sn = length (lineage m2)" "good (rs_store s)" "0 \<le> rs_calls s" "rs_calls s \<le> max 0 (av_budget A)"
    show ?thesis
    proof (rule finish_steps [OF A(1) m4(8) a(5)])
      fix st1 y how failure
      assume b: "complete_variation (setting_of A (rs_operations s)) (var_id v) how (rs_calls s) failure (rs_store s) = (st1, Inr y)"
        "settled (alone A) st1 st'"
        "\<And>rep'. Inr rep = Inr rep' \<Longrightarrow> vo_variation rep' = y \<and> (\<exists>d. op_load ops st' sess = Inr (Some d) \<and> vo_after rep' = current_candidate (memory d) \<and>
         vo_head_after rep' = lineage_head (memory d) \<and> vo_advanced rep' = head_moved (ctx_head seen) (lineage_head (memory d)))"
      from complete_effect(3) [OF wired_proper [OF A(1)] m4(8) b(1) quiet_alone [OF A(2)] m4(4) refl]
      obtain m5 x sn where m5: "core_at ops sess st1 = Some m5" "core_step ok m4 m5" "lineage m5 = lineage m4"
        and x: "find (\<lambda>w. var_id w = var_id v) (variations m4) = Some x" "var_status x = RUNNING_VARIATION" "var_start x = Some sn"
        and y: "var_calls y = rs_calls s" "var_outcome y = Some (classify_outcome (activity_delta sn (snapshot_of m4)))"
        and closed: "variations_ok m4 \<Longrightarrow> running_variation m5 = None" by blast
      obtain m' where m': "core_at ops sess st' = Some m'" "core_run ok m5 m'" "variations m' = variations m5" "lineage m' = lineage m5"
        using b(2) A(2) m5(1) unfolding settled_def by blast
      have run': "core_run ok m m'"
        using m2(2) m4(1) m5(2) m'(2) by (meson converse_rtranclp_into_rtranclp rtranclp_trans)
      have ok': "core_ok m'" by (rule core_reach_ok [OF reach_run [OF reach run']])
      have "running_variation m' = None"
        using closed core_reach_ok [OF m4(2)] m'(3) by (simp add: core_ok_def running_variation_def)
      moreover have rep: "vo_variation rep = y" "vo_after rep = current_candidate m'" "vo_advanced rep = head_moved (lineage_head m2) (lineage_head m')"
        using b(3) [OF refl] m'(1) seen by (auto simp: core_at_def)
      have lin: "lineage m' = lineage m4" using m'(4) m5(3) by simp
      have "lineage m2 \<noteq> []" using core_reach_ok [OF reach2] by (simp add: core_ok_def lineage_ok_def)
      with m4(5) lin have adv: "vo_advanced rep \<longleftrightarrow> length (lineage m2) < length (lineage m')"
        unfolding rep(3) by (intro head_moved_iff [OF ok']) auto
      have "x = v" using find_running [of "var_id v" "variations m2" v x] x(1,2) m4(3,6) by simp
      then have "snap_lineage sn = length (lineage m2)" using m4(7) x(3) by auto
      then have "var_outcome y = Some COMMITTED \<longleftrightarrow> length (lineage m2) < length (lineage m')"
        by (simp add: y classify_outcome_def activity_delta_def snapshot_of_def lin)
      moreover have "if vo_advanced rep then \<exists>e. lineage m' = lineage m @ [e] else lineage m' = lineage m"
        using m4(5) lin m2(3) adv by auto
      ultimately show ?thesis using m'(1) run' rep adv y(1) m4(9,10) by auto
    qed simp
  qed
qed auto

end

text \<open>A store that accepts the save of what it loaded last.\<close>

locale steady_scope = core_scope +
  assumes saves: "good st \<Longrightarrow> nonblank sess \<Longrightarrow> op_load ops st sess = Inr (Some d) \<Longrightarrow>
    \<exists>st' r. op_save ops st (d\<lparr>memory := m, updated_at := at\<rparr>) (or_else (revision d) 0) = (st', Inr r)"
begin

lemma complete_succeeds:
  assumes C: "proper C" "quiet C" and good: "good st" and at: "core_at ops sess st = Some m"
    and x: "find (\<lambda>v. var_id v = vid) (variations m) = Some x" "var_status x = RUNNING_VARIATION" "var_start x \<noteq> None"
    and args: "nonblank sess" "nonblank vid" "0 \<le> calls"
  shows "\<exists>st' y. complete_variation C vid how calls failure st = (st', Inr y)"
proof -
  obtain d where d: "op_load ops st sess = Inr (Some d)" "memory d = m" using at by (auto simp: core_at_def split: sum.splits option.splits)
  obtain d' y where step: "complete_variation_step (core_draws C) vid how calls failure d = Inr (d', y)"
    using x d by (auto simp: complete_variation_step_def Let_def)
  have d': "d' = d\<lparr>memory := memory d'\<rparr>"
    using step by (auto simp: complete_variation_step_def Let_def split: option.splits)
  have rev: "revision (touched t d') = revision d" "touched t d' = d\<lparr>memory := memory d', updated_at := t\<rparr>" for t
    by (subst d', simp add: touched_def)+
  obtain st' r where save: "op_save ops st (touched (draw_at (core_draws C) 9) d') (or_else (revision d) 0) = (st', Inr r)"
    unfolding rev(2) using saves [OF good args(1) d(1), where m = "memory d'" and at = "draw_at (core_draws C) 9"] by blast
  have store: "core_store C = ops" "core_session C = sess" "core_others C = (\<lambda>_ st. st)" using C by (simp_all add: proper_def quiet_def)
  have found: "load_found ops sess st = Inr d" by (simp add: load_found_Inr d)
  have "in_session C (complete_variation_step (core_draws C) vid how calls failure) st = (st', Inr y)"
    using args(1) step save by (simp add: in_session_def run_step_def commit_step_def store found save_work_def rev(1))
  then show ?thesis using args(2,3) by (auto simp: complete_variation_def complete_arguments_def invariant_def)
qed

lemma vary_closes:
  assumes A: "wired A" "alone A" and good: "good st" and at: "core_at ops sess st = Some m" and reach: "core_reach ok m"
    and idle: "running_variation m = None" and fresh: "nonblank sess" "nonblank (draw_id (av_draws A 2) 0)" "draw_id (av_draws A 2) 0 \<notin> var_id ` set (variations m)"
    and run: "vary A strategy problem req st = (st', r)"
  shows "\<exists>m'. core_at ops sess st' = Some m' \<and> core_run ok m m' \<and> running_variation m' = None"
proof (rule vary_steps [OF A(1) good run])
  assume "settled (alone A) st st'"
  then show ?thesis using A(2) at idle by (auto simp: settled_def running_variation_def)
next
  fix st2 e assume a: "settled (alone A) st st2" "begin_variation (setting_of A 2) problem req (policy_json A) st2 = (st', Inl e)"
  have "st' = st2" by (rule begin_effect(2) [OF wired_proper [OF A(1)] settled_good [OF a(1)] a(2) quiet_alone [OF A(2)] refl])
  then show ?thesis using A(2) at idle a(1) by (auto simp: settled_def running_variation_def)
next
  fix st2 st3 seen v p s q
  assume a: "settled (alone A) st st2" "begin_variation (setting_of A 2) problem req (policy_json A) st2 = (st3, Inr v)"
    "run_agent A p 3 st3 = (s, q)" "finish_variation A seen v (s, q) = (st', r)"
  obtain m2 where m2: "core_at ops sess st2 = Some m2" "core_run ok m m2" "variations m2 = variations m" using a(1) A(2) at unfolding settled_def by blast
  have reach2: "core_reach ok m2" using reach m2(2) by (rule reach_run)
  show ?thesis
  proof (rule run_alone [OF A settled_good [OF a(1)] m2(1) reach2 a(2) a(3)])
    fix m4
    assume m4: "core_run ok m2 m4" "core_reach ok m4" "variations m4 = variations m2 @ [v]" "core_at ops sess (rs_store s) = Some m4"
      "var_status v = RUNNING_VARIATION" "\<exists>sn. var_start v = Some sn \<and> snap_lineage sn = length (lineage m2)"
      "var_id v = draw_id (av_draws A 2) 0" "good (rs_store s)" "0 \<le> rs_calls s"
    have "find (\<lambda>w. var_id w = var_id v) (variations m) = None"
      using m4(7) fresh(3) by (auto simp: find_None_iff image_iff)
    then have "find (\<lambda>w. var_id w = var_id v) (variations m4) = Some v"
      using m4(3) m2(3) by (simp add: find_at_end)
    then have succ: "\<exists>st' y. complete_variation (setting_of A (rs_operations s)) (var_id v) how (rs_calls s) failure (rs_store s) = (st', Inr y)" for how failure
      using complete_succeeds [OF wired_proper [OF A(1)] quiet_alone [OF A(2)] m4(8) m4(4) _ m4(5) _ fresh(1) _ m4(9)] m4(6,7) fresh(2) by auto
    show ?thesis
    proof (rule finish_steps [OF A(1) m4(8) a(4)])
      fix e how failure
      assume "complete_variation (setting_of A (rs_operations s)) (var_id v) how (rs_calls s) failure (rs_store s) = (st', Inl e)"
      with succ [of how failure] show ?thesis by simp
    next
      fix st1 y how failure
      assume b: "complete_variation (setting_of A (rs_operations s)) (var_id v) how (rs_calls s) failure (rs_store s) = (st1, Inr y)"
        "settled (alone A) st1 st'"
      from complete_effect(3) [OF wired_proper [OF A(1)] m4(8) b(1) quiet_alone [OF A(2)] m4(4) refl]
      obtain m5 where m5: "core_at ops sess st1 = Some m5" "core_step ok m4 m5" "variations_ok m4 \<Longrightarrow> running_variation m5 = None" by blast
      obtain m' where m': "core_at ops sess st' = Some m'" "core_run ok m5 m'" "variations m' = variations m5"
        using b(2) A(2) m5(1) unfolding settled_def by blast
      have "core_run ok m m'" using m2(2) m4(1) m5(2) m'(2) by (meson converse_rtranclp_into_rtranclp rtranclp_trans)
      moreover have "running_variation m' = None"
        using m5(3) core_reach_ok [OF m4(2)] m'(3) by (simp add: core_ok_def running_variation_def)
      ultimately show ?thesis using m'(1) by blast
    qed
  qed
qed

end

lemma nonblank_nonempty: "nonblank s \<Longrightarrow> s \<noteq> []"
  by (auto simp: nonblank_def trim_def)

lemma normalized_saves:
  assumes n: "normalize_state d = Inr d" and store: "stored_revision st (sid d) = or_else (revision d) 0" and i: "sid d \<noteq> []"
  shows "\<exists>st' r. mem_save st (d\<lparr>memory := m, updated_at := at\<rparr>) (or_else (revision d) 0) = (st', Inr r)"
    "normalize_state (d\<lparr>memory := m, updated_at := at\<rparr>) = Inr (d\<lparr>memory := m, updated_at := at\<rparr>)"
proof -
  show norm: "normalize_state (d\<lparr>memory := m, updated_at := at\<rparr>) = Inr (d\<lparr>memory := m, updated_at := at\<rparr>)"
    using n by (cases d) (auto simp: normalize_state_def Let_def require_version_def split: if_splits)
  show "\<exists>st' r. mem_save st (d\<lparr>memory := m, updated_at := at\<rparr>) (or_else (revision d) 0) = (st', Inr r)"
    using norm store i normalize_state_Inr(4) [OF n] by (simp add: mem_save_def)
qed

interpretation core_mem: steady_scope in_memory_store stored_revision mem_good ok sess for ok sess
proof unfold_locales
  fix sess :: string and st :: "core_memory sessions" and d :: core_doc and m at
  assume a: "mem_good st" "nonblank sess" "op_load in_memory_store st sess = Inr (Some d)"
  then have "sid d = sess \<and> normalize_state d = Inr d \<and> revision d = Some (stored_revision st sess)"
    using mem_good_lookup [OF a(1), of sess d] by (simp add: in_memory_store_def mem_load_def)
  with normalized_saves(1) [where d = d and st = st and m = m and at = at] nonblank_nonempty [OF a(2)]
  show "\<exists>st' r. op_save in_memory_store st (d\<lparr>memory := m, updated_at := at\<rparr>) (or_else (revision d) 0) = (st', Inr r)"
    by (simp add: in_memory_store_def)
qed

interpretation core_validated: steady_scope validated_memory stored_revision mem_good ok sess for ok sess
proof unfold_locales
  fix sess :: string and st :: "core_memory sessions" and d :: core_doc and m at
  assume a: "mem_good st" "nonblank sess" "op_load validated_memory st sess = Inr (Some d)"
  have load: "sid d = sess" "revision d = Some (stored_revision st sess)" using validated.load_present [OF a(1,3)] by auto
  obtain d0 where "normalize_state d0 = Inr d"
    using a(3) by (auto simp: validated_store_def validated_load_def split: option.splits)
  then have n: "normalize_state d = Inr d" by (rule normalize_state_idem)
  obtain st' r where save: "mem_save st (d\<lparr>memory := m, updated_at := at\<rparr>) (or_else (revision d) 0) = (st', Inr r)"
    using normalized_saves(1) [OF n, where st = st and m = m and at = at] load nonblank_nonempty [OF a(2)] by auto
  have "r = Some (or_else (revision d) 0 + 1)" using mem_save_Inr [OF save] by blast
  then show "\<exists>st' r. op_save validated_memory st (d\<lparr>memory := m, updated_at := at\<rparr>) (or_else (revision d) 0) = (st', Inr r)"
    using save normalized_saves(2) [OF n, where st = st and m = m and at = at] load nonblank_nonempty [OF a(2)]
    by (simp add: validated_store_def validated_save_def in_memory_store_def assert_persisted_revision_def)
qed

end
