(* ===== verification/Core_Props.thy ===== *)
theory Core_Props
  imports Core_Variations
begin

section \<open>What the search harness guarantees\<close>

text \<open>
  The properties of the core harness and of the agents it runs, each with a witness on a small
  session: a harness on the validated in-memory store whose strategy acts, verifies, evaluates,
  promotes and then tries to go on.
\<close>

subsection \<open>A harness and a session\<close>

lemma wired_validated:
  assumes "av_store A = validated_memory" "\<And>k. writers_ok validated_memory stored_revision mem_good (aware (av_policy A)) (av_session A) (av_others A k)"
  shows "core_scope.wired validated_memory stored_revision mem_good (aware (av_policy A)) (av_session A) A"
  using assms by (auto simp: core_validated.wired_def core_validated.proper_def setting_of_def aware_def)

lemma alone_writers: "av_others A = (\<lambda>_ _ st. st) \<Longrightarrow> writers_ok ops rev_of good ok sess (av_others A k)"
  by (simp add: no_writers)

definition demo_draws :: "nat \<Rightarrow> draws" where
  "demo_draws k = \<lparr>draw_id = (\<lambda>j. ''id'' @ nat_text k @ ''.'' @ nat_text j), draw_at = (\<lambda>_. ''at'' @ nat_text k)\<rparr>"

definition version_json :: "string \<Rightarrow> json" where
  "version_json v = JObj [(''id'', JStr ''repo''), (''version'', JStr v)]"

definition demo_ports :: core_ports where
  "demo_ports = \<lparr>ask_observe = (\<lambda>_ _. Inr (Some JNull)),
     ask_act = (\<lambda>_ a. Inr (Some (JObj [(''mutated'', JBool True), (''candidate'', a)]))),
     ask_evaluate = (\<lambda>_ _ _ _. Inr (Some JNull)), ask_inspect = (\<lambda>_ _ _. Inr (Some JNull)), ask_project = (\<lambda>_ _ _ _. Inr (Some JNull)),
     ask_dose = (\<lambda>_ _ _ _. Inr (Some (JObj [(''enabled'', JBool False), (''reason'', JStr ''off'')])))\<rparr>"

definition demo_policy :: verification_policy where
  "demo_policy = \<lparr>needs = [\<lparr>need_claim = ''tests pass'', need_sources = 1\<rparr>], reject_failures = True, reject_conflicts = True\<rparr>"

definition passing :: objective where
  "passing = (\<lambda>_ _ _ _ _. Inr (Some (JObj [(''validity'', JStr ''VALID''), (''verdict'', JStr ''PASS'')])))"

definition checker :: verifier where
  "checker = \<lparr>vf_name = ''suite'',
     vf_verify = (\<lambda>_ _ _ r. Inr (Some (JObj [(''claim'', JStr ''tests pass''), (''status'', r), (''evidence'', JArr [JStr ''log''])])))\<rparr>"

definition demo_avo :: "core_memory sessions avo" where
  "demo_avo = \<lparr>av_store = validated_memory, av_session = ''s'', av_ports = demo_ports, av_policy = demo_policy, av_objective = passing,
     av_verifiers = [checker], av_own = [], av_budget = 5, av_search = None, av_collate = (\<lambda>_ _. 0),
     av_call = ''call'', av_draws = (\<lambda>k. demo_draws (k + 1)), av_others = (\<lambda>_ _ st. st)\<rparr>"

definition demo_start :: "core_memory sessions" where
  "demo_start = fst (start_session validated_memory (demo_draws 0) (\<lambda>_ st. st) ''s'' (Some (JStr ''task'')) (Some (version_json ''1'')) [])"

definition demo_strategy :: strategy where
  "demo_strategy = (\<lambda>_. Calls ''avo.act'' (version_json ''2'') (\<lambda>_. Calls ''verify.suite'' (JStr ''PASS'') (\<lambda>_. Calls ''avo.evaluate'' JNull
     (\<lambda>_. Calls ''avo.promote'' JNull (\<lambda>_. Calls ''avo.act'' (version_json ''3'') (\<lambda>_. Returns None))))))"

abbreviation "demo_first \<equiv> first_memory \<lparr>cand_id = ''repo'', cand_version = ''1''\<rparr> ''at0'' ''id0.0'' ''at0''"

lemma demo_started:
  "mem_good demo_start" "core_at validated_memory ''s'' demo_start = Some demo_first" "core_reach ok demo_first"
proof -
  obtain st r where start: "start_session validated_memory (demo_draws 0) (\<lambda>_ st. st) ''s'' (Some (JStr ''task'')) (Some (version_json ''1'')) [] = (st, r)"
    by fastforce
  have "is_ok (snd (start_session validated_memory (demo_draws 0) (\<lambda>_ st. st) ''s'' (Some (JStr ''task'')) (Some (version_json ''1'')) []))"
    by code_simp
  then obtain d where r: "r = Inr d" by (cases r) (simp_all add: start)
  note moves = core_validated.start_moves [OF no_writers mem_good_empty start]
  show "mem_good demo_start"
    using core_validated.moves_good [OF moves(1)] by (simp add: demo_start_def start)
  have "normalize_candidate (Some (version_json ''1'')) = Inr \<lparr>cand_id = ''repo'', cand_version = ''1''\<rparr>" by code_simp
  moreover have "draw_at (demo_draws 0) 0 = ''at0''" "draw_at (demo_draws 0) 1 = ''at0''" "draw_id (demo_draws 0) 0 = ''id0.0''" by code_simp+
  ultimately show "core_at validated_memory ''s'' demo_start = Some demo_first"
    using moves(2) [OF r] by (simp add: demo_start_def start)
  have "candidate_ok \<lparr>cand_id = ''repo'', cand_version = ''1''\<rparr>" by code_simp
  then show "core_reach ok demo_first" unfolding core_reach_def by blast
qed

lemma demo_wired: "core_scope.wired validated_memory stored_revision mem_good (aware demo_policy) ''s'' demo_avo"
  using wired_validated [of demo_avo, OF _ alone_writers] by (simp add: demo_avo_def)

lemma demo_alone: "core_scope.alone demo_avo"
  by (simp add: core_validated.alone_def demo_avo_def)

definition demo_summary :: "(bool \<times> variation_outcome option \<times> variation_termination option \<times> int) option" where
  "demo_summary = (case snd (vary demo_avo demo_strategy JNull JNull demo_start) of Inl _ \<Rightarrow> None
     | Inr x \<Rightarrow> Some (vo_advanced x, var_outcome (vo_variation x), var_termination (vo_variation x), var_calls (vo_variation x)))"

lemma demo_varied: "demo_summary = Some (True, Some COMMITTED, Some FAILED_TERMINATION, 5)"
  by code_simp

text \<open>The memory after the demonstration: one more entry in the lineage.\<close>

lemma demo_after:
  obtains st rep m e where "vary demo_avo demo_strategy JNull JNull demo_start = (st, Inr rep)" "vo_advanced rep"
    "core_at validated_memory ''s'' st = Some m" "core_reach (aware demo_policy) m" "lineage m = lineage demo_first @ [e]" "running_variation m = None"
    "var_outcome (vo_variation rep) = Some COMMITTED" "core_run (aware demo_policy) demo_first m" "mem_good st"
proof -
  obtain st r where run: "vary demo_avo demo_strategy JNull JNull demo_start = (st, r)" by fastforce
  obtain rep where rep: "r = Inr rep" "vo_advanced rep" "var_outcome (vo_variation rep) = Some COMMITTED"
    using demo_varied run by (cases r) (auto simp: demo_summary_def)
  have A: "core_scope.wired validated_memory stored_revision mem_good (aware demo_policy) ''s'' demo_avo" "core_scope.alone demo_avo"
    using demo_wired demo_alone .
  from core_validated.vary_alone [OF A demo_started(1,2,3) run [unfolded rep(1)]] rep(2)
  obtain m e where "core_at validated_memory ''s'' st = Some m" "core_run (aware demo_policy) demo_first m" "running_variation m = None"
    "lineage m = lineage demo_first @ [e]" by auto
  with that run rep reach_run [OF demo_started(3)] core_validated.moves_good [OF core_validated.vary_moves [OF A(1) demo_started(1) run]]
  show thesis by auto
qed

subsection \<open>The committed lineage\<close>

text \<open>C4: Every committed candidate after the baseline rests on an evaluation of that very candidate that was valid and
  passed, was built on the entry before it, and was never committed before; so the lineage is one line.\<close>

theorem promotions_rest_on_passing_evaluations:
  assumes "core_reach ok m" "Suc i < length (lineage m)"
  shows "line_parent (lineage m ! Suc i) = Some (line_candidate (lineage m ! i)) \<and>
    (\<exists>x \<in> set (evaluations m). line_evaluation (lineage m ! Suc i) = Some (eval_id x) \<and>
       candidate_key (eval_candidate x) = candidate_key (line_candidate (lineage m ! Suc i)) \<and>
       res_validity (eval_result x) = VALID \<and> res_verdict (eval_result x) = Some VERDICT_PASS \<and>
       line_verifications (lineage m ! Suc i) = eval_verifications x) \<and>
    (\<exists>j \<in> set (implementations m). imp_candidate j = line_candidate (lineage m ! Suc i) \<and> imp_status j = PROMOTED \<and>
       (\<exists>b. imp_base j = Some b \<and> candidate_key b = candidate_key (line_candidate (lineage m ! i)))) \<and>
    (\<forall>k \<le> i. candidate_key (line_candidate (lineage m ! k)) \<noteq> candidate_key (line_candidate (lineage m ! Suc i)))"
proof -
  have ok: "core_ok m" by (rule core_reach_ok [OF assms(1)])
  then have "follows m (lineage m ! i) (lineage m ! Suc i)"
    using assms(2) by (auto simp: core_ok_def lineage_ok_def successively_conv_nth)
  moreover have "candidate_key (line_candidate (lineage m ! k)) \<noteq> candidate_key (line_candidate (lineage m ! Suc i))" if "k \<le> i" for k
    using lineage_distinct [OF ok] assms(2) that by (auto simp: line_keys_def distinct_conv_nth)
  ultimately show ?thesis unfolding follows_def by blast
qed

theorem promotions_rest_on_passing_evaluations_witness:
  "\<exists>m :: core_memory. Suc 0 < length (lineage m) \<and> line_parent (lineage m ! Suc 0) = Some (line_candidate (lineage m ! 0))"
proof (rule demo_after)
  fix m e assume m: "core_reach (aware demo_policy) m" "lineage m = lineage demo_first @ [e]"
  have len: "Suc 0 < length (lineage m)" by (simp add: m(2)) (simp add: first_memory_def seed_memory_def)
  have "line_parent (lineage m ! Suc 0) = Some (line_candidate (lineage m ! 0))"
    using promotions_rest_on_passing_evaluations [OF m(1) len] by (rule conjunct1)
  with len show ?thesis by blast
qed

subsection \<open>Variations\<close>

lemma prefix_grows: "prefix xs ys \<Longrightarrow> length xs < length ys \<longleftrightarrow> ys \<noteq> xs"
  by (auto simp: prefix_def)

text \<open>C16: The outcome of a variation is exact.  It compares the memory in which the variation began with the memory
  in which it ended: COMMITTED says that the lineage grew, CANDIDATE_CHANGED that only the candidate
  moved, NO_CHANGE that neither did and that nothing was observed, verified, evaluated, learnt or redirected.\<close>

theorem variation_outcomes_are_exact:
  assumes "core_reach ok m" "v \<in> set (variations m)" "var_status v = COMPLETED_VARIATION"
  shows "\<exists>ms me. core_run ok ms me \<and> core_run ok me m \<and> var_start v = Some (snapshot_of ms) \<and> var_end v = Some (snapshot_of me) \<and>
    (var_outcome v = Some COMMITTED \<longleftrightarrow> lineage me \<noteq> lineage ms) \<and>
    (var_outcome v = Some CANDIDATE_CHANGED \<longleftrightarrow> lineage me = lineage ms \<and> current_candidate me \<noteq> current_candidate ms) \<and>
    (var_outcome v = Some NO_CHANGE \<longleftrightarrow> lineage me = lineage ms \<and> current_candidate me = current_candidate ms \<and>
       observations me = observations ms \<and> verifications me = verifications ms \<and> evaluations me = evaluations ms \<and>
       knowledge me = knowledge ms \<and> interventions (oversight me) = interventions (oversight ms))"
proof -
  have "variation_traced ok m v" "variation_ok v"
    using core_reach_traced [OF assms(1)] core_reach_ok [OF assms(1)] assms(2) by (auto simp: core_traced_def core_ok_def variations_ok_def)
  then obtain ms me where run: "core_run ok ms me" "core_run ok me m" and snaps: "var_start v = Some (snapshot_of ms)" "var_end v = Some (snapshot_of me)"
    and out: "var_outcome v = Some (classify_outcome (activity_delta (snapshot_of ms) (snapshot_of me)))"
    using assms(3) by (auto simp: variation_traced_def ended_at_def begun_at_def variation_ok_def)
  note ev = core_run_evolves [OF run(1), unfolded core_evolves_def]
  have p: "prefix (lineage ms) (lineage me)" "prefix (observations ms) (observations me)" "prefix (verifications ms) (verifications me)"
    "prefix (evaluations ms) (evaluations me)" "prefix (knowledge ms) (knowledge me)"
    "prefix (interventions (oversight ms)) (interventions (oversight me))" using ev by blast+
  have lin: "length (lineage ms) < length (lineage me) \<longleftrightarrow> lineage me \<noteq> lineage ms" by (rule prefix_grows [OF p(1)])
  have cand: "cand_id (current_candidate ms) \<noteq> cand_id (current_candidate me) \<or> cand_version (current_candidate ms) \<noteq> cand_version (current_candidate me) \<longleftrightarrow>
      current_candidate me \<noteq> current_candidate ms" by auto
  have hist: "0 < int (length b) - int (length a) \<longleftrightarrow> b \<noteq> a" if "prefix a b" for a b :: "'z list"
    using prefix_grows [OF that] by simp
  define act where "act = activity_delta (snapshot_of ms) (snapshot_of me)"
  have added: "lineage_advanced act \<longleftrightarrow> length (lineage ms) < length (lineage me)"
    "candidate_changed act \<longleftrightarrow> cand_id (current_candidate ms) \<noteq> cand_id (current_candidate me) \<or> cand_version (current_candidate ms) \<noteq> cand_version (current_candidate me)"
    "observations_added act = int (length (observations me)) - int (length (observations ms))"
    "verifications_added act = int (length (verifications me)) - int (length (verifications ms))"
    "evaluations_added act = int (length (evaluations me)) - int (length (evaluations ms))"
    "knowledge_added act = int (length (knowledge me)) - int (length (knowledge ms))"
    "interventions_added act = int (length (interventions (oversight me))) - int (length (interventions (oversight ms)))"
    by (simp_all add: act_def activity_delta_def snapshot_of_def)
  note act = added(1) [unfolded lin] added(2) [unfolded cand]
    hist [OF p(2), folded added(3)] hist [OF p(3), folded added(4)] hist [OF p(4), folded added(5)] hist [OF p(5), folded added(6)]
    hist [OF p(6), folded added(7)]
  have out': "var_outcome v = Some (classify_outcome act)" by (simp add: out act_def)
  have "(var_outcome v = Some COMMITTED \<longleftrightarrow> lineage me \<noteq> lineage ms) \<and>
    (var_outcome v = Some CANDIDATE_CHANGED \<longleftrightarrow> lineage me = lineage ms \<and> current_candidate me \<noteq> current_candidate ms) \<and>
    (var_outcome v = Some NO_CHANGE \<longleftrightarrow> lineage me = lineage ms \<and> current_candidate me = current_candidate ms \<and>
       observations me = observations ms \<and> verifications me = verifications ms \<and> evaluations me = evaluations ms \<and>
       knowledge me = knowledge ms \<and> interventions (oversight me) = interventions (oversight ms))"
    unfolding out' classify_outcome_def act by simp
  with run snaps show ?thesis by blast
qed

text \<open>C14: A variation that nobody interferes with commits at most once.  However the strategy uses its capabilities, the
  lineage grows by one entry exactly when the report says so and the outcome is COMMITTED, no more
  capability calls are counted than the budget has, and no variation is left running.\<close>

theorem variation_commits_at_most_once:
  assumes "av_store A = validated_memory" "av_others A = (\<lambda>_ _ st. st)" "mem_good st"
    "core_at validated_memory (av_session A) st = Some m" "core_reach (aware (av_policy A)) m"
    "vary A strategy problem req st = (st', Inr rep)"
  shows "\<exists>m'. core_at validated_memory (av_session A) st' = Some m' \<and> core_run (aware (av_policy A)) m m' \<and> running_variation m' = None \<and>
    vo_after rep = current_candidate m' \<and> (if vo_advanced rep then \<exists>e. lineage m' = lineage m @ [e] else lineage m' = lineage m) \<and>
    (var_outcome (vo_variation rep) = Some COMMITTED \<longleftrightarrow> vo_advanced rep) \<and>
    0 \<le> var_calls (vo_variation rep) \<and> var_calls (vo_variation rep) \<le> max 0 (av_budget A)"
  using assms core_validated.vary_alone [OF wired_validated [OF assms(1) alone_writers [OF assms(2)]], of st m strategy problem req st' rep]
  by (simp add: core_validated.alone_def)

theorem variation_commits_at_most_once_witness:
  "\<exists>st' rep m' e. vary demo_avo demo_strategy JNull JNull demo_start = (st', Inr rep) \<and>
     core_at validated_memory ''s'' st' = Some m' \<and> lineage m' = lineage demo_first @ [e] \<and> var_outcome (vo_variation rep) = Some COMMITTED"
proof (rule demo_after)
  fix st rep assume run: "vary demo_avo demo_strategy JNull JNull demo_start = (st, Inr rep)" and adv: "vo_advanced rep"
  have A: "av_store demo_avo = validated_memory" "av_others demo_avo = (\<lambda>_ _ st. st)" "av_session demo_avo = ''s''" "av_policy demo_avo = demo_policy"
    by (simp_all add: demo_avo_def)
  from variation_commits_at_most_once [OF A(1,2) demo_started(1) _ _ run, unfolded A(3,4), OF demo_started(2,3)] adv
  show ?thesis using run by auto
qed



subsection \<open>Operations among other writers\<close>

lemma session_took:
  assumes "core_store C = validated_memory" "writers_ok validated_memory stored_revision mem_good ok (core_session C) (core_others C)" "ok (core_ask C)"
    "mem_good st" "makes_core_step ok step" "in_session C step st = (st', Inr v)"
  shows "core_took validated_memory stored_revision mem_good ok (core_session C) step st st' v"
  using core_validated.in_session_took [of ok "core_session C" C st step st' v] assms by (simp add: core_validated.proper_def)

text \<open>C5: Every operation of the core harness takes effect at once, whatever other writers of the session do.  What it
  answers is what its step answers to the very document that its save replaced, and before and after
  that moment only steps of others happened; and a whole run of an agent's strategy is a path of such steps.\<close>

theorem core_operations_are_linearizable:
  assumes "core_store C = validated_memory" "writers_ok validated_memory stored_revision mem_good ok (core_session C) (core_others C)" "ok (core_ask C)"
    "mem_good st"
  shows "(observe C req rt st = (st1, Inr v1) \<longrightarrow> core_took validated_memory stored_revision mem_good ok (core_session C)
       (observe_step (core_ask C) (core_draws C) req rt) st st1 v1) \<and>
     (record_verification C rec st = (st2, Inr v2) \<longrightarrow> core_took validated_memory stored_revision mem_good ok (core_session C)
       (record_verification_step (core_draws C) rec) st st2 v2) \<and>
     (act C req st = (st3, Inr v3) \<longrightarrow> core_took validated_memory stored_revision mem_good ok (core_session C)
       (act_step (core_ask C) (core_draws C) req) st st3 v3) \<and>
     (evaluate C req st = (st4, Inr v4) \<longrightarrow> core_took validated_memory stored_revision mem_good ok (core_session C)
       (evaluate_step (core_ask C) (core_draws C) req) st st4 v4) \<and>
     (record_knowledge C rec st = (st5, Inr v5) \<longrightarrow> core_took validated_memory stored_revision mem_good ok (core_session C)
       (record_knowledge_step (core_draws C) rec) st st5 v5) \<and>
     (begin_variation C problem req policy st = (st6, Inr v6) \<longrightarrow> core_took validated_memory stored_revision mem_good ok (core_session C)
       (begin_variation_step (core_draws C) problem req policy) st st6 v6) \<and>
     (complete_variation C vid how calls failure st = (st7, Inr v7) \<longrightarrow> core_took validated_memory stored_revision mem_good ok (core_session C)
       (complete_variation_step (core_draws C) vid how calls failure) st st7 v7) \<and>
     (promote C st = (st8, Inr v8) \<longrightarrow> core_took validated_memory stored_revision mem_good ok (core_session C)
       (promote_step (core_draws C)) st st8 v8) \<and>
     (av_store A = validated_memory \<and> vary A strategy problem req st = (st9, v9) \<and>
        (\<forall>k. writers_ok validated_memory stored_revision mem_good (aware (av_policy A)) (av_session A) (av_others A k)) \<longrightarrow>
      core_moves validated_memory stored_revision mem_good (aware (av_policy A)) (av_session A) st st9)"
proof (intro conjI impI)
  note took = session_took [OF assms]
  show "core_took validated_memory stored_revision mem_good ok (core_session C) (observe_step (core_ask C) (core_draws C) req rt) st st1 v1"
    if "observe C req rt st = (st1, Inr v1)"
    by (rule took [OF steps_make_steps(1) [where ok = ok, OF assms(3)] that [unfolded observe_def]])
  show "core_took validated_memory stored_revision mem_good ok (core_session C) (record_verification_step (core_draws C) rec) st st2 v2"
    if "record_verification C rec st = (st2, Inr v2)"
    by (rule took [OF steps_make_steps(2) that [unfolded record_verification_def]])
  show "core_took validated_memory stored_revision mem_good ok (core_session C) (act_step (core_ask C) (core_draws C) req) st st3 v3"
    if "act C req st = (st3, Inr v3)"
    by (rule took [OF steps_make_steps(3) [where ok = ok, OF assms(3)] that [unfolded act_def]])
  show "core_took validated_memory stored_revision mem_good ok (core_session C) (evaluate_step (core_ask C) (core_draws C) req) st st4 v4"
    if "evaluate C req st = (st4, Inr v4)"
    by (rule took [OF steps_make_steps(4) [where ok = ok, OF assms(3)] that [unfolded evaluate_def]])
  show "core_took validated_memory stored_revision mem_good ok (core_session C) (record_knowledge_step (core_draws C) rec) st st5 v5"
    if "record_knowledge C rec st = (st5, Inr v5)"
    by (rule took [OF steps_make_steps(5) that [unfolded record_knowledge_def]])
  show "core_took validated_memory stored_revision mem_good ok (core_session C) (begin_variation_step (core_draws C) problem req policy) st st6 v6"
    if "begin_variation C problem req policy st = (st6, Inr v6)"
    by (rule took [OF steps_make_steps(6) that [unfolded begin_variation_def]])
  show "core_took validated_memory stored_revision mem_good ok (core_session C) (complete_variation_step (core_draws C) vid how calls failure) st st7 v7"
    if "complete_variation C vid how calls failure st = (st7, Inr v7)"
    using that by (intro took [OF steps_make_steps(7)]) (simp add: complete_variation_def split: sum.splits)
  show "core_took validated_memory stored_revision mem_good ok (core_session C) (promote_step (core_draws C)) st st8 v8"
    if "promote C st = (st8, Inr v8)"
    by (rule took [OF steps_make_steps(8) that [unfolded promote_def]])
  show "core_moves validated_memory stored_revision mem_good (aware (av_policy A)) (av_session A) st st9"
    if "av_store A = validated_memory \<and> vary A strategy problem req st = (st9, v9) \<and>
        (\<forall>k. writers_ok validated_memory stored_revision mem_good (aware (av_policy A)) (av_session A) (av_others A k))"
    using that core_validated.vary_moves [OF wired_validated assms(4), of A strategy problem req st9 v9] by blast
qed

definition demo_setting :: "nat \<Rightarrow> core_memory sessions core_setting" where
  "demo_setting k = setting_of demo_avo k"

lemma demo_setting_simps:
  "core_store (demo_setting k) = validated_memory" "core_session (demo_setting k) = ''s''" "core_others (demo_setting k) = (\<lambda>_ st. st)"
  "aware demo_policy (core_ask (demo_setting k))"
  by (auto simp: demo_setting_def setting_of_def demo_avo_def aware_def)

theorem core_operations_are_linearizable_witness:
  "\<exists>st' v. act (demo_setting 0) (version_json ''2'') demo_start = (st', Inr v) \<and>
     core_took validated_memory stored_revision mem_good (aware demo_policy) ''s''
       (act_step (core_ask (demo_setting 0)) (core_draws (demo_setting 0)) (version_json ''2'')) demo_start st' v"
proof -
  have "is_ok (snd (act (demo_setting 0) (version_json ''2'') demo_start))" by code_simp
  then obtain st' v where run: "act (demo_setting 0) (version_json ''2'') demo_start = (st', Inr v)"
    by (cases "act (demo_setting 0) (version_json ''2'') demo_start"; cases "snd (act (demo_setting 0) (version_json ''2'') demo_start)") auto
  have "writers_ok validated_memory stored_revision mem_good (aware demo_policy) (core_session (demo_setting 0)) (core_others (demo_setting 0))"
    by (simp add: demo_setting_simps no_writers)
  from core_operations_are_linearizable [OF demo_setting_simps(1) this demo_setting_simps(4) demo_started(1), THEN conjunct2, THEN conjunct2, THEN conjunct1,
      rule_format, OF run] run show ?thesis by (auto simp: demo_setting_simps(2))
qed

subsection \<open>The verification policy\<close>

text \<open>C15: The assessment decides the policy.  Verification records with a claim are always assessed, and the assessment is
  ready exactly when no record fails and no claim is both passed and failed, where the policy says so, and
  every required claim is passed by at least the required number of different sources.\<close>

theorem assessment_decides_the_policy:
  assumes "\<forall>v \<in> set vs. nonblank (vr_claim (ver_record v))"
  shows "\<exists>a. assess_verifications vs p = Inr a \<and> (as_ready a \<longleftrightarrow>
    (reject_failures p \<longrightarrow> (\<forall>v \<in> set vs. vr_status (ver_record v) \<noteq> VERIFIED_FAIL)) \<and>
    (reject_conflicts p \<longrightarrow> \<not> (\<exists>v \<in> set vs. \<exists>w \<in> set vs. vr_claim (ver_record v) = vr_claim (ver_record w) \<and>
       vr_status (ver_record v) = VERIFIED_PASS \<and> vr_status (ver_record w) = VERIFIED_FAIL)) \<and>
    (\<forall>n \<in> set (needs p). need_sources n \<le> int (card {source_key (ver_record v) | v. v \<in> set vs \<and>
       vr_claim (ver_record v) = need_claim n \<and> vr_status (ver_record v) = VERIFIED_PASS})))"
proof -
  obtain a where a: "assess_verifications vs p = Inr a" using assess_total [OF assms] by blast
  have "(\<forall>c. sources VERIFIED_PASS c vs = {} \<or> sources VERIFIED_FAIL c vs = {}) \<longleftrightarrow>
      \<not> (\<exists>v \<in> set vs. \<exists>w \<in> set vs. vr_claim (ver_record v) = vr_claim (ver_record w) \<and>
         vr_status (ver_record v) = VERIFIED_PASS \<and> vr_status (ver_record w) = VERIFIED_FAIL)"
    by (fastforce simp: sources_def)
  with a assess_ready [OF a] show ?thesis by (simp add: policy_met_def) (simp add: sources_def)
qed

definition demo_verification :: "string \<Rightarrow> verification_status \<Rightarrow> string \<Rightarrow> verification" where
  "demo_verification k st who = \<lparr>ver_id = k, ver_at = [], ver_record = \<lparr>vr_candidate = \<lparr>cand_id = ''repo'', cand_version = ''1''\<rparr>,
     vr_claim = ''tests pass'', vr_status = st, vr_evidence = [], vr_summary = JNull, vr_details = JNull, vr_request = JNull, vr_source = MANUAL,
     vr_name = JStr who\<rparr>\<rparr>"

theorem assessment_decides_the_policy_witness:
  "\<exists>a. assess_verifications [demo_verification ''v1'' VERIFIED_PASS ''ann'', demo_verification ''v2'' VERIFIED_FAIL ''bob''] demo_policy = Inr a \<and> \<not> as_ready a"
proof -
  let ?vs = "[demo_verification ''v1'' VERIFIED_PASS ''ann'', demo_verification ''v2'' VERIFIED_FAIL ''bob'']"
  have named: "\<forall>v \<in> set ?vs. nonblank (vr_claim (ver_record v))" by (simp add: demo_verification_def) code_simp
  have "reject_failures demo_policy" by (simp add: demo_policy_def)
  with assessment_decides_the_policy [OF named, of demo_policy] show ?thesis by (auto simp: demo_verification_def)
qed

text \<open>C3: An undisturbed promotion meets the policy.  When \<open>promote\<close> of the AVO harness returns and no other writer was
  active, the verifications recorded of the promoted candidate meet the verification policy the
  evaluator was built with, and the lineage grows by that very candidate.\<close>

theorem promotion_meets_the_policy:
  assumes "core_store C = validated_memory" "core_others C = (\<lambda>_ st. st)" "aware p (core_ask C)" "mem_good st"
    "core_at validated_memory (core_session C) st = Some m" "core_reach (aware p) m" "avo_promote C st = (st', Inr e)"
  shows "policy_met (current_verifications m) p \<and> line_candidate e = current_candidate m \<and>
    (\<exists>m'. core_at validated_memory (core_session C) st' = Some m' \<and> lineage m' = lineage m @ [e])"
proof -
  have C: "core_scope.proper validated_memory stored_revision mem_good (aware p) (core_session C) C"
    using assms(1-3) by (simp add: core_validated.proper_def no_writers)
  obtain d x where d: "work_state C st = Inr d" and fresh: "assert_inputs_fresh (memory d) ''promotion'' = Inr x" and run: "promote C st = (st', Inr e)"
    using assms(2,7) by (auto simp: avo_promote_def Let_def split: sum.splits)
  have m: "memory d = m" using d assms(1,5) core_validated.load_work_Inr by (auto simp: work_state_def core_at_def)
  show ?thesis
  proof (rule core_validated.in_session_cases [OF C assms(4) steps_make_steps(8) run [unfolded promote_def]])
    fix stc d2 d' v
    assume a: "Inr e = Inr v" "quiet C \<Longrightarrow> stc = st" "op_load validated_memory stc (core_session C) = Inr (Some d2)"
      "promote_step (core_draws C) d2 = Inr (d', v)" "core_at validated_memory (core_session C) st' = Some (memory d')"
    have m2: "memory d2 = m" using a(2,3) assms(2,5) by (simp add: quiet_def core_at_def)
    obtain y where y: "current_evaluation (memory d2) = Some y" "res_verdict (eval_result y) = Some VERDICT_PASS" "line_candidate v = current_candidate (memory d2)"
      by (rule promote_shape [OF a(4)])
    have "x = y" using fresh y(1) m m2 by (auto simp: assert_inputs_fresh_def split: prod.splits)
    then have "policy_met (current_verifications m) p" using fresh_inputs_met [OF assms(6)] fresh m y(2) by simp
    moreover have "lineage (memory d') = lineage m @ [v]" using promote_extends(2) [OF a(4)] m2 by simp
    ultimately show ?thesis using a(1,5) y(3) m2 by simp
  qed simp
qed

text \<open>A session whose strategy stops before it promotes.\<close>

definition demo_draft :: strategy where
  "demo_draft = (\<lambda>_. Calls ''avo.act'' (version_json ''2'') (\<lambda>_. Calls ''verify.suite'' (JStr ''PASS'') (\<lambda>_. Calls ''avo.evaluate'' JNull
     (\<lambda>_. Returns None))))"

definition demo_drafted :: "core_memory sessions" where
  "demo_drafted = fst (vary demo_avo demo_draft JNull JNull demo_start)"

definition demo_failure :: jsval where
  "demo_failure = Some (JObj [(''candidate'', version_json ''2''), (''claim'', JStr ''tests pass''), (''status'', JStr ''FAIL''), (''evidence'', JArr [JStr ''log''])])"

text \<open>Another writer that records a failed verification between the check and the commit.\<close>

definition late_failure :: "nat \<Rightarrow> core_memory sessions \<Rightarrow> core_memory sessions" where
  "late_failure k st = (if k = 0 then fst (record_verification (demo_setting 60) demo_failure st) else st)"

definition demo_promotion :: "(nat \<Rightarrow> core_memory sessions \<Rightarrow> core_memory sessions) \<Rightarrow> core_memory sessions \<times> lineage_entry res" where
  "demo_promotion env = avo_promote ((demo_setting 50)\<lparr>core_others := env\<rparr>) demo_drafted"

lemma demo_promotes:
  "is_ok (snd (demo_promotion (\<lambda>_ st. st)))"
  by code_simp

lemma demo_promotes_late:
  "(case demo_promotion late_failure of
      (st, Inr e) \<Rightarrow> (case core_at validated_memory ''s'' st of
          Some m \<Rightarrow> line_candidate e = current_candidate m \<and> lineage_head m = Some e \<and>
            (case assess_verifications (current_verifications m) demo_policy of Inr a \<Rightarrow> \<not> as_ready a | Inl _ \<Rightarrow> False)
        | None \<Rightarrow> False)
    | _ \<Rightarrow> False)"
  by code_simp

lemma demo_reached:
  assumes "vary demo_avo strategy JNull JNull demo_start = (st, r)"
  obtains m where "core_at validated_memory ''s'' st = Some m" "core_reach (aware demo_policy) m" "mem_good st"
    "core_run (aware demo_policy) demo_first m"
proof -
  note A = demo_wired demo_alone
  have moved: "core_moves validated_memory stored_revision mem_good (aware demo_policy) ''s'' demo_start st"
    by (rule core_validated.vary_moves [OF A(1) demo_started(1) assms])
  from core_path_reach [OF moved [unfolded core_moves_def, THEN conjunct2, unfolded demo_started(2)] demo_started(3)]
  show thesis using that core_validated.moves_good [OF moved] by blast
qed

theorem promotion_meets_the_policy_witness:
  "\<exists>m st' e. core_at validated_memory ''s'' demo_drafted = Some m \<and> avo_promote (demo_setting 50) demo_drafted = (st', Inr e) \<and>
     policy_met (current_verifications m) demo_policy \<and> line_candidate e = current_candidate m"
proof -
  obtain st r where run: "vary demo_avo demo_draft JNull JNull demo_start = (st, r)" by fastforce
  then have st: "demo_drafted = st" by (simp add: demo_drafted_def)
  obtain m where m: "core_at validated_memory ''s'' st = Some m" "core_reach (aware demo_policy) m" "mem_good st" by (rule demo_reached [OF run])
  have same: "(demo_setting 50)\<lparr>core_others := \<lambda>_ st. st\<rparr> = demo_setting 50" by (simp add: demo_setting_def setting_of_def demo_avo_def)
  obtain st' e where pr: "avo_promote (demo_setting 50) st = (st', Inr e)"
    using demo_promotes by (cases "demo_promotion (\<lambda>_ st. st)"; cases "snd (demo_promotion (\<lambda>_ st. st))") (auto simp: demo_promotion_def same st)
  from promotion_meets_the_policy [OF demo_setting_simps(1,3,4) m(3) _ m(2) pr] m(1) pr show ?thesis by (auto simp: demo_setting_simps(2) st)
qed

text \<open>C40: A promotion can ignore a failed verification.  The check of the evaluation's inputs and the commit are two
  separate reads of the session: another writer that records a failed verification of the candidate
  between them is not noticed, and the candidate is committed although the policy rejects it.\<close>

theorem promotion_can_ignore_a_failed_verification:
  "\<exists>C st st' e m. core_store C = validated_memory \<and> aware demo_policy (core_ask C) \<and> mem_good st \<and>
     writers_ok validated_memory stored_revision mem_good (aware demo_policy) (core_session C) (core_others C) \<and>
     (\<exists>m0. core_at validated_memory (core_session C) st = Some m0 \<and> core_reach (aware demo_policy) m0) \<and>
     avo_promote C st = (st', Inr e) \<and> core_at validated_memory (core_session C) st' = Some m \<and>
     lineage_head m = Some e \<and> line_candidate e = current_candidate m \<and> \<not> policy_met (current_verifications m) demo_policy"
proof -
  let ?C = "(demo_setting 50)\<lparr>core_others := late_failure\<rparr>"
  obtain st r where run: "vary demo_avo demo_draft JNull JNull demo_start = (st, r)" by fastforce
  then have st: "demo_drafted = st" by (simp add: demo_drafted_def)
  obtain m0 where m0: "core_at validated_memory ''s'' st = Some m0" "core_reach (aware demo_policy) m0" "mem_good st" by (rule demo_reached [OF run])
  have proper: "core_scope.proper validated_memory stored_revision mem_good (aware demo_policy) ''s'' (demo_setting 60)"
    by (simp add: core_validated.proper_def demo_setting_simps no_writers)
  have moved: "core_moves validated_memory stored_revision mem_good (aware demo_policy) ''s'' w (fst (record_verification (demo_setting 60) demo_failure w))"
    if "mem_good w" for w
    using core_validated.in_session_calm [OF proper that steps_make_steps(2) steps_tame(2)] core_validated.calm_moves
    by (metis prod.collapse record_verification_def)
  have env: "writers_ok validated_memory stored_revision mem_good (aware demo_policy) (core_session ?C) (core_others ?C)"
    using moved by (auto simp: writers_ok_def late_failure_def core_moves_refl demo_setting_simps)
  obtain st' q where pr: "demo_promotion late_failure = (st', q)" by fastforce
  from demo_promotes_late obtain e where e: "q = Inr e" by (cases q) (simp_all add: pr)
  from demo_promotes_late obtain m where m: "core_at validated_memory ''s'' st' = Some m"
    by (cases "core_at validated_memory ''s'' st'") (simp_all add: pr e)
  from demo_promotes_late obtain a where verdict: "assess_verifications (current_verifications m) demo_policy = Inr a"
    by (cases "assess_verifications (current_verifications m) demo_policy") (simp_all add: pr e m)
  have finish: "avo_promote ?C st = (st', Inr e)" "core_at validated_memory ''s'' st' = Some m" "line_candidate e = current_candidate m"
      "lineage_head m = Some e" and unready: "\<not> as_ready a"
    using demo_promotes_late pr m by (simp_all add: e verdict demo_promotion_def st)
  have "\<not> policy_met (current_verifications m) demo_policy" using unready assess_ready [OF verdict] by blast
  with finish env m0 show ?thesis by (intro exI [of _ ?C] exI [of _ st] exI [of _ st'] exI [of _ e] exI [of _ m]) (auto simp: demo_setting_simps)
qed

text \<open>The variation that the demonstration ran.\<close>

lemma demo_recorded:
  "(case core_at validated_memory ''s'' (fst (vary demo_avo demo_strategy JNull JNull demo_start)) of
      Some m \<Rightarrow> map (\<lambda>v. (var_status v, var_outcome v)) (variations m) = [(COMPLETED_VARIATION, Some COMMITTED)]
    | None \<Rightarrow> False)"
  by code_simp

theorem variation_outcomes_are_exact_witness:
  "\<exists>(ms :: core_memory) (me :: core_memory) (v :: variation). var_outcome v = Some COMMITTED \<and> var_start v = Some (snapshot_of ms) \<and> var_end v = Some (snapshot_of me) \<and>
     lineage me \<noteq> lineage ms"
proof -
  obtain st r where run: "vary demo_avo demo_strategy JNull JNull demo_start = (st, r)" by fastforce
  obtain m where m: "core_at validated_memory ''s'' st = Some m" "core_reach (aware demo_policy) m" by (rule demo_reached [OF run])
  obtain v where v: "v \<in> set (variations m)" "var_status v = COMPLETED_VARIATION" "var_outcome v = Some COMMITTED"
    using demo_recorded m(1) by (auto simp: run)
  from variation_outcomes_are_exact [OF m(2) v(1,2)] v(3) show ?thesis by blast
qed

end
