(* ===== verification/Core_Gates.thy ===== *)
theory Core_Gates
  imports Core_Props
begin

section \<open>Gates before a variation\<close>

text \<open>
  The two gates a variation passes: the search investment policy, which may stop or escalate a search,
  and recovery, which refuses a session whose last variation was interrupted.
\<close>

subsection \<open>What a decision says\<close>


lemma parse_action_text [simp]: "parse_search_action (Some (JStr (search_action_text a))) = Some a"
  by (cases a) (simp_all add: parse_search_action_def search_action_text_def)

lemma parse_state_text [simp]: "parse_search_state (Some (JStr (search_state_text s))) = Some s"
  by (cases s) (simp_all add: parse_search_state_def search_state_text_def)





subsection \<open>The marginal improvement policy\<close>











subsection \<open>The gate of the search policy\<close>

context core_scope
begin

text \<open>When the gate lets a variation pass, everything after it moves on from where the gate left the session.\<close>

lemma vary_after_gate:
  assumes A: "wired A" and gate: "assert_can_continue (av_search A) (setting_of A 0) st = (st1, Inr prior)" and good: "good st1"
    and run: "vary A strategy problem req st = (st', r)"
  shows "moves st1 st'"
proof -
  note run = run [unfolded vary_def gate prod.case sum.case]
  obtain st2 cx where read: "reading (setting_of A 1) (context_of (core_ask (setting_of A 1)) problem) st1 = (st2, cx)" by fastforce
  have m2: "moves st1 st2" using settled_moves [OF reading_settled(1) [OF A good read]] .
  show ?thesis
  proof (cases cx)
    case (Inl e)
    with run read m2 show ?thesis by simp
  next
    case (Inr seen)
    obtain st3 b where beg: "begin_variation (setting_of A 2) problem req (policy_json A) st2 = (st3, b)" by fastforce
    have m3: "moves st1 st3" by (rule core_moves_trans [OF m2 begin_effect(1) [OF wired_proper [OF A] moves_good [OF m2] beg]])
    show ?thesis
    proof (cases b)
      case (Inl e)
      with run read Inr beg m3 show ?thesis by simp
    next
      case b: (Inr v)
      obtain s q where agent: "run_agent A (strategy \<lparr>vi_variation = v, vi_context = seen, vi_search = prior, vi_request = req\<rparr>) 3 st3 = (s, q)" by fastforce
      have m4: "moves st3 (rs_store s)" using run_agent_ok [OF A moves_good [OF m3] agent] by (simp add: strategy_ok_def)
      have m14: "moves st1 (rs_store s)" by (rule core_moves_trans [OF m3 m4])
      have fin: "finish_variation A seen v (s, q) = (st', r)" using run read Inr beg b agent by simp
      show ?thesis
      proof (rule finish_steps [OF A moves_good [OF m4] fin])
        fix e how failure assume "complete_variation (setting_of A (rs_operations s)) (var_id v) how (rs_calls s) failure (rs_store s) = (st', Inl e)"
        from complete_effect(1) [OF wired_proper [OF A] moves_good [OF m4] this] show ?thesis by (rule core_moves_trans [OF m14])
      next
        fix st4 y how failure assume c: "complete_variation (setting_of A (rs_operations s)) (var_id v) how (rs_calls s) failure (rs_store s) = (st4, Inr y)"
          and last: "settled (alone A) st4 st'"
        from complete_effect(1) [OF wired_proper [OF A] moves_good [OF m4] c] have "moves st1 st4" by (rule core_moves_trans [OF m14])
        then show ?thesis using settled_moves [OF last] by (rule core_moves_trans)
      qed
    qed
  qed
qed

text \<open>What an undisturbed gate does with the latest decision.\<close>

lemma gate_decides:
  assumes A: "wired A" "alone A" and good: "good st" and at: "core_at ops sess st = Some m" and p: "av_search A = Some p"
    and latest: "latest_decision m = Some x" and gate: "assert_can_continue (av_search A) (setting_of A 0) st = (st1, g)"
  shows "decision_fresh m x (sp_ref p) \<Longrightarrow> st1 = st \<and> g = (if sv_action (sd_verdict x) = CONTINUE_SEARCH then Inr (Some x) else Inl (search_boundary x))"
    "\<not> decision_fresh m x (sp_ref p) \<Longrightarrow> (\<exists>e. g = Inl e) \<or>
       (\<exists>y m1. g = Inr (Some y) \<and> core_at ops sess st1 = Some m1 \<and> y \<in> set (search_decisions m1) \<and> sd_snapshot y = search_input m \<and>
          sd_policy y = sp_ref p \<and> sv_action (sd_verdict y) = CONTINUE_SEARCH)"
proof -
  have C: "proper (setting_of A 0)" by (rule wired_proper [OF A(1)])
  have q: "core_others (setting_of A 0) k st = st" for k st using A(2) by (simp add: alone_def setting_of_def)
  obtain d where d: "op_load ops st sess = Inr (Some d)" "memory d = m" using at by (auto simp: core_at_def split: sum.splits option.splits)
  have load: "load_found (core_store (setting_of A 0)) (core_session (setting_of A 0)) st = Inr d"
    using C d(1) by (simp add: load_found_Inr proper_def)
  note gate = gate [unfolded assert_can_continue_def p option.case Let_def q load sum.case d(2) latest]
  show "decision_fresh m x (sp_ref p) \<Longrightarrow> st1 = st \<and> g = (if sv_action (sd_verdict x) = CONTINUE_SEARCH then Inr (Some x) else Inl (search_boundary x))"
    using gate by (auto split: if_splits)
  assume "\<not> decision_fresh m x (sp_ref p)"
  note gate = gate [unfolded if_not_P [OF this]]
  obtain st2 a where ass: "assess_search p (setting_of A 0) st = (st2, a)" by fastforce
  show "(\<exists>e. g = Inl e) \<or>
       (\<exists>y m1. g = Inr (Some y) \<and> core_at ops sess st1 = Some m1 \<and> y \<in> set (search_decisions m1) \<and> sd_snapshot y = search_input m \<and>
          sd_policy y = sp_ref p \<and> sv_action (sd_verdict y) = CONTINUE_SEARCH)"
  proof (cases a)
    case (Inl e)
    with gate ass show ?thesis by auto
  next
    case (Inr y)
    have st1: "st1 = st2" and g: "g = (if sv_action (sd_verdict y) = CONTINUE_SEARCH then Inr (Some y) else Inl (search_boundary y))"
      using gate ass Inr by auto
    have env: "writers_ok ops rev_of good ok sess (core_others (setting_of A 0))" and same: "core_store (setting_of A 0) = ops" "core_session (setting_of A 0) = sess"
      using C by (auto simp: proper_def)
    note run = ass [unfolded assess_search_def same Inr]
    show ?thesis
    proof (cases rule: commit_step_cases [OF env steps_make_steps(9) stamps_simps(1) good run])
      case (2 d1 d' v)
      from 2(1) have v: "v = y" by simp
      have "d1 = d" using 2(3) d(1) by (simp add: q)
      with 2(4) v have step: "assess_step p (core_draws (setting_of A 0)) d = Inr (d', y)" by simp
      from search_shape [OF step] have "y \<in> set (search_decisions (memory d'))" "sd_snapshot y = search_input m" "sd_policy y = sp_ref p"
        using d(2) by (auto simp: logged_def)
      with 2(5) g st1 show ?thesis by auto
    qed simp
  qed
qed

end



subsection \<open>Recovery\<close>

lemma assessed_variation [simp]: "rec_variation (assess_recovery parse after now m) = last_running m"
  by (simp add: assess_recovery_def Let_def split: option.split)

lemma last_running_unique:
  assumes "variations_ok m"
  shows "last_running m = running_variation m"
proof -
  have "find P (rev xs) = find P xs" if "length (filter P xs) \<le> 1" for P and xs :: "variation list"
    using that
  proof (induction xs)
    case (Cons x xs)
    show ?case
    proof (cases "P x")
      case True
      then have "filter P xs = []" using Cons.prems by simp
      then have "find P (rev xs) = None" by (auto simp: find_None_iff filter_empty_conv)
      with True show ?thesis by (simp add: find_at_end)
    next
      case False
      with Cons show ?thesis by (simp add: find_at_end split: option.split)
    qed
  qed simp
  then show ?thesis using assms by (simp add: last_running_def running_variation_def variations_ok_def)
qed

text \<open>C17: An interrupted variation blocks the session and can be recovered.  While a variation is recorded as running the
  harness refuses to vary or to resume and changes nothing; a forced recovery then closes that variation
  as INTERRUPTED, keeps the lineage, and opens the gate again.\<close>

theorem interrupted_variation_is_recovered:
  assumes "core_store C = validated_memory" "core_others C = (\<lambda>_ st. st)" "ok (core_ask C)" "mem_good st"
    "core_at validated_memory (core_session C) st = Some m" "core_reach ok m" "running_variation m = Some v" "distinct (map var_id (variations m))"
    "nonblank (core_session C)" "nonblank (var_id v)" "0 \<le> var_calls v"
  shows "(\<forall>A B strategy problem req. B 0 = C \<longrightarrow> harness_vary H A B strategy problem req st = (st, Inl (recovery_required v))) \<and>
    harness_resume H C st = (st, Inl (recovery_required v)) \<and>
    (\<exists>st' y m'. recover_variation parse after now True C st = (st', Inr (Some y)) \<and> var_id y = var_id v \<and> var_status y = COMPLETED_VARIATION \<and>
       var_termination y = Some INTERRUPTED \<and> core_at validated_memory (core_session C) st' = Some m' \<and> core_run ok m m' \<and>
       lineage m' = lineage m \<and> recovery_gate H m' = Inr ())"
proof -
  have C: "core_scope.proper validated_memory stored_revision mem_good ok (core_session C) C" and quiet: "quiet C"
    using assms(1-3) by (simp_all add: core_validated.proper_def quiet_def no_writers)
  have vok: "variations_ok m" using core_reach_ok [OF assms(6)] by (simp add: core_ok_def)
  have last: "last_running m = Some v" using last_running_unique [OF vok] assms(7) by simp
  obtain d where d: "op_load validated_memory st (core_session C) = Inr (Some d)" "memory d = m"
    using assms(5) by (auto simp: core_at_def split: sum.splits option.splits)
  have work: "work_state C st = Inr d" using d(1) assms(1,9) by (simp add: work_state_def load_work_def load_found_def)
  have gate: "reading C (\<lambda>d. recovery_gate H (memory d)) st = (st, Inl (recovery_required v))"
    by (simp add: reading_def assms(2) work recovery_gate_def d(2) last)
  have v: "v \<in> set (variations m)" "var_status v = RUNNING_VARIATION"
    using assms(7) by (auto simp: running_variation_def dest: find_split)
  have found: "find (\<lambda>w. var_id w = var_id v) (variations m) = Some v"
  proof -
    have "find (\<lambda>w. var_id w = var_id v) xs = Some v" if "distinct (map var_id xs)" "v \<in> set xs" for xs
      using that by (induction xs) force+
    then show ?thesis using assms(8) v(1) by blast
  qed
  have start: "var_start v \<noteq> None" using vok v(1) by (auto simp: variations_ok_def variation_ok_def)
  obtain st' y where comp: "complete_variation C (var_id v) INTERRUPTED (var_calls v) interruption_json st = (st', Inr y)"
    using core_validated.complete_succeeds [OF C quiet assms(4,5) found v(2) start assms(9-11)] by blast
  have rec: "recover_variation parse after now True C st = (st', Inr (Some y))"
    by (simp add: recover_variation_def Let_def assms(2) work d(2) last comp)
  obtain m' where m': "core_at validated_memory (core_session C) st' = Some m'" "core_step ok m m'" "lineage m' = lineage m"
      "running_variation m' = None"
    using core_validated.complete_effect(3) [OF C assms(4) comp quiet assms(5) refl] vok by blast
  have step: "in_session C (complete_variation_step (core_draws C) (var_id v) INTERRUPTED (var_calls v) interruption_json) st = (st', Inr y)"
    using comp by (simp add: complete_variation_def split: sum.splits)
  have env: "writers_ok validated_memory stored_revision mem_good ok (core_session C) (core_others C)" by (simp add: assms(2) no_writers)
  from session_took [OF assms(1) env assms(3,4) steps_make_steps(7) step] obtain d1 d1' where
    s: "complete_variation_step (core_draws C) (var_id v) INTERRUPTED (var_calls v) interruption_json d1 = Inr (d1', y)"
    unfolding core_took_def by blast
  have y: "var_id y = var_id v" "var_status y = COMPLETED_VARIATION" "var_termination y = Some INTERRUPTED"
    by (rule complete_shape [OF s], auto dest: find_split)+
  have "core_reach ok m'" using assms(6) m'(2) by (blast intro: reach_run)
  then have "variations_ok m'" using core_reach_ok by (auto simp: core_ok_def)
  then have open_gate: "recovery_gate H m' = Inr ()" using last_running_unique m'(4) by (simp add: recovery_gate_def)
  show ?thesis
    using gate rec y m' open_gate by (auto simp: harness_vary_def harness_resume_def)
qed

definition demo_harness :: harness_policy where
  "demo_harness = \<lparr>hp_stale_after = 0, hp_supervision = \<lparr>variation_window = 5, no_change_threshold = 3, budget_threshold = 3, failed_threshold = 3, direction_threshold = 3\<rparr>, hp_supervised = False,
     hp_parse = (\<lambda>_. None), hp_now = []\<rparr>"

theorem interrupted_variation_is_recovered_witness:
  "\<exists>st (v :: variation) (y :: variation) st'. harness_resume demo_harness (demo_setting 1) st = (st, Inl (recovery_required v)) \<and>
     recover_variation (\<lambda>_. None) 0 [] True (demo_setting 1) st = (st', Inr (Some y)) \<and> var_id y = var_id v \<and> var_termination y = Some INTERRUPTED"
proof -
  have C: "core_scope.proper validated_memory stored_revision mem_good (aware demo_policy) ''s'' (demo_setting k)" for k
    by (simp add: core_validated.proper_def demo_setting_simps no_writers)
  have quiet: "quiet (demo_setting k)" for k by (simp add: quiet_def demo_setting_simps)
  have "is_ok (snd (begin_variation (demo_setting 0) JNull JNull JNull demo_start))" by code_simp
  then obtain st v where run: "begin_variation (demo_setting 0) JNull JNull JNull demo_start = (st, Inr v)"
    by (cases "begin_variation (demo_setting 0) JNull JNull JNull demo_start"; cases "snd (begin_variation (demo_setting 0) JNull JNull JNull demo_start)") auto
  have none: "variations demo_first = []" by (simp add: first_memory_def seed_memory_def)
  have moved: "core_moves validated_memory stored_revision mem_good (aware demo_policy) ''s'' demo_start st"
    by (rule core_validated.begin_effect(1) [OF C demo_started(1) run])
  from core_validated.begin_effect(3) [OF C demo_started(1) run quiet demo_started(2) refl]
  obtain m where m: "core_at validated_memory ''s'' st = Some m" "core_step (aware demo_policy) demo_first m" "variations m = [v]"
    "var_status v = RUNNING_VARIATION" "var_id v = draw_id (core_draws (demo_setting 0)) 0" using none by auto
  have running: "running_variation m = Some v" using m(3,4) by (simp add: running_variation_def)
  have ids: "nonblank ''s''" "nonblank (draw_id (core_draws (demo_setting 0)) 0)" by code_simp+
  have calls: "0 \<le> var_calls v"
  proof -
    have "(case begin_variation (demo_setting 0) JNull JNull JNull demo_start of (_, Inr v) \<Rightarrow> var_calls v = 0 | _ \<Rightarrow> False)" by code_simp
    then show ?thesis by (simp add: run)
  qed
  have reach: "core_reach (aware demo_policy) m" by (rule reach_step [OF demo_started(3) m(2)])
  from interrupted_variation_is_recovered [where C = "demo_setting 1" and ok = "aware demo_policy", unfolded demo_setting_simps(2),
      OF demo_setting_simps(1,3,4) core_validated.moves_good [OF moved] m(1) reach running _ ids(1) _ calls, where H = demo_harness and parse = "\<lambda>_. None"
      and after = 0 and now = "[]"] ids(2)
  have "harness_resume demo_harness (demo_setting 1) st = (st, Inl (recovery_required v)) \<and>
     (\<exists>st' y. recover_variation (\<lambda>_. None) 0 [] True (demo_setting 1) st = (st', Inr (Some y)) \<and> var_id y = var_id v \<and> var_termination y = Some INTERRUPTED)"
    unfolding m(3,5) by auto
  then show ?thesis by blast
qed









end
