(* ===== verification/Core_Limits.thy ===== *)
theory Core_Limits
  imports Core_Props
begin

section \<open>Where the core harness falls short\<close>

text \<open>
  Two corners of the code, each shown by running the model: candidate keys that collide, and knowledge
  that is stored although the operation that stores it throws.
\<close>

text \<open>The keys of two different candidates can be the same text.\<close>

definition shifted_first :: candidate where
  "shifted_first = \<lparr>cand_id = ''a@b'', cand_version = ''c''\<rparr>"

definition shifted_start :: "core_memory sessions" where
  "shifted_start = fst (start_session validated_memory (demo_draws 0) (\<lambda>_ st. st) ''s'' (Some (JStr ''task'')) (Some (candidate_json shifted_first)) [])"

definition shifted_record :: jsval where
  "shifted_record = Some (JObj [(''candidate'', JObj [(''id'', JStr ''a''), (''version'', JStr ''b@c'')]), (''claim'', JStr ''tests pass''),
     (''status'', JStr ''PASS''), (''evidence'', JArr [JStr ''log''])])"

text \<open>So a verification of another candidate is recorded for the current one.\<close>

lemma foreign_verification_is_recorded:
  "(case record_verification (demo_setting 1) shifted_record shifted_start of
      (st, Inr v) \<Rightarrow> (case core_at validated_memory ''s'' st of
          Some m \<Rightarrow> vr_candidate (ver_record v) \<noteq> current_candidate m \<and> v \<in> set (current_verifications m)
        | None \<Rightarrow> False)
    | _ \<Rightarrow> False)"
  by code_simp

text \<open>Another writer that mutates the candidate after the draft was checked.\<close>

definition late_mutation :: "nat \<Rightarrow> core_memory sessions \<Rightarrow> core_memory sessions" where
  "late_mutation k st = (if k = 0 then fst (act (demo_setting 60) (version_json ''9'') st) else st)"

definition demo_knowledge :: jsval where
  "demo_knowledge = Some (JObj [(''kind'', JStr ''HYPOTHESIS''), (''statement'', JStr ''it scales'')])"

text \<open>The operation throws, and the record is stored, bound to a candidate it was not about.\<close>

lemma refused_knowledge_is_stored:
  "(case note_knowledge (\<lambda>_ _. 0) ((demo_setting 1)\<lparr>core_others := late_mutation\<rparr>) demo_knowledge demo_start of
      (st, Inl e) \<Rightarrow> (case core_at validated_memory ''s'' st of
          Some m \<Rightarrow> length (knowledge m) = 1 \<and> item_candidate (last (knowledge m)) = current_candidate m \<and>
            cand_version (current_candidate m) = ''9''
        | None \<Rightarrow> False)
    | _ \<Rightarrow> False)"
  by code_simp

end
