(* ===== verification/Spec2Isabelle.thy ===== *)
theory Spec2Isabelle
  imports Effect_Interleaving Detached_Manager_Props Trust_Props Blackboard_Work Async_Props Core_Gates Core_Limits
begin

text \<open>
  Verification library for ExHarness.
\<close>

end
